(* ===== verification/Prelude.thy ===== *)
theory Prelude
  imports
    Main
    "HOL-Library.List_Lexorder"
    "HOL-Library.Char_ord"
    "HOL-Library.Word"
    "HOL-Library.Multiset"
begin

text \<open>
  The vocabulary the components share.
  \<^item> UUIDs are represented by their canonical text (\<open>uuid.UUID.String()\<close>), which is what the
    SQLite store keeps and what the Go code compares; Go strings and byte slices are byte strings
    with the bytewise order; instants are nanoseconds since the Unix epoch.
  \<^item> The error values of \<open>internal/registry/store/errors.go\<close>, and results as sums.
  \<^item> SQL's three-valued logic, row lookup, and \<open>ORDER BY\<close> as insertion sort by a comparator, with
    the locale \<open>keyed_order\<close> of the laws a deterministic \<open>ORDER BY\<close> needs.
\<close>

named_theorems row_simps \<open>unfolding rules for table operations\<close>

type_synonym uuid = string
type_synonym time = int
type_synonym uint32 = "32 word"

subsection \<open>Error values and results\<close>

datatype store_error =
    NotFoundError string string
  | ValidationError string string
  | ConflictError string string "(string \<times> string) list"
  | ConversationIDConflictError string
  | ForbiddenError
  | BadRequestError string
  | InternalError string

type_synonym 'a result = "store_error + 'a"

text \<open>Sequencing of fallible steps: the first error is returned, as \<open>if err != nil\<close> does.\<close>

definition andThen :: "'e + 'a \<Rightarrow> ('a \<Rightarrow> 'e + 'b) \<Rightarrow> 'e + 'b" where
  "andThen r k = (case r of Inl e \<Rightarrow> Inl e | Inr x \<Rightarrow> k x)"

lemma andThen_simps [simp]:
  "andThen (Inl e) k = Inl e"
  "andThen (Inr x) k = k x"
  by (simp_all add: andThen_def)

lemma andThen_eq_Inr: "andThen r k = Inr y \<longleftrightarrow> (\<exists>x. r = Inr x \<and> k x = Inr y)"
  by (cases r) auto

subsection \<open>SQL predicates\<close>

text \<open>
  A SQL condition evaluates to true, false or NULL (\<open>None\<close>); a \<open>WHERE\<close> clause keeps the rows for
  which it is true. A comparison with a NULL operand is NULL.
\<close>

type_synonym sql_bool = "bool option"

fun sql_and :: "sql_bool \<Rightarrow> sql_bool \<Rightarrow> sql_bool" where
  "sql_and (Some False) _ = Some False"
| "sql_and _ (Some False) = Some False"
| "sql_and (Some True) (Some True) = Some True"
| "sql_and _ _ = None"

fun sql_or :: "sql_bool \<Rightarrow> sql_bool \<Rightarrow> sql_bool" where
  "sql_or (Some True) _ = Some True"
| "sql_or _ (Some True) = Some True"
| "sql_or (Some False) (Some False) = Some False"
| "sql_or _ _ = None"

fun sql_cmp :: "('a \<Rightarrow> 'a \<Rightarrow> bool) \<Rightarrow> 'a option \<Rightarrow> 'a option \<Rightarrow> sql_bool" where
  "sql_cmp r (Some x) (Some y) = Some (r x y)"
| "sql_cmp r _ _ = None"

definition sql_holds :: "sql_bool \<Rightarrow> bool" where
  "sql_holds b \<longleftrightarrow> b = Some True"

lemma sql_and_true [simp]: "sql_and a b = Some True \<longleftrightarrow> a = Some True \<and> b = Some True"
  by (cases "(a, b)" rule: sql_and.cases) auto

lemma sql_or_true [simp]: "sql_or a b = Some True \<longleftrightarrow> a = Some True \<or> b = Some True"
  by (cases "(a, b)" rule: sql_or.cases) auto

lemma sql_cmp_true [simp]:
  "sql_cmp r a b = Some True \<longleftrightarrow> (\<exists>x y. a = Some x \<and> b = Some y \<and> r x y)"
  by (cases a; cases b) auto

subsection \<open>Rows\<close>

text \<open>\<open>Limit(1).Find\<close> on a table with a unique key: the first row that matches.\<close>

lemma find_Some_set: "List.find P xs = Some x \<Longrightarrow> x \<in> set xs \<and> P x"
  by (auto simp: find_Some_iff)

lemma find_unique:
  assumes "distinct (map key xs)" and "x \<in> set xs"
  shows "List.find (\<lambda>y. key y = key x) xs = Some x"
  using assms
proof (induction xs)
  case Nil
  then show ?case by simp
next
  case (Cons y ys)
  then show ?case by (cases "y = x") force+
qed

lemma distinct_map_filter: "distinct (map f xs) \<Longrightarrow> distinct (map f (filter P xs))"
  by (induction xs) auto

lemma inj_on_of_distinct_map: "distinct (map f xs) \<Longrightarrow> inj_on f (set xs)"
  by (simp add: distinct_map)

subsection \<open>\<open>ORDER BY\<close>\<close>

fun insert_by :: "('a \<Rightarrow> 'a \<Rightarrow> bool) \<Rightarrow> 'a \<Rightarrow> 'a list \<Rightarrow> 'a list" where
  "insert_by lt x [] = [x]"
| "insert_by lt x (y # ys) = (if lt y x then y # insert_by lt x ys else x # y # ys)"

definition order_by :: "('a \<Rightarrow> 'a \<Rightarrow> bool) \<Rightarrow> 'a list \<Rightarrow> 'a list" where
  "order_by lt xs = foldr (insert_by lt) xs []"

lemma order_by_simps [simp]:
  "order_by lt [] = []"
  "order_by lt (x # xs) = insert_by lt x (order_by lt xs)"
  by (simp_all add: order_by_def)

lemma mset_insert_by [simp]: "mset (insert_by lt x xs) = add_mset x (mset xs)"
  by (induction xs) auto

lemma mset_order_by [simp]: "mset (order_by lt xs) = mset xs"
  by (induction xs) auto

lemma set_order_by [simp]: "set (order_by lt xs) = set xs"
  by (metis mset_order_by set_mset_mset)

lemma length_order_by [simp]: "length (order_by lt xs) = length xs"
  by (metis mset_order_by size_mset)

lemma distinct_order_by [simp]: "distinct (order_by lt xs) = distinct xs"
  by (metis mset_order_by mset_eq_imp_distinct_iff)

lemma distinct_map_order_by [simp]: "distinct (map f (order_by lt xs)) = distinct (map f xs)"
  by (rule mset_eq_imp_distinct_iff) simp

text \<open>
  The laws of a comparator that makes \<open>ORDER BY\<close> deterministic: a strict order that decides between
  any two rows with different keys.
\<close>

locale keyed_order =
  fixes lt :: "'a \<Rightarrow> 'a \<Rightarrow> bool" and key :: "'a \<Rightarrow> 'k"
  assumes lt_irrefl: "\<not> lt a a"
    and lt_trans: "lt a b \<Longrightarrow> lt b c \<Longrightarrow> lt a c"
    and lt_total: "key a \<noteq> key b \<Longrightarrow> lt a b \<or> lt b a"
begin

lemma lt_asym: "lt a b \<Longrightarrow> \<not> lt b a"
  using lt_irrefl lt_trans by blast

lemma not_lt_iff: "key a \<noteq> key b \<Longrightarrow> \<not> lt a b \<longleftrightarrow> lt b a"
  using lt_total lt_asym by blast

lemma sorted_insert_by:
  assumes "sorted_wrt lt xs" and "\<And>y. y \<in> set xs \<Longrightarrow> key y \<noteq> key x"
  shows "sorted_wrt lt (insert_by lt x xs)"
  using assms
proof (induction xs)
  case Nil
  then show ?case by simp
next
  case (Cons y ys)
  have set_ins: "set (insert_by lt x ys) = insert x (set ys)"
    by (metis mset_insert_by set_mset_add_mset_insert set_mset_mset)
  from Cons have "sorted_wrt lt (insert_by lt x ys)" by simp
  then show ?case using Cons.prems set_ins not_lt_iff[of y x] by (auto intro: lt_trans)
qed

lemma sorted_order_by: "distinct (map key xs) \<Longrightarrow> sorted_wrt lt (order_by lt xs)"
proof (induction xs)
  case Nil
  then show ?case by simp
next
  case (Cons x xs)
  then have "sorted_wrt lt (order_by lt xs)" by simp
  with Cons.prems show ?case by (simp, intro sorted_insert_by) (auto simp: image_iff)
qed

lemma sorted_distinct: "sorted_wrt lt xs \<Longrightarrow> distinct xs"
  using lt_irrefl by (induction xs) auto

lemma sorted_unique:
  assumes "sorted_wrt lt xs" and "sorted_wrt lt ys" and "set xs = set ys"
  shows "xs = ys"
  using assms
proof (induction xs arbitrary: ys)
  case Nil
  then show ?case by simp
next
  case (Cons x xs)
  then obtain y ys' where ys: "ys = y # ys'" by (cases ys) auto
  have "x = y"
  proof (rule ccontr)
    assume "x \<noteq> y"
    with Cons.prems ys have "lt y x" and "lt x y" by auto
    then show False using lt_asym by blast
  qed
  moreover have "set xs = set ys'"
    using Cons.prems(3) sorted_distinct[OF Cons.prems(1)] sorted_distinct[OF Cons.prems(2)]
    unfolding ys \<open>x = y\<close> by auto
  ultimately show ?case using Cons ys by auto
qed

lemma order_by_unique:
  assumes "distinct (map key xs)" and "sorted_wrt lt ys" and "set ys = set xs"
  shows "order_by lt xs = ys"
  using assms by (intro sorted_unique) (auto intro: sorted_order_by)

lemma order_by_filter:
  assumes "distinct (map key xs)"
  shows "order_by lt (filter P xs) = filter P (order_by lt xs)"
  using assms
  by (intro order_by_unique)
     (auto simp: distinct_map_filter intro: sorted_wrt_filter sorted_order_by)

lemma order_by_desc:
  assumes "distinct (map key xs)"
  shows "order_by (\<lambda>a b. lt b a) xs = rev (order_by lt xs)"
proof -
  have "keyed_order (\<lambda>a b. lt b a) key"
    using lt_irrefl lt_trans lt_total by unfold_locales blast+
  from keyed_order.order_by_unique[OF this assms, of "rev (order_by lt xs)"]
  show ?thesis using sorted_order_by[OF assms] by (simp add: sorted_wrt_rev)
qed

lemma order_by_append:
  assumes "distinct (map key (xs @ ys))"
    and "\<And>x y. x \<in> set xs \<Longrightarrow> y \<in> set ys \<Longrightarrow> lt x y"
  shows "order_by lt (xs @ ys) = order_by lt xs @ order_by lt ys"
proof (rule order_by_unique[OF assms(1)])
  show "sorted_wrt lt (order_by lt xs @ order_by lt ys)"
    using assms sorted_order_by[of xs] sorted_order_by[of ys] by (simp add: sorted_wrt_append)
qed simp

lemma order_by_sorted: "sorted_wrt lt xs \<Longrightarrow> distinct (map key xs) \<Longrightarrow> order_by lt xs = xs"
  by (simp add: order_by_unique)

lemma filter_below_split:
  assumes "sorted_wrt lt (pre @ a # post)"
  shows "filter (\<lambda>e. lt e a) (pre @ a # post) = pre"
    and "filter (\<lambda>e. lt a e) (pre @ a # post) = post"
  using assms lt_irrefl lt_asym
  by (auto simp: sorted_wrt_append filter_empty_conv filter_id_conv)

end

subsection \<open>List segments\<close>

lemma rev_take_rev: "rev (take n (rev xs)) = drop (length xs - n) xs"
  by (simp add: rev_take)

lemma drop_Suc_tl: "drop (Suc n) xs = tl (drop n xs)"
  by (simp add: drop_Suc drop_tl)

lemma map_nth_upt: "map (\<lambda>i. f (xs ! i)) [0..<length xs] = map f xs"
  by (rule nth_equalityI) auto

subsection \<open>Strings\<close>

text \<open>\<open>strings.TrimSpace\<close> on the ASCII white space.\<close>

definition isSpace :: "char \<Rightarrow> bool" where
  "isSpace c \<longleftrightarrow> c \<in> {CHR 0x09, CHR 0x0A, CHR 0x0B, CHR 0x0C, CHR 0x0D, CHR 0x20}"

definition TrimSpace :: "string \<Rightarrow> string" where
  "TrimSpace s = rev (dropWhile isSpace (rev (dropWhile isSpace s)))"

end
