(* ===== verification/Entries.thy ===== *)
theory Entries
  imports Prelude
begin

text \<open>
  Entries and the order of entries. The row type is \<open>model.Entry\<close> of \<open>internal/model/model.go\<close>.
  The order "creation time, then sequence number with absent ones first, then id" is written four
  times in the source: \<open>entryOrderLess\<close> of the SQLite store, \<open>compareForkEntries\<close> of
  \<open>internal/registry/store/forks.go\<close>, the \<open>ORDER BY\<close> and \<open>WHERE\<close> fragments of
  \<open>internal/plugin/store/sqlentry/order.go\<close>, and the join condition \<open>visibleAncestryEntrySQL\<close>.
  The lemmas show that all of them are the same strict total order, which the interpretation
  \<open>entry_ord\<close> of \<open>keyed_order\<close> records. The SQLite columns \<open>(created_at, created_at_ns)\<close> are one instant.
\<close>

section \<open>Rows\<close>

type_synonym Channel = string

definition ChannelHistory :: Channel where "ChannelHistory = ''history''"
definition ChannelContext :: Channel where "ChannelContext = ''context''"
definition ChannelJournal :: Channel where "ChannelJournal = ''journal''"

lemma channel_distinct [simp]:
  "ChannelHistory \<noteq> ChannelContext" "ChannelContext \<noteq> ChannelHistory"
  "ChannelHistory \<noteq> ChannelJournal" "ChannelJournal \<noteq> ChannelHistory"
  "ChannelContext \<noteq> ChannelJournal" "ChannelJournal \<noteq> ChannelContext"
  "ChannelHistory \<noteq> []" "ChannelContext \<noteq> []" "ChannelJournal \<noteq> []"
  by (simp_all add: ChannelHistory_def ChannelContext_def ChannelJournal_def)

record Entry =
  e_AppendBatch :: "string option"
  e_ID :: uuid
  e_ConversationID :: string
  e_ConversationGroupID :: uuid
  e_UserID :: "string option"
  e_ClientID :: "string option"
  e_AgentID :: "string option"
  e_Channel :: Channel
  e_Epoch :: "int option"
  e_Seq :: "uint32 option"
  e_ContentType :: string
  e_Content :: string
  e_IndexedContent :: "string option"
  e_IndexedAt :: "time option"
  e_CreatedAt :: time

record ConversationAncestry =
  ca_ConversationGroupID :: uuid
  ca_DescendantConversationID :: string
  ca_AncestorConversationID :: string
  ca_Depth :: nat
  ca_BeforeEntryID :: "uuid option"
  ca_ForkedAtEntryID :: "uuid option"

section \<open>The order of entries\<close>

definition entryOrderLess :: "Entry \<Rightarrow> Entry \<Rightarrow> bool" where
  "entryOrderLess left right =
     (if e_CreatedAt left \<noteq> e_CreatedAt right then e_CreatedAt left < e_CreatedAt right
      else case (e_Seq left, e_Seq right) of
        (None, Some _) \<Rightarrow> True
      | (Some _, None) \<Rightarrow> False
      | (None, None) \<Rightarrow> e_ID left < e_ID right
      | (Some l, Some r) \<Rightarrow> (if l \<noteq> r then l < r else e_ID left < e_ID right))"

definition compareForkEntries :: "Entry \<Rightarrow> Entry \<Rightarrow> int" where
  "compareForkEntries a b =
     (if e_CreatedAt a < e_CreatedAt b then -1
      else if e_CreatedAt a > e_CreatedAt b then 1
      else
        let byID = (if e_ID a < e_ID b then -1 else if e_ID a > e_ID b then 1 else 0)
        in case (e_Seq a, e_Seq b) of
             (Some x, Some y) \<Rightarrow> (if x < y then -1 else if x > y then 1 else byID)
           | (None, Some _) \<Rightarrow> -1
           | (Some _, None) \<Rightarrow> 1
           | (None, None) \<Rightarrow> byID)"

text \<open>
  \<open>EntryOrderSQL\<close> as a comparator: \<open>created_at\<close>, then \<open>seq\<close> with NULLs first (last when descending),
  then \<open>id\<close>, each in the given direction.
\<close>

definition EntryOrderSQL :: "bool \<Rightarrow> Entry \<Rightarrow> Entry \<Rightarrow> bool" where
  "EntryOrderSQL descending a b =
     (let time = (if descending then e_CreatedAt b < e_CreatedAt a else e_CreatedAt a < e_CreatedAt b);
          seq = (case (e_Seq a, e_Seq b) of
                   (None, None) \<Rightarrow> False
                 | (None, Some _) \<Rightarrow> \<not> descending
                 | (Some _, None) \<Rightarrow> descending
                 | (Some x, Some y) \<Rightarrow> if descending then y < x else x < y);
          id = (if descending then e_ID b < e_ID a else e_ID a < e_ID b)
      in time \<or> (e_CreatedAt a = e_CreatedAt b \<and> (seq \<or> (e_Seq a = e_Seq b \<and> id))))"

definition whereEntryOrder :: "Entry \<Rightarrow> bool \<Rightarrow> bool \<Rightarrow> Entry \<Rightarrow> sql_bool" where
  "whereEntryOrder bound after inclusive row =
     (let t = e_CreatedAt row; b = e_CreatedAt bound; seq = e_Seq row;
          rangeOp = Some (if after then t \<ge> b else t \<le> b);
          op = Some (if after then t > b else t < b);
          idOp = Some (if after then (if inclusive then e_ID row \<ge> e_ID bound else e_ID row > e_ID bound)
                       else (if inclusive then e_ID row \<le> e_ID bound else e_ID row < e_ID bound));
          tie = (case e_Seq bound of
                   None \<Rightarrow>
                     if after then sql_or (Some (seq \<noteq> None)) idOp
                     else sql_and (Some (seq = None)) idOp
                 | Some s \<Rightarrow>
                     if after
                     then sql_or (sql_cmp (>) seq (Some s)) (sql_and (sql_cmp (=) seq (Some s)) idOp)
                     else sql_or (Some (seq = None))
                            (sql_or (sql_cmp (<) seq (Some s)) (sql_and (sql_cmp (=) seq (Some s)) idOp)))
      in sql_and rangeOp (sql_or op (sql_and (Some (t = b)) tie)))"

text \<open>The boundary comes from a \<open>LEFT JOIN\<close>: every column of an absent boundary is NULL.\<close>

definition visibleAncestryEntrySQL :: "Entry \<Rightarrow> ConversationAncestry \<Rightarrow> Entry option \<Rightarrow> sql_bool" where
  "visibleAncestryEntrySQL e ca boundary =
     (let bt = map_option e_CreatedAt boundary; bseq = Option.bind boundary e_Seq;
          bid = map_option e_ID boundary; et = Some (e_CreatedAt e); es = e_Seq e; eid = Some (e_ID e)
      in sql_or (Some (ca_Depth ca = 0))
           (sql_and (Some (ca_BeforeEntryID ca \<noteq> None))
              (sql_or (sql_cmp (<) et bt)
                 (sql_and (sql_cmp (=) et bt)
                    (sql_or
                       (sql_and (Some (es = None)) (sql_and (Some (bseq = None)) (sql_cmp (<) eid bid)))
                       (sql_and (Some (bseq \<noteq> None))
                          (sql_or (Some (es = None))
                             (sql_or (sql_cmp (<) es bseq)
                                (sql_and (sql_cmp (=) es bseq) (sql_cmp (<) eid bid))))))))))"

definition seqOrderSQL :: "bool \<Rightarrow> Entry \<Rightarrow> Entry \<Rightarrow> bool" where
  "seqOrderSQL descending a b =
     (let lt = (\<lambda>x y. case (e_Seq x, e_Seq y) of
                  (None, None) \<Rightarrow> e_ID x < e_ID y
                | (None, Some _) \<Rightarrow> True
                | (Some _, None) \<Rightarrow> False
                | (Some m, Some n) \<Rightarrow> m < n \<or> (m = n \<and> e_ID x < e_ID y))
      in if descending then lt b a else lt a b)"

definition WhereSeqOrderBeforeAlias :: "Entry \<Rightarrow> Entry \<Rightarrow> sql_bool" where
  "WhereSeqOrderBeforeAlias bound row =
     (case e_Seq bound of
        None \<Rightarrow> Some False
      | Some s \<Rightarrow> sql_or (sql_cmp (<) (e_Seq row) (Some s))
                    (sql_and (sql_cmp (=) (e_Seq row) (Some s)) (Some (e_ID row < e_ID bound))))"

definition WhereSeqOrderStrictlyAfterAlias :: "Entry \<Rightarrow> Entry \<Rightarrow> sql_bool" where
  "WhereSeqOrderStrictlyAfterAlias bound row =
     (case e_Seq bound of
        None \<Rightarrow> Some False
      | Some s \<Rightarrow> sql_or (sql_cmp (>) (e_Seq row) (Some s))
                    (sql_and (sql_cmp (=) (e_Seq row) (Some s)) (Some (e_ID row > e_ID bound))))"

section \<open>One order\<close>

lemmas seq_splits = option.splits prod.splits

lemma entryOrderLess_irrefl [simp]: "\<not> entryOrderLess a a"
  by (auto simp: entryOrderLess_def split: option.splits)

lemma entryOrderLess_trans:
  "entryOrderLess a b \<Longrightarrow> entryOrderLess b c \<Longrightarrow> entryOrderLess a c"
  by (cases "e_Seq a"; cases "e_Seq b"; cases "e_Seq c")
     (auto simp: entryOrderLess_def split: if_splits)

lemma entryOrderLess_total: "e_ID a \<noteq> e_ID b \<Longrightarrow> entryOrderLess a b \<or> entryOrderLess b a"
  by (auto simp: entryOrderLess_def split: option.splits)

interpretation entry_ord: keyed_order entryOrderLess e_ID
  using entryOrderLess_trans entryOrderLess_total by unfold_locales auto

lemma entryOrderLess_time: "e_CreatedAt a < e_CreatedAt b \<Longrightarrow> entryOrderLess a b"
  by (simp add: entryOrderLess_def)

lemma EntryOrderSQL_asc: "EntryOrderSQL False = entryOrderLess"
  by (intro ext) (auto simp: EntryOrderSQL_def entryOrderLess_def Let_def split: option.splits)

lemma EntryOrderSQL_desc: "EntryOrderSQL True = (\<lambda>a b. entryOrderLess b a)"
  by (intro ext) (auto simp: EntryOrderSQL_def entryOrderLess_def Let_def split: option.splits)

lemma compareForkEntries_less: "compareForkEntries a b < 0 \<longleftrightarrow> entryOrderLess a b"
  by (auto simp: compareForkEntries_def entryOrderLess_def Let_def split: option.splits)

lemma compareForkEntries_sym: "compareForkEntries b a = - compareForkEntries a b"
  by (auto simp: compareForkEntries_def Let_def split: option.splits)

lemma compareForkEntries_eq:
  "compareForkEntries a b = 0 \<longleftrightarrow> e_CreatedAt a = e_CreatedAt b \<and> e_Seq a = e_Seq b \<and> e_ID a = e_ID b"
  by (auto simp: compareForkEntries_def Let_def split: option.splits if_splits)

lemma whereEntryOrder_before: "sql_holds (whereEntryOrder b False False a) \<longleftrightarrow> entryOrderLess a b"
  by (auto simp: sql_holds_def whereEntryOrder_def entryOrderLess_def Let_def split: option.splits)

lemma whereEntryOrder_after: "sql_holds (whereEntryOrder b True False a) \<longleftrightarrow> entryOrderLess b a"
  by (auto simp: sql_holds_def whereEntryOrder_def entryOrderLess_def Let_def split: option.splits)

lemma whereEntryOrder_atOrBefore:
  "sql_holds (whereEntryOrder b False True a) \<longleftrightarrow> entryOrderLess a b \<or> compareForkEntries a b = 0"
  by (auto simp: sql_holds_def whereEntryOrder_def entryOrderLess_def compareForkEntries_eq Let_def
      split: option.splits)

lemma visibleAncestryEntrySQL_self:
  "ca_Depth ca = 0 \<Longrightarrow> sql_holds (visibleAncestryEntrySQL e ca b)"
  by (simp add: sql_holds_def visibleAncestryEntrySQL_def Let_def)

lemma visibleAncestryEntrySQL_none:
  "ca_Depth ca \<noteq> 0 \<Longrightarrow> \<not> sql_holds (visibleAncestryEntrySQL e ca None)"
  by (auto simp: sql_holds_def visibleAncestryEntrySQL_def Let_def)

lemma visibleAncestryEntrySQL_some:
  "ca_Depth ca \<noteq> 0 \<Longrightarrow> ca_BeforeEntryID ca \<noteq> None \<Longrightarrow>
   sql_holds (visibleAncestryEntrySQL e ca (Some b)) \<longleftrightarrow> entryOrderLess e b"
  by (auto simp: sql_holds_def visibleAncestryEntrySQL_def entryOrderLess_def Let_def
      split: option.splits)

lemma seqOrderSQL_desc: "seqOrderSQL True = (\<lambda>a b. seqOrderSQL False b a)"
  by (intro ext) (simp add: seqOrderSQL_def)

interpretation seq_ord: keyed_order "seqOrderSQL False" e_ID
proof unfold_locales
  fix a b c :: Entry
  show "\<not> seqOrderSQL False a a"
    by (auto simp: seqOrderSQL_def split: option.splits)
  show "seqOrderSQL False a b \<Longrightarrow> seqOrderSQL False b c \<Longrightarrow> seqOrderSQL False a c"
    by (cases "e_Seq a"; cases "e_Seq b"; cases "e_Seq c") (auto simp: seqOrderSQL_def)
  show "e_ID a \<noteq> e_ID b \<Longrightarrow> seqOrderSQL False a b \<or> seqOrderSQL False b a"
    by (auto simp: seqOrderSQL_def Let_def split: option.splits)
qed

lemma WhereSeqOrder_before:
  assumes "e_Seq a \<noteq> None" and "e_Seq b \<noteq> None"
  shows "sql_holds (WhereSeqOrderBeforeAlias b a) \<longleftrightarrow> seqOrderSQL False a b"
    and "sql_holds (WhereSeqOrderStrictlyAfterAlias b a) \<longleftrightarrow> seqOrderSQL False b a"
  using assms
  by (auto simp: sql_holds_def WhereSeqOrderBeforeAlias_def WhereSeqOrderStrictlyAfterAlias_def
      seqOrderSQL_def Let_def split: option.splits)

text \<open>
  C33 (entry_orders_agree): the in-memory order of the store, the fork comparator, the \<open>ORDER BY\<close> clause in
  both directions, the keyset conditions in both directions and the visibility join are one and the
  same strict order, and it decides between any two entries with different ids.
\<close>

theorem entry_orders_agree:
  "\<not> entryOrderLess a a
   \<and> (e_ID a = e_ID b \<or> entryOrderLess a b \<or> entryOrderLess b a)
   \<and> (compareForkEntries a b < 0) = entryOrderLess a b
   \<and> EntryOrderSQL False a b = entryOrderLess a b
   \<and> EntryOrderSQL True a b = entryOrderLess b a
   \<and> sql_holds (whereEntryOrder b False False a) = entryOrderLess a b
   \<and> sql_holds (whereEntryOrder b True False a) = entryOrderLess b a
   \<and> sql_holds (visibleAncestryEntrySQL a
         \<lparr>ca_ConversationGroupID = g, ca_DescendantConversationID = c, ca_AncestorConversationID = p,
          ca_Depth = Suc n, ca_BeforeEntryID = Some (e_ID b), ca_ForkedAtEntryID = f\<rparr> (Some b))
       = entryOrderLess a b"
  using entryOrderLess_total[of a b]
  by (auto simp: compareForkEntries_less EntryOrderSQL_asc EntryOrderSQL_desc whereEntryOrder_before
      whereEntryOrder_after visibleAncestryEntrySQL_some)

end
