(* ===== verification/Pagination.thy ===== *)
theory Pagination
  imports Entries
begin

text \<open>
  Entry listing. \<open>PaginateEntries\<close> and \<open>TrimEntriesToVisiblePrefix\<close>
  (\<open>internal/registry/store/entries.go\<close>) page through a list held in memory;
  \<open>BoundedEntriesFromBase\<close> and \<open>RunBoundedQuery\<close> (\<open>internal/plugin/store/sqlentry/pager.go\<close>) do it
  with keyset conditions and \<open>LIMIT limit+1\<close> in SQL, where a query is the list of rows of its
  relation in no particular order. The epoch, sequence and time filters of the SQLite store and of
  \<open>sqlentry\<close> follow. The lemmas show that the SQL pager refines \<open>PaginateEntries\<close> on the ordered rows,
  that following \<open>afterCursor\<close> visits every row exactly once, and that the one-pass epoch filters
  agree with the two-query SQL form.
\<close>

section \<open>Paging a list in memory\<close>

type_synonym page = "Entry list \<times> string option \<times> string option"

fun find_index :: "('a \<Rightarrow> bool) \<Rightarrow> 'a list \<Rightarrow> nat option" where
  "find_index P [] = None"
| "find_index P (x # xs) = (if P x then Some 0 else map_option Suc (find_index P xs))"

definition paginateTail :: "Entry list \<Rightarrow> nat \<Rightarrow> page" where
  "paginateTail entries limit =
     (let start = length entries - limit
      in (drop start entries, None, if start > 0 then Some (e_ID (entries ! start)) else None))"

definition paginateBefore :: "Entry list \<Rightarrow> string \<Rightarrow> nat \<Rightarrow> string + page" where
  "paginateBefore entries beforeEntryID limit =
     (case find_index (\<lambda>e. e_ID e = beforeEntryID) entries of
        None \<Rightarrow> Inl ''beforeCursor entry not found in visible results''
      | Some anchorIdx \<Rightarrow>
          let start = anchorIdx - limit; page = drop start (take anchorIdx entries)
          in if page = [] then Inr ([], None, None)
             else Inr (page, Some (e_ID (entries ! (anchorIdx - 1))),
                       if start > 0 then Some (e_ID (entries ! start)) else None))"

definition paginateForward :: "Entry list \<Rightarrow> nat \<Rightarrow> nat \<Rightarrow> page" where
  "paginateForward entries start limit =
     (if start \<ge> length entries then ([], None, None)
      else
        let endd = min (start + limit) (length entries); page = drop start (take endd entries)
        in (page,
            if endd < length entries \<and> page \<noteq> [] then Some (e_ID (last page)) else None,
            if start > 0 \<and> page \<noteq> [] then Some (e_ID (hd page)) else None))"

definition PaginateEntries ::
  "Entry list \<Rightarrow> string option \<Rightarrow> string option \<Rightarrow> bool \<Rightarrow> int \<Rightarrow> string + page" where
  "PaginateEntries entries afterEntryID beforeEntryID tail limit0 =
     (let limit = nat (if limit0 \<le> 0 then 50 else limit0)
      in if entries = [] then Inr ([], None, None)
         else if tail then Inr (paginateTail entries limit)
         else case beforeEntryID of
           Some b \<Rightarrow> paginateBefore entries b limit
         | None \<Rightarrow>
             (case afterEntryID of
                None \<Rightarrow> Inr (paginateForward entries 0 limit)
              | Some a \<Rightarrow>
                  (case find_index (\<lambda>e. e_ID e = a) entries of
                     None \<Rightarrow> Inl ''afterCursor entry not found in visible results''
                   | Some i \<Rightarrow> Inr (paginateForward entries (i + 1) limit))))"

fun visiblePrefixIDs :: "Entry list \<Rightarrow> string \<Rightarrow> string list \<times> bool" where
  "visiblePrefixIDs [] upTo = ([], False)"
| "visiblePrefixIDs (e # es) upTo =
     (if e_ID e = upTo then ([e_ID e], True)
      else let (ids, found) = visiblePrefixIDs es upTo in (e_ID e # ids, found))"

definition TrimEntriesToVisiblePrefix ::
  "Entry list \<Rightarrow> Entry list \<Rightarrow> string option \<Rightarrow> Entry list result" where
  "TrimEntriesToVisiblePrefix entries visible upToEntryID =
     (case upToEntryID of
        None \<Rightarrow> Inr entries
      | Some upTo \<Rightarrow>
          if upTo = [] then Inr entries
          else let (visibleIDs, found) = visiblePrefixIDs visible upTo
               in if \<not> found then Inl (NotFoundError ''entry'' upTo)
                  else Inr (filter (\<lambda>e. e_ID e \<in> set visibleIDs) entries))"

section \<open>Filters\<close>

record MemoryEpochFilter =
  ef_Mode :: string
  ef_Epoch :: "int option"

definition MemoryEpochModeLatest :: string where "MemoryEpochModeLatest = ''latest''"
definition MemoryEpochModeAll :: string where "MemoryEpochModeAll = ''all''"
definition MemoryEpochModeEpoch :: string where "MemoryEpochModeEpoch = ''epoch''"

lemma epoch_mode_distinct [simp]:
  "MemoryEpochModeLatest \<noteq> MemoryEpochModeAll" "MemoryEpochModeLatest \<noteq> MemoryEpochModeEpoch"
  "MemoryEpochModeAll \<noteq> MemoryEpochModeEpoch" "MemoryEpochModeEpoch \<noteq> MemoryEpochModeAll"
  by (simp_all add: MemoryEpochModeLatest_def MemoryEpochModeAll_def MemoryEpochModeEpoch_def)

definition normalizeEpochFilter :: "MemoryEpochFilter option \<Rightarrow> MemoryEpochFilter" where
  "normalizeEpochFilter flt =
     (case flt of
        None \<Rightarrow> \<lparr>ef_Mode = MemoryEpochModeLatest, ef_Epoch = None\<rparr>
      | Some f \<Rightarrow> if ef_Mode f = [] then \<lparr>ef_Mode = MemoryEpochModeLatest, ef_Epoch = None\<rparr> else f)"

text \<open>\<open>COALESCE(e.epoch, 0)\<close>, and \<open>MAX\<close> of it over a relation (NULL when there is no row).\<close>

definition entryEpoch :: "Entry \<Rightarrow> int" where
  "entryEpoch e = (case e_Epoch e of None \<Rightarrow> 0 | Some n \<Rightarrow> n)"

fun maxEpoch :: "Entry list \<Rightarrow> int option" where
  "maxEpoch [] = None"
| "maxEpoch (e # es) =
     (case maxEpoch es of None \<Rightarrow> Some (entryEpoch e) | Some m \<Rightarrow> Some (max (entryEpoch e) m))"

definition ApplyEpochFilter :: "Entry list \<Rightarrow> MemoryEpochFilter option \<Rightarrow> bool \<Rightarrow> Entry list" where
  "ApplyEpochFilter base epochFilter latestWhenNil =
     (if epochFilter = None \<and> \<not> latestWhenNil then base
      else let epoch = normalizeEpochFilter epochFilter
           in if ef_Mode epoch = MemoryEpochModeAll then base
              else if ef_Mode epoch = MemoryEpochModeEpoch then
                (case ef_Epoch epoch of
                   None \<Rightarrow> []
                 | Some n \<Rightarrow> filter (\<lambda>e. entryEpoch e = n) base)
              else (case maxEpoch base of
                      None \<Rightarrow> []
                    | Some m \<Rightarrow> filter (\<lambda>e. entryEpoch e = m) base))"

definition applySQLEpochFilterToBase :: "Entry list \<Rightarrow> MemoryEpochFilter option \<Rightarrow> Entry list" where
  "applySQLEpochFilterToBase base epochFilter =
     (if epochFilter = None then base
      else let epoch = normalizeEpochFilter epochFilter
           in if ef_Mode epoch = MemoryEpochModeAll then base
              else if ef_Mode epoch = MemoryEpochModeEpoch then
                (case ef_Epoch epoch of
                   None \<Rightarrow> filter (\<lambda>e. e_Channel e \<noteq> ChannelContext) base
                 | Some n \<Rightarrow> filter (\<lambda>e. e_Channel e \<noteq> ChannelContext \<or> entryEpoch e = n) base)
              else (case maxEpoch (filter (\<lambda>e. e_Channel e = ChannelContext) base) of
                      None \<Rightarrow> base
                    | Some m \<Rightarrow> filter (\<lambda>e. e_Channel e \<noteq> ChannelContext \<or> entryEpoch e = m) base))"

text \<open>
  The one-pass loop: the result collected so far, the largest epoch seen and whether one was seen;
  a larger epoch empties the result.
\<close>

type_synonym epoch_loop = "Entry list \<times> int \<times> bool"

definition epochLoopStep :: "MemoryEpochFilter \<Rightarrow> Entry \<Rightarrow> epoch_loop \<Rightarrow> epoch_loop" where
  "epochLoopStep epoch entry st =
     (case st of (result, maxEpochSeen, initialized) \<Rightarrow>
        let n = entryEpoch entry in
        if ef_Mode epoch = MemoryEpochModeAll then (result @ [entry], maxEpochSeen, initialized)
        else if ef_Mode epoch = MemoryEpochModeEpoch then
          (if ef_Epoch epoch = Some n then result @ [entry] else result, maxEpochSeen, initialized)
        else
          let (result1, seen1, init1) =
                (if \<not> initialized \<or> n > maxEpochSeen then ([], n, True)
                 else (result, maxEpochSeen, initialized))
          in (if n = seen1 then result1 @ [entry] else result1, seen1, init1))"

definition filterEntriesByEpoch :: "Entry list \<Rightarrow> MemoryEpochFilter option \<Rightarrow> Entry list" where
  "filterEntriesByEpoch entries epochFilter =
     fst (fold (epochLoopStep (normalizeEpochFilter epochFilter)) entries ([], 0, False))"

definition filterVisibleMemoryEntriesWithEpoch ::
  "Entry list \<Rightarrow> string \<Rightarrow> string \<Rightarrow> MemoryEpochFilter option \<Rightarrow> Entry list" where
  "filterVisibleMemoryEntriesWithEpoch entries clientID agentID epochFilter =
     fst (fold (\<lambda>entry st.
            if e_Channel entry \<noteq> ChannelContext \<or> e_ClientID entry \<noteq> Some clientID then st
            else epochLoopStep (normalizeEpochFilter epochFilter) entry st) entries ([], 0, False))"

definition filterEntriesForAllChannels :: "Entry list \<Rightarrow> string option \<Rightarrow> Entry list" where
  "filterEntriesForAllChannels entries clientID =
     filter (\<lambda>entry. \<not> (e_Channel entry = ChannelContext \<or> e_Channel entry = ChannelJournal) \<or>
               (clientID \<noteq> None \<and> e_ClientID entry = clientID)) entries"

definition filterEntriesForAllForks ::
  "Entry list \<Rightarrow> Channel \<Rightarrow> string option \<Rightarrow> string option \<Rightarrow> MemoryEpochFilter option \<Rightarrow> Entry list" where
  "filterEntriesForAllForks entries channel clientID agentID epochFilter =
     (if channel = [] then filterEntriesForAllChannels entries clientID
      else
        let filtered = filter (\<lambda>entry. e_Channel entry = channel \<and>
              \<not> ((channel = ChannelContext \<or> channel = ChannelJournal) \<and> clientID \<noteq> None \<and>
                 e_ClientID entry \<noteq> clientID)) entries
        in if channel \<noteq> ChannelContext then filtered
           else
             let epoch = normalizeEpochFilter epochFilter
             in if ef_Mode epoch = MemoryEpochModeAll then filtered
                else if ef_Mode epoch = MemoryEpochModeEpoch then
                  (case ef_Epoch epoch of
                     None \<Rightarrow> []
                   | Some n \<Rightarrow> filter (\<lambda>e. entryEpoch e = n) filtered)
                else (case maxEpoch filtered of
                        None \<Rightarrow> []
                      | Some m \<Rightarrow> filter (\<lambda>e. entryEpoch e = m) filtered))"

record CreatedAtFilter =
  cf_After :: "time option"
  cf_Before :: "time option"
  cf_Eq :: "time option"

definition FilterEntriesByCreatedAt :: "Entry list \<Rightarrow> CreatedAtFilter option \<Rightarrow> Entry list" where
  "FilterEntriesByCreatedAt entries flt =
     (case flt of
        None \<Rightarrow> entries
      | Some f \<Rightarrow>
          filter (\<lambda>e. case cf_Eq f of
                    Some t \<Rightarrow> e_CreatedAt e = t
                  | None \<Rightarrow>
                      \<not> (\<exists>t \<in> set_option (cf_After f). e_CreatedAt e < t) \<and>
                      \<not> (\<exists>t \<in> set_option (cf_Before f). e_CreatedAt e > t)) entries)"

definition ApplyCreatedAtFilter :: "Entry list \<Rightarrow> CreatedAtFilter option \<Rightarrow> Entry list" where
  "ApplyCreatedAtFilter base flt =
     (case flt of
        None \<Rightarrow> base
      | Some f \<Rightarrow>
          (case cf_Eq f of
             Some t \<Rightarrow> filter (\<lambda>e. e_CreatedAt e = t) base
           | None \<Rightarrow>
               let base1 = (case cf_After f of None \<Rightarrow> base | Some t \<Rightarrow> filter (\<lambda>e. e_CreatedAt e \<ge> t) base)
               in (case cf_Before f of None \<Rightarrow> base1 | Some t \<Rightarrow> filter (\<lambda>e. e_CreatedAt e \<le> t) base1)))"

text \<open>\<open>sort.Slice\<close> leaves the order of equal sequence numbers open; the model keeps the list order.\<close>

definition filterEntriesByFromSeq :: "Entry list \<Rightarrow> uint32 \<Rightarrow> Entry list" where
  "filterEntriesByFromSeq entries fromSeq =
     sort_key (\<lambda>e. the (e_Seq e)) (filter (\<lambda>e. case e_Seq e of None \<Rightarrow> False | Some s \<Rightarrow> s \<ge> fromSeq) entries)"

section \<open>Paging in SQL\<close>

type_synonym lookup = "string \<Rightarrow> Entry option"
type_synonym cursor_error = "string \<Rightarrow> string \<Rightarrow> store_error"

text \<open>The \<open>ORDER BY\<close> of a bounded query and its cursor condition, by sequence number when \<open>fromSeq\<close> is given.\<close>

definition pagerOrder :: "uint32 option \<Rightarrow> bool \<Rightarrow> Entry \<Rightarrow> Entry \<Rightarrow> bool" where
  "pagerOrder fromSeq descending = (if fromSeq \<noteq> None then seqOrderSQL descending else EntryOrderSQL descending)"

definition pagerWhere :: "uint32 option \<Rightarrow> bool \<Rightarrow> Entry \<Rightarrow> Entry \<Rightarrow> bool" where
  "pagerWhere fromSeq after anchor row =
     sql_holds (if fromSeq \<noteq> None
                then (if after then WhereSeqOrderStrictlyAfterAlias anchor row else WhereSeqOrderBeforeAlias anchor row)
                else whereEntryOrder anchor after False row)"

definition cursorRows ::
  "Entry list \<Rightarrow> uint32 option \<Rightarrow> bool \<Rightarrow> string \<Rightarrow> string option \<Rightarrow> lookup \<Rightarrow> cursor_error \<Rightarrow> Entry list result" where
  "cursorRows base fromSeq after cursorName cursor lookup cursorEntryError =
     (case cursor of
        None \<Rightarrow> Inr base
      | Some c \<Rightarrow>
          (case lookup c of
             None \<Rightarrow> Inl (cursorEntryError cursorName c)
           | Some anchor \<Rightarrow> Inr (filter (pagerWhere fromSeq after anchor) base)))"

text \<open>Turning at most \<open>limit + 1\<close> fetched rows into a page and its cursors.\<close>

definition scanBackward :: "Entry list \<Rightarrow> bool \<Rightarrow> nat \<Rightarrow> page" where
  "scanBackward fetched cursored limit =
     (let found = rev fetched; hasMore = length found > limit;
          entries = (if hasMore then tl found else found)
      in (entries,
          if cursored \<and> entries \<noteq> [] then Some (e_ID (last entries)) else None,
          if hasMore then Some (e_ID (hd entries)) else None))"

definition scanForward :: "Entry list \<Rightarrow> bool \<Rightarrow> nat \<Rightarrow> page" where
  "scanForward fetched cursored limit =
     (let hasMore = length fetched > limit;
          entries = (if hasMore then take limit fetched else fetched)
      in (entries,
          if hasMore then Some (e_ID (last entries)) else None,
          if cursored \<and> entries \<noteq> [] then Some (e_ID (hd entries)) else None))"

definition boundedBackward ::
  "Entry list \<Rightarrow> uint32 option \<Rightarrow> string option \<Rightarrow> nat \<Rightarrow> lookup \<Rightarrow> cursor_error \<Rightarrow> page result" where
  "boundedBackward base fromSeq beforeEntryID limit lookup cursorEntryError =
     andThen (cursorRows base fromSeq False ''beforeCursor'' beforeEntryID lookup cursorEntryError) (\<lambda>tx.
       Inr (scanBackward (take (limit + 1) (order_by (pagerOrder fromSeq True) tx)) (beforeEntryID \<noteq> None) limit))"

definition boundedForward ::
  "Entry list \<Rightarrow> uint32 option \<Rightarrow> string option \<Rightarrow> nat \<Rightarrow> lookup \<Rightarrow> cursor_error \<Rightarrow> page result" where
  "boundedForward base fromSeq afterEntryID limit lookup cursorEntryError =
     andThen (cursorRows base fromSeq True ''afterCursor'' afterEntryID lookup cursorEntryError) (\<lambda>tx.
       Inr (scanForward (take (limit + 1) (order_by (pagerOrder fromSeq False) tx)) (afterEntryID \<noteq> None) limit))"

definition BoundedEntriesFromBase ::
  "Entry list \<Rightarrow> uint32 option \<Rightarrow> string option \<Rightarrow> string option \<Rightarrow> bool \<Rightarrow> int \<Rightarrow> lookup \<Rightarrow> cursor_error \<Rightarrow>
   page result" where
  "BoundedEntriesFromBase base fromSeq afterEntryID beforeEntryID tail limit lookup cursorEntryError =
     (if limit \<le> 0 then Inl (InternalError ''limit must be greater than zero'')
      else if tail \<or> beforeEntryID \<noteq> None
      then boundedBackward base fromSeq beforeEntryID (nat limit) lookup cursorEntryError
      else boundedForward base fromSeq afterEntryID (nat limit) lookup cursorEntryError)"

record BoundedQuery =
  bq_Base :: "Entry list"
  bq_FromSeq :: "uint32 option"
  bq_UpToEntryID :: "string option"
  bq_AfterEntryID :: "string option"
  bq_BeforeEntryID :: "string option"
  bq_Tail :: bool
  bq_Limit :: int
  bq_MaxLimit :: int
  bq_UpToLookup :: lookup
  bq_BaseTransform :: "(Entry list \<Rightarrow> Entry list) option"
  bq_CursorEntryError :: cursor_error
  bq_LimitError :: "(int \<Rightarrow> store_error) option"
  bq_EntryNotFound :: "(string \<Rightarrow> store_error) option"
  bq_CreatedAtFilter :: "CreatedAtFilter option"

text \<open>The conditions \<open>RunBoundedQuery\<close> adds to the base query before it pages.\<close>

definition boundedBase :: "BoundedQuery \<Rightarrow> Entry option \<Rightarrow> Entry list" where
  "boundedBase q upTo =
     (let base0 = (case upTo of None \<Rightarrow> bq_Base q
                   | Some u \<Rightarrow> filter (\<lambda>r. sql_holds (whereEntryOrder u False True r)) (bq_Base q));
          base1 = (case bq_BaseTransform q of None \<Rightarrow> base0 | Some f \<Rightarrow> f base0);
          base2 = (case bq_FromSeq q of None \<Rightarrow> base1
                   | Some s \<Rightarrow> filter (\<lambda>r. sql_holds (sql_and (Some (e_Seq r \<noteq> None)) (sql_cmp (\<ge>) (e_Seq r) (Some s)))) base1)
      in ApplyCreatedAtFilter base2 (bq_CreatedAtFilter q))"

definition RunBoundedQuery :: "BoundedQuery \<Rightarrow> page result" where
  "RunBoundedQuery q =
     (if bq_Limit q \<le> 0 \<or> (bq_MaxLimit q > 0 \<and> bq_Limit q > bq_MaxLimit q)
      then Inl (case bq_LimitError q of
                  Some f \<Rightarrow> f (bq_MaxLimit q)
                | None \<Rightarrow> InternalError ''limit must be between 1 and the maximum'')
      else
        let upTo = (case bq_UpToEntryID q of
              None \<Rightarrow> Inr None
            | Some u \<Rightarrow>
                if u = [] then Inr None
                else (case bq_UpToLookup q u of
                        None \<Rightarrow> Inl (case bq_EntryNotFound q of
                                      Some f \<Rightarrow> f u | None \<Rightarrow> InternalError ''entry not found'')
                      | Some e \<Rightarrow> Inr (Some e)))
        in andThen upTo (\<lambda>u.
             let base = boundedBase q u
             in BoundedEntriesFromBase base (bq_FromSeq q) (bq_AfterEntryID q) (bq_BeforeEntryID q)
                  (bq_Tail q) (bq_Limit q) (\<lambda>i. List.find (\<lambda>e. e_ID e = i) base) (bq_CursorEntryError q)))"

section \<open>The SQL pager refines the in-memory pager\<close>

abbreviation pagerLess :: "uint32 option \<Rightarrow> Entry \<Rightarrow> Entry \<Rightarrow> bool" where
  "pagerLess fromSeq \<equiv> pagerOrder fromSeq False"

interpretation pager_ord: keyed_order "pagerLess fromSeq" e_ID for fromSeq
  using entry_ord.keyed_order_axioms seq_ord.keyed_order_axioms
  by (cases fromSeq) (simp_all add: pagerOrder_def EntryOrderSQL_asc)

lemma pagerOrder_desc: "pagerOrder s True = (\<lambda>a b. pagerLess s b a)"
  by (cases s) (simp_all add: pagerOrder_def EntryOrderSQL_asc EntryOrderSQL_desc seqOrderSQL_desc)

lemma order_by_pager_desc:
  "distinct (map e_ID xs) \<Longrightarrow> order_by (pagerOrder s True) xs = rev (order_by (pagerLess s) xs)"
  by (simp add: pagerOrder_desc pager_ord.order_by_desc)

lemma pagerWhere_less:
  assumes "s \<noteq> None \<Longrightarrow> e_Seq a \<noteq> None \<and> e_Seq r \<noteq> None"
  shows "pagerWhere s False a r \<longleftrightarrow> pagerLess s r a" and "pagerWhere s True a r \<longleftrightarrow> pagerLess s a r"
  using assms
  by (cases s; simp add: pagerOrder_def pagerWhere_def EntryOrderSQL_asc whereEntryOrder_before
      whereEntryOrder_after WhereSeqOrder_before)+

lemma find_index_split:
  "distinct (map e_ID (pre @ a # post)) \<Longrightarrow>
   find_index (\<lambda>e. e_ID e = e_ID a) (pre @ a # post) = Some (length pre)"
  by (induction pre) auto

lemma split_at_id:
  assumes "c \<in> e_ID ` set base"
  shows "\<exists>pre a post. order_by lt base = pre @ a # post \<and> e_ID a = c"
proof -
  from assms obtain a where "a \<in> set (order_by lt base)" and "e_ID a = c" by auto
  then show ?thesis by (metis split_list)
qed

text \<open>Rows on either side of an anchor, in the order of the query.\<close>

lemma order_by_around_anchor:
  assumes d: "distinct (map e_ID base)" and split: "order_by (pagerLess s) base = pre @ a # post"
  shows "order_by (pagerLess s) (filter (\<lambda>r. pagerLess s r a) base) = pre"
    and "order_by (pagerLess s) (filter (\<lambda>r. pagerLess s a r) base) = post"
proof -
  have srt: "sorted_wrt (pagerLess s) (pre @ a # post)"
    using pager_ord.sorted_order_by[OF d, of s] split by simp
  show "order_by (pagerLess s) (filter (\<lambda>r. pagerLess s r a) base) = pre"
    using pager_ord.order_by_filter[OF d] pager_ord.filter_below_split(1)[OF srt] split by metis
  show "order_by (pagerLess s) (filter (\<lambda>r. pagerLess s a r) base) = post"
    using pager_ord.order_by_filter[OF d] pager_ord.filter_below_split(2)[OF srt] split by metis
qed

lemma filter_pagerWhere:
  assumes "s \<noteq> None \<longrightarrow> (\<forall>e \<in> set base. e_Seq e \<noteq> None)" and "a \<in> set base"
  shows "filter (pagerWhere s False a) base = filter (\<lambda>r. pagerLess s r a) base"
    and "filter (pagerWhere s True a) base = filter (\<lambda>r. pagerLess s a r) base"
  using assms by (intro filter_cong refl pagerWhere_less; blast)+

text \<open>What the two scans return, as list segments of the ordered relation.\<close>

definition backwardPage :: "Entry list \<Rightarrow> bool \<Rightarrow> nat \<Rightarrow> page" where
  "backwardPage xs cursored limit =
     (let page = drop (length xs - limit) xs
      in (page, if cursored \<and> page \<noteq> [] then Some (e_ID (last page)) else None,
          if limit < length xs then Some (e_ID (xs ! (length xs - limit))) else None))"

definition forwardPage :: "Entry list \<Rightarrow> bool \<Rightarrow> nat \<Rightarrow> page" where
  "forwardPage xs cursored limit =
     (let page = take limit xs
      in (page, if limit < length xs then Some (e_ID (last page)) else None,
          if cursored \<and> page \<noteq> [] then Some (e_ID (hd page)) else None))"

lemma scanBackward_page:
  assumes "0 < limit"
  shows "scanBackward (take (limit + 1) (rev xs)) c limit = backwardPage xs c limit"
proof (cases "limit < length xs")
  case True
  then have "Suc (length xs - Suc limit) = length xs - limit" by arith
  then have "tl (drop (length xs - Suc limit) xs) = drop (length xs - limit) xs"
    by (metis drop_Suc_tl)
  with True assms show ?thesis
    by (simp add: scanBackward_def backwardPage_def Let_def rev_take hd_drop_conv_nth)
next
  case False
  then show ?thesis by (simp add: scanBackward_def backwardPage_def Let_def rev_take)
qed

lemma scanForward_page:
  "0 < limit \<Longrightarrow> scanForward (take (limit + 1) xs) c limit = forwardPage xs c limit"
  by (auto simp: scanForward_def forwardPage_def Let_def min_def)

lemma bounded_page:
  assumes "distinct (map e_ID base)" and "0 < limit"
  shows "boundedBackward base s None limit lk err = Inr (backwardPage (order_by (pagerLess s) base) False limit)"
    and "boundedForward base s None limit lk err = Inr (forwardPage (order_by (pagerLess s) base) False limit)"
  using scanBackward_page[OF assms(2)] scanForward_page[OF assms(2)]
  by (simp_all add: boundedBackward_def boundedForward_def cursorRows_def order_by_pager_desc[OF assms(1)]
      del: add_Suc_right Suc_eq_plus1)

lemma bounded_cursor_page:
  assumes "distinct (map e_ID base)" and "0 < limit" and "s \<noteq> None \<longrightarrow> (\<forall>e \<in> set base. e_Seq e \<noteq> None)"
    and split: "order_by (pagerLess s) base = pre @ a # post" and "lk b = Some a"
  shows "boundedBackward base s (Some b) limit lk err = Inr (backwardPage pre True limit)"
    and "boundedForward base s (Some b) limit lk err = Inr (forwardPage post True limit)"
proof -
  have "a \<in> set base" using split set_order_by[of "pagerLess s" base] by auto
  note w = filter_pagerWhere[OF assms(3) this]
  show "boundedBackward base s (Some b) limit lk err = Inr (backwardPage pre True limit)"
    using scanBackward_page[OF assms(2)] order_by_around_anchor(1)[OF assms(1) split]
    by (simp add: boundedBackward_def cursorRows_def assms w order_by_pager_desc distinct_map_filter
        del: add_Suc_right Suc_eq_plus1)
  show "boundedForward base s (Some b) limit lk err = Inr (forwardPage post True limit)"
    using scanForward_page[OF assms(2)] order_by_around_anchor(2)[OF assms(1) split]
    by (simp add: boundedForward_def cursorRows_def assms w del: add_Suc_right Suc_eq_plus1)
qed

text \<open>The same segments, from \<open>PaginateEntries\<close>.\<close>

lemma paginateTail_page: "0 < limit \<Longrightarrow> paginateTail xs limit = backwardPage xs False limit"
  by (simp add: paginateTail_def backwardPage_def Let_def)

lemma paginateForward_page:
  "xs = pre @ post \<Longrightarrow> 0 < limit \<Longrightarrow> paginateForward xs (length pre) limit = forwardPage post (pre \<noteq> []) limit"
  by (auto simp: paginateForward_def forwardPage_def Let_def min_def not_le take_Cons')

lemma paginateBefore_page:
  assumes "distinct (map e_ID (pre @ a # post))" and "0 < limit"
  shows "paginateBefore (pre @ a # post) (e_ID a) limit = Inr (backwardPage pre True limit)"
proof -
  have "e_ID ((pre @ a # post) ! (length pre - limit)) = e_ID (pre ! (length pre - limit))" if "pre \<noteq> []"
    using that assms(2) by (simp add: nth_append)
  moreover have "e_ID ((pre @ a # post) ! (length pre - 1)) = e_ID (last (drop (length pre - limit) pre))"
    if "pre \<noteq> []"
    using that assms(2) by (simp add: nth_append last_conv_nth)
  ultimately show ?thesis
    using assms(2) by (cases "pre = []")
      (auto simp: paginateBefore_def backwardPage_def Let_def find_index_split[OF assms(1)])
qed

lemma find_id_lookup:
  assumes "distinct (map e_ID base)" and "order_by lt base = pre @ a # post"
  shows "List.find (\<lambda>e. e_ID e = e_ID a) base = Some a"
proof -
  have "a \<in> set base" using assms(2) set_order_by[of lt base] by auto
  with assms(1) show ?thesis by (rule find_unique)
qed

lemma bounded_paginate:
  assumes "distinct (map e_ID base)" and "0 < limit"
    and "s \<noteq> None \<longrightarrow> (\<forall>e \<in> set base. e_Seq e \<noteq> None)"
    and "set_option after \<union> set_option before \<subseteq> e_ID ` set base"
    and "tail \<Longrightarrow> before = None"
  shows "BoundedEntriesFromBase base s after before tail limit (\<lambda>i. List.find (\<lambda>e. e_ID e = i) base) err
         = map_sum BadRequestError id
             (PaginateEntries (order_by (pagerOrder s False) base) after before tail limit)"
proof -
  define xs where "xs = order_by (pagerLess s) base"
  have dx: "distinct (map e_ID xs)" using assms(1) by (simp add: xs_def)
  have lim: "0 < nat limit" using assms(2) by simp
  note plain = bounded_page[OF assms(1) lim, of s, folded xs_def]
  note curs = bounded_cursor_page[OF assms(1) lim assms(3), folded xs_def]
  show ?thesis
  proof (cases before)
    case (Some b)
    then obtain pre a post where split: "xs = pre @ a # post" "e_ID a = b"
      using split_at_id[of b base "pagerLess s"] assms(4) by (auto simp: xs_def)
    show ?thesis
      using Some assms(2,5) split curs(1)[of pre a post] paginateBefore_page[of pre a post "nat limit"] dx
        find_id_lookup[OF assms(1) split(1)[unfolded xs_def]]
      by (auto simp: BoundedEntriesFromBase_def PaginateEntries_def Let_def simp flip: xs_def)
  next
    case None
    note no_before = this
    show ?thesis
    proof (cases "tail \<or> after = None")
      case True
      then show ?thesis
        using no_before assms(2) plain paginateTail_page[OF lim, of xs]
          paginateForward_page[of xs "[]" xs "nat limit"]
        by (cases "xs = []")
           (auto simp: BoundedEntriesFromBase_def PaginateEntries_def Let_def backwardPage_def forwardPage_def
             simp flip: xs_def)
    next
      case False
      then obtain c where c: "after = Some c" by auto
      then obtain pre a post where split: "xs = pre @ a # post" "e_ID a = c"
        using split_at_id[of c base "pagerLess s"] assms(4) by (auto simp: xs_def)
      have "paginateForward xs (Suc (length pre)) (nat limit) = forwardPage post True (nat limit)"
        using paginateForward_page[of xs "pre @ [a]" post "nat limit"] lim split by simp
      then show ?thesis
        using False c no_before assms(2) split curs(2)[of pre a post] find_index_split[of pre a post] dx
          find_id_lookup[OF assms(1) split(1)[unfolded xs_def]]
        by (auto simp: BoundedEntriesFromBase_def PaginateEntries_def Let_def simp flip: xs_def)
    qed
  qed
qed

text \<open>
  C11 (bounded_refines_paginate): the keyset pager with \<open>LIMIT limit+1\<close> returns exactly the page and
  the cursors that \<open>PaginateEntries\<close> computes on all rows sorted by the query's order, for every
  direction, with or without a cursor, in time order and in sequence order.
\<close>

theorem bounded_refines_paginate:
  assumes "distinct (map e_ID base)" and "0 < limit"
    and "s \<noteq> None \<longrightarrow> (\<forall>e \<in> set base. e_Seq e \<noteq> None)"
    and "set_option after \<union> set_option before \<subseteq> e_ID ` set base"
    and "tail \<Longrightarrow> before = None"
  shows "BoundedEntriesFromBase base s after before tail limit (\<lambda>i. List.find (\<lambda>e. e_ID e = i) base) err
         = map_sum BadRequestError id
             (PaginateEntries (order_by (pagerOrder s False) base) after before tail limit)"
  by (rule bounded_paginate[OF assms])

text \<open>Rows for the concrete instances below.\<close>

definition sampleEntry :: "uuid \<Rightarrow> time \<Rightarrow> uint32 option \<Rightarrow> Entry" where
  "sampleEntry i t s =
     \<lparr>e_AppendBatch = None, e_ID = i, e_ConversationID = ''c'', e_ConversationGroupID = ''g'',
      e_UserID = Some ''u'', e_ClientID = Some ''cl'', e_AgentID = None, e_Channel = ChannelContext,
      e_Epoch = Some 1, e_Seq = s, e_ContentType = ''t'', e_Content = [], e_IndexedContent = None,
      e_IndexedAt = None, e_CreatedAt = t\<rparr>"

definition sampleRows :: "Entry list" where
  "sampleRows = [sampleEntry ''b'' 2 (Some 7), sampleEntry ''a'' 1 (Some 9), sampleEntry ''d'' 2 (Some 8)]"

theorem bounded_refines_paginate_witness:
  "BoundedEntriesFromBase sampleRows None (Some ''a'') None False 1
     (\<lambda>i. List.find (\<lambda>e. e_ID e = i) sampleRows) (\<lambda>_ _. ForbiddenError)
   = map_sum BadRequestError id
       (PaginateEntries (order_by (pagerOrder None False) sampleRows) (Some ''a'') None False 1)"
  by (rule bounded_refines_paginate) (simp_all add: sampleRows_def sampleEntry_def)

section \<open>Following cursors\<close>

text \<open>A client that asks for the next page as long as it is given an \<open>afterCursor\<close>, or the previous
  page as long as it is given a \<open>beforeCursor\<close>; \<open>fuel\<close> bounds the number of requests.\<close>

fun followAfter :: "nat \<Rightarrow> Entry list \<Rightarrow> uint32 option \<Rightarrow> int \<Rightarrow> string option \<Rightarrow> Entry list option" where
  "followAfter 0 base s limit cursor = None"
| "followAfter (Suc fuel) base s limit cursor =
     (case BoundedEntriesFromBase base s cursor None False limit
             (\<lambda>i. List.find (\<lambda>e. e_ID e = i) base) (\<lambda>_ c. BadRequestError c) of
        Inl _ \<Rightarrow> None
      | Inr (page, after, _) \<Rightarrow>
          (case after of
             None \<Rightarrow> Some page
           | Some c \<Rightarrow> map_option ((@) page) (followAfter fuel base s limit (Some c))))"

fun followBefore :: "nat \<Rightarrow> Entry list \<Rightarrow> uint32 option \<Rightarrow> int \<Rightarrow> string option \<Rightarrow> Entry list option" where
  "followBefore 0 base s limit cursor = None"
| "followBefore (Suc fuel) base s limit cursor =
     (case BoundedEntriesFromBase base s None cursor (cursor = None) limit
             (\<lambda>i. List.find (\<lambda>e. e_ID e = i) base) (\<lambda>_ c. BadRequestError c) of
        Inl _ \<Rightarrow> None
      | Inr (page, _, before) \<Rightarrow>
          (case before of
             None \<Rightarrow> Some page
           | Some c \<Rightarrow> map_option (\<lambda>older. older @ page) (followBefore fuel base s limit (Some c))))"

lemma bounded_forward_suffix:
  assumes "distinct (map e_ID base)" and "0 < limit" and "s \<noteq> None \<longrightarrow> (\<forall>e \<in> set base. e_Seq e \<noteq> None)"
    and "order_by (pagerLess s) base = pre @ post"
    and "cursor = (if pre = [] then None else Some (e_ID (last pre)))"
  shows "BoundedEntriesFromBase base s cursor None False limit (\<lambda>i. List.find (\<lambda>e. e_ID e = i) base) err
         = Inr (forwardPage post (pre \<noteq> []) (nat limit))"
proof (cases "pre = []")
  case True
  then show ?thesis
    using assms bounded_page(2)[of base "nat limit" s] by (simp add: BoundedEntriesFromBase_def)
next
  case False
  then have split: "order_by (pagerLess s) base = butlast pre @ last pre # post"
    using assms(4) by (metis append_butlast_last_id append_Cons append_Nil append_assoc)
  show ?thesis
    using False assms(2,5) bounded_cursor_page(2)[OF assms(1) _ assms(3) split] find_id_lookup[OF assms(1) split]
    by (simp add: BoundedEntriesFromBase_def)
qed

lemma bounded_backward_prefix:
  assumes "distinct (map e_ID base)" and "0 < limit" and "s \<noteq> None \<longrightarrow> (\<forall>e \<in> set base. e_Seq e \<noteq> None)"
    and "order_by (pagerLess s) base = pre @ post"
    and "cursor = (if post = [] then None else Some (e_ID (hd post)))"
  shows "BoundedEntriesFromBase base s None cursor (cursor = None) limit (\<lambda>i. List.find (\<lambda>e. e_ID e = i) base) err
         = Inr (backwardPage pre (post \<noteq> []) (nat limit))"
proof (cases post)
  case Nil
  then show ?thesis
    using assms bounded_page(1)[of base "nat limit" s] by (simp add: BoundedEntriesFromBase_def)
next
  case (Cons a rest)
  then have split: "order_by (pagerLess s) base = pre @ a # rest" using assms(4) by simp
  show ?thesis
    using Cons assms(2,5) bounded_cursor_page(1)[OF assms(1) _ assms(3) split] find_id_lookup[OF assms(1) split]
    by (simp add: BoundedEntriesFromBase_def)
qed

lemma followAfter_suffix:
  assumes "distinct (map e_ID base)" and "0 < limit" and "s \<noteq> None \<longrightarrow> (\<forall>e \<in> set base. e_Seq e \<noteq> None)"
  shows "order_by (pagerLess s) base = pre @ post \<Longrightarrow> max 1 (length post) \<le> fuel \<Longrightarrow>
         followAfter fuel base s limit (if pre = [] then None else Some (e_ID (last pre))) = Some post"
proof (induction fuel arbitrary: pre post)
  case 0
  then show ?case by simp
next
  case (Suc fuel)
  let ?n = "nat limit"
  note page = bounded_forward_suffix[OF assms Suc.prems(1) refl]
  show ?case
  proof (cases "?n < length post")
    case True
    have "take ?n post \<noteq> []" using True assms(2) by auto
    then have "followAfter fuel base s limit (Some (e_ID (last (take ?n post)))) = Some (drop ?n post)"
      using Suc.IH[of "pre @ take ?n post" "drop ?n post"] Suc.prems True assms(2) by simp
    with True page show ?thesis by (simp add: forwardPage_def Let_def)
  next
    case False
    with page show ?thesis by (simp add: forwardPage_def Let_def)
  qed
qed

lemma followBefore_prefix:
  assumes "distinct (map e_ID base)" and "0 < limit" and "s \<noteq> None \<longrightarrow> (\<forall>e \<in> set base. e_Seq e \<noteq> None)"
  shows "order_by (pagerLess s) base = pre @ post \<Longrightarrow> max 1 (length pre) \<le> fuel \<Longrightarrow>
         followBefore fuel base s limit (if post = [] then None else Some (e_ID (hd post))) = Some pre"
proof (induction fuel arbitrary: pre post)
  case 0
  then show ?case by simp
next
  case (Suc fuel)
  let ?n = "nat limit"
  let ?k = "length pre - ?n"
  note page = bounded_backward_prefix[OF assms Suc.prems(1) refl]
  show ?case
  proof (cases "?n < length pre")
    case True
    then have "hd (drop ?k pre @ post) = pre ! ?k" and "drop ?k pre \<noteq> []"
      using assms(2) by (auto simp: hd_append hd_drop_conv_nth)
    then have "followBefore fuel base s limit (Some (e_ID (pre ! ?k))) = Some (take ?k pre)"
      using Suc.IH[of "take ?k pre" "drop ?k pre @ post"] Suc.prems True assms(2) by simp
    with True page show ?thesis by (simp add: backwardPage_def Let_def)
  next
    case False
    with page show ?thesis by (simp add: backwardPage_def Let_def)
  qed
qed

text \<open>
  C12 (paging_visits_all): a client that follows \<open>afterCursor\<close> from the first page, or \<open>beforeCursor\<close>
  from the last, stops after at most one request per row (one request when there are none) and has then
  seen every row exactly once, in order.
\<close>

theorem paging_visits_all:
  assumes "distinct (map e_ID base)" and "0 < limit"
    and "s \<noteq> None \<longrightarrow> (\<forall>e \<in> set base. e_Seq e \<noteq> None)"
  shows "followAfter (max 1 (length base)) base s limit None = Some (order_by (pagerOrder s False) base)
       \<and> followBefore (max 1 (length base)) base s limit None = Some (order_by (pagerOrder s False) base)"
  using followAfter_suffix[OF assms, of "[]" "order_by (pagerLess s) base" "max 1 (length base)"]
    followBefore_prefix[OF assms, of "order_by (pagerLess s) base" "[]" "max 1 (length base)"]
  by simp

theorem paging_visits_all_witness:
  "followAfter 3 sampleRows (Some 0) 1 None
     = Some (order_by (pagerOrder (Some 0) False) sampleRows)
   \<and> followBefore 3 sampleRows (Some 0) 1 None
     = Some (order_by (pagerOrder (Some 0) False) sampleRows)"
proof -
  have "max 1 (length sampleRows) = 3" "distinct (map e_ID sampleRows)" "\<forall>e \<in> set sampleRows. e_Seq e \<noteq> None"
    by (simp_all add: sampleRows_def sampleEntry_def)
  then show ?thesis using paging_visits_all[of sampleRows 1 "Some 0"] by (simp del: followAfter.simps followBefore.simps)
qed

section \<open>Epoch and time filters\<close>

lemma maxEpoch_None: "maxEpoch xs = None \<longleftrightarrow> xs = []"
  by (cases xs) (auto split: option.splits)

lemma maxEpoch_upper: "maxEpoch xs = Some m \<Longrightarrow> e \<in> set xs \<Longrightarrow> entryEpoch e \<le> m"
proof (induction xs arbitrary: m)
  case Nil
  then show ?case by simp
next
  case (Cons x xs)
  then show ?case by (cases "maxEpoch xs") (auto simp: maxEpoch_None le_max_iff_disj)
qed

lemma maxEpoch_snoc:
  "maxEpoch (xs @ [e]) = Some (case maxEpoch xs of None \<Rightarrow> entryEpoch e | Some m \<Rightarrow> max m (entryEpoch e))"
  by (induction xs) (auto split: option.splits)

text \<open>The state of the one-pass loop after a prefix of the rows.\<close>

lemma epochLoop_latest:
  assumes "ef_Mode f \<noteq> MemoryEpochModeAll" and "ef_Mode f \<noteq> MemoryEpochModeEpoch"
  shows "fold (epochLoopStep f) xs ([], 0, False) =
           (case maxEpoch xs of None \<Rightarrow> ([], 0, False)
            | Some m \<Rightarrow> (filter (\<lambda>e. entryEpoch e = m) xs, m, True))"
proof (induction xs rule: rev_induct)
  case Nil
  then show ?case by simp
next
  case (snoc e xs)
  show ?case
  proof (cases "maxEpoch xs")
    case None
    then show ?thesis using snoc assms by (simp add: maxEpoch_None epochLoopStep_def Let_def)
  next
    case (Some m)
    have "filter (\<lambda>x. entryEpoch x = entryEpoch e) xs = []" if "m < entryEpoch e"
      using that maxEpoch_upper[OF Some] by (force simp: filter_empty_conv)
    then show ?thesis using Some snoc assms by (auto simp: maxEpoch_snoc epochLoopStep_def Let_def max_def)
  qed
qed

lemma epochLoop_all:
  assumes "ef_Mode f = MemoryEpochModeAll"
  shows "fold (epochLoopStep f) xs st = (fst st @ xs, snd st)"
  using assms by (induction xs arbitrary: st) (auto simp: epochLoopStep_def Let_def split: prod.splits)

lemma epochLoop_epoch:
  assumes "ef_Mode f = MemoryEpochModeEpoch"
  shows "fold (epochLoopStep f) xs st = (fst st @ filter (\<lambda>e. ef_Epoch f = Some (entryEpoch e)) xs, snd st)"
  using assms by (induction xs arbitrary: st) (auto simp: epochLoopStep_def Let_def split: prod.splits)

lemma filterEntriesByEpoch_ApplyEpochFilter:
  "filterEntriesByEpoch entries epochFilter = ApplyEpochFilter entries epochFilter True"
proof -
  have "filter (\<lambda>e. n = entryEpoch e) = filter (\<lambda>e. entryEpoch e = n)" for n
    by (intro ext filter_cong) auto
  then show ?thesis
    by (auto simp: filterEntriesByEpoch_def ApplyEpochFilter_def Let_def epochLoop_latest epochLoop_all
        epochLoop_epoch split: option.splits)
qed

lemma fold_guarded: "fold (\<lambda>x st. if P x then st else f x st) xs st = fold f (filter (\<lambda>x. \<not> P x) xs) st"
  by (induction xs arbitrary: st) auto

text \<open>
  C32 (epoch_filter_equivalence): the one-pass in-memory epoch filter selects exactly the rows of the
  SQL form, which first asks for the largest epoch and then filters by it, for every filter mode; and
  the all-forks filter of the context channel is the same selection.
\<close>

theorem epoch_filter_equivalence:
  "filterVisibleMemoryEntriesWithEpoch entries clientID agentID epochFilter
     = ApplyEpochFilter (filter (\<lambda>e. e_Channel e = ChannelContext \<and> e_ClientID e = Some clientID) entries)
         epochFilter True
   \<and> filterEntriesForAllForks entries ChannelContext (Some clientID) agent epochFilter
     = ApplyEpochFilter (filter (\<lambda>e. e_Channel e = ChannelContext \<and> e_ClientID e = Some clientID) entries)
         epochFilter True"
  (is "?A \<and> ?B")
proof
  show ?A
    using filterEntriesByEpoch_ApplyEpochFilter
    by (simp add: filterVisibleMemoryEntriesWithEpoch_def filterEntriesByEpoch_def fold_guarded)
  show ?B
    by (auto simp: filterEntriesForAllForks_def ApplyEpochFilter_def Let_def split: option.splits)
qed

lemma createdAt_filters_agree: "FilterEntriesByCreatedAt es flt = ApplyCreatedAtFilter es flt"
  by (auto simp: FilterEntriesByCreatedAt_def ApplyCreatedAtFilter_def Let_def not_less
      intro!: filter_cong split: option.splits)

end
