(* ===== verification/Json.thy ===== *)
theory Json
  imports Prelude Complex_Main
begin

text \<open>
  JSON values and their semantic comparison (\<open>internal/registry/store/entries.go\<close>,
  \<open>internal/registry/store/metadata.go\<close>, \<open>internal/registry/store/append_batch.go\<close>).
  A decoded value (\<open>decoder.UseNumber()\<close>) keeps the text of its numbers; an object is an association
  list whose keys are distinct, the order standing for the map's arbitrary iteration order;
  \<open>JIdentity\<close> is the private string type \<open>batchAttachmentIdentity\<close>, which no decoded text contains. Decoding
  the text is a parameter where an operation needs it.

  The lemmas show that \<open>normalizeJSONNumber\<close> computes a canonical form: two number texts normalise to
  the same triple exactly when they denote the same rational, and that \<open>jsonSemanticEqual\<close> is an
  equivalence relation on values whose numbers are within the limits of \<open>normalizeJSONNumber\<close>. Beyond the
  limits a number is not equal to itself; \<open>jsonSame\<close> is the comparison that takes such numbers by their text.
\<close>

section \<open>Values\<close>

datatype json =
    JNull
  | JBool bool
  | JNumber string
  | JString string
  | JIdentity string
  | JArray "json list"
  | JObject "(string \<times> json) list"

type_synonym json_object = "(string \<times> json) list"

text \<open>Deleting and assigning a key of a map.\<close>

definition removeKey :: "string \<Rightarrow> json_object \<Rightarrow> json_object" where
  "removeKey key kvs = filter (\<lambda>kv. fst kv \<noteq> key) kvs"

fun setKey :: "string \<Rightarrow> json \<Rightarrow> json_object \<Rightarrow> json_object" where
  "setKey key v [] = [(key, v)]"
| "setKey key v (kv # kvs) = (if fst kv = key then (key, v) # kvs else kv # setKey key v kvs)"

section \<open>Numbers\<close>

definition maxJSONNumberDigits :: nat where "maxJSONNumberDigits = 4096"
definition maxJSONNumberExponent :: int where "maxJSONNumberExponent = 10000"

record normalizedJSONNumber =
  nn_negative :: bool
  nn_digits :: string
  nn_exponent :: int

definition isDigit :: "char \<Rightarrow> bool" where
  "isDigit c = (CHR ''0'' \<le> c \<and> c \<le> CHR ''9'')"

definition digitValue :: "char \<Rightarrow> nat" where
  "digitValue c = of_char c - of_char CHR ''0''"

text \<open>The loop over the exponent's digits, which fails as soon as the bound is exceeded.\<close>

fun parseExponent :: "int \<Rightarrow> string \<Rightarrow> int option" where
  "parseExponent acc [] = Some acc"
| "parseExponent acc (c # cs) =
     (if \<not> isDigit c then None
      else let acc' = acc * 10 + int (digitValue c)
           in if acc' > maxJSONNumberExponent then None else parseExponent acc' cs)"

definition exponentPart :: "string \<Rightarrow> int option" where
  "exponentPart rest =
     (case rest of
        [] \<Rightarrow> Some 0
      | _ # exponentText \<Rightarrow>
          let signed = (exponentText \<noteq> [] \<and> (hd exponentText = CHR ''+'' \<or> hd exponentText = CHR ''-''));
              exponentNegative = (signed \<and> hd exponentText = CHR ''-'');
              digits = (if signed then tl exponentText else exponentText)
          in if digits = [] then None
             else map_option (\<lambda>e. if exponentNegative then - e else e) (parseExponent 0 digits))"

text \<open>\<open>strings.TrimLeft(digits, "0")\<close>, and the loop that strips trailing zeros into the exponent.\<close>

definition trimLeadingZeros :: "string \<Rightarrow> string" where
  "trimLeadingZeros digits = dropWhile (\<lambda>c. c = CHR ''0'') digits"

definition trimTrailingZeros :: "string \<Rightarrow> int \<Rightarrow> string \<times> int" where
  "trimTrailingZeros digits exponent =
     (let zeros = length (takeWhile (\<lambda>c. c = CHR ''0'') (rev digits))
      in (take (length digits - zeros) digits, exponent + int zeros))"

text \<open>The last steps: the triple of a sign, a digit string and an exponent.\<close>

definition finishNumber :: "bool \<Rightarrow> string \<Rightarrow> int \<Rightarrow> normalizedJSONNumber" where
  "finishNumber negative digits exponent =
     (let digits = trimLeadingZeros digits
      in if digits = [] then \<lparr>nn_negative = False, nn_digits = ''0'', nn_exponent = 0\<rparr>
         else let (digits, exponent) = trimTrailingZeros digits exponent
              in \<lparr>nn_negative = negative, nn_digits = digits, nn_exponent = exponent\<rparr>)"

definition normalizeJSONNumber :: "string \<Rightarrow> normalizedJSONNumber option" where
  "normalizeJSONNumber number =
     (let negative = (number \<noteq> [] \<and> hd number = CHR ''-'');
          value = (if negative then tl number else number);
          isExp = (\<lambda>c. c = CHR ''e'' \<or> c = CHR ''E'');
          mantissa = takeWhile (\<lambda>c. \<not> isExp c) value;
          rest = dropWhile (\<lambda>c. \<not> isExp c) value
      in case exponentPart rest of
           None \<Rightarrow> None
         | Some exponent \<Rightarrow>
             let integerPart = takeWhile (\<lambda>c. c \<noteq> CHR ''.'') mantissa;
                 fractionPart = drop 1 (dropWhile (\<lambda>c. c \<noteq> CHR ''.'') mantissa);
                 digits = integerPart @ fractionPart
             in if integerPart = [] \<or> length integerPart + length fractionPart > maxJSONNumberDigits then None
                else if \<not> list_all isDigit digits then None
                else Some (finishNumber negative digits (exponent - int (length fractionPart))))"

section \<open>Semantic equality\<close>

lemma zip_size_left [termination_simp]: "(a, b) \<in> set (zip ls rs) \<Longrightarrow> size a < Suc (size_list size ls)"
  by (auto dest!: set_zip_leftD simp: less_Suc_eq_le intro!: size_list_estimation')

fun jsonSemanticEqual :: "json \<Rightarrow> json \<Rightarrow> bool" where
  "jsonSemanticEqual (JNumber l) (JNumber r) =
     (case (normalizeJSONNumber l, normalizeJSONNumber r) of
        (Some leftNumber, Some rightNumber) \<Rightarrow> leftNumber = rightNumber
      | _ \<Rightarrow> False)"
| "jsonSemanticEqual (JArray ls) (JArray rs) =
     (length ls = length rs \<and> list_all (\<lambda>(l, r). jsonSemanticEqual l r) (zip ls rs))"
| "jsonSemanticEqual (JObject ls) (JObject rs) =
     (length ls = length rs
      \<and> list_all (\<lambda>(key, value). case map_of rs key of
                     None \<Rightarrow> False
                   | Some rightItem \<Rightarrow> jsonSemanticEqual value rightItem) ls)"
| "jsonSemanticEqual (JNumber l) _ = False"
| "jsonSemanticEqual (JArray ls) _ = False"
| "jsonSemanticEqual (JObject ls) _ = False"
| "jsonSemanticEqual l r = (l = r)"

text \<open>Metadata maps; \<open>normalizeMetadataJSONValue\<close> is the identity on decoded values.\<close>

definition metadataValuesEqual :: "json \<Rightarrow> json \<Rightarrow> bool" where
  "metadataValuesEqual left right = jsonSemanticEqual left right"

definition metadataEqual :: "json_object \<Rightarrow> json_object \<Rightarrow> bool" where
  "metadataEqual left right =
     (length left = length right
      \<and> list_all (\<lambda>(key, leftValue). case map_of right key of
                     None \<Rightarrow> False
                   | Some rightValue \<Rightarrow> metadataValuesEqual leftValue rightValue) left)"

text \<open>
  What the decoder yields: Go maps have distinct keys, and a number is a text of the JSON grammar, of any
  length.
\<close>

definition jsonNumberText :: "string \<Rightarrow> bool" where
  "jsonNumberText number =
     (let value = (if number \<noteq> [] \<and> hd number = CHR ''-'' then tl number else number);
          isExp = (\<lambda>c. c = CHR ''e'' \<or> c = CHR ''E'');
          mantissa = takeWhile (\<lambda>c. \<not> isExp c) value;
          exponent = dropWhile (\<lambda>c. \<not> isExp c) value;
          integer = takeWhile (\<lambda>c. c \<noteq> CHR ''.'') mantissa;
          fraction = dropWhile (\<lambda>c. c \<noteq> CHR ''.'') mantissa;
          sign = (\<lambda>ds. if ds \<noteq> [] \<and> (hd ds = CHR ''+'' \<or> hd ds = CHR ''-'') then tl ds else ds)
      in integer \<noteq> [] \<and> list_all isDigit integer \<and> (hd integer = CHR ''0'' \<longrightarrow> tl integer = [])
         \<and> (fraction \<noteq> [] \<longrightarrow> tl fraction \<noteq> [] \<and> list_all isDigit (tl fraction))
         \<and> (exponent \<noteq> [] \<longrightarrow> sign (tl exponent) \<noteq> [] \<and> list_all isDigit (sign (tl exponent))))"

fun jsonWellFormed :: "json \<Rightarrow> bool" where
  "jsonWellFormed (JNumber n) = jsonNumberText n"
| "jsonWellFormed (JArray xs) = list_all jsonWellFormed xs"
| "jsonWellFormed (JObject kvs) = (distinct (map fst kvs) \<and> list_all (\<lambda>(k, v). jsonWellFormed v) kvs)"
| "jsonWellFormed _ = True"

text \<open>The numbers of a value are within the limits of \<open>normalizeJSONNumber\<close>.\<close>

fun jsonBounded :: "json \<Rightarrow> bool" where
  "jsonBounded (JNumber n) = (normalizeJSONNumber n \<noteq> None)"
| "jsonBounded (JArray xs) = list_all jsonBounded xs"
| "jsonBounded (JObject kvs) = list_all (\<lambda>(k, v). jsonBounded v) kvs"
| "jsonBounded _ = True"

text \<open>Equality up to the order of keys and the spelling of numbers, those beyond the limits by their text.\<close>

fun jsonSame :: "json \<Rightarrow> json \<Rightarrow> bool" where
  "jsonSame (JNumber l) (JNumber r) =
     (case (normalizeJSONNumber l, normalizeJSONNumber r) of
        (Some leftNumber, Some rightNumber) \<Rightarrow> leftNumber = rightNumber
      | (None, None) \<Rightarrow> l = r
      | _ \<Rightarrow> False)"
| "jsonSame (JArray ls) (JArray rs) =
     (length ls = length rs \<and> list_all (\<lambda>(l, r). jsonSame l r) (zip ls rs))"
| "jsonSame (JObject ls) (JObject rs) =
     (length ls = length rs
      \<and> list_all (\<lambda>(key, value). case map_of rs key of
                     None \<Rightarrow> False
                   | Some rightItem \<Rightarrow> jsonSame value rightItem) ls)"
| "jsonSame (JNumber l) _ = False"
| "jsonSame (JArray ls) _ = False"
| "jsonSame (JObject ls) _ = False"
| "jsonSame l r = (l = r)"

section \<open>The canonical form of a number\<close>

definition digitsValue :: "string \<Rightarrow> nat" where
  "digitsValue ds = foldl (\<lambda>a c. 10 * a + digitValue c) 0 ds"

definition numberValue :: "normalizedJSONNumber \<Rightarrow> rat" where
  "numberValue n = (if nn_negative n then -1 else 1) * of_nat (digitsValue (nn_digits n)) * 10 powi nn_exponent n"

definition canonicalNumber :: "normalizedJSONNumber \<Rightarrow> bool" where
  "canonicalNumber n \<longleftrightarrow>
     n = \<lparr>nn_negative = False, nn_digits = ''0'', nn_exponent = 0\<rparr>
     \<or> (nn_digits n \<noteq> [] \<and> list_all isDigit (nn_digits n)
        \<and> hd (nn_digits n) \<noteq> CHR ''0'' \<and> last (nn_digits n) \<noteq> CHR ''0'')"

lemma isDigit_of_char: "isDigit c \<longleftrightarrow> 48 \<le> (of_char c :: nat) \<and> (of_char c :: nat) \<le> 57"
  by (simp add: isDigit_def less_eq_char_def)

lemma digitValue_less: "isDigit c \<Longrightarrow> digitValue c < 10"
  by (auto simp: isDigit_of_char digitValue_def)

lemma digitValue_alt: "digitValue c = of_char c - 48"
  by (simp add: digitValue_def)

lemma digitValue_inj: "isDigit c \<Longrightarrow> isDigit d \<Longrightarrow> digitValue c = digitValue d \<Longrightarrow> c = d"
proof -
  assume "isDigit c" "isDigit d" "digitValue c = digitValue d"
  then have "(of_char c :: nat) = of_char d" unfolding isDigit_of_char digitValue_alt by linarith
  then show "c = d" by simp
qed

lemma digitValue_zero: "isDigit c \<Longrightarrow> digitValue c = 0 \<longleftrightarrow> c = CHR ''0''"
  using digitValue_inj[of c "CHR ''0''"] by (auto simp: isDigit_of_char digitValue_def)

lemma digitsValue_Nil [simp]: "digitsValue [] = 0"
  by (simp add: digitsValue_def)

lemma digitsValue_snoc [simp]: "digitsValue (ds @ [c]) = 10 * digitsValue ds + digitValue c"
  by (simp add: digitsValue_def)

lemma digitsValue_Cons: "digitsValue (c # ds) = digitValue c * 10 ^ length ds + digitsValue ds"
proof (induction ds rule: rev_induct)
  case Nil
  then show ?case by (simp add: digitsValue_def)
next
  case (snoc d ds)
  have "digitsValue (c # ds @ [d]) = 10 * digitsValue (c # ds) + digitValue d"
    using digitsValue_snoc[of "c # ds" d] by simp
  then show ?case using snoc by simp
qed

lemma digitsValue_bound: "list_all isDigit ds \<Longrightarrow> digitsValue ds < 10 ^ length ds"
proof (induction ds rule: rev_induct)
  case (snoc d ds)
  then show ?case using digitValue_less[of d] by simp
qed simp

lemma digitsValue_lower:
  assumes "list_all isDigit ds" and "ds \<noteq> []" and "hd ds \<noteq> CHR ''0''"
  shows "10 ^ (length ds - 1) \<le> digitsValue ds"
proof (cases ds)
  case Nil
  then show ?thesis using assms by simp
next
  case (Cons c cs)
  with assms have "1 \<le> digitValue c" using digitValue_zero[of c] by (simp add: Suc_le_eq)
  then have "1 * 10 ^ length cs \<le> digitValue c * 10 ^ length cs" by (rule mult_le_mono1)
  then have "10 ^ length cs \<le> digitValue c * 10 ^ length cs + digitsValue cs" by linarith
  then show ?thesis unfolding Cons digitsValue_Cons by simp
qed

lemma digitsValue_inj_same:
  "length xs = length ys \<Longrightarrow> list_all isDigit xs \<Longrightarrow> list_all isDigit ys \<Longrightarrow>
   digitsValue xs = digitsValue ys \<Longrightarrow> xs = ys"
proof (induction xs arbitrary: ys rule: rev_induct)
  case Nil
  then show ?case by simp
next
  case (snoc x xs)
  then obtain y ys' where ys: "ys = ys' @ [y]" by (cases ys rule: rev_cases) auto
  from snoc.prems ys have eq: "10 * digitsValue xs + digitValue x = 10 * digitsValue ys' + digitValue y"
    and dig: "isDigit x" "isDigit y" by auto
  have "digitValue x = digitValue y"
    using arg_cong[OF eq, of "\<lambda>n. n mod 10"] digitValue_less[OF dig(1)] digitValue_less[OF dig(2)] by simp
  with eq dig snoc ys show ?case by (auto intro: digitValue_inj)
qed

lemma digitsValue_inj:
  assumes "list_all isDigit xs" "xs \<noteq> []" "hd xs \<noteq> CHR ''0''"
    and "list_all isDigit ys" "ys \<noteq> []" "hd ys \<noteq> CHR ''0''"
    and eq: "digitsValue xs = digitsValue ys"
  shows "xs = ys"
proof -
  have "(10 :: nat) ^ (length xs - 1) < 10 ^ length ys" and "(10 :: nat) ^ (length ys - 1) < 10 ^ length xs"
    using digitsValue_lower[OF assms(1-3)] digitsValue_lower[OF assms(4-6)]
      digitsValue_bound[OF assms(1)] digitsValue_bound[OF assms(4)] eq by linarith+
  then have "length xs - 1 < length ys" and "length ys - 1 < length xs" by simp_all
  then have "length xs = length ys" using assms(2,5) by (cases xs; cases ys) auto
  then show ?thesis using assms by (intro digitsValue_inj_same)
qed

lemma digitsValue_not_dvd:
  "list_all isDigit ds \<Longrightarrow> ds \<noteq> [] \<Longrightarrow> last ds \<noteq> CHR ''0'' \<Longrightarrow> \<not> 10 dvd digitsValue ds"
  by (cases ds rule: rev_cases)
     (auto simp: digitValue_zero[symmetric] dvd_add_right_iff dest!: digitValue_less dest: nat_dvd_not_less)

text \<open>A positive integer not divisible by ten, times a power of ten, determines both.\<close>

lemma decimal_unique_le:
  assumes "of_nat a * 10 powi d = of_nat b * (10 :: rat) powi e" and "\<not> 10 dvd a" and "d \<le> e"
  shows "a = b \<and> d = e"
proof -
  define k where "k = nat (e - d)"
  have "(10 :: rat) powi e = 10 powi d * 10 ^ k"
    using assms(3) by (simp add: k_def power_int_add[symmetric] flip: power_int_of_nat)
  with assms(1) have "(of_nat a :: rat) = of_nat (b * 10 ^ k)" by simp
  then have a: "a = b * 10 ^ k" by (simp only: of_nat_eq_iff)
  with assms(2) have "k = 0" by (cases k) auto
  with a assms(3) show ?thesis by (simp add: k_def)
qed

lemma decimal_unique:
  assumes "of_nat a * 10 powi d = of_nat b * (10 :: rat) powi e" and "\<not> 10 dvd a" and "\<not> 10 dvd b"
  shows "a = b \<and> d = e"
  using decimal_unique_le[OF assms(1,2)] decimal_unique_le[OF assms(1)[symmetric] assms(3)]
  by (cases "d \<le> e") auto

lemma canonicalNumber_inj:
  assumes "canonicalNumber m" and "canonicalNumber n" and eq: "numberValue m = numberValue n"
  shows "m = n"
proof -
  let ?zero = "\<lparr>nn_negative = False, nn_digits = ''0'', nn_exponent = 0\<rparr> :: normalizedJSONNumber"
  have zero: "numberValue k = 0 \<longleftrightarrow> k = ?zero" if "canonicalNumber k" for k
  proof -
    have "digitsValue (nn_digits k) > 0" if "k \<noteq> ?zero"
      using digitsValue_lower[of "nn_digits k"] that \<open>canonicalNumber k\<close>
      by (force simp: canonicalNumber_def intro: gr0I)
    then show ?thesis
      by (cases "k = ?zero") (auto simp: numberValue_def digitsValue_def digitValue_def)
  qed
  show ?thesis
  proof (cases "m = ?zero \<or> n = ?zero")
    case True
    then show ?thesis using zero assms by metis
  next
    case False
    let ?a = "digitsValue (nn_digits m)" and ?b = "digitsValue (nn_digits n)"
    from False assms have m: "nn_digits m \<noteq> []" "list_all isDigit (nn_digits m)"
        "hd (nn_digits m) \<noteq> CHR ''0''" "last (nn_digits m) \<noteq> CHR ''0''"
      and n: "nn_digits n \<noteq> []" "list_all isDigit (nn_digits n)"
        "hd (nn_digits n) \<noteq> CHR ''0''" "last (nn_digits n) \<noteq> CHR ''0''"
      by (auto simp: canonicalNumber_def)
    have abs: "\<bar>numberValue k\<bar> = of_nat (digitsValue (nn_digits k)) * 10 powi nn_exponent k" for k
      by (simp add: numberValue_def abs_mult)
    have "?a = ?b \<and> nn_exponent m = nn_exponent n"
      using arg_cong[OF eq, of abs] m n unfolding abs
      by (intro decimal_unique digitsValue_not_dvd)
    moreover from this m n have "nn_digits m = nn_digits n" by (intro digitsValue_inj) auto
    moreover have "nn_negative m = nn_negative n"
      using eq calculation zero[OF assms(1)] False by (auto simp: numberValue_def split: if_splits)
    ultimately show ?thesis by simp
  qed
qed

lemma dropWhile_hd: "dropWhile P xs \<noteq> [] \<Longrightarrow> \<not> P (hd (dropWhile P xs))"
  by (simp add: hd_dropWhile)

lemma trimLeadingZeros_props:
  "digitsValue (trimLeadingZeros ds) = digitsValue ds"
  "list_all isDigit ds \<Longrightarrow> list_all isDigit (trimLeadingZeros ds)"
  "trimLeadingZeros ds \<noteq> [] \<Longrightarrow> hd (trimLeadingZeros ds) \<noteq> CHR ''0''"
proof -
  show "digitsValue (trimLeadingZeros ds) = digitsValue ds"
    by (induction ds) (auto simp: trimLeadingZeros_def digitsValue_Cons digitValue_def)
  show "list_all isDigit ds \<Longrightarrow> list_all isDigit (trimLeadingZeros ds)"
    by (auto simp: trimLeadingZeros_def list_all_iff dest: set_dropWhileD)
  show "trimLeadingZeros ds \<noteq> [] \<Longrightarrow> hd (trimLeadingZeros ds) \<noteq> CHR ''0''"
    unfolding trimLeadingZeros_def by (drule dropWhile_hd) simp
qed

lemma trimTrailingZeros_snoc:
  "trimTrailingZeros (ds @ [c]) e = (if c = CHR ''0'' then trimTrailingZeros ds (e + 1) else (ds @ [c], e))"
  by (simp add: trimTrailingZeros_def Let_def)

lemma trimTrailingZeros_props:
  assumes "trimTrailingZeros ds e = (ds', e')" and "ds \<noteq> []" and "hd ds \<noteq> CHR ''0''"
  shows "\<exists>zs. ds = ds' @ zs \<and> of_nat (digitsValue ds) * 10 powi e = of_nat (digitsValue ds') * (10 :: rat) powi e'
         \<and> ds' \<noteq> [] \<and> last ds' \<noteq> CHR ''0''"
  using assms
proof (induction ds arbitrary: e rule: rev_induct)
  case Nil
  then show ?case by simp
next
  case (snoc c ds)
  show ?case
  proof (cases "c = CHR ''0''")
    case False
    with snoc.prems show ?thesis by (auto simp: trimTrailingZeros_snoc)
  next
    case True
    with snoc.prems have ds: "ds \<noteq> []" "hd ds \<noteq> CHR ''0''" by (cases ds; simp)+
    have "of_nat (digitsValue (ds @ [c])) * (10 :: rat) powi e = of_nat (digitsValue ds) * 10 powi (e + 1)"
      using True by (simp add: digitValue_def power_int_add)
    with True snoc.prems ds snoc.IH[of "e + 1"] show ?thesis by (auto simp: trimTrailingZeros_snoc)
  qed
qed

lemma finishNumber_correct:
  assumes "list_all isDigit ds"
  shows "canonicalNumber (finishNumber neg ds e)"
    and "numberValue (finishNumber neg ds e) = (if neg then -1 else 1) * of_nat (digitsValue ds) * 10 powi e"
proof -
  let ?ds = "trimLeadingZeros ds"
  obtain ds' e' where tr: "trimTrailingZeros ?ds e = (ds', e')" by force
  note lead = trimLeadingZeros_props[of ds] trimLeadingZeros_props(2)[OF assms]
  have *: "canonicalNumber (finishNumber neg ds e)
         \<and> numberValue (finishNumber neg ds e) = (if neg then -1 else 1) * of_nat (digitsValue ds) * 10 powi e"
  proof (cases "?ds = []")
    case True
    then show ?thesis using lead(1)
      by (simp add: finishNumber_def canonicalNumber_def numberValue_def digitsValue_def digitValue_def)
  next
    case False
    from trimTrailingZeros_props[OF tr False lead(3)[OF False]] obtain zs where
      zs: "?ds = ds' @ zs" "ds' \<noteq> []" "last ds' \<noteq> CHR ''0''"
      "of_nat (digitsValue ?ds) * 10 powi e = of_nat (digitsValue ds') * (10 :: rat) powi e'" by auto
    moreover have "hd ds' = hd ?ds" using zs by simp
    ultimately show ?thesis using False tr lead
      by (auto simp: finishNumber_def canonicalNumber_def numberValue_def)
  qed
  then show "canonicalNumber (finishNumber neg ds e)"
    and "numberValue (finishNumber neg ds e) = (if neg then -1 else 1) * of_nat (digitsValue ds) * 10 powi e"
    by blast+
qed

lemma normalizeJSONNumber_canonical: "normalizeJSONNumber t = Some n \<Longrightarrow> canonicalNumber n"
  by (auto simp: normalizeJSONNumber_def Let_def finishNumber_correct(1) split: option.splits if_splits)

text \<open>The text of a number in JSON syntax, from its parts, and the rational it denotes.\<close>

definition numberText :: "bool \<Rightarrow> string \<Rightarrow> string option \<Rightarrow> (bool \<times> string) option \<Rightarrow> string" where
  "numberText neg i fr ex =
     (if neg then ''-'' else []) @ i @ (case fr of None \<Rightarrow> [] | Some f \<Rightarrow> CHR ''.'' # f)
     @ (case ex of None \<Rightarrow> [] | Some (n, x) \<Rightarrow> CHR ''e'' # (if n then ''-'' else []) @ x)"

definition decimalValue :: "bool \<Rightarrow> string \<Rightarrow> string option \<Rightarrow> (bool \<times> string) option \<Rightarrow> rat" where
  "decimalValue neg i fr ex =
     (let f = (case fr of None \<Rightarrow> [] | Some f \<Rightarrow> f);
          e = (case ex of None \<Rightarrow> 0 | Some (n, x) \<Rightarrow> (if n then -1 else 1) * int (digitsValue x))
      in (if neg then -1 else 1) * of_nat (digitsValue (i @ f)) * 10 powi (e - int (length f)))"

definition boundedParts :: "string \<Rightarrow> string option \<Rightarrow> (bool \<times> string) option \<Rightarrow> bool" where
  "boundedParts i fr ex \<longleftrightarrow>
     i \<noteq> [] \<and> list_all isDigit i
     \<and> (case fr of None \<Rightarrow> True | Some f \<Rightarrow> list_all isDigit f)
     \<and> length i + (case fr of None \<Rightarrow> 0 | Some f \<Rightarrow> length f) \<le> maxJSONNumberDigits
     \<and> (case ex of None \<Rightarrow> True
          | Some (n, x) \<Rightarrow> x \<noteq> [] \<and> list_all isDigit x \<and> int (digitsValue x) \<le> maxJSONNumberExponent)"

lemma parseExponent_digits:
  assumes "list_all isDigit xs" and "0 \<le> acc"
    and "acc * 10 ^ length xs + int (digitsValue xs) \<le> maxJSONNumberExponent"
  shows "parseExponent acc xs = Some (acc * 10 ^ length xs + int (digitsValue xs))"
  using assms
proof (induction xs arbitrary: acc)
  case Nil
  then show ?case by simp
next
  case (Cons c cs)
  let ?acc = "acc * 10 + int (digitValue c)"
  have sum: "acc * 10 ^ length (c # cs) + int (digitsValue (c # cs)) = ?acc * 10 ^ length cs + int (digitsValue cs)"
    by (simp add: digitsValue_Cons algebra_simps)
  have "?acc * 1 \<le> ?acc * 10 ^ length cs" using Cons.prems(2) by (intro mult_left_mono) auto
  also have "\<dots> \<le> ?acc * 10 ^ length cs + int (digitsValue cs)" by simp
  also have "\<dots> \<le> maxJSONNumberExponent" using Cons.prems(3) sum by simp
  finally have "?acc \<le> maxJSONNumberExponent" by simp
  then show ?case using Cons sum by (simp add: Let_def)
qed

lemma isDigit_not_special:
  "isDigit c \<Longrightarrow> c \<noteq> CHR ''e'' \<and> c \<noteq> CHR ''E'' \<and> c \<noteq> CHR ''.'' \<and> c \<noteq> CHR ''-'' \<and> c \<noteq> CHR ''+''"
  by (auto simp: isDigit_of_char)

lemma takeWhile_dropWhile_stop:
  assumes "list_all P xs" and "ys = [] \<or> \<not> P (hd ys)"
  shows "takeWhile P (xs @ ys) = xs" and "dropWhile P (xs @ ys) = ys"
  using assms by (auto simp: list_all_iff takeWhile_append dropWhile_append takeWhile_eq_Nil_iff
      dropWhile_eq_self_iff takeWhile_eq_all_conv dropWhile_eq_Nil_conv)

lemma normalizeJSONNumber_parts:
  assumes "boundedParts i fr ex"
  shows "\<exists>n. normalizeJSONNumber (numberText neg i fr ex) = Some n \<and> numberValue n = decimalValue neg i fr ex"
proof -
  let ?f = "case fr of None \<Rightarrow> [] | Some f \<Rightarrow> f"
  let ?m = "i @ (case fr of None \<Rightarrow> [] | Some f \<Rightarrow> CHR ''.'' # f)"
  let ?x = "case ex of None \<Rightarrow> [] | Some (n, x) \<Rightarrow> CHR ''e'' # (if n then ''-'' else []) @ x"
  let ?e = "case ex of None \<Rightarrow> 0 | Some (n, x) \<Rightarrow> (if n then -1 else 1) * int (digitsValue x)"
  have digs: "list_all isDigit (i @ ?f)" "i \<noteq> []" "length i + length ?f \<le> maxJSONNumberDigits"
    using assms by (auto simp: boundedParts_def split: option.splits)
  have neg: "hd (i @ ys) \<noteq> CHR ''-''" for ys
    using digs(1,2) isDigit_not_special by (cases i) auto
  have mant: "list_all (\<lambda>c. \<not> (c = CHR ''e'' \<or> c = CHR ''E'')) ?m"
    using assms isDigit_not_special by (auto simp: boundedParts_def list_all_iff split: option.splits)
  have ipart: "list_all (\<lambda>c. c \<noteq> CHR ''.'') i"
    using digs(1) isDigit_not_special by (auto simp: list_all_iff)
  have expo: "exponentPart ?x = Some ?e"
  proof (cases ex)
    case (Some nx)
    obtain n x where nx: "nx = (n, x)" by force
    with assms Some have x: "x \<noteq> []" "list_all isDigit x" "int (digitsValue x) \<le> maxJSONNumberExponent"
      by (auto simp: boundedParts_def)
    then have "hd x \<noteq> CHR ''-'' \<and> hd x \<noteq> CHR ''+''" using isDigit_not_special by (cases x) auto
    with x Some nx parseExponent_digits[of x 0] show ?thesis by (simp add: exponentPart_def Let_def)
  qed (simp add: exponentPart_def)
  have split1: "takeWhile (\<lambda>c. \<not> (c = CHR ''e'' \<or> c = CHR ''E'')) (?m @ ?x) = ?m"
    "dropWhile (\<lambda>c. \<not> (c = CHR ''e'' \<or> c = CHR ''E'')) (?m @ ?x) = ?x"
    using takeWhile_dropWhile_stop[OF mant, of ?x] by (auto split: option.splits)
  have split2: "takeWhile (\<lambda>c. c \<noteq> CHR ''.'') ?m = i" "drop 1 (dropWhile (\<lambda>c. c \<noteq> CHR ''.'') ?m) = ?f"
    using takeWhile_dropWhile_stop[OF ipart, of "case fr of None \<Rightarrow> [] | Some f \<Rightarrow> CHR ''.'' # f"]
    by (auto split: option.splits)
  have txt_eq: "numberText neg i fr ex = (if neg then CHR ''-'' # ?m @ ?x else ?m @ ?x)"
    by (simp add: numberText_def)
  have "normalizeJSONNumber (numberText neg i fr ex) = Some (finishNumber neg (i @ ?f) (?e - int (length ?f)))"
    using neg[of "(case fr of None \<Rightarrow> [] | Some f \<Rightarrow> CHR ''.'' # f) @ ?x"] digs
    unfolding txt_eq normalizeJSONNumber_def Let_def
    by (simp add: split1[simplified] split2[simplified] expo)
  then show ?thesis
    using finishNumber_correct(2)[OF digs(1), of neg "?e - int (length ?f)"]
    by (simp add: decimalValue_def Let_def)
qed

text \<open>
  Two number texts within the lexical bounds (4096 digits, exponent at most
  10000) normalise to the same triple exactly when they denote the same rational number.
\<close>

theorem number_normal_form:
  assumes "boundedParts i fr ex" and "boundedParts i' fr' ex'"
  shows "normalizeJSONNumber (numberText neg i fr ex) \<noteq> None
    \<and> (normalizeJSONNumber (numberText neg i fr ex) = normalizeJSONNumber (numberText neg' i' fr' ex')
       \<longleftrightarrow> decimalValue neg i fr ex = decimalValue neg' i' fr' ex')"
proof -
  obtain m n where m: "normalizeJSONNumber (numberText neg i fr ex) = Some m"
      "numberValue m = decimalValue neg i fr ex"
    and n: "normalizeJSONNumber (numberText neg' i' fr' ex') = Some n"
      "numberValue n = decimalValue neg' i' fr' ex'"
    using normalizeJSONNumber_parts[OF assms(1)] normalizeJSONNumber_parts[OF assms(2)] by metis
  with canonicalNumber_inj normalizeJSONNumber_canonical show ?thesis by auto
qed

theorem number_normal_form_witness:
  "boundedParts ''12'' (Some ''50'') (Some (False, ''1'')) \<and> boundedParts ''125'' None None
   \<and> normalizeJSONNumber ''12.50e1'' = normalizeJSONNumber ''125''"
proof -
  have b: "boundedParts ''12'' (Some ''50'') (Some (False, ''1''))" "boundedParts ''125'' None None"
    by (simp_all add: boundedParts_def isDigit_of_char digitsValue_def digitValue_def
        maxJSONNumberDigits_def maxJSONNumberExponent_def)
  have "decimalValue False ''12'' (Some ''50'') (Some (False, ''1'')) = decimalValue False ''125'' None None"
    by (simp add: decimalValue_def digitsValue_def digitValue_def power_int_def)
  with number_normal_form[OF b, of False False] b show ?thesis by (simp add: numberText_def)
qed

section \<open>Semantic equality is an equivalence\<close>

text \<open>
  The value a JSON tree denotes: numbers by their canonical form, or by their text beyond the limits,
  objects by their sorted bindings.
\<close>

datatype canonical =
    CNull
  | CBool bool
  | CNumber normalizedJSONNumber
  | CText string
  | CString string
  | CIdentity string
  | CArray "canonical list"
  | CObject "(string \<times> canonical) list"

fun canonicalJSON :: "json \<Rightarrow> canonical" where
  "canonicalJSON JNull = CNull"
| "canonicalJSON (JBool b) = CBool b"
| "canonicalJSON (JNumber n) = (case normalizeJSONNumber n of Some m \<Rightarrow> CNumber m | None \<Rightarrow> CText n)"
| "canonicalJSON (JString s) = CString s"
| "canonicalJSON (JIdentity s) = CIdentity s"
| "canonicalJSON (JArray xs) = CArray (map canonicalJSON xs)"
| "canonicalJSON (JObject kvs) = CObject (sort_key fst (map (\<lambda>(k, v). (k, canonicalJSON v)) kvs))"

lemma sorted_bindings_eq:
  assumes "distinct (map fst xs)" and "distinct (map fst ys)"
  shows "sort_key fst xs = sort_key fst ys \<longleftrightarrow> set xs = set ys"
proof
  have dist: "distinct (map fst (sort_key fst zs))" if "distinct (map fst zs)" for zs :: "('a \<times> 'b) list"
    using that by (simp add: distinct_map)
  assume "set xs = set ys"
  then show "sort_key fst xs = sort_key fst ys"
    using assms by (intro map_sorted_distinct_set_unique[where f = fst] dist) (auto simp: distinct_map)
qed (metis set_sort)

lemma bindings_eq_iff:
  assumes "distinct (map fst xs)" and "distinct (map fst ys)"
  shows "length xs = length ys \<and> set xs \<subseteq> set ys \<longleftrightarrow> set xs = set ys"
proof -
  have "card (set xs) = length xs" and "card (set ys) = length ys"
    using assms by (auto simp: distinct_map distinct_card)
  then show ?thesis by (metis List.finite_set card_subset_eq order_refl)
qed

lemma map_of_in_bindings:
  "distinct (map fst kvs) \<Longrightarrow> map_of kvs k = Some v \<longleftrightarrow> (k, v) \<in> set kvs"
  by simp

lemma list_all_zip_map:
  assumes "length xs = length ys" and "\<And>x y. x \<in> set xs \<Longrightarrow> y \<in> set ys \<Longrightarrow> P x y \<longleftrightarrow> f x = g y"
  shows "list_all (\<lambda>(x, y). P x y) (zip xs ys) \<longleftrightarrow> map f xs = map g ys"
  using assms by (induction xs ys rule: list_induct2) auto

lemma jsonSame_canonical:
  "jsonWellFormed l \<Longrightarrow> jsonWellFormed r \<Longrightarrow> jsonSame l r \<longleftrightarrow> canonicalJSON l = canonicalJSON r"
proof (induction l arbitrary: r)
  case (JArray ls)
  show ?case
  proof (cases r)
    case (JArray rs)
    have "length ls = length rs" if "map canonicalJSON ls = map canonicalJSON rs"
      using that by (metis length_map)
    moreover have "list_all (\<lambda>(l, r). jsonSame l r) (zip ls rs) \<longleftrightarrow> map canonicalJSON ls = map canonicalJSON rs"
      if "length ls = length rs"
      using that JArray.prems JArray.IH JArray by (intro list_all_zip_map) (auto simp: list_all_iff)
    ultimately show ?thesis using JArray by auto
  qed (auto split: option.splits)
next
  case (JObject ls)
  show ?case
  proof (cases r)
    case (JObject rs)
    let ?can = "\<lambda>(k, v). (k :: string, canonicalJSON v)"
    have keys: "map fst (map ?can kvs) = map fst kvs" for kvs :: json_object by auto
    have dist: "distinct (map fst ls)" "distinct (map fst rs)" using JObject.prems JObject by auto
    have lookup: "(case map_of rs k of None \<Rightarrow> False | Some w \<Rightarrow> jsonSame v w) \<longleftrightarrow> ?can (k, v) \<in> ?can ` set rs"
      if "(k, v) \<in> set ls" for k v
    proof -
      have eq: "jsonSame v w \<longleftrightarrow> canonicalJSON v = canonicalJSON w" if "(k, w) \<in> set rs" for w
        using that \<open>(k, v) \<in> set ls\<close> JObject.prems JObject JObject.IH[of "(k, v)" v w]
        by (auto simp: list_all_iff)
      show ?thesis
      proof (cases "map_of rs k")
        case None
        then have "\<forall>w. (k, w) \<notin> set rs" by (force simp: map_of_eq_None_iff)
        then show ?thesis unfolding None by auto
      next
        case (Some w)
        then have w: "(k, w) \<in> set rs" by (rule map_of_SomeD)
        have uniq: "w' = w" if "(k, w') \<in> set rs" for w'
          using Some that dist(2) by (metis map_of_in_bindings option.inject)
        have "?can (k, v) \<in> ?can ` set rs \<longleftrightarrow> canonicalJSON v = canonicalJSON w"
        proof
          assume "?can (k, v) \<in> ?can ` set rs"
          then obtain w' where w': "(k, w') \<in> set rs" "canonicalJSON v = canonicalJSON w'" by auto
          then show "canonicalJSON v = canonicalJSON w" using uniq[OF w'(1)] by simp
        next
          assume "canonicalJSON v = canonicalJSON w"
          then have "?can (k, v) = ?can (k, w)" by simp
          then show "?can (k, v) \<in> ?can ` set rs" by (rule rev_image_eqI[OF w])
        qed
        then show ?thesis using Some eq[OF w] by simp
      qed
    qed
    have "jsonSame (JObject ls) r \<longleftrightarrow> length ls = length rs \<and> (\<forall>kv \<in> set ls. ?can kv \<in> ?can ` set rs)"
      using lookup JObject by (auto simp: list_all_iff)
    also have "\<dots> \<longleftrightarrow> length ls = length rs \<and> ?can ` set ls \<subseteq> ?can ` set rs"
      by (simp only: image_subset_iff)
    also have "\<dots> \<longleftrightarrow> set (map ?can ls) = set (map ?can rs)"
      using bindings_eq_iff[of "map ?can ls" "map ?can rs"] dist by (simp only: keys set_map length_map)
    finally show ?thesis
      using sorted_bindings_eq[of "map ?can ls" "map ?can rs"] dist JObject by (simp only: keys canonicalJSON.simps canonical.inject)
  qed (auto split: option.splits)
qed (auto split: option.splits; case_tac r; auto)+

lemma jsonSemanticEqual_same: "jsonSemanticEqual l r \<longleftrightarrow> jsonSame l r \<and> jsonBounded l"
proof (induction l r rule: jsonSemanticEqual.induct)
  case (2 ls rs)
  have "list_all (\<lambda>(l, r). jsonSemanticEqual l r) (zip ls rs) \<longleftrightarrow> list_all (\<lambda>(l, r). jsonSame l r) (zip ls rs) \<and> list_all jsonBounded ls"
    if len: "length ls = length rs"
  proof -
    have "list_all (\<lambda>(l, r). jsonSemanticEqual l r) (zip ls rs) \<longleftrightarrow> list_all (\<lambda>(l, r). jsonSame l r \<and> jsonBounded l) (zip ls rs)"
      using 2 by (intro list.pred_cong) auto
    also have "\<dots> \<longleftrightarrow> list_all (\<lambda>(l, r). jsonSame l r) (zip ls rs) \<and> list_all (\<lambda>(l, r). jsonBounded l) (zip ls rs)"
      by (auto simp: list_all_iff)
    also have "list_all (\<lambda>(l, r). jsonBounded l) (zip ls rs) \<longleftrightarrow> list_all jsonBounded ls"
      using len by (induction ls rs rule: list_induct2) auto
    finally show ?thesis .
  qed
  then show ?case by auto
next
  case (3 ls rs)
  have "(case map_of rs k of None \<Rightarrow> False | Some w \<Rightarrow> jsonSemanticEqual v w)
      \<longleftrightarrow> (case map_of rs k of None \<Rightarrow> False | Some w \<Rightarrow> jsonSame v w) \<and> jsonBounded v" if "(k, v) \<in> set ls" for k v
    using 3[OF that refl, of _] by (cases "map_of rs k") auto
  then show ?case by (auto simp: list_all_iff)
qed (auto split: option.splits)

lemma jsonSemanticEqual_canonical:
  "jsonWellFormed l \<Longrightarrow> jsonWellFormed r \<Longrightarrow> jsonBounded l \<Longrightarrow> jsonSemanticEqual l r \<longleftrightarrow> canonicalJSON l = canonicalJSON r"
  by (simp add: jsonSemanticEqual_same jsonSame_canonical)

text \<open>
  On decoded JSON values with numbers within the limits, semantic equality is an equivalence
  relation, and it holds exactly when the values have the same canonical form.
\<close>

theorem semantic_equality_equivalence:
  assumes "jsonWellFormed a" and "jsonWellFormed b" and "jsonWellFormed c" and "jsonBounded a" and "jsonBounded b"
  shows "jsonSemanticEqual a a
    \<and> jsonSemanticEqual a b = jsonSemanticEqual b a
    \<and> (jsonSemanticEqual a b \<and> jsonSemanticEqual b c \<longrightarrow> jsonSemanticEqual a c)
    \<and> (jsonSemanticEqual a b \<longleftrightarrow> canonicalJSON a = canonicalJSON b)"
  using assms by (auto simp: jsonSemanticEqual_canonical)

definition sampleObject :: json where
  "sampleObject = JObject [(''a'', JNumber ''1.0''), (''b'', JArray [JNull, JString ''x''])]"

theorem semantic_equality_equivalence_witness:
  "jsonSemanticEqual sampleObject sampleObject
   \<and> jsonSemanticEqual sampleObject (JObject [(''b'', JArray [JNull, JString ''x'']), (''a'', JNumber ''1'')])"
proof -
  have wf: "jsonWellFormed sampleObject"
      "jsonWellFormed (JObject [(''b'', JArray [JNull, JString ''x'']), (''a'', JNumber ''1'')])"
      "jsonBounded sampleObject" "jsonBounded (JObject [(''b'', JArray [JNull, JString ''x'']), (''a'', JNumber ''1'')])"
    by code_simp+
  have "jsonSemanticEqual (JObject [(''b'', JArray [JNull, JString ''x'']), (''a'', JNumber ''1'')]) sampleObject"
    by code_simp
  with semantic_equality_equivalence[OF wf(1,2,1,3,4)] show ?thesis by simp
qed

end
