(* ===== verification/Database.thy ===== *)
theory Database
  imports Entries Json
begin

text \<open>
  The tables of the SQLite store (\<open>internal/plugin/store/sqlite/db/schema.sql\<close>) with the row types of
  \<open>internal/model/model.go\<close>, the access levels, and the field cipher. A table is the list of its rows in
  insertion order; the primary keys and unique indexes of the schema are the predicate \<open>keysOK\<close>. The
  field cipher is a parameter (\<open>s.enc\<close>, absent when encryption is off).
\<close>

section \<open>Access levels\<close>

datatype AccessLevel =
    AccessLevelOwner
  | AccessLevelManager
  | AccessLevelWriter
  | AccessLevelReader
  | OtherAccessLevel string

fun accessRank :: "AccessLevel \<Rightarrow> int" where
  "accessRank AccessLevelOwner = 4"
| "accessRank AccessLevelManager = 3"
| "accessRank AccessLevelWriter = 2"
| "accessRank AccessLevelReader = 1"
| "accessRank (OtherAccessLevel _) = 0"

definition IsAtLeast :: "AccessLevel \<Rightarrow> AccessLevel \<Rightarrow> bool" where
  "IsAtLeast a level = (accessRank a \<ge> accessRank level)"

lemma IsAtLeast_owner [simp]: "IsAtLeast a AccessLevelOwner \<longleftrightarrow> a = AccessLevelOwner"
  by (cases a) (simp_all add: IsAtLeast_def)

lemma IsAtLeast_refl [simp]: "IsAtLeast a a"
  by (simp add: IsAtLeast_def)

lemma IsAtLeast_trans: "IsAtLeast a b \<Longrightarrow> IsAtLeast b c \<Longrightarrow> IsAtLeast a c"
  by (simp add: IsAtLeast_def)

lemma owner_IsAtLeast [simp]: "IsAtLeast AccessLevelOwner a"
  by (cases a) (simp_all add: IsAtLeast_def)

section \<open>Rows\<close>

record ConversationGroup =
  g_ID :: uuid
  g_CreatedAt :: time
  g_ArchivedAt :: "time option"

record Conversation =
  c_ID :: string
  c_Title :: "string option"
  c_OwnerUserID :: string
  c_ClientID :: string
  c_AgentID :: "string option"
  c_Metadata :: json_object
  c_ConversationGroupID :: uuid
  c_ForkedAtEntryID :: "uuid option"
  c_ForkedAtConversationID :: "string option"
  c_StartedByConversationID :: "string option"
  c_StartedByEntryID :: "uuid option"
  c_CreatedAt :: time
  c_UpdatedAt :: time
  c_VectorizedAt :: "time option"
  c_ArchivedAt :: "time option"

record ConversationMembership =
  m_ConversationGroupID :: uuid
  m_UserID :: string
  m_AccessLevel :: AccessLevel
  m_CreatedAt :: time

record OwnershipTransfer =
  t_ID :: uuid
  t_ConversationGroupID :: uuid
  t_FromUserID :: string
  t_ToUserID :: string
  t_CreatedAt :: time

record db =
  db_groups :: "ConversationGroup list"
  db_conversations :: "Conversation list"
  db_ancestry :: "ConversationAncestry list"
  db_memberships :: "ConversationMembership list"
  db_entries :: "Entry list"
  db_transfers :: "OwnershipTransfer list"

definition emptyDB :: db where
  "emptyDB = \<lparr>db_groups = [], db_conversations = [], db_ancestry = [], db_memberships = [],
              db_entries = [], db_transfers = []\<rparr>"

section \<open>Table operations\<close>

text \<open>\<open>UPDATE ... SET ... WHERE\<close>: the rows that match are rewritten in place.\<close>

definition update_where :: "('a \<Rightarrow> bool) \<Rightarrow> ('a \<Rightarrow> 'a) \<Rightarrow> 'a list \<Rightarrow> 'a list" where
  "update_where P f rows = map (\<lambda>r. if P r then f r else r) rows"

text \<open>\<open>DELETE ... WHERE\<close>.\<close>

definition delete_where :: "('a \<Rightarrow> bool) \<Rightarrow> 'a list \<Rightarrow> 'a list" where
  "delete_where P rows = filter (\<lambda>r. \<not> P r) rows"

text \<open>\<open>LEFT JOIN\<close> of one row with a table: the matching rows, or one row of NULLs.\<close>

definition left_join :: "('a \<Rightarrow> bool) \<Rightarrow> 'a list \<Rightarrow> 'a option list" where
  "left_join P rows = (case filter P rows of [] \<Rightarrow> [None] | ms \<Rightarrow> map Some ms)"

lemma update_where_map_same:
  "(\<And>r. r \<in> set rows \<Longrightarrow> P r \<Longrightarrow> key (f r) = key r) \<Longrightarrow> map key (update_where P f rows) = map key rows"
  by (simp add: update_where_def)

lemma set_update_where: "set (update_where P f rows) = f ` {r \<in> set rows. P r} \<union> {r \<in> set rows. \<not> P r}"
  by (auto simp: update_where_def)

lemma bex_update_where: "(\<exists>m \<in> set (update_where P f rows). Q m) \<longleftrightarrow> (\<exists>x \<in> set rows. Q (if P x then f x else x))"
  unfolding update_where_def set_map by (rule bex_simps(7))

lemma set_delete_where [simp]: "set (delete_where P rows) = {r \<in> set rows. \<not> P r}"
  by (auto simp: delete_where_def)

lemma update_where_none: "(\<And>r. r \<in> set rows \<Longrightarrow> \<not> P r) \<Longrightarrow> update_where P f rows = rows"
  by (simp add: update_where_def map_idI)

lemma distinct_delete_where: "distinct (map key rows) \<Longrightarrow> distinct (map key (delete_where P rows))"
  by (simp add: delete_where_def distinct_map_filter)

lemma left_join_none: "(\<And>r. r \<in> set rows \<Longrightarrow> \<not> P r) \<Longrightarrow> left_join P rows = [None]"
  by (simp add: left_join_def filter_empty_conv)

lemma left_join_unique:
  assumes "distinct (map key rows)" and "x \<in> set rows" and "\<And>r. r \<in> set rows \<Longrightarrow> P r \<longleftrightarrow> key r = key x"
  shows "left_join P rows = [Some x]"
proof -
  have "filter P rows = filter (\<lambda>r. key r = key x) rows" using assms(3) by (intro filter_cong) auto
  also have "\<dots> = [x]" using assms(1,2)
  proof (induction rows)
    case (Cons r rows)
    then show ?case by (cases "r = x") (auto simp: filter_empty_conv image_iff)
  qed simp
  finally show ?thesis by (simp add: left_join_def)
qed

section \<open>Keys\<close>

text \<open>
  The primary keys and unique indexes of the schema. The key of an entry is its id with its group; since every
  operation that stores entries takes their ids from \<open>uuid.New\<close>, the ids alone are distinct, and that is what
  the operations keep.
\<close>

definition ancestryKey :: "ConversationAncestry \<Rightarrow> uuid \<times> string \<times> string" where
  "ancestryKey ca = (ca_ConversationGroupID ca, ca_DescendantConversationID ca, ca_AncestorConversationID ca)"

definition membershipKey :: "ConversationMembership \<Rightarrow> uuid \<times> string" where
  "membershipKey m = (m_ConversationGroupID m, m_UserID m)"

definition keysOK :: "db \<Rightarrow> bool" where
  "keysOK d \<longleftrightarrow>
     distinct (map g_ID (db_groups d))
     \<and> distinct (map c_ID (db_conversations d))
     \<and> distinct (map ancestryKey (db_ancestry d))
     \<and> distinct (map membershipKey (db_memberships d))
     \<and> distinct (map e_ID (db_entries d))
     \<and> distinct (map t_ID (db_transfers d))
     \<and> distinct (map t_ConversationGroupID (db_transfers d))"

section \<open>The field cipher\<close>

record FieldCipher =
  EncryptField :: "string \<Rightarrow> string \<Rightarrow> string \<Rightarrow> string result"
  DecryptField :: "string \<Rightarrow> string \<Rightarrow> string \<Rightarrow> string result"

type_synonym enc = "FieldCipher option"

definition conversationTitleFieldDomain :: string where
  "conversationTitleFieldDomain = ''conversation.title''"

definition entryContentFieldDomain :: string where
  "entryContentFieldDomain = ''entry.content''"

definition encryptConversationTitle :: "enc \<Rightarrow> string \<Rightarrow> string \<Rightarrow> string result" where
  "encryptConversationTitle s_enc conversationID title =
     (case s_enc of None \<Rightarrow> Inr title
      | Some f \<Rightarrow> EncryptField f title conversationTitleFieldDomain conversationID)"

definition decryptConversationTitle :: "enc \<Rightarrow> string \<Rightarrow> string option \<Rightarrow> string result" where
  "decryptConversationTitle s_enc conversationID data =
     (case (s_enc, data) of
        (Some f, Some c) \<Rightarrow> DecryptField f c conversationTitleFieldDomain conversationID
      | (_, Some c) \<Rightarrow> Inr c
      | (_, None) \<Rightarrow> Inr [])"

text \<open>Entry ids are already in the lower-case canonical text, so \<open>strings.ToLower\<close> keeps them.\<close>

definition encryptEntryContent :: "enc \<Rightarrow> uuid \<Rightarrow> string \<Rightarrow> string result" where
  "encryptEntryContent s_enc entryID content =
     (case s_enc of None \<Rightarrow> Inr content
      | Some f \<Rightarrow> EncryptField f content entryContentFieldDomain entryID)"

definition decryptEntryContent :: "enc \<Rightarrow> uuid \<Rightarrow> string \<Rightarrow> string result" where
  "decryptEntryContent s_enc entryID data =
     (case s_enc of None \<Rightarrow> Inr data
      | Some f \<Rightarrow> DecryptField f data entryContentFieldDomain entryID)"

text \<open>The documented behaviour of the cipher: decryption under the same domain and id restores.\<close>

definition cipherOK :: "enc \<Rightarrow> bool" where
  "cipherOK s_enc \<longleftrightarrow>
     (case s_enc of None \<Rightarrow> True
      | Some f \<Rightarrow> \<forall>plain domain ident c. EncryptField f plain domain ident = Inr c
                     \<longrightarrow> DecryptField f c domain ident = Inr plain)"

text \<open>A text that is not empty is not encrypted to an empty one.\<close>

definition cipherNonEmpty :: "enc \<Rightarrow> bool" where
  "cipherNonEmpty s_enc \<longleftrightarrow>
     (case s_enc of None \<Rightarrow> True
      | Some f \<Rightarrow> \<forall>plain domain ident c. plain \<noteq> [] \<and> EncryptField f plain domain ident = Inr c \<longrightarrow> c \<noteq> [])"

lemma title_roundtrip:
  "cipherOK s_enc \<Longrightarrow> encryptConversationTitle s_enc i t = Inr c \<Longrightarrow>
   decryptConversationTitle s_enc i (Some c) = Inr t"
  by (auto simp: cipherOK_def encryptConversationTitle_def decryptConversationTitle_def split: option.splits)

lemma content_roundtrip:
  "cipherOK s_enc \<Longrightarrow> encryptEntryContent s_enc i t = Inr c \<Longrightarrow> decryptEntryContent s_enc i c = Inr t"
  by (auto simp: cipherOK_def encryptEntryContent_def decryptEntryContent_def split: option.splits)

end
