(* ===== verification/Ancestry.thy ===== *)
theory Ancestry
  imports Database
begin

text \<open>
  Forks and what a conversation sees. \<open>internal/model/ancestry.go\<close> materialises, for every
  conversation, the path to the root of its fork tree; a row carries an exclusive boundary entry.
  \<open>sqlite.go\<close> joins entries with these rows. The theory models the construction of the rows, the
  queries over them and the lookup of the depth that owns a fork anchor.

  The invariant \<open>ancestryOK\<close> says how rows and entries fit together; the key part is that the entries
  of a nearer ancestor all come after the boundary of a farther one. The lemmas derive from it the
  three facts that specify forking: a new fork sees exactly the part of its parent's view before
  the anchor, an append extends the view of its own conversation at the end, and it leaves every
  other view of the group as it was.
\<close>

section \<open>Ancestry rows\<close>

record ConversationAncestrySegment =
  seg_ConversationID :: string
  seg_Depth :: nat
  seg_BeforeEntryID :: "uuid option"
  seg_ForkedAtEntryID :: "uuid option"

definition parentSegment :: "uuid option \<Rightarrow> nat option \<Rightarrow> ConversationAncestrySegment \<Rightarrow> ConversationAncestrySegment" where
  "parentSegment forkedAtEntryID anchorOwnerDepth parentRow =
     (let beforeEntryID =
            (case (forkedAtEntryID, anchorOwnerDepth) of
               (Some anchor, Some ownerDepth) \<Rightarrow>
                 (if seg_Depth parentRow < ownerDepth then None
                  else if seg_Depth parentRow = ownerDepth then Some anchor
                  else seg_BeforeEntryID parentRow)
             | _ \<Rightarrow> seg_BeforeEntryID parentRow);
          directForkedAtEntryID = (if seg_Depth parentRow = 0 then forkedAtEntryID else None)
      in \<lparr>seg_ConversationID = seg_ConversationID parentRow, seg_Depth = seg_Depth parentRow + 1,
          seg_BeforeEntryID = beforeEntryID, seg_ForkedAtEntryID = directForkedAtEntryID\<rparr>)"

definition BuildConversationAncestrySegments ::
  "string \<Rightarrow> ConversationAncestrySegment list \<Rightarrow> uuid option \<Rightarrow> nat option \<Rightarrow> ConversationAncestrySegment list result" where
  "BuildConversationAncestrySegments convID parentRows forkedAtEntryID anchorOwnerDepth =
     (let self = \<lparr>seg_ConversationID = convID, seg_Depth = 0, seg_BeforeEntryID = None,
                  seg_ForkedAtEntryID = None\<rparr>
      in if \<exists>r \<in> set parentRows. seg_ConversationID r = []
         then Inl (InternalError ''parent conversation ancestry contains an empty conversation id'')
         else Inr (self # map (parentSegment forkedAtEntryID anchorOwnerDepth) parentRows))"

definition ancestryRows :: "db \<Rightarrow> uuid \<Rightarrow> string \<Rightarrow> ConversationAncestry list" where
  "ancestryRows d groupID descendant =
     filter (\<lambda>ca. ca_ConversationGroupID ca = groupID \<and> ca_DescendantConversationID ca = descendant) (db_ancestry d)"

definition depthAsc :: "ConversationAncestry \<Rightarrow> ConversationAncestry \<Rightarrow> bool" where
  "depthAsc a b = (ca_Depth a < ca_Depth b)"

definition toSegment :: "ConversationAncestry \<Rightarrow> ConversationAncestrySegment" where
  "toSegment row = \<lparr>seg_ConversationID = ca_AncestorConversationID row, seg_Depth = ca_Depth row,
                    seg_BeforeEntryID = ca_BeforeEntryID row, seg_ForkedAtEntryID = ca_ForkedAtEntryID row\<rparr>"

definition fromSegment :: "uuid \<Rightarrow> string \<Rightarrow> ConversationAncestrySegment \<Rightarrow> ConversationAncestry" where
  "fromSegment groupID convID segment =
     \<lparr>ca_ConversationGroupID = groupID, ca_DescendantConversationID = convID,
      ca_AncestorConversationID = seg_ConversationID segment, ca_Depth = seg_Depth segment,
      ca_BeforeEntryID = seg_BeforeEntryID segment, ca_ForkedAtEntryID = seg_ForkedAtEntryID segment\<rparr>"

definition createConversationAncestry ::
  "db \<Rightarrow> uuid \<Rightarrow> string \<Rightarrow> Conversation option \<Rightarrow> uuid option \<Rightarrow> nat option \<Rightarrow> db result" where
  "createConversationAncestry d groupID convID sourceConv forkedAtEntryID anchorOwnerDepth =
     (let parentRows = (case sourceConv of None \<Rightarrow> []
                        | Some src \<Rightarrow> order_by depthAsc (ancestryRows d groupID (c_ID src)))
      in if sourceConv \<noteq> None \<and> parentRows = []
         then Inl (InternalError ''parent conversation ancestry is missing'')
         else andThen (BuildConversationAncestrySegments convID (map toSegment parentRows) forkedAtEntryID anchorOwnerDepth)
                (\<lambda>segments. Inr (d\<lparr>db_ancestry := db_ancestry d @ map (fromSegment groupID convID) segments\<rparr>)))"

section \<open>Visible entries\<close>

text \<open>
  The join all visible-entry queries share: the entries of the group, each with the ancestry row of the
  conversation that owns it and the boundary entry of that row.
\<close>

definition visibleEntriesQuery :: "db \<Rightarrow> Conversation \<Rightarrow> Entry list" where
  "visibleEntriesQuery d conv =
     concat (map (\<lambda>e.
       concat (map (\<lambda>ca.
           concat (map (\<lambda>boundary.
               if e_ConversationGroupID e = c_ConversationGroupID conv
                  \<and> sql_holds (visibleAncestryEntrySQL e ca boundary)
               then [e] else [])
             (left_join (\<lambda>b. e_ConversationGroupID b = ca_ConversationGroupID ca
                             \<and> Some (e_ID b) = ca_BeforeEntryID ca) (db_entries d))))
         (filter (\<lambda>ca. ca_ConversationGroupID ca = e_ConversationGroupID e
                       \<and> ca_DescendantConversationID ca = c_ID conv
                       \<and> ca_AncestorConversationID ca = e_ConversationID e) (db_ancestry d))))
       (db_entries d))"

definition listVisibleEntriesForConversation :: "db \<Rightarrow> Conversation \<Rightarrow> Entry list" where
  "listVisibleEntriesForConversation d conv = order_by (EntryOrderSQL False) (visibleEntriesQuery d conv)"

definition visibleEntryByID :: "db \<Rightarrow> Conversation \<Rightarrow> string \<Rightarrow> Entry option" where
  "visibleEntryByID d conv entryID = List.find (\<lambda>e. e_ID e = entryID) (visibleEntriesQuery d conv)"

definition visibleChannelEntriesQuery :: "db \<Rightarrow> Conversation \<Rightarrow> Channel \<Rightarrow> string option \<Rightarrow> Entry list" where
  "visibleChannelEntriesQuery d conv channel clientID =
     (let rows = filter (\<lambda>e. e_Channel e = channel) (visibleEntriesQuery d conv)
      in case clientID of None \<Rightarrow> rows | Some c \<Rightarrow> filter (\<lambda>e. e_ClientID e = Some c) rows)"

definition visibleContextEntriesQuery :: "db \<Rightarrow> Conversation \<Rightarrow> string \<Rightarrow> Entry list" where
  "visibleContextEntriesQuery d conv clientID = visibleChannelEntriesQuery d conv ChannelContext (Some clientID)"

definition visibleHistoryEntriesQuery :: "db \<Rightarrow> Conversation \<Rightarrow> Entry list" where
  "visibleHistoryEntriesQuery d conv = filter (\<lambda>e. e_Channel e = ChannelHistory) (visibleEntriesQuery d conv)"

definition scopedChannels :: "Channel list" where
  "scopedChannels = [ChannelContext, ChannelJournal]"

definition visibleAllChannelsQuery :: "db \<Rightarrow> Conversation \<Rightarrow> string option \<Rightarrow> bool \<Rightarrow> Entry list" where
  "visibleAllChannelsQuery d conv clientID suppressScopedWithoutClient =
     (let tx = visibleEntriesQuery d conv
      in if \<not> suppressScopedWithoutClient then tx
         else case clientID of
                None \<Rightarrow> filter (\<lambda>e. e_Channel e \<notin> set scopedChannels) tx
              | Some c \<Rightarrow> filter (\<lambda>e. e_Channel e \<notin> set scopedChannels \<or> e_ClientID e = Some c) tx)"

definition groupEntriesQuery :: "db \<Rightarrow> uuid \<Rightarrow> Entry list" where
  "groupEntriesQuery d groupID = filter (\<lambda>e. e_ConversationGroupID e = groupID) (db_entries d)"

definition groupHistoryEntriesQuery :: "db \<Rightarrow> uuid \<Rightarrow> uint32 option \<Rightarrow> Entry list" where
  "groupHistoryEntriesQuery d groupID fromSeq =
     (let tx = filter (\<lambda>e. e_ConversationGroupID e = groupID \<and> e_Channel e = ChannelHistory) (db_entries d)
      in case fromSeq of None \<Rightarrow> tx
         | Some s \<Rightarrow> filter (\<lambda>e. case e_Seq e of None \<Rightarrow> False | Some n \<Rightarrow> n \<ge> s) tx)"

definition groupEntryByID :: "db \<Rightarrow> uuid \<Rightarrow> string \<Rightarrow> Entry option" where
  "groupEntryByID d groupID entryID = List.find (\<lambda>e. e_ID e = entryID) (groupEntriesQuery d groupID)"

definition groupChannelEntriesQuery :: "db \<Rightarrow> uuid \<Rightarrow> Channel \<Rightarrow> string option \<Rightarrow> Entry list" where
  "groupChannelEntriesQuery d groupID channel clientID =
     (let tx = filter (\<lambda>e. e_Channel e = channel) (groupEntriesQuery d groupID)
      in case clientID of None \<Rightarrow> tx | Some c \<Rightarrow> filter (\<lambda>e. e_ClientID e = Some c) tx)"

definition groupAllChannelsQuery :: "db \<Rightarrow> uuid \<Rightarrow> string option \<Rightarrow> bool \<Rightarrow> Entry list" where
  "groupAllChannelsQuery d groupID clientID suppressScopedWithoutClient =
     (let tx = groupEntriesQuery d groupID
      in if \<not> suppressScopedWithoutClient then tx
         else case clientID of
                None \<Rightarrow> filter (\<lambda>e. e_Channel e \<notin> set scopedChannels) tx
              | Some c \<Rightarrow> filter (\<lambda>e. e_Channel e \<notin> set scopedChannels \<or> e_ClientID e = Some c) tx)"

definition listEntriesForGroup :: "db \<Rightarrow> uuid \<Rightarrow> Entry list" where
  "listEntriesForGroup d groupID = order_by (EntryOrderSQL False) (groupEntriesQuery d groupID)"

section \<open>The owner of an anchor\<close>

definition entryOrderKey :: "db \<Rightarrow> uuid \<Rightarrow> Entry result" where
  "entryOrderKey d entryID =
     (case List.find (\<lambda>e. e_ID e = entryID) (db_entries d) of
        None \<Rightarrow> Inl (NotFoundError ''entry'' entryID)
      | Some e \<Rightarrow> Inr e)"

fun depthLoop :: "db \<Rightarrow> Entry \<Rightarrow> ConversationAncestry list \<Rightarrow> nat option result" where
  "depthLoop d entry [] = Inr None"
| "depthLoop d entry (row # rows) =
     (if ca_AncestorConversationID row \<noteq> e_ConversationID entry then depthLoop d entry rows
      else if ca_Depth row > 0 then
        (case ca_BeforeEntryID row of
           None \<Rightarrow> Inr None
         | Some before \<Rightarrow>
             andThen (entryOrderKey d before)
               (\<lambda>stopAt. if \<not> entryOrderLess entry stopAt then Inr None else Inr (Some (ca_Depth row))))
      else Inr (Some (ca_Depth row)))"

definition visibleAncestryDepthForEntry :: "db \<Rightarrow> Conversation \<Rightarrow> Entry \<Rightarrow> nat option result" where
  "visibleAncestryDepthForEntry d target entry =
     depthLoop d entry (order_by depthAsc (ancestryRows d (c_ConversationGroupID target) (c_ID target)))"

definition entryVisibleInConversationAncestry :: "db \<Rightarrow> Conversation \<Rightarrow> uuid \<Rightarrow> bool result" where
  "entryVisibleInConversationAncestry d conv entryID =
     (case List.find (\<lambda>e. e_ID e = entryID \<and> e_ConversationGroupID e = c_ConversationGroupID conv) (db_entries d) of
        None \<Rightarrow> Inr False
      | Some entry \<Rightarrow> andThen (visibleAncestryDepthForEntry d conv entry) (\<lambda>depth. Inr (depth \<noteq> None)))"

record forkAncestor =
  fa_ConversationID :: string
  fa_StopAtEntryID :: "uuid option"

definition buildAncestryStack :: "db \<Rightarrow> Conversation \<Rightarrow> forkAncestor list" where
  "buildAncestryStack d target =
     map (\<lambda>row. \<lparr>fa_ConversationID = ca_AncestorConversationID row, fa_StopAtEntryID = ca_BeforeEntryID row\<rparr>)
       (order_by (\<lambda>a b. depthAsc b a) (ancestryRows d (c_ConversationGroupID target) (c_ID target)))"

section \<open>The invariant\<close>

definition sameSubject :: "ConversationAncestry \<Rightarrow> ConversationAncestry \<Rightarrow> bool" where
  "sameSubject a b \<longleftrightarrow> ca_ConversationGroupID a = ca_ConversationGroupID b
                     \<and> ca_DescendantConversationID a = ca_DescendantConversationID b"

definition isConversation :: "db \<Rightarrow> uuid \<Rightarrow> string \<Rightarrow> bool" where
  "isConversation d groupID convID \<longleftrightarrow>
     (\<exists>c \<in> set (db_conversations d). c_ID c = convID \<and> c_ConversationGroupID c = groupID)"

text \<open>Foreign keys and the \<open>CHECK\<close> and \<open>UNIQUE\<close> constraints of the ancestry table.\<close>

definition referencesOK :: "db \<Rightarrow> bool" where
  "referencesOK d \<longleftrightarrow>
     (\<forall>e \<in> set (db_entries d). isConversation d (e_ConversationGroupID e) (e_ConversationID e))
     \<and> (\<forall>ca \<in> set (db_ancestry d).
           isConversation d (ca_ConversationGroupID ca) (ca_DescendantConversationID ca)
           \<and> isConversation d (ca_ConversationGroupID ca) (ca_AncestorConversationID ca)
           \<and> (ca_Depth ca = 0 \<longleftrightarrow> ca_DescendantConversationID ca = ca_AncestorConversationID ca)
           \<and> (ca_Depth ca = 0 \<longrightarrow> ca_BeforeEntryID ca = None \<and> ca_ForkedAtEntryID ca = None))
     \<and> (\<forall>a \<in> set (db_ancestry d). \<forall>b \<in> set (db_ancestry d).
           sameSubject a b \<and> ca_Depth a = ca_Depth b \<longrightarrow> a = b)"

text \<open>Every conversation has its self row.\<close>

definition selfRowsOK :: "db \<Rightarrow> bool" where
  "selfRowsOK d \<longleftrightarrow>
     (\<forall>c \<in> set (db_conversations d). \<exists>ca \<in> set (db_ancestry d).
        ca_ConversationGroupID ca = c_ConversationGroupID c \<and> ca_DescendantConversationID ca = c_ID c
        \<and> ca_Depth ca = 0)"

text \<open>The entries of a nearer ancestor come after the boundary of a farther one.\<close>

definition boundaryBefore :: "db \<Rightarrow> ConversationAncestry \<Rightarrow> ConversationAncestry \<Rightarrow> bool" where
  "boundaryBefore d near far \<longleftrightarrow>
     (case ca_BeforeEntryID far of
        None \<Rightarrow> True
      | Some b \<Rightarrow>
          (\<exists>bound \<in> set (db_entries d).
             e_ID bound = b \<and> e_ConversationGroupID bound = ca_ConversationGroupID far
             \<and> (\<forall>e \<in> set (db_entries d).
                  e_ConversationGroupID e = ca_ConversationGroupID far
                  \<and> e_ConversationID e = ca_AncestorConversationID near \<longrightarrow> entryOrderLess bound e)))"

definition boundariesOK :: "db \<Rightarrow> bool" where
  "boundariesOK d \<longleftrightarrow>
     (\<forall>near \<in> set (db_ancestry d). \<forall>far \<in> set (db_ancestry d).
        sameSubject near far \<and> ca_Depth near < ca_Depth far \<longrightarrow> boundaryBefore d near far)"

definition ancestryOK :: "db \<Rightarrow> bool" where
  "ancestryOK d \<longleftrightarrow> keysOK d \<and> referencesOK d \<and> selfRowsOK d \<and> boundariesOK d"

lemma ancestryOK_D:
  assumes "ancestryOK d"
  shows "keysOK d" "referencesOK d" "selfRowsOK d" "boundariesOK d"
  using assms by (auto simp: ancestryOK_def)

section \<open>The join as a selection\<close>

definition rowShows :: "db \<Rightarrow> ConversationAncestry \<Rightarrow> Entry \<Rightarrow> bool" where
  "rowShows d ca e \<longleftrightarrow>
     ca_Depth ca = 0
     \<or> (\<exists>bound \<in> set (db_entries d). ca_BeforeEntryID ca = Some (e_ID bound)
          \<and> e_ConversationGroupID bound = ca_ConversationGroupID ca \<and> entryOrderLess e bound)"

definition visibleIn :: "db \<Rightarrow> uuid \<Rightarrow> string \<Rightarrow> Entry \<Rightarrow> bool" where
  "visibleIn d groupID convID e \<longleftrightarrow>
     e_ConversationGroupID e = groupID
     \<and> (\<exists>ca \<in> set (db_ancestry d). ca_ConversationGroupID ca = groupID \<and> ca_DescendantConversationID ca = convID
          \<and> ca_AncestorConversationID ca = e_ConversationID e \<and> rowShows d ca e)"

lemma concat_map_filter: "concat (map (\<lambda>x. if P x then [x] else []) xs) = filter P xs"
  by (induction xs) auto

lemma filter_unique:
  assumes "distinct (map key rows)" and "\<And>r. r \<in> set rows \<Longrightarrow> P r \<Longrightarrow> key r = k"
  shows "filter P rows = [] \<or> (\<exists>x \<in> set rows. P x \<and> filter P rows = [x])"
  using assms
proof (induction rows)
  case (Cons r rows)
  show ?case
  proof (cases "P r")
    case True
    with Cons.prems have "filter P rows = []" by (force simp: filter_empty_conv)
    with True show ?thesis by auto
  next
    case False
    with Cons show ?thesis by auto
  qed
qed simp

lemma boundary_join:
  assumes "keysOK d"
  shows "concat (map (\<lambda>boundary. if C \<and> sql_holds (visibleAncestryEntrySQL e ca boundary) then [e] else [])
           (left_join (\<lambda>b. e_ConversationGroupID b = ca_ConversationGroupID ca \<and> Some (e_ID b) = ca_BeforeEntryID ca)
              (db_entries d)))
         = (if C \<and> rowShows d ca e then [e] else [])"
proof (cases "\<exists>b \<in> set (db_entries d). e_ConversationGroupID b = ca_ConversationGroupID ca \<and> Some (e_ID b) = ca_BeforeEntryID ca")
  case False
  then have "left_join (\<lambda>b. e_ConversationGroupID b = ca_ConversationGroupID ca \<and> Some (e_ID b) = ca_BeforeEntryID ca)
              (db_entries d) = [None]" by (intro left_join_none) blast
  moreover have "sql_holds (visibleAncestryEntrySQL e ca None) \<longleftrightarrow> ca_Depth ca = 0"
    using visibleAncestryEntrySQL_self visibleAncestryEntrySQL_none by blast
  moreover have "rowShows d ca e \<longleftrightarrow> ca_Depth ca = 0" using False by (auto simp: rowShows_def)
  ultimately show ?thesis by simp
next
  case True
  then obtain b where b: "b \<in> set (db_entries d)" "e_ConversationGroupID b = ca_ConversationGroupID ca"
      "ca_BeforeEntryID ca = Some (e_ID b)" by metis
  from assms have dist: "distinct (map e_ID (db_entries d))" by (simp add: keysOK_def)
  have same: "b' = b" if "b' \<in> set (db_entries d)" "e_ID b' = e_ID b" for b'
    using that b(1) dist by (auto simp: distinct_map inj_on_def)
  have "left_join (\<lambda>b. e_ConversationGroupID b = ca_ConversationGroupID ca \<and> Some (e_ID b) = ca_BeforeEntryID ca)
              (db_entries d) = [Some b]"
    using b same by (intro left_join_unique[OF dist b(1)]) auto
  moreover have "sql_holds (visibleAncestryEntrySQL e ca (Some b)) \<longleftrightarrow> ca_Depth ca = 0 \<or> entryOrderLess e b"
    using visibleAncestryEntrySQL_self visibleAncestryEntrySQL_some b(3) by (cases "ca_Depth ca = 0") auto
  moreover have "rowShows d ca e \<longleftrightarrow> ca_Depth ca = 0 \<or> entryOrderLess e b"
    unfolding rowShows_def b(3) using b(1,2) same by (metis option.inject)
  ultimately show ?thesis by simp
qed

lemma visibleEntriesQuery_filter:
  assumes "keysOK d"
  shows "visibleEntriesQuery d conv = filter (visibleIn d (c_ConversationGroupID conv) (c_ID conv)) (db_entries d)"
proof -
  let ?M = "\<lambda>e ca. ca_ConversationGroupID ca = e_ConversationGroupID e
              \<and> ca_DescendantConversationID ca = c_ID conv \<and> ca_AncestorConversationID ca = e_ConversationID e"
  let ?C = "\<lambda>e. e_ConversationGroupID e = c_ConversationGroupID conv"
  from assms have dist: "distinct (map ancestryKey (db_ancestry d))" by (simp add: keysOK_def)
  have "concat (map (\<lambda>ca. if ?C e \<and> rowShows d ca e then [e] else []) (filter (?M e) (db_ancestry d)))
        = (if visibleIn d (c_ConversationGroupID conv) (c_ID conv) e then [e] else [])" for e
  proof -
    have "filter (?M e) (db_ancestry d) = [] \<or>
        (\<exists>ca \<in> set (db_ancestry d). ?M e ca \<and> filter (?M e) (db_ancestry d) = [ca])"
      by (rule filter_unique[OF dist, where k = "(e_ConversationGroupID e, c_ID conv, e_ConversationID e)"])
         (simp add: ancestryKey_def)
    then show ?thesis
    proof
      assume none: "filter (?M e) (db_ancestry d) = []"
      then show ?thesis by (auto simp: visibleIn_def filter_empty_conv)
    next
      assume "\<exists>ca \<in> set (db_ancestry d). ?M e ca \<and> filter (?M e) (db_ancestry d) = [ca]"
      then obtain ca where one: "filter (?M e) (db_ancestry d) = [ca]" by blast
      have "{x \<in> set (db_ancestry d). ?M e x} = set (filter (?M e) (db_ancestry d))" by simp
      also have "\<dots> = {ca}" by (simp only: one list.set)
      finally have "ca' \<in> set (db_ancestry d) \<and> ?M e ca' \<longleftrightarrow> ca' = ca" for ca' by blast
      then have "visibleIn d (c_ConversationGroupID conv) (c_ID conv) e \<longleftrightarrow> ?C e \<and> rowShows d ca e"
        unfolding visibleIn_def by metis
      with one show ?thesis by simp
    qed
  qed
  then show ?thesis
    unfolding visibleEntriesQuery_def boundary_join[OF assms] by (simp add: concat_map_filter)
qed

lemma listVisible_alt:
  assumes "keysOK d"
  shows "listVisibleEntriesForConversation d conv
       = filter (visibleIn d (c_ConversationGroupID conv) (c_ID conv)) (order_by entryOrderLess (db_entries d))"
  using assms by (simp add: listVisibleEntriesForConversation_def EntryOrderSQL_asc
      visibleEntriesQuery_filter entry_ord.order_by_filter keysOK_def)

section \<open>Consequences of the invariant\<close>

lemma entry_by_id:
  "keysOK d \<Longrightarrow> a \<in> set (db_entries d) \<Longrightarrow> b \<in> set (db_entries d) \<Longrightarrow> e_ID a = e_ID b \<Longrightarrow> a = b"
  by (auto simp: keysOK_def distinct_map inj_on_def)

lemma find_entry_by_id:
  assumes "keysOK d" and "e \<in> set (db_entries d)"
  shows "List.find (\<lambda>x. e_ID x = e_ID e) (db_entries d) = Some e"
  using assms by (intro find_unique) (simp_all add: keysOK_def)

lemma set_ancestryRows [simp]:
  "ca \<in> set (ancestryRows d g c) \<longleftrightarrow>
   ca \<in> set (db_ancestry d) \<and> ca_ConversationGroupID ca = g \<and> ca_DescendantConversationID ca = c"
  by (auto simp: ancestryRows_def)

lemma boundary_order:
  assumes "ancestryOK d" and "near \<in> set (ancestryRows d g c)" and "far \<in> set (ancestryRows d g c)"
    and "ca_Depth near < ca_Depth far" and "ca_BeforeEntryID far = Some (e_ID bound)"
    and "bound \<in> set (db_entries d)" and "e \<in> set (db_entries d)" and "e_ConversationGroupID e = g"
    and "e_ConversationID e = ca_AncestorConversationID near"
  shows "entryOrderLess bound e"
proof -
  have "boundaryBefore d near far"
    using assms(1-4) by (auto simp: ancestryOK_def boundariesOK_def sameSubject_def)
  then obtain bound' where "bound' \<in> set (db_entries d)" "e_ID bound' = e_ID bound"
      "\<forall>e \<in> set (db_entries d). e_ConversationGroupID e = ca_ConversationGroupID far
         \<and> e_ConversationID e = ca_AncestorConversationID near \<longrightarrow> entryOrderLess bound' e"
    using assms(5) by (auto simp: boundaryBefore_def)
  moreover from this have "bound' = bound"
    using entry_by_id[OF ancestryOK_D(1)[OF assms(1)]] assms(6) by metis
  ultimately show ?thesis using assms(3,7-9) by auto
qed

lemma boundary_exists:
  assumes "ancestryOK d" and "ca \<in> set (db_ancestry d)" and "ca_BeforeEntryID ca = Some b"
  shows "\<exists>bound \<in> set (db_entries d). e_ID bound = b \<and> e_ConversationGroupID bound = ca_ConversationGroupID ca"
proof -
  note inv = ancestryOK_D[OF assms(1)]
  have "ca_Depth ca \<noteq> 0" using inv(2) assms(2,3) by (auto simp: referencesOK_def)
  moreover have "isConversation d (ca_ConversationGroupID ca) (ca_DescendantConversationID ca)"
    using inv(2) assms(2) by (auto simp: referencesOK_def)
  then obtain near where near: "near \<in> set (db_ancestry d)" "sameSubject near ca" "ca_Depth near = 0"
    using inv(3) by (force simp: isConversation_def selfRowsOK_def sameSubject_def)
  ultimately have "boundaryBefore d near ca" using inv(4) assms(2) by (auto simp: boundariesOK_def)
  then show ?thesis using assms(3) by (auto simp: boundaryBefore_def)
qed

text \<open>The depth loop finds the row that shows the entry, and never fails.\<close>

lemma depthLoop_correct:
  assumes "ancestryOK d" and "set rows \<subseteq> set (ancestryRows d g c)" and "e_ConversationGroupID e = g"
  shows "\<exists>r. depthLoop d e rows = Inr r
       \<and> (\<forall>k. r = Some k \<longleftrightarrow> (\<exists>ca \<in> set rows. ca_AncestorConversationID ca = e_ConversationID e
                                \<and> ca_Depth ca = k \<and> rowShows d ca e))"
  using assms(2)
proof (induction rows)
  case Nil
  then show ?case by simp
next
  case (Cons row rows)
  from Cons.prems have row: "row \<in> set (ancestryRows d g c)" by simp
  show ?case
  proof (cases "ca_AncestorConversationID row = e_ConversationID e")
    case False
    with Cons show ?thesis by auto
  next
    case True
    have same: "ca = row" if "ca \<in> set (row # rows)" "ca_AncestorConversationID ca = e_ConversationID e" for ca
    proof -
      have "ancestryKey ca = ancestryKey row" "ca \<in> set (db_ancestry d)" "row \<in> set (db_ancestry d)"
        using that True Cons.prems by (auto simp: ancestryKey_def subset_iff)
      then show ?thesis using ancestryOK_D(1)[OF assms(1)] by (auto simp: keysOK_def distinct_map inj_on_def)
    qed
    have "\<exists>r. depthLoop d e (row # rows) = Inr r \<and> (r = Some (ca_Depth row) \<and> rowShows d row e
                                                   \<or> r = None \<and> \<not> rowShows d row e)"
    proof (cases "ca_BeforeEntryID row")
      case None
      then show ?thesis using True by (auto simp: rowShows_def)
    next
      case (Some b)
      from boundary_exists[OF assms(1) _ Some] row obtain bound where
        bound: "bound \<in> set (db_entries d)" "e_ID bound = b" "e_ConversationGroupID bound = ca_ConversationGroupID row"
        by auto
      then have "entryOrderKey d b = Inr bound"
        using find_entry_by_id[OF ancestryOK_D(1)[OF assms(1)]] by (auto simp: entryOrderKey_def)
      moreover have "rowShows d row e \<longleftrightarrow> ca_Depth row = 0 \<or> entryOrderLess e bound"
        using bound Some entry_by_id[OF ancestryOK_D(1)[OF assms(1)]] unfolding rowShows_def
        by (metis option.inject)
      ultimately show ?thesis using True Some by auto
    qed
    then show ?thesis using same True by (metis list.set_intros(1) option.distinct(1) option.inject)
  qed
qed

lemma visibleAncestryDepthForEntry_correct:
  assumes "ancestryOK d" and "e_ConversationGroupID e = c_ConversationGroupID conv"
  obtains r where "visibleAncestryDepthForEntry d conv e = Inr r"
    and "\<And>k. r = Some k \<longleftrightarrow> (\<exists>ca \<in> set (ancestryRows d (c_ConversationGroupID conv) (c_ID conv)).
           ca_AncestorConversationID ca = e_ConversationID e \<and> ca_Depth ca = k \<and> rowShows d ca e)"
  using depthLoop_correct[OF assms(1) _ assms(2), of "order_by depthAsc (ancestryRows d (c_ConversationGroupID conv) (c_ID conv))" "c_ID conv"]
  unfolding visibleAncestryDepthForEntry_def by auto

section \<open>Forking\<close>

definition forkRow :: "string \<Rightarrow> uuid option \<Rightarrow> nat option \<Rightarrow> ConversationAncestry \<Rightarrow> ConversationAncestry" where
  "forkRow convID anchor depth r = fromSegment (ca_ConversationGroupID r) convID (parentSegment anchor depth (toSegment r))"

definition selfRow :: "uuid \<Rightarrow> string \<Rightarrow> ConversationAncestry" where
  "selfRow g convID = \<lparr>ca_ConversationGroupID = g, ca_DescendantConversationID = convID,
     ca_AncestorConversationID = convID, ca_Depth = 0, ca_BeforeEntryID = None, ca_ForkedAtEntryID = None\<rparr>"

lemma selfRow_simps [simp]:
  "ca_ConversationGroupID (selfRow g c) = g" "ca_DescendantConversationID (selfRow g c) = c"
  "ca_AncestorConversationID (selfRow g c) = c" "ca_Depth (selfRow g c) = 0"
  "ca_BeforeEntryID (selfRow g c) = None" "ca_ForkedAtEntryID (selfRow g c) = None"
  by (simp_all add: selfRow_def)

lemma forkRow_simps [simp]:
  "ca_ConversationGroupID (forkRow c a k r) = ca_ConversationGroupID r"
  "ca_DescendantConversationID (forkRow c a k r) = c"
  "ca_AncestorConversationID (forkRow c a k r) = ca_AncestorConversationID r"
  "ca_Depth (forkRow c a k r) = Suc (ca_Depth r)"
  "ca_BeforeEntryID (forkRow c (Some x) (Some n) r) =
     (if ca_Depth r < n then None else if ca_Depth r = n then Some x else ca_BeforeEntryID r)"
  "ca_BeforeEntryID (forkRow c None k r) = ca_BeforeEntryID r"
  by (simp_all add: forkRow_def fromSegment_def parentSegment_def toSegment_def Let_def)

text \<open>The parent's rows in the order they are read.\<close>

definition parentRowsOf :: "db \<Rightarrow> uuid \<Rightarrow> Conversation option \<Rightarrow> ConversationAncestry list" where
  "parentRowsOf d g src = (case src of None \<Rightarrow> [] | Some p \<Rightarrow> order_by depthAsc (ancestryRows d g (c_ID p)))"

lemma parentRowsOf_group: "r \<in> set (parentRowsOf d g src) \<Longrightarrow> ca_ConversationGroupID r = g"
  by (auto simp: parentRowsOf_def split: option.splits)

lemma createConversationAncestry_rows:
  assumes "createConversationAncestry d g convID src anchor depth = Inr d'"
  shows "d' = d\<lparr>db_ancestry := db_ancestry d @ selfRow g convID # map (forkRow convID anchor depth) (parentRowsOf d g src)\<rparr>"
proof -
  have "map (fromSegment g convID \<circ> (parentSegment anchor depth \<circ> toSegment)) (parentRowsOf d g src)
        = map (forkRow convID anchor depth) (parentRowsOf d g src)"
    using parentRowsOf_group[of _ d g src] by (auto simp: forkRow_def)
  then show ?thesis
    using assms
    by (auto simp: createConversationAncestry_def BuildConversationAncestrySegments_def andThen_eq_Inr Let_def
        selfRow_def fromSegment_def[of g convID "\<lparr>seg_ConversationID = convID, seg_Depth = 0, seg_BeforeEntryID = None, seg_ForkedAtEntryID = None\<rparr>"]
        parentRowsOf_def comp_def split: if_splits option.splits)
qed

text \<open>A view depends on the entries and on the rows of its own subject.\<close>

lemma visibleIn_cong:
  assumes "db_entries d' = db_entries d" and "set (ancestryRows d' g c) = set (ancestryRows d g c)"
  shows "visibleIn d' g c e = visibleIn d g c e"
proof -
  have "rowShows d' ca e = rowShows d ca e" for ca by (simp add: rowShows_def assms(1))
  moreover have "ca \<in> set (db_ancestry d') \<and> ca_ConversationGroupID ca = g \<and> ca_DescendantConversationID ca = c
      \<longleftrightarrow> ca \<in> set (db_ancestry d) \<and> ca_ConversationGroupID ca = g \<and> ca_DescendantConversationID ca = c" for ca
    using assms(2) by (metis set_ancestryRows)
  ultimately show ?thesis unfolding visibleIn_def by metis
qed

lemma visibleIn_rows:
  "visibleIn d g c e \<longleftrightarrow> e_ConversationGroupID e = g
     \<and> (\<exists>ca \<in> set (ancestryRows d g c). ca_AncestorConversationID ca = e_ConversationID e \<and> rowShows d ca e)"
  by (auto simp: visibleIn_def)

lemma fork_row_shows:
  assumes inv: "ancestryOK d"
    and owner: "owner \<in> set (ancestryRows d g p)" "ca_AncestorConversationID owner = e_ConversationID anchor"
      "rowShows d owner anchor"
    and anchor: "anchor \<in> set (db_entries d)" "e_ConversationGroupID anchor = g"
    and r: "r \<in> set (ancestryRows d g p)" "ca_AncestorConversationID r = e_ConversationID e"
    and e: "e \<in> set (db_entries d)" "e_ConversationGroupID e = g"
  shows "rowShows d (forkRow convID (Some (e_ID anchor)) (Some (ca_Depth owner)) r) e
       \<longleftrightarrow> rowShows d r e \<and> entryOrderLess e anchor"
proof -
  let ?r = "forkRow convID (Some (e_ID anchor)) (Some (ca_Depth owner)) r"
  note less = entryOrderLess_trans
  note ids = entry_by_id[OF ancestryOK_D(1)[OF inv]]
  consider "ca_Depth r < ca_Depth owner" | "ca_Depth r = ca_Depth owner" | "ca_Depth owner < ca_Depth r" by linarith
  then show ?thesis
  proof cases
    case 1
    from owner(3) 1 obtain bound where bound: "bound \<in> set (db_entries d)"
      "ca_BeforeEntryID owner = Some (e_ID bound)" "entryOrderLess anchor bound" by (auto simp: rowShows_def)
    have "entryOrderLess bound e"
      using boundary_order[OF inv r(1) owner(1) 1 bound(2,1) e] r(2) by simp
    with bound(3) have "\<not> entryOrderLess e anchor" using less entryOrderLess_irrefl by metis
    moreover have "\<not> rowShows d ?r e" using 1 by (simp add: rowShows_def)
    ultimately show ?thesis by blast
  next
    case 2
    have "r = owner"
      using ancestryOK_D(2)[OF inv] r(1) owner(1) 2 by (auto simp: referencesOK_def sameSubject_def)
    moreover have "rowShows d ?r e \<longleftrightarrow> entryOrderLess e anchor"
      using 2 anchor r(1) ids by (auto simp: rowShows_def)
    moreover have "entryOrderLess e anchor \<Longrightarrow> rowShows d owner e"
      using owner(3) less unfolding rowShows_def by metis
    ultimately show ?thesis by blast
  next
    case 3
    have "rowShows d ?r e \<longleftrightarrow> rowShows d r e" using 3 by (simp add: rowShows_def)
    moreover have "entryOrderLess e anchor" if shows_r: "rowShows d r e"
    proof -
      from shows_r 3 obtain bound where bound: "bound \<in> set (db_entries d)"
        "ca_BeforeEntryID r = Some (e_ID bound)" "entryOrderLess e bound" by (auto simp: rowShows_def)
      then show ?thesis
        using boundary_order[OF inv owner(1) r(1) 3 bound(2,1) anchor] owner(2) less by metis
    qed
    ultimately show ?thesis by blast
  qed
qed

text \<open>A conversation row has been inserted, and nothing that a view depends on has changed.\<close>

definition insertedConversation :: "db \<Rightarrow> db \<Rightarrow> Conversation \<Rightarrow> bool" where
  "insertedConversation d d1 c \<longleftrightarrow>
     db_entries d1 = db_entries d \<and> db_ancestry d1 = db_ancestry d
     \<and> db_conversations d1 = db_conversations d @ [c] \<and> keysOK d1"

lemma inserted_fresh:
  assumes "insertedConversation d d1 c"
  shows "\<not> isConversation d g (c_ID c)"
proof -
  from assms have "c_ID c \<notin> c_ID ` set (db_conversations d)"
    by (auto simp: insertedConversation_def keysOK_def)
  then show ?thesis unfolding isConversation_def by (metis image_eqI)
qed

lemma inserted_no_rows:
  assumes "insertedConversation d d1 c" and "ancestryOK d"
  shows "ca \<in> set (db_ancestry d) \<Longrightarrow> ca_DescendantConversationID ca \<noteq> c_ID c \<and> ca_AncestorConversationID ca \<noteq> c_ID c"
    and "e \<in> set (db_entries d) \<Longrightarrow> e_ConversationID e \<noteq> c_ID c"
  using inserted_fresh[OF assms(1)] ancestryOK_D(2)[OF assms(2)] by (auto simp: referencesOK_def)

lemma inserted_rows:
  assumes "insertedConversation d d1 c" and "ancestryOK d"
    and "createConversationAncestry d1 g (c_ID c) src anchor depth = Inr d2"
  shows "set (ancestryRows d2 g' c') =
     (if c' = c_ID c then (if g' = g then insert (selfRow g c') (forkRow c' anchor depth ` set (parentRowsOf d g src)) else {})
      else set (ancestryRows d g' c'))"
    and "db_entries d2 = db_entries d"
proof -
  have anc: "parentRowsOf d1 g src = parentRowsOf d g src"
    using assms(1) by (simp add: insertedConversation_def parentRowsOf_def ancestryRows_def split: option.split)
  have d2: "db_ancestry d2 = db_ancestry d @ selfRow g (c_ID c) # map (forkRow (c_ID c) anchor depth) (parentRowsOf d g src)"
      "db_entries d2 = db_entries d"
    using createConversationAncestry_rows[OF assms(3)] assms(1) anc by (auto simp: insertedConversation_def)
  show "set (ancestryRows d2 g' c') =
     (if c' = c_ID c then (if g' = g then insert (selfRow g c') (forkRow c' anchor depth ` set (parentRowsOf d g src)) else {})
      else set (ancestryRows d g' c'))"
    using d2(1) inserted_no_rows(1)[OF assms(1,2)] parentRowsOf_group[of _ d g src]
    by (auto simp: ancestryRows_def)
  show "db_entries d2 = db_entries d" by (fact d2(2))
qed

lemma rowShows_cong: "db_entries d' = db_entries d \<Longrightarrow> rowShows d' = rowShows d"
  by (intro ext) (simp add: rowShows_def)

lemma fork_visible:
  assumes ins: "insertedConversation d d1 c" and inv: "ancestryOK d"
    and mk: "createConversationAncestry d1 (c_ConversationGroupID parent) (c_ID c) (Some parent) (Some (e_ID anchor)) (Some k) = Inr d2"
    and anchor: "anchor \<in> set (db_entries d)" "e_ConversationGroupID anchor = c_ConversationGroupID parent"
    and owner: "visibleAncestryDepthForEntry d parent anchor = Inr (Some k)"
    and e: "e \<in> set (db_entries d)"
  shows "visibleIn d2 (c_ConversationGroupID parent) (c_ID c) e
       \<longleftrightarrow> visibleIn d (c_ConversationGroupID parent) (c_ID parent) e \<and> entryOrderLess e anchor"
proof -
  let ?g = "c_ConversationGroupID parent"
  obtain r where r: "visibleAncestryDepthForEntry d parent anchor = Inr r"
    "\<And>k. r = Some k \<longleftrightarrow> (\<exists>ca \<in> set (ancestryRows d ?g (c_ID parent)).
       ca_AncestorConversationID ca = e_ConversationID anchor \<and> ca_Depth ca = k \<and> rowShows d ca anchor)"
    using visibleAncestryDepthForEntry_correct[OF inv anchor(2)] by blast
  with owner obtain ow where ow: "ow \<in> set (ancestryRows d ?g (c_ID parent))"
    "ca_AncestorConversationID ow = e_ConversationID anchor" "rowShows d ow anchor" "k = ca_Depth ow" by auto
  note shows_iff = fork_row_shows[OF inv ow(1-3) anchor _ _ e, of _ "c_ID c"]
  note d2 = inserted_rows[OF ins inv mk]
  have conv: "e_ConversationID e \<noteq> c_ID c" using inserted_no_rows(2)[OF ins inv e] .
  show ?thesis
    unfolding visibleIn_rows d2(1) rowShows_cong[OF d2(2)] ow(4)
    using shows_iff conv ow(4) by (auto simp: parentRowsOf_def)
qed

lemma blank_fork_visible:
  assumes ins: "insertedConversation d d1 c" and inv: "ancestryOK d"
    and mk: "createConversationAncestry d1 (c_ConversationGroupID parent) (c_ID c) (Some parent) None k = Inr d2"
    and e: "e \<in> set (db_entries d)"
  shows "visibleIn d2 (c_ConversationGroupID parent) (c_ID c) e
       \<longleftrightarrow> visibleIn d (c_ConversationGroupID parent) (c_ID parent) e \<and> e_ConversationID e \<noteq> c_ID parent"
proof -
  let ?g = "c_ConversationGroupID parent"
  note d2 = inserted_rows[OF ins inv mk]
  have conv: "e_ConversationID e \<noteq> c_ID c" using inserted_no_rows(2)[OF ins inv e] .
  have "rowShows d (forkRow (c_ID c) None k r) e \<longleftrightarrow> rowShows d r e \<and> ca_AncestorConversationID r \<noteq> c_ID parent"
    if "r \<in> set (ancestryRows d ?g (c_ID parent))" for r
  proof -
    have "(ca_Depth r = 0 \<longleftrightarrow> ca_AncestorConversationID r = c_ID parent) \<and> (ca_Depth r = 0 \<longrightarrow> ca_BeforeEntryID r = None)"
      using that ancestryOK_D(2)[OF inv] by (auto simp: referencesOK_def)
    then show ?thesis by (auto simp: rowShows_def)
  qed
  then show ?thesis
    unfolding visibleIn_rows d2(1) rowShows_cong[OF d2(2)]
    using conv by (auto simp: parentRowsOf_def)
qed

lemma other_visible:
  assumes "insertedConversation d d1 c" and "ancestryOK d"
    and "createConversationAncestry d1 g (c_ID c) src anchor depth = Inr d2" and "c' \<noteq> c_ID c"
  shows "visibleIn d2 g' c' e = visibleIn d g' c' e"
  using inserted_rows[OF assms(1-3)] assms(4) by (intro visibleIn_cong) simp_all

text \<open>
  The anchors \<open>createConversationWithID\<close> passes on: none, or an entry with the depth of the row that
  shows it in the parent.
\<close>

definition anchorOK :: "db \<Rightarrow> uuid \<Rightarrow> Conversation option \<Rightarrow> uuid option \<Rightarrow> nat option \<Rightarrow> bool" where
  "anchorOK d g src anchor depth \<longleftrightarrow>
     (case src of
        None \<Rightarrow> True
      | Some p \<Rightarrow> c_ConversationGroupID p = g \<and> isConversation d g (c_ID p)
          \<and> (case anchor of
                None \<Rightarrow> True
              | Some a \<Rightarrow> \<exists>an \<in> set (db_entries d). \<exists>ow \<in> set (ancestryRows d g (c_ID p)).
                  e_ID an = a \<and> e_ConversationGroupID an = g \<and> depth = Some (ca_Depth ow)
                  \<and> ca_AncestorConversationID ow = e_ConversationID an \<and> rowShows d ow an))"

lemma anchorOK_lookup:
  assumes "ancestryOK d" and "parent \<in> set (db_conversations d)"
    and "anchor \<in> set (db_entries d)" "e_ConversationGroupID anchor = c_ConversationGroupID parent"
    and "visibleAncestryDepthForEntry d parent anchor = Inr (Some k)"
  shows "anchorOK d (c_ConversationGroupID parent) (Some parent) (Some (e_ID anchor)) (Some k)"
proof -
  obtain r where "visibleAncestryDepthForEntry d parent anchor = Inr r"
    "\<And>k. r = Some k \<longleftrightarrow> (\<exists>ca \<in> set (ancestryRows d (c_ConversationGroupID parent) (c_ID parent)).
       ca_AncestorConversationID ca = e_ConversationID anchor \<and> ca_Depth ca = k \<and> rowShows d ca anchor)"
    using visibleAncestryDepthForEntry_correct[OF assms(1,4)] by blast
  with assms(5) obtain ow where ow: "ow \<in> set (ancestryRows d (c_ConversationGroupID parent) (c_ID parent))"
    "ca_AncestorConversationID ow = e_ConversationID anchor" "ca_Depth ow = k" "rowShows d ow anchor" by auto
  moreover have "isConversation d (c_ConversationGroupID parent) (c_ID parent)"
    using assms(2) by (auto simp: isConversation_def)
  ultimately show ?thesis using assms(3,4) unfolding anchorOK_def
    by (simp del: set_ancestryRows) blast
qed

lemma boundaryBefore_cong: "db_entries d' = db_entries d \<Longrightarrow> boundaryBefore d' = boundaryBefore d"
  by (intro ext) (simp add: boundaryBefore_def split: option.split)

lemma fork_boundaries:
  assumes inv: "ancestryOK d" and ok: "anchorOK d g src anchor depth"
    and r: "r1 \<in> set (parentRowsOf d g src)" "r2 \<in> set (parentRowsOf d g src)" "ca_Depth r1 < ca_Depth r2"
  shows "boundaryBefore d (forkRow c anchor depth r1) (forkRow c anchor depth r2)"
proof -
  from r obtain p where src: "src = Some p" by (auto simp: parentRowsOf_def split: option.splits)
  with r have rows: "r1 \<in> set (ancestryRows d g (c_ID p))" "r2 \<in> set (ancestryRows d g (c_ID p))"
    by (auto simp: parentRowsOf_def)
  have old: "boundaryBefore d r1 r2"
    using ancestryOK_D(4)[OF inv] rows r(3) by (auto simp: boundariesOK_def sameSubject_def)
  show ?thesis
  proof (cases anchor)
    case None
    then show ?thesis using old by (auto simp: boundaryBefore_def split: option.splits)
  next
    case (Some a)
    with ok src obtain an ow where an: "an \<in> set (db_entries d)" "e_ID an = a" "e_ConversationGroupID an = g"
      and ow: "ow \<in> set (ancestryRows d g (c_ID p))" "depth = Some (ca_Depth ow)"
        "ca_AncestorConversationID ow = e_ConversationID an" "rowShows d ow an" by (auto simp: anchorOK_def)
    show ?thesis
    proof (cases "ca_Depth r2 = ca_Depth ow")
      case False
      then show ?thesis using old Some ow(2) by (auto simp: boundaryBefore_def split: option.splits)
    next
      case True
      have "r2 = ow"
        using ancestryOK_D(2)[OF inv] rows(2) ow(1) True by (auto simp: referencesOK_def sameSubject_def)
      have "rowShows d r2 an" using ow(4) \<open>r2 = ow\<close> by simp
      with r(3) obtain bound where bound: "bound \<in> set (db_entries d)"
        "ca_BeforeEntryID r2 = Some (e_ID bound)" "entryOrderLess an bound" by (auto simp: rowShows_def)
      have "entryOrderLess an e" if "e \<in> set (db_entries d)" "e_ConversationGroupID e = g"
          "e_ConversationID e = ca_AncestorConversationID r1" for e
        using boundary_order[OF inv rows r(3) bound(2,1) that] bound(3) entryOrderLess_trans by blast
      then show ?thesis using an rows Some ow(2) True by (auto simp: boundaryBefore_def)
    qed
  qed
qed

lemma fork_boundary_self:
  assumes inv: "ancestryOK d" and ok: "anchorOK d g src anchor depth" and new: "\<not> isConversation d g c"
    and r: "r \<in> set (parentRowsOf d g src)"
  shows "boundaryBefore d (selfRow g c) (forkRow c anchor depth r)"
proof -
  have g: "ca_ConversationGroupID r = g" using parentRowsOf_group[OF r] .
  have no: "e_ConversationGroupID e = g \<Longrightarrow> e \<in> set (db_entries d) \<Longrightarrow> e_ConversationID e \<noteq> c" for e
    using ancestryOK_D(2)[OF inv] new by (auto simp: referencesOK_def)
  have "\<exists>bound \<in> set (db_entries d). e_ID bound = b \<and> e_ConversationGroupID bound = g"
    if b: "ca_BeforeEntryID (forkRow c anchor depth r) = Some b" for b
  proof (cases "ca_BeforeEntryID r = Some b")
    case True
    have "r \<in> set (db_ancestry d)" using r by (auto simp: parentRowsOf_def split: option.splits)
    from boundary_exists[OF inv this True] g show ?thesis by simp
  next
    case False
    from r obtain p where src: "src = Some p" by (auto simp: parentRowsOf_def split: option.splits)
    from False b obtain a where a: "anchor = Some a" by (cases anchor) auto
    with ok src obtain an ow where an: "an \<in> set (db_entries d)" "e_ID an = a" "e_ConversationGroupID an = g"
      and ow: "depth = Some (ca_Depth (ow :: ConversationAncestry))"
      unfolding anchorOK_def by (simp del: set_ancestryRows) blast
    from b False a ow have "b = a" by (auto split: if_splits)
    with an show ?thesis by auto
  qed
  then show ?thesis using g no by (auto simp: boundaryBefore_def split: option.split)
qed

lemma isConversation_inserted:
  "insertedConversation d d1 c \<Longrightarrow>
   isConversation d1 g x \<longleftrightarrow> isConversation d g x \<or> (x = c_ID c \<and> g = c_ConversationGroupID c)"
  by (auto simp: insertedConversation_def isConversation_def)

lemma parentRowsOf_sub: "set (parentRowsOf d g src) \<subseteq> set (db_ancestry d)"
  by (auto simp: parentRowsOf_def split: option.splits)

lemma parentRowsOf_same_subject:
  "a \<in> set (parentRowsOf d g src) \<Longrightarrow> b \<in> set (parentRowsOf d g src) \<Longrightarrow> sameSubject a b"
  by (auto simp: parentRowsOf_def sameSubject_def split: option.splits)

lemma inserted_keysOK:
  assumes ins: "insertedConversation d d1 c" and inv: "ancestryOK d"
    and mk: "createConversationAncestry d1 g (c_ID c) src anchor depth = Inr d2"
  shows "keysOK d2"
proof -
  let ?R = "parentRowsOf d g src"
  note fresh = inserted_no_rows(1)[OF ins inv]
  have anc: "parentRowsOf d1 g src = ?R"
    using ins by (simp add: insertedConversation_def parentRowsOf_def ancestryRows_def split: option.split)
  have dist: "distinct (map ancestryKey (db_ancestry d))" using ancestryOK_D(1)[OF inv] by (simp add: keysOK_def)
  then have "distinct (map ancestryKey ?R)"
    by (auto simp: parentRowsOf_def ancestryRows_def distinct_map_filter split: option.split)
  then have R: "distinct ?R" "inj_on ancestryKey (set ?R)" by (simp_all add: distinct_map)
  have "inj_on (\<lambda>r. ancestryKey (forkRow (c_ID c) anchor depth r)) (set ?R)"
  proof (rule inj_onI)
    fix a b assume ab: "a \<in> set ?R" "b \<in> set ?R"
      "ancestryKey (forkRow (c_ID c) anchor depth a) = ancestryKey (forkRow (c_ID c) anchor depth b)"
    then have "ancestryKey a = ancestryKey b"
      using parentRowsOf_same_subject[OF ab(1,2)] by (simp add: ancestryKey_def sameSubject_def)
    then show "a = b" using R(2) ab by (auto dest: inj_onD)
  qed
  with R have "distinct (map ancestryKey (map (forkRow (c_ID c) anchor depth) ?R))"
    by (simp add: distinct_map comp_def inj_on_def)
  moreover have "ancestryKey (selfRow g (c_ID c)) \<notin> set (map ancestryKey (map (forkRow (c_ID c) anchor depth) ?R))"
    using fresh parentRowsOf_sub[of d g src] by (force simp: ancestryKey_def)
  moreover have "fst (snd k) \<noteq> c_ID c" if "k \<in> set (map ancestryKey (db_ancestry d))" for k
    using that fresh by (auto simp: ancestryKey_def)
  moreover have "fst (snd k) = c_ID c"
    if "k \<in> set (map ancestryKey (selfRow g (c_ID c) # map (forkRow (c_ID c) anchor depth) ?R))" for k
    using that by (auto simp: ancestryKey_def)
  ultimately have "distinct (map ancestryKey (db_ancestry d @ selfRow g (c_ID c) # map (forkRow (c_ID c) anchor depth) ?R))"
    using dist unfolding map_append distinct_append list.map distinct.simps by blast
  moreover have "d2 = d1\<lparr>db_ancestry := db_ancestry d @ selfRow g (c_ID c) # map (forkRow (c_ID c) anchor depth) ?R\<rparr>"
    "keysOK d1"
    using ins createConversationAncestry_rows[OF mk] anc by (simp_all add: insertedConversation_def)
  ultimately show ?thesis by (simp add: keysOK_def)
qed

lemma inserted_ancestryOK:
  assumes ins: "insertedConversation d d1 c" and inv: "ancestryOK d" and g: "c_ConversationGroupID c = g"
    and ok: "anchorOK d g src anchor depth"
    and mk: "createConversationAncestry d1 g (c_ID c) src anchor depth = Inr d2"
  shows "ancestryOK d2"
proof -
  let ?R = "parentRowsOf d g src"
  note rows = createConversationAncestry_rows[OF mk] and ent = inserted_rows(2)[OF ins inv mk]
  note fresh = inserted_no_rows[OF ins inv] and old = ancestryOK_D[OF inv]
  have anc: "parentRowsOf d1 g src = ?R"
    using ins by (simp add: insertedConversation_def parentRowsOf_def ancestryRows_def split: option.split)
  have set2: "set (db_ancestry d2) = set (db_ancestry d) \<union> insert (selfRow g (c_ID c)) (forkRow (c_ID c) anchor depth ` set ?R)"
    using rows ins anc by (auto simp: insertedConversation_def)
  have conv2: "isConversation d2 h x \<longleftrightarrow> isConversation d h x \<or> (x = c_ID c \<and> h = g)" for h x
    using isConversation_inserted[OF ins] rows g by (simp add: isConversation_def)
  have R: "r \<in> set (db_ancestry d)" "ca_ConversationGroupID r = g" "isConversation d g (ca_AncestorConversationID r)"
    "ca_AncestorConversationID r \<noteq> c_ID c" if "r \<in> set ?R" for r
  proof -
    have "r \<in> set (db_ancestry d)" "ca_ConversationGroupID r = g"
      using that parentRowsOf_sub[of d g src] parentRowsOf_group[OF that] by auto
    then show "r \<in> set (db_ancestry d)" "ca_ConversationGroupID r = g" "isConversation d g (ca_AncestorConversationID r)"
      "ca_AncestorConversationID r \<noteq> c_ID c"
      using old(2) fresh(1) by (auto simp: referencesOK_def)
  qed
  have oldrow: "ca \<in> set (db_ancestry d)" if "ca \<in> set (db_ancestry d2)" "ca_DescendantConversationID ca \<noteq> c_ID c" for ca
    using that unfolding set2 by auto
  have newrow: "ca = selfRow g (c_ID c) \<or> (\<exists>r \<in> set ?R. ca = forkRow (c_ID c) anchor depth r)"
    if "ca \<in> set (db_ancestry d2)" "ca_DescendantConversationID ca = c_ID c" for ca
    using that fresh(1) unfolding set2 by blast
  have unique: "a = b" if ab: "a \<in> set (db_ancestry d2)" "b \<in> set (db_ancestry d2)" "sameSubject a b" "ca_Depth a = ca_Depth b" for a b
  proof (cases "ca_DescendantConversationID a = c_ID c")
    case True
    have uniqR: "r1 = r2" if "r1 \<in> set ?R" "r2 \<in> set ?R" "ca_Depth r1 = ca_Depth r2" for r1 r2
      using old(2) R(1) parentRowsOf_same_subject that by (auto simp: referencesOK_def)
    have "ca_DescendantConversationID b = c_ID c" using True ab(3) by (simp add: sameSubject_def)
    from newrow[OF ab(1) True] newrow[OF ab(2) this] ab(4) show ?thesis
      by (elim disjE bexE; simp; metis uniqR)
  next
    case False
    then have "a \<in> set (db_ancestry d)" "b \<in> set (db_ancestry d)"
      using ab oldrow by (auto simp: sameSubject_def)
    then show ?thesis using old(2) ab by (auto simp: referencesOK_def)
  qed
  have refs: "referencesOK d2"
  proof -
    have "isConversation d2 (ca_ConversationGroupID ca) (ca_DescendantConversationID ca)
           \<and> isConversation d2 (ca_ConversationGroupID ca) (ca_AncestorConversationID ca)
           \<and> (ca_Depth ca = 0 \<longleftrightarrow> ca_DescendantConversationID ca = ca_AncestorConversationID ca)
           \<and> (ca_Depth ca = 0 \<longrightarrow> ca_BeforeEntryID ca = None \<and> ca_ForkedAtEntryID ca = None)"
      if "ca \<in> set (db_ancestry d2)" for ca
      using that unfolding set2
    proof (elim UnE insertE imageE)
      assume "ca \<in> set (db_ancestry d)"
      then show ?thesis using old(2) by (auto simp: conv2 referencesOK_def)
    next
      fix r assume "ca = forkRow (c_ID c) anchor depth r" "r \<in> set ?R"
      then show ?thesis using R(2,3) R(4)[of r] by (auto simp: conv2)
    qed (simp add: conv2)
    moreover have "isConversation d2 (e_ConversationGroupID e) (e_ConversationID e)" if "e \<in> set (db_entries d2)" for e
      using that old(2) ent by (auto simp: conv2 referencesOK_def)
    ultimately show ?thesis using unique unfolding referencesOK_def by blast
  qed
  have self: "selfRowsOK d2"
    using old(3) rows ins g unfolding selfRowsOK_def set2 by (auto simp: insertedConversation_def)
  have "boundaryBefore d near far" if nf: "near \<in> set (db_ancestry d2)" "far \<in> set (db_ancestry d2)"
      "sameSubject near far" "ca_Depth near < ca_Depth far" for near far
  proof (cases "ca_DescendantConversationID near = c_ID c")
    case True
    then have "ca_DescendantConversationID far = c_ID c" using nf(3) by (simp add: sameSubject_def)
    from newrow[OF nf(1) True] newrow[OF nf(2) this] nf(4) show ?thesis
      by (elim disjE bexE)
         (simp_all add: fork_boundaries[OF inv ok] fork_boundary_self[OF inv ok inserted_fresh[OF ins]])
  next
    case False
    then have "near \<in> set (db_ancestry d)" "far \<in> set (db_ancestry d)"
      using nf oldrow by (auto simp: sameSubject_def)
    then show ?thesis using old(4) nf by (auto simp: boundariesOK_def)
  qed
  then have "boundariesOK d2" unfolding boundariesOK_def boundaryBefore_cong[OF ent] by blast
  then show ?thesis using inserted_keysOK[OF ins inv mk] refs self by (simp add: ancestryOK_def)
qed

section \<open>Appending\<close>

definition appendEntriesTo :: "db \<Rightarrow> Entry list \<Rightarrow> db" where
  "appendEntriesTo d es = d\<lparr>db_entries := db_entries d @ es\<rparr>"

lemma appendEntriesTo_simps [simp]:
  "db_entries (appendEntriesTo d es) = db_entries d @ es"
  "db_ancestry (appendEntriesTo d es) = db_ancestry d"
  "db_conversations (appendEntriesTo d es) = db_conversations d"
  "db_memberships (appendEntriesTo d es) = db_memberships d"
  "db_groups (appendEntriesTo d es) = db_groups d"
  "db_transfers (appendEntriesTo d es) = db_transfers d"
  by (simp_all add: appendEntriesTo_def)

text \<open>New entries of one conversation, in order, after everything in the group.\<close>

definition appendsAfter :: "db \<Rightarrow> uuid \<Rightarrow> string \<Rightarrow> Entry list \<Rightarrow> bool" where
  "appendsAfter d g c es \<longleftrightarrow>
     isConversation d g c \<and> (\<forall>e \<in> set es. e_ConversationGroupID e = g \<and> e_ConversationID e = c)
     \<and> distinct (map e_ID (db_entries d @ es)) \<and> sorted_wrt entryOrderLess es
     \<and> (\<forall>e \<in> set (db_entries d). \<forall>e' \<in> set es. e_ConversationGroupID e = g \<longrightarrow> entryOrderLess e e')"

lemma append_rowShows_old:
  assumes "ancestryOK d" and "appendsAfter d g c es" and "ca \<in> set (db_ancestry d)"
  shows "rowShows (appendEntriesTo d es) ca e \<longleftrightarrow> rowShows d ca e"
proof -
  have "bound \<notin> set es" if before: "ca_BeforeEntryID ca = Some (e_ID bound)" for bound
  proof
    assume "bound \<in> set es"
    moreover have "e_ID bound \<in> set (map e_ID (db_entries d))"
      using boundary_exists[OF assms(1,3) before] by (metis image_eqI set_map)
    ultimately show False using assms(2) by (auto simp: appendsAfter_def)
  qed
  then show ?thesis by (auto simp: rowShows_def)
qed

lemma append_rowShows_new:
  assumes "ancestryOK d" and "appendsAfter d g c es" and "ca \<in> set (db_ancestry d)" and "ca_ConversationGroupID ca = g"
    and "e \<in> set es"
  shows "rowShows (appendEntriesTo d es) ca e \<longleftrightarrow> ca_Depth ca = 0"
proof -
  have "\<not> entryOrderLess e bound" if "bound \<in> set (db_entries d)" "e_ConversationGroupID bound = g" for bound
    using assms(2,5) that entry_ord.lt_asym by (auto simp: appendsAfter_def)
  then show ?thesis unfolding append_rowShows_old[OF assms(1-3)] using assms(4) by (auto simp: rowShows_def)
qed

lemma append_visible:
  assumes inv: "ancestryOK d" and app: "appendsAfter d g c es"
  shows "e \<in> set (db_entries d) \<Longrightarrow> visibleIn (appendEntriesTo d es) g' c' e \<longleftrightarrow> visibleIn d g' c' e"
    and "e \<in> set es \<Longrightarrow> visibleIn (appendEntriesTo d es) g' c' e \<longleftrightarrow> g' = g \<and> c' = c"
proof -
  show "visibleIn (appendEntriesTo d es) g' c' e \<longleftrightarrow> visibleIn d g' c' e"
    unfolding visibleIn_def appendEntriesTo_simps using append_rowShows_old[OF inv app] by blast
next
  assume e: "e \<in> set es"
  then have loc: "e_ConversationGroupID e = g" "e_ConversationID e = c" using app by (auto simp: appendsAfter_def)
  obtain self where self: "self \<in> set (db_ancestry d)" "ca_ConversationGroupID self = g"
      "ca_DescendantConversationID self = c" "ca_Depth self = 0"
    using app ancestryOK_D(3)[OF inv] by (force simp: appendsAfter_def isConversation_def selfRowsOK_def)
  have zero: "ca_Depth ca = 0 \<longleftrightarrow> ca_DescendantConversationID ca = ca_AncestorConversationID ca"
    if "ca \<in> set (db_ancestry d)" for ca
    using that ancestryOK_D(2)[OF inv] by (auto simp: referencesOK_def)
  show "visibleIn (appendEntriesTo d es) g' c' e \<longleftrightarrow> g' = g \<and> c' = c"
  proof
    assume "visibleIn (appendEntriesTo d es) g' c' e"
    then obtain ca where ca: "ca \<in> set (db_ancestry d)" "ca_ConversationGroupID ca = g" "g' = g"
        "ca_DescendantConversationID ca = c'" "ca_AncestorConversationID ca = c" "rowShows (appendEntriesTo d es) ca e"
      using loc unfolding visibleIn_def appendEntriesTo_simps by metis
    then have "ca_Depth ca = 0" using append_rowShows_new[OF inv app ca(1,2) e] by simp
    with zero[OF ca(1)] ca show "g' = g \<and> c' = c" by simp
  next
    assume "g' = g \<and> c' = c"
    then show "visibleIn (appendEntriesTo d es) g' c' e"
      using self zero[OF self(1)] loc append_rowShows_new[OF inv app self(1,2) e]
      unfolding visibleIn_def appendEntriesTo_simps by metis
  qed
qed

lemma append_keysOK: "keysOK d \<Longrightarrow> appendsAfter d g c es \<Longrightarrow> keysOK (appendEntriesTo d es)"
  by (simp add: keysOK_def appendsAfter_def)

lemma append_ancestryOK:
  assumes inv: "ancestryOK d" and app: "appendsAfter d g c es"
  shows "ancestryOK (appendEntriesTo d es)"
proof -
  note old = ancestryOK_D[OF inv]
  have "isConversation (appendEntriesTo d es) = isConversation d" by (intro ext) (simp add: isConversation_def)
  then have "referencesOK (appendEntriesTo d es)"
    using old(2) app by (auto simp: referencesOK_def appendsAfter_def)
  moreover have "selfRowsOK (appendEntriesTo d es)" using old(3) by (simp add: selfRowsOK_def)
  moreover have "boundaryBefore (appendEntriesTo d es) near far" if "boundaryBefore d near far" for near far
  proof (cases "ca_BeforeEntryID far")
    case (Some b)
    with that obtain bound where "bound \<in> set (db_entries d)" "e_ID bound = b"
        "e_ConversationGroupID bound = ca_ConversationGroupID far"
        "\<forall>e \<in> set (db_entries d). e_ConversationGroupID e = ca_ConversationGroupID far
           \<and> e_ConversationID e = ca_AncestorConversationID near \<longrightarrow> entryOrderLess bound e"
      by (auto simp: boundaryBefore_def)
    moreover from this have "\<forall>e \<in> set es. e_ConversationGroupID e = ca_ConversationGroupID far \<longrightarrow> entryOrderLess bound e"
      using app by (auto simp: appendsAfter_def)
    ultimately show ?thesis using Some by (auto simp: boundaryBefore_def)
  qed (simp add: boundaryBefore_def)
  then have "boundariesOK (appendEntriesTo d es)" using old(4) by (simp add: boundariesOK_def)
  ultimately show ?thesis using append_keysOK[OF old(1) app] by (simp add: ancestryOK_def)
qed

section \<open>Views\<close>

lemma listVisible_eq:
  "keysOK d \<Longrightarrow> listVisibleEntriesForConversation d conv
     = order_by entryOrderLess (filter (visibleIn d (c_ConversationGroupID conv) (c_ID conv)) (db_entries d))"
  by (simp add: listVisibleEntriesForConversation_def EntryOrderSQL_asc visibleEntriesQuery_filter)

lemma listVisible_set:
  "keysOK d \<Longrightarrow> set (listVisibleEntriesForConversation d conv)
     = {e \<in> set (db_entries d). visibleIn d (c_ConversationGroupID conv) (c_ID conv) e}"
  by (simp add: listVisible_eq)

lemma listVisible_sorted: "keysOK d \<Longrightarrow> sorted_wrt entryOrderLess (listVisibleEntriesForConversation d conv)"
  by (simp add: listVisible_eq entry_ord.sorted_order_by keysOK_def distinct_map_filter)

text \<open>A view depends on the id and the group of the conversation only.\<close>

lemma listVisible_cong:
  assumes "keysOK d" and "keysOK d'" and "c_ID conv' = c_ID conv" and "c_ConversationGroupID conv' = c_ConversationGroupID conv"
    and "db_entries d' = db_entries d"
    and "\<And>e. e \<in> set (db_entries d) \<Longrightarrow> visibleIn d' (c_ConversationGroupID conv) (c_ID conv) e
              = visibleIn d (c_ConversationGroupID conv) (c_ID conv) e"
  shows "listVisibleEntriesForConversation d' conv' = listVisibleEntriesForConversation d conv"
proof -
  have "filter (visibleIn d' (c_ConversationGroupID conv) (c_ID conv)) (db_entries d)
      = filter (visibleIn d (c_ConversationGroupID conv) (c_ID conv)) (db_entries d)"
    using assms(6) by (rule filter_cong[OF refl])
  then show ?thesis using assms by (simp add: listVisible_eq)
qed

lemma sorted_takeWhile:
  assumes "sorted_wrt entryOrderLess xs" and "a \<in> set xs" and "inj_on e_ID (set xs)"
  shows "filter (\<lambda>e. entryOrderLess e a) xs = takeWhile (\<lambda>e. e_ID e \<noteq> e_ID a) xs"
proof -
  obtain pre post where xs: "xs = pre @ a # post" using assms(2) by (meson split_list)
  have "a \<notin> set pre" using assms(1) xs by (auto simp: sorted_wrt_append)
  then have "\<forall>e \<in> set pre. e_ID e \<noteq> e_ID a" using assms(3) xs by (auto simp: inj_on_def)
  then have "takeWhile (\<lambda>e. e_ID e \<noteq> e_ID a) xs = pre" unfolding xs by (simp add: takeWhile_append2)
  then show ?thesis using entry_ord.filter_below_split(1) assms(1) xs by simp
qed

lemma fork_view:
  assumes ins: "insertedConversation d d1 c" and inv: "ancestryOK d" and g: "c_ConversationGroupID c = c_ConversationGroupID parent"
    and mk: "createConversationAncestry d1 (c_ConversationGroupID parent) (c_ID c) (Some parent) (Some (e_ID anchor)) (Some k) = Inr d2"
    and anchor: "anchor \<in> set (db_entries d)" "e_ConversationGroupID anchor = c_ConversationGroupID parent"
    and owner: "visibleAncestryDepthForEntry d parent anchor = Inr (Some k)"
  shows "listVisibleEntriesForConversation d2 c
       = takeWhile (\<lambda>e. e_ID e \<noteq> e_ID anchor) (listVisibleEntriesForConversation d parent)"
proof -
  let ?V = "visibleIn d (c_ConversationGroupID parent) (c_ID parent)"
  have k: "keysOK d" "keysOK d2" using ancestryOK_D(1)[OF inv] inserted_keysOK[OF ins inv mk] by auto
  have ent: "db_entries d2 = db_entries d" using inserted_rows(2)[OF ins inv mk] .
  have dist: "distinct (map e_ID (db_entries d))" using k(1) by (simp add: keysOK_def)
  obtain r where r: "visibleAncestryDepthForEntry d parent anchor = Inr r"
    "\<And>k. r = Some k \<longleftrightarrow> (\<exists>ca \<in> set (ancestryRows d (c_ConversationGroupID parent) (c_ID parent)).
       ca_AncestorConversationID ca = e_ConversationID anchor \<and> ca_Depth ca = k \<and> rowShows d ca anchor)"
    using visibleAncestryDepthForEntry_correct[OF inv anchor(2)] by blast
  then have "?V anchor" using owner anchor(2) unfolding visibleIn_rows by auto
  then have mem: "anchor \<in> set (listVisibleEntriesForConversation d parent)"
    using listVisible_set[OF k(1)] anchor(1) by simp
  have "filter (visibleIn d2 (c_ConversationGroupID parent) (c_ID c)) (db_entries d)
      = filter (\<lambda>e. entryOrderLess e anchor) (filter ?V (db_entries d))"
    using fork_visible[OF ins inv mk anchor owner] by (simp add: filter_filter cong: filter_cong)
  then have "listVisibleEntriesForConversation d2 c
      = filter (\<lambda>e. entryOrderLess e anchor) (listVisibleEntriesForConversation d parent)"
    using k ent g dist by (simp add: listVisible_eq entry_ord.order_by_filter distinct_map_filter)
  also have "\<dots> = takeWhile (\<lambda>e. e_ID e \<noteq> e_ID anchor) (listVisibleEntriesForConversation d parent)"
    using dist by (intro sorted_takeWhile listVisible_sorted k mem) (auto simp: listVisible_set[OF k(1)] distinct_map inj_on_def)
  finally show ?thesis .
qed

lemma blank_fork_view:
  assumes ins: "insertedConversation d d1 c" and inv: "ancestryOK d" and g: "c_ConversationGroupID c = c_ConversationGroupID parent"
    and mk: "createConversationAncestry d1 (c_ConversationGroupID parent) (c_ID c) (Some parent) None k = Inr d2"
  shows "listVisibleEntriesForConversation d2 c
       = filter (\<lambda>e. e_ConversationID e \<noteq> c_ID parent) (listVisibleEntriesForConversation d parent)"
proof -
  have k: "keysOK d" "keysOK d2" using ancestryOK_D(1)[OF inv] inserted_keysOK[OF ins inv mk] by auto
  have ent: "db_entries d2 = db_entries d" using inserted_rows(2)[OF ins inv mk] .
  have "filter (visibleIn d2 (c_ConversationGroupID parent) (c_ID c)) (db_entries d)
      = filter (\<lambda>e. e_ConversationID e \<noteq> c_ID parent)
          (filter (visibleIn d (c_ConversationGroupID parent) (c_ID parent)) (db_entries d))"
    using blank_fork_visible[OF ins inv mk] by (simp add: filter_filter cong: filter_cong)
  then show ?thesis
    using k ent g by (simp add: listVisible_eq entry_ord.order_by_filter distinct_map_filter keysOK_def)
qed

lemma root_view:
  assumes ins: "insertedConversation d d1 c" and inv: "ancestryOK d" and g: "c_ConversationGroupID c = g"
    and mk: "createConversationAncestry d1 g (c_ID c) None anchor depth = Inr d2"
  shows "listVisibleEntriesForConversation d2 c = []"
proof -
  have "\<not> visibleIn d2 g (c_ID c) e" if "e \<in> set (db_entries d)" for e
    using inserted_no_rows(2)[OF ins inv that] unfolding visibleIn_rows inserted_rows(1)[OF ins inv mk]
    by (simp add: parentRowsOf_def)
  then have "filter (visibleIn d2 g (c_ID c)) (db_entries d) = []" by (simp add: filter_empty_conv)
  then show ?thesis
    using g inserted_rows(2)[OF ins inv mk] inserted_keysOK[OF ins inv mk] by (simp add: listVisible_eq)
qed

lemma other_view:
  assumes "insertedConversation d d1 c" and "ancestryOK d"
    and "createConversationAncestry d1 g (c_ID c) src anchor depth = Inr d2" and "c_ID c' \<noteq> c_ID c"
  shows "listVisibleEntriesForConversation d2 c' = listVisibleEntriesForConversation d c'"
  using other_visible[OF assms] ancestryOK_D(1)[OF assms(2)] inserted_keysOK[OF assms(1-3)] inserted_rows(2)[OF assms(1-3)]
  by (intro listVisible_cong) simp_all

lemma append_view:
  assumes inv: "ancestryOK d" and app: "appendsAfter d g c es"
  shows "listVisibleEntriesForConversation (appendEntriesTo d es) conv =
     (if c_ID conv = c \<and> c_ConversationGroupID conv = g
      then listVisibleEntriesForConversation d conv @ es
      else listVisibleEntriesForConversation d conv)"
proof -
  let ?V = "visibleIn (appendEntriesTo d es) (c_ConversationGroupID conv) (c_ID conv)"
  let ?W = "visibleIn d (c_ConversationGroupID conv) (c_ID conv)"
  let ?own = "c_ConversationGroupID conv = g \<and> c_ID conv = c"
  have k: "keysOK d" "keysOK (appendEntriesTo d es)"
    using ancestryOK_D(1)[OF inv] append_keysOK[OF _ app] by auto
  have f: "filter ?V (db_entries d) = filter ?W (db_entries d)" "filter ?V es = (if ?own then es else [])"
    using append_visible[OF inv app] by (auto intro!: filter_cong simp: filter_empty_conv filter_id_conv)
  show ?thesis
  proof (cases ?own)
    case True
    have "order_by entryOrderLess (filter ?W (db_entries d) @ es)
        = order_by entryOrderLess (filter ?W (db_entries d)) @ order_by entryOrderLess es"
      using app True by (intro entry_ord.order_by_append)
        (auto simp: appendsAfter_def visibleIn_def distinct_map_filter)
    moreover have "order_by entryOrderLess es = es"
      using app by (intro entry_ord.order_by_sorted) (auto simp: appendsAfter_def)
    ultimately show ?thesis using True f k by (simp add: listVisible_eq)
  next
    case False
    then show ?thesis using f k by (auto simp: listVisible_eq)
  qed
qed

end
