(* ===== verification/Conversations.thy ===== *)
theory Conversations
  imports Ancestry
begin

text \<open>
  Conversations of the SQLite store: access control, creation (root, fork, started-by) with its
  idempotent retry, reading, updating, archiving and unarchiving. An operation takes the database and
  the values the code obtains from outside (\<open>uuid.New()\<close>, \<open>time.Now()\<close>, the field cipher) and returns
  the new database with a result. An operation that fails leaves the database as it was (the write
  transaction is rolled back); \<open>createConversationWithID\<close> returns the database in every case because
  the append path recovers from one of its errors.

  The lemmas show that creation keeps the ancestry invariant, gives a fork exactly the prefix of its
  parent's view, never changes another conversation's view, and is idempotent.
\<close>

section \<open>Access\<close>

definition requireAccess :: "db \<Rightarrow> string \<Rightarrow> uuid \<Rightarrow> AccessLevel \<Rightarrow> AccessLevel result" where
  "requireAccess d userID groupID minLevel =
     (case List.find (\<lambda>m. m_ConversationGroupID m = groupID \<and> m_UserID m = userID) (db_memberships d) of
        None \<Rightarrow> Inl ForbiddenError
      | Some m \<Rightarrow> if \<not> IsAtLeast (m_AccessLevel m) minLevel then Inl ForbiddenError
                  else Inr (m_AccessLevel m))"

definition findConversation :: "db \<Rightarrow> string \<Rightarrow> Conversation option" where
  "findConversation d conversationID = List.find (\<lambda>c. c_ID c = conversationID) (db_conversations d)"

definition findActiveConversation :: "db \<Rightarrow> string \<Rightarrow> Conversation option" where
  "findActiveConversation d conversationID =
     List.find (\<lambda>c. c_ID c = conversationID \<and> c_ArchivedAt c = None) (db_conversations d)"

definition getGroupID :: "db \<Rightarrow> string \<Rightarrow> string \<Rightarrow> AccessLevel \<Rightarrow> uuid result" where
  "getGroupID d userID conversationID minLevel =
     (case findActiveConversation d conversationID of
        None \<Rightarrow> Inl (NotFoundError ''conversation'' conversationID)
      | Some conv \<Rightarrow> andThen (requireAccess d userID (c_ConversationGroupID conv) minLevel)
                       (\<lambda>_. Inr (c_ConversationGroupID conv)))"

section \<open>Lineage of a row\<close>

definition hydrateConversationLineage :: "db \<Rightarrow> Conversation \<Rightarrow> Conversation" where
  "hydrateConversationLineage d conv =
     (if c_StartedByConversationID conv \<noteq> None then conv
      else case List.find (\<lambda>c. c_ConversationGroupID c = c_ConversationGroupID conv
                               \<and> c_StartedByConversationID c \<noteq> None) (db_conversations d) of
             None \<Rightarrow> conv
           | Some lineage \<Rightarrow> conv\<lparr>c_StartedByConversationID := c_StartedByConversationID lineage,
                                  c_StartedByEntryID := c_StartedByEntryID lineage\<rparr>)"

definition directRow :: "db \<Rightarrow> Conversation \<Rightarrow> ConversationAncestry option" where
  "directRow d conv =
     List.find (\<lambda>ca. ca_ConversationGroupID ca = c_ConversationGroupID conv
                     \<and> ca_DescendantConversationID ca = c_ID conv \<and> ca_Depth ca = 1) (db_ancestry d)"

definition hydrateConversationFork :: "db \<Rightarrow> Conversation \<Rightarrow> Conversation" where
  "hydrateConversationFork d conv =
     hydrateConversationLineage d
       (case directRow d conv of
          None \<Rightarrow> conv\<lparr>c_ForkedAtConversationID := None, c_ForkedAtEntryID := None\<rparr>
        | Some direct \<Rightarrow> conv\<lparr>c_ForkedAtConversationID := Some (ca_AncestorConversationID direct),
                              c_ForkedAtEntryID := ca_ForkedAtEntryID direct\<rparr>)"

section \<open>Creation\<close>

record CreateRequest =
  cr_UserID :: string
  cr_ClientID :: string
  cr_ConvID :: string
  cr_Title :: string
  cr_Metadata :: json_object
  cr_AgentID :: "string option"
  cr_ForkedAtConversationID :: "string option"
  cr_ForkedAtEntryID :: "uuid option"
  cr_StartedByConversationID :: "string option"
  cr_StartedByEntryID :: "uuid option"

record ConversationSummary =
  cs_ID :: string
  cs_Title :: string
  cs_OwnerUserID :: string
  cs_ClientID :: string
  cs_AgentID :: "string option"
  cs_Metadata :: json_object
  cs_ConversationGroupID :: uuid
  cs_ForkedAtEntryID :: "uuid option"
  cs_ForkedAtConversationID :: "string option"
  cs_StartedByConversationID :: "string option"
  cs_StartedByEntryID :: "uuid option"
  cs_CreatedAt :: time
  cs_UpdatedAt :: time
  cs_ArchivedAt :: "time option"
  cs_AccessLevel :: AccessLevel

record CreateConversationResult =
  res_Conversation :: ConversationSummary
  res_ExactRetry :: bool

text \<open>The local variables of \<open>createConversationWithID\<close> after the lineage has been resolved.\<close>

record Lineage =
  li_ActualGroupID :: uuid
  li_OwnerUserID :: string
  li_CallerAccessLevel :: AccessLevel
  li_MembershipsToCopy :: "ConversationMembership list"
  li_SourceConv :: "Conversation option"
  li_AnchorOwnerDepth :: "nat option"
  li_StartedByConversationID :: "string option"
  li_StartedByEntryID :: "uuid option"

definition forkAnchorDepth :: "db \<Rightarrow> string \<Rightarrow> Conversation \<Rightarrow> uuid option \<Rightarrow> nat option result" where
  "forkAnchorDepth d clientID parent forkedAtEntryID =
     (case forkedAtEntryID of
        None \<Rightarrow> Inr None
      | Some anchorID \<Rightarrow>
          (case List.find (\<lambda>e. e_ID e = anchorID \<and> e_ConversationGroupID e = c_ConversationGroupID parent) (db_entries d) of
             None \<Rightarrow> Inl (NotFoundError ''entry'' anchorID)
           | Some entry \<Rightarrow>
               if e_Channel entry \<noteq> ChannelHistory \<and> e_Channel entry \<noteq> ChannelJournal
               then Inl (ValidationError ''forkedAtEntryId'' ''can only fork at history or journal entries'')
               else if e_Channel entry = ChannelJournal \<and> (clientID = [] \<or> e_ClientID entry \<noteq> Some clientID)
               then Inl ForbiddenError
               else andThen (visibleAncestryDepthForEntry d parent entry)
                      (\<lambda>ownerDepth. case ownerDepth of
                         None \<Rightarrow> Inl (ValidationError ''forkedAtEntryId''
                                   ''forkedAtEntryId must be visible in the parent conversation ancestry'')
                       | Some depth \<Rightarrow> Inr (Some depth))))"

definition resolveFork :: "db \<Rightarrow> CreateRequest \<Rightarrow> string \<Rightarrow> Lineage result" where
  "resolveFork d req forkedAtConversationID =
     (case findActiveConversation d forkedAtConversationID of
        None \<Rightarrow> Inl (NotFoundError ''conversation'' forkedAtConversationID)
      | Some parent \<Rightarrow>
          andThen (requireAccess d (cr_UserID req) (c_ConversationGroupID parent) AccessLevelReader) (\<lambda>_.
          andThen (forkAnchorDepth d (cr_ClientID req) parent (cr_ForkedAtEntryID req)) (\<lambda>anchorOwnerDepth.
          let hydrated = hydrateConversationLineage d parent
          in Inr \<lparr>li_ActualGroupID = c_ConversationGroupID parent,
                  li_OwnerUserID = cr_UserID req, li_CallerAccessLevel = AccessLevelOwner,
                  li_MembershipsToCopy = [], li_SourceConv = Some parent,
                  li_AnchorOwnerDepth = anchorOwnerDepth,
                  li_StartedByConversationID = c_StartedByConversationID hydrated,
                  li_StartedByEntryID = c_StartedByEntryID hydrated\<rparr>)))"

definition membershipCreatedAsc :: "ConversationMembership \<Rightarrow> ConversationMembership \<Rightarrow> bool" where
  "membershipCreatedAsc a b = (m_CreatedAt a < m_CreatedAt b)"

definition resolveStartedBy :: "db \<Rightarrow> CreateRequest \<Rightarrow> uuid \<Rightarrow> string \<Rightarrow> Lineage result" where
  "resolveStartedBy d req groupID startedByConversationID =
     (case findActiveConversation d startedByConversationID of
        None \<Rightarrow> Inl (NotFoundError ''conversation'' startedByConversationID)
      | Some parentConv \<Rightarrow>
          andThen (requireAccess d (cr_UserID req) (c_ConversationGroupID parentConv) AccessLevelWriter) (\<lambda>accessLevel.
          andThen (case cr_StartedByEntryID req of
                     None \<Rightarrow> Inr True
                   | Some entryID \<Rightarrow> entryVisibleInConversationAncestry d parentConv entryID) (\<lambda>visible.
          if \<not> visible
          then Inl (ValidationError ''startedByEntryId''
                      ''startedByEntryId must be visible in the parent conversation ancestry'')
          else Inr \<lparr>li_ActualGroupID = groupID,
                    li_OwnerUserID = c_OwnerUserID parentConv, li_CallerAccessLevel = accessLevel,
                    li_MembershipsToCopy =
                      order_by membershipCreatedAsc
                        (filter (\<lambda>m. m_ConversationGroupID m = c_ConversationGroupID parentConv) (db_memberships d)),
                    li_SourceConv = None, li_AnchorOwnerDepth = None,
                    li_StartedByConversationID = cr_StartedByConversationID req,
                    li_StartedByEntryID = cr_StartedByEntryID req\<rparr>)))"

definition resolveLineage :: "db \<Rightarrow> CreateRequest \<Rightarrow> uuid \<Rightarrow> Lineage result" where
  "resolveLineage d req groupID =
     (if cr_ForkedAtConversationID req \<noteq> None \<and> cr_StartedByConversationID req \<noteq> None
      then Inl (ValidationError ''lineage'' ''fork and started-by lineage cannot both be set'')
      else case cr_ForkedAtConversationID req of
        Some forkedAt \<Rightarrow> resolveFork d req forkedAt
      | None \<Rightarrow>
          (case cr_StartedByConversationID req of
             Some startedBy \<Rightarrow> resolveStartedBy d req groupID startedBy
           | None \<Rightarrow> Inr \<lparr>li_ActualGroupID = groupID, li_OwnerUserID = cr_UserID req,
                          li_CallerAccessLevel = AccessLevelOwner, li_MembershipsToCopy = [],
                          li_SourceConv = None, li_AnchorOwnerDepth = None,
                          li_StartedByConversationID = None, li_StartedByEntryID = cr_StartedByEntryID req\<rparr>))"

definition ConversationsMatch :: "Conversation \<Rightarrow> string \<Rightarrow> CreateRequest \<Rightarrow> string \<Rightarrow> bool" where
  "ConversationsMatch existing expectedOwnerUserID req existingDecryptedTitle =
     (c_OwnerUserID existing = expectedOwnerUserID
      \<and> c_ClientID existing = cr_ClientID req
      \<and> existingDecryptedTitle = cr_Title req
      \<and> metadataEqual (c_Metadata existing) (cr_Metadata req)
      \<and> c_AgentID existing = cr_AgentID req
      \<and> c_ForkedAtConversationID existing = cr_ForkedAtConversationID req
      \<and> c_ForkedAtEntryID existing = cr_ForkedAtEntryID req
      \<and> c_StartedByConversationID existing = cr_StartedByConversationID req
      \<and> c_StartedByEntryID existing = cr_StartedByEntryID req)"

text \<open>The answer for a conversation id that is already taken; both places that need it use the same code.\<close>

definition existingConversationResult ::
  "db \<Rightarrow> enc \<Rightarrow> CreateRequest \<Rightarrow> Lineage \<Rightarrow> Conversation \<Rightarrow> CreateConversationResult result" where
  "existingConversationResult d s_enc req li existing =
     (if c_ArchivedAt existing \<noteq> None then Inl (NotFoundError ''conversation'' (cr_ConvID req))
      else if cr_StartedByConversationID req = None \<and> c_OwnerUserID existing \<noteq> cr_UserID req
      then Inl (NotFoundError ''conversation'' (cr_ConvID req))
      else andThen (decryptConversationTitle s_enc (c_ID existing) (c_Title existing)) (\<lambda>decryptedTitle.
        let hydrated = hydrateConversationFork d existing;
            existingForMatch = hydrated\<lparr>c_StartedByConversationID := c_StartedByConversationID existing,
                                        c_StartedByEntryID := c_StartedByEntryID existing\<rparr>
        in if \<not> ConversationsMatch existingForMatch (li_OwnerUserID li) req decryptedTitle
           then Inl (ConversationIDConflictError (cr_ConvID req))
           else Inr \<lparr>res_Conversation =
                  \<lparr>cs_ID = c_ID hydrated, cs_Title = decryptedTitle, cs_OwnerUserID = c_OwnerUserID hydrated,
                   cs_ClientID = c_ClientID hydrated, cs_AgentID = c_AgentID hydrated,
                   cs_Metadata = c_Metadata hydrated, cs_ConversationGroupID = c_ConversationGroupID hydrated,
                   cs_ForkedAtEntryID = c_ForkedAtEntryID hydrated,
                   cs_ForkedAtConversationID = c_ForkedAtConversationID hydrated,
                   cs_StartedByConversationID = c_StartedByConversationID hydrated,
                   cs_StartedByEntryID = c_StartedByEntryID hydrated,
                   cs_CreatedAt = c_CreatedAt hydrated, cs_UpdatedAt = c_UpdatedAt hydrated,
                   cs_ArchivedAt = None, cs_AccessLevel = li_CallerAccessLevel li\<rparr>,
                  res_ExactRetry = True\<rparr>))"

definition newConversation :: "CreateRequest \<Rightarrow> Lineage \<Rightarrow> string \<Rightarrow> time \<Rightarrow> Conversation" where
  "newConversation req li encTitle now =
     \<lparr>c_ID = cr_ConvID req, c_Title = Some encTitle, c_OwnerUserID = li_OwnerUserID li,
      c_ClientID = cr_ClientID req, c_AgentID = cr_AgentID req, c_Metadata = cr_Metadata req,
      c_ConversationGroupID = li_ActualGroupID li, c_ForkedAtEntryID = None, c_ForkedAtConversationID = None,
      c_StartedByConversationID = cr_StartedByConversationID req, c_StartedByEntryID = cr_StartedByEntryID req,
      c_CreatedAt = now, c_UpdatedAt = now, c_VectorizedAt = None, c_ArchivedAt = None\<rparr>"

definition initialMemberships :: "Lineage \<Rightarrow> time \<Rightarrow> ConversationMembership list" where
  "initialMemberships li now =
     (if li_MembershipsToCopy li = []
      then [\<lparr>m_ConversationGroupID = li_ActualGroupID li, m_UserID = li_OwnerUserID li,
             m_AccessLevel = AccessLevelOwner, m_CreatedAt = now\<rparr>]
      else map (\<lambda>m. m\<lparr>m_ConversationGroupID := li_ActualGroupID li, m_CreatedAt := now\<rparr>) (li_MembershipsToCopy li))"

definition insertMemberships :: "db \<Rightarrow> ConversationMembership list \<Rightarrow> db result" where
  "insertMemberships d ms =
     (if distinct (map membershipKey (db_memberships d @ ms))
      then Inr (d\<lparr>db_memberships := db_memberships d @ ms\<rparr>)
      else Inl (InternalError ''failed to create memberships''))"

definition createdResult :: "CreateRequest \<Rightarrow> Lineage \<Rightarrow> time \<Rightarrow> CreateConversationResult" where
  "createdResult req li now =
     \<lparr>res_Conversation =
        \<lparr>cs_ID = cr_ConvID req, cs_Title = cr_Title req, cs_OwnerUserID = li_OwnerUserID li,
         cs_ClientID = cr_ClientID req, cs_AgentID = cr_AgentID req, cs_Metadata = cr_Metadata req,
         cs_ConversationGroupID = li_ActualGroupID li, cs_ForkedAtEntryID = cr_ForkedAtEntryID req,
         cs_ForkedAtConversationID = cr_ForkedAtConversationID req,
         cs_StartedByConversationID = li_StartedByConversationID li,
         cs_StartedByEntryID = li_StartedByEntryID li, cs_CreatedAt = now, cs_UpdatedAt = now,
         cs_ArchivedAt = None, cs_AccessLevel = li_CallerAccessLevel li\<rparr>,
      res_ExactRetry = False\<rparr>"

text \<open>
  The insert phase, on the database at the time of the insert. When another request has taken the id
  meanwhile, the group allocated for this one is removed and the existing row decides the answer.
\<close>

definition insertConversation ::
  "db \<Rightarrow> enc \<Rightarrow> CreateRequest \<Rightarrow> Lineage \<Rightarrow> time \<Rightarrow> db \<times> CreateConversationResult result" where
  "insertConversation d s_enc req li now =
     (let root = (cr_ForkedAtConversationID req = None);
          group = \<lparr>g_ID = li_ActualGroupID li, g_CreatedAt = now, g_ArchivedAt = None\<rparr>
      in if root \<and> (\<exists>g \<in> set (db_groups d). g_ID g = li_ActualGroupID li)
         then (d, Inl (InternalError ''failed to create conversation group''))
         else
           let d1 = (if root then d\<lparr>db_groups := db_groups d @ [group]\<rparr> else d)
           in case encryptConversationTitle s_enc (cr_ConvID req) (cr_Title req) of
                Inl err \<Rightarrow> (d, Inl err)
              | Inr encTitle \<Rightarrow>
                  let conv = newConversation req li encTitle now
                  in case findConversation d1 (cr_ConvID req) of
                       Some existing \<Rightarrow>
                         let d2 = (if root then d1\<lparr>db_groups := delete_where (\<lambda>g. g_ID g = li_ActualGroupID li) (db_groups d1)\<rparr> else d1)
                         in (d2, existingConversationResult d2 s_enc req li existing)
                     | None \<Rightarrow>
                         let d2 = d1\<lparr>db_conversations := db_conversations d1 @ [conv]\<rparr>
                         in case andThen (createConversationAncestry d2 (li_ActualGroupID li) (cr_ConvID req) (li_SourceConv li)
                                            (cr_ForkedAtEntryID req) (li_AnchorOwnerDepth li))
                                   (\<lambda>d3. if root then insertMemberships d3 (initialMemberships li now) else Inr d3) of
                              Inl err \<Rightarrow> (d, Inl err)
                            | Inr d4 \<Rightarrow> (d4, Inr (createdResult req li now)))"

definition createConversationWithID ::
  "db \<Rightarrow> enc \<Rightarrow> uuid \<Rightarrow> time \<Rightarrow> CreateRequest \<Rightarrow> db \<times> CreateConversationResult result" where
  "createConversationWithID d s_enc groupID now req =
     (case resolveLineage d req groupID of
        Inl err \<Rightarrow> (d, Inl err)
      | Inr li \<Rightarrow>
          (case findConversation d (cr_ConvID req) of
             Some existing \<Rightarrow> (d, existingConversationResult d s_enc req li existing)
           | None \<Rightarrow> insertConversation d s_enc req li now))"

definition CreateConversation ::
  "db \<Rightarrow> enc \<Rightarrow> uuid \<Rightarrow> uuid \<Rightarrow> time \<Rightarrow> CreateRequest \<Rightarrow> db \<times> ConversationSummary result" where
  "CreateConversation d s_enc convID groupID now req =
     (let (d', r) = createConversationWithID d s_enc groupID now
                      (req\<lparr>cr_ConvID := convID, cr_StartedByConversationID := None, cr_StartedByEntryID := None\<rparr>)
      in (d', andThen r (\<lambda>result. Inr (res_Conversation result))))"

section \<open>Reading and updating\<close>

definition conversationDetail :: "Conversation \<Rightarrow> string \<Rightarrow> AccessLevel \<Rightarrow> ConversationSummary" where
  "conversationDetail conv title access =
     \<lparr>cs_ID = c_ID conv, cs_Title = title, cs_OwnerUserID = c_OwnerUserID conv, cs_ClientID = c_ClientID conv,
      cs_AgentID = c_AgentID conv, cs_Metadata = c_Metadata conv,
      cs_ConversationGroupID = c_ConversationGroupID conv, cs_ForkedAtEntryID = c_ForkedAtEntryID conv,
      cs_ForkedAtConversationID = c_ForkedAtConversationID conv,
      cs_StartedByConversationID = c_StartedByConversationID conv,
      cs_StartedByEntryID = c_StartedByEntryID conv, cs_CreatedAt = c_CreatedAt conv,
      cs_UpdatedAt = c_UpdatedAt conv, cs_ArchivedAt = c_ArchivedAt conv, cs_AccessLevel = access\<rparr>"

definition GetConversation :: "db \<Rightarrow> enc \<Rightarrow> string \<Rightarrow> string \<Rightarrow> ConversationSummary result" where
  "GetConversation d s_enc userID conversationID =
     (case findConversation d conversationID of
        None \<Rightarrow> Inl (NotFoundError ''conversation'' conversationID)
      | Some row \<Rightarrow>
          andThen (requireAccess d userID (c_ConversationGroupID row) AccessLevelReader) (\<lambda>access.
          let conv = hydrateConversationFork d row
          in andThen (decryptConversationTitle s_enc (c_ID conv) (c_Title conv)) (\<lambda>title.
             Inr (conversationDetail conv title access))))"

text \<open>SQLite's \<open>json_patch\<close>, the merge patch of RFC 7396.\<close>

fun json_members :: "json \<Rightarrow> json_object" where
  "json_members (JObject kvs) = kvs"
| "json_members _ = []"

function json_patch :: "json \<Rightarrow> json \<Rightarrow> json" where
  "json_patch target (JObject ps) =
     JObject (foldl (\<lambda>t p. if snd p = JNull then removeKey (fst p) t
                         else setKey (fst p) (json_patch (case map_of t (fst p) of None \<Rightarrow> JNull | Some x \<Rightarrow> x) (snd p)) t)
                (json_members target) ps)"
| "json_patch target JNull = JNull"
| "json_patch target (JBool b) = JBool b"
| "json_patch target (JNumber n) = JNumber n"
| "json_patch target (JString x) = JString x"
| "json_patch target (JIdentity x) = JIdentity x"
| "json_patch target (JArray xs) = JArray xs"
  by pat_completeness auto
termination
  by (relation "measure (\<lambda>(_, p). size p)") (auto simp: less_Suc_eq_le intro!: size_list_estimation')

text \<open>One key of the patch: delete the top-level value, then insert the replacement unless it is null.\<close>

definition patchKey :: "json \<Rightarrow> string \<times> json \<Rightarrow> json" where
  "patchKey expr kv =
     (if snd kv = JNull then json_patch expr (JObject [(fst kv, JNull)])
      else json_patch (json_patch expr (JObject [(fst kv, JNull)])) (JObject [kv]))"

definition patchMetadata :: "json_object \<Rightarrow> json_object \<Rightarrow> json_object" where
  "patchMetadata current metadata =
     json_members (foldl patchKey (JObject current) (sort_key fst metadata))"

definition UpdateConversation ::
  "db \<Rightarrow> enc \<Rightarrow> time \<Rightarrow> string \<Rightarrow> string \<Rightarrow> string option \<Rightarrow> json_object \<Rightarrow> (db \<times> ConversationSummary) result" where
  "UpdateConversation d s_enc now userID conversationID title metadata =
     (case findConversation d conversationID of
        None \<Rightarrow> Inl (NotFoundError ''conversation'' conversationID)
      | Some conv \<Rightarrow>
          andThen (requireAccess d userID (c_ConversationGroupID conv) AccessLevelWriter) (\<lambda>_.
          if title = None \<and> metadata = []
          then andThen (GetConversation d s_enc userID conversationID) (\<lambda>r. Inr (d, r))
          else
            andThen (case title of
                       None \<Rightarrow> Inr (c_Title conv)
                     | Some t \<Rightarrow> andThen (encryptConversationTitle s_enc conversationID t) (\<lambda>e. Inr (Some e))) (\<lambda>newTitle.
            let d' = d\<lparr>db_conversations :=
                         update_where (\<lambda>c. c_ID c = c_ID conv)
                           (\<lambda>c. c\<lparr>c_UpdatedAt := now, c_Title := newTitle,
                                   c_Metadata := patchMetadata (c_Metadata c) metadata\<rparr>)
                           (db_conversations d)\<rparr>
            in andThen (GetConversation d' s_enc userID conversationID) (\<lambda>r. Inr (d', r)))))"

section \<open>Archiving\<close>

text \<open>
  An update of a conversation row through its model also stamps \<open>updated_at\<close>, as GORM documents for a field
  of that name.
\<close>

definition setGroupArchived :: "uuid \<Rightarrow> time option \<Rightarrow> db \<Rightarrow> db" where
  "setGroupArchived groupID archivedAt d =
     d\<lparr>db_groups := update_where (\<lambda>g. g_ID g = groupID) (\<lambda>g. g\<lparr>g_ArchivedAt := archivedAt\<rparr>) (db_groups d)\<rparr>"

definition archiveConversations :: "uuid \<Rightarrow> time \<Rightarrow> db \<Rightarrow> db" where
  "archiveConversations groupID now d =
     d\<lparr>db_conversations :=
         update_where (\<lambda>c. c_ConversationGroupID c = groupID \<and> c_ArchivedAt c = None)
           (\<lambda>c. c\<lparr>c_ArchivedAt := Some now, c_UpdatedAt := now\<rparr>) (db_conversations d)\<rparr>"

definition unarchiveConversations :: "uuid \<Rightarrow> time \<Rightarrow> db \<Rightarrow> db" where
  "unarchiveConversations groupID now d =
     d\<lparr>db_conversations :=
         update_where (\<lambda>c. c_ConversationGroupID c = groupID \<and> c_ArchivedAt c \<noteq> None)
           (\<lambda>c. c\<lparr>c_ArchivedAt := None, c_UpdatedAt := now\<rparr>) (db_conversations d)\<rparr>"

definition ArchiveConversation :: "db \<Rightarrow> time \<Rightarrow> string \<Rightarrow> string \<Rightarrow> db result" where
  "ArchiveConversation d now userID conversationID =
     (case findActiveConversation d conversationID of
        None \<Rightarrow> Inl (NotFoundError ''conversation'' conversationID)
      | Some conv \<Rightarrow>
          andThen (requireAccess d userID (c_ConversationGroupID conv) AccessLevelOwner) (\<lambda>_.
          let groupID = c_ConversationGroupID conv
          in Inr (archiveConversations groupID now (setGroupArchived groupID (Some now) d))))"

record ArchiveConversationResult =
  ar_ConversationGroupID :: uuid
  ar_Changed :: bool

definition ArchiveConversationIfNeeded ::
  "db \<Rightarrow> time \<Rightarrow> string \<Rightarrow> string \<Rightarrow> (db \<times> ArchiveConversationResult) result" where
  "ArchiveConversationIfNeeded d now userID conversationID =
     (case findConversation d conversationID of
        None \<Rightarrow> Inl (NotFoundError ''conversation'' conversationID)
      | Some conv \<Rightarrow>
          andThen (requireAccess d userID (c_ConversationGroupID conv) AccessLevelOwner) (\<lambda>_.
          let groupID = c_ConversationGroupID conv;
              active = (\<lambda>g. g_ID g = groupID \<and> g_ArchivedAt g = None);
              changed = (\<exists>g \<in> set (db_groups d). active g);
              d1 = d\<lparr>db_groups := update_where active (\<lambda>g. g\<lparr>g_ArchivedAt := Some now\<rparr>) (db_groups d)\<rparr>;
              result = \<lparr>ar_ConversationGroupID = groupID, ar_Changed = changed\<rparr>
          in if \<not> changed then Inr (d1, result)
             else Inr (archiveConversations groupID now d1, result)))"

definition UnarchiveConversation :: "db \<Rightarrow> time \<Rightarrow> string \<Rightarrow> string \<Rightarrow> db result" where
  "UnarchiveConversation d now userID conversationID =
     (case List.find (\<lambda>c. c_ID c = conversationID \<and> c_ArchivedAt c \<noteq> None) (db_conversations d) of
        None \<Rightarrow> Inl (NotFoundError ''conversation'' conversationID)
      | Some conv \<Rightarrow>
          andThen (requireAccess d userID (c_ConversationGroupID conv) AccessLevelOwner) (\<lambda>_.
          let groupID = c_ConversationGroupID conv
          in Inr (unarchiveConversations groupID now (setGroupArchived groupID None d))))"

definition UnarchiveConversationIfNeeded ::
  "db \<Rightarrow> time \<Rightarrow> string \<Rightarrow> string \<Rightarrow> (db \<times> ArchiveConversationResult) result" where
  "UnarchiveConversationIfNeeded d now userID conversationID =
     (case findConversation d conversationID of
        None \<Rightarrow> Inl (NotFoundError ''conversation'' conversationID)
      | Some conv \<Rightarrow>
          andThen (requireAccess d userID (c_ConversationGroupID conv) AccessLevelOwner) (\<lambda>_.
          let groupID = c_ConversationGroupID conv;
              archived = (\<lambda>g. g_ID g = groupID \<and> g_ArchivedAt g \<noteq> None);
              changed = (\<exists>g \<in> set (db_groups d). archived g);
              d1 = d\<lparr>db_groups := update_where archived (\<lambda>g. g\<lparr>g_ArchivedAt := None\<rparr>) (db_groups d)\<rparr>
          in Inr (unarchiveConversations groupID now d1,
                  \<lparr>ar_ConversationGroupID = groupID, ar_Changed = changed\<rparr>)))"

end
