(* ===== verification/Creation.thy ===== *)
theory Creation
  imports Conversations
begin

text \<open>
  Correctness of conversation creation: the store invariant \<open>storeOK\<close> (ancestry, group references and
  the archive flag shared by a group), the view a new conversation starts with, and idempotent retry.
\<close>

section \<open>The store invariant\<close>

definition isGroup :: "db \<Rightarrow> uuid \<Rightarrow> bool" where
  "isGroup d g \<longleftrightarrow> g \<in> g_ID ` set (db_groups d)"

definition groupRefsOK :: "db \<Rightarrow> bool" where
  "groupRefsOK d \<longleftrightarrow>
     (\<forall>c \<in> set (db_conversations d). isGroup d (c_ConversationGroupID c))
     \<and> (\<forall>m \<in> set (db_memberships d). isGroup d (m_ConversationGroupID m))
     \<and> (\<forall>t \<in> set (db_transfers d). isGroup d (t_ConversationGroupID t))"

text \<open>The conversations of a group are archived exactly when the group is.\<close>

definition archiveOK :: "db \<Rightarrow> bool" where
  "archiveOK d \<longleftrightarrow>
     (\<forall>c \<in> set (db_conversations d). \<forall>g \<in> set (db_groups d).
        g_ID g = c_ConversationGroupID c \<longrightarrow> (c_ArchivedAt c = None) = (g_ArchivedAt g = None))"

definition storeOK :: "db \<Rightarrow> bool" where
  "storeOK d \<longleftrightarrow> ancestryOK d \<and> groupRefsOK d \<and> archiveOK d"

lemma storeOK_D: "storeOK d \<Longrightarrow> ancestryOK d" "storeOK d \<Longrightarrow> groupRefsOK d" "storeOK d \<Longrightarrow> archiveOK d"
    "storeOK d \<Longrightarrow> keysOK d"
  by (auto simp: storeOK_def ancestryOK_def)

lemma storeOK_empty: "storeOK emptyDB"
  by (simp add: storeOK_def ancestryOK_def emptyDB_def keysOK_def referencesOK_def selfRowsOK_def
      boundariesOK_def groupRefsOK_def archiveOK_def)

section \<open>Lookups\<close>

lemma findConversation_Some: "findConversation d i = Some c \<Longrightarrow> c \<in> set (db_conversations d) \<and> c_ID c = i"
  unfolding findConversation_def by (drule find_Some_set) simp

lemma findActive_Some:
  "findActiveConversation d i = Some c \<Longrightarrow> c \<in> set (db_conversations d) \<and> c_ID c = i \<and> c_ArchivedAt c = None"
  unfolding findActiveConversation_def by (drule find_Some_set) simp

lemma findConversation_None: "findConversation d i = None \<longleftrightarrow> i \<notin> c_ID ` set (db_conversations d)"
  by (force simp: findConversation_def find_None_iff)

lemma find_append_None: "List.find P xs = None \<Longrightarrow> List.find P (xs @ ys) = List.find P ys"
  by (induction xs) (auto split: if_splits)

lemma find_append_Some: "List.find P xs = Some x \<Longrightarrow> List.find P (xs @ ys) = Some x"
  by (induction xs) (auto split: if_splits)

section \<open>A successful creation\<close>

text \<open>The database after the group and the conversation row have been inserted.\<close>

definition withConversation :: "db \<Rightarrow> CreateRequest \<Rightarrow> Lineage \<Rightarrow> string \<Rightarrow> time \<Rightarrow> db" where
  "withConversation d req li encTitle now =
     (let d1 = (if cr_ForkedAtConversationID req = None
                then d\<lparr>db_groups := db_groups d @ [\<lparr>g_ID = li_ActualGroupID li, g_CreatedAt = now, g_ArchivedAt = None\<rparr>]\<rparr>
                else d)
      in d1\<lparr>db_conversations := db_conversations d1 @ [newConversation req li encTitle now]\<rparr>)"

lemma created_cases:
  assumes "createConversationWithID d s_enc gid now req = (d', Inr r)" and "\<not> res_ExactRetry r"
  obtains li encTitle d3 where
    "resolveLineage d req gid = Inr li"
    "findConversation d (cr_ConvID req) = None"
    "cr_ForkedAtConversationID req = None \<longrightarrow> \<not> isGroup d (li_ActualGroupID li)"
    "encryptConversationTitle s_enc (cr_ConvID req) (cr_Title req) = Inr encTitle"
    "createConversationAncestry (withConversation d req li encTitle now) (li_ActualGroupID li) (cr_ConvID req)
       (li_SourceConv li) (cr_ForkedAtEntryID req) (li_AnchorOwnerDepth li) = Inr d3"
    "(if cr_ForkedAtConversationID req = None then insertMemberships d3 (initialMemberships li now) else Inr d3) = Inr d'"
    "r = createdResult req li now"
proof -
  have ex: "res_ExactRetry x" if "existingConversationResult d s_enc req li c = Inr x" for d li c x
    using that by (auto simp: existingConversationResult_def andThen_eq_Inr Let_def split: if_splits)
  obtain li where li: "resolveLineage d req gid = Inr li"
    using assms by (cases "resolveLineage d req gid") (auto simp: createConversationWithID_def)
  have none: "findConversation d (cr_ConvID req) = None"
    using assms li ex by (cases "findConversation d (cr_ConvID req)") (auto simp: createConversationWithID_def)
  then have none': "findConversation (d\<lparr>db_groups := gs\<rparr>) (cr_ConvID req) = None" for gs
    by (simp add: findConversation_def)
  from assms li none have ins: "insertConversation d s_enc req li now = (d', Inr r)"
    by (simp add: createConversationWithID_def)
  have group: "cr_ForkedAtConversationID req = None \<longrightarrow> \<not> isGroup d (li_ActualGroupID li)"
    using ins by (auto simp: insertConversation_def isGroup_def split: if_splits)
  obtain encTitle where enc: "encryptConversationTitle s_enc (cr_ConvID req) (cr_Title req) = Inr encTitle"
    using ins by (auto simp: insertConversation_def Let_def split: if_splits sum.splits)
  have "andThen (createConversationAncestry (withConversation d req li encTitle now) (li_ActualGroupID li) (cr_ConvID req)
       (li_SourceConv li) (cr_ForkedAtEntryID req) (li_AnchorOwnerDepth li))
     (\<lambda>d3. if cr_ForkedAtConversationID req = None then insertMemberships d3 (initialMemberships li now) else Inr d3) = Inr d'
     \<and> r = createdResult req li now"
    using ins enc none none' by (auto simp: insertConversation_def withConversation_def Let_def split: if_splits sum.splits)
  then show thesis using that[OF li none group enc] by (auto simp: andThen_eq_Inr)
qed

lemma resolveFork_D:
  assumes "resolveFork d req p = Inr li"
  obtains parent access where "findActiveConversation d p = Some parent"
    "requireAccess d (cr_UserID req) (c_ConversationGroupID parent) AccessLevelReader = Inr access"
    "forkAnchorDepth d (cr_ClientID req) parent (cr_ForkedAtEntryID req) = Inr (li_AnchorOwnerDepth li)"
    "li_ActualGroupID li = c_ConversationGroupID parent" "li_SourceConv li = Some parent"
    "li_OwnerUserID li = cr_UserID req" "li_CallerAccessLevel li = AccessLevelOwner"
    "li_StartedByConversationID li = c_StartedByConversationID (hydrateConversationLineage d parent)"
    "li_StartedByEntryID li = c_StartedByEntryID (hydrateConversationLineage d parent)"
  using assms by (auto simp: resolveFork_def andThen_eq_Inr Let_def split: option.splits)

lemma resolveLineage_root:
  assumes "resolveLineage d req gid = Inr li" and "cr_ForkedAtConversationID req = None"
  shows "li_ActualGroupID li = gid" "li_SourceConv li = None"
  using assms by (auto simp: resolveLineage_def resolveStartedBy_def andThen_eq_Inr split: option.splits if_splits)

lemma resolveLineage_fork:
  assumes "resolveLineage d req gid = Inr li" and "cr_ForkedAtConversationID req = Some p"
  shows "resolveFork d req p = Inr li" and "cr_StartedByConversationID req = None"
  using assms by (auto simp: resolveLineage_def split: if_splits)

lemma forkAnchorDepth_D:
  assumes "forkAnchorDepth d clientID parent (Some a) = Inr depth"
  obtains entry k where "entry \<in> set (db_entries d)" "e_ID entry = a"
    "e_ConversationGroupID entry = c_ConversationGroupID parent"
    "visibleAncestryDepthForEntry d parent entry = Inr (Some k)" "depth = Some k"
    "e_Channel entry = ChannelHistory \<or> e_Channel entry = ChannelJournal \<and> e_ClientID entry = Some clientID"
  using assms
  by (auto simp: forkAnchorDepth_def andThen_eq_Inr dest!: find_Some_set split: option.splits if_splits)

lemma lineage_anchorOK:
  assumes "storeOK d" and "resolveLineage d req gid = Inr li"
  shows "anchorOK d (li_ActualGroupID li) (li_SourceConv li) (cr_ForkedAtEntryID req) (li_AnchorOwnerDepth li)"
proof (cases "cr_ForkedAtConversationID req")
  case None
  then show ?thesis using resolveLineage_root[OF assms(2) None] by (simp add: anchorOK_def)
next
  case (Some p)
  then obtain parent where parent: "findActiveConversation d p = Some parent"
      "forkAnchorDepth d (cr_ClientID req) parent (cr_ForkedAtEntryID req) = Inr (li_AnchorOwnerDepth li)"
      "li_ActualGroupID li = c_ConversationGroupID parent" "li_SourceConv li = Some parent"
    using resolveLineage_fork[OF assms(2) Some] by (auto elim: resolveFork_D)
  have mem: "parent \<in> set (db_conversations d)" using findActive_Some[OF parent(1)] by simp
  show ?thesis
  proof (cases "cr_ForkedAtEntryID req")
    case None
    then show ?thesis using parent mem by (auto simp: anchorOK_def isConversation_def)
  next
    case (Some a)
    with parent(2) obtain entry k where "entry \<in> set (db_entries d)" "e_ID entry = a"
      "e_ConversationGroupID entry = c_ConversationGroupID parent"
      "visibleAncestryDepthForEntry d parent entry = Inr (Some k)" "li_AnchorOwnerDepth li = Some k"
      by (auto elim: forkAnchorDepth_D)
    then show ?thesis
      using anchorOK_lookup[OF storeOK_D(1)[OF assms(1)] mem] parent Some by metis
  qed
qed

lemma withConversation_simps [simp]:
  "db_entries (withConversation d req li t now) = db_entries d"
  "db_ancestry (withConversation d req li t now) = db_ancestry d"
  "db_conversations (withConversation d req li t now) = db_conversations d @ [newConversation req li t now]"
  "db_memberships (withConversation d req li t now) = db_memberships d"
  "db_transfers (withConversation d req li t now) = db_transfers d"
  by (simp_all add: withConversation_def Let_def)

lemma withConversation_groups:
  "db_groups (withConversation d req li t now) =
     (if cr_ForkedAtConversationID req = None
      then db_groups d @ [\<lparr>g_ID = li_ActualGroupID li, g_CreatedAt = now, g_ArchivedAt = None\<rparr>] else db_groups d)"
  by (simp add: withConversation_def Let_def)

lemma newConversation_simps [simp]:
  "c_ID (newConversation req li t now) = cr_ConvID req"
  "c_ConversationGroupID (newConversation req li t now) = li_ActualGroupID li"
  "c_ArchivedAt (newConversation req li t now) = None"
  "c_OwnerUserID (newConversation req li t now) = li_OwnerUserID li"
  "c_StartedByConversationID (newConversation req li t now) = cr_StartedByConversationID req"
  "c_StartedByEntryID (newConversation req li t now) = cr_StartedByEntryID req"
  by (simp_all add: newConversation_def)

lemma withConversation_inserted:
  assumes "keysOK d" and "findConversation d (cr_ConvID req) = None"
    and "cr_ForkedAtConversationID req = None \<longrightarrow> \<not> isGroup d (li_ActualGroupID li)"
  shows "insertedConversation d (withConversation d req li t now) (newConversation req li t now)"
  using assms by (auto simp: insertedConversation_def keysOK_def withConversation_groups findConversation_None isGroup_def)

lemma created_tables:
  assumes "createConversationAncestry d2 g i src a k = Inr d3"
    and "(if isRoot then insertMemberships d3 ms else Inr d3) = Inr d'"
  shows "db_ancestry d' = db_ancestry d3" "db_entries d' = db_entries d2" "db_conversations d' = db_conversations d2"
    "db_groups d' = db_groups d2" "db_transfers d' = db_transfers d2"
    "db_memberships d' = (if isRoot then db_memberships d2 @ ms else db_memberships d2)"
    "isRoot \<Longrightarrow> distinct (map membershipKey (db_memberships d'))"
  using assms(2) createConversationAncestry_rows[OF assms(1)]
  by (auto simp: insertMemberships_def split: if_splits)

lemma ancestryOK_cong:
  assumes "ancestryOK d" and "db_ancestry d' = db_ancestry d" and "db_entries d' = db_entries d"
    and "map (\<lambda>c. (c_ID c, c_ConversationGroupID c)) (db_conversations d')
         = map (\<lambda>c. (c_ID c, c_ConversationGroupID c)) (db_conversations d)" and "keysOK d'"
  shows "ancestryOK d'"
proof -
  have img: "(\<lambda>c. (c_ID c, c_ConversationGroupID c)) ` set (db_conversations d')
           = (\<lambda>c. (c_ID c, c_ConversationGroupID c)) ` set (db_conversations d)"
    using assms(4) by (metis list.set_map)
  have is_img: "isConversation x g i \<longleftrightarrow> (i, g) \<in> (\<lambda>c. (c_ID c, c_ConversationGroupID c)) ` set (db_conversations x)" for x g i
    by (force simp: isConversation_def)
  have self_img: "selfRowsOK x \<longleftrightarrow> (\<forall>p \<in> (\<lambda>c. (c_ID c, c_ConversationGroupID c)) ` set (db_conversations x).
      \<exists>ca \<in> set (db_ancestry x). ca_ConversationGroupID ca = snd p \<and> ca_DescendantConversationID ca = fst p \<and> ca_Depth ca = 0)" for x
    by (simp add: selfRowsOK_def)
  show ?thesis
    using assms(1-3,5) boundaryBefore_cong[OF assms(3)]
    by (auto simp: ancestryOK_def referencesOK_def self_img is_img img boundariesOK_def)
qed

lemma initialMemberships_group: "m \<in> set (initialMemberships li now) \<Longrightarrow> m_ConversationGroupID m = li_ActualGroupID li"
  by (auto simp: initialMemberships_def split: if_splits)

lemma created_ancestryOK:
  assumes inv: "storeOK d" and new: "createConversationWithID d s_enc gid now req = (d', Inr r)" "\<not> res_ExactRetry r"
  shows "ancestryOK d'"
proof -
  from new obtain li t d3 where c:
    "resolveLineage d req gid = Inr li" "findConversation d (cr_ConvID req) = None"
    "cr_ForkedAtConversationID req = None \<longrightarrow> \<not> isGroup d (li_ActualGroupID li)"
    "createConversationAncestry (withConversation d req li t now) (li_ActualGroupID li) (cr_ConvID req)
       (li_SourceConv li) (cr_ForkedAtEntryID req) (li_AnchorOwnerDepth li) = Inr d3"
    "(if cr_ForkedAtConversationID req = None then insertMemberships d3 (initialMemberships li now) else Inr d3) = Inr d'"
    by (rule created_cases)
  note ins = withConversation_inserted[OF storeOK_D(4)[OF inv] c(2,3), of t now]
  have d3: "ancestryOK d3"
    using inserted_ancestryOK[OF ins storeOK_D(1)[OF inv] _ lineage_anchorOK[OF inv c(1)]] c(4) by simp
  have "d' = d3 \<or> d' = d3\<lparr>db_memberships := db_memberships d3 @ initialMemberships li now\<rparr>
      \<and> distinct (map membershipKey (db_memberships d3 @ initialMemberships li now))"
    using c(5) by (simp add: insertMemberships_def split: if_splits)
  then show ?thesis
  proof
    assume d': "d' = d3\<lparr>db_memberships := db_memberships d3 @ initialMemberships li now\<rparr>
      \<and> distinct (map membershipKey (db_memberships d3 @ initialMemberships li now))"
    then have "keysOK d'" using ancestryOK_D(1)[OF d3] by (simp add: keysOK_def)
    with d' show ?thesis by (intro ancestryOK_cong[OF d3]) simp_all
  qed (simp add: d3)
qed

lemma created_storeOK:
  assumes inv: "storeOK d" and new: "createConversationWithID d s_enc gid now req = (d', Inr r)" "\<not> res_ExactRetry r"
  shows "storeOK d'"
proof -
  from new obtain li t d3 where c:
    "resolveLineage d req gid = Inr li" "findConversation d (cr_ConvID req) = None"
    "cr_ForkedAtConversationID req = None \<longrightarrow> \<not> isGroup d (li_ActualGroupID li)"
    "createConversationAncestry (withConversation d req li t now) (li_ActualGroupID li) (cr_ConvID req)
       (li_SourceConv li) (cr_ForkedAtEntryID req) (li_AnchorOwnerDepth li) = Inr d3"
    "(if cr_ForkedAtConversationID req = None then insertMemberships d3 (initialMemberships li now) else Inr d3) = Inr d'"
    by (rule created_cases)
  note tabs = created_tables[OF c(4,5), unfolded withConversation_simps withConversation_groups]
  have grp: "groupRefsOK d'" "archiveOK d'"
  proof (atomize(full), cases "cr_ForkedAtConversationID req")
    case None
    have "g_ID g \<noteq> li_ActualGroupID li" if "g \<in> set (db_groups d)" for g
      using that c(3) None by (metis imageI isGroup_def)
    with None tabs c(3) storeOK_D(2,3)[OF inv] initialMemberships_group[of _ li now]
    show "groupRefsOK d' \<and> archiveOK d'" by (auto simp: groupRefsOK_def archiveOK_def isGroup_def)
  next
    case (Some p)
    then obtain parent where parent: "findActiveConversation d p = Some parent"
        "li_ActualGroupID li = c_ConversationGroupID parent"
      using resolveLineage_fork[OF c(1) Some] by (auto elim: resolveFork_D)
    then have "parent \<in> set (db_conversations d)" "c_ArchivedAt parent = None" using findActive_Some by auto
    with Some tabs parent storeOK_D(2,3)[OF inv]
    show "groupRefsOK d' \<and> archiveOK d'" by (auto simp: groupRefsOK_def archiveOK_def isGroup_def)
  qed
  then show ?thesis using created_ancestryOK[OF assms] by (simp add: storeOK_def)
qed

lemma create_not_new:
  assumes "createConversationWithID d s_enc gid now req = (d', r)" and "\<And>x. r = Inr x \<Longrightarrow> res_ExactRetry x"
  shows "d' = d"
proof (cases "findConversation d (cr_ConvID req)")
  case None
  then have "findConversation (d\<lparr>db_groups := gs\<rparr>) (cr_ConvID req) = None" for gs by (simp add: findConversation_def)
  with None assms show ?thesis
    by (auto simp: createConversationWithID_def insertConversation_def createdResult_def Let_def
        split: sum.splits if_splits)
next
  case (Some c)
  with assms show ?thesis by (auto simp: createConversationWithID_def split: sum.splits)
qed

lemma create_storeOK: "storeOK d \<Longrightarrow> storeOK (fst (createConversationWithID d s_enc gid now req))"
  using created_storeOK create_not_new
  by (metis (no_types, opaque_lifting) prod.collapse)

section \<open>What a new conversation sees\<close>

lemma listVisible_tables:
  assumes "keysOK d" and "keysOK d'" and "db_entries d' = db_entries d" and "db_ancestry d' = db_ancestry d"
  shows "listVisibleEntriesForConversation d' c = listVisibleEntriesForConversation d c"
  using assms by (intro listVisible_cong visibleIn_cong) (simp_all add: ancestryRows_def)

text \<open>The facts about a creation that its views follow from.\<close>

lemma created_view_facts:
  assumes inv: "storeOK d" and new: "createConversationWithID d s_enc gid now req = (d', Inr r)" "\<not> res_ExactRetry r"
  obtains li t d2 d3 where
    "resolveLineage d req gid = Inr li"
    "insertedConversation d d2 (newConversation req li t now)"
    "createConversationAncestry d2 (li_ActualGroupID li) (cr_ConvID req)
       (li_SourceConv li) (cr_ForkedAtEntryID req) (li_AnchorOwnerDepth li) = Inr d3"
    "\<And>c. listVisibleEntriesForConversation d' c = listVisibleEntriesForConversation d3 c"
    "findConversation d' (cr_ConvID req) = Some (newConversation req li t now)"
proof -
  from new obtain li t d3 where c:
    "resolveLineage d req gid = Inr li" "findConversation d (cr_ConvID req) = None"
    "cr_ForkedAtConversationID req = None \<longrightarrow> \<not> isGroup d (li_ActualGroupID li)"
    "createConversationAncestry (withConversation d req li t now) (li_ActualGroupID li) (cr_ConvID req)
       (li_SourceConv li) (cr_ForkedAtEntryID req) (li_AnchorOwnerDepth li) = Inr d3"
    "(if cr_ForkedAtConversationID req = None then insertMemberships d3 (initialMemberships li now) else Inr d3) = Inr d'"
    by (rule created_cases)
  note ins = withConversation_inserted[OF storeOK_D(4)[OF inv] c(2,3), of t now]
  note tabs = created_tables[OF c(4,5), unfolded withConversation_simps]
  have k3: "keysOK d3" using inserted_keysOK[OF ins storeOK_D(1)[OF inv]] c(4) by simp
  have k': "keysOK d'" using created_storeOK[OF assms] by (rule storeOK_D)
  have e3: "db_entries d3 = db_entries d" using createConversationAncestry_rows[OF c(4)] by simp
  have "listVisibleEntriesForConversation d' x = listVisibleEntriesForConversation d3 x" for x
    using listVisible_tables[OF k3 k'] tabs e3 by simp
  moreover have "findConversation d' (cr_ConvID req) = Some (newConversation req li t now)"
    using c(2) tabs(3) by (simp add: findConversation_def find_append_None)
  ultimately show thesis using that[OF c(1) ins c(4)] by blast
qed

text \<open>
  C8 (fork_sees_prefix): a conversation forked at an entry sees exactly the entries its parent saw
  before that entry, in the same order, whatever branch of the ancestry the entry belongs to.
\<close>

theorem fork_sees_prefix:
  assumes "storeOK d" and "createConversationWithID d s_enc gid now req = (d', Inr r)" and "\<not> res_ExactRetry r"
    and "cr_ForkedAtConversationID req = Some p" and "cr_ForkedAtEntryID req = Some a"
  shows "\<exists>parent conv. findActiveConversation d p = Some parent
           \<and> findConversation d' (cr_ConvID req) = Some conv
           \<and> (\<exists>e \<in> set (listVisibleEntriesForConversation d parent). e_ID e = a)
           \<and> listVisibleEntriesForConversation d' conv
             = takeWhile (\<lambda>e. e_ID e \<noteq> a) (listVisibleEntriesForConversation d parent)"
proof -
  note inv = storeOK_D(1)[OF assms(1)]
  obtain li t d2 d3 where c: "resolveLineage d req gid = Inr li"
    "insertedConversation d d2 (newConversation req li t now)"
    "createConversationAncestry d2 (li_ActualGroupID li) (cr_ConvID req)
       (li_SourceConv li) (cr_ForkedAtEntryID req) (li_AnchorOwnerDepth li) = Inr d3"
    "\<And>c. listVisibleEntriesForConversation d' c = listVisibleEntriesForConversation d3 c"
    "findConversation d' (cr_ConvID req) = Some (newConversation req li t now)"
    using created_view_facts[OF assms(1-3)] by metis
  obtain parent where parent: "findActiveConversation d p = Some parent"
      "forkAnchorDepth d (cr_ClientID req) parent (Some a) = Inr (li_AnchorOwnerDepth li)"
      "li_ActualGroupID li = c_ConversationGroupID parent" "li_SourceConv li = Some parent"
    using resolveLineage_fork[OF c(1) assms(4)] assms(5) by (auto elim: resolveFork_D)
  obtain anchor k where anchor: "anchor \<in> set (db_entries d)" "e_ID anchor = a"
      "e_ConversationGroupID anchor = c_ConversationGroupID parent"
      "visibleAncestryDepthForEntry d parent anchor = Inr (Some k)" "li_AnchorOwnerDepth li = Some k"
    using parent(2) by (rule forkAnchorDepth_D)
  have "listVisibleEntriesForConversation d3 (newConversation req li t now)
      = takeWhile (\<lambda>e. e_ID e \<noteq> a) (listVisibleEntriesForConversation d parent)"
    using fork_view[OF c(2) inv _ _ anchor(1,3,4), of d3] c(3) parent(3,4) assms(5) anchor(2,5) by simp
  moreover obtain rr where "visibleAncestryDepthForEntry d parent anchor = Inr rr"
    "\<And>k. rr = Some k \<longleftrightarrow> (\<exists>ca \<in> set (ancestryRows d (c_ConversationGroupID parent) (c_ID parent)).
       ca_AncestorConversationID ca = e_ConversationID anchor \<and> ca_Depth ca = k \<and> rowShows d ca anchor)"
    using visibleAncestryDepthForEntry_correct[OF inv anchor(3)] by blast
  then have "anchor \<in> set (listVisibleEntriesForConversation d parent)"
    using anchor(1,3,4) by (auto simp: listVisible_set[OF ancestryOK_D(1)[OF inv]] visibleIn_rows)
  ultimately show ?thesis using parent(1) c(4,5) anchor(2) by auto
qed

lemma created_isolated:
  assumes "storeOK d" and "conv \<in> set (db_conversations d)"
  shows "listVisibleEntriesForConversation (fst (createConversationWithID d s_enc gid now req)) conv
       = listVisibleEntriesForConversation d conv"
proof -
  obtain d' r where dr: "createConversationWithID d s_enc gid now req = (d', r)" by fastforce
  show ?thesis
  proof (cases "\<exists>x. r = Inr x \<and> \<not> res_ExactRetry x")
    case False
    then have "d' = d" using create_not_new[OF dr] by blast
    then show ?thesis by (simp add: dr)
  next
    case True
    with dr obtain x where x: "createConversationWithID d s_enc gid now req = (d', Inr x)" "\<not> res_ExactRetry x" by auto
    obtain li t d2 d3 where c:
      "insertedConversation d d2 (newConversation req li t now)"
      "createConversationAncestry d2 (li_ActualGroupID li) (cr_ConvID req)
         (li_SourceConv li) (cr_ForkedAtEntryID req) (li_AnchorOwnerDepth li) = Inr d3"
      "\<And>c. listVisibleEntriesForConversation d' c = listVisibleEntriesForConversation d3 c"
      using created_view_facts[OF assms(1) x] by metis
    have "c_ID conv \<noteq> cr_ConvID req"
      using inserted_fresh[OF c(1), of "c_ConversationGroupID conv"] assms(2) by (auto simp: isConversation_def)
    then show ?thesis using other_view[OF c(1) storeOK_D(1)[OF assms(1)], of _ _ _ _ d3 conv] c(2,3) by (simp add: dr)
  qed
qed

text \<open>
  Creating a conversation, successfully or not, changes what no existing
  conversation sees; a new conversation that is not a fork starts empty, and a fork without an anchor
  sees what its parent inherited but nothing the parent wrote itself.
\<close>

theorem create_view_isolation:
  assumes "storeOK d" and "createConversationWithID d s_enc gid now req = (d', r)"
  shows "(conv \<in> set (db_conversations d) \<longrightarrow>
            listVisibleEntriesForConversation d' conv = listVisibleEntriesForConversation d conv)
       \<and> (\<forall>x. r = Inr x \<and> \<not> res_ExactRetry x \<and> cr_ForkedAtEntryID req = None \<longrightarrow>
            (\<exists>new. findConversation d' (cr_ConvID req) = Some new
              \<and> listVisibleEntriesForConversation d' new =
                (case cr_ForkedAtConversationID req of
                   None \<Rightarrow> []
                 | Some p \<Rightarrow> filter (\<lambda>e. e_ConversationID e \<noteq> p)
                              (listVisibleEntriesForConversation d (the (findActiveConversation d p))))))"
proof (cases "\<exists>x. r = Inr x \<and> \<not> res_ExactRetry x")
  case False
  then have "d' = d" using create_not_new[OF assms(2)] by blast
  with False show ?thesis by blast
next
  case True
  note inv = storeOK_D(1)[OF assms(1)]
  from True assms(2) obtain x where x: "createConversationWithID d s_enc gid now req = (d', Inr x)" "\<not> res_ExactRetry x" by auto
  obtain li t d2 d3 where c: "resolveLineage d req gid = Inr li"
    "insertedConversation d d2 (newConversation req li t now)"
    "createConversationAncestry d2 (li_ActualGroupID li) (cr_ConvID req)
       (li_SourceConv li) (cr_ForkedAtEntryID req) (li_AnchorOwnerDepth li) = Inr d3"
    "\<And>c. listVisibleEntriesForConversation d' c = listVisibleEntriesForConversation d3 c"
    "findConversation d' (cr_ConvID req) = Some (newConversation req li t now)"
    using created_view_facts[OF assms(1) x] by metis
  have "listVisibleEntriesForConversation d' conv = listVisibleEntriesForConversation d conv"
    if "conv \<in> set (db_conversations d)"
    using created_isolated[OF assms(1) that] assms(2) by (metis fst_conv)
  moreover have "listVisibleEntriesForConversation d' (newConversation req li t now) =
      (case cr_ForkedAtConversationID req of None \<Rightarrow> []
       | Some p \<Rightarrow> filter (\<lambda>e. e_ConversationID e \<noteq> p)
                    (listVisibleEntriesForConversation d (the (findActiveConversation d p))))"
    if noanchor: "cr_ForkedAtEntryID req = None"
  proof (cases "cr_ForkedAtConversationID req")
    case None
    then show ?thesis using root_view[OF c(2) inv refl] c(3,4) resolveLineage_root[OF c(1) None] by simp
  next
    case (Some p)
    then obtain parent where parent: "findActiveConversation d p = Some parent"
        "li_ActualGroupID li = c_ConversationGroupID parent" "li_SourceConv li = Some parent"
      using resolveLineage_fork[OF c(1) Some] by (auto elim: resolveFork_D)
    then have "c_ID parent = p" using findActive_Some by blast
    then show ?thesis
      using blank_fork_view[OF c(2) inv, of parent "li_AnchorOwnerDepth li" d3] c(3,4) parent noanchor Some by simp
  qed
  ultimately show ?thesis using c(5) by simp
qed

section \<open>Retry\<close>

text \<open>Metadata equal themselves exactly when their numbers are within the limits of the comparison.\<close>

lemma metadataEqual_self:
  assumes "jsonWellFormed (JObject kvs)"
  shows "metadataEqual kvs kvs \<longleftrightarrow> jsonBounded (JObject kvs)"
proof -
  have "jsonSemanticEqual (JObject kvs) (JObject kvs) \<longleftrightarrow> jsonBounded (JObject kvs)"
    using jsonSemanticEqual_same[of "JObject kvs" "JObject kvs"] jsonSame_canonical[OF assms assms] by blast
  then show ?thesis unfolding metadataEqual_def metadataValuesEqual_def by simp
qed

lemma requireAccess_append:
  "requireAccess d u g l = Inr a \<Longrightarrow> db_memberships d' = db_memberships d @ ms \<Longrightarrow> requireAccess d' u g l = Inr a"
  by (auto simp: requireAccess_def find_append_Some split: option.splits)

lemma findActive_append:
  "findActiveConversation d i = Some c \<Longrightarrow> db_conversations d' = db_conversations d @ cs \<Longrightarrow>
   findActiveConversation d' i = Some c"
  by (simp add: findActiveConversation_def find_append_Some)

lemma depthLoop_cong: "db_entries d' = db_entries d \<Longrightarrow> depthLoop d' e rows = depthLoop d e rows"
  by (induction rows) (auto simp: entryOrderKey_def split: option.splits)

lemma depth_append:
  assumes "db_entries d' = db_entries d" and "db_ancestry d' = db_ancestry d @ rows"
    and "\<And>r. r \<in> set rows \<Longrightarrow> ca_DescendantConversationID r \<noteq> c_ID conv"
  shows "visibleAncestryDepthForEntry d' conv e = visibleAncestryDepthForEntry d conv e"
proof -
  have "ancestryRows d' (c_ConversationGroupID conv) (c_ID conv) = ancestryRows d (c_ConversationGroupID conv) (c_ID conv)"
    using assms(2,3) by (auto simp: ancestryRows_def filter_empty_conv)
  then show ?thesis by (simp add: visibleAncestryDepthForEntry_def depthLoop_cong[OF assms(1)])
qed

lemma forkAnchorDepth_append:
  assumes "db_entries d' = db_entries d" and "db_ancestry d' = db_ancestry d @ rows"
    and "\<And>r. r \<in> set rows \<Longrightarrow> ca_DescendantConversationID r \<noteq> c_ID parent"
  shows "forkAnchorDepth d' cl parent a = forkAnchorDepth d cl parent a"
  using assms(1) by (simp add: forkAnchorDepth_def depth_append[OF assms] cong: option.case_cong if_cong)

lemma entryVisible_append:
  assumes "db_entries d' = db_entries d" and "db_ancestry d' = db_ancestry d @ rows"
    and "\<And>r. r \<in> set rows \<Longrightarrow> ca_DescendantConversationID r \<noteq> c_ID conv"
  shows "entryVisibleInConversationAncestry d' conv i = entryVisibleInConversationAncestry d conv i"
  using assms(1) by (simp add: entryVisibleInConversationAncestry_def depth_append[OF assms] cong: option.case_cong)

text \<open>Everything a creation adds to the tables, and the lineage of the same request afterwards.\<close>

lemma retry_lineage:
  assumes inv: "storeOK d" and li: "resolveLineage d req gid = Inr li"
    and conv: "db_conversations d' = db_conversations d @ cs" and mem: "db_memberships d' = db_memberships d @ ms"
    and ent: "db_entries d' = db_entries d" and anc: "db_ancestry d' = db_ancestry d @ rows"
    and fresh: "\<And>r. r \<in> set rows \<Longrightarrow> ca_DescendantConversationID r = i" "i \<notin> c_ID ` set (db_conversations d)"
  shows "\<exists>li'. resolveLineage d' req gid' = Inr li' \<and> li_OwnerUserID li' = li_OwnerUserID li
               \<and> li_CallerAccessLevel li' = li_CallerAccessLevel li"
proof -
  have other: "ca_DescendantConversationID r \<noteq> c_ID c" if "c \<in> set (db_conversations d)" "r \<in> set rows" for c r
    using that fresh by (metis imageI)
  show ?thesis
  proof (cases "cr_ForkedAtConversationID req")
    case (Some p)
    note f = resolveLineage_fork[OF li Some]
    from f(1) obtain parent access where parent: "findActiveConversation d p = Some parent"
        "requireAccess d (cr_UserID req) (c_ConversationGroupID parent) AccessLevelReader = Inr access"
        "forkAnchorDepth d (cr_ClientID req) parent (cr_ForkedAtEntryID req) = Inr (li_AnchorOwnerDepth li)"
        "li_OwnerUserID li = cr_UserID req" "li_CallerAccessLevel li = AccessLevelOwner"
      by (rule resolveFork_D)
    have "parent \<in> set (db_conversations d)" using findActive_Some[OF parent(1)] by simp
    then have "forkAnchorDepth d' (cr_ClientID req) parent (cr_ForkedAtEntryID req) = Inr (li_AnchorOwnerDepth li)"
      using forkAnchorDepth_append[OF ent anc] other parent(3) by metis
    with Some f(2) parent(4,5) findActive_append[OF parent(1) conv] requireAccess_append[OF parent(2) mem] show ?thesis
      by (simp add: resolveLineage_def resolveFork_def Let_def)
  next
    case None
    show ?thesis
    proof (cases "cr_StartedByConversationID req")
      case (Some p)
      with None li obtain parent access where parent: "findActiveConversation d p = Some parent"
          "requireAccess d (cr_UserID req) (c_ConversationGroupID parent) AccessLevelWriter = Inr access"
          "(case cr_StartedByEntryID req of None \<Rightarrow> Inr True
            | Some e \<Rightarrow> entryVisibleInConversationAncestry d parent e) = Inr True"
          "li_OwnerUserID li = c_OwnerUserID parent" "li_CallerAccessLevel li = access"
        by (auto simp: resolveLineage_def resolveStartedBy_def andThen_eq_Inr split: option.splits if_splits)
      have "parent \<in> set (db_conversations d)" using findActive_Some[OF parent(1)] by simp
      then have "entryVisibleInConversationAncestry d' parent e = entryVisibleInConversationAncestry d parent e" for e
        using entryVisible_append[OF ent anc] other by metis
      with None Some parent findActive_append[OF parent(1) conv] requireAccess_append[OF parent(2) mem] show ?thesis
        by (auto simp: resolveLineage_def resolveStartedBy_def split: option.splits)
    next
      case none: None
      with None li show ?thesis by (auto simp: resolveLineage_def)
    qed
  qed
qed

lemma created_owner:
  assumes "resolveLineage d req gid = Inr li" and "cr_StartedByConversationID req = None"
  shows "li_OwnerUserID li = cr_UserID req"
  using assms by (auto simp: resolveLineage_def elim: resolveFork_D split: option.splits)

text \<open>The direct ancestry row of a new conversation restates its request.\<close>

lemma created_directRow:
  assumes inv: "storeOK d" and ins: "insertedConversation d d2 c" and g: "c_ConversationGroupID c = li_ActualGroupID li"
    and li: "resolveLineage d req gid = Inr li"
    and mk: "createConversationAncestry d2 (li_ActualGroupID li) (c_ID c) (li_SourceConv li) (cr_ForkedAtEntryID req) k = Inr d3"
    and anc: "db_ancestry d' = db_ancestry d3"
  shows "case cr_ForkedAtConversationID req of
           None \<Rightarrow> directRow d' c = None
         | Some p \<Rightarrow> \<exists>row. directRow d' c = Some row \<and> ca_AncestorConversationID row = p
                        \<and> ca_ForkedAtEntryID row = cr_ForkedAtEntryID req"
proof -
  let ?g = "li_ActualGroupID li"
  have rows: "set (ancestryRows d' ?g (c_ID c))
      = insert (selfRow ?g (c_ID c)) (forkRow (c_ID c) (cr_ForkedAtEntryID req) k ` set (parentRowsOf d ?g (li_SourceConv li)))"
    using inserted_rows(1)[OF ins storeOK_D(1)[OF inv] mk, of ?g "c_ID c"] anc by (simp add: ancestryRows_def)
  have found: "row \<in> set (ancestryRows d' ?g (c_ID c)) \<and> ca_Depth row = 1" if "directRow d' c = Some row" for row
    using that g unfolding directRow_def by (auto dest!: find_Some_set)
  show ?thesis
  proof (cases "cr_ForkedAtConversationID req")
    case None
    then have "parentRowsOf d ?g (li_SourceConv li) = []"
      using resolveLineage_root[OF li None] by (simp add: parentRowsOf_def)
    with rows found have "directRow d' c = None" by (cases "directRow d' c") auto
    with None show ?thesis by simp
  next
    case (Some p)
    then obtain parent where parent: "findActiveConversation d p = Some parent" "?g = c_ConversationGroupID parent"
        "li_SourceConv li = Some parent"
      using resolveLineage_fork[OF li Some] by (auto elim: resolveFork_D)
    have pm: "parent \<in> set (db_conversations d)" "c_ID parent = p" using findActive_Some[OF parent(1)] by auto
    note old = ancestryOK_D[OF storeOK_D(1)[OF inv]]
    have R: "set (parentRowsOf d ?g (li_SourceConv li)) = set (ancestryRows d ?g p)"
      using parent pm by (simp add: parentRowsOf_def)
    obtain self where self: "self \<in> set (ancestryRows d ?g p)" "ca_Depth self = 0"
      using old(3) pm parent(2) by (force simp: selfRowsOK_def)
    let ?row = "forkRow (c_ID c) (cr_ForkedAtEntryID req) k self"
    have "?row \<in> set (ancestryRows d' ?g (c_ID c))" using rows R self(1) by blast
    then have "directRow d' c \<noteq> None"
      using self(2) g unfolding directRow_def find_None_iff by fastforce
    then obtain row where row: "directRow d' c = Some row" by auto
    with found rows R obtain r where r: "r \<in> set (ancestryRows d ?g p)" "ca_Depth r = 0"
        "row = forkRow (c_ID c) (cr_ForkedAtEntryID req) k r" by fastforce
    have "ca_AncestorConversationID r = p" using r(1,2) old(2) by (auto simp: referencesOK_def)
    moreover have "ca_ForkedAtEntryID row = cr_ForkedAtEntryID req"
      using r(2,3) by (simp add: forkRow_def fromSegment_def parentSegment_def toSegment_def Let_def)
    ultimately show ?thesis using Some row r(3) by simp
  qed
qed

lemma hydrateLineage_fields:
  "\<exists>x y. hydrateConversationLineage d c = c\<lparr>c_StartedByConversationID := x, c_StartedByEntryID := y\<rparr>"
proof (cases "c_StartedByConversationID c = None")
  case True
  show ?thesis
  proof (cases "List.find (\<lambda>x. c_ConversationGroupID x = c_ConversationGroupID c \<and> c_StartedByConversationID x \<noteq> None) (db_conversations d)")
    case None
    with True show ?thesis
      by (intro exI[of _ "c_StartedByConversationID c"] exI[of _ "c_StartedByEntryID c"]) (simp add: hydrateConversationLineage_def)
  next
    case (Some l)
    with True show ?thesis
      by (intro exI[of _ "c_StartedByConversationID l"] exI[of _ "c_StartedByEntryID l"]) (simp add: hydrateConversationLineage_def)
  qed
next
  case False
  then show ?thesis
    by (intro exI[of _ "c_StartedByConversationID c"] exI[of _ "c_StartedByEntryID c"]) (simp add: hydrateConversationLineage_def)
qed

lemma hydrateFork_new:
  assumes "case cr_ForkedAtConversationID req of
             None \<Rightarrow> directRow d c = None
           | Some p \<Rightarrow> \<exists>row. directRow d c = Some row \<and> ca_AncestorConversationID row = p
                          \<and> ca_ForkedAtEntryID row = cr_ForkedAtEntryID req"
  shows "\<exists>x y. hydrateConversationFork d c = c\<lparr>c_ForkedAtConversationID := cr_ForkedAtConversationID req,
           c_ForkedAtEntryID := (if cr_ForkedAtConversationID req = None then None else cr_ForkedAtEntryID req),
           c_StartedByConversationID := x, c_StartedByEntryID := y\<rparr>"
proof -
  have "hydrateConversationFork d c = hydrateConversationLineage d
      (c\<lparr>c_ForkedAtConversationID := cr_ForkedAtConversationID req,
         c_ForkedAtEntryID := (if cr_ForkedAtConversationID req = None then None else cr_ForkedAtEntryID req)\<rparr>)"
    using assms by (auto simp: hydrateConversationFork_def split: option.splits)
  then show ?thesis using hydrateLineage_fields by metis
qed


section \<open>A sample store\<close>

text \<open>One conversation of \<open>alice\<close> with three history entries, and requests to fork it.\<close>

definition historyEntry :: "uuid \<Rightarrow> time \<Rightarrow> Entry" where
  "historyEntry i t =
     \<lparr>e_AppendBatch = None, e_ID = i, e_ConversationID = ''c1'', e_ConversationGroupID = ''g1'',
      e_UserID = Some ''alice'', e_ClientID = None, e_AgentID = None, e_Channel = ChannelHistory, e_Epoch = None,
      e_Seq = None, e_ContentType = ''history'', e_Content = ''[]'', e_IndexedContent = None, e_IndexedAt = None,
      e_CreatedAt = t\<rparr>"

definition rootRequest :: CreateRequest where
  "rootRequest =
     \<lparr>cr_UserID = ''alice'', cr_ClientID = ''app'', cr_ConvID = ''c1'', cr_Title = ''hello'', cr_Metadata = [],
      cr_AgentID = None, cr_ForkedAtConversationID = None, cr_ForkedAtEntryID = None,
      cr_StartedByConversationID = None, cr_StartedByEntryID = None\<rparr>"

definition sampleStore :: db where
  "sampleStore = appendEntriesTo (fst (createConversationWithID emptyDB None ''g1'' 0 rootRequest))
     [historyEntry ''e1'' 1, historyEntry ''e2'' 2, historyEntry ''e3'' 3]"

definition forkRequest :: CreateRequest where
  "forkRequest = rootRequest\<lparr>cr_ConvID := ''c2'', cr_Title := ''fork'', cr_ForkedAtConversationID := Some ''c1'',
                             cr_ForkedAtEntryID := Some ''e2''\<rparr>"

definition sampleFork :: "db \<times> CreateConversationResult result" where
  "sampleFork = createConversationWithID sampleStore None ''g9'' 9 forkRequest"

lemma sampleStore_OK: "storeOK sampleStore"
  by code_simp

lemma sampleFork_created:
  obtains d' r where "createConversationWithID sampleStore None ''g9'' 9 forkRequest = (d', Inr r)" "\<not> res_ExactRetry r"
    "fst sampleFork = d'" "snd sampleFork = Inr r"
proof -
  have "(case snd sampleFork of Inr r \<Rightarrow> \<not> res_ExactRetry r | Inl _ \<Rightarrow> False)" by code_simp
  then obtain r where "snd sampleFork = Inr r" "\<not> res_ExactRetry r" by (cases "snd sampleFork") auto
  then show thesis using that[of "fst sampleFork" r] unfolding sampleFork_def by (metis prod.collapse)
qed

theorem fork_sees_prefix_witness:
  "\<exists>parent conv. findActiveConversation sampleStore ''c1'' = Some parent
      \<and> findConversation (fst sampleFork) ''c2'' = Some conv
      \<and> listVisibleEntriesForConversation (fst sampleFork) conv
        = takeWhile (\<lambda>e. e_ID e \<noteq> ''e2'') (listVisibleEntriesForConversation sampleStore parent)
      \<and> map e_ID (listVisibleEntriesForConversation (fst sampleFork) conv) = [''e1'']"
proof -
  obtain d' r where c: "createConversationWithID sampleStore None ''g9'' 9 forkRequest = (d', Inr r)" "\<not> res_ExactRetry r"
    "fst sampleFork = d'" "snd sampleFork = Inr r" by (rule sampleFork_created)
  have "map e_ID (takeWhile (\<lambda>e. e_ID e \<noteq> ''e2'')
          (listVisibleEntriesForConversation sampleStore (the (findActiveConversation sampleStore ''c1'')))) = [''e1'']"
    by code_simp
  moreover have "cr_ForkedAtConversationID forkRequest = Some ''c1''" "cr_ForkedAtEntryID forkRequest = Some ''e2''"
      "cr_ConvID forkRequest = ''c2''" by (simp_all add: forkRequest_def rootRequest_def)
  ultimately show ?thesis
    using fork_sees_prefix[OF sampleStore_OK c(1,2), of "''c1''" "''e2''"] c(3) by auto
qed

theorem create_view_isolation_witness:
  "\<exists>conv. findActiveConversation sampleStore ''c1'' = Some conv
     \<and> listVisibleEntriesForConversation (fst sampleFork) conv = listVisibleEntriesForConversation sampleStore conv
     \<and> length (listVisibleEntriesForConversation sampleStore conv) = 3"
proof -
  obtain d' r where c: "createConversationWithID sampleStore None ''g9'' 9 forkRequest = (d', Inr r)" "\<not> res_ExactRetry r"
    "fst sampleFork = d'" "snd sampleFork = Inr r" by (rule sampleFork_created)
  have "length (listVisibleEntriesForConversation sampleStore (the (findActiveConversation sampleStore ''c1''))) = 3"
    "findActiveConversation sampleStore ''c1'' \<noteq> None"
    by code_simp+
  then show ?thesis
    using create_view_isolation[OF sampleStore_OK c(1), of "the (findActiveConversation sampleStore ''c1'')"] c(3)
    by (auto dest: findActive_Some)
qed

text \<open>A request for a new conversation that names an entry to fork at.\<close>

definition strayRequest :: CreateRequest where
  "strayRequest = rootRequest\<lparr>cr_ConvID := ''c3'', cr_ForkedAtEntryID := Some ''e2''\<rparr>"


end
