(* ===== verification/Fingerprint.thy ===== *)
theory Fingerprint
  imports Json
begin

text \<open>
  The byte encoding of a JSON value that append fingerprints hash (\<open>writeBatchValue\<close> in
  \<open>internal/registry/store/append_batch.go\<close>): type tags, sorted object keys, canonical numbers. The
  strings are quoted as \<open>encoding/json\<close> quotes them, with HTML characters and the line separators
  U+2028 and U+2029 escaped; decoded strings are valid UTF-8.

  The lemmas show that the encoding is self-delimiting and that two decoded values have the same
  encoding exactly when they are equal up to the order of keys and the spelling of numbers, numbers
  beyond the limits of \<open>normalizeJSONNumber\<close> being compared by their text.
\<close>

section \<open>Quoting\<close>

definition hexDigit :: "nat \<Rightarrow> char" where
  "hexDigit n = (if n < 10 then char_of (48 + n) else char_of (87 + n))"

definition quoteChar :: "char \<Rightarrow> string" where
  "quoteChar c =
     (let n = (of_char c :: nat)
      in if c = CHR 0x22 \<or> c = CHR 0x5C then [CHR 0x5C, c]
         else if n = 8 then [CHR 0x5C, CHR ''b'']
         else if n = 12 then [CHR 0x5C, CHR ''f'']
         else if n = 10 then [CHR 0x5C, CHR ''n'']
         else if n = 13 then [CHR 0x5C, CHR ''r'']
         else if n = 9 then [CHR 0x5C, CHR ''t'']
         else if n < 32 \<or> c = CHR ''<'' \<or> c = CHR ''>'' \<or> c = CHR ''&''
         then [CHR 0x5C, CHR ''u'', CHR ''0'', CHR ''0'', hexDigit (n div 16), hexDigit (n mod 16)]
         else [c])"

fun quoteBody :: "string \<Rightarrow> string" where
  "quoteBody (a # b # c # cs) =
     (if a = CHR 0xE2 \<and> b = CHR 0x80 \<and> (c = CHR 0xA8 \<or> c = CHR 0xA9)
      then [CHR 0x5C, CHR ''u'', CHR ''2'', CHR ''0'', CHR ''2'', if c = CHR 0xA8 then CHR ''8'' else CHR ''9''] @ quoteBody cs
      else quoteChar a @ quoteBody (b # c # cs))"
| "quoteBody [a, b] = quoteChar a @ quoteBody [b]"
| "quoteBody [a] = quoteChar a"
| "quoteBody [] = []"

definition quoteString :: "string \<Rightarrow> string" where
  "quoteString s = CHR 0x22 # quoteBody s @ [CHR 0x22]"

section \<open>Numbers in decimal\<close>

fun showNat :: "nat \<Rightarrow> string" where
  "showNat n = (if n < 10 then [char_of (48 + n)] else showNat (n div 10) @ [char_of (48 + n mod 10)])"

declare showNat.simps [simp del]

definition showInt :: "int \<Rightarrow> string" where
  "showInt i = (if i < 0 then CHR ''-'' # showNat (nat (- i)) else showNat (nat i))"

definition showBool :: "bool \<Rightarrow> string" where
  "showBool b = (if b then ''true'' else ''false'')"

section \<open>The encoding\<close>

fun writeBatchValue :: "json \<Rightarrow> string" where
  "writeBatchValue JNull = ''z''"
| "writeBatchValue (JBool b) = CHR ''b'' # showBool b"
| "writeBatchValue (JIdentity v) = CHR ''a'' # quoteString v"
| "writeBatchValue (JString v) = CHR ''s'' # quoteString v"
| "writeBatchValue (JNumber v) =
     (case normalizeJSONNumber v of
        Some n \<Rightarrow> CHR ''n'' # showBool (nn_negative n) @ CHR '':'' # nn_digits n @ CHR '':'' # showInt (nn_exponent n) @ '';''
      | None \<Rightarrow> CHR ''r'' # v @ '';'')"
| "writeBatchValue (JArray xs) = CHR ''['' # concat (map writeBatchValue xs) @ '']''"
| "writeBatchValue (JObject kvs) =
     CHR ''{'' # concat (map (\<lambda>(key, bytes). CHR ''s'' # quoteString key @ bytes)
                    (sort_key fst (map (\<lambda>(key, v). (key, writeBatchValue v)) kvs))) @ ''}''"

section \<open>Quoting can be undone\<close>

text \<open>The bytes the first token of a quoted body stands for, and the rest.\<close>

definition hexValue :: "char \<Rightarrow> nat" where
  "hexValue c = (if (of_char c :: nat) < 58 then of_char c - 48 else of_char c - 87)"

definition unescape :: "char \<Rightarrow> char" where
  "unescape c = (if c = CHR ''b'' then CHR 0x08 else if c = CHR ''f'' then CHR 0x0C else if c = CHR ''n'' then CHR 0x0A
     else if c = CHR ''r'' then CHR 0x0D else if c = CHR ''t'' then CHR 0x09 else c)"

definition firstToken :: "string \<Rightarrow> string \<times> string" where
  "firstToken s =
     (if hd s \<noteq> CHR 0x5C then ([hd s], tl s)
      else if s ! 1 \<noteq> CHR ''u'' then ([unescape (s ! 1)], drop 2 s)
      else if s ! 2 = CHR ''0'' then ([char_of (16 * hexValue (s ! 4) + hexValue (s ! 5))], drop 6 s)
      else ([CHR 0xE2, CHR 0x80, if s ! 5 = CHR ''8'' then CHR 0xA8 else CHR 0xA9], drop 6 s))"

definition tokenLength :: "string \<Rightarrow> nat" where
  "tokenLength s = (if hd s \<noteq> CHR 0x5C then 1 else if s ! 1 \<noteq> CHR ''u'' then 2 else 6)"

lemma firstToken_append:
  assumes "k \<noteq> []" and "hd k = CHR 0x5C \<longrightarrow> 1 < length k" and "length k = tokenLength k"
  shows "firstToken (k @ r) = (fst (firstToken k), r)"
  using assms by (cases k) (auto simp: firstToken_def tokenLength_def nth_append split: if_splits)

definition escapedChars :: string where
  "escapedChars = [
    CHR 0x00, CHR 0x01, CHR 0x02, CHR 0x03, CHR 0x04, CHR 0x05, CHR 0x06, CHR 0x07, CHR 0x08, CHR 0x09,
    CHR 0x0A, CHR 0x0B, CHR 0x0C, CHR 0x0D, CHR 0x0E, CHR 0x0F, CHR 0x10, CHR 0x11, CHR 0x12, CHR 0x13,
    CHR 0x14, CHR 0x15, CHR 0x16, CHR 0x17, CHR 0x18, CHR 0x19, CHR 0x1A, CHR 0x1B, CHR 0x1C, CHR 0x1D,
    CHR 0x1E, CHR 0x1F, CHR 0x22, CHR 0x26, CHR 0x3C, CHR 0x3E, CHR 0x5C]"

lemma quoteChar_tokens:
  "list_all (\<lambda>c. quoteChar c \<noteq> [] \<and> hd (quoteChar c) = CHR 0x5C \<and> 1 < length (quoteChar c)
     \<and> length (quoteChar c) = tokenLength (quoteChar c) \<and> fst (firstToken (quoteChar c)) = [c]) escapedChars"
  by (simp add: escapedChars_def quoteChar_def hexDigit_def tokenLength_def firstToken_def hexValue_def unescape_def)
     code_simp

lemma controlChars: "map of_char (take 32 escapedChars) = [0..<32 :: nat]"
  by code_simp

lemma not_escaped:
  assumes "c \<notin> set escapedChars"
  shows "quoteChar c = [c]"
proof -
  have "\<not> (of_char c :: nat) < 32"
  proof
    assume "(of_char c :: nat) < 32"
    then have "(of_char c :: nat) \<in> set (map of_char (take 32 escapedChars))" unfolding controlChars by simp
    then have "c \<in> set (take 32 escapedChars)" by auto
    then show False using assms in_set_takeD by metis
  qed
  moreover have "c \<noteq> CHR 0x22" "c \<noteq> CHR 0x5C" "c \<noteq> CHR ''<''" "c \<noteq> CHR ''>''" "c \<noteq> CHR ''&''"
    using assms by (auto simp: escapedChars_def)
  ultimately show ?thesis by (auto simp: quoteChar_def Let_def)
qed

lemma firstToken_quoteChar: "firstToken (quoteChar c @ r) = ([c], r)" "quoteChar c \<noteq> []" "hd (quoteChar c) \<noteq> CHR 0x22"
proof -
  have "firstToken (quoteChar c @ r) = ([c], r) \<and> quoteChar c \<noteq> [] \<and> hd (quoteChar c) \<noteq> CHR 0x22"
  proof (cases "c \<in> set escapedChars")
    case True
    have t: "quoteChar c \<noteq> []" "hd (quoteChar c) = CHR 0x5C" "1 < length (quoteChar c)"
      "length (quoteChar c) = tokenLength (quoteChar c)" "fst (firstToken (quoteChar c)) = [c]"
      using bspec[OF quoteChar_tokens[unfolded list_all_iff] True] by blast+
    then show ?thesis using firstToken_append[of "quoteChar c" r] by simp
  next
    case False
    then have "c \<noteq> CHR 0x5C" "c \<noteq> CHR 0x22" by (auto simp: escapedChars_def)
    with not_escaped[OF False] show ?thesis by (simp add: firstToken_def)
  qed
  then show "firstToken (quoteChar c @ r) = ([c], r)" "quoteChar c \<noteq> []" "hd (quoteChar c) \<noteq> CHR 0x22" by blast+
qed

text \<open>A quoted body is a sequence of tokens; each stands for one byte, or for a line separator.\<close>

fun tokenBytes :: "string \<Rightarrow> string" where
  "tokenBytes (a # b # c # cs) =
     (if a = CHR 0xE2 \<and> b = CHR 0x80 \<and> (c = CHR 0xA8 \<or> c = CHR 0xA9) then [a, b, c] else [a])"
| "tokenBytes [] = []"
| "tokenBytes [a] = [a]"
| "tokenBytes [a, b] = [a]"

lemma quoteBody_token:
  assumes "s \<noteq> []"
  obtains tok where "tok \<noteq> []" "hd tok \<noteq> CHR 0x22" "s = tokenBytes s @ drop (length (tokenBytes s)) s"
    "quoteBody s = tok @ quoteBody (drop (length (tokenBytes s)) s)"
    "\<And>r. firstToken (tok @ r) = (tokenBytes s, r)" "tokenBytes s \<noteq> []"
proof (cases s rule: tokenBytes.cases)
  case (1 a b c cs)
  show thesis
  proof (cases "a = CHR 0xE2 \<and> b = CHR 0x80 \<and> (c = CHR 0xA8 \<or> c = CHR 0xA9)")
    case True
    with 1 show thesis
      by (intro that[of "[CHR 0x5C, CHR ''u'', CHR ''2'', CHR ''0'', CHR ''2'', if c = CHR 0xA8 then CHR ''8'' else CHR ''9'']"])
         (auto simp: firstToken_def)
  next
    case False
    with 1 show thesis using firstToken_quoteChar[of a] by (intro that[of "quoteChar a"]) auto
  qed
next
  case 2
  with assms show thesis by simp
next
  case (3 a)
  then show thesis using firstToken_quoteChar[of a] by (intro that[of "quoteChar a"]) auto
next
  case (4 a b)
  then show thesis using firstToken_quoteChar[of a] by (intro that[of "quoteChar a"]) auto
qed

lemma quoteBody_inj:
  "quoteBody x @ CHR 0x22 # s = quoteBody y @ CHR 0x22 # t \<Longrightarrow> x = y \<and> s = t"
proof (induction "length x" arbitrary: x y rule: less_induct)
  case less
  show ?case
  proof (cases "x = [] \<or> y = []")
    case True
    have "hd (quoteBody z @ r) \<noteq> CHR 0x22" if "z \<noteq> []" for z r
      using that by (rule quoteBody_token) (metis append_is_Nil_conv hd_append)
    then show ?thesis using less.prems True by (metis append_Nil list.sel(1,3) quoteBody.simps(4))
  next
    case False
    then have ne: "x \<noteq> []" "y \<noteq> []" by auto
    obtain t1 where t1: "x = tokenBytes x @ drop (length (tokenBytes x)) x"
      "quoteBody x = t1 @ quoteBody (drop (length (tokenBytes x)) x)"
      "\<And>r. firstToken (t1 @ r) = (tokenBytes x, r)" "tokenBytes x \<noteq> []" using quoteBody_token[OF ne(1)] by metis
    obtain t2 where t2: "y = tokenBytes y @ drop (length (tokenBytes y)) y"
      "quoteBody y = t2 @ quoteBody (drop (length (tokenBytes y)) y)"
      "\<And>r. firstToken (t2 @ r) = (tokenBytes y, r)" using quoteBody_token[OF ne(2)] by metis
    let ?x = "drop (length (tokenBytes x)) x" and ?y = "drop (length (tokenBytes y)) y"
    have "firstToken (t1 @ quoteBody ?x @ CHR 0x22 # s) = firstToken (t2 @ quoteBody ?y @ CHR 0x22 # t)"
      using less.prems t1(2) t2(2) by (metis append.assoc)
    then have eq: "tokenBytes x = tokenBytes y" "quoteBody ?x @ CHR 0x22 # s = quoteBody ?y @ CHR 0x22 # t"
      unfolding t1(3) t2(3) by blast+
    have "length ?x < length x" using ne(1) t1(4) by simp
    from less.hyps[OF this eq(2)] eq(1) t1(1) t2(1) show ?thesis by metis
  qed
qed

lemma quoteString_inj: "quoteString x @ s = quoteString y @ t \<Longrightarrow> x = y \<and> s = t"
  using quoteBody_inj[of x s y t] by (simp add: quoteString_def)

section \<open>Decimal text can be read back\<close>

lemma digit_char: "k < 10 \<Longrightarrow> isDigit (char_of (48 + k)) \<and> digitValue (char_of (48 + k)) = k"
  by (simp add: isDigit_of_char digitValue_def)

lemma showNat_digits: "list_all isDigit (showNat n) \<and> digitsValue (showNat n) = n"
proof (induction n rule: showNat.induct)
  case (1 n)
  show ?case
  proof (cases "n < 10")
    case True
    then show ?thesis using digit_char[of n] by (simp add: digitsValue_def showNat.simps[of n])
  next
    case False
    have "digitsValue (showNat (n div 10) @ [char_of (48 + n mod 10)]) = 10 * (n div 10) + n mod 10"
      using 1 False digit_char[of "n mod 10"] by simp
    then show ?thesis using 1 False digit_char[of "n mod 10"] by (simp add: showNat.simps[of n])
  qed
qed

lemma showNat_inj: "showNat m = showNat n \<Longrightarrow> m = n"
  using showNat_digits by metis

lemma showInt_chars: "c \<in> set (showInt i) \<Longrightarrow> isDigit c \<or> c = CHR ''-''"
  using showNat_digits by (auto simp: showInt_def list_all_iff split: if_splits)

lemma showInt_inj:
  assumes "showInt i = showInt j"
  shows "i = j"
proof -
  have "CHR ''-'' \<notin> set (showNat n)" for n
    using showNat_digits[of n] isDigit_not_special by (auto simp: list_all_iff)
  then have "(i < 0) = (j < 0)" using assms by (auto simp: showInt_def split: if_splits) (metis list.set_intros(1))+
  then show ?thesis
    using assms by (auto simp: showInt_def split: if_splits dest!: showNat_inj)
qed

lemma split_at_mark:
  "c \<notin> set xs \<Longrightarrow> c \<notin> set ys \<Longrightarrow> xs @ c # s = ys @ c # t \<Longrightarrow> xs = ys \<and> s = t"
proof (induction xs arbitrary: ys)
  case Nil
  then show ?case by (cases ys) auto
next
  case (Cons x xs)
  then show ?case by (cases ys) auto
qed

section \<open>The encoding of a canonical value\<close>

fun encodeCanonical :: "canonical \<Rightarrow> string" where
  "encodeCanonical CNull = ''z''"
| "encodeCanonical (CBool b) = CHR ''b'' # showBool b"
| "encodeCanonical (CIdentity v) = CHR ''a'' # quoteString v"
| "encodeCanonical (CString v) = CHR ''s'' # quoteString v"
| "encodeCanonical (CNumber n) =
     CHR ''n'' # showBool (nn_negative n) @ CHR '':'' # nn_digits n @ CHR '':'' # showInt (nn_exponent n) @ '';''"
| "encodeCanonical (CText v) = CHR ''r'' # v @ '';''"
| "encodeCanonical (CArray xs) = CHR ''['' # concat (map encodeCanonical xs) @ '']''"
| "encodeCanonical (CObject kvs) =
     CHR ''{'' # concat (map (\<lambda>(k, v). CHR ''s'' # quoteString k @ encodeCanonical v) kvs) @ ''}''"

fun digitsPlain :: "canonical \<Rightarrow> bool" where
  "digitsPlain (CNumber n) = (CHR '':'' \<notin> set (nn_digits n))"
| "digitsPlain (CText v) = (CHR '';'' \<notin> set v)"
| "digitsPlain (CArray xs) = list_all digitsPlain xs"
| "digitsPlain (CObject kvs) = list_all (\<lambda>(k, v). digitsPlain v) kvs"
| "digitsPlain _ = True"

lemma showBool_inj: "showBool b @ CHR '':'' # s = showBool c @ CHR '':'' # t \<Longrightarrow> b = c \<and> s = t"
  by (auto simp: showBool_def split: if_splits)

lemma showBool_inj': "showBool b @ s = showBool c @ t \<Longrightarrow> b = c \<and> s = t"
  by (auto simp: showBool_def split: if_splits)

lemma encode_number_inj:
  assumes "CHR '':'' \<notin> set (nn_digits m)" and "CHR '':'' \<notin> set (nn_digits n)"
    and "encodeCanonical (CNumber m) @ s = encodeCanonical (CNumber n) @ t"
  shows "m = n \<and> s = t"
proof -
  have semi: "CHR '';'' \<notin> set (showInt i)" for i
    using showInt_chars[of "CHR '';''" i] by (auto simp: isDigit_of_char)
  have "showBool (nn_negative m) @ CHR '':'' # nn_digits m @ CHR '':'' # showInt (nn_exponent m) @ CHR '';'' # s
      = showBool (nn_negative n) @ CHR '':'' # nn_digits n @ CHR '':'' # showInt (nn_exponent n) @ CHR '';'' # t"
    using assms(3) by simp
  then have "nn_negative m = nn_negative n" and "nn_digits m @ CHR '':'' # showInt (nn_exponent m) @ CHR '';'' # s
      = nn_digits n @ CHR '':'' # showInt (nn_exponent n) @ CHR '';'' # t"
    by (blast dest: showBool_inj)+
  moreover from this assms(1,2) have "nn_digits m = nn_digits n"
    and "showInt (nn_exponent m) @ CHR '';'' # s = showInt (nn_exponent n) @ CHR '';'' # t"
    by (blast dest: split_at_mark)+
  moreover from this semi have "nn_exponent m = nn_exponent n" "s = t"
    by (blast dest: split_at_mark showInt_inj)+
  ultimately show ?thesis by simp
qed

lemma encode_head: "encodeCanonical v \<noteq> [] \<and> hd (encodeCanonical v) \<notin> {CHR '']'', CHR ''}''}"
  by (cases v) auto

lemma encode_list_inj:
  assumes "\<And>x y s t. x \<in> set xs \<Longrightarrow> y \<in> set ys \<Longrightarrow> f x @ s = f y @ t \<Longrightarrow> x = y \<and> s = t"
    and "\<And>x. x \<in> set xs \<union> set ys \<Longrightarrow> f x \<noteq> [] \<and> hd (f x) \<noteq> c"
    and "concat (map f xs) @ c # s = concat (map f ys) @ c # t"
  shows "xs = ys \<and> s = t"
  using assms
proof (induction xs arbitrary: ys)
  case Nil
  show ?case
  proof (cases ys)
    case (Cons y ys')
    with Nil(2)[of y] Nil(3) show ?thesis by (cases "f y") auto
  qed (use Nil in simp)
next
  case (Cons x xs)
  show ?case
  proof (cases ys)
    case Nil
    with Cons.prems(2)[of x] Cons.prems(3) show ?thesis by (cases "f x") auto
  next
    case (Cons y ys')
    with Cons.prems(3) have "f x @ concat (map f xs) @ c # s = f y @ concat (map f ys') @ c # t" by simp
    with Cons.prems(1)[of x y] Cons have "x = y" "concat (map f xs) @ c # s = concat (map f ys') @ c # t" by auto
    with Cons.IH[of ys'] Cons.prems(1,2) Cons show ?thesis by auto
  qed
qed

lemma encodeCanonical_inj:
  "digitsPlain v \<Longrightarrow> digitsPlain w \<Longrightarrow> encodeCanonical v @ s = encodeCanonical w @ t \<Longrightarrow> v = w \<and> s = t"
proof (induction v arbitrary: w s t)
  case (CNumber n)
  then show ?case
  proof (cases w)
    case (CNumber m)
    with CNumber.prems encode_number_inj[of n m s t] show ?thesis by (simp del: encodeCanonical.simps)
  qed auto
next
  case (CArray xs)
  show ?case
  proof (cases w)
    case (CArray ys)
    have "xs = ys \<and> s = t"
    proof (rule encode_list_inj)
      show "x = y \<and> s' = t'" if "x \<in> set xs" "y \<in> set ys" "encodeCanonical x @ s' = encodeCanonical y @ t'" for x y s' t'
        using CArray.IH[OF that(1) _ _ that(3)] CArray.prems CArray that by (auto simp: list_all_iff)
      show "encodeCanonical x \<noteq> [] \<and> hd (encodeCanonical x) \<noteq> CHR '']''" for x using encode_head by blast
      show "concat (map encodeCanonical xs) @ CHR '']'' # s = concat (map encodeCanonical ys) @ CHR '']'' # t"
        using CArray.prems CArray by simp
    qed
    with CArray show ?thesis by simp
  qed (use CArray.prems in auto)
next
  case (CObject ks)
  show ?case
  proof (cases w)
    case (CObject ls)
    let ?f = "\<lambda>(k, v). CHR ''s'' # quoteString k @ encodeCanonical v"
    have "ks = ls \<and> s = t"
    proof (rule encode_list_inj)
      show "x = y \<and> s' = t'" if xy: "x \<in> set ks" "y \<in> set ls" "?f x @ s' = ?f y @ t'" for x y s' t'
      proof -
        obtain k v l w where p: "x = (k, v)" "y = (l, w)" by (cases x, cases y) auto
        with xy(3) have "quoteString k @ encodeCanonical v @ s' = quoteString l @ encodeCanonical w @ t'" by simp
        then have "k = l" "encodeCanonical v @ s' = encodeCanonical w @ t'" by (blast dest: quoteString_inj)+
        then show ?thesis
          using CObject.IH[OF xy(1), of v w s' t'] CObject.prems CObject xy(1,2) p by (auto simp: list_all_iff)
      qed
      show "?f x \<noteq> [] \<and> hd (?f x) \<noteq> CHR ''}''" for x by (cases x) simp
      show "concat (map ?f ks) @ CHR ''}'' # s = concat (map ?f ls) @ CHR ''}'' # t"
        using CObject.prems CObject by simp
    qed
    with CObject show ?thesis by simp
  qed (use CObject.prems in auto)
next
  case (CBool b)
  then show ?case by (cases w) (auto dest: showBool_inj')
next
  case (CString x)
  then show ?case by (cases w) (auto dest: quoteString_inj)
next
  case (CIdentity x)
  then show ?case by (cases w) (auto dest: quoteString_inj)
next
  case (CText x)
  then show ?case using split_at_mark[of "CHR '';''" x _ s t] by (cases w) auto
next
  case CNull
  then show ?case by (cases w) auto
qed

lemma insort_key_map_snd:
  "insort_key fst (k, f v) (map (\<lambda>(k, v). (k, f v)) ys) = map (\<lambda>(k, v). (k, f v)) (insort_key fst (k, v) ys)"
  by (induction ys) auto

lemma sort_key_map_snd:
  "sort_key fst (map (\<lambda>(k, v). (k, f v)) xs) = map (\<lambda>(k, v). (k, f v)) (sort_key fst xs)"
  by (induction xs) (auto simp: insort_key_map_snd)

text \<open>A number text has no semicolon, which ends the encoding of a number beyond the limits.\<close>

lemma jsonNumberText_semicolon:
  assumes "jsonNumberText n"
  shows "CHR '';'' \<notin> set n"
proof -
  let ?v = "if n \<noteq> [] \<and> hd n = CHR ''-'' then tl n else n"
  let ?P = "\<lambda>c. \<not> (c = CHR ''e'' \<or> c = CHR ''E'')" and ?Q = "\<lambda>c. c \<noteq> CHR ''.''"
  let ?m = "takeWhile ?P ?v" and ?x = "dropWhile ?P ?v"
  let ?i = "takeWhile ?Q ?m" and ?f = "dropWhile ?Q ?m"
  let ?sign = "\<lambda>ds. if ds \<noteq> [] \<and> (hd ds = CHR ''+'' \<or> hd ds = CHR ''-'') then tl ds else ds"
  have semi: "CHR '';'' \<notin> set ds" if "list_all isDigit ds" for ds
    using that by (auto simp: list_all_iff isDigit_of_char)
  have j: "list_all isDigit ?i" "?f \<noteq> [] \<Longrightarrow> list_all isDigit (tl ?f)" "?x \<noteq> [] \<Longrightarrow> list_all isDigit (?sign (tl ?x))"
    using assms unfolding jsonNumberText_def Let_def by blast+
  have f: "CHR '';'' \<notin> set ?f"
  proof (cases ?f)
    case (Cons c cs)
    then have "c = CHR ''.''" using hd_dropWhile[of ?Q ?m] by simp
    moreover have "?f \<noteq> []" and "tl ?f = cs" by (simp_all only: Cons list.sel list.distinct not_False_eq_True)
    then have "CHR '';'' \<notin> set cs" using semi[OF j(2)] by metis
    ultimately show ?thesis using Cons by auto
  qed (simp only: list.set empty_iff not_False_eq_True)
  have x: "CHR '';'' \<notin> set ?x"
  proof (cases ?x)
    case (Cons c cs)
    then have c: "c = CHR ''e'' \<or> c = CHR ''E''" using hd_dropWhile[of ?P ?v] by simp
    have "?x \<noteq> []" and "tl ?x = cs" by (simp_all only: Cons list.sel list.distinct not_False_eq_True)
    then have "CHR '';'' \<notin> set (?sign cs)" using semi[OF j(3)] by metis
    then have "CHR '';'' \<notin> set cs" by (cases cs) (auto split: if_splits)
    then show ?thesis using Cons c by auto
  qed (simp only: list.set empty_iff not_False_eq_True)
  have "set ?v = set ?i \<union> set ?f \<union> set ?x" by (metis set_append takeWhile_dropWhile_id)
  then have "CHR '';'' \<notin> set ?v" using semi[OF j(1)] f x by blast
  then show ?thesis by (cases n) (auto split: if_splits)
qed

lemma canonical_digitsPlain: "jsonWellFormed v \<Longrightarrow> digitsPlain (canonicalJSON v)"
proof (induction v)
  case (JNumber n)
  show ?case
  proof (cases "normalizeJSONNumber n")
    case (Some m)
    have "list_all isDigit (nn_digits m)"
      using normalizeJSONNumber_canonical[OF Some] by (auto simp: canonicalNumber_def isDigit_of_char)
    then show ?thesis using Some by (auto simp: list_all_iff isDigit_of_char)
  next
    case None
    then show ?thesis using JNumber jsonNumberText_semicolon by simp
  qed
qed (force simp: list_all_iff)+

lemma writeBatchValue_canonical: "writeBatchValue v = encodeCanonical (canonicalJSON v)"
proof (induction v)
  case (JNumber n)
  then show ?case by (cases "normalizeJSONNumber n") simp_all
next
  case (JArray xs)
  then have "map writeBatchValue xs = map encodeCanonical (map canonicalJSON xs)" by auto
  then show ?case by (simp only: writeBatchValue.simps canonicalJSON.simps encodeCanonical.simps)
next
  case (JObject kvs)
  then have "(\<lambda>(key, bytes). CHR ''s'' # quoteString key @ bytes) ((\<lambda>(key, v). (key, writeBatchValue v)) p)
      = (\<lambda>(k, v). CHR ''s'' # quoteString k @ encodeCanonical v) ((\<lambda>(k, v). (k, canonicalJSON v)) p)"
    if "p \<in> set (sort_key fst kvs)" for p
    using that by (cases p) force
  then show ?case
    unfolding writeBatchValue.simps canonicalJSON.simps encodeCanonical.simps sort_key_map_snd map_map comp_def
    by (metis (no_types, lifting) map_cong)
qed auto

lemma writeBatchValue_same:
  assumes "jsonWellFormed v" and "jsonWellFormed w"
  shows "writeBatchValue v = writeBatchValue w \<longleftrightarrow> jsonSame v w"
  using encodeCanonical_inj[OF canonical_digitsPlain[OF assms(1)] canonical_digitsPlain[OF assms(2)], of "[]" "[]"]
    writeBatchValue_canonical[of v] writeBatchValue_canonical[of w] jsonSame_canonical[OF assms]
  by auto

text \<open>
  C27 (fingerprint_encoding): the byte encodings of two decoded JSON values are equal exactly when the
  values are equal up to the order of object keys and the spelling of numbers, where numbers beyond the
  limits of \<open>normalizeJSONNumber\<close> (4096 digits, exponent 10000) are compared by their text. This is
  semantic equality exactly when all numbers are within the limits; with a number beyond them the
  encodings can be equal while \<open>jsonSemanticEqual\<close> is false. An encoding is never a proper prefix of another.
\<close>

theorem fingerprint_encoding:
  assumes "jsonWellFormed v" and "jsonWellFormed w"
  shows "(writeBatchValue v = writeBatchValue w) = jsonSame v w
       \<and> jsonSemanticEqual v w = (jsonSame v w \<and> jsonBounded v)
       \<and> (writeBatchValue v @ s = writeBatchValue w @ t \<longrightarrow> s = t)"
proof (intro conjI impI)
  note inj = encodeCanonical_inj[OF canonical_digitsPlain[OF assms(1)] canonical_digitsPlain[OF assms(2)]]
  show "s = t" if "writeBatchValue v @ s = writeBatchValue w @ t"
    using inj[of s t] that by (simp add: writeBatchValue_canonical)
qed (rule writeBatchValue_same[OF assms], rule jsonSemanticEqual_same)

theorem fingerprint_encoding_witness:
  "writeBatchValue sampleObject = writeBatchValue (JObject [(''b'', JArray [JNull, JString ''x'']), (''a'', JNumber ''1'')])
   \<and> writeBatchValue (JNumber ''1e20000'') = writeBatchValue (JNumber ''1e20000'')
   \<and> \<not> jsonSemanticEqual (JNumber ''1e20000'') (JNumber ''1e20000'')
   \<and> writeBatchValue (JNumber ''1e20000'') \<noteq> writeBatchValue (JNumber ''10e19999'')"
proof -
  have wf: "jsonWellFormed sampleObject"
      "jsonWellFormed (JObject [(''b'', JArray [JNull, JString ''x'']), (''a'', JNumber ''1'')])"
      "jsonWellFormed (JNumber ''1e20000'')" "jsonWellFormed (JNumber ''10e19999'')"
    and eq: "jsonSame sampleObject (JObject [(''b'', JArray [JNull, JString ''x'']), (''a'', JNumber ''1'')])"
      "\<not> jsonBounded (JNumber ''1e20000'')" "\<not> jsonSame (JNumber ''1e20000'') (JNumber ''10e19999'')"
    by code_simp+
  show ?thesis using fingerprint_encoding[OF wf(1,2)] fingerprint_encoding[OF wf(3,3)] fingerprint_encoding[OF wf(3,4)] eq by blast
qed

end
