(* ===== verification/Append_Batch.thy ===== *)
theory Append_Batch
  imports Fingerprint Database
begin

text \<open>
  Append requests and the durable batch definition that makes a sequenced append idempotent
  (\<open>internal/registry/store/append_batch.go\<close> and the first half of \<open>entries.go\<close>). A batch stored on its
  first sequenced entry carries the reserved ids and one fingerprint per entry; a retry is matched
  against it. Parameters, collected in the record \<open>Codec\<close>: the JSON decoder (\<open>UseNumber\<close>), \<open>json.Unmarshal\<close>, UUID parsing,
  the store's attachment lookup, SHA-256 in hexadecimal, and the two marshalled structures.
\<close>

section \<open>Requests\<close>

record CreateEntryRequest =
  er_Content :: string
  er_ContentType :: string
  er_Channel :: string
  er_IndexedContent :: "string option"
  er_Seq :: "uint32 option"
  er_Role :: "string option"
  er_UserID :: "string option"
  er_AgentID :: "string option"
  er_ForkedAtConversationID :: "string option"
  er_ForkedAtEntryID :: "uuid option"
  er_StartedByConversationID :: "string option"
  er_StartedByEntryID :: "uuid option"

record SequencedAppendRequest =
  sr_Entries :: "CreateEntryRequest list"
  sr_UserID :: string
  sr_ClientID :: "string option"
  sr_AgentID :: "string option"
  sr_Epoch :: "int option"

text \<open>\<open>strings.ToLower\<close> on ASCII text.\<close>

definition toLowerChar :: "char \<Rightarrow> char" where
  "toLowerChar c = (if CHR ''A'' \<le> c \<and> c \<le> CHR ''Z'' then char_of ((of_char c :: nat) + 32) else c)"

definition ToLower :: "string \<Rightarrow> string" where
  "ToLower s = map toLowerChar s"

definition requestChannel :: "CreateEntryRequest \<Rightarrow> Channel" where
  "requestChannel req = (let ch = ToLower (er_Channel req) in if ch = [] then ChannelHistory else ch)"

definition EpochForChannel :: "Channel \<Rightarrow> int option \<Rightarrow> int option" where
  "EpochForChannel channel requested =
     (if channel \<noteq> ChannelContext then None
      else case requested of Some e \<Rightarrow> Some e | None \<Rightarrow> Some 1)"

fun seenLoop :: "uint32 set \<Rightarrow> CreateEntryRequest list \<Rightarrow> bool" where
  "seenLoop seen [] = True"
| "seenLoop seen (e # es) =
     (case er_Seq e of
        None \<Rightarrow> seenLoop seen es
      | Some s \<Rightarrow> if s \<in> seen then False else seenLoop (insert s seen) es)"

definition DuplicateSequenceConflict :: store_error where
  "DuplicateSequenceConflict = ConflictError ''duplicate seq value in this conversation'' ''duplicate_sequence'' []"

definition ValidateAppendSequences :: "CreateEntryRequest list \<Rightarrow> unit result" where
  "ValidateAppendSequences entries = (if seenLoop {} entries then Inr () else Inl DuplicateSequenceConflict)"

definition ValidateEntryEpochChannels :: "CreateEntryRequest list \<Rightarrow> int option \<Rightarrow> unit result" where
  "ValidateEntryEpochChannels entries epoch =
     (if epoch = None then Inr ()
      else if list_all (\<lambda>e. requestChannel e = ChannelContext) entries then Inr ()
      else Inl (InternalError ''epoch can only be set for context entries''))"

fun anchorFrom :: "nat \<Rightarrow> CreateEntryRequest list \<Rightarrow> nat option" where
  "anchorFrom i [] = None"
| "anchorFrom i (e # es) = (if er_Seq e \<noteq> None then Some i else anchorFrom (Suc i) es)"

text \<open>The index of the first sequenced entry; Go returns -1 where this is \<open>None\<close>.\<close>

definition Anchor :: "SequencedAppendRequest \<Rightarrow> nat option" where
  "Anchor r = anchorFrom 0 (sr_Entries r)"

section \<open>Time allocation\<close>

definition millisecond :: time where "millisecond = 1000000"

definition TruncateMillisecond :: "time \<Rightarrow> time" where
  "TruncateMillisecond t = t - t mod millisecond"

definition NextAppendTime :: "time \<Rightarrow> time \<Rightarrow> time" where
  "NextAppendTime now latest =
     (let now = TruncateMillisecond now
      in if \<not> now > latest then TruncateMillisecond latest + millisecond else now)"

lemma NextAppendTime_after: "latest < NextAppendTime now latest"
proof -
  have "latest mod millisecond < millisecond" by (simp add: millisecond_def)
  then show ?thesis by (simp add: NextAppendTime_def TruncateMillisecond_def Let_def)
qed

section \<open>Batches\<close>

record batchAttachment =
  ba_Block :: nat
  ba_Index :: nat
  ba_ID :: string

record AppendConversationPatch =
  ap_Title :: "string option"
  ap_Metadata :: json_object
  ap_Archived :: "bool option"

record AppendBatch =
  ab_Version :: int
  ab_Request :: SequencedAppendRequest
  ab_IDs :: "uuid list"
  ab_Start :: time
  ab_Fingerprints :: "string list"
  ab_Attachments :: "batchAttachment list list"
  ab_ConversationPatch :: "AppendConversationPatch option"

text \<open>What an entry's fingerprint says besides its content.\<close>

record EntryIdentity =
  id_Entry :: CreateEntryRequest
  id_User :: string
  id_Client :: "string option"
  id_Agent :: "string option"
  id_Epoch :: "int option"

record Codec =
  jc_decode :: "string \<Rightarrow> json option"
  jc_unmarshal :: "string \<Rightarrow> json option"
  jc_parseUUID :: "string \<Rightarrow> uuid option"
  jc_getAttachment :: "string \<Rightarrow> uuid \<Rightarrow> string option result"
  jc_sha256 :: "string \<Rightarrow> string"
  jc_marshalIdentity :: "EntryIdentity \<Rightarrow> string"
  jc_marshalBatch :: "AppendBatch \<Rightarrow> string"
  jc_unmarshalBatch :: "string \<Rightarrow> AppendBatch option"

definition NewAppendBatch :: "uuid list \<Rightarrow> SequencedAppendRequest \<Rightarrow> time \<Rightarrow> AppendBatch" where
  "NewAppendBatch ids r start =
     \<lparr>ab_Version = 2, ab_Request = r, ab_IDs = ids, ab_Start = start, ab_Fingerprints = [], ab_Attachments = [],
      ab_ConversationPatch = None\<rparr>"

text \<open>One attachment reference: its id is replaced by the identity of the stored blob.\<close>

definition identifyRef :: "Codec \<Rightarrow> string \<Rightarrow> json \<Rightarrow> (json \<times> string option) result" where
  "identifyRef co userID item =
     (case item of
        JObject ref \<Rightarrow>
          (case map_of ref ''attachmentId'' of
             Some (JString i) \<Rightarrow>
               (case jc_parseUUID co i of
                  None \<Rightarrow> Inr (item, None)
                | Some parsed \<Rightarrow>
                    andThen (jc_getAttachment co userID parsed) (\<lambda>storageKey.
                      case storageKey of
                        None \<Rightarrow> Inr (item, Some i)
                      | Some key \<Rightarrow> Inr (JObject (setKey ''attachmentId'' (JIdentity key) ref), Some i)))
           | _ \<Rightarrow> Inr (item, None))
      | _ \<Rightarrow> Inr (item, None))"

fun identifyRefs :: "Codec \<Rightarrow> string \<Rightarrow> nat \<Rightarrow> nat \<Rightarrow> json list \<Rightarrow> (json list \<times> batchAttachment list) result" where
  "identifyRefs co userID block index [] = Inr ([], [])"
| "identifyRefs co userID block index (item # items) =
     andThen (identifyRef co userID item) (\<lambda>(item', found).
     andThen (identifyRefs co userID block (Suc index) items) (\<lambda>(items', rest).
       Inr (item' # items',
            (case found of None \<Rightarrow> [] | Some i \<Rightarrow> [\<lparr>ba_Block = block, ba_Index = index, ba_ID = i\<rparr>]) @ rest)))"

fun identifyBlocks :: "Codec \<Rightarrow> string \<Rightarrow> nat \<Rightarrow> json list \<Rightarrow> (json list \<times> batchAttachment list) result" where
  "identifyBlocks co userID block [] = Inr ([], [])"
| "identifyBlocks co userID block (item # items) =
     andThen (case item of
                JObject kvs \<Rightarrow>
                  (case map_of kvs ''attachments'' of
                     Some (JArray refs) \<Rightarrow>
                       andThen (identifyRefs co userID block 0 refs)
                         (\<lambda>(refs', found). Inr (JObject (setKey ''attachments'' (JArray refs') kvs), found))
                   | _ \<Rightarrow> Inr (item, []))
              | _ \<Rightarrow> Inr (item, [])) (\<lambda>(item', found).
     andThen (identifyBlocks co userID (Suc block) items) (\<lambda>(items', rest). Inr (item' # items', found @ rest)))"

definition identifyContent :: "Codec \<Rightarrow> string \<Rightarrow> Channel \<Rightarrow> json \<Rightarrow> (json \<times> batchAttachment list) result" where
  "identifyContent co userID ch value =
     (case (ch = ChannelHistory, value) of
        (True, JArray blocks) \<Rightarrow>
          andThen (identifyBlocks co userID 0 blocks) (\<lambda>(blocks', found). Inr (JArray blocks', found))
      | _ \<Rightarrow> Inr (value, []))"

definition entryIdentity :: "SequencedAppendRequest \<Rightarrow> CreateEntryRequest \<Rightarrow> EntryIdentity" where
  "entryIdentity r req =
     (let ch = requestChannel req
      in \<lparr>id_Entry = req\<lparr>er_Content := [], er_Channel := ch, er_UserID := None, er_AgentID := None\<rparr>,
          id_User = sr_UserID r, id_Client = sr_ClientID r, id_Agent = sr_AgentID r,
          id_Epoch = EpochForChannel ch (sr_Epoch r)\<rparr>)"

definition appendFingerprint ::
  "Codec \<Rightarrow> SequencedAppendRequest \<Rightarrow> CreateEntryRequest \<Rightarrow> (string \<times> batchAttachment list) result" where
  "appendFingerprint co r req =
     (case jc_decode co (er_Content req) of
        None \<Rightarrow> Inl (InternalError ''decode'')
      | Some value \<Rightarrow>
          andThen (identifyContent co (sr_UserID r) (requestChannel req) value) (\<lambda>(value', attachments).
            Inr (jc_sha256 co (jc_marshalIdentity co (entryIdentity r req) @ writeBatchValue value'), attachments)))"

fun fingerprints :: "Codec \<Rightarrow> SequencedAppendRequest \<Rightarrow> CreateEntryRequest list \<Rightarrow> (string \<times> batchAttachment list) list result" where
  "fingerprints co r [] = Inr []"
| "fingerprints co r (req # reqs) =
     andThen (appendFingerprint co r req) (\<lambda>fp.
     andThen (fingerprints co r reqs) (\<lambda>fps. Inr (fp # fps)))"

text \<open>The saved request keeps the sequence numbers only.\<close>

definition emptyEntryRequest :: CreateEntryRequest where
  "emptyEntryRequest =
     \<lparr>er_Content = [], er_ContentType = [], er_Channel = [], er_IndexedContent = None, er_Seq = None, er_Role = None,
      er_UserID = None, er_AgentID = None, er_ForkedAtConversationID = None, er_ForkedAtEntryID = None,
      er_StartedByConversationID = None, er_StartedByEntryID = None\<rparr>"

definition savedBatch :: "AppendBatch \<Rightarrow> (string \<times> batchAttachment list) list \<Rightarrow> AppendBatch" where
  "savedBatch b fps =
     b\<lparr>ab_Request := \<lparr>sr_Entries = map (\<lambda>req. emptyEntryRequest\<lparr>er_Seq := er_Seq req\<rparr>) (sr_Entries (ab_Request b)),
                      sr_UserID = [], sr_ClientID = None, sr_AgentID = None, sr_Epoch = None\<rparr>,
       ab_Fingerprints := map fst fps, ab_Attachments := map snd fps\<rparr>"

definition EncodeAppendBatch :: "Codec \<Rightarrow> AppendBatch \<Rightarrow> string result" where
  "EncodeAppendBatch co b =
     andThen (fingerprints co (ab_Request b) (sr_Entries (ab_Request b)))
       (\<lambda>fps. Inr (jc_marshalBatch co (savedBatch b fps)))"

definition DecodeAppendBatch :: "Codec \<Rightarrow> string \<Rightarrow> AppendBatch result" where
  "DecodeAppendBatch co bytes =
     (case jc_unmarshalBatch co bytes of
        None \<Rightarrow> Inl (InternalError ''decode append batch'')
      | Some b \<Rightarrow>
          if (ab_Version b \<noteq> 1 \<and> ab_Version b \<noteq> 2)
             \<or> length (ab_Fingerprints b) \<noteq> length (ab_IDs b) \<or> length (ab_Attachments b) \<noteq> length (ab_IDs b)
             \<or> length (ab_IDs b) \<noteq> length (sr_Entries (ab_Request b)) \<or> length (ab_IDs b) < 2
             \<or> Anchor (ab_Request b) = None
          then Inl (InternalError ''invalid append batch definition'')
          else Inr b)"

text \<open>The comparison loop stops at the first error or difference.\<close>

fun matchLoop :: "Codec \<Rightarrow> SequencedAppendRequest \<Rightarrow> CreateEntryRequest list \<Rightarrow> string list \<Rightarrow> bool result" where
  "matchLoop co r [] fps = Inr True"
| "matchLoop co r (req # reqs) fps =
     andThen (appendFingerprint co r req) (\<lambda>(fp, _).
       if fps = [] \<or> fp \<noteq> hd fps then Inr False else matchLoop co r reqs (tl fps))"

definition Matches :: "Codec \<Rightarrow> AppendBatch \<Rightarrow> SequencedAppendRequest \<Rightarrow> bool result" where
  "Matches co b r =
     (if length (ab_IDs b) \<noteq> length (sr_Entries r) \<or> Anchor (ab_Request b) \<noteq> Anchor r then Inr False
      else matchLoop co r (sr_Entries r) (ab_Fingerprints b))"

section \<open>What a match means\<close>

lemma setKey_keys: "fst ` set (setKey k v kvs) = insert k (fst ` set kvs)"
  by (induction kvs) auto

lemma setKey_distinct: "distinct (map fst kvs) \<Longrightarrow> distinct (map fst (setKey k v kvs))"
  by (induction kvs) (auto simp: setKey_keys)

lemma setKey_values: "(x, w) \<in> set (setKey k v kvs) \<Longrightarrow> (x, w) = (k, v) \<or> (x, w) \<in> set kvs"
  by (induction kvs) (auto split: if_splits)

lemma setKey_wf: "jsonWellFormed (JObject kvs) \<Longrightarrow> jsonWellFormed v \<Longrightarrow> jsonWellFormed (JObject (setKey k v kvs))"
  by (auto simp: list_all_iff setKey_distinct dest!: setKey_values)

lemma identifyRef_wf: "jsonWellFormed item \<Longrightarrow> identifyRef co u item = Inr (item', f) \<Longrightarrow> jsonWellFormed item'"
  using setKey_wf[of _ "JIdentity _"]
  by (auto simp: identifyRef_def andThen_eq_Inr simp del: jsonWellFormed.simps(3) split: json.splits option.splits)

lemma identifyRefs_wf:
  "list_all jsonWellFormed items \<Longrightarrow> identifyRefs co u b i items = Inr (items', f) \<Longrightarrow> list_all jsonWellFormed items'"
  by (induction items arbitrary: i items' f) (auto simp: andThen_eq_Inr dest: identifyRef_wf)

lemma identifyBlocks_wf:
  "list_all jsonWellFormed items \<Longrightarrow> identifyBlocks co u b items = Inr (items', f) \<Longrightarrow> list_all jsonWellFormed items'"
proof (induction items arbitrary: b items' f)
  case (Cons item items)
  have "jsonWellFormed (JObject (setKey ''attachments'' (JArray refs') kvs))"
    if "jsonWellFormed (JObject kvs)" "map_of kvs ''attachments'' = Some (JArray refs)"
      "identifyRefs co u b 0 refs = Inr (refs', g)" for kvs refs refs' g
  proof (rule setKey_wf[OF that(1)])
    have "jsonWellFormed (JArray refs)" using that(1) map_of_SomeD[OF that(2)] by (auto simp: list_all_iff)
    then show "jsonWellFormed (JArray refs')" using identifyRefs_wf[OF _ that(3)] by simp
  qed
  with Cons show ?case
    by (auto simp: andThen_eq_Inr simp del: jsonWellFormed.simps(3) split: json.splits option.splits)
qed simp

lemma identifyContent_wf: "jsonWellFormed v \<Longrightarrow> identifyContent co u ch v = Inr (v', f) \<Longrightarrow> jsonWellFormed v'"
  by (auto simp: identifyContent_def andThen_eq_Inr dest: identifyBlocks_wf split: json.splits bool.splits)

text \<open>UTF-8 as \<open>utf8.Valid\<close> decides it.\<close>

fun validUTF8 :: "string \<Rightarrow> bool" where
  "validUTF8 [] = True"
| "validUTF8 (a # s) =
     (let n = (of_char a :: nat); tail = (\<lambda>lo hi c. lo \<le> (of_char c :: nat) \<and> (of_char c :: nat) \<le> hi)
      in if n < 128 then validUTF8 s
         else if 194 \<le> n \<and> n \<le> 223 then
           (case s of b # r \<Rightarrow> tail 128 191 b \<and> validUTF8 r | _ \<Rightarrow> False)
         else if 224 \<le> n \<and> n \<le> 239 then
           (case s of b # c # r \<Rightarrow> tail (if n = 224 then 160 else 128) (if n = 237 then 159 else 191) b \<and> tail 128 191 c \<and> validUTF8 r
            | _ \<Rightarrow> False)
         else if 240 \<le> n \<and> n \<le> 244 then
           (case s of b # c # e # r \<Rightarrow> tail (if n = 240 then 144 else 128) (if n = 244 then 143 else 191) b
                \<and> tail 128 191 c \<and> tail 128 191 e \<and> validUTF8 r
            | _ \<Rightarrow> False)
         else False)"

text \<open>The content an entry's fingerprint covers.\<close>

definition identifiedContent :: "Codec \<Rightarrow> SequencedAppendRequest \<Rightarrow> CreateEntryRequest \<Rightarrow> json" where
  "identifiedContent co r req =
     (case jc_decode co (er_Content req) of
        None \<Rightarrow> JNull
      | Some v \<Rightarrow> (case identifyContent co (sr_UserID r) (requestChannel req) v of Inl _ \<Rightarrow> JNull | Inr (v', _) \<Rightarrow> v'))"

definition sameEntry :: "Codec \<Rightarrow> SequencedAppendRequest \<Rightarrow> SequencedAppendRequest \<Rightarrow> CreateEntryRequest \<Rightarrow> CreateEntryRequest \<Rightarrow> bool" where
  "sameEntry co r r' q q' =
     (entryIdentity r q = entryIdentity r' q' \<and> jsonSame (identifiedContent co r q) (identifiedContent co r' q'))"

definition fingerprintInput :: "Codec \<Rightarrow> SequencedAppendRequest \<Rightarrow> CreateEntryRequest \<Rightarrow> string" where
  "fingerprintInput co r q = jc_marshalIdentity co (entryIdentity r q) @ writeBatchValue (identifiedContent co r q)"

text \<open>
  The documented behaviour of the parameters: the decoder yields values of the JSON grammar; the marshalled
  identity determines its fields and is self-delimiting where its strings are valid UTF-8 (others lose
  their invalid bytes) and its content is nil, as it always is; and SHA-256 has no collision among the
  compared inputs.
\<close>

definition decoderOK :: "Codec \<Rightarrow> bool" where
  "decoderOK co \<longleftrightarrow> (\<forall>s v. jc_decode co s = Some v \<longrightarrow> jsonWellFormed v)"

definition identityStrings :: "EntryIdentity \<Rightarrow> string list" where
  "identityStrings x =
     (let e = id_Entry x
      in [er_ContentType e, er_Channel e, id_User x]
         @ concat (map (\<lambda>f. case f of None \<Rightarrow> [] | Some s \<Rightarrow> [s])
             [er_IndexedContent e, er_Role e, er_UserID e, er_AgentID e, er_ForkedAtConversationID e, er_ForkedAtEntryID e,
              er_StartedByConversationID e, er_StartedByEntryID e, id_Client x, id_Agent x]))"

definition plainIdentity :: "EntryIdentity \<Rightarrow> bool" where
  "plainIdentity x \<longleftrightarrow> er_Content (id_Entry x) = [] \<and> list_all validUTF8 (identityStrings x)"

definition identityOK :: "Codec \<Rightarrow> bool" where
  "identityOK co \<longleftrightarrow>
     (\<forall>x y s t. plainIdentity x \<and> plainIdentity y \<and> jc_marshalIdentity co x @ s = jc_marshalIdentity co y @ t \<longrightarrow> x = y \<and> s = t)"

definition requestUTF8 :: "SequencedAppendRequest \<Rightarrow> bool" where
  "requestUTF8 r \<longleftrightarrow> list_all (\<lambda>q. list_all validUTF8 (identityStrings (entryIdentity r q))) (sr_Entries r)"

lemma requestUTF8_plain: "requestUTF8 r \<Longrightarrow> q \<in> set (sr_Entries r) \<Longrightarrow> plainIdentity (entryIdentity r q)"
  by (simp add: requestUTF8_def plainIdentity_def list_all_iff) (simp add: entryIdentity_def Let_def)

definition noCollision :: "Codec \<Rightarrow> SequencedAppendRequest \<Rightarrow> SequencedAppendRequest \<Rightarrow> bool" where
  "noCollision co r r' \<longleftrightarrow>
     (\<forall>q \<in> set (sr_Entries r). \<forall>q' \<in> set (sr_Entries r').
        jc_sha256 co (fingerprintInput co r q) = jc_sha256 co (fingerprintInput co r' q') \<longrightarrow>
        fingerprintInput co r q = fingerprintInput co r' q')"

lemma appendFingerprint_input:
  assumes "appendFingerprint co r q = Inr (fp, att)"
  shows "fp = jc_sha256 co (fingerprintInput co r q)"
  using assms by (auto simp: appendFingerprint_def andThen_eq_Inr fingerprintInput_def identifiedContent_def
      split: option.splits)

lemma identifiedContent_wf: "decoderOK co \<Longrightarrow> jsonWellFormed (identifiedContent co r q)"
  by (auto simp: identifiedContent_def decoderOK_def dest: identifyContent_wf split: option.splits sum.splits)

lemma fingerprint_same:
  assumes "decoderOK co" and "identityOK co" and "noCollision co r r'" and "requestUTF8 r" and "requestUTF8 r'"
    and "q \<in> set (sr_Entries r)" and "q' \<in> set (sr_Entries r')"
  shows "jc_sha256 co (fingerprintInput co r q) = jc_sha256 co (fingerprintInput co r' q') \<longleftrightarrow> sameEntry co r r' q q'"
proof -
  note wf = identifiedContent_wf[OF assms(1), of r q] identifiedContent_wf[OF assms(1), of r' q']
  have split: "jc_marshalIdentity co (entryIdentity r q) @ s = jc_marshalIdentity co (entryIdentity r' q') @ t
      \<longleftrightarrow> entryIdentity r q = entryIdentity r' q' \<and> s = t" for s t
    using assms(2)[unfolded identityOK_def, rule_format, of "entryIdentity r q" "entryIdentity r' q'" s t]
      requestUTF8_plain[OF assms(4,6)] requestUTF8_plain[OF assms(5,7)] by auto
  have "jc_sha256 co (fingerprintInput co r q) = jc_sha256 co (fingerprintInput co r' q')
      \<longleftrightarrow> fingerprintInput co r q = fingerprintInput co r' q'"
    using assms(3,6,7) by (auto simp: noCollision_def)
  also have "\<dots> \<longleftrightarrow> entryIdentity r q = entryIdentity r' q'
      \<and> writeBatchValue (identifiedContent co r q) = writeBatchValue (identifiedContent co r' q')"
    unfolding fingerprintInput_def by (rule split)
  also have "\<dots> \<longleftrightarrow> sameEntry co r r' q q'"
    using writeBatchValue_same[OF wf] by (simp add: sameEntry_def)
  finally show ?thesis .
qed

lemma fingerprints_list:
  "fingerprints co r qs = Inr fps \<Longrightarrow> map fst fps = map (\<lambda>q. jc_sha256 co (fingerprintInput co r q)) qs \<and> length fps = length qs"
  by (induction qs arbitrary: fps) (auto simp: andThen_eq_Inr dest: appendFingerprint_input)

lemma fingerprints_member:
  "fingerprints co r qs = Inr fps \<Longrightarrow> q \<in> set qs \<Longrightarrow> \<exists>fp att. appendFingerprint co r q = Inr (fp, att)"
  by (induction qs arbitrary: fps) (auto simp: andThen_eq_Inr)

lemma matchLoop_list:
  assumes "\<And>q. q \<in> set qs \<Longrightarrow> \<exists>fp att. appendFingerprint co r q = Inr (fp, att)" and "length fps = length qs"
  shows "matchLoop co r qs fps = Inr (map (\<lambda>q. jc_sha256 co (fingerprintInput co r q)) qs = fps)"
  using assms(2,1)
proof (induction fps qs rule: list_induct2)
  case Nil
  then show ?case by simp
next
  case (Cons fp fps q qs)
  obtain x att where x: "appendFingerprint co r q = Inr (x, att)" using Cons.prems[of q] by auto
  then show ?case using Cons appendFingerprint_input[OF x] by auto
qed

lemma map_eq_map_list_all2: "map f xs = map g ys \<longleftrightarrow> list_all2 (\<lambda>x y. f x = g y) xs ys"
  by (induction xs arbitrary: ys) (auto simp: list_all2_Cons1 Cons_eq_map_conv)

lemma anchorFrom_saved:
  "anchorFrom i (map (\<lambda>req. emptyEntryRequest\<lparr>er_Seq := er_Seq req\<rparr>) qs) = anchorFrom i qs"
  by (induction qs arbitrary: i) auto

lemma anchorFrom_seqs: "map er_Seq qs = map er_Seq qs' \<Longrightarrow> anchorFrom i qs = anchorFrom i qs'"
proof (induction qs arbitrary: qs' i)
  case (Cons q qs)
  then show ?case by (cases qs') auto
qed simp

text \<open>
  C26 (batch_match_iff_same_request): a stored batch definition matches a retry exactly when the retry has
  the same number of entries and, position by position, the same identity fields and the same content up
  to the order of keys and the spelling of numbers (numbers beyond the limits of \<open>normalizeJSONNumber\<close> by
  their text), attachments being compared by the blob they resolve to. The strings of both requests are
  valid UTF-8, and SHA-256 has no collision among their entries.
\<close>

theorem batch_match_iff_same_request:
  assumes "decoderOK co" and "identityOK co" and "noCollision co r r'" and "requestUTF8 r" and "requestUTF8 r'"
    and "fingerprints co r (sr_Entries r) = Inr fps" and "fingerprints co r' (sr_Entries r') = Inr fps'"
    and "length ids = length (sr_Entries r)"
  shows "Matches co (savedBatch (NewAppendBatch ids r start) fps) r'
       = Inr (list_all2 (sameEntry co r r') (sr_Entries r) (sr_Entries r'))"
proof -
  let ?h = "\<lambda>r q. jc_sha256 co (fingerprintInput co r q)"
  note F = fingerprints_list[OF assms(6)]
  have same: "list_all2 (sameEntry co r r') (sr_Entries r) (sr_Entries r') \<longleftrightarrow>
      map (?h r) (sr_Entries r) = map (?h r') (sr_Entries r')"
    unfolding map_eq_map_list_all2 using fingerprint_same[OF assms(1-5)] by (auto cong: list.rel_cong)
  have anchor: "Anchor r = Anchor r'" if "list_all2 (sameEntry co r r') (sr_Entries r) (sr_Entries r')"
  proof -
    have "er_Seq q = er_Seq q'" if "sameEntry co r r' q q'" for q q'
    proof -
      have "id_Entry (entryIdentity r q) = id_Entry (entryIdentity r' q')" using that by (simp add: sameEntry_def)
      then have "er_Seq (id_Entry (entryIdentity r q)) = er_Seq (id_Entry (entryIdentity r' q'))" by simp
      then show ?thesis by (simp add: entryIdentity_def Let_def)
    qed
    then have "map er_Seq (sr_Entries r) = map er_Seq (sr_Entries r')"
      unfolding map_eq_map_list_all2 using that by (rule list_all2_mono[rotated])
    then show ?thesis unfolding Anchor_def by (rule anchorFrom_seqs)
  qed
  have "Matches co (savedBatch (NewAppendBatch ids r start) fps) r'
      = (if length (sr_Entries r) \<noteq> length (sr_Entries r') \<or> Anchor r \<noteq> Anchor r' then Inr False
         else matchLoop co r' (sr_Entries r') (map (?h r) (sr_Entries r)))"
    using F assms(8) by (simp add: Matches_def savedBatch_def NewAppendBatch_def Anchor_def anchorFrom_saved)
  also have "\<dots> = Inr (list_all2 (sameEntry co r r') (sr_Entries r) (sr_Entries r'))"
    using matchLoop_list[of "sr_Entries r'" co r' "map (?h r) (sr_Entries r)"] fingerprints_member[OF assms(7)]
      same anchor list_all2_lengthD[of "sameEntry co r r'" "sr_Entries r" "sr_Entries r'"]
    by (auto simp: eq_commute)
  finally show ?thesis .
qed

text \<open>A codec whose marshalled identity is the list of its fields, each quoted, with a marker for nil.\<close>

definition encodeField :: "string option \<Rightarrow> string" where
  "encodeField f = (case f of None \<Rightarrow> ''z'' | Some s \<Rightarrow> CHR ''s'' # quoteString s)"

definition identityFields :: "EntryIdentity \<Rightarrow> string option list" where
  "identityFields x =
     (let e = id_Entry x
      in [Some (er_Content e), Some (er_ContentType e), Some (er_Channel e), er_IndexedContent e,
          map_option (showInt \<circ> uint) (er_Seq e), er_Role e, er_UserID e, er_AgentID e, er_ForkedAtConversationID e,
          er_ForkedAtEntryID e, er_StartedByConversationID e, er_StartedByEntryID e, Some (id_User x), id_Client x,
          id_Agent x, map_option showInt (id_Epoch x)])"

definition sampleCodec :: Codec where
  "sampleCodec =
     \<lparr>jc_decode = (\<lambda>s. if s = ''[1.0]'' then Some (JArray [JNumber ''1.0''])
                      else if s = ''[1]'' then Some (JArray [JNumber ''1'']) else Some JNull),
      jc_unmarshal = (\<lambda>_. None),
      jc_parseUUID = (\<lambda>_. None), jc_getAttachment = (\<lambda>_ _. Inr None), jc_sha256 = (\<lambda>s. s),
      jc_marshalIdentity = (\<lambda>x. concat (map encodeField (identityFields x))),
      jc_marshalBatch = (\<lambda>_. []), jc_unmarshalBatch = (\<lambda>_. None)\<rparr>"

lemma encodeField_inj: "encodeField x @ s = encodeField y @ t \<Longrightarrow> x = y \<and> s = t"
  using quoteString_inj[of "the x" s "the y" t] by (cases x; cases y; simp add: encodeField_def)

lemma encodeFields_inj:
  "length xs = length ys \<Longrightarrow> concat (map encodeField xs) @ s = concat (map encodeField ys) @ t \<Longrightarrow> xs = ys \<and> s = t"
proof (induction xs ys rule: list_induct2)
  case (Cons x xs y ys)
  then have "x = y \<and> concat (map encodeField xs) @ s = concat (map encodeField ys) @ t"
    by (intro encodeField_inj) simp
  with Cons.IH show ?case by blast
qed simp

lemma identityFields_inj:
  assumes "identityFields x = identityFields y"
  shows "x = y"
proof -
  have "inj (showInt \<circ> (uint :: uint32 \<Rightarrow> int))" and "inj showInt"
    by (auto intro!: injI dest: showInt_inj simp: word_uint_eq_iff)
  then have "map_option (showInt \<circ> uint) a = map_option (showInt \<circ> uint) (b :: uint32 option) \<longleftrightarrow> a = b"
      "map_option showInt c = map_option showInt d \<longleftrightarrow> c = d" for a b c d
    by (metis option.inj_map_strong injD)+
  with assms show ?thesis unfolding identityFields_def Let_def
    by (intro EntryIdentity.equality CreateEntryRequest.equality) simp_all
qed

lemma sampleCodec_ok: "decoderOK sampleCodec" "identityOK sampleCodec" "noCollision sampleCodec r r'"
proof -
  have "jsonWellFormed (JArray [JNumber ''1.0''])" and "jsonWellFormed (JArray [JNumber ''1''])"
    by code_simp+
  then show "decoderOK sampleCodec"
    by (simp add: decoderOK_def sampleCodec_def del: jsonWellFormed.simps(1,2))
  have "length (identityFields x) = length (identityFields y)" for x y
    by (simp add: identityFields_def Let_def)
  then show "identityOK sampleCodec"
    unfolding identityOK_def sampleCodec_def
    by (auto dest: encodeFields_inj[rotated] intro: identityFields_inj)
  show "noCollision sampleCodec r r'"
    by (simp add: noCollision_def sampleCodec_def)
qed

definition sampleAppend :: "string \<Rightarrow> SequencedAppendRequest" where
  "sampleAppend content =
     \<lparr>sr_Entries = [emptyEntryRequest\<lparr>er_Content := content, er_Seq := Some 7\<rparr>, emptyEntryRequest],
      sr_UserID = ''u'', sr_ClientID = None, sr_AgentID = None, sr_Epoch = None\<rparr>"

theorem batch_match_iff_same_request_witness:
  "\<exists>fps. fingerprints sampleCodec (sampleAppend ''[1.0]'') (sr_Entries (sampleAppend ''[1.0]'')) = Inr fps \<and>
     Matches sampleCodec (savedBatch (NewAppendBatch [''i'', ''j''] (sampleAppend ''[1.0]'') 0) fps) (sampleAppend ''[1]'') = Inr True"
proof -
  have total: "\<exists>fps. fingerprints sampleCodec r qs = Inr fps" for r qs
    by (induction qs) (auto simp: appendFingerprint_def sampleCodec_def identifyContent_def split: json.splits bool.splits)
  obtain f f' where f: "fingerprints sampleCodec (sampleAppend ''[1.0]'') (sr_Entries (sampleAppend ''[1.0]'')) = Inr f"
      "fingerprints sampleCodec (sampleAppend ''[1]'') (sr_Entries (sampleAppend ''[1]'')) = Inr f'"
    using total by metis
  have "list_all2 (sameEntry sampleCodec (sampleAppend ''[1.0]'') (sampleAppend ''[1]''))
      (sr_Entries (sampleAppend ''[1.0]'')) (sr_Entries (sampleAppend ''[1]''))"
    by code_simp
  moreover have "requestUTF8 (sampleAppend ''[1.0]'')" "requestUTF8 (sampleAppend ''[1]'')" by code_simp+
  ultimately show ?thesis
    using batch_match_iff_same_request[OF sampleCodec_ok(1,2) sampleCodec_ok(3) _ _ f, of "[''i'', ''j'']" 0] f
    by (simp add: sampleAppend_def)
qed

end
