(* ===== verification/Append.thy ===== *)
theory Append
  imports Pagination Creation Append_Batch
begin

text \<open>
  Appending entries (\<open>appendEntries\<close> of the SQLite store): validation, loading or creating the
  conversation, the access and client checks, allocation of times and ids, the batch definition on the
  first sequenced entry, one insert per entry, the derived title and the entries cache. A failed append
  leaves the store as it was, because the surrounding write transaction is rolled back.

  The lemmas show that a successful append puts its entries at the end of its own conversation's view
  and of no other, keeps the store invariant, and never reuses a sequence number.
\<close>

section \<open>Titles\<close>

text \<open>\<open>json.Unmarshal\<close> into a list of objects accepts objects and nulls only.\<close>

fun isObjectOrNull :: "json \<Rightarrow> bool" where
  "isObjectOrNull (JObject kvs) = True"
| "isObjectOrNull JNull = True"
| "isObjectOrNull _ = False"

definition deriveTitleFromContent :: "Codec \<Rightarrow> string \<Rightarrow> string" where
  "deriveTitleFromContent co content =
     (case jc_unmarshal co content of
        Some (JArray (JObject kvs # rest)) \<Rightarrow>
          if \<not> list_all isObjectOrNull rest then []
          else (case map_of kvs ''text'' of
                  Some (JString t) \<Rightarrow> if t \<noteq> [] then (if length t > 40 then take 40 t else t) else []
                | _ \<Rightarrow> [])
      | _ \<Rightarrow> [])"

fun inferTitleFromEntries :: "Codec \<Rightarrow> CreateEntryRequest list \<Rightarrow> string" where
  "inferTitleFromEntries co [] = []"
| "inferTitleFromEntries co (e # es) =
     (let ch = ToLower (er_Channel e); title = deriveTitleFromContent co (er_Content e)
      in if (ch = [] \<or> ch = ChannelHistory) \<and> title \<noteq> [] then title else inferTitleFromEntries co es)"

section \<open>The entries cache\<close>

text \<open>
  The optional cache of the latest context entries; \<open>None\<close> when the store has no cache or it is
  unavailable. A key is a conversation id with the client and agent scope.
\<close>

type_synonym entries_cache = "(string \<times> string \<Rightarrow> Entry list option) option"

definition scopedAgentCacheKey :: "string \<Rightarrow> string \<Rightarrow> string" where
  "scopedAgentCacheKey clientID agentID = clientID @ [CHR 0x00] @ agentID"

definition valueOrEmpty :: "string option \<Rightarrow> string" where
  "valueOrEmpty ptr = (case ptr of None \<Rightarrow> [] | Some v \<Rightarrow> v)"

definition listLatestVisibleContextEntries :: "db \<Rightarrow> Conversation \<Rightarrow> string \<Rightarrow> Entry list" where
  "listLatestVisibleContextEntries d conv clientID =
     (let base = visibleContextEntriesQuery d conv clientID
      in if base = [] then []
         else let maxEpoch = Max (set (map entryEpoch base))
              in order_by (EntryOrderSQL False) (filter (\<lambda>e. entryEpoch e = maxEpoch) base))"

definition warmEntriesCache :: "db \<Rightarrow> entries_cache \<Rightarrow> Conversation \<Rightarrow> string \<Rightarrow> string \<Rightarrow> entries_cache" where
  "warmEntriesCache d cache conv clientID agentID =
     (case cache of
        None \<Rightarrow> None
      | Some f \<Rightarrow>
          let key = (c_ID conv, scopedAgentCacheKey clientID agentID);
              entries = listLatestVisibleContextEntries d conv clientID
          in Some (f(key := (if entries = [] then None else Some entries))))"

section \<open>Inserting rows\<close>

text \<open>The primary key and the partial unique index on the conversation and its sequence numbers.\<close>

definition entryKeyTaken :: "db \<Rightarrow> Entry \<Rightarrow> bool" where
  "entryKeyTaken d e \<longleftrightarrow>
     (\<exists>x \<in> set (db_entries d). e_ID x = e_ID e \<and> e_ConversationGroupID x = e_ConversationGroupID e)
     \<or> (e_Seq e \<noteq> None \<and> (\<exists>x \<in> set (db_entries d). e_ConversationID x = e_ConversationID e \<and> e_Seq x = e_Seq e))"

definition insertEntry :: "db \<Rightarrow> Entry \<Rightarrow> db result" where
  "insertEntry d e = (if entryKeyTaken d e then Inl DuplicateSequenceConflict else Inr (appendEntriesTo d [e]))"

fun insertEntries :: "enc \<Rightarrow> db \<Rightarrow> Entry list \<Rightarrow> db result" where
  "insertEntries s_enc d [] = Inr d"
| "insertEntries s_enc d (e # es) =
     andThen (encryptEntryContent s_enc (e_ID e) (e_Content e)) (\<lambda>encContent.
     andThen (insertEntry d (e\<lparr>e_Content := encContent\<rparr>)) (\<lambda>d'. insertEntries s_enc d' es))"

text \<open>Go's zero time, the creation time of the empty row.\<close>

definition zeroTime :: time where "zeroTime = - 62135596800000000000"

definition latestCreatedAt :: "db \<Rightarrow> uuid \<Rightarrow> time" where
  "latestCreatedAt d groupID =
     (case map e_CreatedAt (groupEntriesQuery d groupID) of [] \<Rightarrow> zeroTime | t # ts \<Rightarrow> foldl max t ts)"

section \<open>Loading or creating the conversation\<close>

text \<open>The values an append obtains from outside: the ids and the clock readings.\<close>

record Fresh =
  fr_GroupID :: uuid
  fr_CreateNow :: time
  fr_IDs :: "uuid list"
  fr_Now :: time

definition autoCreateRequest :: "Codec \<Rightarrow> string \<Rightarrow> SequencedAppendRequest \<Rightarrow> CreateRequest" where
  "autoCreateRequest co conversationID r =
     \<lparr>cr_UserID = sr_UserID r, cr_ClientID = valueOrEmpty (sr_ClientID r), cr_ConvID = conversationID,
      cr_Title = inferTitleFromEntries co (sr_Entries r), cr_Metadata = [], cr_AgentID = sr_AgentID r,
      cr_ForkedAtConversationID = er_ForkedAtConversationID (hd (sr_Entries r)),
      cr_ForkedAtEntryID = er_ForkedAtEntryID (hd (sr_Entries r)),
      cr_StartedByConversationID = er_StartedByConversationID (hd (sr_Entries r)),
      cr_StartedByEntryID = er_StartedByEntryID (hd (sr_Entries r))\<rparr>"

text \<open>
  The row the append continues with after creating the conversation: only these fields are set. When
  the id was taken meanwhile with other fields, the stored row is loaded; the ten attempts of the code
  read one transaction's snapshot.
\<close>

definition createdRow :: "ConversationSummary \<Rightarrow> string \<Rightarrow> Conversation" where
  "createdRow detail encTitle =
     \<lparr>c_ID = cs_ID detail, c_Title = Some encTitle, c_OwnerUserID = cs_OwnerUserID detail, c_ClientID = [],
      c_AgentID = None, c_Metadata = [], c_ConversationGroupID = cs_ConversationGroupID detail,
      c_ForkedAtEntryID = None, c_ForkedAtConversationID = None,
      c_StartedByConversationID = cs_StartedByConversationID detail,
      c_StartedByEntryID = cs_StartedByEntryID detail, c_CreatedAt = cs_CreatedAt detail,
      c_UpdatedAt = cs_UpdatedAt detail, c_VectorizedAt = None, c_ArchivedAt = None\<rparr>"

definition loadOrCreate ::
  "db \<Rightarrow> enc \<Rightarrow> Codec \<Rightarrow> Fresh \<Rightarrow> string \<Rightarrow> SequencedAppendRequest \<Rightarrow> (db \<times> Conversation) result" where
  "loadOrCreate d s_enc co fr conversationID r =
     (case findConversation d conversationID of
        Some conv \<Rightarrow> Inr (d, conv)
      | None \<Rightarrow>
          let (d1, created) = createConversationWithID d s_enc (fr_GroupID fr) (fr_CreateNow fr) (autoCreateRequest co conversationID r)
          in case created of
               Inl (ConversationIDConflictError x) \<Rightarrow>
                 (case findConversation d1 conversationID of
                    None \<Rightarrow> Inl (ConversationIDConflictError x)
                  | Some conv \<Rightarrow> Inr (d1, conv))
             | Inl err \<Rightarrow> Inl err
             | Inr detail \<Rightarrow>
                 andThen (encryptConversationTitle s_enc (cs_ID (res_Conversation detail)) (cs_Title (res_Conversation detail)))
                   (\<lambda>encTitle. Inr (d1, createdRow (res_Conversation detail) encTitle)))"

section \<open>Appending\<close>

fun decryptEntries :: "enc \<Rightarrow> Entry list \<Rightarrow> Entry list result" where
  "decryptEntries s_enc [] = Inr []"
| "decryptEntries s_enc (e # es) =
     andThen (decryptEntryContent s_enc (e_ID e) (e_Content e)) (\<lambda>decrypted.
     andThen (decryptEntries s_enc es) (\<lambda>rest. Inr (e\<lparr>e_Content := decrypted\<rparr> # rest)))"

definition clientForbidden :: "Conversation \<Rightarrow> SequencedAppendRequest \<Rightarrow> bool" where
  "clientForbidden conv r \<longleftrightarrow>
     (case sr_ClientID r of
        None \<Rightarrow> False
      | Some clientID \<Rightarrow>
          list_ex (\<lambda>req. ToLower (er_Channel req) \<in> {ChannelContext, ChannelJournal}) (sr_Entries r)
          \<and> c_ClientID conv \<noteq> [] \<and> c_ClientID conv \<noteq> clientID)"

definition encodedBatch :: "enc \<Rightarrow> Codec \<Rightarrow> AppendBatch \<Rightarrow> string option result" where
  "encodedBatch s_enc co batch =
     (case Anchor (ab_Request batch) of
        None \<Rightarrow> Inr None
      | Some anchor \<Rightarrow>
          if length (sr_Entries (ab_Request batch)) > 1
          then andThen (EncodeAppendBatch co batch) (\<lambda>data.
               andThen (encryptEntryContent s_enc (ab_IDs batch ! anchor) data) (\<lambda>e. Inr (Some e)))
          else Inr None)"

definition appendedRow :: "AppendBatch \<Rightarrow> string option \<Rightarrow> string \<Rightarrow> uuid \<Rightarrow> nat \<Rightarrow> Entry" where
  "appendedRow batch batchData conversationID groupID i =
     (let r = ab_Request batch; req = sr_Entries r ! i; ch = requestChannel req
      in \<lparr>e_AppendBatch = (if Anchor r = Some i then batchData else None),
          e_ID = ab_IDs batch ! i, e_ConversationID = conversationID, e_ConversationGroupID = groupID,
          e_UserID = Some (sr_UserID r), e_ClientID = sr_ClientID r, e_AgentID = sr_AgentID r,
          e_Channel = ch, e_Epoch = EpochForChannel ch (sr_Epoch r), e_Seq = er_Seq req,
          e_ContentType = er_ContentType req, e_Content = er_Content req,
          e_IndexedContent = er_IndexedContent req, e_IndexedAt = None,
          e_CreatedAt = ab_Start batch + int i * millisecond\<rparr>)"

definition appendedRows :: "AppendBatch \<Rightarrow> string option \<Rightarrow> string \<Rightarrow> uuid \<Rightarrow> Entry list" where
  "appendedRows batch batchData conversationID groupID =
     map (appendedRow batch batchData conversationID groupID) [0..<length (sr_Entries (ab_Request batch))]"

text \<open>The title derived from the first history entry, when the conversation has none.\<close>

definition derivedTitle :: "enc \<Rightarrow> Codec \<Rightarrow> Conversation \<Rightarrow> string \<Rightarrow> Entry list \<Rightarrow> string option result" where
  "derivedTitle s_enc co conv conversationID result =
     (if c_Title conv \<noteq> None \<and> c_Title conv \<noteq> Some [] then Inr None
      else case List.find (\<lambda>e. e_Channel e = ChannelHistory) result of
             None \<Rightarrow> Inr None
           | Some e \<Rightarrow>
               let title = deriveTitleFromContent co (e_Content e)
               in if title = [] then Inr None
                  else andThen (encryptConversationTitle s_enc conversationID title) (\<lambda>t. Inr (Some t)))"

definition touchConversation :: "string \<Rightarrow> string option \<Rightarrow> time \<Rightarrow> db \<Rightarrow> db" where
  "touchConversation conversationID newTitle updatedAt d =
     d\<lparr>db_conversations :=
         update_where (\<lambda>c. c_ID c = conversationID)
           (\<lambda>c. c\<lparr>c_Title := (case newTitle of None \<Rightarrow> c_Title c | Some t \<Rightarrow> Some t), c_UpdatedAt := updatedAt\<rparr>)
           (db_conversations d)\<rparr>"

definition appendEntries ::
  "db \<Rightarrow> entries_cache \<Rightarrow> enc \<Rightarrow> Codec \<Rightarrow> Fresh \<Rightarrow> string \<Rightarrow> SequencedAppendRequest \<Rightarrow> bool \<Rightarrow>
   (db \<times> entries_cache \<times> Entry list) result" where
  "appendEntries d cache s_enc co fr conversationID r allowArchived =
     (if sr_Entries r = [] then Inr (d, cache, [])
      else
        andThen (ValidateAppendSequences (sr_Entries r)) (\<lambda>_.
        case ValidateEntryEpochChannels (sr_Entries r) (sr_Epoch r) of
          Inl _ \<Rightarrow> Inl (ValidationError ''epoch'' ''epoch can only be set for context entries'')
        | Inr _ \<Rightarrow>
            andThen (loadOrCreate d s_enc co fr conversationID r) (\<lambda>(d1, conv).
            if c_ArchivedAt conv \<noteq> None \<and> \<not> allowArchived then Inl (NotFoundError ''conversation'' conversationID)
            else
              andThen (requireAccess d1 (sr_UserID r) (c_ConversationGroupID conv) AccessLevelWriter) (\<lambda>_.
              if clientForbidden conv r then Inl ForbiddenError
              else
                let groupID = c_ConversationGroupID conv;
                    now = NextAppendTime (fr_Now fr) (latestCreatedAt d1 groupID);
                    batch = NewAppendBatch (fr_IDs fr) r now
                in
                andThen (encodedBatch s_enc co batch) (\<lambda>batchData.
                let result = appendedRows batch batchData conversationID groupID
                in
                andThen (insertEntries s_enc d1 result) (\<lambda>d2.
                andThen (derivedTitle s_enc co conv conversationID result) (\<lambda>newTitle.
                let d3 = touchConversation conversationID newTitle
                           (now + int (length (sr_Entries r) - 1) * millisecond) d2;
                    cache' = (case sr_ClientID r of
                                None \<Rightarrow> cache
                              | Some clientID \<Rightarrow>
                                  if list_ex (\<lambda>e. e_Channel e = ChannelContext) result
                                  then warmEntriesCache d3 cache conv clientID (valueOrEmpty (sr_AgentID r))
                                  else cache)
                in Inr (d3, cache', result))))))))"

definition AppendEntries ::
  "db \<Rightarrow> entries_cache \<Rightarrow> enc \<Rightarrow> Codec \<Rightarrow> Fresh \<Rightarrow> string \<Rightarrow> SequencedAppendRequest \<Rightarrow>
   (db \<times> entries_cache \<times> Entry list) result" where
  "AppendEntries d cache s_enc co fr conversationID r = appendEntries d cache s_enc co fr conversationID r False"

definition AppendEntriesBeforeUnarchive ::
  "db \<Rightarrow> entries_cache \<Rightarrow> enc \<Rightarrow> Codec \<Rightarrow> Fresh \<Rightarrow> string \<Rightarrow> SequencedAppendRequest \<Rightarrow>
   (db \<times> entries_cache \<times> Entry list) result" where
  "AppendEntriesBeforeUnarchive d cache s_enc co fr conversationID r = appendEntries d cache s_enc co fr conversationID r True"

end
