(* ===== verification/Append_Facts.thy ===== *)
theory Append_Facts
  imports Append
begin

text \<open>
  What an append does to the store: its rows come after everything in the group, so they extend the
  view of their own conversation and no other; the store invariant, the uniqueness of sequence numbers
  and the epoch rule of the schema are kept.
\<close>

section \<open>Rows that were inserted\<close>

definition storedAs :: "enc \<Rightarrow> Entry \<Rightarrow> Entry \<Rightarrow> bool" where
  "storedAs s_enc e c \<longleftrightarrow>
     encryptEntryContent s_enc (e_ID e) (e_Content e) = Inr (e_Content c) \<and> c = e\<lparr>e_Content := e_Content c\<rparr>"

lemma appendEntriesTo_nil [simp]: "appendEntriesTo d [] = d"
  by (simp add: appendEntriesTo_def)

lemma appendEntriesTo_append: "appendEntriesTo (appendEntriesTo d xs) ys = appendEntriesTo d (xs @ ys)"
  by (simp add: appendEntriesTo_def)

text \<open>The unique index on sequence numbers, and the \<open>CHECK\<close> that only context entries have an epoch, which they always do.\<close>

definition sequencesOK :: "db \<Rightarrow> bool" where
  "sequencesOK d \<longleftrightarrow>
     (\<forall>x \<in> set (db_entries d). \<forall>y \<in> set (db_entries d).
        e_ConversationID x = e_ConversationID y \<and> e_Seq x = e_Seq y \<and> e_Seq x \<noteq> None \<longrightarrow> x = y)"

definition epochsOK :: "db \<Rightarrow> bool" where
  "epochsOK d \<longleftrightarrow> (\<forall>e \<in> set (db_entries d). (e_Epoch e \<noteq> None) = (e_Channel e = ChannelContext))"

lemma insertEntry_sequencesOK:
  assumes "sequencesOK d" and "insertEntry d e = Inr d'"
  shows "sequencesOK d'"
proof -
  have d': "db_entries d' = db_entries d @ [e]" and
    new: "e_Seq e \<noteq> None \<Longrightarrow> x \<in> set (db_entries d) \<Longrightarrow> e_ConversationID x = e_ConversationID e \<Longrightarrow> e_Seq x \<noteq> e_Seq e" for x
    using assms(2) by (auto simp: insertEntry_def entryKeyTaken_def split: if_splits)
  show ?thesis unfolding sequencesOK_def
  proof (intro ballI impI)
    fix x y
    assume "x \<in> set (db_entries d')" "y \<in> set (db_entries d')"
      and same: "e_ConversationID x = e_ConversationID y \<and> e_Seq x = e_Seq y \<and> e_Seq x \<noteq> None"
    then consider "x \<in> set (db_entries d)" "y \<in> set (db_entries d)" | "x = e" "y \<in> set (db_entries d)"
      | "x \<in> set (db_entries d)" "y = e" | "x = y" using d' by auto
    then show "x = y"
    proof cases
      case 1
      then show ?thesis using assms(1) same unfolding sequencesOK_def by blast
    next
      case 2
      then show ?thesis using new[of y] same by metis
    next
      case 3
      then show ?thesis using new[of x] same by metis
    qed
  qed
qed

lemma insertEntries_stored:
  "insertEntries s_enc d es = Inr d' \<Longrightarrow> \<exists>cs. d' = appendEntriesTo d cs \<and> list_all2 (storedAs s_enc) es cs"
proof (induction es arbitrary: d)
  case Nil
  then show ?case by (auto intro!: exI[of _ "[]"])
next
  case (Cons e es)
  then obtain c d1 where c: "encryptEntryContent s_enc (e_ID e) (e_Content e) = Inr c"
      "insertEntry d (e\<lparr>e_Content := c\<rparr>) = Inr d1" "insertEntries s_enc d1 es = Inr d'"
    by (auto simp: andThen_eq_Inr)
  then obtain cs where cs: "d' = appendEntriesTo d1 cs" "list_all2 (storedAs s_enc) es cs" using Cons.IH by blast
  moreover have "d1 = appendEntriesTo d [e\<lparr>e_Content := c\<rparr>]" using c(2) by (simp add: insertEntry_def split: if_splits)
  moreover have "storedAs s_enc e (e\<lparr>e_Content := c\<rparr>)" using c(1) by (simp add: storedAs_def)
  ultimately show ?case
    by (intro exI[of _ "e\<lparr>e_Content := c\<rparr> # cs"]) (simp add: appendEntriesTo_append)
qed

lemma insertEntries_sequencesOK: "sequencesOK d \<Longrightarrow> insertEntries s_enc d es = Inr d' \<Longrightarrow> sequencesOK d'"
  by (induction es arbitrary: d) (auto simp: andThen_eq_Inr dest: insertEntry_sequencesOK)

lemma storedAs_fields:
  assumes "storedAs s_enc e c"
  shows "e_ID c = e_ID e" "e_ConversationID c = e_ConversationID e" "e_ConversationGroupID c = e_ConversationGroupID e"
    "e_Seq c = e_Seq e" "e_CreatedAt c = e_CreatedAt e" "e_Channel c = e_Channel e" "e_Epoch c = e_Epoch e"
    "e_ClientID c = e_ClientID e" "e_AppendBatch c = e_AppendBatch e"
proof -
  have "c = e\<lparr>e_Content := e_Content c\<rparr>" using assms by (simp add: storedAs_def)
  then obtain x where "c = e\<lparr>e_Content := x\<rparr>" by blast
  then show "e_ID c = e_ID e" "e_ConversationID c = e_ConversationID e" "e_ConversationGroupID c = e_ConversationGroupID e"
    "e_Seq c = e_Seq e" "e_CreatedAt c = e_CreatedAt e" "e_Channel c = e_Channel e" "e_Epoch c = e_Epoch e"
    "e_ClientID c = e_ClientID e" "e_AppendBatch c = e_AppendBatch e"
    by simp_all
qed

lemma stored_maps:
  assumes "list_all2 (storedAs s_enc) es cs"
  shows "map e_ID cs = map e_ID es" "map e_CreatedAt cs = map e_CreatedAt es"
    "map e_Seq cs = map e_Seq es" "map e_Channel cs = map e_Channel es" "map e_Epoch cs = map e_Epoch es"
    "map e_ConversationID cs = map e_ConversationID es" "map e_ConversationGroupID cs = map e_ConversationGroupID es"
    "map e_ClientID cs = map e_ClientID es" "map e_AppendBatch cs = map e_AppendBatch es"
  using assms by (induction rule: list_all2_induct) (auto dest: storedAs_fields)

section \<open>Times\<close>

lemma foldl_max_ge: "x \<in> set (t # ts) \<Longrightarrow> (x :: time) \<le> foldl max t ts"
proof (induction ts arbitrary: t x)
  case (Cons a ts)
  have "max t a \<le> foldl max (max t a) ts" by (intro Cons.IH) simp
  moreover have "x \<le> foldl max (max t a) ts" if "x \<in> set ts" using that by (intro Cons.IH) simp
  ultimately show ?case using Cons.prems by auto
qed simp

lemma latestCreatedAt_ge:
  assumes "e \<in> set (db_entries d)" and "e_ConversationGroupID e = g"
  shows "e_CreatedAt e \<le> latestCreatedAt d g"
proof -
  have "e_CreatedAt e \<in> set (map e_CreatedAt (groupEntriesQuery d g))" using assms by (simp add: groupEntriesQuery_def)
  then show ?thesis
    using foldl_max_ge by (auto simp: latestCreatedAt_def split: list.splits)
qed

definition freshIDs :: "db \<Rightarrow> uuid list \<Rightarrow> nat \<Rightarrow> bool" where
  "freshIDs d ids n \<longleftrightarrow> length ids = n \<and> distinct ids \<and> set ids \<inter> e_ID ` set (db_entries d) = {}"

lemma appendedRow_simps [simp]:
  "e_ID (appendedRow b bd c g i) = ab_IDs b ! i"
  "e_ConversationID (appendedRow b bd c g i) = c"
  "e_ConversationGroupID (appendedRow b bd c g i) = g"
  "e_CreatedAt (appendedRow b bd c g i) = ab_Start b + int i * millisecond"
  "e_Seq (appendedRow b bd c g i) = er_Seq (sr_Entries (ab_Request b) ! i)"
  "e_Channel (appendedRow b bd c g i) = requestChannel (sr_Entries (ab_Request b) ! i)"
  "e_Epoch (appendedRow b bd c g i) = EpochForChannel (requestChannel (sr_Entries (ab_Request b) ! i)) (sr_Epoch (ab_Request b))"
  "e_Content (appendedRow b bd c g i) = er_Content (sr_Entries (ab_Request b) ! i)"
  by (simp_all add: appendedRow_def Let_def)

lemma NewAppendBatch_simps [simp]:
  "ab_IDs (NewAppendBatch ids r t) = ids" "ab_Request (NewAppendBatch ids r t) = r" "ab_Start (NewAppendBatch ids r t) = t"
  by (simp_all add: NewAppendBatch_def)

lemma sorted_by_time:
  "sorted_wrt (<) (map e_CreatedAt es) \<Longrightarrow> sorted_wrt entryOrderLess es"
  unfolding sorted_wrt_map by (rule sorted_wrt_mono_rel) (simp_all add: entryOrderLess_time)

lemma appended_times:
  "sorted_wrt (<) (map e_CreatedAt (appendedRows (NewAppendBatch ids r t) bd c g))"
  by (auto simp: appendedRows_def sorted_wrt_iff_nth_less millisecond_def)

lemma appended_times_after:
  "e \<in> set (appendedRows (NewAppendBatch ids r t) bd c g) \<Longrightarrow> t \<le> e_CreatedAt e"
  by (auto simp: appendedRows_def millisecond_def)

text \<open>The rows of a successful insert come after the whole group.\<close>

lemma appended_after:
  assumes "isConversation d g c" and "distinct (map e_ID (db_entries d))"
    and "freshIDs d ids (length (sr_Entries r))"
    and "list_all2 (storedAs s_enc) (appendedRows (NewAppendBatch ids r (NextAppendTime now (latestCreatedAt d g))) bd c g) cs"
  shows "appendsAfter d g c cs"
proof -
  let ?t = "NextAppendTime now (latestCreatedAt d g)"
  let ?rows = "appendedRows (NewAppendBatch ids r ?t) bd c g"
  note m = stored_maps[OF assms(4)]
  have ids: "map e_ID ?rows = ids"
    using assms(3) by (auto simp: appendedRows_def freshIDs_def comp_def intro: nth_equalityI)
  have loc: "e_ConversationGroupID x = g \<and> e_ConversationID x = c" if "x \<in> set cs" for x
  proof -
    have "set (map e_ConversationGroupID cs) \<subseteq> {g}" "set (map e_ConversationID cs) \<subseteq> {c}"
      unfolding m by (auto simp: appendedRows_def)
    then show ?thesis using that by auto
  qed
  have after: "latestCreatedAt d g < e_CreatedAt x" if "x \<in> set cs" for x
  proof -
    have "e_CreatedAt x \<in> set (map e_CreatedAt ?rows)" using that m(2) by (metis image_eqI list.set_map)
    then show ?thesis using appended_times_after[of _ ids r ?t bd c g] NextAppendTime_after[of "latestCreatedAt d g" now] by force
  qed
  have "sorted_wrt entryOrderLess cs"
    using appended_times[of ids r ?t bd c g] m(2) by (intro sorted_by_time) simp
  moreover have "entryOrderLess e e'" if "e \<in> set (db_entries d)" "e' \<in> set cs" "e_ConversationGroupID e = g" for e e'
    using latestCreatedAt_ge[OF that(1,3)] after[OF that(2)] by (intro entryOrderLess_time) simp
  moreover have "distinct (map e_ID (db_entries d @ cs))"
    using assms(2,3) m(1) ids by (auto simp: freshIDs_def)
  ultimately show ?thesis using loc assms(1) by (simp add: appendsAfter_def)
qed

section \<open>The conversation an append works on\<close>

lemma storeOK_cong:
  assumes "storeOK d" and "db_ancestry d' = db_ancestry d" and "db_entries d' = db_entries d"
    and "db_groups d' = db_groups d" and "db_transfers d' = db_transfers d" and "db_memberships d' = db_memberships d"
    and rows: "map (\<lambda>c. (c_ID c, c_ConversationGroupID c, c_ArchivedAt c)) (db_conversations d')
             = map (\<lambda>c. (c_ID c, c_ConversationGroupID c, c_ArchivedAt c)) (db_conversations d)"
  shows "storeOK d'"
proof -
  have proj: "map (\<lambda>c. (c_ID c, c_ConversationGroupID c)) (db_conversations d')
            = map (\<lambda>c. (c_ID c, c_ConversationGroupID c)) (db_conversations d)"
    and ids: "map c_ID (db_conversations d') = map c_ID (db_conversations d)"
    using arg_cong[OF rows, of "map (\<lambda>(i, g, a). (i, g))"] arg_cong[OF rows, of "map fst"] by (simp_all add: comp_def case_prod_beta)
  have k: "keysOK d'" using storeOK_D(4)[OF assms(1)] assms(2-6) ids by (simp add: keysOK_def)
  have img: "(\<lambda>c. (c_ID c, c_ConversationGroupID c, c_ArchivedAt c)) ` set (db_conversations d')
           = (\<lambda>c. (c_ID c, c_ConversationGroupID c, c_ArchivedAt c)) ` set (db_conversations d)"
    using arg_cong[OF rows, of set] by simp
  have old: "\<exists>x \<in> set (db_conversations d). c_ConversationGroupID x = c_ConversationGroupID c \<and> c_ArchivedAt x = c_ArchivedAt c"
    if "c \<in> set (db_conversations d')" for c
  proof -
    have "(c_ID c, c_ConversationGroupID c, c_ArchivedAt c) \<in> (\<lambda>c. (c_ID c, c_ConversationGroupID c, c_ArchivedAt c)) ` set (db_conversations d)"
      using that by (simp add: img[symmetric])
    then show ?thesis by auto
  qed
  have "isGroup d' (c_ConversationGroupID c)" if c: "c \<in> set (db_conversations d')" for c
  proof -
    obtain x where "x \<in> set (db_conversations d)" "c_ConversationGroupID x = c_ConversationGroupID c" using old[OF c] by auto
    then show ?thesis using storeOK_D(2)[OF assms(1)] assms(4) unfolding groupRefsOK_def isGroup_def by metis
  qed
  then have g: "groupRefsOK d'" using storeOK_D(2)[OF assms(1)] assms(4-6) by (simp add: groupRefsOK_def isGroup_def)
  have "archiveOK d'" unfolding archiveOK_def assms(4)
  proof (intro ballI impI)
    fix c g
    assume c: "c \<in> set (db_conversations d')" and g: "g \<in> set (db_groups d)" "g_ID g = c_ConversationGroupID c"
    then show "(c_ArchivedAt c = None) = (g_ArchivedAt g = None)"
      using old[OF c] storeOK_D(3)[OF assms(1)] by (auto simp: archiveOK_def)
  qed
  then show ?thesis using ancestryOK_cong[OF storeOK_D(1)[OF assms(1)] assms(2,3) proj k] g by (simp add: storeOK_def)
qed

lemma touchConversation_tables [simp]:
  "db_entries (touchConversation i t u d) = db_entries d" "db_ancestry (touchConversation i t u d) = db_ancestry d"
  "db_groups (touchConversation i t u d) = db_groups d" "db_transfers (touchConversation i t u d) = db_transfers d"
  "db_memberships (touchConversation i t u d) = db_memberships d"
  by (simp_all add: touchConversation_def)

lemma touchConversation_storeOK: "storeOK d \<Longrightarrow> storeOK (touchConversation i t u d)"
  by (rule storeOK_cong) (auto simp: touchConversation_def update_where_def)

lemma touchConversation_view:
  "storeOK d \<Longrightarrow> listVisibleEntriesForConversation (touchConversation i t u d) c = listVisibleEntriesForConversation d c"
  by (rule listVisible_tables) (auto intro: storeOK_D touchConversation_storeOK)

lemma append_storeOK:
  assumes "storeOK d" and "appendsAfter d g c es"
  shows "storeOK (appendEntriesTo d es)"
  using append_ancestryOK[OF storeOK_D(1)[OF assms(1)] assms(2)] storeOK_D(2,3)[OF assms(1)]
  by (simp add: storeOK_def groupRefsOK_def archiveOK_def isGroup_def)

text \<open>The database an append starts from: with the conversation created when it did not exist.\<close>

definition appendBase :: "db \<Rightarrow> enc \<Rightarrow> Codec \<Rightarrow> Fresh \<Rightarrow> string \<Rightarrow> SequencedAppendRequest \<Rightarrow> db" where
  "appendBase d s_enc co fr conversationID r =
     (if findConversation d conversationID = None
      then fst (createConversationWithID d s_enc (fr_GroupID fr) (fr_CreateNow fr) (autoCreateRequest co conversationID r))
      else d)"

lemma create_entries:
  assumes "createConversationWithID d s_enc gid now req = (d', r)"
  shows "db_entries d' = db_entries d"
proof (cases "\<exists>x. r = Inr x \<and> \<not> res_ExactRetry x")
  case True
  then obtain x where x: "r = Inr x" "\<not> res_ExactRetry x" by auto
  obtain li t d3 where "createConversationAncestry (withConversation d req li t now) (li_ActualGroupID li) (cr_ConvID req)
       (li_SourceConv li) (cr_ForkedAtEntryID req) (li_AnchorOwnerDepth li) = Inr d3"
    "(if cr_ForkedAtConversationID req = None then insertMemberships d3 (initialMemberships li now) else Inr d3) = Inr d'"
    using created_cases[OF assms[unfolded x(1)] x(2)] by metis
  then show ?thesis using created_tables(2) by fastforce
next
  case False
  then show ?thesis using create_not_new[OF assms] by auto
qed

lemma loadOrCreate_facts:
  assumes inv: "storeOK d" and load: "loadOrCreate d s_enc co fr cid r = Inr (d1, conv)"
  shows "d1 = appendBase d s_enc co fr cid r" and "storeOK d1" and "db_entries d1 = db_entries d"
    and "c_ID conv = cid" and "isConversation d1 (c_ConversationGroupID conv) cid"
proof -
  let ?cr = "createConversationWithID d s_enc (fr_GroupID fr) (fr_CreateNow fr) (autoCreateRequest co cid r)"
  have id: "cr_ConvID (autoCreateRequest co cid r) = cid" by (simp add: autoCreateRequest_def)
  have base: "d1 = appendBase d s_enc co fr cid r"
    using load by (auto simp: loadOrCreate_def appendBase_def andThen_eq_Inr Let_def
        split: option.splits prod.splits sum.splits store_error.splits)
  then show "d1 = appendBase d s_enc co fr cid r" .
  show "storeOK d1" unfolding base appendBase_def using inv create_storeOK[OF inv] by simp
  show "db_entries d1 = db_entries d" unfolding base appendBase_def using create_entries[OF surjective_pairing] by simp
  have "c_ID conv = cid \<and> isConversation d1 (c_ConversationGroupID conv) cid"
  proof (cases "findConversation d1 cid = Some conv")
    case True
    then show ?thesis by (auto simp: isConversation_def dest: findConversation_Some)
  next
    case False
    then obtain x t where x: "?cr = (d1, Inr x)" "findConversation d cid = None" "conv = createdRow (res_Conversation x) t"
      using load by (auto simp: loadOrCreate_def andThen_eq_Inr Let_def
          split: option.splits prod.splits sum.splits store_error.splits)
    have new: "\<not> res_ExactRetry x"
      using x(1,2) by (auto simp: createConversationWithID_def insertConversation_def createdResult_def findConversation_def Let_def id
          split: sum.splits if_splits)
    obtain li e d2 where "x = createdResult (autoCreateRequest co cid r) li (fr_CreateNow fr)"
        "createConversationAncestry (withConversation d (autoCreateRequest co cid r) li e (fr_CreateNow fr)) (li_ActualGroupID li)
           (cr_ConvID (autoCreateRequest co cid r)) (li_SourceConv li) (cr_ForkedAtEntryID (autoCreateRequest co cid r)) (li_AnchorOwnerDepth li) = Inr d2"
        "(if cr_ForkedAtConversationID (autoCreateRequest co cid r) = None then insertMemberships d2 (initialMemberships li (fr_CreateNow fr)) else Inr d2) = Inr d1"
      using created_cases[OF x(1) new] by metis
    note c = this
    have "db_conversations d1 = db_conversations d @ [newConversation (autoCreateRequest co cid r) li e (fr_CreateNow fr)]"
      using created_tables(3)[OF c(2,3)] by simp
    then show ?thesis using c(1) x(3) id by (auto simp: isConversation_def createdRow_def createdResult_def)
  qed
  then show "c_ID conv = cid" and "isConversation d1 (c_ConversationGroupID conv) cid" by auto
qed

section \<open>A successful append\<close>

lemma stored_decrypt:
  assumes "cipherOK s_enc" and "list_all2 (storedAs s_enc) es cs"
  shows "decryptEntries s_enc cs = Inr es"
  using assms(2)
proof (induction rule: list_all2_induct)
  case (Cons e es c cs)
  have "decryptEntryContent s_enc (e_ID e) (e_Content c) = Inr (e_Content e)"
    using Cons.hyps(1) content_roundtrip[OF assms(1)] by (simp add: storedAs_def)
  moreover have "c\<lparr>e_Content := e_Content e\<rparr> = e"
  proof -
    obtain x where "c = e\<lparr>e_Content := x\<rparr>" using Cons.hyps(1) by (auto simp: storedAs_def)
    then show ?thesis by simp
  qed
  ultimately show ?case using Cons.IH storedAs_fields(1)[OF Cons.hyps(1)] by simp
qed simp

lemma append_cases:
  assumes "appendEntries d cache s_enc co fr cid r aa = Inr (d', cache', result)" and "sr_Entries r \<noteq> []"
  obtains d1 conv now bd d2 t u access where
    "loadOrCreate d s_enc co fr cid r = Inr (d1, conv)"
    "requireAccess d1 (sr_UserID r) (c_ConversationGroupID conv) AccessLevelWriter = Inr access"
    "now = NextAppendTime (fr_Now fr) (latestCreatedAt d1 (c_ConversationGroupID conv))"
    "encodedBatch s_enc co (NewAppendBatch (fr_IDs fr) r now) = Inr bd"
    "result = appendedRows (NewAppendBatch (fr_IDs fr) r now) bd cid (c_ConversationGroupID conv)"
    "insertEntries s_enc d1 result = Inr d2"
    "d' = touchConversation cid t u d2"
    "ValidateAppendSequences (sr_Entries r) = Inr ()"
    "cache' = cache \<or> (\<exists>clientID. sr_ClientID r = Some clientID \<and> cache' = warmEntriesCache d' cache conv clientID (valueOrEmpty (sr_AgentID r)))"
    "c_ArchivedAt conv = None \<or> aa" "\<not> clientForbidden conv r"
  using assms
  by (auto simp: appendEntries_def andThen_eq_Inr Let_def split: if_splits sum.splits option.splits)

text \<open>All facts about the tables after a successful append that the properties below use.\<close>

lemma append_facts:
  assumes inv: "storeOK d" and fresh: "freshIDs d (fr_IDs fr) (length (sr_Entries r))" and ne: "sr_Entries r \<noteq> []"
    and ok: "appendEntries d cache s_enc co fr cid r aa = Inr (d', cache', result)"
  obtains conv cs t u where
    "loadOrCreate d s_enc co fr cid r = Inr (appendBase d s_enc co fr cid r, conv)"
    "storeOK (appendBase d s_enc co fr cid r)"
    "appendsAfter (appendBase d s_enc co fr cid r) (c_ConversationGroupID conv) cid cs"
    "list_all2 (storedAs s_enc) result cs"
    "d' = touchConversation cid t u (appendEntriesTo (appendBase d s_enc co fr cid r) cs)"
    "insertEntries s_enc (appendBase d s_enc co fr cid r) result = Inr (appendEntriesTo (appendBase d s_enc co fr cid r) cs)"
    "db_entries (appendBase d s_enc co fr cid r) = db_entries d"
proof -
  obtain d1 conv now bd d2 t u where c:
    "loadOrCreate d s_enc co fr cid r = Inr (d1, conv)"
    "now = NextAppendTime (fr_Now fr) (latestCreatedAt d1 (c_ConversationGroupID conv))"
    "result = appendedRows (NewAppendBatch (fr_IDs fr) r now) bd cid (c_ConversationGroupID conv)"
    "insertEntries s_enc d1 result = Inr d2" "d' = touchConversation cid t u d2"
    using append_cases[OF ok ne] by metis
  note l = loadOrCreate_facts[OF inv c(1)]
  obtain cs where cs: "d2 = appendEntriesTo d1 cs" "list_all2 (storedAs s_enc) result cs"
    using insertEntries_stored[OF c(4)] by blast
  have "freshIDs d1 (fr_IDs fr) (length (sr_Entries r))" using fresh l(3) by (simp add: freshIDs_def)
  then have "appendsAfter d1 (c_ConversationGroupID conv) cid cs"
    using appended_after[OF l(5)] cs(2) storeOK_D(4)[OF l(2)] unfolding c(2,3) by (simp add: keysOK_def)
  then show thesis using that[of conv cs t u] c l cs by simp
qed

text \<open>
  C6 (append_extends_view): a successful append puts its entries, in request order, at the end of what
  its conversation shows and changes the view of no other conversation; what is stored decrypts to the
  entries that were returned.
\<close>

theorem append_extends_view:
  assumes "storeOK d" and "cipherOK s_enc" and "freshIDs d (fr_IDs fr) (length (sr_Entries r))"
    and "appendEntries d cache s_enc co fr cid r aa = Inr (d', cache', result)" and "sr_Entries r \<noteq> []"
  shows "\<exists>stored. decryptEntries s_enc stored = Inr result \<and> length result = length (sr_Entries r)
       \<and> (conv \<in> set (db_conversations (appendBase d s_enc co fr cid r)) \<longrightarrow>
            listVisibleEntriesForConversation d' conv =
              listVisibleEntriesForConversation (appendBase d s_enc co fr cid r) conv
                @ (if c_ID conv = cid then stored else []))
       \<and> (conv \<in> set (db_conversations d) \<and> c_ID conv \<noteq> cid \<longrightarrow>
            listVisibleEntriesForConversation d' conv = listVisibleEntriesForConversation d conv)"
proof -
  let ?b = "appendBase d s_enc co fr cid r"
  obtain c cs t u where f:
    "loadOrCreate d s_enc co fr cid r = Inr (?b, c)" "storeOK ?b"
    "appendsAfter ?b (c_ConversationGroupID c) cid cs" "list_all2 (storedAs s_enc) result cs"
    "d' = touchConversation cid t u (appendEntriesTo ?b cs)"
    by (rule append_facts[OF assms(1,3,5,4)])
  have len: "length result = length (sr_Entries r)"
    using append_cases[OF assms(4,5)] by (metis (no_types) appendedRows_def NewAppendBatch_simps(2) length_map length_upt minus_nat.diff_0)
  have view: "listVisibleEntriesForConversation d' x = (if c_ID x = cid \<and> c_ConversationGroupID x = c_ConversationGroupID c
      then listVisibleEntriesForConversation ?b x @ cs else listVisibleEntriesForConversation ?b x)" for x
    using touchConversation_view[OF append_storeOK[OF f(2,3)]] append_view[OF storeOK_D(1)[OF f(2)] f(3)] by (simp add: f(5))
  have same: "c_ConversationGroupID x = c_ConversationGroupID c" if "x \<in> set (db_conversations ?b)" "c_ID x = cid" for x
  proof -
    obtain y where "y \<in> set (db_conversations ?b)" "c_ID y = cid" "c_ConversationGroupID y = c_ConversationGroupID c"
      using loadOrCreate_facts(5)[OF assms(1) f(1)] by (auto simp: isConversation_def)
    then show ?thesis using that storeOK_D(4)[OF f(2)] by (metis keysOK_def distinct_map inj_on_eq_iff)
  qed
  have other: "listVisibleEntriesForConversation ?b x = listVisibleEntriesForConversation d x" if "x \<in> set (db_conversations d)" for x
    using created_isolated[OF assms(1) that] by (simp add: appendBase_def)
  show ?thesis
    using stored_decrypt[OF assms(2) f(4)] len view same other by (intro exI[of _ cs]) auto
qed

section \<open>Invariants and conflicts\<close>

lemma EpochForChannel_defined: "(EpochForChannel ch e \<noteq> None) = (ch = ChannelContext)"
  by (auto simp: EpochForChannel_def split: option.splits)

lemma stored_epochsOK:
  assumes "epochsOK d" and "list_all2 (storedAs s_enc) (appendedRows b bd c g) cs"
  shows "epochsOK (appendEntriesTo d cs)"
proof -
  have "(e_Epoch x \<noteq> None) = (e_Channel x = ChannelContext)" if x: "x \<in> set cs" for x
  proof -
    obtain e where e: "e \<in> set (appendedRows b bd c g)" "storedAs s_enc e x"
      using assms(2) x by (metis in_set_conv_nth list_all2_conv_all_nth)
    then obtain i where "e = appendedRow b bd c g i" by (auto simp: appendedRows_def)
    then have "(e_Epoch e \<noteq> None) = (e_Channel e = ChannelContext)"
      by (simp only: appendedRow_simps EpochForChannel_defined)
    then show ?thesis using storedAs_fields(6,7)[OF e(2)] by simp
  qed
  then show ?thesis using assms(1) by (auto simp: epochsOK_def)
qed

lemma created_other_invariants:
  "sequencesOK (appendBase d s_enc co fr cid r) = sequencesOK d" "epochsOK (appendBase d s_enc co fr cid r) = epochsOK d"
  using create_entries[OF surjective_pairing] by (simp_all add: appendBase_def sequencesOK_def epochsOK_def)

lemma append_invariant:
  assumes "storeOK d \<and> sequencesOK d \<and> epochsOK d" and "freshIDs d (fr_IDs fr) (length (sr_Entries r))"
    and "appendEntries d cache s_enc co fr cid r aa = Inr (d', cache', result)"
  shows "storeOK d' \<and> sequencesOK d' \<and> epochsOK d'"
proof (cases "sr_Entries r = []")
  case True
  then show ?thesis using assms by (simp add: appendEntries_def)
next
  case False
  let ?b = "appendBase d s_enc co fr cid r"
  from assms(1) have inv: "storeOK d" ..
  obtain c cs t u where "loadOrCreate d s_enc co fr cid r = Inr (?b, c)" and
    f: "storeOK ?b" "appendsAfter ?b (c_ConversationGroupID c) cid cs"
    "list_all2 (storedAs s_enc) result cs" "d' = touchConversation cid t u (appendEntriesTo ?b cs)"
    "insertEntries s_enc ?b result = Inr (appendEntriesTo ?b cs)"
    by (rule append_facts[OF inv assms(2) False assms(3)])
  obtain b bd g where rows: "result = appendedRows b bd cid g" using append_cases[OF assms(3) False] by metis
  have "sequencesOK ?b" "epochsOK ?b" using assms(1) created_other_invariants by simp_all
  then have "sequencesOK (appendEntriesTo ?b cs)" "epochsOK (appendEntriesTo ?b cs)"
    using insertEntries_sequencesOK[OF _ f(5)] stored_epochsOK[OF _ f(3)[unfolded rows]] by simp_all
  then show ?thesis
    using touchConversation_storeOK[OF append_storeOK[OF f(1,2)]] by (simp add: f(4) sequencesOK_def epochsOK_def)
qed

text \<open>
  An append keeps the store invariant, the uniqueness of the sequence
  numbers of a conversation, and the rule that exactly the context entries carry an epoch.
\<close>

theorem append_preserves_invariant:
  assumes "storeOK d \<and> sequencesOK d \<and> epochsOK d" and "freshIDs d (fr_IDs fr) (length (sr_Entries r))"
    and "appendEntries d cache s_enc co fr cid r aa = Inr (d', cache', result)"
  shows "storeOK d' \<and> sequencesOK d' \<and> epochsOK d'"
  by (rule append_invariant[OF assms])

lemma seenLoop_distinct:
  "seenLoop seen es \<longleftrightarrow> distinct (List.map_filter er_Seq es) \<and> set (List.map_filter er_Seq es) \<inter> seen = {}"
  by (induction es arbitrary: seen) (auto simp: List.map_filter_simps split: option.splits)

lemma insertEntries_seq_free:
  "insertEntries s_enc d es = Inr d' \<Longrightarrow> e \<in> set es \<Longrightarrow> e_Seq e = Some n \<Longrightarrow> x \<in> set (db_entries d) \<Longrightarrow>
   e_ConversationID x = e_ConversationID e \<Longrightarrow> e_Seq x \<noteq> Some n"
proof (induction es arbitrary: d)
  case (Cons a es)
  then obtain c where c: "insertEntry d (a\<lparr>e_Content := c\<rparr>) = Inr (appendEntriesTo d [a\<lparr>e_Content := c\<rparr>])"
      "insertEntries s_enc (appendEntriesTo d [a\<lparr>e_Content := c\<rparr>]) es = Inr d'"
    by (auto simp: andThen_eq_Inr insertEntry_def split: if_splits)
  show ?case
  proof (cases "e = a")
    case True
    then show ?thesis using c(1) Cons.prems by (auto simp: insertEntry_def entryKeyTaken_def split: if_splits)
  next
    case False
    then show ?thesis using Cons.IH[OF c(2)] Cons.prems by simp
  qed
qed simp

text \<open>
  C30 (append_sequence_conflict): an append fails when it repeats a sequence number in its request or
  uses one its conversation already has; a repetition is reported as a duplicate sequence.
\<close>

theorem append_sequence_conflict:
  assumes "storeOK d"
  shows "(\<not> distinct (List.map_filter er_Seq (sr_Entries r)) \<longrightarrow>
            appendEntries d cache s_enc co fr cid r aa = Inl DuplicateSequenceConflict)
       \<and> (q \<in> set (sr_Entries r) \<and> er_Seq q = Some n \<and> x \<in> set (db_entries d) \<and> e_ConversationID x = cid
            \<and> e_Seq x = Some n \<longrightarrow> (\<exists>err. appendEntries d cache s_enc co fr cid r aa = Inl err))"
proof (intro conjI impI)
  assume "\<not> distinct (List.map_filter er_Seq (sr_Entries r))"
  moreover from this have "sr_Entries r \<noteq> []" by (auto simp: List.map_filter_simps)
  ultimately show "appendEntries d cache s_enc co fr cid r aa = Inl DuplicateSequenceConflict"
    by (simp add: appendEntries_def ValidateAppendSequences_def seenLoop_distinct)
next
  assume q: "q \<in> set (sr_Entries r) \<and> er_Seq q = Some n \<and> x \<in> set (db_entries d) \<and> e_ConversationID x = cid \<and> e_Seq x = Some n"
  then have ne: "sr_Entries r \<noteq> []" by auto
  show "\<exists>err. appendEntries d cache s_enc co fr cid r aa = Inl err"
  proof (rule ccontr)
    assume "\<not> ?thesis"
    then obtain d' c' res where ok: "appendEntries d cache s_enc co fr cid r aa = Inr (d', c', res)"
      by (metis Inl_Inr_False obj_sumE prod_cases3)
    obtain d1 conv now bd d2 where c: "loadOrCreate d s_enc co fr cid r = Inr (d1, conv)"
      "res = appendedRows (NewAppendBatch (fr_IDs fr) r now) bd cid (c_ConversationGroupID conv)"
      "insertEntries s_enc d1 res = Inr d2"
      using append_cases[OF ok ne] by metis
    obtain i where i: "i < length (sr_Entries r)" "sr_Entries r ! i = q" using q by (auto simp: in_set_conv_nth)
    let ?e = "appendedRow (NewAppendBatch (fr_IDs fr) r now) bd cid (c_ConversationGroupID conv) i"
    have "?e \<in> set res" using i(1) by (simp add: c(2) appendedRows_def)
    then show False
      using insertEntries_seq_free[OF c(3), of ?e n x] q i(2) loadOrCreate_facts(3)[OF assms c(1)] by simp
  qed
qed

section \<open>A sample append\<close>

definition appendRequest :: SequencedAppendRequest where
  "appendRequest =
     \<lparr>sr_Entries = [emptyEntryRequest\<lparr>er_Content := ''[]'', er_Seq := Some 5\<rparr>,
                    emptyEntryRequest\<lparr>er_Content := ''[]'', er_Channel := ''CONTEXT''\<rparr>],
      sr_UserID = ''alice'', sr_ClientID = Some ''app'', sr_AgentID = None, sr_Epoch = None\<rparr>"

definition sampleFresh :: Fresh where
  "sampleFresh = \<lparr>fr_GroupID = ''g5'', fr_CreateNow = 10, fr_IDs = [''n1'', ''n2''], fr_Now = 10\<rparr>"

definition sampleAppended :: "(db \<times> entries_cache \<times> Entry list) result" where
  "sampleAppended = appendEntries sampleStore None None sampleCodec sampleFresh ''c1'' appendRequest False"

lemma sampleStore_invariants: "storeOK sampleStore \<and> sequencesOK sampleStore \<and> epochsOK sampleStore"
    "freshIDs sampleStore (fr_IDs sampleFresh) (length (sr_Entries appendRequest))"
  by (simp add: sampleStore_OK, code_simp) code_simp

lemma sampleAppended_ok:
  obtains d' cache' result where
    "appendEntries sampleStore None None sampleCodec sampleFresh ''c1'' appendRequest False = Inr (d', cache', result)"
    "sampleAppended = Inr (d', cache', result)"
proof -
  have "case sampleAppended of Inl _ \<Rightarrow> False | Inr _ \<Rightarrow> True" by code_simp
  then show thesis using that unfolding sampleAppended_def by (auto split: sum.splits)
qed

theorem append_extends_view_witness:
  "\<exists>conv d' cache' result stored. sampleAppended = Inr (d', cache', result)
     \<and> findConversation sampleStore ''c1'' = Some conv \<and> decryptEntries None stored = Inr result
     \<and> listVisibleEntriesForConversation d' conv = listVisibleEntriesForConversation sampleStore conv @ stored
     \<and> map e_ID result = [''n1'', ''n2'']"
proof -
  obtain d' cache' result where ok: "appendEntries sampleStore None None sampleCodec sampleFresh ''c1'' appendRequest False
      = Inr (d', cache', result)" "sampleAppended = Inr (d', cache', result)" by (rule sampleAppended_ok)
  obtain conv where conv: "findConversation sampleStore ''c1'' = Some conv"
  proof -
    have "findConversation sampleStore ''c1'' \<noteq> None" by code_simp
    then show thesis using that by blast
  qed
  have base: "appendBase sampleStore None sampleCodec sampleFresh ''c1'' appendRequest = sampleStore"
    by (simp add: appendBase_def conv)
  have "map_sum id (\<lambda>(d, c, es). map e_ID es) sampleAppended = Inr [''n1'', ''n2'']" by code_simp
  then have ids: "map e_ID result = [''n1'', ''n2'']" by (simp add: ok(2))
  have pre: "cipherOK None" "sr_Entries appendRequest \<noteq> []" by (simp_all add: cipherOK_def appendRequest_def)
  obtain stored where "decryptEntries None stored = Inr result"
      "listVisibleEntriesForConversation d' conv = listVisibleEntriesForConversation sampleStore conv @ stored"
    using append_extends_view[OF sampleStore_OK pre(1) sampleStore_invariants(2) ok(1) pre(2), of conv]
      findConversation_Some[OF conv] unfolding base by auto
  with ok(2) conv ids show ?thesis by (intro exI conjI)
qed

theorem append_preserves_invariant_witness:
  "\<exists>d' cache' result. sampleAppended = Inr (d', cache', result) \<and> storeOK d' \<and> sequencesOK d' \<and> epochsOK d'"
proof -
  obtain d' cache' result where ok: "appendEntries sampleStore None None sampleCodec sampleFresh ''c1'' appendRequest False
      = Inr (d', cache', result)" "sampleAppended = Inr (d', cache', result)" by (rule sampleAppended_ok)
  then show ?thesis using append_preserves_invariant[OF sampleStore_invariants ok(1)] by blast
qed

theorem append_sequence_conflict_witness:
  "appendEntries sampleStore None None sampleCodec sampleFresh ''c1''
     (appendRequest\<lparr>sr_Entries := sr_Entries appendRequest @ sr_Entries appendRequest\<rparr>) False = Inl DuplicateSequenceConflict"
  using append_sequence_conflict[OF sampleStore_OK, of "appendRequest\<lparr>sr_Entries := sr_Entries appendRequest @ sr_Entries appendRequest\<rparr>"]
  by (simp add: appendRequest_def emptyEntryRequest_def List.map_filter_simps)

end
