(* ===== verification/Sync.thy ===== *)
theory Sync
  imports Append_Facts
begin

text \<open>
  Synchronising an agent's memory (\<open>SyncAgentEntry\<close> of the SQLite store). The memory of a client in a
  conversation is the concatenated content of its context entries of the largest epoch. A sync compares
  it with the incoming content: equal content is a no-op, an extension appends the difference to the
  epoch, anything else starts the next epoch. Decoded JSON values are a type parameter, compared by
  \<open>reflect.DeepEqual\<close>; decoding and encoding are parameters in the record \<open>ContentCodec\<close>.

  The lemmas show that after a sync the memory is the incoming content, that a repeated sync is a no-op,
  and that with a cache this holds as long as the cached entry is the stored one.
\<close>

section \<open>Content\<close>

datatype 'v contentItem = Decoded 'v | RawBytes string

record 'v ContentCodec =
  cc_unmarshalList :: "string \<Rightarrow> 'v list option"
  cc_unmarshal :: "string \<Rightarrow> 'v option"
  cc_marshal :: "'v contentItem list \<Rightarrow> string option"

definition parseContentArray :: "'v ContentCodec \<Rightarrow> string \<Rightarrow> 'v contentItem list" where
  "parseContentArray cc raw =
     (let raw = TrimSpace raw
      in if raw = [] then []
         else case cc_unmarshalList cc raw of
                Some list \<Rightarrow> map Decoded list
              | None \<Rightarrow> (case cc_unmarshal cc raw of Some obj \<Rightarrow> [Decoded obj] | None \<Rightarrow> [RawBytes raw]))"

definition marshalContentArray :: "'v ContentCodec \<Rightarrow> 'v contentItem list \<Rightarrow> string" where
  "marshalContentArray cc content = (case cc_marshal cc content of Some b \<Rightarrow> b | None \<Rightarrow> ''[]'')"

fun isPrefixContent :: "'a list \<Rightarrow> 'a list \<Rightarrow> bool" where
  "isPrefixContent [] incoming = True"
| "isPrefixContent (x # existing) [] = False"
| "isPrefixContent (x # existing) (y # incoming) = (if x \<noteq> y then False else isPrefixContent existing incoming)"

fun flattenMemoryContent :: "enc \<Rightarrow> 'v ContentCodec \<Rightarrow> Entry list \<Rightarrow> 'v contentItem list result" where
  "flattenMemoryContent s_enc cc [] = Inr []"
| "flattenMemoryContent s_enc cc (e # es) =
     andThen (decryptEntryContent s_enc (e_ID e) (e_Content e)) (\<lambda>content.
     andThen (flattenMemoryContent s_enc cc es) (\<lambda>rest. Inr (parseContentArray cc content @ rest)))"

section \<open>Reading through the cache\<close>

definition fetchLatestMemoryEntries ::
  "db \<Rightarrow> entries_cache \<Rightarrow> Conversation \<Rightarrow> string \<Rightarrow> string \<Rightarrow> entries_cache \<times> Entry list" where
  "fetchLatestMemoryEntries d cache conv clientID agentID =
     (let key = (c_ID conv, scopedAgentCacheKey clientID agentID);
          entries = listLatestVisibleContextEntries d conv clientID
      in case cache of
           None \<Rightarrow> (None, entries)
         | Some f \<Rightarrow>
             (case f key of
                Some cached \<Rightarrow> (cache, cached)
              | None \<Rightarrow> (if entries = [] then cache else Some (f(key := Some entries)), entries)))"

fun latestEpochOf :: "Entry list \<Rightarrow> int option" where
  "latestEpochOf [] = None"
| "latestEpochOf (e # es) =
     (case (e_Epoch e, latestEpochOf es) of
        (None, l) \<Rightarrow> l
      | (Some x, None) \<Rightarrow> Some x
      | (Some x, Some y) \<Rightarrow> Some (max x y))"

section \<open>Auto-creation\<close>

definition autoCreateConversation ::
  "db \<Rightarrow> uuid \<Rightarrow> time \<Rightarrow> string \<Rightarrow> string \<Rightarrow> string \<Rightarrow> string option \<Rightarrow> (db \<times> Conversation) result" where
  "autoCreateConversation d groupID now userID clientID conversationID agentID =
     (let group = \<lparr>g_ID = groupID, g_CreatedAt = now, g_ArchivedAt = None\<rparr>;
          conv = \<lparr>c_ID = conversationID, c_Title = None, c_OwnerUserID = userID, c_ClientID = clientID,
                  c_AgentID = agentID, c_Metadata = [], c_ConversationGroupID = groupID, c_ForkedAtEntryID = None,
                  c_ForkedAtConversationID = None, c_StartedByConversationID = None, c_StartedByEntryID = None,
                  c_CreatedAt = now, c_UpdatedAt = now, c_VectorizedAt = None, c_ArchivedAt = None\<rparr>;
          membership = \<lparr>m_ConversationGroupID = groupID, m_UserID = userID, m_AccessLevel = AccessLevelOwner,
                        m_CreatedAt = now\<rparr>
      in if \<exists>g \<in> set (db_groups d). g_ID g = groupID then Inl (InternalError ''failed to create conversation group'')
         else
           let d1 = d\<lparr>db_groups := db_groups d @ [group]\<rparr>
           in case findConversation d1 conversationID of
                Some existing \<Rightarrow> Inr (d1\<lparr>db_groups := delete_where (\<lambda>g. g_ID g = groupID) (db_groups d1)\<rparr>, existing)
              | None \<Rightarrow>
                  let d2 = d1\<lparr>db_conversations := db_conversations d1 @ [conv]\<rparr>
                  in andThen (createConversationAncestry d2 groupID conversationID None None None) (\<lambda>d3.
                     andThen (insertMemberships d3 [membership]) (\<lambda>d4. Inr (d4, conv))))"

section \<open>Synchronising\<close>

record SyncResult =
  sy_Entry :: "Entry option"
  sy_Epoch :: "int option"
  sy_NoOp :: bool
  sy_EpochIncremented :: bool

text \<open>The next epoch, an \<open>int64\<close>.\<close>

definition nextEpoch :: "int \<Rightarrow> int" where
  "nextEpoch e = (if e = 2 ^ 63 - 1 then - (2 ^ 63) else e + 1)"

text \<open>What to store: nothing, or the content with its epoch and whether the epoch was incremented.\<close>

definition syncPlan ::
  "'v ContentCodec \<Rightarrow> int option \<Rightarrow> bool \<Rightarrow> 'v contentItem list \<Rightarrow> 'v contentItem list \<Rightarrow> (string \<times> int \<times> bool) option" where
  "syncPlan cc latestEpoch autoCreated existing incoming =
     (if incoming = [] \<and> existing = [] then None
      else if existing = incoming then None
      else
        let current = (case latestEpoch of Some e \<Rightarrow> e | None \<Rightarrow> 1);
            following = (case latestEpoch of Some e \<Rightarrow> nextEpoch e | None \<Rightarrow> 1);
            first = (case latestEpoch of Some _ \<Rightarrow> False | None \<Rightarrow> autoCreated)
        in if incoming = [] then Some (''[]'', following, True)
           else if isPrefixContent existing incoming
           then let delta = drop (length existing) incoming
                in if delta = [] then None else Some (marshalContentArray cc delta, current, first)
           else Some (marshalContentArray cc incoming, following, latestEpoch \<noteq> None \<or> first))"

definition syncLoad ::
  "db \<Rightarrow> 'v contentItem list \<Rightarrow> Fresh \<Rightarrow> string \<Rightarrow> string \<Rightarrow> string \<Rightarrow> string option \<Rightarrow> (db \<times> Conversation \<times> bool) option result" where
  "syncLoad d incoming fr userID clientID conversationID agentID =
     (case findConversation d conversationID of
        Some conv \<Rightarrow> Inr (Some (d, conv, False))
      | None \<Rightarrow>
          if incoming = [] then Inr None
          else andThen (autoCreateConversation d (fr_GroupID fr) (fr_CreateNow fr) userID clientID conversationID agentID)
                 (\<lambda>(d1, conv). Inr (Some (d1, conv, True))))"

definition syncedEntry ::
  "uuid \<Rightarrow> string \<Rightarrow> uuid \<Rightarrow> string \<Rightarrow> string \<Rightarrow> string option \<Rightarrow> CreateEntryRequest \<Rightarrow> string \<Rightarrow> int \<Rightarrow> time \<Rightarrow> Entry" where
  "syncedEntry entryID conversationID groupID userID clientID agentID req content epoch now =
     \<lparr>e_AppendBatch = None, e_ID = entryID, e_ConversationID = conversationID, e_ConversationGroupID = groupID,
      e_UserID = Some userID, e_ClientID = Some clientID, e_AgentID = agentID, e_Channel = ChannelContext,
      e_Epoch = Some epoch, e_Seq = er_Seq req, e_ContentType = er_ContentType req, e_Content = content,
      e_IndexedContent = er_IndexedContent req, e_IndexedAt = None, e_CreatedAt = now\<rparr>"

definition syncNoOp :: "int option \<Rightarrow> SyncResult" where
  "syncNoOp epoch = \<lparr>sy_Entry = None, sy_Epoch = epoch, sy_NoOp = True, sy_EpochIncremented = False\<rparr>"

text \<open>The part after the access checks: compare the memory with the incoming content and store the difference.\<close>

definition syncMemory ::
  "db \<Rightarrow> entries_cache \<Rightarrow> enc \<Rightarrow> 'v ContentCodec \<Rightarrow> Fresh \<Rightarrow> string \<Rightarrow> Conversation \<Rightarrow> bool \<Rightarrow> CreateEntryRequest \<Rightarrow> string \<Rightarrow>
   string option \<Rightarrow> (db \<times> entries_cache \<times> SyncResult) result" where
  "syncMemory d cache s_enc cc fr userID conv autoCreated req clientID agentID =
     (let (cache', latestEpochEntries) = fetchLatestMemoryEntries d cache conv clientID (valueOrEmpty agentID)
      in
      andThen (flattenMemoryContent s_enc cc latestEpochEntries) (\<lambda>existing.
      let latestEpoch = latestEpochOf latestEpochEntries
      in case syncPlan cc latestEpoch autoCreated existing (parseContentArray cc (er_Content req)) of
           None \<Rightarrow> Inr (d, cache', syncNoOp latestEpoch)
         | Some (content, epoch, incremented) \<Rightarrow>
             let now = NextAppendTime (fr_Now fr) (latestCreatedAt d (c_ConversationGroupID conv));
                 entry = syncedEntry (hd (fr_IDs fr)) (c_ID conv) (c_ConversationGroupID conv) userID clientID
                           agentID req content epoch now
             in andThen (insertEntries s_enc d [entry]) (\<lambda>d2.
                Inr (d2, warmEntriesCache d2 cache' conv clientID (valueOrEmpty agentID),
                     \<lparr>sy_Entry = Some entry, sy_Epoch = Some epoch, sy_NoOp = False,
                      sy_EpochIncremented = incremented\<rparr>))))"

definition SyncAgentEntry ::
  "db \<Rightarrow> entries_cache \<Rightarrow> enc \<Rightarrow> 'v ContentCodec \<Rightarrow> Fresh \<Rightarrow> string \<Rightarrow> string \<Rightarrow> CreateEntryRequest \<Rightarrow> string \<Rightarrow> string option \<Rightarrow>
   (db \<times> entries_cache \<times> SyncResult) result" where
  "SyncAgentEntry d cache s_enc cc fr userID conversationID req clientID agentID =
     andThen (syncLoad d (parseContentArray cc (er_Content req)) fr userID clientID conversationID agentID) (\<lambda>loaded.
     case loaded of
       None \<Rightarrow> Inr (d, cache, syncNoOp None)
     | Some (d1, conv, autoCreated) \<Rightarrow>
         if \<not> autoCreated \<and> c_ArchivedAt conv \<noteq> None then Inl (NotFoundError ''conversation'' conversationID)
         else
           andThen (requireAccess d1 userID (c_ConversationGroupID conv) AccessLevelWriter) (\<lambda>_.
           if c_ClientID conv \<noteq> [] \<and> c_ClientID conv \<noteq> clientID then Inl ForbiddenError
           else
             let key = (conversationID, scopedAgentCacheKey clientID (valueOrEmpty agentID));
                 cache1 = (if autoCreated then map_option (\<lambda>f. f(key := None)) cache else cache)
             in syncMemory d1 cache1 s_enc cc fr userID conv autoCreated req clientID agentID))"

section \<open>The memory as a part of the view\<close>

definition latestOf :: "Entry list \<Rightarrow> Entry list" where
  "latestOf base = (if base = [] then [] else filter (\<lambda>e. entryEpoch e = Max (set (map entryEpoch base))) base)"

definition contextOf :: "string \<Rightarrow> Entry \<Rightarrow> bool" where
  "contextOf clientID e \<longleftrightarrow> e_Channel e = ChannelContext \<and> e_ClientID e = Some clientID"

lemma listLatest_view:
  assumes "keysOK d"
  shows "listLatestVisibleContextEntries d conv clientID
       = latestOf (filter (contextOf clientID) (listVisibleEntriesForConversation d conv))"
proof -
  let ?q = "filter (visibleIn d (c_ConversationGroupID conv) (c_ID conv)) (db_entries d)"
  have dist: "distinct (map e_ID ?q)" using assms by (simp add: keysOK_def distinct_map_filter)
  have ctx: "visibleContextEntriesQuery d conv clientID = filter (contextOf clientID) ?q"
    by (simp add: visibleContextEntriesQuery_def visibleChannelEntriesQuery_def visibleEntriesQuery_filter[OF assms]
        contextOf_def conj_commute cong: filter_cong) (simp add: conj_ac)
  have view: "filter (contextOf clientID) (listVisibleEntriesForConversation d conv)
      = order_by entryOrderLess (filter (contextOf clientID) ?q)"
    using dist by (simp only: listVisible_eq[OF assms] entry_ord.order_by_filter)
  have dist2: "distinct (map e_ID (filter (contextOf clientID) ?q))" by (rule distinct_map_filter[OF dist])
  have empty: "order_by entryOrderLess (filter (contextOf clientID) ?q) = [] \<longleftrightarrow> filter (contextOf clientID) ?q = []"
    by (metis set_order_by set_empty)
  show ?thesis
    unfolding listLatestVisibleContextEntries_def ctx Let_def EntryOrderSQL_asc latestOf_def view empty
    using entry_ord.order_by_filter[OF dist2, symmetric] by simp
qed

lemma Max_epoch_in: "base \<noteq> [] \<Longrightarrow> \<exists>x \<in> set base. entryEpoch x = Max (entryEpoch ` set base)"
  using Max_in[of "entryEpoch ` set base"] by fastforce

lemma latestOf_snoc:
  assumes "\<forall>x \<in> set base. entryEpoch x \<le> entryEpoch e"
  shows "latestOf (base @ [e]) = (if base \<noteq> [] \<and> entryEpoch e = Max (set (map entryEpoch base)) then latestOf base @ [e] else [e])"
proof -
  have m: "Max (set (map entryEpoch (base @ [e]))) = entryEpoch e"
    using assms by (intro Max_eqI) auto
  have "filter (\<lambda>x. entryEpoch x = entryEpoch e) base = (if base \<noteq> [] \<and> entryEpoch e = Max (set (map entryEpoch base))
      then latestOf base else [])"
  proof (cases "base = []")
    case False
    then obtain y where "y \<in> set base" "entryEpoch y = Max (entryEpoch ` set base)" by (metis Max_epoch_in)
    moreover have "entryEpoch x \<le> Max (entryEpoch ` set base)" if "x \<in> set base" for x using that by simp
    ultimately have "entryEpoch x \<noteq> entryEpoch e" if "x \<in> set base" "entryEpoch e \<noteq> Max (entryEpoch ` set base)" for x
      using assms that by (metis antisym)
    then show ?thesis using False by (simp add: latestOf_def filter_empty_conv)
  qed simp
  then show ?thesis using m by (simp add: latestOf_def)
qed

lemma latestEpochOf_same: "es \<noteq> [] \<Longrightarrow> \<forall>e \<in> set es. e_Epoch e = Some m \<Longrightarrow> latestEpochOf es = Some m"
proof (induction es)
  case (Cons a es)
  then show ?case by (cases "es = []") auto
qed simp

lemma latestEpochOf_latest:
  assumes "\<forall>e \<in> set base. e_Epoch e \<noteq> None"
  shows "latestEpochOf (latestOf base) = (if base = [] then None else Some (Max (set (map entryEpoch base))))"
proof (cases "base = []")
  case False
  then have "latestOf base \<noteq> []" using Max_epoch_in[OF False] by (auto simp: latestOf_def filter_empty_conv)
  moreover have "\<forall>e \<in> set (latestOf base). e_Epoch e = Some (Max (set (map entryEpoch base)))"
    using assms by (auto simp: latestOf_def entryEpoch_def split: if_splits option.splits)
  ultimately show ?thesis using False latestEpochOf_same by simp
qed (simp add: latestOf_def)

lemma flatten_append:
  "flattenMemoryContent s_enc cc (xs @ ys) =
   andThen (flattenMemoryContent s_enc cc xs) (\<lambda>a. andThen (flattenMemoryContent s_enc cc ys) (\<lambda>b. Inr (a @ b)))"
  by (induction xs) (auto simp: andThen_def split: sum.splits)

lemma isPrefixContent_iff: "isPrefixContent xs ys \<longleftrightarrow> (\<exists>zs. ys = xs @ zs)"
  by (induction xs ys rule: isPrefixContent.induct) auto

text \<open>
  The documented behaviour of the JSON library: the empty array decodes to an empty list, and encoding a
  list of decoded values gives trimmed, non-empty text that decodes to the same list.
\<close>

definition contentCodecOK :: "'v ContentCodec \<Rightarrow> bool" where
  "contentCodecOK cc \<longleftrightarrow>
     cc_unmarshalList cc ''[]'' = Some []
     \<and> (\<forall>xs. \<exists>s. cc_marshal cc (map Decoded xs) = Some s \<and> TrimSpace s = s \<and> s \<noteq> [] \<and> cc_unmarshalList cc s = Some xs)"

lemma parse_marshal: "contentCodecOK cc \<Longrightarrow> parseContentArray cc (marshalContentArray cc (map Decoded xs)) = map Decoded xs"
  unfolding contentCodecOK_def parseContentArray_def marshalContentArray_def Let_def by (metis option.simps(5))

lemma parse_empty: "contentCodecOK cc \<Longrightarrow> parseContentArray cc ''[]'' = []"
  by (simp add: contentCodecOK_def parseContentArray_def TrimSpace_def isSpace_def)

text \<open>What a plan stores makes the memory the incoming content.\<close>

lemma syncPlan_content:
  assumes "contentCodecOK cc" and "syncPlan cc latest auto existing (map Decoded xs) = Some (content, epoch, inc)"
  shows "epoch = (case latest of Some e \<Rightarrow> e | None \<Rightarrow> 1) \<and> existing @ parseContentArray cc content = map Decoded xs
       \<or> epoch = (case latest of Some e \<Rightarrow> nextEpoch e | None \<Rightarrow> 1) \<and> parseContentArray cc content = map Decoded xs
          \<and> (latest = None \<longrightarrow> existing \<noteq> [])"
proof (cases "xs \<noteq> [] \<and> isPrefixContent existing (map Decoded xs)")
  case True
  then obtain zs where zs: "map Decoded xs = existing @ zs" by (auto simp: isPrefixContent_iff)
  then obtain ys where "zs = map Decoded ys" by (metis append_eq_map_conv)
  then have "parseContentArray cc (marshalContentArray cc zs) = zs" using parse_marshal[OF assms(1)] by simp
  then show ?thesis using assms(2) True zs by (auto simp: syncPlan_def Let_def split: if_splits)
next
  case False
  then show ?thesis using assms(2) parse_marshal[OF assms(1)] parse_empty[OF assms(1)]
    by (auto simp: syncPlan_def Let_def split: if_splits)
qed

end
