(* ===== verification/Sync_Facts.thy ===== *)
theory Sync_Facts
  imports Sync
begin

text \<open>
  Correctness of memory synchronisation: after a sync the client's memory is the incoming content, and
  repeating the sync changes nothing. The conversation a sync creates is, up to its title, the one a
  root creation makes, so it keeps the store invariant.
\<close>

section \<open>Auto-creation\<close>

definition syncCreateRequest :: "string \<Rightarrow> string \<Rightarrow> string \<Rightarrow> string option \<Rightarrow> CreateRequest" where
  "syncCreateRequest userID clientID conversationID agentID =
     \<lparr>cr_UserID = userID, cr_ClientID = clientID, cr_ConvID = conversationID, cr_Title = [], cr_Metadata = [],
      cr_AgentID = agentID, cr_ForkedAtConversationID = None, cr_ForkedAtEntryID = None,
      cr_StartedByConversationID = None, cr_StartedByEntryID = None\<rparr>"

lemma autoCreate_like_create:
  assumes "autoCreateConversation d gid now u cl cid ag = Inr (d1, conv)" and "findConversation d cid = None"
  shows "\<exists>t d2. createConversationWithID d None gid now (syncCreateRequest u cl cid ag) = (d2, t)
     \<and> db_conversations d1 = db_conversations d @ [conv] \<and> db_conversations d2 = db_conversations d @ [conv\<lparr>c_Title := Some []\<rparr>]
     \<and> db_groups d1 = db_groups d2 \<and> db_memberships d1 = db_memberships d2 \<and> db_ancestry d1 = db_ancestry d2
     \<and> db_entries d1 = db_entries d2 \<and> db_transfers d1 = db_transfers d2 \<and> db_entries d1 = db_entries d"
    and "c_ID conv = cid" "c_ArchivedAt conv = None" "c_ClientID conv = cl"
    and "db_memberships d1 = db_memberships d @ [\<lparr>m_ConversationGroupID = c_ConversationGroupID conv, m_UserID = u,
           m_AccessLevel = AccessLevelOwner, m_CreatedAt = now\<rparr>]"
proof -
  have none: "findConversation (d\<lparr>db_groups := gs\<rparr>) cid = None" for gs
    using assms(2) by (simp add: findConversation_def)
  have g: "\<not> (\<exists>g \<in> set (db_groups d). g_ID g = gid)"
    using assms(1) by (auto simp: autoCreateConversation_def Let_def split: if_splits)
  have m: "distinct (map membershipKey (db_memberships d @ [\<lparr>m_ConversationGroupID = gid, m_UserID = u,
      m_AccessLevel = AccessLevelOwner, m_CreatedAt = now\<rparr>]))"
    and conv: "conv = (newConversation (syncCreateRequest u cl cid ag)
        \<lparr>li_ActualGroupID = gid, li_OwnerUserID = u, li_CallerAccessLevel = AccessLevelOwner, li_MembershipsToCopy = [],
         li_SourceConv = None, li_AnchorOwnerDepth = None, li_StartedByConversationID = None, li_StartedByEntryID = None\<rparr> [] now)
        \<lparr>c_Title := None\<rparr>"
    and d1: "d1 = d\<lparr>db_groups := db_groups d @ [\<lparr>g_ID = gid, g_CreatedAt = now, g_ArchivedAt = None\<rparr>],
        db_conversations := db_conversations d @ [conv],
        db_ancestry := db_ancestry d @ [selfRow gid cid],
        db_memberships := db_memberships d @ [\<lparr>m_ConversationGroupID = gid, m_UserID = u,
            m_AccessLevel = AccessLevelOwner, m_CreatedAt = now\<rparr>]\<rparr>"
    using assms(1) g none
    by (auto simp: autoCreateConversation_def createConversationAncestry_def BuildConversationAncestrySegments_def
        fromSegment_def selfRow_def insertMemberships_def newConversation_def syncCreateRequest_def Let_def split: if_splits)
  have "snd (createConversationWithID d None gid now (syncCreateRequest u cl cid ag)) \<noteq> Inl e
      \<and> fst (createConversationWithID d None gid now (syncCreateRequest u cl cid ag))
        = d1\<lparr>db_conversations := db_conversations d @ [conv\<lparr>c_Title := Some []\<rparr>]\<rparr>" for e
    using assms(2) g none m unfolding d1 conv
    by (auto simp: createConversationWithID_def insertConversation_def resolveLineage_def encryptConversationTitle_def
        createConversationAncestry_def BuildConversationAncestrySegments_def fromSegment_def selfRow_def insertMemberships_def
        initialMemberships_def newConversation_def syncCreateRequest_def Let_def)
  then show "\<exists>t d2. createConversationWithID d None gid now (syncCreateRequest u cl cid ag) = (d2, t)
     \<and> db_conversations d1 = db_conversations d @ [conv] \<and> db_conversations d2 = db_conversations d @ [conv\<lparr>c_Title := Some []\<rparr>]
     \<and> db_groups d1 = db_groups d2 \<and> db_memberships d1 = db_memberships d2 \<and> db_ancestry d1 = db_ancestry d2
     \<and> db_entries d1 = db_entries d2 \<and> db_transfers d1 = db_transfers d2 \<and> db_entries d1 = db_entries d"
    by (cases "createConversationWithID d None gid now (syncCreateRequest u cl cid ag)") (simp add: d1)
  show "c_ID conv = cid" "c_ArchivedAt conv = None" "c_ClientID conv = cl"
    "db_memberships d1 = db_memberships d @ [\<lparr>m_ConversationGroupID = c_ConversationGroupID conv, m_UserID = u,
           m_AccessLevel = AccessLevelOwner, m_CreatedAt = now\<rparr>]"
    by (simp_all add: conv d1 newConversation_def syncCreateRequest_def)
qed

lemma autoCreate_storeOK:
  assumes "storeOK d" and "autoCreateConversation d gid now u cl cid ag = Inr (d1, conv)" and "findConversation d cid = None"
  shows "storeOK d1"
proof -
  obtain t d2 where c: "createConversationWithID d None gid now (syncCreateRequest u cl cid ag) = (d2, t)"
    and same: "db_conversations d1 = db_conversations d @ [conv]" "db_conversations d2 = db_conversations d @ [conv\<lparr>c_Title := Some []\<rparr>]"
      "db_groups d1 = db_groups d2" "db_memberships d1 = db_memberships d2" "db_ancestry d1 = db_ancestry d2"
      "db_entries d1 = db_entries d2" "db_transfers d1 = db_transfers d2"
    using autoCreate_like_create(1)[OF assms(2,3)] by (elim exE conjE) (rule that)
  have "storeOK d2" using create_storeOK[OF assms(1), of None gid now "syncCreateRequest u cl cid ag"] by (simp add: c)
  then show ?thesis by (rule storeOK_cong) (simp_all add: same)
qed

section \<open>The shape of a successful sync\<close>

lemma syncLoad_facts:
  assumes "storeOK d" and "syncLoad d incoming fr u cl cid ag = Inr (Some (d1, conv, auto))"
  shows "storeOK d1" and "db_entries d1 = db_entries d" and "findConversation d1 cid = Some conv"
    and "auto \<Longrightarrow> c_ArchivedAt conv = None \<and> c_ClientID conv = cl"
    and "\<not> auto \<Longrightarrow> d1 = d"
proof -
  consider "findConversation d cid = Some conv" "d1 = d" "\<not> auto"
    | "findConversation d cid = None" "autoCreateConversation d (fr_GroupID fr) (fr_CreateNow fr) u cl cid ag = Inr (d1, conv)" auto
    using assms(2) by (auto simp: syncLoad_def andThen_eq_Inr split: option.splits if_splits)
  then have "storeOK d1 \<and> db_entries d1 = db_entries d \<and> findConversation d1 cid = Some conv
      \<and> (auto \<longrightarrow> c_ArchivedAt conv = None \<and> c_ClientID conv = cl) \<and> (\<not> auto \<longrightarrow> d1 = d)"
  proof cases
    case 1
    then show ?thesis using assms(1) by simp
  next
    case 2
    note a = autoCreate_like_create[OF 2(2,1)]
    have "findConversation d1 cid = Some conv" "db_entries d1 = db_entries d"
      using a(1,2) 2(1) by (auto simp: findConversation_def find_append_None)
    then show ?thesis using autoCreate_storeOK[OF assms(1) 2(2,1)] a(3,4) 2(3) by simp
  qed
  then show "storeOK d1" "db_entries d1 = db_entries d" "findConversation d1 cid = Some conv"
    "auto \<Longrightarrow> c_ArchivedAt conv = None \<and> c_ClientID conv = cl" "\<not> auto \<Longrightarrow> d1 = d" by auto
qed

text \<open>A cached memory is the stored one.\<close>

definition cacheFresh :: "db \<Rightarrow> entries_cache \<Rightarrow> Conversation \<Rightarrow> string \<Rightarrow> string option \<Rightarrow> bool" where
  "cacheFresh d cache conv clientID agentID \<longleftrightarrow>
     (case cache of
        None \<Rightarrow> True
      | Some f \<Rightarrow> (case f (c_ID conv, scopedAgentCacheKey clientID (valueOrEmpty agentID)) of
                     None \<Rightarrow> True
                   | Some es \<Rightarrow> es = listLatestVisibleContextEntries d conv clientID))"

lemma fetch_fresh:
  assumes "cacheFresh d cache conv cl ag"
  shows "snd (fetchLatestMemoryEntries d cache conv cl (valueOrEmpty ag)) = listLatestVisibleContextEntries d conv cl"
    and "cacheFresh d (fst (fetchLatestMemoryEntries d cache conv cl (valueOrEmpty ag))) conv cl ag"
  using assms by (auto simp: cacheFresh_def fetchLatestMemoryEntries_def Let_def split: option.splits)

lemma warm_fresh: "cacheFresh d (warmEntriesCache d cache conv cl (valueOrEmpty ag)) conv cl ag"
  by (auto simp: cacheFresh_def warmEntriesCache_def Let_def split: option.splits)

text \<open>The outcome of a sync on a fresh cache entry.\<close>

lemma syncMemory_cases:
  assumes ok: "syncMemory d cache s_enc cc fr u conv auto req cl ag = Inr (d', cache', res)"
    and fresh: "cacheFresh d cache conv cl ag"
  obtains existing where
    "flattenMemoryContent s_enc cc (listLatestVisibleContextEntries d conv cl) = Inr existing"
    "cacheFresh d' cache' conv cl ag"
    "syncPlan cc (latestEpochOf (listLatestVisibleContextEntries d conv cl)) auto existing (parseContentArray cc (er_Content req)) = None
       \<and> d' = d \<and> sy_NoOp res
     \<or> (\<exists>content epoch inc t. syncPlan cc (latestEpochOf (listLatestVisibleContextEntries d conv cl)) auto existing
            (parseContentArray cc (er_Content req)) = Some (content, epoch, inc)
          \<and> insertEntries s_enc d [syncedEntry (hd (fr_IDs fr)) (c_ID conv) (c_ConversationGroupID conv) u cl ag req content epoch
              (NextAppendTime t (latestCreatedAt d (c_ConversationGroupID conv)))] = Inr d')"
proof -
  obtain cache2 es where f: "fetchLatestMemoryEntries d cache conv cl (valueOrEmpty ag) = (cache2, es)" by fastforce
  have es: "es = listLatestVisibleContextEntries d conv cl" "cacheFresh d cache2 conv cl ag"
    using fetch_fresh[OF fresh] f by simp_all
  obtain existing where ex: "flattenMemoryContent s_enc cc es = Inr existing"
    using ok by (auto simp: syncMemory_def f andThen_eq_Inr Let_def)
  have rest: "(case syncPlan cc (latestEpochOf es) auto existing (parseContentArray cc (er_Content req)) of
      None \<Rightarrow> d' = d \<and> cache' = cache2 \<and> sy_NoOp res
    | Some (content, epoch, inc) \<Rightarrow>
        insertEntries s_enc d [syncedEntry (hd (fr_IDs fr)) (c_ID conv) (c_ConversationGroupID conv) u cl ag req content epoch
              (NextAppendTime (fr_Now fr) (latestCreatedAt d (c_ConversationGroupID conv)))] = Inr d'
        \<and> cache' = warmEntriesCache d' cache2 conv cl (valueOrEmpty ag))"
    using ok by (auto simp: syncMemory_def f ex andThen_eq_Inr Let_def syncNoOp_def simp del: insertEntries.simps split: option.splits)
  then have "cacheFresh d' cache' conv cl ag" using es(2) warm_fresh by (auto split: option.splits)
  then show thesis using that[OF ex[unfolded es(1)]] rest es(1) by (auto simp del: insertEntries.simps split: option.splits)
qed

lemma sync_cases:
  assumes ok: "SyncAgentEntry d cache s_enc cc fr u cid req cl ag = Inr (d', cache', res)"
    and load: "syncLoad d (parseContentArray cc (er_Content req)) fr u cl cid ag = Inr (Some (d1, conv, auto))"
    and fresh: "auto \<or> cacheFresh d cache conv cl ag" and same: "\<not> auto \<longrightarrow> d1 = d" and "c_ID conv = cid"
  obtains cache1 access where
    "syncMemory d1 cache1 s_enc cc fr u conv auto req cl ag = Inr (d', cache', res)" "cacheFresh d1 cache1 conv cl ag"
    "requireAccess d1 u (c_ConversationGroupID conv) AccessLevelWriter = Inr access"
    "auto \<or> c_ArchivedAt conv = None" "c_ClientID conv = [] \<or> c_ClientID conv = cl"
proof -
  define cache1 where "cache1 = (if auto then map_option (\<lambda>f. f((cid, scopedAgentCacheKey cl (valueOrEmpty ag)) := None)) cache else cache)"
  have "cacheFresh d1 cache1 conv cl ag"
    using fresh same assms(5) by (auto simp: cache1_def cacheFresh_def split: option.splits)
  moreover obtain access where "requireAccess d1 u (c_ConversationGroupID conv) AccessLevelWriter = Inr access"
      "auto \<or> c_ArchivedAt conv = None" "c_ClientID conv = [] \<or> c_ClientID conv = cl"
      "syncMemory d1 cache1 s_enc cc fr u conv auto req cl ag = Inr (d', cache', res)"
    using ok unfolding SyncAgentEntry_def load Let_def andThen_simps cache1_def[symmetric] option.case prod.case
    by (simp add: andThen_eq_Inr split: if_splits) blast+
  ultimately show thesis using that by blast
qed

section \<open>After a sync\<close>

definition epochsBounded :: "db \<Rightarrow> bool" where
  "epochsBounded d \<longleftrightarrow> (\<forall>e \<in> set (db_entries d). entryEpoch e < 2 ^ 63 - 1)"

lemma synced_after:
  assumes "storeOK d" and "isConversation d g c" and "freshIDs d ids 1"
    and "insertEntries s_enc d [syncedEntry (hd ids) c g u cl ag req content epoch (NextAppendTime t (latestCreatedAt d g))] = Inr d'"
  obtains e where "d' = appendEntriesTo d [e]" "appendsAfter d g c [e]" "e_Epoch e = Some epoch" "contextOf cl e"
    "encryptEntryContent s_enc (e_ID e) content = Inr (e_Content e)"
proof -
  let ?p = "syncedEntry (hd ids) c g u cl ag req content epoch (NextAppendTime t (latestCreatedAt d g))"
  obtain cs where "d' = appendEntriesTo d cs" "list_all2 (storedAs s_enc) [?p] cs" using insertEntries_stored[OF assms(4)] by blast
  then obtain e where e: "d' = appendEntriesTo d [e]" "storedAs s_enc ?p e" by (auto simp: list_all2_Cons1)
  note f = storedAs_fields[OF e(2)]
  have after: "latestCreatedAt d g < e_CreatedAt e" using NextAppendTime_after by (simp add: f syncedEntry_def)
  have "entryOrderLess x e" if "x \<in> set (db_entries d)" "e_ConversationGroupID x = g" for x
    using latestCreatedAt_ge[OF that] after by (intro entryOrderLess_time) simp
  moreover have "distinct (map e_ID (db_entries d @ [e]))"
    using storeOK_D(4)[OF assms(1)] assms(3) by (cases ids) (auto simp: keysOK_def freshIDs_def f syncedEntry_def)
  ultimately have "appendsAfter d g c [e]" using assms(2) by (simp add: appendsAfter_def f syncedEntry_def)
  moreover have "e_Epoch e = Some epoch" "contextOf cl e" by (simp_all add: contextOf_def f syncedEntry_def)
  moreover have "encryptEntryContent s_enc (e_ID e) content = Inr (e_Content e)"
    using e(2) f(1) by (simp add: storedAs_def syncedEntry_def)
  ultimately show thesis using that e(1) by blast
qed

text \<open>What a successful sync does to the tables, whatever the cache holds.\<close>

lemma sync_outcome:
  assumes "storeOK d" and "freshIDs d (fr_IDs fr) 1"
    and op: "SyncAgentEntry d cache s_enc cc fr u cid req cl ag = Inr (d', cache', res)"
  obtains "d' = d"
  | d1 conv auto access where
      "syncLoad d (parseContentArray cc (er_Content req)) fr u cl cid ag = Inr (Some (d1, conv, auto))"
      "requireAccess d1 u (c_ConversationGroupID conv) AccessLevelWriter = Inr access" "d' = d1"
  | d1 conv auto access e where
      "syncLoad d (parseContentArray cc (er_Content req)) fr u cl cid ag = Inr (Some (d1, conv, auto))"
      "requireAccess d1 u (c_ConversationGroupID conv) AccessLevelWriter = Inr access"
      "d' = appendEntriesTo d1 [e]" "appendsAfter d1 (c_ConversationGroupID conv) cid [e]"
      "contextOf cl e" "e_Epoch e \<noteq> None" "sequencesOK d1 \<longrightarrow> sequencesOK d'"
proof -
  obtain loaded where load0: "syncLoad d (parseContentArray cc (er_Content req)) fr u cl cid ag = Inr loaded"
    using op by (auto simp: SyncAgentEntry_def andThen_eq_Inr)
  show thesis
  proof (cases loaded)
    case None
    then show thesis using op load0 that(1) by (simp add: SyncAgentEntry_def)
  next
    case (Some l)
    obtain d1 conv auto where "l = (d1, conv, auto)" by (cases l) auto
    with Some load0 have load: "syncLoad d (parseContentArray cc (er_Content req)) fr u cl cid ag = Inr (Some (d1, conv, auto))" by simp
    note f = syncLoad_facts[OF assms(1) load]
    have conv: "c_ID conv = cid" "isConversation d1 (c_ConversationGroupID conv) cid"
      using findConversation_Some[OF f(3)] by (auto simp: isConversation_def)
    obtain access cache1 where a: "requireAccess d1 u (c_ConversationGroupID conv) AccessLevelWriter = Inr access"
        "syncMemory d1 cache1 s_enc cc fr u conv auto req cl ag = Inr (d', cache', res)"
      using op unfolding SyncAgentEntry_def load by (auto simp: andThen_eq_Inr Let_def split: if_splits)
    then have "d' = d1 \<or> (\<exists>content epoch. insertEntries s_enc d1 [syncedEntry (hd (fr_IDs fr)) (c_ID conv) (c_ConversationGroupID conv)
        u cl ag req content epoch (NextAppendTime (fr_Now fr) (latestCreatedAt d1 (c_ConversationGroupID conv)))] = Inr d')"
      by (auto simp: syncMemory_def andThen_eq_Inr Let_def simp del: insertEntries.simps split: option.splits prod.splits)
    then show thesis
    proof (elim disjE exE)
      assume "d' = d1"
      then show thesis using that(2)[OF load a(1)] by simp
    next
      fix content epoch
      assume ins: "insertEntries s_enc d1 [syncedEntry (hd (fr_IDs fr)) (c_ID conv) (c_ConversationGroupID conv)
        u cl ag req content epoch (NextAppendTime (fr_Now fr) (latestCreatedAt d1 (c_ConversationGroupID conv)))] = Inr d'"
      have "freshIDs d1 (fr_IDs fr) 1" using assms(2) f(2) by (simp add: freshIDs_def)
      then obtain e where "d' = appendEntriesTo d1 [e]" "appendsAfter d1 (c_ConversationGroupID conv) cid [e]"
          "e_Epoch e = Some epoch" "contextOf cl e"
        using synced_after[OF f(1) conv(2) _ ins[unfolded conv(1)]] by metis
      then show thesis using that(3)[OF load a(1)] insertEntries_sequencesOK[OF _ ins] by simp
    qed
  qed
qed

text \<open>One stored entry turns the memory into the incoming content.\<close>

lemma memory_after_entry:
  assumes inv: "storeOK d" "epochsOK d" "epochsBounded d" and "cipherOK s_enc" and cc: "contentCodecOK cc"
    and after: "appendsAfter d (c_ConversationGroupID conv) (c_ID conv) [e]" and e: "e_Epoch e = Some epoch" "contextOf cl e"
    and enc: "encryptEntryContent s_enc (e_ID e) content = Inr (e_Content e)"
    and ex: "flattenMemoryContent s_enc cc (listLatestVisibleContextEntries d conv cl) = Inr existing"
    and plan: "syncPlan cc (latestEpochOf (listLatestVisibleContextEntries d conv cl)) auto existing (map Decoded xs) = Some (content, epoch, inc)"
  shows "flattenMemoryContent s_enc cc (listLatestVisibleContextEntries (appendEntriesTo d [e]) conv cl) = Inr (map Decoded xs)"
proof -
  define base where "base = filter (contextOf cl) (listVisibleEntriesForConversation d conv)"
  have k: "keysOK d" "keysOK (appendEntriesTo d [e])" using inv(1) append_storeOK[OF inv(1) after] by (auto intro: storeOK_D)
  have old: "listLatestVisibleContextEntries d conv cl = latestOf base" by (simp add: listLatest_view[OF k(1)] base_def)
  have new: "listLatestVisibleContextEntries (appendEntriesTo d [e]) conv cl = latestOf (base @ [e])"
    using append_view[OF storeOK_D(1)[OF inv(1)] after, of conv] e(2) by (simp add: listLatest_view[OF k(2)] base_def)
  have sub: "x \<in> set (db_entries d)" if "x \<in> set base" for x using that by (simp add: base_def listVisible_set[OF k(1)])
  have "\<forall>x \<in> set base. e_Epoch x \<noteq> None" using inv(2) sub by (auto simp del: not_None_eq simp: base_def epochsOK_def contextOf_def)
  note latest = latestEpochOf_latest[OF this]
  have dec: "flattenMemoryContent s_enc cc [e] = Inr (parseContentArray cc content)"
    using content_roundtrip[OF assms(4) enc] by simp
  have ee: "entryEpoch e = epoch" using e(1) by (simp add: entryEpoch_def)
  have bound: "nextEpoch (Max (set (map entryEpoch base))) = Max (set (map entryEpoch base)) + 1" if b: "base \<noteq> []"
  proof -
    obtain x where "x \<in> set base" "entryEpoch x = Max (set (map entryEpoch base))" using Max_epoch_in[OF b] by auto
    then show ?thesis using inv(3) sub[of x] by (auto simp: epochsBounded_def nextEpoch_def)
  qed
  consider "base = []" "parseContentArray cc content = map Decoded xs"
    | "base \<noteq> []" "epoch = Max (set (map entryEpoch base))" "existing @ parseContentArray cc content = map Decoded xs"
    | "base \<noteq> []" "epoch = Max (set (map entryEpoch base)) + 1" "parseContentArray cc content = map Decoded xs"
  proof -
    have "existing = []" if "base = []" using ex that by (simp add: old latestOf_def)
    then show thesis using syncPlan_content[OF cc plan] that bound unfolding old latest
      by (cases "base = []") auto
  qed
  then show ?thesis
  proof cases
    case 1
    then show ?thesis using dec by (simp add: new latestOf_def del: flattenMemoryContent.simps)
  next
    case 2
    then have "latestOf (base @ [e]) = latestOf base @ [e]" by (subst latestOf_snoc) (auto simp: ee)
    then show ?thesis using ex dec 2(3) by (simp add: new old flatten_append del: flattenMemoryContent.simps)
  next
    case 3
    have "entryEpoch x \<le> epoch" if "x \<in> set base" for x
      using 3(2) that Max_ge[of "entryEpoch ` set base" "entryEpoch x"] by (simp del: Max_ge)
    then have "latestOf (base @ [e]) = [e]" using 3 by (subst latestOf_snoc) (auto simp: ee)
    then show ?thesis using dec 3(3) by (simp add: new del: flattenMemoryContent.simps)
  qed
qed

lemma sync_result:
  assumes inv: "storeOK d" "epochsOK d" "epochsBounded d" and "cipherOK s_enc" and "contentCodecOK cc"
    and incoming: "parseContentArray cc (er_Content req) = map Decoded xs"
    and ids: "freshIDs d (fr_IDs fr) 1"
    and cache: "\<forall>c. findConversation d cid = Some c \<longrightarrow> cacheFresh d cache c cl ag"
    and ok: "SyncAgentEntry d cache s_enc cc fr u cid req cl ag = Inr (d', cache', res)"
    and conv: "findConversation d' cid = Some conv"
  obtains access where
    "flattenMemoryContent s_enc cc (listLatestVisibleContextEntries d' conv cl) = Inr (map Decoded xs)"
    "cacheFresh d' cache' conv cl ag" "storeOK d'" "epochsOK d'"
    "requireAccess d' u (c_ConversationGroupID conv) AccessLevelWriter = Inr access"
    "c_ArchivedAt conv = None" "c_ClientID conv = [] \<or> c_ClientID conv = cl"
proof -
  obtain loaded where load0: "syncLoad d (map Decoded xs) fr u cl cid ag = Inr loaded"
    using ok by (auto simp: SyncAgentEntry_def andThen_eq_Inr incoming)
  obtain d1 c auto where load: "syncLoad d (map Decoded xs) fr u cl cid ag = Inr (Some (d1, c, auto))"
  proof (cases loaded)
    case None
    then have "findConversation d cid = None" "d' = d"
      using load0 ok by (auto simp: syncLoad_def SyncAgentEntry_def incoming andThen_eq_Inr split: option.splits if_splits)
    then show thesis using conv by simp
  qed (use load0 that in auto)
  note l = syncLoad_facts[OF inv(1) load]
  have cid: "c_ID c = cid" using findConversation_Some[OF l(3)] by simp
  have fresh: "auto \<or> cacheFresh d cache c cl ag" using cache l(3,5) by auto
  obtain cache1 access where m: "syncMemory d1 cache1 s_enc cc fr u c auto req cl ag = Inr (d', cache', res)"
      "cacheFresh d1 cache1 c cl ag" "requireAccess d1 u (c_ConversationGroupID c) AccessLevelWriter = Inr access"
      "auto \<or> c_ArchivedAt c = None" "c_ClientID c = [] \<or> c_ClientID c = cl"
    using sync_cases[OF ok load[folded incoming] fresh _ cid] l(5) by blast
  obtain existing where e: "flattenMemoryContent s_enc cc (listLatestVisibleContextEntries d1 c cl) = Inr existing"
      "cacheFresh d' cache' c cl ag" and
    out: "syncPlan cc (latestEpochOf (listLatestVisibleContextEntries d1 c cl)) auto existing (map Decoded xs) = None
       \<and> d' = d1 \<and> sy_NoOp res
     \<or> (\<exists>content epoch inc t. syncPlan cc (latestEpochOf (listLatestVisibleContextEntries d1 c cl)) auto existing
            (map Decoded xs) = Some (content, epoch, inc)
          \<and> insertEntries s_enc d1 [syncedEntry (hd (fr_IDs fr)) (c_ID c) (c_ConversationGroupID c) u cl ag req content epoch
              (NextAppendTime t (latestCreatedAt d1 (c_ConversationGroupID c)))] = Inr d')"
    by (rule syncMemory_cases[OF m(1,2), unfolded incoming])
  have inv1: "epochsOK d1" "epochsBounded d1" "freshIDs d1 (fr_IDs fr) 1"
    using inv(2,3) ids l(2) by (simp_all add: epochsOK_def epochsBounded_def freshIDs_def)
  have isc: "isConversation d1 (c_ConversationGroupID c) (c_ID c)"
    using findConversation_Some[OF l(3)] by (auto simp: isConversation_def)
  have "flattenMemoryContent s_enc cc (listLatestVisibleContextEntries d' c cl) = Inr (map Decoded xs)
      \<and> storeOK d' \<and> epochsOK d' \<and> db_memberships d' = db_memberships d1 \<and> db_conversations d' = db_conversations d1"
    using out
  proof (elim disjE conjE exE)
    assume "syncPlan cc (latestEpochOf (listLatestVisibleContextEntries d1 c cl)) auto existing (map Decoded xs) = None" "d' = d1"
    then show ?thesis using e(1) l(1) inv1(1)
      by (auto simp: syncPlan_def Let_def isPrefixContent_iff split: if_splits option.splits)
  next
    fix content epoch inc t
    assume plan: "syncPlan cc (latestEpochOf (listLatestVisibleContextEntries d1 c cl)) auto existing (map Decoded xs)
        = Some (content, epoch, inc)"
      and ins: "insertEntries s_enc d1 [syncedEntry (hd (fr_IDs fr)) (c_ID c) (c_ConversationGroupID c) u cl ag req content epoch
              (NextAppendTime t (latestCreatedAt d1 (c_ConversationGroupID c)))] = Inr d'"
    obtain n where n: "d' = appendEntriesTo d1 [n]" "appendsAfter d1 (c_ConversationGroupID c) (c_ID c) [n]"
        "e_Epoch n = Some epoch" "contextOf cl n" "encryptEntryContent s_enc (e_ID n) content = Inr (e_Content n)"
      by (rule synced_after[OF l(1) isc inv1(3) ins])
    have "epochsOK d'" using inv1(1) n(3,4) by (simp add: n(1) epochsOK_def contextOf_def)
    then show ?thesis
      using memory_after_entry[OF l(1) inv1(1,2) assms(4,5) n(2-5) e(1) plan] append_storeOK[OF l(1) n(2)] by (simp add: n(1))
  qed
  moreover from this have "c = conv" using l(3) conv by (simp add: findConversation_def)
  ultimately show thesis using that e(2) m(3-5) l(4) by (auto simp: requireAccess_def)
qed

text \<open>
  C10 (sync_stores_incoming): after a successful sync the memory of the client in the conversation is the
  incoming content, whether the sync was a no-op, extended the epoch, cleared it or started the next one.
  Three conditions come with it. The entries cache, if there is one, holds nothing for this client and agent
  or what the database holds (\<open>cacheFresh\<close>, which the sync keeps); \<open>cache_stale_between_agents\<close> below shows
  that a second agent of the client can violate it and that the claim then fails. No epoch has reached the
  largest 64-bit value (\<open>epochsBounded\<close>), so that the next epoch does not wrap around. And the incoming
  content is an array whose elements all decode.
\<close>

theorem sync_stores_incoming:
  assumes "storeOK d" "epochsOK d" "epochsBounded d" and "cipherOK s_enc" and "contentCodecOK cc"
    and "parseContentArray cc (er_Content req) = map Decoded xs" and "freshIDs d (fr_IDs fr) 1"
    and "\<forall>c. findConversation d cid = Some c \<longrightarrow> cacheFresh d cache c cl ag"
    and "SyncAgentEntry d cache s_enc cc fr u cid req cl ag = Inr (d', cache', res)"
    and "findConversation d' cid = Some conv"
  shows "flattenMemoryContent s_enc cc (listLatestVisibleContextEntries d' conv cl) = Inr (map Decoded xs)
       \<and> cacheFresh d' cache' conv cl ag \<and> storeOK d' \<and> epochsOK d'"
  using sync_result[OF assms] by blast

text \<open>
  Repeating a successful sync is a no-op: it stores nothing and reports so.
\<close>

theorem sync_idempotent:
  assumes "storeOK d" "epochsOK d" "epochsBounded d" and "cipherOK s_enc" and "contentCodecOK cc"
    and "parseContentArray cc (er_Content req) = map Decoded xs" and "freshIDs d (fr_IDs fr) 1"
    and "\<forall>c. findConversation d cid = Some c \<longrightarrow> cacheFresh d cache c cl ag"
    and "SyncAgentEntry d cache s_enc cc fr u cid req cl ag = Inr (d', cache', res)"
    and "findConversation d' cid = Some conv"
  shows "\<exists>cache2 res2. SyncAgentEntry d' cache' s_enc cc fr2 u cid req cl ag = Inr (d', cache2, res2) \<and> sy_NoOp res2"
proof -
  obtain access where r: "flattenMemoryContent s_enc cc (listLatestVisibleContextEntries d' conv cl) = Inr (map Decoded xs)"
    "cacheFresh d' cache' conv cl ag" "requireAccess d' u (c_ConversationGroupID conv) AccessLevelWriter = Inr access"
    "c_ArchivedAt conv = None" "c_ClientID conv = [] \<or> c_ClientID conv = cl"
    using sync_result[OF assms] by blast
  obtain cache2 es where f: "fetchLatestMemoryEntries d' cache' conv cl (valueOrEmpty ag) = (cache2, es)" by fastforce
  then have "es = listLatestVisibleContextEntries d' conv cl" using fetch_fresh(1)[OF r(2)] by simp
  moreover have "syncPlan cc l a (map Decoded xs) (map Decoded xs) = None" for l a by (simp add: syncPlan_def)
  ultimately have "syncMemory d' cache' s_enc cc fr2 u conv False req cl ag
      = Inr (d', cache2, syncNoOp (latestEpochOf (listLatestVisibleContextEntries d' conv cl)))"
    using r(1) by (simp add: syncMemory_def f assms(6))
  moreover have "syncLoad d' (parseContentArray cc (er_Content req)) fr2 u cl cid ag = Inr (Some (d', conv, False))"
    using assms(10) by (simp add: syncLoad_def)
  ultimately show ?thesis
    using r(3-5) by (auto simp: SyncAgentEntry_def syncNoOp_def)
qed

section \<open>Sample syncs\<close>

text \<open>A codec for lists of characters, written between brackets.\<close>

definition charCodec :: "char ContentCodec" where
  "charCodec =
     \<lparr>cc_unmarshalList = (\<lambda>s. if 2 \<le> length s \<and> hd s = CHR ''['' \<and> last s = CHR '']'' then Some (butlast (tl s)) else None),
      cc_unmarshal = (\<lambda>_. None),
      cc_marshal = (\<lambda>items. Some (CHR ''['' # concat (map (\<lambda>i. case i of Decoded c \<Rightarrow> [c] | RawBytes s \<Rightarrow> s) items) @ '']''))\<rparr>"

lemma charCodec_ok: "contentCodecOK charCodec"
proof -
  have "concat (map ((\<lambda>i. case i of Decoded c \<Rightarrow> [c] | RawBytes s \<Rightarrow> s) \<circ> Decoded) xs) = xs" for xs :: string
    by (induction xs) auto
  then show ?thesis by (auto simp: contentCodecOK_def charCodec_def TrimSpace_def isSpace_def)
qed

definition syncContent :: "string \<Rightarrow> CreateEntryRequest" where
  "syncContent items = emptyEntryRequest\<lparr>er_Content := CHR ''['' # items @ '']''\<rparr>"

lemma parse_syncContent: "parseContentArray charCodec (er_Content (syncContent items)) = map Decoded items"
  by (simp add: parseContentArray_def syncContent_def charCodec_def TrimSpace_def isSpace_def)

definition syncSample :: "db \<times> entries_cache \<Rightarrow> uuid \<Rightarrow> string \<Rightarrow> string \<Rightarrow> db \<times> entries_cache" where
  "syncSample st entryID agent items =
     (case SyncAgentEntry (fst st) (snd st) None charCodec \<lparr>fr_GroupID = ''g5'', fr_CreateNow = 10, fr_IDs = [entryID], fr_Now = 10\<rparr>
             ''alice'' ''c1'' (syncContent items) ''app'' (Some agent) of
        Inl _ \<Rightarrow> st | Inr (d, c, _) \<Rightarrow> (d, c))"

lemma syncSample_ok:
  obtains d' cache' res conv where
    "SyncAgentEntry sampleStore None None charCodec \<lparr>fr_GroupID = ''g5'', fr_CreateNow = 10, fr_IDs = [''n1''], fr_Now = 10\<rparr>
       ''alice'' ''c1'' (syncContent ''ab'') ''app'' (Some ''a1'') = Inr (d', cache', res)"
    "findConversation d' ''c1'' = Some conv" "syncSample (sampleStore, None) ''n1'' ''a1'' ''ab'' = (d', cache')"
proof -
  let ?r = "SyncAgentEntry sampleStore None None charCodec \<lparr>fr_GroupID = ''g5'', fr_CreateNow = 10, fr_IDs = [''n1''], fr_Now = 10\<rparr>
       ''alice'' ''c1'' (syncContent ''ab'') ''app'' (Some ''a1'')"
  have "case ?r of Inl _ \<Rightarrow> False | Inr (d, _, _) \<Rightarrow> findConversation d ''c1'' \<noteq> None" by code_simp
  then show thesis using that by (auto simp: syncSample_def split: sum.splits prod.splits)
qed

lemma sampleStore_sync: "epochsBounded sampleStore" "freshIDs sampleStore [''n1''] 1"
  by code_simp+

theorem sync_stores_incoming_witness:
  "\<exists>conv. findConversation (fst (syncSample (sampleStore, None) ''n1'' ''a1'' ''ab'')) ''c1'' = Some conv
     \<and> flattenMemoryContent None charCodec
         (listLatestVisibleContextEntries (fst (syncSample (sampleStore, None) ''n1'' ''a1'' ''ab'')) conv ''app'')
       = Inr (map Decoded ''ab'')"
proof -
  obtain d' cache' res conv where c:
    "SyncAgentEntry sampleStore None None charCodec \<lparr>fr_GroupID = ''g5'', fr_CreateNow = 10, fr_IDs = [''n1''], fr_Now = 10\<rparr>
       ''alice'' ''c1'' (syncContent ''ab'') ''app'' (Some ''a1'') = Inr (d', cache', res)"
    "findConversation d' ''c1'' = Some conv" "syncSample (sampleStore, None) ''n1'' ''a1'' ''ab'' = (d', cache')"
    by (rule syncSample_ok)
  have "cipherOK None" by (simp add: cipherOK_def)
  note t = sync_stores_incoming[OF sampleStore_OK _ sampleStore_sync(1) this charCodec_ok parse_syncContent _ _ c(1,2)]
  show ?thesis using t c(2,3) sampleStore_invariants(1) sampleStore_sync(2) by (simp add: cacheFresh_def)
qed

theorem sync_idempotent_witness:
  "fst (syncSample (syncSample (sampleStore, None) ''n1'' ''a1'' ''ab'') ''n1'' ''a1'' ''ab'')
     = fst (syncSample (sampleStore, None) ''n1'' ''a1'' ''ab'')"
proof -
  obtain d' cache' res conv where c:
    "SyncAgentEntry sampleStore None None charCodec \<lparr>fr_GroupID = ''g5'', fr_CreateNow = 10, fr_IDs = [''n1''], fr_Now = 10\<rparr>
       ''alice'' ''c1'' (syncContent ''ab'') ''app'' (Some ''a1'') = Inr (d', cache', res)"
    "findConversation d' ''c1'' = Some conv" "syncSample (sampleStore, None) ''n1'' ''a1'' ''ab'' = (d', cache')"
    by (rule syncSample_ok)
  have "cipherOK None" by (simp add: cipherOK_def)
  note t = sync_idempotent[OF sampleStore_OK _ sampleStore_sync(1) this charCodec_ok parse_syncContent _ _ c(1,2)]
  obtain cache2 res2 where "SyncAgentEntry d' cache' None charCodec
      \<lparr>fr_GroupID = ''g5'', fr_CreateNow = 10, fr_IDs = [''n1''], fr_Now = 10\<rparr> ''alice'' ''c1'' (syncContent ''ab'') ''app'' (Some ''a1'')
      = Inr (d', cache2, res2)"
    using t[of "\<lparr>fr_GroupID = ''g5'', fr_CreateNow = 10, fr_IDs = [''n1''], fr_Now = 10\<rparr>"]
      sampleStore_invariants(1) sampleStore_sync(2) by (auto simp: cacheFresh_def)
  then show ?thesis unfolding c(3) by (simp add: syncSample_def)
qed

text \<open>
  With the entries cache, a sync may lose its content. The cache is keyed
  by client and agent but the memory is shared by the agents of a client: after agents \<open>a1\<close> and \<open>a2\<close>
  have synced different content, \<open>a1\<close> extends the epoch its stale cache entry names, and the memory
  stays what \<open>a2\<close> stored.
\<close>

theorem cache_stale_between_agents:
  "let s1 = syncSample (sampleStore, Some (\<lambda>_. None)) ''n1'' ''a1'' ''a'';
       s2 = syncSample s1 ''n2'' ''a2'' ''b'';
       s3 = syncSample s2 ''n3'' ''a1'' ''ac''
   in flattenMemoryContent None charCodec
        (listLatestVisibleContextEntries (fst s3) (the (findConversation (fst s3) ''c1'')) ''app'')
      = Inr (map Decoded ''b'')
    \<and> length (db_entries (fst s3)) = length (db_entries (fst s2)) + 1"
  by code_simp

end
