(* ===== verification/Memberships.thy ===== *)
theory Memberships
  imports Creation
begin

text \<open>
  Memberships and ownership transfers of the SQLite store. A write returns the new database with its
  result, an error leaves the database unchanged. The text of the driver's unique-violation error, which
  \<open>ShareConversation\<close> inspects, is an argument.
\<close>

section \<open>Memberships\<close>

text \<open>A page of rows in creation order after a cursor row: the keyset is the creation time alone.\<close>

definition createdAfter :: "('a \<Rightarrow> time) \<Rightarrow> 'a option \<Rightarrow> 'a \<Rightarrow> bool" where
  "createdAfter created cursor row = (case cursor of None \<Rightarrow> False | Some c \<Rightarrow> created c < created row)"

definition createdPage :: "('a \<Rightarrow> time) \<Rightarrow> ('a \<Rightarrow> string) \<Rightarrow> 'a list \<Rightarrow> ('a \<Rightarrow> bool) option \<Rightarrow> nat \<Rightarrow> 'a list \<times> string option" where
  "createdPage created key rows after limit =
     (let tx = order_by (\<lambda>a b. created a < created b) rows;
          found = take (limit + 1) (case after of None \<Rightarrow> tx | Some keep \<Rightarrow> filter keep tx);
          hasMore = length found > limit;
          page = (if hasMore then take limit found else found)
      in (page, if hasMore \<and> page \<noteq> [] then Some (key (last page)) else None))"

definition ListMemberships ::
  "db \<Rightarrow> string \<Rightarrow> string \<Rightarrow> string option \<Rightarrow> nat \<Rightarrow> (ConversationMembership list \<times> string option) result" where
  "ListMemberships d userID conversationID afterCursor limit =
     andThen (getGroupID d userID conversationID AccessLevelReader) (\<lambda>groupID.
       let rows = filter (\<lambda>m. m_ConversationGroupID m = groupID) (db_memberships d);
           after = map_option (\<lambda>cursor. createdAfter m_CreatedAt
                     (List.find (\<lambda>m. m_ConversationGroupID m = groupID \<and> m_UserID m = cursor) (db_memberships d))) afterCursor
       in Inr (createdPage m_CreatedAt m_UserID rows after limit))"

text \<open>\<open>strings.Contains\<close>.\<close>

definition containsText :: "string \<Rightarrow> string \<Rightarrow> bool" where
  "containsText s needle = list_ex (\<lambda>i. take (length needle) (drop i s) = needle) [0..<length s + 1]"

definition ShareConversation ::
  "db \<Rightarrow> string \<Rightarrow> time \<Rightarrow> string \<Rightarrow> string \<Rightarrow> string \<Rightarrow> AccessLevel \<Rightarrow> (db \<times> ConversationMembership) result" where
  "ShareConversation d driverText now userID conversationID targetUserID accessLevel =
     andThen (getGroupID d userID conversationID AccessLevelManager) (\<lambda>groupID.
       if accessLevel = AccessLevelOwner
       then Inl (ValidationError ''accessLevel'' ''cannot share with owner access; use ownership transfer'')
       else
         let membership = \<lparr>m_ConversationGroupID = groupID, m_UserID = targetUserID, m_AccessLevel = accessLevel, m_CreatedAt = now\<rparr>
         in if membershipKey membership \<in> membershipKey ` set (db_memberships d)
            then (if containsText driverText ''duplicate key''
                  then Inl (ConflictError ''user already has access to this conversation'' [] [])
                  else Inl (InternalError ''failed to share conversation''))
            else Inr (d\<lparr>db_memberships := db_memberships d @ [membership]\<rparr>, membership))"

definition isMember :: "uuid \<Rightarrow> string \<Rightarrow> ConversationMembership \<Rightarrow> bool" where
  "isMember groupID userID m \<longleftrightarrow> m_ConversationGroupID m = groupID \<and> m_UserID m = userID"

definition setAccess :: "uuid \<Rightarrow> string \<Rightarrow> AccessLevel \<Rightarrow> db \<Rightarrow> db" where
  "setAccess groupID userID level d =
     d\<lparr>db_memberships := update_where (isMember groupID userID) (\<lambda>m. m\<lparr>m_AccessLevel := level\<rparr>) (db_memberships d)\<rparr>"

definition UpdateMembership ::
  "db \<Rightarrow> string \<Rightarrow> string \<Rightarrow> string \<Rightarrow> AccessLevel \<Rightarrow> (db \<times> ConversationMembership) result" where
  "UpdateMembership d userID conversationID memberUserID accessLevel =
     andThen (getGroupID d userID conversationID AccessLevelManager) (\<lambda>groupID.
       if accessLevel = AccessLevelOwner
       then Inl (ValidationError ''accessLevel'' ''cannot set owner access; use ownership transfer'')
       else if \<not> list_ex (isMember groupID memberUserID) (db_memberships d)
       then Inl (NotFoundError ''membership'' memberUserID)
       else
         let d' = setAccess groupID memberUserID accessLevel d
         in case List.find (isMember groupID memberUserID) (db_memberships d') of
              None \<Rightarrow> Inl (NotFoundError ''membership'' memberUserID)
            | Some m \<Rightarrow> Inr (d', m))"

definition DeleteMembership :: "db \<Rightarrow> string \<Rightarrow> string \<Rightarrow> string \<Rightarrow> db result" where
  "DeleteMembership d userID conversationID memberUserID =
     andThen (getGroupID d userID conversationID AccessLevelManager) (\<lambda>groupID.
       case List.find (isMember groupID memberUserID) (db_memberships d) of
         None \<Rightarrow> Inl (NotFoundError ''membership'' memberUserID)
       | Some m \<Rightarrow>
           if m_AccessLevel m = AccessLevelOwner then Inl (ValidationError ''userId'' ''cannot remove the owner'')
           else Inr (d\<lparr>db_transfers := delete_where (\<lambda>t. t_ConversationGroupID t = groupID \<and> t_ToUserID t = memberUserID) (db_transfers d),
                       db_memberships := delete_where (isMember groupID memberUserID) (db_memberships d)\<rparr>))"

definition GetGroupMemberUserIDs :: "db \<Rightarrow> uuid \<Rightarrow> string list" where
  "GetGroupMemberUserIDs d groupID =
     map m_UserID (filter (\<lambda>m. m_ConversationGroupID m = groupID) (db_memberships d))"

section \<open>Ownership transfers\<close>

record OwnershipTransferDto =
  td_ID :: uuid
  td_ConversationGroupID :: uuid
  td_ConversationID :: string
  td_FromUserID :: string
  td_ToUserID :: string
  td_CreatedAt :: time

text \<open>\<open>First\<close> orders by the primary key.\<close>

definition resolveConversationID :: "db \<Rightarrow> uuid \<Rightarrow> string" where
  "resolveConversationID d groupID =
     (case order_by (\<lambda>a b. c_ID a < c_ID b)
             (filter (\<lambda>c. c_ConversationGroupID c = groupID \<and> c_ArchivedAt c = None) (db_conversations d)) of
        [] \<Rightarrow> []
      | conv # _ \<Rightarrow> c_ID conv)"

definition transferDto :: "OwnershipTransfer \<Rightarrow> string \<Rightarrow> OwnershipTransferDto" where
  "transferDto t conversationID =
     \<lparr>td_ID = t_ID t, td_ConversationGroupID = t_ConversationGroupID t, td_ConversationID = conversationID,
      td_FromUserID = t_FromUserID t, td_ToUserID = t_ToUserID t, td_CreatedAt = t_CreatedAt t\<rparr>"

definition ListPendingTransfers ::
  "db \<Rightarrow> string \<Rightarrow> string \<Rightarrow> string option \<Rightarrow> nat \<Rightarrow> OwnershipTransferDto list \<times> string option" where
  "ListPendingTransfers d userID role afterCursor limit =
     (let rows = filter (\<lambda>t. if role = ''sender'' then t_FromUserID t = userID
                              else if role = ''recipient'' then t_ToUserID t = userID
                              else t_FromUserID t = userID \<or> t_ToUserID t = userID) (db_transfers d);
          after = map_option (\<lambda>cursor. createdAfter t_CreatedAt (List.find (\<lambda>t. t_ID t = cursor) (db_transfers d))) afterCursor;
          (page, cursor) = createdPage t_CreatedAt t_ID rows after limit
      in (map (\<lambda>t. transferDto t (resolveConversationID d (t_ConversationGroupID t))) page, cursor))"

definition findTransfer :: "db \<Rightarrow> uuid \<Rightarrow> OwnershipTransfer result" where
  "findTransfer d transferID =
     (case List.find (\<lambda>t. t_ID t = transferID) (db_transfers d) of
        None \<Rightarrow> Inl (NotFoundError ''transfer'' transferID)
      | Some t \<Rightarrow> Inr t)"

definition GetTransfer :: "db \<Rightarrow> string \<Rightarrow> uuid \<Rightarrow> OwnershipTransferDto result" where
  "GetTransfer d userID transferID =
     andThen (findTransfer d transferID) (\<lambda>t.
       if t_FromUserID t \<noteq> userID \<and> t_ToUserID t \<noteq> userID then Inl (NotFoundError ''transfer'' transferID)
       else Inr (transferDto t (resolveConversationID d (t_ConversationGroupID t))))"

definition pendingConflict :: "db \<Rightarrow> uuid \<Rightarrow> store_error" where
  "pendingConflict d groupID =
     ConflictError ''a transfer is already pending for this conversation'' ''TRANSFER_ALREADY_PENDING''
       (case List.find (\<lambda>t. t_ConversationGroupID t = groupID) (db_transfers d) of
          None \<Rightarrow> [] | Some existing \<Rightarrow> [(''existingTransferId'', t_ID existing)])"

definition CreateOwnershipTransfer ::
  "db \<Rightarrow> uuid \<Rightarrow> time \<Rightarrow> string \<Rightarrow> string \<Rightarrow> string \<Rightarrow> (db \<times> OwnershipTransferDto) result" where
  "CreateOwnershipTransfer d transferID now userID conversationID toUserID =
     (case findActiveConversation d conversationID of
        None \<Rightarrow> Inl (NotFoundError ''conversation'' conversationID)
      | Some conv \<Rightarrow>
          andThen (requireAccess d userID (c_ConversationGroupID conv) AccessLevelOwner) (\<lambda>_.
          if userID = toUserID then Inl (ValidationError ''newOwnerUserId'' ''cannot transfer to yourself'')
          else if \<not> list_ex (isMember (c_ConversationGroupID conv) toUserID) (db_memberships d)
          then Inl (ValidationError ''newOwnerUserId'' ''recipient must already be a member'')
          else
            let transfer = \<lparr>t_ID = transferID, t_ConversationGroupID = c_ConversationGroupID conv, t_FromUserID = userID,
                            t_ToUserID = toUserID, t_CreatedAt = now\<rparr>
            in if list_ex (\<lambda>t. t_ID t = transferID \<or> t_ConversationGroupID t = c_ConversationGroupID conv) (db_transfers d)
               then Inl (pendingConflict d (c_ConversationGroupID conv))
               else Inr (d\<lparr>db_transfers := db_transfers d @ [transfer]\<rparr>, transferDto transfer conversationID)))"

definition upsertOwner :: "uuid \<Rightarrow> string \<Rightarrow> time \<Rightarrow> db \<Rightarrow> db" where
  "upsertOwner groupID userID now d =
     (if list_ex (isMember groupID userID) (db_memberships d) then setAccess groupID userID AccessLevelOwner d
      else d\<lparr>db_memberships := db_memberships d @
               [\<lparr>m_ConversationGroupID = groupID, m_UserID = userID, m_AccessLevel = AccessLevelOwner, m_CreatedAt = now\<rparr>]\<rparr>)"

definition setConversationOwner :: "uuid \<Rightarrow> string \<Rightarrow> time \<Rightarrow> db \<Rightarrow> db" where
  "setConversationOwner groupID userID now d =
     d\<lparr>db_conversations :=
         update_where (\<lambda>c. c_ConversationGroupID c = groupID \<and> c_ArchivedAt c = None)
           (\<lambda>c. c\<lparr>c_OwnerUserID := userID, c_UpdatedAt := now\<rparr>) (db_conversations d)\<rparr>"

definition deleteTransfer :: "uuid \<Rightarrow> db \<Rightarrow> db" where
  "deleteTransfer transferID d = d\<lparr>db_transfers := delete_where (\<lambda>t. t_ID t = transferID) (db_transfers d)\<rparr>"

definition AcceptTransfer :: "db \<Rightarrow> time \<Rightarrow> string \<Rightarrow> uuid \<Rightarrow> db result" where
  "AcceptTransfer d now userID transferID =
     andThen (findTransfer d transferID) (\<lambda>t.
       if t_ToUserID t \<noteq> userID then Inl ForbiddenError
       else
         let d1 = setAccess (t_ConversationGroupID t) (t_FromUserID t) AccessLevelManager d;
             d2 = upsertOwner (t_ConversationGroupID t) (t_ToUserID t) now d1;
             d3 = setConversationOwner (t_ConversationGroupID t) (t_ToUserID t) now d2
         in Inr (deleteTransfer transferID d3))"

definition DeleteTransfer :: "db \<Rightarrow> string \<Rightarrow> uuid \<Rightarrow> db result" where
  "DeleteTransfer d userID transferID =
     andThen (findTransfer d transferID) (\<lambda>t.
       if t_FromUserID t \<noteq> userID \<and> t_ToUserID t \<noteq> userID then Inl ForbiddenError
       else Inr (deleteTransfer transferID d))"

section \<open>Pages of members\<close>

interpretation created_ord: keyed_order "\<lambda>a b. (f a :: time) < f b" f for f
  by unfold_locales auto

lemma filter_after:
  assumes "sorted_wrt (\<lambda>a b. (f a :: time) < f b) xs" and "n < length xs"
  shows "filter (\<lambda>r. f (xs ! n) < f r) xs = drop (n + 1) xs"
proof -
  have split: "xs = take n xs @ xs ! n # drop (n + 1) xs" using assms(2) by (simp add: id_take_nth_drop)
  have "sorted_wrt (\<lambda>a b. f a < f b) (take n xs @ xs ! n # drop (n + 1) xs)" using assms(1) split by simp
  then have "\<forall>r \<in> set (take n xs). \<not> f (xs ! n) < f r" "\<forall>r \<in> set (drop (n + 1) xs). f (xs ! n) < f r"
    by (auto simp: sorted_wrt_append)
  then have "filter (\<lambda>r. f (xs ! n) < f r) (take n xs @ xs ! n # drop (n + 1) xs) = drop (n + 1) xs"
    by (simp add: filter_id_conv)
  then show ?thesis using split by metis
qed

lemma page_cut:
  "(let found = take (limit + 1) ys; hasMore = length found > limit; page = (if hasMore then take limit found else found)
    in (page, if hasMore \<and> page \<noteq> [] then Some (key (last page)) else None))
   = (take limit ys, if limit < length ys \<and> 0 < limit then Some (key (ys ! (limit - 1))) else None)"
proof (cases "limit < length ys")
  case True
  then show ?thesis by (cases limit) (auto simp: Let_def last_conv_nth)
next
  case False
  then show ?thesis by simp
qed

lemma createdPage_cut:
  "createdPage created key rows after limit =
     (let ys = (let tx = order_by (\<lambda>a b. created a < created b) rows in case after of None \<Rightarrow> tx | Some keep \<Rightarrow> filter keep tx)
      in (take limit ys, if limit < length ys \<and> 0 < limit then Some (key (ys ! (limit - 1))) else None))"
  by (simp only: createdPage_def Let_def page_cut[unfolded Let_def])

lemma createdPage_after:
  assumes "distinct (map created rows)" and "tx = order_by (\<lambda>a b. created a < created b) rows" and "n < length tx"
  shows "createdPage created key rows (Some (createdAfter created (Some (tx ! n)))) limit =
     (take limit (drop (n + 1) tx), if n + 1 + limit < length tx \<and> 0 < limit then Some (key (tx ! (n + limit))) else None)"
proof -
  have f: "filter (createdAfter created (Some (tx ! n))) tx = drop (n + 1) tx"
    using filter_after[OF created_ord.sorted_order_by[OF assms(1)]] assms(2,3) by (simp add: createdAfter_def[abs_def])
  have "drop (n + 1) tx ! (limit - 1) = tx ! (n + limit)" "limit < length (drop (n + 1) tx) \<longleftrightarrow> n + 1 + limit < length tx"
    if "0 < limit" using that assms(3) by auto
  then show ?thesis unfolding createdPage_cut assms(2)[symmetric] Let_def option.case f by auto
qed

definition membersOf :: "db \<Rightarrow> uuid \<Rightarrow> ConversationMembership list" where
  "membersOf d g = order_by (\<lambda>a b. m_CreatedAt a < m_CreatedAt b) (filter (\<lambda>m. m_ConversationGroupID m = g) (db_memberships d))"

lemma find_member:
  assumes "distinct (map membershipKey ms)" and "m \<in> set ms"
  shows "List.find (\<lambda>x. m_ConversationGroupID x = m_ConversationGroupID m \<and> m_UserID x = m_UserID m) ms = Some m"
proof -
  obtain x where x: "List.find (\<lambda>x. m_ConversationGroupID x = m_ConversationGroupID m \<and> m_UserID x = m_UserID m) ms = Some x"
    using assms(2) by (cases "List.find (\<lambda>x. m_ConversationGroupID x = m_ConversationGroupID m \<and> m_UserID x = m_UserID m) ms")
      (auto simp: find_None_iff)
  then have "x \<in> set ms" "membershipKey x = membershipKey m" by (auto simp: find_Some_iff membershipKey_def)
  then show ?thesis using x assms by (auto simp: distinct_map inj_on_def)
qed

text \<open>
  C34 (membership_pages_bounded): a page of members never exceeds the limit, the first page is the
  beginning of the members in creation order, and where creation times differ, the page after the
  \<open>n\<close>-th member holds the next \<open>limit\<close> members and returns a cursor exactly when more follow.
\<close>

theorem membership_pages_bounded:
  assumes "getGroupID d userID cid AccessLevelReader = Inr g" and "distinct (map membershipKey (db_memberships d))"
  shows "ListMemberships d userID cid None limit =
      Inr (take limit (membersOf d g), if limit < length (membersOf d g) \<and> 0 < limit then Some (m_UserID (membersOf d g ! (limit - 1))) else None)
    \<and> (distinct (map m_CreatedAt (membersOf d g)) \<and> n < length (membersOf d g) \<longrightarrow>
        ListMemberships d userID cid (Some (m_UserID (membersOf d g ! n))) limit =
        Inr (take limit (drop (n + 1) (membersOf d g)),
          if n + 1 + limit < length (membersOf d g) \<and> 0 < limit then Some (m_UserID (membersOf d g ! (n + limit))) else None))
    \<and> (\<exists>page next. ListMemberships d userID cid cursor limit = Inr (page, next) \<and> length page \<le> limit)"
proof (intro conjI impI)
  let ?rows = "filter (\<lambda>m. m_ConversationGroupID m = g) (db_memberships d)"
  show "ListMemberships d userID cid None limit =
      Inr (take limit (membersOf d g), if limit < length (membersOf d g) \<and> 0 < limit then Some (m_UserID (membersOf d g ! (limit - 1))) else None)"
    using assms(1) by (simp add: ListMemberships_def createdPage_cut membersOf_def Let_def)
  show "\<exists>page next. ListMemberships d userID cid cursor limit = Inr (page, next) \<and> length page \<le> limit"
    using assms(1) by (simp add: ListMemberships_def createdPage_cut Let_def)
  assume n: "distinct (map m_CreatedAt (membersOf d g)) \<and> n < length (membersOf d g)"
  let ?m = "membersOf d g ! n"
  have "?m \<in> set ?rows" using n by (metis membersOf_def nth_mem set_order_by)
  then have "List.find (\<lambda>x. m_ConversationGroupID x = g \<and> m_UserID x = m_UserID ?m) (db_memberships d) = Some ?m"
    using find_member[OF assms(2), of ?m] by auto
  moreover have "distinct (map m_CreatedAt ?rows)" using n by (simp add: membersOf_def)
  ultimately show "ListMemberships d userID cid (Some (m_UserID ?m)) limit =
        Inr (take limit (drop (n + 1) (membersOf d g)),
          if n + 1 + limit < length (membersOf d g) \<and> 0 < limit then Some (m_UserID (membersOf d g ! (n + limit))) else None)"
    using assms(1) createdPage_after[of m_CreatedAt ?rows "membersOf d g" n m_UserID limit] n
    by (simp add: ListMemberships_def membersOf_def)
qed

end
