(* ===== verification/Maintenance.thy ===== *)
theory Maintenance
  imports Creation
begin

text \<open>
  Operations of the SQLite store that no user of a conversation calls: indexing of entries, archiving by
  an administrator, and the eviction of conversation groups. A row is deleted with the group it belongs
  to, as the foreign keys of \<open>internal/plugin/store/sqlite/db/schema.sql\<close> say.

  The theorem: an eviction finds the closure of its groups under the relation between a conversation and
  the ones it started, and leaves no conversation behind whose starting conversation it deleted.
\<close>

section \<open>Indexing\<close>

record IndexEntryRequest =
  ix_ConversationID :: string
  ix_EntryID :: uuid
  ix_IndexedContent :: string

text \<open>The rows the \<open>UPDATE\<close> selects; the subquery for a conversation that does not exist is NULL.\<close>

definition indexTarget :: "db \<Rightarrow> IndexEntryRequest \<Rightarrow> Entry \<Rightarrow> bool" where
  "indexTarget d req e \<longleftrightarrow>
     e_ID e = ix_EntryID req
     \<and> (case findConversation d (ix_ConversationID req) of
          None \<Rightarrow> False
        | Some conv \<Rightarrow> e_ConversationGroupID e = c_ConversationGroupID conv)"

fun IndexEntries :: "db \<Rightarrow> IndexEntryRequest list \<Rightarrow> (db \<times> nat) result" where
  "IndexEntries d [] = Inr (d, 0)"
| "IndexEntries d (req # entries) =
     (if \<not> list_ex (indexTarget d req) (db_entries d) then Inl (NotFoundError ''entry'' (ix_EntryID req))
      else
        let d1 = d\<lparr>db_entries := update_where (indexTarget d req)
                     (\<lambda>e. e\<lparr>e_IndexedContent := Some (ix_IndexedContent req)\<rparr>) (db_entries d)\<rparr>
        in andThen (IndexEntries d1 entries) (\<lambda>(d2, count). Inr (d2, Suc count)))"

definition SetIndexedAt :: "db \<Rightarrow> uuid \<Rightarrow> uuid \<Rightarrow> time \<Rightarrow> db" where
  "SetIndexedAt d entryID conversationGroupID indexedAt =
     d\<lparr>db_entries := update_where (\<lambda>e. e_ID e = entryID \<and> e_ConversationGroupID e = conversationGroupID)
         (\<lambda>e. e\<lparr>e_IndexedAt := Some indexedAt\<rparr>) (db_entries d)\<rparr>"

section \<open>Archiving by an administrator\<close>

definition AdminSetConversationArchived :: "db \<Rightarrow> time \<Rightarrow> string \<Rightarrow> bool \<Rightarrow> db result" where
  "AdminSetConversationArchived d now conversationID archived =
     (case findConversation d conversationID of
        None \<Rightarrow> Inl (NotFoundError ''conversation'' conversationID)
      | Some conv \<Rightarrow>
          let groupID = c_ConversationGroupID conv
          in if archived then Inr (archiveConversations groupID now (setGroupArchived groupID (Some now) d))
             else if c_ArchivedAt conv = None then Inl (ConflictError ''conversation is not archived'' [] [])
             else Inr ((setGroupArchived groupID None d)\<lparr>db_conversations :=
                        update_where (\<lambda>c. c_ConversationGroupID c = groupID)
                          (\<lambda>c. c\<lparr>c_ArchivedAt := None, c_UpdatedAt := now\<rparr>) (db_conversations d)\<rparr>))"

section \<open>Eviction\<close>

definition evictable :: "time \<Rightarrow> ConversationGroup \<Rightarrow> bool" where
  "evictable cutoff g \<longleftrightarrow> (case g_ArchivedAt g of None \<Rightarrow> False | Some t \<Rightarrow> t < cutoff)"

definition FindEvictableGroupIDs :: "db \<Rightarrow> time \<Rightarrow> nat \<Rightarrow> uuid list" where
  "FindEvictableGroupIDs d cutoff limit = map g_ID (take limit (filter (evictable cutoff) (db_groups d)))"

definition CountEvictableGroups :: "db \<Rightarrow> time \<Rightarrow> nat" where
  "CountEvictableGroups d cutoff = length (filter (evictable cutoff) (db_groups d))"

text \<open>
  The closure of the groups to delete. The loop asks for the children of the groups it has not seen; it
  ends because the children are groups of stored conversations.
\<close>

fun newIDs :: "uuid set \<Rightarrow> uuid list \<Rightarrow> uuid list" where
  "newIDs seen [] = []"
| "newIDs seen (i # pending) = (if i \<in> seen then newIDs seen pending else i # newIDs (insert i seen) pending)"

partial_function (option) expandLoop ::
  "(uuid list \<Rightarrow> uuid list) \<Rightarrow> uuid set \<Rightarrow> uuid list \<Rightarrow> uuid list \<Rightarrow> uuid list option" where
  "expandLoop children seen result pending =
     (if pending = [] then Some result
      else
        let frontier = newIDs seen pending
        in if frontier = [] then Some result
           else expandLoop children (seen \<union> set frontier) (result @ frontier) (children frontier))"

declare expandLoop.simps [code]

definition ExpandConversationGroupDeletion :: "uuid list \<Rightarrow> (uuid list \<Rightarrow> uuid list) \<Rightarrow> uuid list option" where
  "ExpandConversationGroupDeletion roots children = expandLoop children {} [] roots"

text \<open>The query for the groups a conversation of the given groups started; its rows have no order, here that of the table.\<close>

definition startedGroups :: "db \<Rightarrow> uuid list \<Rightarrow> uuid list" where
  "startedGroups d frontier =
     (let parents = map c_ID (filter (\<lambda>c. c_ConversationGroupID c \<in> set frontier) (db_conversations d))
      in remdups (map c_ConversationGroupID
           (filter (\<lambda>c. case c_StartedByConversationID c of None \<Rightarrow> False | Some p \<Rightarrow> p \<in> set parents) (db_conversations d))))"

record DeletedConversationGroup =
  dg_ConversationGroupID :: uuid
  dg_ConversationIDs :: "string list"
  dg_MemberUserIDs :: "string list"

definition LoadDeletedConversationGroups :: "db \<Rightarrow> uuid list \<Rightarrow> DeletedConversationGroup list option" where
  "LoadDeletedConversationGroups d groupIDs =
     (if groupIDs = [] then Some []
      else
        map_option
          (map (\<lambda>g. \<lparr>dg_ConversationGroupID = g,
             dg_ConversationIDs = map c_ID (order_by (\<lambda>a b. c_CreatedAt a < c_CreatedAt b \<or> c_CreatedAt a = c_CreatedAt b \<and> c_ID a < c_ID b)
               (filter (\<lambda>c. c_ConversationGroupID c = g) (db_conversations d))),
             dg_MemberUserIDs = map m_UserID (order_by (\<lambda>a b. m_CreatedAt a < m_CreatedAt b \<or> m_CreatedAt a = m_CreatedAt b \<and> m_UserID a < m_UserID b)
               (filter (\<lambda>m. m_ConversationGroupID m = g) (db_memberships d)))\<rparr>))
          (ExpandConversationGroupDeletion groupIDs (startedGroups d)))"

text \<open>
  Deleting groups. The cascades delete the rows that name a deleted group, and the entries of a deleted
  conversation.
\<close>

definition HardDeleteConversationGroups :: "db \<Rightarrow> uuid list \<Rightarrow> db" where
  "HardDeleteConversationGroups d groupIDs =
     (let convs = map c_ID (filter (\<lambda>c. c_ConversationGroupID c \<in> set groupIDs) (db_conversations d))
      in \<lparr>db_groups = delete_where (\<lambda>g. g_ID g \<in> set groupIDs) (db_groups d),
          db_conversations = delete_where (\<lambda>c. c_ConversationGroupID c \<in> set groupIDs) (db_conversations d),
          db_ancestry = delete_where (\<lambda>ca. ca_ConversationGroupID ca \<in> set groupIDs) (db_ancestry d),
          db_memberships = delete_where (\<lambda>m. m_ConversationGroupID m \<in> set groupIDs) (db_memberships d),
          db_entries = delete_where (\<lambda>e. e_ConversationGroupID e \<in> set groupIDs \<or> e_ConversationID e \<in> set convs) (db_entries d),
          db_transfers = delete_where (\<lambda>t. t_ConversationGroupID t \<in> set groupIDs) (db_transfers d)\<rparr>)"

section \<open>Indexing leaves everything but the index fields\<close>

definition unindexed :: "Entry \<Rightarrow> Entry" where
  "unindexed e = e\<lparr>e_IndexedContent := None, e_IndexedAt := None\<rparr>"

text \<open>The entries rewritten row by row, each up to its index fields.\<close>

definition reindexed :: "db \<Rightarrow> db \<Rightarrow> bool" where
  "reindexed d d' \<longleftrightarrow> (\<exists>f. (\<forall>e. unindexed (f e) = unindexed e) \<and> d' = d\<lparr>db_entries := map f (db_entries d)\<rparr>)"

lemma unindexed_fields:
  assumes "unindexed x = unindexed y"
  shows "e_ID x = e_ID y" "e_ConversationID x = e_ConversationID y" "e_ConversationGroupID x = e_ConversationGroupID y"
    "e_Seq x = e_Seq y" "e_CreatedAt x = e_CreatedAt y" "e_Channel x = e_Channel y" "e_Epoch x = e_Epoch y"
    "e_Content x = e_Content y" "e_AppendBatch x = e_AppendBatch y"
  using assms by (cases x; cases y; simp add: unindexed_def)+

lemma unindexed_order:
  assumes "unindexed a = unindexed x" and "unindexed b = unindexed y"
  shows "entryOrderLess a b = entryOrderLess x y"
  unfolding entryOrderLess_def unindexed_fields[OF assms(1)] unindexed_fields[OF assms(2)] by (rule refl)

lemma reindexed_refl: "reindexed d d"
  unfolding reindexed_def by (intro exI[of _ id]) simp

lemma reindexed_trans:
  assumes "reindexed d d1" and "reindexed d1 d2"
  shows "reindexed d d2"
proof -
  obtain f h where "\<forall>e. unindexed (f e) = unindexed e" "d1 = d\<lparr>db_entries := map f (db_entries d)\<rparr>"
    "\<forall>e. unindexed (h e) = unindexed e" "d2 = d1\<lparr>db_entries := map h (db_entries d1)\<rparr>"
    using assms unfolding reindexed_def by blast
  then show ?thesis unfolding reindexed_def by (intro exI[of _ "h \<circ> f"]) simp
qed

lemma reindexed_update:
  "(\<And>e. unindexed (f e) = unindexed e) \<Longrightarrow> reindexed d (d\<lparr>db_entries := update_where P f (db_entries d)\<rparr>)"
  unfolding reindexed_def update_where_def by (intro exI[of _ "\<lambda>e. if P e then f e else e"]) simp

lemma IndexEntries_reindexed: "IndexEntries d reqs = Inr (d', n) \<Longrightarrow> reindexed d d'"
proof (induction d reqs arbitrary: d' n rule: IndexEntries.induct)
  case (2 d req entries)
  let ?d1 = "d\<lparr>db_entries := update_where (indexTarget d req)
               (\<lambda>e. e\<lparr>e_IndexedContent := Some (ix_IndexedContent req)\<rparr>) (db_entries d)\<rparr>"
  have "reindexed d ?d1" by (rule reindexed_update) (simp add: unindexed_def)
  moreover obtain m where "list_ex (indexTarget d req) (db_entries d)" "IndexEntries ?d1 entries = Inr (d', m)"
    using 2(2) by (auto simp: Let_def andThen_eq_Inr split: if_splits)
  ultimately show ?case using 2(1)[OF _ refl] reindexed_trans by blast
qed (simp add: reindexed_refl)

lemma SetIndexedAt_reindexed: "reindexed d (SetIndexedAt d i g t)"
  unfolding SetIndexedAt_def by (rule reindexed_update) (simp add: unindexed_def)

lemma map_unindexed: "(\<And>e. unindexed (f e) = unindexed e) \<Longrightarrow> map unindexed (map f es) = map unindexed es"
  by simp

lemma order_by_map:
  assumes "\<And>a b. lt (f a) (f b) = lt a b"
  shows "order_by lt (map f xs) = map f (order_by lt xs)"
proof -
  have "insert_by lt (f x) (map f ys) = map f (insert_by lt x ys)" for x ys
    by (induction ys) (simp_all add: assms)
  then show ?thesis by (induction xs) simp_all
qed

text \<open>Entries with the same fields up to the index are related in the same way.\<close>

lemma reindexed_view:
  assumes "keysOK d" and "reindexed d d'"
  shows "map unindexed (listVisibleEntriesForConversation d' conv) = map unindexed (listVisibleEntriesForConversation d conv)"
proof -
  obtain f where f: "\<And>e. unindexed (f e) = unindexed e" "d' = d\<lparr>db_entries := map f (db_entries d)\<rparr>"
    using assms(2) unfolding reindexed_def by blast
  note same = unindexed_fields[OF f(1)]
  have ord: "entryOrderLess (f a) (f b) = entryOrderLess a b" for a b by (rule unindexed_order[OF f(1) f(1)])
  have k: "keysOK d'" using assms(1) by (simp add: keysOK_def f(2) comp_def same)
  have vis: "visibleIn d' g c (f e) = visibleIn d g c e" for g c e
    by (simp add: visibleIn_def rowShows_def f(2) same ord)
  show ?thesis using assms(1) k
    by (simp add: listVisible_eq f(2) filter_map comp_def vis[unfolded f(2)] order_by_map[of entryOrderLess f] ord f(1))
qed

lemma reindexed_isConversation: "reindexed d d' \<Longrightarrow> isConversation d' g c = isConversation d g c"
  by (auto simp: reindexed_def isConversation_def)

lemma reindexed_storeOK:
  assumes "storeOK d" and "reindexed d d'"
  shows "storeOK d'"
proof -
  obtain f where f: "\<And>e. unindexed (f e) = unindexed e" "d' = d\<lparr>db_entries := map f (db_entries d)\<rparr>"
    using assms(2) unfolding reindexed_def by blast
  note same = unindexed_fields[OF f(1)] and inv = ancestryOK_D[OF storeOK_D(1)[OF assms(1)]]
  have ord: "entryOrderLess (f a) (f b) = entryOrderLess a b" for a b by (rule unindexed_order[OF f(1) f(1)])
  have "keysOK d'" using inv(1) by (simp add: keysOK_def f(2) comp_def same)
  moreover have "referencesOK d'"
    using inv(2) unfolding referencesOK_def reindexed_isConversation[OF assms(2)] by (simp add: f(2) same)
  moreover have "selfRowsOK d'" using inv(3) by (simp add: selfRowsOK_def f(2))
  moreover have "boundaryBefore d' near far = boundaryBefore d near far" for near far
    by (cases "ca_BeforeEntryID far") (simp_all add: boundaryBefore_def f(2) same ord)
  then have "boundariesOK d'" using inv(4) unfolding boundariesOK_def by (simp add: f(2))
  moreover have "groupRefsOK d'" "archiveOK d'"
    using storeOK_D(2,3)[OF assms(1)] by (simp_all add: groupRefsOK_def archiveOK_def f(2) isGroup_def)
  ultimately show ?thesis by (simp add: storeOK_def ancestryOK_def)
qed

section \<open>Deleting groups leaves the others alone\<close>

lemma delete_entries_by_group:
  assumes "ancestryOK d" and "e \<in> set (db_entries d)"
  shows "e_ConversationID e \<in> c_ID ` {c \<in> set (db_conversations d). c_ConversationGroupID c \<in> G} \<longleftrightarrow> e_ConversationGroupID e \<in> G"
proof -
  note inv = ancestryOK_D[OF assms(1)]
  obtain c where c: "c \<in> set (db_conversations d)" "c_ID c = e_ConversationID e" "c_ConversationGroupID c = e_ConversationGroupID e"
    using inv(2) assms(2) unfolding referencesOK_def isConversation_def by blast
  have "inj_on c_ID (set (db_conversations d))" using inv(1) by (simp add: keysOK_def distinct_map)
  then have "x = c" if "x \<in> set (db_conversations d)" "c_ID x = e_ConversationID e" for x
    by (rule inj_onD) (use that c in simp_all)
  note only = this
  show ?thesis
  proof
    assume "e_ConversationID e \<in> c_ID ` {c \<in> set (db_conversations d). c_ConversationGroupID c \<in> G}"
    then obtain x where "x \<in> set (db_conversations d)" "c_ID x = e_ConversationID e" "c_ConversationGroupID x \<in> G" by auto
    then show "e_ConversationGroupID e \<in> G" using only c(3) by metis
  next
    assume "e_ConversationGroupID e \<in> G"
    then show "e_ConversationID e \<in> c_ID ` {c \<in> set (db_conversations d). c_ConversationGroupID c \<in> G}"
      using c by (intro image_eqI[of _ _ c]) simp_all
  qed
qed

lemma hardDelete_tables:
  assumes "ancestryOK d" and "d' = HardDeleteConversationGroups d gs"
  shows "db_groups d' = filter (\<lambda>g. g_ID g \<notin> set gs) (db_groups d)"
    "db_conversations d' = filter (\<lambda>c. c_ConversationGroupID c \<notin> set gs) (db_conversations d)"
    "db_ancestry d' = filter (\<lambda>ca. ca_ConversationGroupID ca \<notin> set gs) (db_ancestry d)"
    "db_memberships d' = filter (\<lambda>m. m_ConversationGroupID m \<notin> set gs) (db_memberships d)"
    "db_entries d' = filter (\<lambda>e. e_ConversationGroupID e \<notin> set gs) (db_entries d)"
    "db_transfers d' = filter (\<lambda>t. t_ConversationGroupID t \<notin> set gs) (db_transfers d)"
proof -
  show "db_entries d' = filter (\<lambda>e. e_ConversationGroupID e \<notin> set gs) (db_entries d)"
    using delete_entries_by_group[OF assms(1), of _ "set gs"]
    by (auto simp: assms(2) HardDeleteConversationGroups_def Let_def delete_where_def intro!: filter_cong)
qed (simp_all add: assms(2) HardDeleteConversationGroups_def Let_def delete_where_def)

lemma hardDelete_storeOK:
  assumes inv: "storeOK d"
  shows "storeOK (HardDeleteConversationGroups d gs)"
proof -
  let ?d = "HardDeleteConversationGroups d gs"
  note anc = ancestryOK_D[OF storeOK_D(1)[OF inv]] and tab = hardDelete_tables[OF storeOK_D(1)[OF inv] refl, of gs]
  have conv: "isConversation ?d g c \<longleftrightarrow> g \<notin> set gs \<and> isConversation d g c" for g c
    by (auto simp: isConversation_def tab)
  have grp: "isGroup ?d g \<longleftrightarrow> g \<notin> set gs \<and> isGroup d g" for g by (auto simp: isGroup_def tab)
  have "keysOK ?d" using anc(1) by (simp add: keysOK_def tab distinct_map_filter)
  moreover have "referencesOK ?d" using anc(2) unfolding referencesOK_def conv by (simp add: tab)
  moreover have "selfRowsOK ?d" using anc(3) unfolding selfRowsOK_def tab by force
  moreover have "boundaryBefore ?d near far" if "boundaryBefore d near far" "ca_ConversationGroupID far \<notin> set gs" for near far
    using that by (cases "ca_BeforeEntryID far") (auto simp: boundaryBefore_def tab)
  then have "boundariesOK ?d" using anc(4) unfolding boundariesOK_def tab by simp
  moreover have "groupRefsOK ?d" using storeOK_D(2)[OF inv] unfolding groupRefsOK_def grp by (simp add: tab)
  moreover have "archiveOK ?d" using storeOK_D(3)[OF inv] by (simp add: archiveOK_def tab)
  ultimately show ?thesis by (simp add: storeOK_def ancestryOK_def)
qed

lemma hardDelete_view:
  assumes inv: "storeOK d" and "c_ConversationGroupID conv \<notin> set gs"
  shows "listVisibleEntriesForConversation (HardDeleteConversationGroups d gs) conv = listVisibleEntriesForConversation d conv"
proof -
  let ?d = "HardDeleteConversationGroups d gs" and ?g = "c_ConversationGroupID conv"
  note tab = hardDelete_tables[OF storeOK_D(1)[OF inv] refl, of gs]
  have "rowShows ?d ca e = rowShows d ca e" if "ca_ConversationGroupID ca = ?g" for ca e
    using that assms(2) by (auto simp: rowShows_def tab)
  then have "visibleIn ?d ?g (c_ID conv) e = visibleIn d ?g (c_ID conv) e" for e
    using assms(2) unfolding visibleIn_def tab by auto
  then have vis: "visibleIn ?d ?g (c_ID conv) = visibleIn d ?g (c_ID conv)" by (rule ext)
  have "filter (visibleIn d ?g (c_ID conv)) (filter (\<lambda>e. e_ConversationGroupID e \<notin> set gs) (db_entries d))
      = filter (visibleIn d ?g (c_ID conv)) (db_entries d)"
    using assms(2) by (auto simp: visibleIn_def intro!: filter_cong)
  then show ?thesis
    using storeOK_D(4)[OF inv] storeOK_D(4)[OF hardDelete_storeOK[OF inv]] by (simp add: listVisible_eq vis) (simp add: tab)
qed

section \<open>The closure of an eviction\<close>

lemma set_newIDs: "set (newIDs seen pending) = set pending - seen"
  by (induction seen pending rule: newIDs.induct) auto

lemma distinct_newIDs: "distinct (newIDs seen pending)"
  by (induction seen pending rule: newIDs.induct) (auto simp: set_newIDs)

text \<open>The loop ends, and adds to its result what the pending groups lead to.\<close>

lemma expandLoop_closure:
  assumes fin: "finite U" and ch: "\<And>F. set (children F) \<subseteq> U" and R: "\<And>F. set (children F) = {h. \<exists>g \<in> set F. R g h}"
  shows "set pending \<subseteq> U \<Longrightarrow> seen = set result \<Longrightarrow> distinct result \<Longrightarrow>
     (\<forall>g \<in> set result. \<forall>h. R g h \<longrightarrow> h \<in> set result \<union> set pending) \<Longrightarrow>
     \<exists>gs. expandLoop children seen result pending = Some gs \<and> distinct gs \<and> set result \<union> set pending \<subseteq> set gs
        \<and> (\<forall>g \<in> set gs. \<forall>h. R g h \<longrightarrow> h \<in> set gs)
        \<and> (\<forall>h \<in> set gs. h \<in> set result \<or> (\<exists>g \<in> set pending. R\<^sup>*\<^sup>* g h))"
proof (induction "card (U - seen)" arbitrary: seen result pending rule: less_induct)
  case less
  let ?f = "newIDs seen pending"
  have f: "set ?f = set pending - set result" "distinct ?f" using less.prems(2) by (simp_all add: set_newIDs distinct_newIDs)
  show ?case
  proof (cases "?f = []")
    case True
    then have "set pending \<subseteq> set result" using f(1) by auto
    moreover have "expandLoop children seen result pending = Some result"
      using True by (subst expandLoop.simps) (simp add: Let_def)
    ultimately show ?thesis using less.prems(3,4) by auto
  next
    case False
    then obtain x where "x \<in> set ?f" by (cases ?f) auto
    then have x: "x \<in> U - seen" "x \<in> seen \<union> set ?f" using f(1) less.prems(1,2) by auto
    have small: "card (U - (seen \<union> set ?f)) < card (U - seen)"
      using fin x by (intro psubset_card_mono) auto
    have "pending \<noteq> []" using False by auto
    then have step: "expandLoop children seen result pending = expandLoop children (seen \<union> set ?f) (result @ ?f) (children ?f)"
      using False by (subst expandLoop.simps) (simp add: Let_def)
    have dist: "distinct (result @ ?f)" using less.prems(3) f by auto
    have closed: "\<forall>g \<in> set (result @ ?f). \<forall>h. R g h \<longrightarrow> h \<in> set (result @ ?f) \<union> set (children ?f)"
      using less.prems(4) f(1) R[of ?f] by auto
    have seen: "seen \<union> set ?f = set (result @ ?f)" using less.prems(2) by simp
    from less.hyps[OF small ch seen dist closed]
    obtain gs where gs: "expandLoop children (seen \<union> set ?f) (result @ ?f) (children ?f) = Some gs" "distinct gs"
        "set (result @ ?f) \<union> set (children ?f) \<subseteq> set gs" "\<forall>g \<in> set gs. \<forall>h. R g h \<longrightarrow> h \<in> set gs"
        "\<forall>h \<in> set gs. h \<in> set (result @ ?f) \<or> (\<exists>g \<in> set (children ?f). R\<^sup>*\<^sup>* g h)"
      by blast
    have "h \<in> set result \<or> (\<exists>g \<in> set pending. R\<^sup>*\<^sup>* g h)" if "h \<in> set gs" for h
      using gs(5)[rule_format, OF that] f(1) R[of ?f] by (auto intro: converse_rtranclp_into_rtranclp)
    moreover have "set result \<union> set pending \<subseteq> set gs" using gs(3) f(1) by auto
    ultimately show ?thesis unfolding step using gs(1,2,4) by blast
  qed
qed

text \<open>A conversation of group \<open>h\<close> was started by one of group \<open>g\<close>.\<close>

definition startedIn :: "db \<Rightarrow> uuid \<Rightarrow> uuid \<Rightarrow> bool" where
  "startedIn d g h \<longleftrightarrow>
     (\<exists>c \<in> set (db_conversations d). c_ConversationGroupID c = h
        \<and> (\<exists>p \<in> set (db_conversations d). c_ConversationGroupID p = g \<and> c_StartedByConversationID c = Some (c_ID p)))"

lemma set_startedGroups: "set (startedGroups d F) = {h. \<exists>g \<in> set F. startedIn d g h}"
  unfolding startedGroups_def startedIn_def Let_def by (fastforce split: option.splits)

lemma expand_closure:
  "\<exists>gs. ExpandConversationGroupDeletion roots (startedGroups d) = Some gs \<and> distinct gs
      \<and> set gs = {h. \<exists>g \<in> set roots. (startedIn d)\<^sup>*\<^sup>* g h}"
proof -
  let ?U = "set roots \<union> c_ConversationGroupID ` set (db_conversations d)"
  have "set (startedGroups d F) \<subseteq> ?U" for F by (auto simp: set_startedGroups startedIn_def)
  from expandLoop_closure[of ?U "startedGroups d" "startedIn d" roots "{}" "[]", OF _ this set_startedGroups]
  obtain gs where gs: "expandLoop (startedGroups d) {} [] roots = Some gs" "distinct gs" "set roots \<subseteq> set gs"
      "\<forall>g \<in> set gs. \<forall>h. startedIn d g h \<longrightarrow> h \<in> set gs" "\<forall>h \<in> set gs. \<exists>g \<in> set roots. (startedIn d)\<^sup>*\<^sup>* g h"
    by auto
  have "h \<in> set gs" if "(startedIn d)\<^sup>*\<^sup>* g h" "g \<in> set roots" for g h
    using that by (induction rule: rtranclp_induct) (use gs(3,4) in auto)
  then show ?thesis using gs unfolding ExpandConversationGroupDeletion_def by blast
qed

text \<open>
  C39 (eviction_deletes_closure): preparing a deletion always ends; it lists once each group that the
  given groups lead to by starting conversations. Deleting the listed groups leaves exactly the
  conversations and entries of the other groups, and none of them was started by a deleted
  conversation.
\<close>

theorem eviction_deletes_closure:
  assumes "storeOK d" and "roots \<noteq> []"
  shows "\<exists>groups d'. LoadDeletedConversationGroups d roots = Some groups
     \<and> d' = HardDeleteConversationGroups d (map dg_ConversationGroupID groups)
     \<and> distinct (map dg_ConversationGroupID groups)
     \<and> dg_ConversationGroupID ` set groups = {h. \<exists>g \<in> set roots. (startedIn d)\<^sup>*\<^sup>* g h}
     \<and> (\<forall>dg \<in> set groups. set (dg_ConversationIDs dg) = c_ID ` {c \<in> set (db_conversations d). c_ConversationGroupID c = dg_ConversationGroupID dg})
     \<and> db_conversations d' = filter (\<lambda>c. \<nexists>g. g \<in> set roots \<and> (startedIn d)\<^sup>*\<^sup>* g (c_ConversationGroupID c)) (db_conversations d)
     \<and> db_entries d' = filter (\<lambda>e. \<nexists>g. g \<in> set roots \<and> (startedIn d)\<^sup>*\<^sup>* g (e_ConversationGroupID e)) (db_entries d)
     \<and> (\<forall>c \<in> set (db_conversations d'). \<forall>p \<in> set (db_conversations d) - set (db_conversations d').
          c_StartedByConversationID c \<noteq> Some (c_ID p))"
proof -
  obtain gs where gs: "ExpandConversationGroupDeletion roots (startedGroups d) = Some gs" "distinct gs"
      "set gs = {h. \<exists>g \<in> set roots. (startedIn d)\<^sup>*\<^sup>* g h}"
    using expand_closure by blast
  obtain groups where groups: "LoadDeletedConversationGroups d roots = Some groups" "map dg_ConversationGroupID groups = gs"
      "\<forall>dg \<in> set groups. set (dg_ConversationIDs dg) = c_ID ` {c \<in> set (db_conversations d). c_ConversationGroupID c = dg_ConversationGroupID dg}"
    using assms(2) gs(1) by (auto simp: LoadDeletedConversationGroups_def comp_def)
  let ?d = "HardDeleteConversationGroups d gs"
  note tab = hardDelete_tables[OF storeOK_D(1)[OF assms(1)] refl, of gs]
  have started: "c_StartedByConversationID c \<noteq> Some (c_ID p)"
    if "c \<in> set (db_conversations ?d)" "p \<in> set (db_conversations d) - set (db_conversations ?d)" for c p
  proof
    assume "c_StartedByConversationID c = Some (c_ID p)"
    then have "startedIn d (c_ConversationGroupID p) (c_ConversationGroupID c)" using that tab(2) by (auto simp: startedIn_def)
    moreover have "c_ConversationGroupID p \<in> set gs" "c_ConversationGroupID c \<notin> set gs" using that tab(2) by auto
    ultimately show False using gs(3) by (auto intro: rtranclp.rtrancl_into_rtrancl)
  qed
  show ?thesis
  proof (intro exI[of _ groups] exI[of _ ?d] conjI)
    show "dg_ConversationGroupID ` set groups = {h. \<exists>g \<in> set roots. (startedIn d)\<^sup>*\<^sup>* g h}"
      using groups(2) gs(3) by (metis list.set_map)
    show "db_conversations ?d = filter (\<lambda>c. \<nexists>g. g \<in> set roots \<and> (startedIn d)\<^sup>*\<^sup>* g (c_ConversationGroupID c)) (db_conversations d)"
      unfolding tab(2) gs(3) by (rule filter_cong) auto
    show "db_entries ?d = filter (\<lambda>e. \<nexists>g. g \<in> set roots \<and> (startedIn d)\<^sup>*\<^sup>* g (e_ConversationGroupID e)) (db_entries d)"
      unfolding tab(5) gs(3) by (rule filter_cong) auto
  qed (use groups gs(2) started in auto)
qed

end
