(* ===== verification/Tasks.thy ===== *)
theory Tasks
  imports Database Json
begin

text \<open>
  The task queue of the SQLite store and the life cycle of an attachment's content, which a task per storage
  key records (\<open>internal/registry/store/attachment_tasks.go\<close>). \<open>uuid.New\<close>, the clock and the times the database assigns to
  a new row are arguments; the hex digest in a task's name is a parameter. A failed statement leaves the tables unchanged.

  The lemmas show that repeated claims hand out every ready task exactly once, the longest waiting first.
\<close>

section \<open>Tasks\<close>

record Task =
  tk_ID :: uuid
  tk_TaskName :: "string option"
  tk_TaskType :: string
  tk_TaskBody :: json_object
  tk_CreatedAt :: time
  tk_RetryAt :: time
  tk_LastError :: "string option"
  tk_RetryCount :: int

definition TaskClaimLease :: time where
  "TaskClaimLease = 5 * 60 * 1000000000"

definition AttachmentBlobDeleteTaskType :: string where
  "AttachmentBlobDeleteTaskType = ''attachment_blob_delete''"

definition AttachmentBlobDeleteStorageKeyField :: string where
  "AttachmentBlobDeleteStorageKeyField = ''storageKey''"

definition AttachmentBlobDeleteStateField :: string where
  "AttachmentBlobDeleteStateField = ''state''"

definition AttachmentBlobDeleteStateReferenced :: string where
  "AttachmentBlobDeleteStateReferenced = ''referenced''"

definition AttachmentBlobDeleteStateQueued :: string where
  "AttachmentBlobDeleteStateQueued = ''queued''"

definition AttachmentBlobDeleteStateClaimed :: string where
  "AttachmentBlobDeleteStateClaimed = ''claimed''"

definition AttachmentBlobDeleteTaskName :: "(string \<Rightarrow> string) \<Rightarrow> string \<Rightarrow> string" where
  "AttachmentBlobDeleteTaskName digest storageKey = AttachmentBlobDeleteTaskType @ '':'' @ digest storageKey"

definition AttachmentBlobDeleteTaskState :: "json_object \<Rightarrow> string" where
  "AttachmentBlobDeleteTaskState body =
     (let state = (case map_of body AttachmentBlobDeleteStateField of Some (JString s) \<Rightarrow> s | _ \<Rightarrow> [])
      in if state = [] then AttachmentBlobDeleteStateQueued else state)"

definition NewAttachmentBlobDeleteConflict :: store_error where
  "NewAttachmentBlobDeleteConflict =
     ConflictError ''attachment content deletion is in progress'' ''attachment_blob_delete_in_progress'' []"

text \<open>The unique indexes of the table: the id and the name, where it has one.\<close>

definition taskKeyTaken :: "Task list \<Rightarrow> Task \<Rightarrow> bool" where
  "taskKeyTaken ts t \<longleftrightarrow> list_ex (\<lambda>x. tk_ID x = tk_ID t \<or> (tk_TaskName t \<noteq> None \<and> tk_TaskName x = tk_TaskName t)) ts"

definition insertTask :: "Task list \<Rightarrow> Task \<Rightarrow> Task list result" where
  "insertTask ts t = (if taskKeyTaken ts t then Inl (InternalError ''UNIQUE constraint failed'') else Inr (ts @ [t]))"

definition bodyTaskName :: "json_object \<Rightarrow> string option" where
  "bodyTaskName body =
     (case map_of body ''taskName'' of
        Some (JString name) \<Rightarrow> (let trimmed = TrimSpace name in if trimmed \<noteq> [] then Some trimmed else None)
      | _ \<Rightarrow> None)"

text \<open>The times a new row gets: creation and, where none is given, the default of \<open>retry_at\<close>.\<close>

record RowTimes =
  rt_CreatedAt :: time
  rt_RetryAt :: time

definition newTask :: "uuid \<Rightarrow> RowTimes \<Rightarrow> string option \<Rightarrow> string \<Rightarrow> json_object \<Rightarrow> Task" where
  "newTask i rt name taskType body =
     \<lparr>tk_ID = i, tk_TaskName = name, tk_TaskType = taskType, tk_TaskBody = body, tk_CreatedAt = rt_CreatedAt rt,
      tk_RetryAt = rt_RetryAt rt, tk_LastError = None, tk_RetryCount = 0\<rparr>"

definition CreateTask :: "Task list \<Rightarrow> uuid \<Rightarrow> RowTimes \<Rightarrow> string \<Rightarrow> json_object \<Rightarrow> Task list result" where
  "CreateTask ts i rt taskType taskBody =
     (let taskName = bodyTaskName taskBody;
          task = newTask i rt taskName taskType taskBody
      in case insertTask ts task of
           Inr ts' \<Rightarrow> Inr ts'
         | Inl err \<Rightarrow> if taskName \<noteq> None then Inr ts else Inl err)"

section \<open>Claiming\<close>

text \<open>The condition on the body in SQL: a missing state counts as queued.\<close>

definition claimableBody :: "Task \<Rightarrow> bool" where
  "claimableBody t \<longleftrightarrow>
     tk_TaskType t \<noteq> AttachmentBlobDeleteTaskType
     \<or> (case map_of (tk_TaskBody t) AttachmentBlobDeleteStateField of
          None \<Rightarrow> True
        | Some JNull \<Rightarrow> True
        | Some (JString s) \<Rightarrow> s = AttachmentBlobDeleteStateQueued \<or> s = AttachmentBlobDeleteStateClaimed
        | _ \<Rightarrow> False)"

definition claimOrder :: "Task \<Rightarrow> Task \<Rightarrow> bool" where
  "claimOrder a b \<longleftrightarrow> tk_RetryAt a < tk_RetryAt b \<or> (tk_RetryAt a = tk_RetryAt b \<and> tk_CreatedAt a < tk_CreatedAt b)"

definition readyTasks :: "Task list \<Rightarrow> time \<Rightarrow> Task list" where
  "readyTasks ts now = order_by claimOrder (filter (\<lambda>t. claimableBody t \<and> tk_RetryAt t \<le> now) ts)"

definition setState :: "string \<Rightarrow> Task \<Rightarrow> Task" where
  "setState state t = t\<lparr>tk_TaskBody := setKey AttachmentBlobDeleteStateField (JString state) (tk_TaskBody t)\<rparr>"

definition markClaimed :: "Task \<Rightarrow> Task" where
  "markClaimed t = (if tk_TaskType t = AttachmentBlobDeleteTaskType then setState AttachmentBlobDeleteStateClaimed t else t)"

text \<open>The tasks as returned: the rows read, with the new body of a blob task.\<close>

definition ClaimReadyTasks :: "Task list \<Rightarrow> time \<Rightarrow> nat \<Rightarrow> Task list \<times> Task list" where
  "ClaimReadyTasks ts now limit =
     (let tasks = take limit (readyTasks ts now);
          ids = set (map tk_ID tasks)
      in (update_where (\<lambda>t. tk_ID t \<in> ids) (\<lambda>t. (markClaimed t)\<lparr>tk_RetryAt := now + TaskClaimLease\<rparr>) ts, map markClaimed tasks))"

definition DeleteTask :: "Task list \<Rightarrow> uuid \<Rightarrow> Task list" where
  "DeleteTask ts taskID = delete_where (\<lambda>t. tk_ID t = taskID) ts"

definition FailTask :: "Task list \<Rightarrow> time \<Rightarrow> uuid \<Rightarrow> string \<Rightarrow> time \<Rightarrow> Task list" where
  "FailTask ts now taskID errMsg retryDelay =
     update_where (\<lambda>t. tk_ID t = taskID)
       (\<lambda>t. t\<lparr>tk_RetryCount := tk_RetryCount t + 1, tk_RetryAt := now + retryDelay, tk_LastError := Some errMsg\<rparr>) ts"

section \<open>Attachment content\<close>

text \<open>31 December 9999, 23:59:59 UTC.\<close>

definition farFuture :: time where
  "farFuture = 253402300799 * 1000000000"

definition attachmentBlobTask :: "(string \<Rightarrow> string) \<Rightarrow> uuid \<Rightarrow> RowTimes \<Rightarrow> string \<Rightarrow> string \<Rightarrow> Task" where
  "attachmentBlobTask digest i rt storageKey state =
     (let taskName = AttachmentBlobDeleteTaskName digest storageKey
      in newTask i rt (Some taskName) AttachmentBlobDeleteTaskType
           [(''taskName'', JString taskName), (AttachmentBlobDeleteStorageKeyField, JString storageKey),
            (AttachmentBlobDeleteStateField, JString state)])"

definition findTaskByName :: "Task list \<Rightarrow> string \<Rightarrow> Task option" where
  "findTaskByName ts name = List.find (\<lambda>t. tk_TaskName t = Some name) ts"

text \<open>The update of a task that gives it a state and a time to run and clears its error.\<close>

definition rescheduleTask :: "uuid \<Rightarrow> string \<Rightarrow> time \<Rightarrow> Task list \<Rightarrow> Task list" where
  "rescheduleTask taskID state retryAt ts =
     update_where (\<lambda>t. tk_ID t = taskID) (\<lambda>t. (setState state t)\<lparr>tk_RetryAt := retryAt, tk_LastError := None\<rparr>) ts"

definition RegisterAttachmentBlobReference ::
  "(string \<Rightarrow> string) \<Rightarrow> Task list \<Rightarrow> uuid \<Rightarrow> RowTimes \<Rightarrow> string \<Rightarrow> Task list result" where
  "RegisterAttachmentBlobReference digest ts i rt storageKey =
     (case findTaskByName ts (AttachmentBlobDeleteTaskName digest storageKey) of
        None \<Rightarrow> insertTask ts ((attachmentBlobTask digest i rt storageKey AttachmentBlobDeleteStateReferenced)\<lparr>tk_RetryAt := farFuture\<rparr>)
      | Some task \<Rightarrow>
          let state = AttachmentBlobDeleteTaskState (tk_TaskBody task) in
          if state = AttachmentBlobDeleteStateReferenced then Inr ts
          else if state = AttachmentBlobDeleteStateQueued
          then Inr (rescheduleTask (tk_ID task) AttachmentBlobDeleteStateReferenced farFuture ts)
          else Inl NewAttachmentBlobDeleteConflict)"

definition QueueAttachmentBlobDelete ::
  "(string \<Rightarrow> string) \<Rightarrow> Task list \<Rightarrow> uuid \<Rightarrow> RowTimes \<Rightarrow> time \<Rightarrow> string \<Rightarrow> Task list result" where
  "QueueAttachmentBlobDelete digest ts i rt now storageKey =
     (case findTaskByName ts (AttachmentBlobDeleteTaskName digest storageKey) of
        None \<Rightarrow> insertTask ts (attachmentBlobTask digest i rt storageKey AttachmentBlobDeleteStateQueued)
      | Some task \<Rightarrow>
          if AttachmentBlobDeleteTaskState (tk_TaskBody task) \<noteq> AttachmentBlobDeleteStateReferenced then Inr ts
          else Inr (rescheduleTask (tk_ID task) AttachmentBlobDeleteStateQueued now ts))"

definition findBlobTask :: "Task list \<Rightarrow> uuid \<Rightarrow> Task option" where
  "findBlobTask ts taskID = List.find (\<lambda>t. tk_ID t = taskID \<and> tk_TaskType t = AttachmentBlobDeleteTaskType) ts"

text \<open>\<open>references\<close> is the number of attachments that are not archived and have the storage key.\<close>

definition PrepareAttachmentBlobDelete ::
  "Task list \<Rightarrow> (string \<Rightarrow> nat) \<Rightarrow> uuid \<Rightarrow> string \<Rightarrow> (Task list \<times> bool) result" where
  "PrepareAttachmentBlobDelete ts references taskID storageKey =
     (case findBlobTask ts taskID of
        None \<Rightarrow> Inl (NotFoundError ''task'' taskID)
      | Some task \<Rightarrow>
          if AttachmentBlobDeleteTaskState (tk_TaskBody task) \<noteq> AttachmentBlobDeleteStateClaimed
             \<or> map_of (tk_TaskBody task) AttachmentBlobDeleteStorageKeyField \<noteq> Some (JString storageKey)
          then Inl (InternalError ''attachment blob delete task is not claimed for its storage key'')
          else if references storageKey = 0 then Inr (ts, False)
          else Inr (rescheduleTask taskID AttachmentBlobDeleteStateReferenced farFuture ts, True))"

definition CompleteAttachmentBlobDelete :: "Task list \<Rightarrow> uuid \<Rightarrow> Task list result" where
  "CompleteAttachmentBlobDelete ts taskID =
     (let ts' = delete_where (\<lambda>t. tk_ID t = taskID \<and> tk_TaskType t = AttachmentBlobDeleteTaskType) ts
      in if ts' = ts then Inl (NotFoundError ''task'' taskID) else Inr ts')"

section \<open>Every ready task is claimed\<close>

text \<open>Claims at the times of a list, one after the other, with the tasks each returned.\<close>

fun claimLoop :: "Task list \<Rightarrow> time list \<Rightarrow> nat \<Rightarrow> Task list \<times> Task list list" where
  "claimLoop ts [] limit = (ts, [])"
| "claimLoop ts (now # nows) limit =
     (let (ts1, tasks) = ClaimReadyTasks ts now limit; (ts2, rest) = claimLoop ts1 nows limit in (ts2, tasks # rest))"

definition ready :: "time \<Rightarrow> Task \<Rightarrow> bool" where
  "ready now t \<longleftrightarrow> claimableBody t \<and> tk_RetryAt t \<le> now"

lemma set_readyTasks: "set (readyTasks ts now) = {t \<in> set ts. ready now t}"
  by (auto simp: readyTasks_def ready_def)

lemma length_readyTasks: "length (readyTasks ts now) = length (filter (ready now) ts)"
  by (simp add: readyTasks_def ready_def[abs_def])

lemma insert_retry:
  "sorted_wrt (\<lambda>a b. tk_RetryAt a \<le> tk_RetryAt b) xs \<Longrightarrow> sorted_wrt (\<lambda>a b. tk_RetryAt a \<le> tk_RetryAt b) (insert_by claimOrder x xs)"
proof (induction xs)
  case (Cons y ys)
  have "set (insert_by claimOrder x ys) = insert x (set ys)"
    by (metis mset_insert_by set_mset_add_mset_insert set_mset_mset)
  moreover have "claimOrder y x \<Longrightarrow> tk_RetryAt y \<le> tk_RetryAt x" "\<not> claimOrder y x \<Longrightarrow> tk_RetryAt x \<le> tk_RetryAt y"
    by (auto simp: claimOrder_def)
  ultimately show ?case using Cons by fastforce
qed simp

lemma sorted_readyTasks: "sorted_wrt (\<lambda>a b. tk_RetryAt a \<le> tk_RetryAt b) (readyTasks ts now)"
proof -
  have "sorted_wrt (\<lambda>a b. tk_RetryAt a \<le> tk_RetryAt b) (order_by claimOrder xs)" for xs
    by (induction xs) (simp_all add: insert_retry)
  then show ?thesis by (simp add: readyTasks_def)
qed

lemma sorted_filter_take:
  "sorted_wrt (\<lambda>a b. P b \<longrightarrow> P a) xs \<Longrightarrow> length (filter P (take n xs)) = min n (length (filter P xs))"
proof (induction xs arbitrary: n)
  case (Cons x xs)
  show ?case
  proof (cases "P x")
    case True
    then show ?thesis using Cons by (cases n) simp_all
  next
    case False
    then have none: "\<forall>y \<in> set (x # xs). \<not> P y" using Cons.prems by auto
    then have "\<forall>y \<in> set (take n (x # xs)). \<not> P y" by (meson in_set_takeD)
    then show ?thesis using none by (simp only: filter_False list.size min_0R)
  qed
qed simp

lemma length_filter_card: "distinct xs \<Longrightarrow> length (filter P xs) = card {x \<in> set xs. P x}"
  by (metis distinct_card distinct_filter set_filter)

definition claimed :: "Task list \<Rightarrow> time \<Rightarrow> nat \<Rightarrow> Task list" where
  "claimed ts now limit = take limit (readyTasks ts now)"

lemma claimed_facts:
  assumes "distinct (map tk_ID ts)"
  shows "set (claimed ts now limit) \<subseteq> {t \<in> set ts. ready now t}" "distinct (claimed ts now limit)"
    "t \<in> set ts \<Longrightarrow> tk_ID t \<in> tk_ID ` set (claimed ts now limit) \<longleftrightarrow> t \<in> set (claimed ts now limit)"
proof -
  show sub: "set (claimed ts now limit) \<subseteq> {t \<in> set ts. ready now t}"
    using set_take_subset[of limit "readyTasks ts now"] set_readyTasks by (simp add: claimed_def)
  show "distinct (claimed ts now limit)"
    using assms by (simp add: claimed_def readyTasks_def distinct_map)
  show "tk_ID t \<in> tk_ID ` set (claimed ts now limit) \<longleftrightarrow> t \<in> set (claimed ts now limit)" if "t \<in> set ts"
    using that sub assms by (auto simp: distinct_map inj_on_def)
qed

lemma markClaimed_simps [simp]: "tk_ID (markClaimed t) = tk_ID t" "tk_RetryAt (markClaimed t) = tk_RetryAt t"
  by (simp_all add: markClaimed_def setState_def)

lemma claim_ready:
  assumes "distinct (map tk_ID ts)" and "t0 < now + TaskClaimLease"
  shows "filter (ready t0) (fst (ClaimReadyTasks ts now limit)) = filter (\<lambda>t. ready t0 t \<and> t \<notin> set (claimed ts now limit)) ts"
proof -
  let ?ids = "tk_ID ` set (claimed ts now limit)"
  let ?f = "\<lambda>t. if tk_ID t \<in> ?ids then (markClaimed t)\<lparr>tk_RetryAt := now + TaskClaimLease\<rparr> else t"
  have "fst (ClaimReadyTasks ts now limit) = map ?f ts"
    by (simp add: ClaimReadyTasks_def Let_def update_where_def claimed_def)
  moreover have "filter (ready t0) (map ?f xs) = filter (\<lambda>t. ready t0 t \<and> tk_ID t \<notin> ?ids) xs" for xs
    using assms(2) by (induction xs) (auto simp: ready_def)
  moreover have "filter (\<lambda>t. ready t0 t \<and> tk_ID t \<notin> ?ids) ts = filter (\<lambda>t. ready t0 t \<and> t \<notin> set (claimed ts now limit)) ts"
    using claimed_facts(3)[OF assms(1)] by (intro filter_cong) auto
  ultimately show ?thesis by simp
qed

lemma claim_progress:
  assumes "distinct (map tk_ID ts)" and "t0 \<le> now"
  shows "length (filter (ready t0) (fst (ClaimReadyTasks ts now limit))) = length (filter (ready t0) ts) - limit"
proof -
  let ?C = "claimed ts now limit"
  note c = claimed_facts[OF assms(1), where now = now and limit = limit]
  have d: "distinct ts" using assms(1) by (simp add: distinct_map)
  have lease: "t0 < now + TaskClaimLease" using assms(2) by (simp add: TaskClaimLease_def)
  have "sorted_wrt (\<lambda>a b. ready t0 b \<longrightarrow> ready t0 a) (readyTasks ts now)"
    using sorted_readyTasks[of ts now] set_readyTasks[of ts now]
    by (auto simp: ready_def elim!: sorted_wrt_mono_rel[rotated])
  then have n: "length (filter (ready t0) ?C) = min limit (length (filter (ready t0) (readyTasks ts now)))"
    unfolding claimed_def by (rule sorted_filter_take)
  have dr: "distinct (readyTasks ts now)" using d by (simp add: readyTasks_def)
  have "{t \<in> set (readyTasks ts now). ready t0 t} = {t \<in> set ts. ready t0 t}"
    using assms(2) by (auto simp: set_readyTasks ready_def)
  then have m: "length (filter (ready t0) (readyTasks ts now)) = length (filter (ready t0) ts)"
    by (simp add: length_filter_card d dr)
  have "{t \<in> set ts. ready t0 t \<and> t \<notin> set ?C} = {t \<in> set ts. ready t0 t} - {t \<in> set ?C. ready t0 t}" by blast
  moreover have "{t \<in> set ?C. ready t0 t} \<subseteq> {t \<in> set ts. ready t0 t}" using c(1) by blast
  ultimately have "length (filter (\<lambda>t. ready t0 t \<and> t \<notin> set ?C) ts) = length (filter (ready t0) ts) - length (filter (ready t0) ?C)"
    using c(2) d by (simp add: length_filter_card card_Diff_subset)
  then show ?thesis using n m by (simp add: claim_ready[OF assms(1) lease])
qed

lemma claim_ids: "map tk_ID (fst (ClaimReadyTasks ts now limit)) = map tk_ID ts"
  by (auto simp: ClaimReadyTasks_def Let_def update_where_def)

lemma claimLoop_Cons:
  "concat (snd (claimLoop ts (now # nows) limit)) =
     map markClaimed (claimed ts now limit) @ concat (snd (claimLoop (fst (ClaimReadyTasks ts now limit)) nows limit))"
  by (simp add: ClaimReadyTasks_def claimed_def Let_def split: prod.splits)

lemma claimLoop_serves:
  assumes "\<forall>n \<in> set nows. t0 \<le> n"
  shows "distinct (map tk_ID ts) \<Longrightarrow> length (filter (ready t0) ts) \<le> length nows * limit \<Longrightarrow> t \<in> set ts \<Longrightarrow> ready t0 t \<Longrightarrow>
    tk_ID t \<in> tk_ID ` set (concat (snd (claimLoop ts nows limit)))"
  using assms
proof (induction nows arbitrary: ts)
  case Nil
  then show ?case by (auto simp: filter_empty_conv)
next
  case (Cons now nows)
  let ?ts = "fst (ClaimReadyTasks ts now limit)"
  have now: "t0 \<le> now" using Cons.prems(5) by simp
  show ?case
  proof (cases "t \<in> set (claimed ts now limit)")
    case True
    then have "tk_ID t \<in> tk_ID ` set (map markClaimed (claimed ts now limit))" by (simp add: image_image)
    then show ?thesis unfolding claimLoop_Cons by (simp add: image_Un)
  next
    case False
    have lease: "t0 < now + TaskClaimLease" using now by (simp add: TaskClaimLease_def)
    have "t \<in> set (filter (ready t0) ?ts)"
      using False Cons.prems(3,4) by (simp only: claim_ready[OF Cons.prems(1) lease] set_filter) simp
    moreover have "distinct (map tk_ID ?ts)" using Cons.prems(1) by (simp add: claim_ids)
    moreover have "length (filter (ready t0) ?ts) \<le> length nows * limit"
      using Cons.prems(2) claim_progress[OF Cons.prems(1) now, of limit] by simp
    ultimately have "tk_ID t \<in> tk_ID ` set (concat (snd (claimLoop ?ts nows limit)))" using Cons.IH Cons.prems(5) by simp
    then show ?thesis unfolding claimLoop_Cons by (simp add: image_Un)
  qed
qed

lemma claimLoop_once:
  assumes "\<forall>n \<in> set nows. t0 \<le> n \<and> n < t0 + TaskClaimLease"
  shows "distinct (map tk_ID ts) \<Longrightarrow> distinct (map tk_ID (concat (snd (claimLoop ts nows limit))))
    \<and> tk_ID ` set (concat (snd (claimLoop ts nows limit))) \<subseteq> tk_ID ` {t \<in> set ts. tk_RetryAt t < t0 + TaskClaimLease}"
  using assms
proof (induction nows arbitrary: ts)
  case Nil
  then show ?case by simp
next
  case (Cons now nows)
  let ?ts = "fst (ClaimReadyTasks ts now limit)" and ?C = "claimed ts now limit"
  note c = claimed_facts[OF Cons.prems(1), where now = now and limit = limit]
  have now: "t0 \<le> now" "now < t0 + TaskClaimLease" using Cons.prems(2) by simp_all
  have "distinct (map tk_ID ?ts)" using Cons.prems(1) by (simp add: claim_ids)
  then have ih: "distinct (map tk_ID (concat (snd (claimLoop ?ts nows limit))))"
      "tk_ID ` set (concat (snd (claimLoop ?ts nows limit))) \<subseteq> tk_ID ` {t \<in> set ?ts. tk_RetryAt t < t0 + TaskClaimLease}"
    using Cons.IH Cons.prems(2) by simp_all
  have "set ?ts = (\<lambda>t. if tk_ID t \<in> tk_ID ` set ?C then (markClaimed t)\<lparr>tk_RetryAt := now + TaskClaimLease\<rparr> else t) ` set ts"
    by (simp add: ClaimReadyTasks_def Let_def update_where_def claimed_def)
  then have later: "{t \<in> set ?ts. tk_RetryAt t < t0 + TaskClaimLease} \<subseteq> {t \<in> set ts. tk_RetryAt t < t0 + TaskClaimLease \<and> t \<notin> set ?C}"
    using now(1) c(3) by auto
  have first: "tk_ID ` set ?C \<subseteq> tk_ID ` {t \<in> set ts. tk_RetryAt t < t0 + TaskClaimLease}"
    using c(1) now(2) by (force simp: ready_def)
  have "inj_on tk_ID (set ts)" using Cons.prems(1) by (simp add: distinct_map)
  then have "distinct (map tk_ID ?C)" using c(1,2) by (auto simp: distinct_map intro: inj_on_subset)
  let ?R = "concat (snd (claimLoop ?ts nows limit))"
  have sub: "tk_ID ` set ?R \<subseteq> tk_ID ` {t \<in> set ts. tk_RetryAt t < t0 + TaskClaimLease \<and> t \<notin> set ?C}"
    by (rule order_trans[OF ih(2) image_mono[OF later]])
  have out: "tk_ID t \<notin> tk_ID ` set ?C" if "t \<in> set ts" "t \<notin> set ?C" for t using c(3)[OF that(1)] that(2) by simp
  have disj: "tk_ID ` set ?C \<inter> tk_ID ` set ?R = {}"
  proof (rule equals0I)
    fix i assume i: "i \<in> tk_ID ` set ?C \<inter> tk_ID ` set ?R"
    then have "i \<in> tk_ID ` {t \<in> set ts. tk_RetryAt t < t0 + TaskClaimLease \<and> t \<notin> set ?C}" using sub by (simp add: subset_iff)
    then obtain t where "i = tk_ID t" "t \<in> set ts" "t \<notin> set ?C" by (elim imageE CollectE conjE)
    with out i show False by simp
  qed
  have ids: "map tk_ID (map markClaimed ?C) = map tk_ID ?C" "tk_ID ` set (map markClaimed ?C) = tk_ID ` set ?C"
    by (simp_all add: image_image)
  have "tk_ID ` set ?R \<subseteq> tk_ID ` {t \<in> set ts. tk_RetryAt t < t0 + TaskClaimLease}" using sub by blast
  then show ?case
    unfolding claimLoop_Cons map_append distinct_append set_append image_Un ids set_map
    using \<open>distinct (map tk_ID ?C)\<close> ih(1) disj first by (simp add: ids image_image)
qed

text \<open>
  C24 (ready_tasks_are_claimed): repeated claims serve every task that was ready when they began, each task
  exactly once, as soon as there were enough claims for all of them; it does not matter that further tasks become ready
  meanwhile. The claims are made before the first lease runs out.
\<close>

theorem ready_tasks_are_claimed:
  assumes "distinct (map tk_ID ts)" and "list_all (\<lambda>now. t0 \<le> now \<and> now < t0 + TaskClaimLease) nows"
    and "length (readyTasks ts t0) \<le> length nows * limit"
  shows "tk_ID ` set (readyTasks ts t0) \<subseteq> tk_ID ` set (concat (snd (claimLoop ts nows limit)))
    \<and> distinct (map tk_ID (concat (snd (claimLoop ts nows limit))))"
  using claimLoop_serves[of nows t0 ts limit] claimLoop_once[of nows t0 ts limit] assms
  by (auto simp: list_all_iff set_readyTasks length_readyTasks)

definition sampleTasks :: "Task list" where
  "sampleTasks = map (\<lambda>(i, t). newTask i \<lparr>rt_CreatedAt = t, rt_RetryAt = t\<rparr> None ''vector_store_delete'' [])
     [(''t1'', 5), (''t2'', 3), (''t3'', 9), (''t4'', 20)]"

theorem ready_tasks_are_claimed_witness:
  "distinct (map tk_ID (concat (snd (claimLoop sampleTasks [10, 21, 30] 1))))
   \<and> map tk_ID (readyTasks sampleTasks 10) = [''t2'', ''t1'', ''t3'']
   \<and> tk_ID ` set (readyTasks sampleTasks 10) \<subseteq> tk_ID ` set (concat (snd (claimLoop sampleTasks [10, 21, 30] 1)))"
proof -
  have "distinct (map tk_ID sampleTasks)" "list_all (\<lambda>now. 10 \<le> now \<and> now < 10 + TaskClaimLease) [10, 21, 30]"
    "length (readyTasks sampleTasks 10) \<le> length [10 :: time, 21, 30] * 1"
    "map tk_ID (readyTasks sampleTasks 10) = [''t2'', ''t1'', ''t3'']" by code_simp+
  then show ?thesis using ready_tasks_are_claimed[of sampleTasks 10 "[10, 21, 30]" 1] by simp
qed

end
