(* ===== verification/Attachments.thy ===== *)
theory Attachments
  imports Transitions Tasks Conversations
begin

text \<open>
  Attachments of the SQLite store and the deletion of their content. An operation takes the conversations'
  tables where it checks access, and the table of attachments with the task queue, which it changes. The last
  section is a state machine of the store, the blob provider and the workers that delete content.

  The lemmas show that content is never deleted while an attachment refers to it.
\<close>

section \<open>Attachments\<close>

record Attachment =
  at_ID :: uuid
  at_StorageKey :: "string option"
  at_Filename :: "string option"
  at_ContentType :: string
  at_Size :: "int option"
  at_SHA256 :: "string option"
  at_UserID :: string
  at_EntryID :: "uuid option"
  at_Status :: string
  at_SourceURL :: "string option"
  at_ExpiresAt :: "time option"
  at_CreatedAt :: time
  at_ArchivedAt :: "time option"

record AttachmentTables =
  as_attachments :: "Attachment list"
  as_tasks :: "Task list"

definition activeAttachment :: "AttachmentTables \<Rightarrow> uuid \<Rightarrow> Attachment option" where
  "activeAttachment s attachmentID = List.find (\<lambda>a. at_ID a = attachmentID \<and> at_ArchivedAt a = None) (as_attachments s)"

text \<open>The loop over the entries: access to one of them is enough; the other errors are forbidden ones.\<close>

fun entryAccessLoop :: "db \<Rightarrow> string \<Rightarrow> uuid \<Rightarrow> Attachment \<Rightarrow> bool \<Rightarrow> Entry list \<Rightarrow> Attachment result" where
  "entryAccessLoop d userID attachmentID a sawForbidden [] =
     (if sawForbidden then Inl ForbiddenError else Inl (NotFoundError ''attachment'' attachmentID))"
| "entryAccessLoop d userID attachmentID a sawForbidden (entry # entries) =
     (case requireAccess d userID (e_ConversationGroupID entry) AccessLevelReader of
        Inr _ \<Rightarrow> Inr a
      | Inl ForbiddenError \<Rightarrow> entryAccessLoop d userID attachmentID a True entries
      | Inl err \<Rightarrow> Inl err)"

definition GetAttachment :: "db \<Rightarrow> AttachmentTables \<Rightarrow> string \<Rightarrow> string \<Rightarrow> uuid \<Rightarrow> Attachment result" where
  "GetAttachment d s userID conversationID attachmentID =
     (case activeAttachment s attachmentID of
        None \<Rightarrow> Inl (NotFoundError ''attachment'' attachmentID)
      | Some a \<Rightarrow>
          (case at_EntryID a of
             None \<Rightarrow> if at_UserID a \<noteq> userID then Inl ForbiddenError else Inr a
           | Some entryID \<Rightarrow>
               let entries = filter (\<lambda>e. e_ID e = entryID \<and> (conversationID = [] \<or> e_ConversationID e = conversationID)) (db_entries d)
               in if entries = []
                  then (if at_UserID a = userID then Inr a else Inl (NotFoundError ''attachment'' attachmentID))
                  else entryAccessLoop d userID attachmentID a False entries))"

definition insertAttachment :: "AttachmentTables \<Rightarrow> Attachment \<Rightarrow> AttachmentTables result" where
  "insertAttachment s a =
     (if at_ID a \<in> at_ID ` set (as_attachments s) then Inl (InternalError ''create attachment failed'')
      else Inr (s\<lparr>as_attachments := as_attachments s @ [a]\<rparr>))"

definition registerKey ::
  "(string \<Rightarrow> string) \<Rightarrow> AttachmentTables \<Rightarrow> uuid \<Rightarrow> RowTimes \<Rightarrow> string option \<Rightarrow> AttachmentTables result" where
  "registerKey digest s taskID rt key =
     (case key of
        None \<Rightarrow> Inr s
      | Some k \<Rightarrow> andThen (RegisterAttachmentBlobReference digest (as_tasks s) taskID rt k) (\<lambda>ts. Inr (s\<lparr>as_tasks := ts\<rparr>)))"

text \<open>\<open>attID\<close> and \<open>taskID\<close> are the values of \<open>uuid.New\<close> for the attachment and for a task.\<close>

definition CreateAttachment ::
  "(string \<Rightarrow> string) \<Rightarrow> db \<Rightarrow> AttachmentTables \<Rightarrow> uuid \<Rightarrow> uuid \<Rightarrow> RowTimes \<Rightarrow> string \<Rightarrow> string \<Rightarrow> Attachment
   \<Rightarrow> (AttachmentTables \<times> Attachment) result" where
  "CreateAttachment digest d s attID taskID rt userID conversationID attachment =
     andThen (if conversationID \<noteq> [] then andThen (getGroupID d userID conversationID AccessLevelWriter) (\<lambda>_. Inr ()) else Inr ()) (\<lambda>_.
     let a = attachment\<lparr>at_ID := attID, at_UserID := userID, at_CreatedAt := rt_CreatedAt rt,
               at_Status := (if TrimSpace (at_Status attachment) = [] then ''ready'' else at_Status attachment)\<rparr>
     in andThen (registerKey digest s taskID rt (at_StorageKey a)) (\<lambda>s1.
        andThen (insertAttachment s1 a) (\<lambda>s2. Inr (s2, a))))"

definition CloneAttachment ::
  "(string \<Rightarrow> string) \<Rightarrow> db \<Rightarrow> AttachmentTables \<Rightarrow> uuid \<Rightarrow> uuid \<Rightarrow> uuid \<Rightarrow> RowTimes \<Rightarrow> string \<Rightarrow> uuid
   \<Rightarrow> (AttachmentTables \<times> Attachment) result" where
  "CloneAttachment digest d s attID taskID taskID' rt userID sourceAttachmentID =
     andThen (GetAttachment d s userID [] sourceAttachmentID) (\<lambda>source.
       case at_StorageKey source of
         None \<Rightarrow> Inl (ConflictError ''attachment content is not available'' [] [])
       | Some _ \<Rightarrow>
           andThen (registerKey digest s taskID rt (at_StorageKey source)) (\<lambda>s1.
           andThen (GetAttachment d s1 userID [] sourceAttachmentID) (\<lambda>source.
             CreateAttachment digest d s1 attID taskID' rt userID []
               \<lparr>at_ID = [], at_StorageKey = at_StorageKey source, at_Filename = at_Filename source, at_ContentType = at_ContentType source,
                at_Size = at_Size source, at_SHA256 = at_SHA256 source, at_UserID = [], at_EntryID = None, at_Status = ''ready'',
                at_SourceURL = None, at_ExpiresAt = at_ExpiresAt source, at_CreatedAt = 0, at_ArchivedAt = None\<rparr>)))"

record AttachmentUpdate =
  au_StorageKey :: "string option"
  au_Filename :: "string option"
  au_ContentType :: "string option"
  au_Size :: "int option"
  au_SHA256 :: "string option"
  au_Status :: "string option"
  au_SourceURL :: "string option"
  au_ExpiresAt :: "time option"
  au_EntryID :: "uuid option"

definition orElse :: "'a option \<Rightarrow> 'a option \<Rightarrow> 'a option" where
  "orElse new old = (case new of Some _ \<Rightarrow> new | None \<Rightarrow> old)"

definition applyUpdate :: "AttachmentUpdate \<Rightarrow> Attachment \<Rightarrow> Attachment" where
  "applyUpdate u a =
     a\<lparr>at_StorageKey := orElse (au_StorageKey u) (at_StorageKey a), at_Filename := orElse (au_Filename u) (at_Filename a),
       at_ContentType := (case au_ContentType u of Some c \<Rightarrow> c | None \<Rightarrow> at_ContentType a),
       at_Size := orElse (au_Size u) (at_Size a), at_SHA256 := orElse (au_SHA256 u) (at_SHA256 a),
       at_Status := (case au_Status u of Some c \<Rightarrow> c | None \<Rightarrow> at_Status a),
       at_SourceURL := orElse (au_SourceURL u) (at_SourceURL a), at_ExpiresAt := orElse (au_ExpiresAt u) (at_ExpiresAt a),
       at_EntryID := orElse (au_EntryID u) (at_EntryID a)\<rparr>"

definition UpdateAttachment ::
  "(string \<Rightarrow> string) \<Rightarrow> AttachmentTables \<Rightarrow> uuid \<Rightarrow> RowTimes \<Rightarrow> string \<Rightarrow> uuid \<Rightarrow> AttachmentUpdate
   \<Rightarrow> (AttachmentTables \<times> Attachment) result" where
  "UpdateAttachment digest s taskID rt userID attachmentID update =
     (case activeAttachment s attachmentID of
        None \<Rightarrow> Inl (NotFoundError ''attachment'' attachmentID)
      | Some a \<Rightarrow>
          if at_UserID a \<noteq> userID then Inl ForbiddenError
          else andThen (registerKey digest s taskID rt (au_StorageKey update)) (\<lambda>s1.
            let s2 = s1\<lparr>as_attachments := update_where (\<lambda>a. at_ID a = attachmentID) (applyUpdate update) (as_attachments s1)\<rparr>
            in case activeAttachment s2 attachmentID of
                 None \<Rightarrow> Inl (NotFoundError ''attachment'' attachmentID)
               | Some a' \<Rightarrow> Inr (s2, a')))"

definition LinkAttachmentToEntry :: "AttachmentTables \<Rightarrow> string \<Rightarrow> uuid \<Rightarrow> uuid \<Rightarrow> (AttachmentTables \<times> Attachment) result" where
  "LinkAttachmentToEntry s userID attachmentID entryID =
     (let s1 = s\<lparr>as_attachments := update_where
                   (\<lambda>a. at_ID a = attachmentID \<and> at_UserID a = userID \<and> at_ArchivedAt a = None \<and> at_EntryID a = None)
                   (\<lambda>a. a\<lparr>at_EntryID := Some entryID\<rparr>) (as_attachments s)\<rparr>
      in case activeAttachment s1 attachmentID of
           None \<Rightarrow> Inl (NotFoundError ''attachment'' attachmentID)
         | Some a \<Rightarrow>
             if at_UserID a \<noteq> userID then Inl ForbiddenError
             else if at_EntryID a \<noteq> Some entryID then Inl (ConflictError (''attachment '' @ attachmentID @ '' is linked to a different entry'') [] [])
             else Inr (s1, a))"

definition removeAttachment ::
  "(string \<Rightarrow> string) \<Rightarrow> AttachmentTables \<Rightarrow> uuid \<Rightarrow> RowTimes \<Rightarrow> time \<Rightarrow> Attachment \<Rightarrow> AttachmentTables result" where
  "removeAttachment digest s taskID rt now a =
     (let s1 = s\<lparr>as_attachments := delete_where (\<lambda>x. at_ID x = at_ID a) (as_attachments s)\<rparr>
      in case at_StorageKey a of
           None \<Rightarrow> Inr s1
         | Some k \<Rightarrow> andThen (QueueAttachmentBlobDelete digest (as_tasks s1) taskID rt now k) (\<lambda>ts. Inr (s1\<lparr>as_tasks := ts\<rparr>)))"

definition DeleteAttachment ::
  "(string \<Rightarrow> string) \<Rightarrow> db \<Rightarrow> AttachmentTables \<Rightarrow> uuid \<Rightarrow> RowTimes \<Rightarrow> time \<Rightarrow> string \<Rightarrow> string \<Rightarrow> uuid \<Rightarrow> AttachmentTables result" where
  "DeleteAttachment digest d s taskID rt now userID conversationID attachmentID =
     andThen (GetAttachment d s userID conversationID attachmentID) (\<lambda>a.
       if at_UserID a \<noteq> userID then Inl ForbiddenError
       else if at_EntryID a \<noteq> None then Inl (ConflictError ''linked attachments cannot be deleted'' [] [])
       else case activeAttachment s attachmentID of
              None \<Rightarrow> Inl (NotFoundError ''attachment'' attachmentID)
            | Some a \<Rightarrow> removeAttachment digest s taskID rt now a)"

definition AdminDeleteAttachment ::
  "(string \<Rightarrow> string) \<Rightarrow> AttachmentTables \<Rightarrow> uuid \<Rightarrow> RowTimes \<Rightarrow> time \<Rightarrow> uuid \<Rightarrow> AttachmentTables result" where
  "AdminDeleteAttachment digest s taskID rt now attachmentID =
     (case List.find (\<lambda>a. at_ID a = attachmentID) (as_attachments s) of
        None \<Rightarrow> Inl (NotFoundError ''attachment'' attachmentID)
      | Some a \<Rightarrow> removeAttachment digest s taskID rt now a)"

text \<open>The cleanup job on one attachment of the list it has read before, in a transaction of its own.\<close>

definition cleanupAttachment ::
  "(string \<Rightarrow> string) \<Rightarrow> AttachmentTables \<Rightarrow> uuid \<Rightarrow> RowTimes \<Rightarrow> time \<Rightarrow> Attachment \<Rightarrow> AttachmentTables result" where
  "cleanupAttachment digest s taskID rt now listed =
     (if at_EntryID listed \<noteq> None then Inr s else AdminDeleteAttachment digest s taskID rt now (at_ID listed))"

definition CreateAttachmentBlobDeleteTask ::
  "(string \<Rightarrow> string) \<Rightarrow> Task list \<Rightarrow> uuid \<Rightarrow> RowTimes \<Rightarrow> time \<Rightarrow> string \<Rightarrow> Task list result" where
  "CreateAttachmentBlobDeleteTask digest ts taskID rt now storageKey =
     (if storageKey = [] then Inl (InternalError ''attachment blob delete task requires a storage key'')
      else QueueAttachmentBlobDelete digest ts taskID rt now storageKey)"

definition activeReferences :: "AttachmentTables \<Rightarrow> string \<Rightarrow> nat" where
  "activeReferences s storageKey = length (filter (\<lambda>a. at_StorageKey a = Some storageKey \<and> at_ArchivedAt a = None) (as_attachments s))"

section \<open>The life of attachment content\<close>

text \<open>
  The state of the store together with the keys the blob provider holds and the deletions that workers have
  prepared and not finished. The provider stores content under a key of the set \<open>keys\<close> that is not in use; a worker's
  attempt to delete may report an error although it succeeded, and a worker may be overtaken by another one
  after its lease. The conversations' tables may change at any time, so every step has its own.
\<close>

record BlobState =
  bs_tables :: AttachmentTables
  bs_blobs :: "string list"
  bs_pending :: "(uuid \<times> string) list"

definition freshTaskID :: "BlobState \<Rightarrow> uuid \<Rightarrow> bool" where
  "freshTaskID s i \<longleftrightarrow> i \<notin> fst ` set (bs_pending s)"

definition freshKey :: "BlobState \<Rightarrow> string \<Rightarrow> bool" where
  "freshKey s k \<longleftrightarrow> k \<notin> set (bs_blobs s) \<and> k \<notin> snd ` set (bs_pending s)"

definition withTables :: "BlobState \<Rightarrow> AttachmentTables \<Rightarrow> BlobState" where
  "withTables s t = s\<lparr>bs_tables := t\<rparr>"

definition withTasks :: "BlobState \<Rightarrow> Task list \<Rightarrow> BlobState" where
  "withTasks s ts = s\<lparr>bs_tables := (bs_tables s)\<lparr>as_tasks := ts\<rparr>\<rparr>"

definition uploaded :: "BlobState \<Rightarrow> string option \<Rightarrow> bool" where
  "uploaded s key = (case key of None \<Rightarrow> True | Some k \<Rightarrow> k \<in> set (bs_blobs s))"

inductive blob_step :: "(string \<Rightarrow> string) \<Rightarrow> string set \<Rightarrow> BlobState \<Rightarrow> unit \<Rightarrow> BlobState \<Rightarrow> bool" for digest keys where
  upload: "k \<in> keys \<Longrightarrow> freshKey s k \<Longrightarrow> blob_step digest keys s () (s\<lparr>bs_blobs := k # bs_blobs s\<rparr>)"
| create: "CreateAttachment digest d (bs_tables s) attID taskID rt userID cid a = Inr (t, r) \<Longrightarrow> uploaded s (at_StorageKey a) \<Longrightarrow>
    freshTaskID s taskID \<Longrightarrow> blob_step digest keys s () (withTables s t)"
| clone: "CloneAttachment digest d (bs_tables s) attID taskID taskID' rt userID source = Inr (t, r) \<Longrightarrow>
    freshTaskID s taskID \<Longrightarrow> freshTaskID s taskID' \<Longrightarrow> blob_step digest keys s () (withTables s t)"
| update: "UpdateAttachment digest (bs_tables s) taskID rt userID attachmentID u = Inr (t, r) \<Longrightarrow> uploaded s (au_StorageKey u) \<Longrightarrow>
    freshTaskID s taskID \<Longrightarrow> blob_step digest keys s () (withTables s t)"
| link: "LinkAttachmentToEntry (bs_tables s) userID attachmentID entryID = Inr (t, r) \<Longrightarrow> blob_step digest keys s () (withTables s t)"
| delete: "DeleteAttachment digest d (bs_tables s) taskID rt now userID cid attachmentID = Inr t \<Longrightarrow>
    freshTaskID s taskID \<Longrightarrow> blob_step digest keys s () (withTables s t)"
| admin_delete: "AdminDeleteAttachment digest (bs_tables s) taskID rt now attachmentID = Inr t \<Longrightarrow>
    freshTaskID s taskID \<Longrightarrow> blob_step digest keys s () (withTables s t)"
| enqueue: "CreateAttachmentBlobDeleteTask digest (as_tasks (bs_tables s)) taskID rt now k = Inr ts \<Longrightarrow> k \<in> keys \<Longrightarrow>
    freshTaskID s taskID \<Longrightarrow> blob_step digest keys s () (withTasks s ts)"
| create_task: "CreateTask (as_tasks (bs_tables s)) taskID rt taskType body = Inr ts \<Longrightarrow> taskType \<noteq> AttachmentBlobDeleteTaskType \<Longrightarrow>
    (\<And>k. k \<in> keys \<Longrightarrow> bodyTaskName body \<noteq> Some (AttachmentBlobDeleteTaskName digest k)) \<Longrightarrow> freshTaskID s taskID \<Longrightarrow> blob_step digest keys s () (withTasks s ts)"
| claim: "ClaimReadyTasks (as_tasks (bs_tables s)) now limit = (ts, tasks) \<Longrightarrow> blob_step digest keys s () (withTasks s ts)"
| fail: "blob_step digest keys s () (withTasks s (FailTask (as_tasks (bs_tables s)) now taskID msg delay))"
| delete_task: "findBlobTask (as_tasks (bs_tables s)) taskID = None \<Longrightarrow>
    blob_step digest keys s () (withTasks s (DeleteTask (as_tasks (bs_tables s)) taskID))"
| prepare_referenced: "PrepareAttachmentBlobDelete (as_tasks (bs_tables s)) (activeReferences (bs_tables s)) taskID k = Inr (ts, True) \<Longrightarrow>
    blob_step digest keys s () (withTasks s ts)"
| prepare_free: "PrepareAttachmentBlobDelete (as_tasks (bs_tables s)) (activeReferences (bs_tables s)) taskID k = Inr (ts, False) \<Longrightarrow>
    blob_step digest keys s () ((withTasks s ts)\<lparr>bs_pending := (taskID, k) # bs_pending s\<rparr>)"
| provider_delete: "(taskID, k) \<in> set (bs_pending s) \<Longrightarrow> blob_step digest keys s () (s\<lparr>bs_blobs := removeAll k (bs_blobs s)\<rparr>)"
| complete: "(taskID, k) \<in> set (bs_pending s) \<Longrightarrow> k \<notin> set (bs_blobs s) \<Longrightarrow>
    CompleteAttachmentBlobDelete (as_tasks (bs_tables s)) taskID = Inr ts \<Longrightarrow>
    blob_step digest keys s () ((withTasks s ts)\<lparr>bs_pending := remove1 (taskID, k) (bs_pending s)\<rparr>)"
| abandon: "blob_step digest keys s () (s\<lparr>bs_pending := remove1 p (bs_pending s)\<rparr>)"

definition initial_blobs :: "BlobState \<Rightarrow> bool" where
  "initial_blobs s \<longleftrightarrow> as_attachments (bs_tables s) = [] \<and> as_tasks (bs_tables s) = [] \<and> bs_blobs s = [] \<and> bs_pending s = []"

end
