(* ===== verification/Machine.thy ===== *)
theory Machine
  imports Transitions Sync_Facts Memberships Maintenance Attachments
begin

text \<open>
  The SQLite store as a state machine. A step is one successful store operation; the state is the
  database with the entries cache. The label of a step says who acts: a user, the system (the indexer or
  an administrator), or an eviction with the groups it deletes. Failed operations change nothing and are
  no steps. The theory proves the store invariant with the single-owner rule over all reachable states.
\<close>

section \<open>Steps\<close>

type_synonym state = "db \<times> entries_cache"

datatype action = By string | System | Evicts "uuid list"

text \<open>
  The attachments an append refers to are looked up in the attachment tables of that moment, with
  \<open>GetAttachment\<close>; the tables change between the steps.
\<close>

definition attachmentKey :: "db \<Rightarrow> AttachmentTables \<Rightarrow> string \<Rightarrow> uuid \<Rightarrow> string option result" where
  "attachmentKey d atts userID attachmentID =
     andThen (GetAttachment d atts userID [] attachmentID) (\<lambda>a. Inr (at_StorageKey a))"

definition withAttachments :: "db \<Rightarrow> AttachmentTables \<Rightarrow> Codec \<Rightarrow> Codec" where
  "withAttachments d atts co = co\<lparr>jc_getAttachment := attachmentKey d atts\<rparr>"

inductive store_step :: "enc \<Rightarrow> Codec \<Rightarrow> 'v ContentCodec \<Rightarrow> state \<Rightarrow> action \<Rightarrow> state \<Rightarrow> bool" for s_enc co cc where
  create: "createConversationWithID d s_enc gid now req = (d', Inr r) \<Longrightarrow>
    store_step s_enc co cc (d, cache) (By (cr_UserID req)) (d', cache)"
| append: "appendEntries d cache s_enc (withAttachments d atts co) fr cid r aa = Inr (d', cache', result) \<Longrightarrow>
    freshIDs d (fr_IDs fr) (length (sr_Entries r)) \<Longrightarrow>
    store_step s_enc co cc (d, cache) (By (sr_UserID r)) (d', cache')"
| sync: "SyncAgentEntry d cache s_enc cc fr u cid entry cl ag = Inr (d', cache', sres) \<Longrightarrow> freshIDs d (fr_IDs fr) 1 \<Longrightarrow>
    store_step s_enc co cc (d, cache) (By u) (d', cache')"
| update: "UpdateConversation d s_enc now u cid title metadata = Inr (d', summary) \<Longrightarrow>
    store_step s_enc co cc (d, cache) (By u) (d', cache)"
| archive: "ArchiveConversation d now u cid = Inr d' \<Longrightarrow> store_step s_enc co cc (d, cache) (By u) (d', cache)"
| archive_if_needed: "ArchiveConversationIfNeeded d now u cid = Inr (d', ar) \<Longrightarrow>
    store_step s_enc co cc (d, cache) (By u) (d', cache)"
| unarchive: "UnarchiveConversation d now u cid = Inr d' \<Longrightarrow> store_step s_enc co cc (d, cache) (By u) (d', cache)"
| unarchive_if_needed: "UnarchiveConversationIfNeeded d now u cid = Inr (d', ar) \<Longrightarrow>
    store_step s_enc co cc (d, cache) (By u) (d', cache)"
| share: "ShareConversation d driverText now u cid target level = Inr (d', m) \<Longrightarrow>
    store_step s_enc co cc (d, cache) (By u) (d', cache)"
| update_membership: "UpdateMembership d u cid target level = Inr (d', m) \<Longrightarrow>
    store_step s_enc co cc (d, cache) (By u) (d', cache)"
| delete_membership: "DeleteMembership d u cid target = Inr d' \<Longrightarrow> store_step s_enc co cc (d, cache) (By u) (d', cache)"
| create_transfer: "CreateOwnershipTransfer d tid now u cid target = Inr (d', td) \<Longrightarrow>
    store_step s_enc co cc (d, cache) (By u) (d', cache)"
| accept_transfer: "AcceptTransfer d now u tid = Inr d' \<Longrightarrow> store_step s_enc co cc (d, cache) (By u) (d', cache)"
| delete_transfer: "DeleteTransfer d u tid = Inr d' \<Longrightarrow> store_step s_enc co cc (d, cache) (By u) (d', cache)"
| index_entries: "IndexEntries d reqs = Inr (d', n) \<Longrightarrow> store_step s_enc co cc (d, cache) System (d', cache)"
| set_indexed_at: "store_step s_enc co cc (d, cache) System (SetIndexedAt d entryID groupID indexedAt, cache)"
| admin_archive: "AdminSetConversationArchived d now cid archived = Inr d' \<Longrightarrow>
    store_step s_enc co cc (d, cache) System (d', cache)"
| hard_delete: "store_step s_enc co cc (d, cache) (Evicts gs) (HardDeleteConversationGroups d gs, cache)"

section \<open>The invariant\<close>

text \<open>A group has at most one owner, and a pending transfer comes from that owner.\<close>

definition isOwner :: "db \<Rightarrow> uuid \<Rightarrow> string \<Rightarrow> bool" where
  "isOwner d g u \<longleftrightarrow>
     (\<exists>m \<in> set (db_memberships d). m_ConversationGroupID m = g \<and> m_UserID m = u \<and> m_AccessLevel m = AccessLevelOwner)"

definition ownersOK :: "db \<Rightarrow> bool" where
  "ownersOK d \<longleftrightarrow>
     (\<forall>g u v. isOwner d g u \<and> isOwner d g v \<longrightarrow> u = v)
     \<and> (\<forall>t \<in> set (db_transfers d). \<forall>u. isOwner d (t_ConversationGroupID t) u \<longrightarrow> u = t_FromUserID t)"

lemma ownersOK_mono:
  assumes "ownersOK d" and "\<And>g u. isOwner d' g u \<Longrightarrow> isOwner d g u" and "set (db_transfers d') \<subseteq> set (db_transfers d)"
  shows "ownersOK d'"
  using assms unfolding ownersOK_def by blast

definition stateOK :: "state \<Rightarrow> bool" where
  "stateOK s \<longleftrightarrow> storeOK (fst s) \<and> sequencesOK (fst s) \<and> epochsOK (fst s) \<and> ownersOK (fst s)"

text \<open>Operations that leave the entries, the ancestry and the groups alone.\<close>

lemma entries_invariants:
  assumes "db_entries d' = db_entries d"
  shows "sequencesOK d' = sequencesOK d" "epochsOK d' = epochsOK d"
  using assms by (simp_all add: sequencesOK_def epochsOK_def)

lemma storeOK_members:
  assumes inv: "storeOK d" and same: "db_ancestry d' = db_ancestry d" "db_entries d' = db_entries d" "db_groups d' = db_groups d"
    and rows: "map (\<lambda>c. (c_ID c, c_ConversationGroupID c, c_ArchivedAt c)) (db_conversations d')
             = map (\<lambda>c. (c_ID c, c_ConversationGroupID c, c_ArchivedAt c)) (db_conversations d)"
    and keys: "distinct (map membershipKey (db_memberships d'))" "distinct (map t_ID (db_transfers d'))"
      "distinct (map t_ConversationGroupID (db_transfers d'))"
    and grp: "\<And>m. m \<in> set (db_memberships d') \<Longrightarrow> isGroup d (m_ConversationGroupID m)"
      "\<And>t. t \<in> set (db_transfers d') \<Longrightarrow> isGroup d (t_ConversationGroupID t)"
  shows "storeOK d'"
proof -
  let ?x = "d\<lparr>db_memberships := db_memberships d', db_transfers := db_transfers d'\<rparr>"
  have k: "keysOK ?x" using storeOK_D(4)[OF inv] keys by (simp add: keysOK_def)
  have "ancestryOK ?x" using ancestryOK_cong[OF storeOK_D(1)[OF inv] _ _ _ k] by simp
  moreover have "groupRefsOK ?x" "archiveOK ?x"
    using storeOK_D(2,3)[OF inv] grp by (simp_all add: groupRefsOK_def archiveOK_def isGroup_def)
  ultimately have "storeOK ?x" by (simp add: storeOK_def)
  then show ?thesis using same rows by (rule_tac storeOK_cong[of ?x]) simp_all
qed

lemma storeOK_rows:
  assumes "storeOK d"
  shows "distinct (map membershipKey (db_memberships d))" "distinct (map t_ID (db_transfers d))"
    "distinct (map t_ConversationGroupID (db_transfers d))"
    "m \<in> set (db_memberships d) \<Longrightarrow> isGroup d (m_ConversationGroupID m)"
    "t \<in> set (db_transfers d) \<Longrightarrow> isGroup d (t_ConversationGroupID t)"
    "conv \<in> set (db_conversations d) \<Longrightarrow> isGroup d (c_ConversationGroupID conv)"
  using storeOK_D(2,4)[OF assms] by (simp_all add: keysOK_def groupRefsOK_def)

lemma stateOK_members:
  assumes "stateOK (d, c)" and "storeOK d'" and "db_entries d' = db_entries d" and "ownersOK d'"
  shows "stateOK (d', c')"
  using assms(1,2,4) entries_invariants[OF assms(3)] by (simp add: stateOK_def)

lemma setAccess_facts:
  "db_ancestry (setAccess g u l d) = db_ancestry d" "db_entries (setAccess g u l d) = db_entries d"
  "db_groups (setAccess g u l d) = db_groups d" "db_conversations (setAccess g u l d) = db_conversations d"
  "db_transfers (setAccess g u l d) = db_transfers d"
  "map membershipKey (db_memberships (setAccess g u l d)) = map membershipKey (db_memberships d)"
  by (auto simp: setAccess_def update_where_def membershipKey_def)

lemma setAccess_member:
  "m \<in> set (db_memberships (setAccess g u l d)) \<longleftrightarrow>
     (\<exists>x \<in> set (db_memberships d). m = (if isMember g u x then x\<lparr>m_AccessLevel := l\<rparr> else x))"
  by (auto simp: setAccess_def update_where_def)

section \<open>Memberships and transfers keep the invariant\<close>

lemma getGroupID_D:
  assumes "getGroupID d u cid level = Inr g"
  obtains conv access where "conv \<in> set (db_conversations d)" "c_ID conv = cid" "c_ConversationGroupID conv = g"
    "requireAccess d u g level = Inr access"
  using assms by (auto simp: getGroupID_def andThen_eq_Inr dest!: findActive_Some split: option.splits)

lemma getGroupID_isGroup: "getGroupID d u cid level = Inr g \<Longrightarrow> storeOK d \<Longrightarrow> isGroup d g"
  by (elim getGroupID_D) (auto simp: groupRefsOK_def dest: storeOK_D(2))

lemma requireAccess_owner: "requireAccess d u g AccessLevelOwner = Inr access \<Longrightarrow> isOwner d g u"
  by (auto simp: requireAccess_def isOwner_def dest!: find_Some_set split: option.splits if_splits)

lemma share_D:
  assumes "ShareConversation d txt now u cid target level = Inr (d', m)"
  obtains g where "getGroupID d u cid AccessLevelManager = Inr g" "level \<noteq> AccessLevelOwner"
      "m = \<lparr>m_ConversationGroupID = g, m_UserID = target, m_AccessLevel = level, m_CreatedAt = now\<rparr>"
      "membershipKey m \<notin> membershipKey ` set (db_memberships d)" "d' = d\<lparr>db_memberships := db_memberships d @ [m]\<rparr>"
  using assms by (auto simp: ShareConversation_def andThen_eq_Inr Let_def split: if_splits)

lemma share_stateOK:
  assumes inv: "stateOK (d, c)" and op: "ShareConversation d txt now u cid target level = Inr (d', m)"
  shows "stateOK (d', c)"
proof -
  obtain g where g: "getGroupID d u cid AccessLevelManager = Inr g" "level \<noteq> AccessLevelOwner"
      "m = \<lparr>m_ConversationGroupID = g, m_UserID = target, m_AccessLevel = level, m_CreatedAt = now\<rparr>"
      "membershipKey m \<notin> membershipKey ` set (db_memberships d)" "d' = d\<lparr>db_memberships := db_memberships d @ [m]\<rparr>"
    using op by (rule share_D)
  have st: "storeOK d" and own: "ownersOK d" using inv by (simp_all add: stateOK_def)
  have "storeOK d'"
  proof (rule storeOK_members[OF st])
    show "distinct (map membershipKey (db_memberships d'))" using storeOK_rows(1)[OF st] g(4,5) by simp
    fix x assume "x \<in> set (db_memberships d')"
    then show "isGroup d (m_ConversationGroupID x)"
      using storeOK_rows(4)[OF st, of x] getGroupID_isGroup[OF g(1) st] by (auto simp: g(3,5))
  qed (use g(5) storeOK_rows[OF st] in simp_all)
  moreover have "ownersOK d'" using own by (rule ownersOK_mono) (use g in \<open>auto simp: isOwner_def\<close>)
  ultimately show ?thesis using stateOK_members[OF inv] g(5) by simp
qed

lemma setAccess_storeOK:
  assumes st: "storeOK d"
  shows "storeOK (setAccess g u l d)"
proof (rule storeOK_members[OF st])
  fix m assume "m \<in> set (db_memberships (setAccess g u l d))"
  then obtain x where "x \<in> set (db_memberships d)" "m_ConversationGroupID m = m_ConversationGroupID x"
    by (auto simp: setAccess_member)
  then show "isGroup d (m_ConversationGroupID m)" using storeOK_rows(4)[OF st] by simp
qed (use storeOK_rows[OF st] in \<open>simp_all add: setAccess_facts\<close>)

lemma setAccess_owner:
  "isOwner (setAccess g u l d) g' v \<longleftrightarrow>
     (if g' = g \<and> v = u then l = AccessLevelOwner \<and> list_ex (isMember g u) (db_memberships d) else isOwner d g' v)"
proof -
  have m: "db_memberships (setAccess g u l d) = update_where (isMember g u) (\<lambda>m. m\<lparr>m_AccessLevel := l\<rparr>) (db_memberships d)"
    by (simp add: setAccess_def)
  have "isOwner (setAccess g u l d) g' v \<longleftrightarrow>
      (\<exists>x \<in> set (db_memberships d). m_ConversationGroupID x = g' \<and> m_UserID x = v
         \<and> (if isMember g u x then l else m_AccessLevel x) = AccessLevelOwner)"
    unfolding isOwner_def m bex_update_where by (intro bex_cong) auto
  then show ?thesis by (cases "g' = g \<and> v = u") (auto simp: isOwner_def isMember_def list_ex_iff split: if_splits)
qed

lemma update_membership_D:
  assumes "UpdateMembership d u cid target level = Inr (d', m)"
  obtains g where "getGroupID d u cid AccessLevelManager = Inr g" "level \<noteq> AccessLevelOwner" "d' = setAccess g target level d"
  using assms by (auto simp: UpdateMembership_def andThen_eq_Inr Let_def split: if_splits option.splits)

lemma update_membership_stateOK:
  assumes inv: "stateOK (d, c)" and op: "UpdateMembership d u cid target level = Inr (d', m)"
  shows "stateOK (d', c)"
proof -
  obtain g where g: "level \<noteq> AccessLevelOwner" "d' = setAccess g target level d"
    using op by (rule update_membership_D)
  have "ownersOK d" "storeOK d" using inv by (simp_all add: stateOK_def)
  moreover from this have "ownersOK d'"
    by (elim ownersOK_mono) (use g in \<open>auto simp: setAccess_owner setAccess_facts split: if_splits\<close>)
  ultimately show ?thesis using stateOK_members[OF inv] setAccess_storeOK g(2) by (simp add: setAccess_facts)
qed

lemma delete_membership_D:
  assumes "DeleteMembership d u cid target = Inr d'"
  obtains g where "getGroupID d u cid AccessLevelManager = Inr g"
    "d' = d\<lparr>db_transfers := delete_where (\<lambda>t. t_ConversationGroupID t = g \<and> t_ToUserID t = target) (db_transfers d),
             db_memberships := delete_where (isMember g target) (db_memberships d)\<rparr>"
  using assms by (auto simp: DeleteMembership_def andThen_eq_Inr split: if_splits option.splits)

lemma delete_membership_stateOK:
  assumes inv: "stateOK (d, c)" and op: "DeleteMembership d u cid target = Inr d'"
  shows "stateOK (d', c)"
proof -
  obtain g where d': "d' = d\<lparr>db_transfers := delete_where (\<lambda>t. t_ConversationGroupID t = g \<and> t_ToUserID t = target) (db_transfers d),
                       db_memberships := delete_where (isMember g target) (db_memberships d)\<rparr>"
    using op by (rule delete_membership_D)
  have st: "storeOK d" and own: "ownersOK d" using inv by (simp_all add: stateOK_def)
  have "storeOK d'"
    by (rule storeOK_members[OF st]) (use storeOK_rows[OF st] in \<open>simp_all add: d' distinct_delete_where\<close>)
  moreover have "ownersOK d'" using own by (rule ownersOK_mono) (auto simp: d' isOwner_def)
  ultimately show ?thesis using stateOK_members[OF inv] by (simp add: d')
qed

lemma create_transfer_D:
  assumes "CreateOwnershipTransfer d tid now u cid target = Inr (d', td)"
  obtains conv access where "findActiveConversation d cid = Some conv"
      "requireAccess d u (c_ConversationGroupID conv) AccessLevelOwner = Inr access"
      "\<forall>t \<in> set (db_transfers d). t_ID t \<noteq> tid \<and> t_ConversationGroupID t \<noteq> c_ConversationGroupID conv"
      "d' = d\<lparr>db_transfers := db_transfers d @ [\<lparr>t_ID = tid, t_ConversationGroupID = c_ConversationGroupID conv,
                 t_FromUserID = u, t_ToUserID = target, t_CreatedAt = now\<rparr>]\<rparr>"
  using assms by (auto simp: CreateOwnershipTransfer_def andThen_eq_Inr Let_def list_ex_iff split: if_splits option.splits)

lemma create_transfer_stateOK:
  assumes inv: "stateOK (d, c)" and op: "CreateOwnershipTransfer d tid now u cid target = Inr (d', td)"
  shows "stateOK (d', c)"
proof -
  obtain conv access where f: "findActiveConversation d cid = Some conv"
      "requireAccess d u (c_ConversationGroupID conv) AccessLevelOwner = Inr access"
      "\<forall>t \<in> set (db_transfers d). t_ID t \<noteq> tid \<and> t_ConversationGroupID t \<noteq> c_ConversationGroupID conv"
      "d' = d\<lparr>db_transfers := db_transfers d @ [\<lparr>t_ID = tid, t_ConversationGroupID = c_ConversationGroupID conv,
                 t_FromUserID = u, t_ToUserID = target, t_CreatedAt = now\<rparr>]\<rparr>"
    using op by (rule create_transfer_D)
  have st: "storeOK d" and own: "ownersOK d" using inv by (simp_all add: stateOK_def)
  have grp: "isGroup d (c_ConversationGroupID conv)" using findActive_Some[OF f(1)] storeOK_rows(6)[OF st] by simp
  have "storeOK d'"
  proof (rule storeOK_members[OF st])
    show "distinct (map t_ID (db_transfers d'))" "distinct (map t_ConversationGroupID (db_transfers d'))"
      using f(3) storeOK_rows(2,3)[OF st] by (auto simp: f(4))
    fix t assume "t \<in> set (db_transfers d')"
    then show "isGroup d (t_ConversationGroupID t)" using grp storeOK_rows(5)[OF st, of t] by (auto simp: f(4))
  qed (use storeOK_rows[OF st] in \<open>simp_all add: f(4)\<close>)
  moreover have "isOwner d' = isOwner d" by (intro ext) (simp add: isOwner_def f(4))
  then have "ownersOK d'" using own requireAccess_owner[OF f(2)] unfolding ownersOK_def by (simp add: f(4))
  ultimately show ?thesis using stateOK_members[OF inv] by (simp add: f(4))
qed

lemma deleteTransfer_storeOK:
  assumes st: "storeOK d"
  shows "storeOK (deleteTransfer tid d)"
  by (rule storeOK_members[OF st]) (use storeOK_rows[OF st] in \<open>simp_all add: deleteTransfer_def distinct_delete_where\<close>)

lemma delete_transfer_stateOK:
  assumes inv: "stateOK (d, c)"
  shows "stateOK (deleteTransfer tid d, c)"
proof -
  have "storeOK d" and own: "ownersOK d" using inv by (simp_all add: stateOK_def)
  moreover have "ownersOK (deleteTransfer tid d)" using own by (rule ownersOK_mono) (auto simp: deleteTransfer_def isOwner_def)
  ultimately show ?thesis using stateOK_members[OF inv] deleteTransfer_storeOK by (simp add: deleteTransfer_def)
qed

lemma upsertOwner_facts:
  "db_ancestry (upsertOwner g u now d) = db_ancestry d" "db_entries (upsertOwner g u now d) = db_entries d"
  "db_groups (upsertOwner g u now d) = db_groups d" "db_conversations (upsertOwner g u now d) = db_conversations d"
  "db_transfers (upsertOwner g u now d) = db_transfers d"
  by (simp_all add: upsertOwner_def setAccess_facts)

lemma upsertOwner_storeOK:
  assumes st: "storeOK d" and grp: "isGroup d g"
  shows "storeOK (upsertOwner g u now d)"
proof (cases "list_ex (isMember g u) (db_memberships d)")
  case True
  then show ?thesis using setAccess_storeOK[OF st] by (simp add: upsertOwner_def)
next
  case False
  let ?m = "\<lparr>m_ConversationGroupID = g, m_UserID = u, m_AccessLevel = AccessLevelOwner, m_CreatedAt = now\<rparr>"
  have new: "db_memberships (upsertOwner g u now d) = db_memberships d @ [?m]" using False by (simp add: upsertOwner_def)
  have key: "membershipKey ?m \<notin> membershipKey ` set (db_memberships d)"
    using False by (auto simp: membershipKey_def list_ex_iff isMember_def)
  show ?thesis
  proof (rule storeOK_members[OF st])
    show "distinct (map membershipKey (db_memberships (upsertOwner g u now d)))" using storeOK_rows(1)[OF st] key by (simp add: new)
    fix m assume "m \<in> set (db_memberships (upsertOwner g u now d))"
    then show "isGroup d (m_ConversationGroupID m)" using storeOK_rows(4)[OF st, of m] grp by (auto simp: new)
  qed (use storeOK_rows[OF st] in \<open>simp_all add: upsertOwner_facts\<close>)
qed

lemma upsertOwner_owner: "isOwner (upsertOwner g u now d) g' v \<longleftrightarrow> g' = g \<and> v = u \<or> isOwner d g' v"
proof (cases "list_ex (isMember g u) (db_memberships d)")
  case True
  then show ?thesis by (auto simp: upsertOwner_def setAccess_owner)
next
  case False
  then show ?thesis by (auto simp: upsertOwner_def isOwner_def)
qed

lemma setConversationOwner_storeOK: "storeOK d \<Longrightarrow> storeOK (setConversationOwner g u now d)"
  by (rule storeOK_cong) (auto simp: setConversationOwner_def update_where_def)

lemma accept_D:
  assumes "AcceptTransfer d now u tid = Inr d'"
  obtains t where "t \<in> set (db_transfers d)" "t_ID t = tid" "t_ToUserID t = u"
    "d' = deleteTransfer tid (setConversationOwner (t_ConversationGroupID t) u now
            (upsertOwner (t_ConversationGroupID t) u now (setAccess (t_ConversationGroupID t) (t_FromUserID t) AccessLevelManager d)))"
  using assms by (auto simp: AcceptTransfer_def findTransfer_def andThen_eq_Inr Let_def dest!: find_Some_set split: if_splits option.splits)

text \<open>Accepting a transfer makes the recipient the only owner.\<close>

lemma accept_owner:
  assumes inv: "ownersOK d" and op: "AcceptTransfer d now u tid = Inr d'" and t: "t \<in> set (db_transfers d)" "t_ID t = tid"
    and keys: "distinct (map t_ID (db_transfers d))"
  shows "isOwner d' g v \<longleftrightarrow> (if g = t_ConversationGroupID t then v = u else isOwner d g v)"
proof -
  obtain t' where t': "t' \<in> set (db_transfers d)" "t_ID t' = tid" "t_ToUserID t' = u" and
    d': "d' = deleteTransfer tid (setConversationOwner (t_ConversationGroupID t') u now
            (upsertOwner (t_ConversationGroupID t') u now (setAccess (t_ConversationGroupID t') (t_FromUserID t') AccessLevelManager d)))"
    using op by (rule accept_D)
  have "t' = t" using t t'(1,2) keys by (simp add: distinct_map inj_on_def)
  then have "isOwner d' g v \<longleftrightarrow> g = t_ConversationGroupID t \<and> v = u
      \<or> isOwner d g v \<and> \<not> (g = t_ConversationGroupID t \<and> v = t_FromUserID t)"
    unfolding d' by (simp add: deleteTransfer_def setConversationOwner_def isOwner_def[of "_\<lparr>db_transfers := _\<rparr>"] isOwner_def[of "_\<lparr>db_conversations := _\<rparr>"])
      (simp add: isOwner_def[symmetric] upsertOwner_owner setAccess_owner)
  then show ?thesis using inv t(1) unfolding ownersOK_def by auto
qed

lemma accept_stateOK:
  assumes inv: "stateOK (d, c)" and op: "AcceptTransfer d now u tid = Inr d'"
  shows "stateOK (d', c)"
proof -
  obtain t where t: "t \<in> set (db_transfers d)" "t_ID t = tid" and
    d': "d' = deleteTransfer tid (setConversationOwner (t_ConversationGroupID t) u now
            (upsertOwner (t_ConversationGroupID t) u now (setAccess (t_ConversationGroupID t) (t_FromUserID t) AccessLevelManager d)))"
    using op by (rule accept_D)
  have st: "storeOK d" and own: "ownersOK d" using inv by (simp_all add: stateOK_def)
  note o = accept_owner[OF own op t storeOK_rows(2)[OF st]]
  have "isGroup (setAccess (t_ConversationGroupID t) (t_FromUserID t) AccessLevelManager d) (t_ConversationGroupID t)"
    using storeOK_rows(5)[OF st t(1)] by (simp add: isGroup_def setAccess_facts)
  then have "storeOK d'" unfolding d'
    by (intro deleteTransfer_storeOK setConversationOwner_storeOK upsertOwner_storeOK setAccess_storeOK st)
  moreover have tr: "set (db_transfers d') = {x \<in> set (db_transfers d). t_ID x \<noteq> tid}"
    by (simp add: d' deleteTransfer_def setConversationOwner_def upsertOwner_facts setAccess_facts)
  have "t_ConversationGroupID x \<noteq> t_ConversationGroupID t" if "x \<in> set (db_transfers d')" for x
    using that tr t storeOK_rows(3)[OF st] by (auto simp: distinct_map inj_on_def)
  then have "ownersOK d'" using own tr unfolding ownersOK_def o by auto
  ultimately show ?thesis using stateOK_members[OF inv]
    by (simp add: d' deleteTransfer_def setConversationOwner_def upsertOwner_facts setAccess_facts)
qed

section \<open>Creation, appends and syncs keep the invariant\<close>

lemma ownersOK_cong: "db_memberships d' = db_memberships d \<Longrightarrow> db_transfers d' = db_transfers d \<Longrightarrow> ownersOK d' = ownersOK d"
  by (simp add: ownersOK_def isOwner_def)

lemma initialMemberships_owner:
  assumes "storeOK d" and "ownersOK d" and "resolveLineage d req gid = Inr li" and "cr_ForkedAtConversationID req = None"
    and "x \<in> set (initialMemberships li now)" "y \<in> set (initialMemberships li now)"
    and "m_AccessLevel x = AccessLevelOwner" "m_AccessLevel y = AccessLevelOwner"
  shows "m_UserID x = m_UserID y"
proof (cases "li_MembershipsToCopy li = []")
  case True
  then show ?thesis using assms(5,6) by (simp add: initialMemberships_def)
next
  case False
  then obtain g where g: "set (li_MembershipsToCopy li) = {m \<in> set (db_memberships d). m_ConversationGroupID m = g}"
    using assms(3,4) by (auto simp: resolveLineage_def resolveStartedBy_def andThen_eq_Inr split: option.splits if_splits)
  then have "isOwner d g (m_UserID x)" "isOwner d g (m_UserID y)"
    using assms(5-8) False by (auto simp: initialMemberships_def isOwner_def)
  then show ?thesis using assms(2) unfolding ownersOK_def by blast
qed

lemma create_stateOK:
  assumes inv: "stateOK (d, c)" and op: "createConversationWithID d s_enc gid now req = (d', r)"
  shows "stateOK (d', c)"
proof (cases "\<exists>x. r = Inr x \<and> \<not> res_ExactRetry x")
  case False
  then have "d' = d" using create_not_new[OF op] by blast
  then show ?thesis using inv by simp
next
  case True
  then obtain x where x: "createConversationWithID d s_enc gid now req = (d', Inr x)" "\<not> res_ExactRetry x" using op by auto
  have st: "storeOK d" and own: "ownersOK d" using inv by (simp_all add: stateOK_def)
  obtain li t d3 where c: "resolveLineage d req gid = Inr li"
    "cr_ForkedAtConversationID req = None \<longrightarrow> \<not> isGroup d (li_ActualGroupID li)"
    "createConversationAncestry (withConversation d req li t now) (li_ActualGroupID li) (cr_ConvID req)
       (li_SourceConv li) (cr_ForkedAtEntryID req) (li_AnchorOwnerDepth li) = Inr d3"
    "(if cr_ForkedAtConversationID req = None then insertMemberships d3 (initialMemberships li now) else Inr d3) = Inr d'"
    using created_cases[OF x] by metis
  note tabs = created_tables[OF c(3,4), unfolded withConversation_simps]
  have "ownersOK d'"
  proof (cases "cr_ForkedAtConversationID req")
    case None
    let ?g = "li_ActualGroupID li"
    have mem: "db_memberships d' = db_memberships d @ initialMemberships li now" using tabs(6) None by simp
    have fresh: "\<not> isOwner d ?g u" for u
      using c(2) None storeOK_rows(4)[OF st] unfolding isOwner_def by metis
    have tr: "t_ConversationGroupID t \<noteq> ?g" if "t \<in> set (db_transfers d)" for t
      using c(2) None storeOK_rows(5)[OF st that] by auto
    have grp: "m_ConversationGroupID m = ?g" if "m \<in> set (initialMemberships li now)" for m
      using initialMemberships_group[OF that] .
    have old: "isOwner d' g u \<longleftrightarrow> isOwner d g u" if "g \<noteq> ?g" for g u
      using that grp by (auto simp: isOwner_def mem)
    have first: "\<exists>m \<in> set (initialMemberships li now). m_UserID m = u \<and> m_AccessLevel m = AccessLevelOwner"
      if "isOwner d' ?g u" for u
      using that fresh[of u] by (auto simp: isOwner_def mem)
    have new: "u = v" if uv: "isOwner d' ?g u" "isOwner d' ?g v" for u v
      using first[OF uv(1)] first[OF uv(2)] initialMemberships_owner[OF st own c(1) None] by blast
    show ?thesis unfolding ownersOK_def tabs(5)
    proof (intro conjI allI impI ballI)
      fix g u v assume "isOwner d' g u \<and> isOwner d' g v"
      then show "u = v" using new old own unfolding ownersOK_def by (cases "g = ?g") blast+
    next
      fix t u assume "t \<in> set (db_transfers d)" "isOwner d' (t_ConversationGroupID t) u"
      then show "u = t_FromUserID t" using tr old own unfolding ownersOK_def by blast
    qed
  next
    case (Some p)
    then show ?thesis using own ownersOK_cong[OF _ tabs(5)] tabs(6) by simp
  qed
  then show ?thesis using stateOK_members[OF inv created_storeOK[OF st x]] tabs(2) by simp
qed

lemma create_step_stateOK: "stateOK (d, c) \<Longrightarrow> stateOK (fst (createConversationWithID d s_enc gid now req), c)"
  by (rule create_stateOK[OF _ surjective_pairing])

lemma autoCreate_stateOK:
  assumes "stateOK (d, c)" and "autoCreateConversation d gid now u cl cid ag = Inr (d1, conv)" and "findConversation d cid = None"
  shows "stateOK (d1, c)"
proof -
  obtain t d2 where cr: "createConversationWithID d None gid now (syncCreateRequest u cl cid ag) = (d2, t)"
    and same: "db_memberships d1 = db_memberships d2" "db_entries d1 = db_entries d2" "db_transfers d1 = db_transfers d2"
    using autoCreate_like_create(1)[OF assms(2,3)] by (elim exE conjE) (rule that)
  have 2: "stateOK (d2, c)" by (rule create_stateOK[OF assms(1) cr])
  moreover have "storeOK d1" using autoCreate_storeOK[OF _ assms(2,3)] assms(1) by (simp add: stateOK_def)
  moreover have "ownersOK d1" using 2 ownersOK_cong[OF same(1,3)] by (simp add: stateOK_def)
  ultimately show ?thesis using stateOK_members[OF 2] same(2) by simp
qed

lemma append_stateOK:
  assumes inv: "stateOK (d, c)" and op: "appendEntries d c s_enc co fr cid r aa = Inr (d', c', result)"
    and ids: "freshIDs d (fr_IDs fr) (length (sr_Entries r))"
  shows "stateOK (d', c')"
proof (cases "sr_Entries r = []")
  case True
  then show ?thesis using inv op by (simp add: appendEntries_def)
next
  case False
  let ?b = "appendBase d s_enc co fr cid r"
  have st: "storeOK d" using inv by (simp add: stateOK_def)
  obtain conv cs t u where "loadOrCreate d s_enc co fr cid r = Inr (?b, conv)" and
    f: "storeOK ?b" "appendsAfter ?b (c_ConversationGroupID conv) cid cs"
    "list_all2 (storedAs s_enc) result cs" "d' = touchConversation cid t u (appendEntriesTo ?b cs)"
    by (rule append_facts[OF st ids False op])
  have "ownersOK ?b" using create_step_stateOK[OF inv] inv by (simp add: appendBase_def stateOK_def)
  then have "ownersOK d'" using ownersOK_cong[of d' ?b] by (simp add: f(4))
  then show ?thesis using append_invariant[OF _ ids op] inv by (simp add: stateOK_def)
qed

lemma sync_stateOK:
  assumes inv: "stateOK (d, c)" and op: "SyncAgentEntry d c s_enc cc fr u cid req cl ag = Inr (d', c', res)"
    and ids: "freshIDs d (fr_IDs fr) 1"
  shows "stateOK (d', c')"
proof -
  have st: "storeOK d" using inv by (simp add: stateOK_def)
  have loaded: "stateOK (d1, c)" if "syncLoad d (parseContentArray cc (er_Content req)) fr u cl cid ag = Inr (Some (d1, conv, auto))"
    for d1 conv auto
    using that inv autoCreate_stateOK[OF inv] by (auto simp: syncLoad_def andThen_eq_Inr split: option.splits if_splits)
  from st ids op show ?thesis
  proof (cases rule: sync_outcome)
    case 1
    then show ?thesis using inv by (simp add: stateOK_def)
  next
    case (2 d1 conv auto access)
    then show ?thesis using loaded[OF 2(1)] by (simp add: stateOK_def)
  next
    case (3 d1 conv auto access e)
    note l = loaded[OF 3(1)]
    then have "storeOK d1" "ownersOK d1" "sequencesOK d1" "epochsOK d1" by (simp_all add: stateOK_def)
    moreover from this have "storeOK d'" "sequencesOK d'" using append_storeOK[OF _ 3(4)] 3(3,7) by simp_all
    moreover have "ownersOK d' = ownersOK d1" by (rule ownersOK_cong) (simp_all add: 3(3))
    moreover have "epochsOK d'" using \<open>epochsOK d1\<close> 3(5,6) by (simp add: 3(3) epochsOK_def contextOf_def)
    ultimately show ?thesis by (simp add: stateOK_def)
  qed
qed

section \<open>Updates and archiving keep the invariant\<close>

lemma update_tables:
  assumes "UpdateConversation d s_enc now u cid title metadata = Inr (d', summary)"
  obtains "d' = d" | P f where "d' = d\<lparr>db_conversations := update_where P f (db_conversations d)\<rparr>"
    "\<And>c. c_ID (f c) = c_ID c \<and> c_ConversationGroupID (f c) = c_ConversationGroupID c \<and> c_ArchivedAt (f c) = c_ArchivedAt c"
proof (cases "title = None \<and> metadata = []")
  case True
  then show thesis using assms that(1)
    by (auto simp: UpdateConversation_def andThen_eq_Inr Let_def split: option.splits)
next
  case False
  obtain conv where conv: "findConversation d cid = Some conv"
    using assms by (auto simp: UpdateConversation_def split: option.splits)
  obtain t where t: "(case title of None \<Rightarrow> Inr (c_Title conv)
      | Some t \<Rightarrow> andThen (encryptConversationTitle s_enc cid t) (\<lambda>e. Inr (Some e))) = Inr t"
    using assms False unfolding UpdateConversation_def conv option.case by (auto simp: andThen_eq_Inr)
  have "d' = d\<lparr>db_conversations := update_where (\<lambda>c. c_ID c = c_ID conv)
      (\<lambda>c. c\<lparr>c_UpdatedAt := now, c_Title := t, c_Metadata := patchMetadata (c_Metadata c) metadata\<rparr>) (db_conversations d)\<rparr>"
    using assms False unfolding UpdateConversation_def conv option.case t by (auto simp: andThen_eq_Inr Let_def t)
  then show thesis by (rule that(2)) simp
qed

lemma update_stateOK:
  assumes inv: "stateOK (d, c)" and op: "UpdateConversation d s_enc now u cid title metadata = Inr (d', summary)"
  shows "stateOK (d', c)"
  using op
proof (cases rule: update_tables)
  case 1
  then show ?thesis using inv by simp
next
  case (2 P f)
  have st: "storeOK d" and own: "ownersOK d" using inv by (simp_all add: stateOK_def)
  have "storeOK d'" using st by (rule storeOK_cong) (auto simp: 2 update_where_def)
  moreover have "ownersOK d'" using own ownersOK_cong[of d' d] by (simp add: 2(1))
  ultimately show ?thesis using stateOK_members[OF inv] by (simp add: 2(1))
qed

text \<open>Every archive operation sets the flag of some groups and of some conversations.\<close>

definition archiveUpdate :: "(ConversationGroup \<Rightarrow> bool) \<Rightarrow> (Conversation \<Rightarrow> bool) \<Rightarrow> time option \<Rightarrow> time \<Rightarrow> db \<Rightarrow> db" where
  "archiveUpdate P Q a now d =
     d\<lparr>db_groups := update_where P (\<lambda>g. g\<lparr>g_ArchivedAt := a\<rparr>) (db_groups d),
       db_conversations := update_where Q (\<lambda>c. c\<lparr>c_ArchivedAt := a, c_UpdatedAt := now\<rparr>) (db_conversations d)\<rparr>"

lemma archiveUpdate_stateOK:
  assumes inv: "stateOK (d, x)"
    and agree: "\<And>g c. g \<in> set (db_groups d) \<Longrightarrow> c \<in> set (db_conversations d) \<Longrightarrow> g_ID g = c_ConversationGroupID c \<Longrightarrow>
      ((if Q c then a else c_ArchivedAt c) = None) = ((if P g then a else g_ArchivedAt g) = None)"
  shows "stateOK (archiveUpdate P Q a now d, x)"
proof -
  let ?d = "archiveUpdate P Q a now d"
  have st: "storeOK d" and own: "ownersOK d" using inv by (simp_all add: stateOK_def)
  have g: "map g_ID (db_groups ?d) = map g_ID (db_groups d)"
    and c: "map (\<lambda>c. (c_ID c, c_ConversationGroupID c)) (db_conversations ?d) = map (\<lambda>c. (c_ID c, c_ConversationGroupID c)) (db_conversations d)"
    by (auto simp: archiveUpdate_def update_where_def)
  have ids: "map c_ID (db_conversations ?d) = map c_ID (db_conversations d)"
    by (auto simp: archiveUpdate_def update_where_def)
  have k: "keysOK ?d" using storeOK_D(4)[OF st] g ids by (simp add: keysOK_def) (simp add: archiveUpdate_def)
  have anc: "ancestryOK ?d" by (rule ancestryOK_cong[OF storeOK_D(1)[OF st] _ _ c k]) (simp_all add: archiveUpdate_def)
  have grp: "isGroup ?d = isGroup d" using arg_cong[OF g, of set] by (intro ext) (simp add: isGroup_def)
  have cg: "c_ConversationGroupID ` set (db_conversations ?d) = c_ConversationGroupID ` set (db_conversations d)"
    using arg_cong[OF c, of "\<lambda>xs. snd ` set xs"] by (simp add: image_image)
  have "groupRefsOK ?d"
    unfolding groupRefsOK_def grp
  proof (intro conjI ballI)
    fix y assume "y \<in> set (db_conversations ?d)"
    then have "c_ConversationGroupID y \<in> c_ConversationGroupID ` set (db_conversations d)" using cg by (metis imageI)
    then show "isGroup d (c_ConversationGroupID y)" using storeOK_rows(6)[OF st] by auto
  qed (use storeOK_rows[OF st] in \<open>simp_all add: archiveUpdate_def\<close>)
  moreover have "archiveOK ?d"
    unfolding archiveOK_def
  proof (intro ballI impI)
    fix c' g' assume "c' \<in> set (db_conversations ?d)" "g' \<in> set (db_groups ?d)" and eq: "g_ID g' = c_ConversationGroupID c'"
    then obtain y h where y: "y \<in> set (db_conversations d)" "c' = (if Q y then y\<lparr>c_ArchivedAt := a, c_UpdatedAt := now\<rparr> else y)"
      and h: "h \<in> set (db_groups d)" "g' = (if P h then h\<lparr>g_ArchivedAt := a\<rparr> else h)"
      by (auto simp: archiveUpdate_def update_where_def)
    then have "g_ID h = c_ConversationGroupID y" using eq by (simp split: if_splits)
    then show "(c_ArchivedAt c' = None) = (g_ArchivedAt g' = None)" using agree[OF h(1) y(1)] y(2) h(2) by (simp split: if_splits)
  qed
  ultimately have "storeOK ?d" using anc by (simp add: storeOK_def)
  moreover have "ownersOK ?d" using own ownersOK_cong[of ?d d] by (simp add: archiveUpdate_def)
  ultimately show ?thesis using stateOK_members[OF inv] by (simp add: archiveUpdate_def)
qed

lemma archive_shape:
  "ArchiveConversation d now u cid = Inr d' \<Longrightarrow> \<exists>g. d' = archiveUpdate (\<lambda>x. g_ID x = g)
     (\<lambda>c. c_ConversationGroupID c = g \<and> c_ArchivedAt c = None) (Some now) now d"
  "ArchiveConversationIfNeeded d now u cid = Inr (d', ar) \<Longrightarrow> d' = d \<or> (\<exists>g. d' = archiveUpdate
     (\<lambda>x. g_ID x = g \<and> g_ArchivedAt x = None) (\<lambda>c. c_ConversationGroupID c = g \<and> c_ArchivedAt c = None) (Some now) now d)"
  "UnarchiveConversation d now u cid = Inr d' \<Longrightarrow> \<exists>g. d' = archiveUpdate (\<lambda>x. g_ID x = g)
     (\<lambda>c. c_ConversationGroupID c = g \<and> c_ArchivedAt c \<noteq> None) None now d"
  "UnarchiveConversationIfNeeded d now u cid = Inr (d', ar) \<Longrightarrow> \<exists>g. d' = archiveUpdate
     (\<lambda>x. g_ID x = g \<and> g_ArchivedAt x \<noteq> None) (\<lambda>c. c_ConversationGroupID c = g \<and> c_ArchivedAt c \<noteq> None) None now d"
proof -
  show "ArchiveConversation d now u cid = Inr d' \<Longrightarrow> \<exists>g. d' = archiveUpdate (\<lambda>x. g_ID x = g)
     (\<lambda>c. c_ConversationGroupID c = g \<and> c_ArchivedAt c = None) (Some now) now d"
    by (auto simp: ArchiveConversation_def andThen_eq_Inr Let_def archiveConversations_def setGroupArchived_def archiveUpdate_def
        split: option.splits)
  show "UnarchiveConversation d now u cid = Inr d' \<Longrightarrow> \<exists>g. d' = archiveUpdate (\<lambda>x. g_ID x = g)
     (\<lambda>c. c_ConversationGroupID c = g \<and> c_ArchivedAt c \<noteq> None) None now d"
    by (auto simp: UnarchiveConversation_def andThen_eq_Inr Let_def unarchiveConversations_def setGroupArchived_def archiveUpdate_def
        split: option.splits)
  show "UnarchiveConversationIfNeeded d now u cid = Inr (d', ar) \<Longrightarrow> \<exists>g. d' = archiveUpdate
     (\<lambda>x. g_ID x = g \<and> g_ArchivedAt x \<noteq> None) (\<lambda>c. c_ConversationGroupID c = g \<and> c_ArchivedAt c \<noteq> None) None now d"
    by (auto simp: UnarchiveConversationIfNeeded_def andThen_eq_Inr Let_def unarchiveConversations_def archiveUpdate_def
        split: option.splits)
  have none: "update_where (\<lambda>x. g_ID x = g \<and> g_ArchivedAt x = None) f (db_groups d) = db_groups d"
    if "\<not> (\<exists>x \<in> set (db_groups d). g_ID x = g \<and> g_ArchivedAt x = None)" for g f
    using that by (intro update_where_none) auto
  show "ArchiveConversationIfNeeded d now u cid = Inr (d', ar) \<Longrightarrow> d' = d \<or> (\<exists>g. d' = archiveUpdate
     (\<lambda>x. g_ID x = g \<and> g_ArchivedAt x = None) (\<lambda>c. c_ConversationGroupID c = g \<and> c_ArchivedAt c = None) (Some now) now d)"
    using none by (auto simp: ArchiveConversationIfNeeded_def andThen_eq_Inr Let_def archiveConversations_def archiveUpdate_def
        split: option.splits if_splits)
qed

lemma admin_archive_shape:
  "AdminSetConversationArchived d now cid archived = Inr d' \<Longrightarrow> \<exists>g.
     d' = archiveUpdate (\<lambda>x. g_ID x = g) (\<lambda>c. c_ConversationGroupID c = g \<and> c_ArchivedAt c = None) (Some now) now d
     \<or> d' = archiveUpdate (\<lambda>x. g_ID x = g) (\<lambda>c. c_ConversationGroupID c = g) None now d"
  by (auto simp: AdminSetConversationArchived_def Let_def archiveConversations_def setGroupArchived_def archiveUpdate_def
      split: option.splits if_splits)

lemma archive_stateOK:
  assumes inv: "stateOK (d, c)"
  shows "ArchiveConversation d now u cid = Inr d' \<Longrightarrow> stateOK (d', c)"
    "ArchiveConversationIfNeeded d now u cid = Inr (d', ar) \<Longrightarrow> stateOK (d', c)"
    "UnarchiveConversation d now u cid = Inr d' \<Longrightarrow> stateOK (d', c)"
    "UnarchiveConversationIfNeeded d now u cid = Inr (d', ar) \<Longrightarrow> stateOK (d', c)"
proof -
  have "archiveOK d" using inv by (simp add: stateOK_def storeOK_def)
  then have a: "(c_ArchivedAt x = None) = (g_ArchivedAt g = None)"
    if "g \<in> set (db_groups d)" "x \<in> set (db_conversations d)" "g_ID g = c_ConversationGroupID x" for g x
    using that unfolding archiveOK_def by blast
  have "stateOK (archiveUpdate (\<lambda>x. g_ID x = g) (\<lambda>y. c_ConversationGroupID y = g \<and> c_ArchivedAt y = None) (Some now) now d, c)"
    "stateOK (archiveUpdate (\<lambda>x. g_ID x = g \<and> g_ArchivedAt x = None) (\<lambda>y. c_ConversationGroupID y = g \<and> c_ArchivedAt y = None) (Some now) now d, c)"
    "stateOK (archiveUpdate (\<lambda>x. g_ID x = g) (\<lambda>y. c_ConversationGroupID y = g \<and> c_ArchivedAt y \<noteq> None) None now d, c)"
    "stateOK (archiveUpdate (\<lambda>x. g_ID x = g \<and> g_ArchivedAt x \<noteq> None) (\<lambda>y. c_ConversationGroupID y = g \<and> c_ArchivedAt y \<noteq> None) None now d, c)"
    for g
    by (rule archiveUpdate_stateOK[OF inv], drule (2) a, auto split: if_splits)+
  note upd = this
  show "ArchiveConversation d now u cid = Inr d' \<Longrightarrow> stateOK (d', c)" using archive_shape(1) upd(1) by blast
  show "ArchiveConversationIfNeeded d now u cid = Inr (d', ar) \<Longrightarrow> stateOK (d', c)" using archive_shape(2) upd(2) inv by blast
  show "UnarchiveConversation d now u cid = Inr d' \<Longrightarrow> stateOK (d', c)" using archive_shape(3) upd(3) by blast
  show "UnarchiveConversationIfNeeded d now u cid = Inr (d', ar) \<Longrightarrow> stateOK (d', c)" using archive_shape(4) upd(4) by blast
qed

lemma admin_archive_stateOK:
  assumes inv: "stateOK (d, c)" and op: "AdminSetConversationArchived d now cid archived = Inr d'"
  shows "stateOK (d', c)"
proof -
  have "archiveOK d" using inv by (simp add: stateOK_def storeOK_def)
  then have a: "(c_ArchivedAt x = None) = (g_ArchivedAt g = None)"
    if "g \<in> set (db_groups d)" "x \<in> set (db_conversations d)" "g_ID g = c_ConversationGroupID x" for g x
    using that unfolding archiveOK_def by blast
  have "stateOK (archiveUpdate (\<lambda>x. g_ID x = g) (\<lambda>y. c_ConversationGroupID y = g \<and> c_ArchivedAt y = None) (Some now) now d, c)"
    "stateOK (archiveUpdate (\<lambda>x. g_ID x = g) (\<lambda>y. c_ConversationGroupID y = g) None now d, c)" for g
    by (rule archiveUpdate_stateOK[OF inv], drule (2) a, auto split: if_splits)+
  then show ?thesis using admin_archive_shape[OF op] by blast
qed

lemma reindexed_stateOK:
  assumes inv: "stateOK (d, c)" and "reindexed d d'"
  shows "stateOK (d', c)"
proof -
  obtain f where f: "\<And>e. unindexed (f e) = unindexed e" "d' = d\<lparr>db_entries := map f (db_entries d)\<rparr>"
    using assms(2) unfolding reindexed_def by blast
  note same = unindexed_fields[OF f(1)]
  have "storeOK d'" using reindexed_storeOK[OF _ assms(2)] inv by (simp add: stateOK_def)
  moreover have "sequencesOK d'" using inv unfolding stateOK_def sequencesOK_def f(2) by (simp add: same) metis
  moreover have "epochsOK d'" using inv by (simp add: stateOK_def epochsOK_def f(2) same)
  moreover have "ownersOK d'" using inv ownersOK_cong[of d' d] by (simp add: stateOK_def f(2))
  ultimately show ?thesis by (simp add: stateOK_def)
qed

lemma hardDelete_stateOK:
  assumes inv: "stateOK (d, c)"
  shows "stateOK (HardDeleteConversationGroups d gs, c)"
proof -
  let ?d = "HardDeleteConversationGroups d gs"
  have st: "storeOK d" and own: "ownersOK d" using inv by (simp_all add: stateOK_def)
  note tab = hardDelete_tables[OF storeOK_D(1)[OF st] refl, of gs]
  have "sequencesOK ?d" "epochsOK ?d" using inv by (auto simp: stateOK_def sequencesOK_def epochsOK_def tab)
  moreover have "ownersOK ?d" using own by (rule ownersOK_mono) (auto simp: isOwner_def tab)
  ultimately show ?thesis using hardDelete_storeOK[OF st] by (simp add: stateOK_def)
qed

section \<open>Reachable states\<close>

definition initial_state :: "state \<Rightarrow> bool" where
  "initial_state s \<longleftrightarrow> fst s = emptyDB"

lemma step_stateOK:
  assumes "store_step s_enc co cc s l s'" and "stateOK s"
  shows "stateOK s'"
  using assms
proof (induction rule: store_step.induct)
  case create
  then show ?case using create_stateOK by blast
next
  case append
  then show ?case using append_stateOK by blast
next
  case sync
  then show ?case using sync_stateOK by blast
next
  case update
  then show ?case using update_stateOK by blast
next
  case archive
  then show ?case using archive_stateOK(1) by blast
next
  case archive_if_needed
  then show ?case using archive_stateOK(2) by blast
next
  case unarchive
  then show ?case using archive_stateOK(3) by blast
next
  case unarchive_if_needed
  then show ?case using archive_stateOK(4) by blast
next
  case share
  then show ?case using share_stateOK by blast
next
  case update_membership
  then show ?case using update_membership_stateOK by blast
next
  case delete_membership
  then show ?case using delete_membership_stateOK by blast
next
  case create_transfer
  then show ?case using create_transfer_stateOK by blast
next
  case accept_transfer
  then show ?case using accept_stateOK by blast
next
  case delete_transfer
  then show ?case by (auto simp: DeleteTransfer_def andThen_eq_Inr delete_transfer_stateOK split: if_splits)
next
  case index_entries
  then show ?case using reindexed_stateOK IndexEntries_reindexed by blast
next
  case set_indexed_at
  then show ?case using reindexed_stateOK SetIndexedAt_reindexed by blast
next
  case admin_archive
  then show ?case using admin_archive_stateOK by blast
next
  case hard_delete
  then show ?case using hardDelete_stateOK by blast
qed

lemma initial_stateOK: "initial_state s \<Longrightarrow> stateOK s"
  by (cases s) (simp add: initial_state_def stateOK_def storeOK_empty sequencesOK_def epochsOK_def ownersOK_def isOwner_def,
      simp add: emptyDB_def)

interpretation store: transition_invariant initial_state "store_step s_enc co cc" stateOK for s_enc co cc
  by unfold_locales (auto intro: initial_stateOK step_stateOK)

text \<open>
  C1 (reachable_invariant): in every state the store reaches from an empty database, rows refer to rows
  that exist, ancestry is consistent with the boundaries of its forks, a group is archived exactly when
  its conversations are, sequence numbers are unique in a conversation, only context entries have an
  epoch, and a group has at most one owner, from whom any pending transfer comes.
\<close>

theorem reachable_invariant:
  assumes "reachable initial_state (store_step s_enc co cc) s"
  shows "storeOK (fst s) \<and> sequencesOK (fst s) \<and> epochsOK (fst s) \<and> ownersOK (fst s)"
  using store.inv_reachable[OF assms] by (simp add: stateOK_def)

section \<open>A sample run\<close>

text \<open>
  \<open>alice\<close> creates a conversation, makes \<open>bob\<close> a manager of it and offers him the ownership; \<open>bob\<close> appends
  to it.
\<close>

definition resultDB :: "(db \<times> 'a) result \<Rightarrow> db" where
  "resultDB r = (case r of Inl _ \<Rightarrow> emptyDB | Inr (d, _) \<Rightarrow> d)"

definition runCreated :: db where
  "runCreated = fst (createConversationWithID emptyDB None ''g1'' 0 rootRequest)"

definition runShared :: db where
  "runShared = resultDB (ShareConversation runCreated [] 1 ''alice'' ''c1'' ''bob'' AccessLevelManager)"

definition runOffered :: db where
  "runOffered = resultDB (CreateOwnershipTransfer runShared ''t1'' 2 ''alice'' ''c1'' ''bob'')"

definition runRequest :: SequencedAppendRequest where
  "runRequest = \<lparr>sr_Entries = [emptyEntryRequest\<lparr>er_Content := ''[]'', er_Seq := Some 5\<rparr>],
     sr_UserID = ''bob'', sr_ClientID = Some ''app'', sr_AgentID = None, sr_Epoch = None\<rparr>"

definition runFresh :: Fresh where
  "runFresh = sampleFresh\<lparr>fr_IDs := [''n1'']\<rparr>"

definition noAttachments :: AttachmentTables where
  "noAttachments = \<lparr>as_attachments = [], as_tasks = []\<rparr>"

definition runAppended :: db where
  "runAppended = resultDB (appendEntries runOffered None None (withAttachments runOffered noAttachments sampleCodec) runFresh ''c1'' runRequest False)"

lemma resultDB_ok: "(case r of Inl _ \<Rightarrow> False | Inr _ \<Rightarrow> True) \<Longrightarrow> \<exists>x. r = Inr (resultDB r, x)"
  by (auto simp: resultDB_def split: sum.splits)

lemma run_steps:
  "store_step None sampleCodec charCodec (emptyDB, None) (By ''alice'') (runCreated, None)"
  "store_step None sampleCodec charCodec (runCreated, None) (By ''alice'') (runShared, None)"
  "store_step None sampleCodec charCodec (runShared, None) (By ''alice'') (runOffered, None)"
  "\<exists>cache. store_step None sampleCodec charCodec (runOffered, None) (By ''bob'') (runAppended, cache)"
proof -
  have "case snd (createConversationWithID emptyDB None ''g1'' 0 rootRequest) of Inl _ \<Rightarrow> False | Inr _ \<Rightarrow> True" by code_simp
  then obtain r where "createConversationWithID emptyDB None ''g1'' 0 rootRequest = (runCreated, Inr r)"
    by (auto simp: runCreated_def prod_eq_iff split: sum.splits)
  from store_step.create[OF this] show "store_step None sampleCodec charCodec (emptyDB, None) (By ''alice'') (runCreated, None)"
    by (simp add: rootRequest_def)
  have "case ShareConversation runCreated [] 1 ''alice'' ''c1'' ''bob'' AccessLevelManager of Inl _ \<Rightarrow> False | Inr _ \<Rightarrow> True" by code_simp
  from resultDB_ok[OF this] show "store_step None sampleCodec charCodec (runCreated, None) (By ''alice'') (runShared, None)"
    unfolding runShared_def[symmetric] by (blast intro: store_step.share)
  have "case CreateOwnershipTransfer runShared ''t1'' 2 ''alice'' ''c1'' ''bob'' of Inl _ \<Rightarrow> False | Inr _ \<Rightarrow> True" by code_simp
  from resultDB_ok[OF this] show "store_step None sampleCodec charCodec (runShared, None) (By ''alice'') (runOffered, None)"
    unfolding runOffered_def[symmetric] by (blast intro: store_step.create_transfer)
  have "case appendEntries runOffered None None (withAttachments runOffered noAttachments sampleCodec) runFresh ''c1'' runRequest False of Inl _ \<Rightarrow> False | Inr _ \<Rightarrow> True"
    by code_simp
  from resultDB_ok[OF this] obtain cache result where
    "appendEntries runOffered None None (withAttachments runOffered noAttachments sampleCodec) runFresh ''c1'' runRequest False = Inr (runAppended, cache, result)"
    unfolding runAppended_def[symmetric] by auto
  moreover have "freshIDs runOffered (fr_IDs runFresh) (length (sr_Entries runRequest))" by code_simp
  ultimately have "store_step None sampleCodec charCodec (runOffered, None) (By (sr_UserID runRequest)) (runAppended, cache)"
    by (rule store_step.append)
  then show "\<exists>cache. store_step None sampleCodec charCodec (runOffered, None) (By ''bob'') (runAppended, cache)"
    by (auto simp: runRequest_def)
qed

lemma run_reachable:
  "reachable initial_state (store_step None sampleCodec charCodec) (runCreated, None)"
  "reachable initial_state (store_step None sampleCodec charCodec) (runShared, None)"
  "reachable initial_state (store_step None sampleCodec charCodec) (runOffered, None)"
  "\<exists>cache. reachable initial_state (store_step None sampleCodec charCodec) (runAppended, cache)"
proof -
  have "reachable initial_state (store_step None sampleCodec charCodec) (emptyDB, None)"
    by (rule reachable.start) (simp add: initial_state_def)
  then show c: "reachable initial_state (store_step None sampleCodec charCodec) (runCreated, None)"
    by (rule reachable.next_state) (rule run_steps)
  then show s: "reachable initial_state (store_step None sampleCodec charCodec) (runShared, None)"
    by (rule reachable.next_state) (rule run_steps)
  then show o: "reachable initial_state (store_step None sampleCodec charCodec) (runOffered, None)"
    by (rule reachable.next_state) (rule run_steps)
  then show "\<exists>cache. reachable initial_state (store_step None sampleCodec charCodec) (runAppended, cache)"
    using run_steps(4) by (blast intro: reachable.next_state)
qed

theorem reachable_invariant_witness:
  "storeOK runAppended \<and> sequencesOK runAppended \<and> epochsOK runAppended \<and> ownersOK runAppended
   \<and> length (db_entries runAppended) = 1 \<and> length (db_memberships runAppended) = 2 \<and> length (db_transfers runAppended) = 1"
proof -
  obtain cache where "reachable initial_state (store_step None sampleCodec charCodec) (runAppended, cache)"
    using run_reachable(4) by blast
  moreover have "length (db_entries runAppended) = 1 \<and> length (db_memberships runAppended) = 2 \<and> length (db_transfers runAppended) = 1"
    by code_simp
  ultimately show ?thesis using reachable_invariant by fastforce
qed

end
