(* ===== verification/History.thy ===== *)
theory History
  imports Machine
begin

text \<open>
  What a run of the store does to history and to access. Until its group is evicted, entries are only ever
  added at the end of a view, by a user with write access, and indexing rewrites their index fields only;
  access levels change only under a manager's authority or by accepting a transfer.
\<close>

section \<open>Views only grow\<close>

lemma view_same:
  assumes "storeOK d" "storeOK d'" and "db_entries d' = db_entries d" "db_ancestry d' = db_ancestry d"
  shows "listVisibleEntriesForConversation d' conv = listVisibleEntriesForConversation d conv"
  using assms by (intro listVisible_tables) (auto intro: storeOK_D)

definition canWrite :: "db \<Rightarrow> string \<Rightarrow> Conversation \<Rightarrow> bool" where
  "canWrite d u conv \<longleftrightarrow> (\<exists>access. requireAccess d u (c_ConversationGroupID conv) AccessLevelWriter = Inr access)"

definition grows :: "db \<Rightarrow> string \<Rightarrow> db \<Rightarrow> Conversation \<Rightarrow> bool" where
  "grows d u d' conv \<longleftrightarrow>
     (\<exists>new. listVisibleEntriesForConversation d' conv = listVisibleEntriesForConversation d conv @ new
        \<and> (new \<noteq> [] \<longrightarrow> canWrite d u conv))"

lemma grows_same: "listVisibleEntriesForConversation d' conv = listVisibleEntriesForConversation d conv \<Longrightarrow> grows d u d' conv"
  by (simp add: grows_def)

lemma append_grows:
  assumes inv: "storeOK d" and op: "appendEntries d c s_enc co fr cid r aa = Inr (d', c', result)"
    and ids: "freshIDs d (fr_IDs fr) (length (sr_Entries r))" and conv: "conv \<in> set (db_conversations d)"
  shows "grows d (sr_UserID r) d' conv"
proof (cases "sr_Entries r = []")
  case True
  then show ?thesis using op by (simp add: appendEntries_def grows_same)
next
  case False
  let ?b = "appendBase d s_enc co fr cid r"
  obtain x cs t u where load: "loadOrCreate d s_enc co fr cid r = Inr (?b, x)" and
    f: "storeOK ?b" "appendsAfter ?b (c_ConversationGroupID x) cid cs"
    "list_all2 (storedAs s_enc) result cs" "d' = touchConversation cid t u (appendEntriesTo ?b cs)"
    by (rule append_facts[OF inv ids False op])
  obtain access where acc: "requireAccess ?b (sr_UserID r) (c_ConversationGroupID x) AccessLevelWriter = Inr access"
    using append_cases[OF op False] load by (metis Inr_inject prod.inject)
  have base: "listVisibleEntriesForConversation ?b conv = listVisibleEntriesForConversation d conv"
    using created_isolated[OF inv conv] by (simp add: appendBase_def)
  have view: "listVisibleEntriesForConversation d' conv = (if c_ID conv = cid \<and> c_ConversationGroupID conv = c_ConversationGroupID x
      then listVisibleEntriesForConversation d conv @ cs else listVisibleEntriesForConversation d conv)"
    using touchConversation_view[OF append_storeOK[OF f(1,2)]] append_view[OF storeOK_D(1)[OF f(1)] f(2)] base by (simp add: f(4))
  have "?b = d" if "c_ID conv = cid"
    using that conv by (auto simp: appendBase_def findConversation_None)
  then show ?thesis using view acc by (auto simp: grows_def canWrite_def)
qed

lemma sync_grows:
  assumes inv: "storeOK d" and op: "SyncAgentEntry d c s_enc cc fr u cid req cl ag = Inr (d', c', res)"
    and ids: "freshIDs d (fr_IDs fr) 1" and conv: "conv \<in> set (db_conversations d)"
  shows "grows d u d' conv"
proof -
  have loaded: "listVisibleEntriesForConversation d1 conv = listVisibleEntriesForConversation d conv \<and> (c_ID conv = cid \<longrightarrow> d1 = d)"
    if l: "syncLoad d (parseContentArray cc (er_Content req)) fr u cl cid ag = Inr (Some (d1, x, auto))" for d1 x auto
  proof (cases auto)
    case False
    then show ?thesis using syncLoad_facts(5)[OF inv l] by simp
  next
    case True
    with l have a: "autoCreateConversation d (fr_GroupID fr) (fr_CreateNow fr) u cl cid ag = Inr (d1, x)" "findConversation d cid = None"
      by (auto simp: syncLoad_def andThen_eq_Inr split: option.splits if_splits)
    obtain t d2 where cr: "createConversationWithID d None (fr_GroupID fr) (fr_CreateNow fr) (syncCreateRequest u cl cid ag) = (d2, t)"
      and same: "db_ancestry d1 = db_ancestry d2" "db_entries d1 = db_entries d2"
      using autoCreate_like_create(1)[OF a] by (elim exE conjE) (rule that)
    have "storeOK d1" "storeOK d2" using syncLoad_facts(1)[OF inv l] create_storeOK[OF inv] cr by (simp, metis fst_conv)
    then have "listVisibleEntriesForConversation d1 conv = listVisibleEntriesForConversation d2 conv"
      using same by (intro view_same) simp_all
    then show ?thesis using created_isolated[OF inv conv, of None "fr_GroupID fr" "fr_CreateNow fr" "syncCreateRequest u cl cid ag"] cr a(2) conv
      by (auto simp: findConversation_None)
  qed
  from inv ids op show ?thesis
  proof (cases rule: sync_outcome)
    case 1
    then show ?thesis by (simp add: grows_same)
  next
    case (2 d1 x auto access)
    then show ?thesis using loaded[OF 2(1)] by (simp add: grows_same)
  next
    case (3 d1 x auto access e)
    note l = loaded[OF 3(1)]
    have "storeOK d1" by (rule syncLoad_facts(1)[OF inv 3(1)])
    then have "listVisibleEntriesForConversation d' conv = (if c_ID conv = cid \<and> c_ConversationGroupID conv = c_ConversationGroupID x
        then listVisibleEntriesForConversation d conv @ [e] else listVisibleEntriesForConversation d conv)"
      using append_view[OF storeOK_D(1) 3(4)] l by (simp add: 3(3))
    then show ?thesis using 3(2) l by (auto simp: grows_def canWrite_def)
  qed
qed

text \<open>The operations on conversations, members and transfers leave entries and ancestry alone.\<close>

lemma quiet_tables:
  "UpdateConversation d s_enc now u cid title metadata = Inr (d', sm) \<Longrightarrow> db_entries d' = db_entries d \<and> db_ancestry d' = db_ancestry d"
  "ArchiveConversation d now u cid = Inr d' \<Longrightarrow> db_entries d' = db_entries d \<and> db_ancestry d' = db_ancestry d"
  "ArchiveConversationIfNeeded d now u cid = Inr (d', ar) \<Longrightarrow> db_entries d' = db_entries d \<and> db_ancestry d' = db_ancestry d"
  "UnarchiveConversation d now u cid = Inr d' \<Longrightarrow> db_entries d' = db_entries d \<and> db_ancestry d' = db_ancestry d"
  "UnarchiveConversationIfNeeded d now u cid = Inr (d', ar) \<Longrightarrow> db_entries d' = db_entries d \<and> db_ancestry d' = db_ancestry d"
  "ShareConversation d txt now u cid target level = Inr (d', m) \<Longrightarrow> db_entries d' = db_entries d \<and> db_ancestry d' = db_ancestry d"
  "UpdateMembership d u cid target level = Inr (d', m) \<Longrightarrow> db_entries d' = db_entries d \<and> db_ancestry d' = db_ancestry d"
  "DeleteMembership d u cid target = Inr d' \<Longrightarrow> db_entries d' = db_entries d \<and> db_ancestry d' = db_ancestry d"
  "CreateOwnershipTransfer d tid now u cid target = Inr (d', td) \<Longrightarrow> db_entries d' = db_entries d \<and> db_ancestry d' = db_ancestry d"
  "AcceptTransfer d now u tid = Inr d' \<Longrightarrow> db_entries d' = db_entries d \<and> db_ancestry d' = db_ancestry d"
  "DeleteTransfer d u tid = Inr d' \<Longrightarrow> db_entries d' = db_entries d \<and> db_ancestry d' = db_ancestry d"
            apply (erule update_tables; simp)
           apply (drule archive_shape(1), auto simp: archiveUpdate_def)[1]
          apply (drule archive_shape(2), auto simp: archiveUpdate_def)[1]
         apply (drule archive_shape(3), auto simp: archiveUpdate_def)[1]
        apply (drule archive_shape(4), auto simp: archiveUpdate_def)[1]
       apply (erule share_D; simp)
      apply (erule update_membership_D; simp add: setAccess_facts)
     apply (erule delete_membership_D; simp)
    apply (erule create_transfer_D; simp)
   apply (erule accept_D; simp add: deleteTransfer_def setConversationOwner_def upsertOwner_facts setAccess_facts)
  apply (auto simp: DeleteTransfer_def andThen_eq_Inr deleteTransfer_def split: if_splits)
  done

text \<open>What a step does to a view, by who acts.\<close>

definition viewStep :: "action \<Rightarrow> db \<Rightarrow> db \<Rightarrow> Conversation \<Rightarrow> bool" where
  "viewStep l d d' conv =
     (case l of
        By u \<Rightarrow> grows d u d' conv
      | System \<Rightarrow> map unindexed (listVisibleEntriesForConversation d' conv) = map unindexed (listVisibleEntriesForConversation d conv)
      | Evicts gs \<Rightarrow> c_ConversationGroupID conv \<notin> set gs \<longrightarrow>
                     listVisibleEntriesForConversation d' conv = listVisibleEntriesForConversation d conv)"

lemma step_view:
  assumes "store_step s_enc co cc s l s'" and "stateOK s" and "conv \<in> set (db_conversations (fst s))"
  shows "viewStep l (fst s) (fst s') conv"
proof -
  have inv: "storeOK (fst s)" "storeOK (fst s')" using step_stateOK[OF assms(1,2)] assms(2) by (simp_all add: stateOK_def)
  have quiet: "viewStep l (fst s) (fst s') conv" if "db_entries (fst s') = db_entries (fst s) \<and> db_ancestry (fst s') = db_ancestry (fst s)"
    using view_same[OF inv] that by (simp add: viewStep_def grows_def split: action.splits)
  from assms(1) show ?thesis
  proof cases
    case (create d gid now req d' r cache)
    then show ?thesis using created_isolated[OF inv(1) assms(3), of s_enc gid now req] by (simp add: viewStep_def grows_same)
  next
    case (append d cache atts fr cid r aa d' cache' result)
    then show ?thesis using append_grows[OF _ append(4,5)] inv(1) assms(3) by (simp add: viewStep_def)
  next
    case (sync d cache fr u cid entry cl ag d' cache' sres)
    then show ?thesis using sync_grows[OF _ sync(4,5)] inv(1) assms(3) by (simp add: viewStep_def)
  next
    case (update d now u cid title metadata d' summary cache)
    show ?thesis by (rule quiet) (use quiet_tables(1)[OF update(4)] update in simp)
  next
    case (archive d now u cid d' cache)
    show ?thesis by (rule quiet) (use quiet_tables(2)[OF archive(4)] archive in simp)
  next
    case (archive_if_needed d now u cid d' ar cache)
    show ?thesis by (rule quiet) (use quiet_tables(3)[OF archive_if_needed(4)] archive_if_needed in simp)
  next
    case (unarchive d now u cid d' cache)
    show ?thesis by (rule quiet) (use quiet_tables(4)[OF unarchive(4)] unarchive in simp)
  next
    case (unarchive_if_needed d now u cid d' ar cache)
    show ?thesis by (rule quiet) (use quiet_tables(5)[OF unarchive_if_needed(4)] unarchive_if_needed in simp)
  next
    case (share d driverText now u cid target level d' m cache)
    show ?thesis by (rule quiet) (use quiet_tables(6)[OF share(4)] share in simp)
  next
    case (update_membership d u cid target level d' m cache)
    show ?thesis by (rule quiet) (use quiet_tables(7)[OF update_membership(4)] update_membership in simp)
  next
    case (delete_membership d u cid target d' cache)
    show ?thesis by (rule quiet) (use quiet_tables(8)[OF delete_membership(4)] delete_membership in simp)
  next
    case (create_transfer d tid now u cid target d' td cache)
    show ?thesis by (rule quiet) (use quiet_tables(9)[OF create_transfer(4)] create_transfer in simp)
  next
    case (accept_transfer d now u tid d' cache)
    show ?thesis by (rule quiet) (use quiet_tables(10)[OF accept_transfer(4)] accept_transfer in simp)
  next
    case (delete_transfer d u tid d' cache)
    show ?thesis by (rule quiet) (use quiet_tables(11)[OF delete_transfer(4)] delete_transfer in simp)
  next
    case (index_entries d reqs d' n cache)
    then show ?thesis using reindexed_view[OF _ IndexEntries_reindexed] storeOK_D(4)[OF inv(1)] by (simp add: viewStep_def)
  next
    case (set_indexed_at d cache entryID groupID indexedAt)
    then show ?thesis using reindexed_view[OF _ SetIndexedAt_reindexed] storeOK_D(4)[OF inv(1)] by (simp add: viewStep_def)
  next
    case (admin_archive d now cid archived d' cache)
    show ?thesis by (rule quiet) (use admin_archive_shape[OF admin_archive(4)] admin_archive in \<open>auto simp: archiveUpdate_def\<close>)
  next
    case (hard_delete d cache gs)
    then show ?thesis using hardDelete_view[of d conv gs] inv(1) by (simp add: viewStep_def)
  qed
qed

text \<open>
  C9 (views_append_only): from any reachable state, an operation of a user leaves what each conversation
  shows a prefix of what it shows afterwards, and adds to it only when the user has write access to the
  conversation; the indexer and the administrator change at most the index fields of what it shows; an
  eviction changes nothing in the conversations of the groups it does not delete.
\<close>

theorem views_append_only:
  assumes "reachable initial_state (store_step s_enc co cc) s" and "store_step s_enc co cc s l s'"
    and "conv \<in> set (db_conversations (fst s))"
  shows "case l of
      By u \<Rightarrow> \<exists>new. listVisibleEntriesForConversation (fst s') conv = listVisibleEntriesForConversation (fst s) conv @ new
        \<and> (new \<noteq> [] \<longrightarrow> (\<exists>access. requireAccess (fst s) u (c_ConversationGroupID conv) AccessLevelWriter = Inr access))
    | System \<Rightarrow> map unindexed (listVisibleEntriesForConversation (fst s') conv)
        = map unindexed (listVisibleEntriesForConversation (fst s) conv)
    | Evicts gs \<Rightarrow> c_ConversationGroupID conv \<notin> set gs \<longrightarrow>
        listVisibleEntriesForConversation (fst s') conv = listVisibleEntriesForConversation (fst s) conv"
  using step_view[OF assms(2) store.inv_reachable[OF assms(1)] assms(3)] unfolding viewStep_def grows_def canWrite_def .

section \<open>Conversations persist\<close>

definition rowKeys :: "db \<Rightarrow> (string \<times> uuid) set" where
  "rowKeys d = (\<lambda>c. (c_ID c, c_ConversationGroupID c)) ` set (db_conversations d)"

lemma rowKeys_update:
  assumes "db_conversations d' = update_where P f (db_conversations d)"
    and "\<And>c. c_ID (f c) = c_ID c \<and> c_ConversationGroupID (f c) = c_ConversationGroupID c"
  shows "rowKeys d' = rowKeys d"
proof -
  have "map (\<lambda>c. (c_ID c, c_ConversationGroupID c)) (db_conversations d') = map (\<lambda>c. (c_ID c, c_ConversationGroupID c)) (db_conversations d)"
    using assms by (simp add: update_where_def)
  then show ?thesis unfolding rowKeys_def by (metis list.set_map)
qed

lemma create_rowKeys: "rowKeys d \<subseteq> rowKeys (fst (createConversationWithID d s_enc gid now req))"
proof -
  obtain d' r where dr: "createConversationWithID d s_enc gid now req = (d', r)" by fastforce
  show ?thesis
  proof (cases "\<exists>x. r = Inr x \<and> \<not> res_ExactRetry x")
    case False
    then have "d' = d" using create_not_new[OF dr] by blast
    then show ?thesis by (simp add: dr)
  next
    case True
    then obtain x where x: "createConversationWithID d s_enc gid now req = (d', Inr x)" "\<not> res_ExactRetry x" using dr by auto
    obtain li t d3 where c: "createConversationAncestry (withConversation d req li t now) (li_ActualGroupID li) (cr_ConvID req)
         (li_SourceConv li) (cr_ForkedAtEntryID req) (li_AnchorOwnerDepth li) = Inr d3"
      "(if cr_ForkedAtConversationID req = None then insertMemberships d3 (initialMemberships li now) else Inr d3) = Inr d'"
      using created_cases[OF x] by metis
    show ?thesis using created_tables(3)[OF c] by (auto simp: dr rowKeys_def)
  qed
qed

lemma touch_rowKeys: "rowKeys (touchConversation cid t u d) = rowKeys d"
  using rowKeys_update[of "touchConversation cid t u d" "\<lambda>c. c_ID c = cid"
      "\<lambda>c. c\<lparr>c_Title := (case t of None \<Rightarrow> c_Title c | Some t \<Rightarrow> Some t), c_UpdatedAt := u\<rparr>" d]
  by (simp add: touchConversation_def)

lemma append_rowKeys:
  assumes inv: "storeOK d" and op: "appendEntries d c s_enc co fr cid r aa = Inr (d', c', result)"
    and ids: "freshIDs d (fr_IDs fr) (length (sr_Entries r))"
  shows "rowKeys d \<subseteq> rowKeys d'"
proof (cases "sr_Entries r = []")
  case True
  then show ?thesis using op by (simp add: appendEntries_def)
next
  case False
  let ?b = "appendBase d s_enc co fr cid r"
  obtain x cs t u where "loadOrCreate d s_enc co fr cid r = Inr (?b, x)" and
    f: "storeOK ?b" "appendsAfter ?b (c_ConversationGroupID x) cid cs"
    "list_all2 (storedAs s_enc) result cs" "d' = touchConversation cid t u (appendEntriesTo ?b cs)"
    by (rule append_facts[OF inv ids False op])
  have "rowKeys d' = rowKeys ?b" by (simp add: f(4) touch_rowKeys) (simp add: rowKeys_def)
  then show ?thesis using create_rowKeys by (simp add: appendBase_def)
qed

lemma sync_rowKeys:
  assumes inv: "storeOK d" and op: "SyncAgentEntry d c s_enc cc fr u cid req cl ag = Inr (d', c', res)"
    and ids: "freshIDs d (fr_IDs fr) 1"
  shows "rowKeys d \<subseteq> rowKeys d'"
proof -
  have loaded: "rowKeys d \<subseteq> rowKeys d1"
    if "syncLoad d (parseContentArray cc (er_Content req)) fr u cl cid ag = Inr (Some (d1, x, auto))" for d1 x auto
    using that autoCreate_like_create(1)[of d "fr_GroupID fr" "fr_CreateNow fr" u cl cid ag d1 x]
    by (auto simp: syncLoad_def andThen_eq_Inr rowKeys_def split: option.splits if_splits)
  from inv ids op show ?thesis
  proof (cases rule: sync_outcome)
    case (3 d1 x auto access e)
    have "rowKeys d' = rowKeys d1" by (simp add: 3(3) rowKeys_def)
    then show ?thesis using loaded[OF 3(1)] by simp
  qed (use loaded in auto)
qed

lemma update_rowKeys: "UpdateConversation d s_enc now u cid title metadata = Inr (d', sm) \<Longrightarrow> rowKeys d' = rowKeys d"
proof (erule update_tables)
  fix P f assume "d' = d\<lparr>db_conversations := update_where P f (db_conversations d)\<rparr>"
    "\<And>c. c_ID (f c) = c_ID c \<and> c_ConversationGroupID (f c) = c_ConversationGroupID c \<and> c_ArchivedAt (f c) = c_ArchivedAt c"
  then show "rowKeys d' = rowKeys d" using rowKeys_update[of d' P f d] by simp
qed simp

lemma archive_rowKeys: "rowKeys (archiveUpdate P Q a now d) = rowKeys d"
  using rowKeys_update[of "archiveUpdate P Q a now d" Q "\<lambda>c. c\<lparr>c_ArchivedAt := a, c_UpdatedAt := now\<rparr>" d] by (simp add: archiveUpdate_def)

lemma accept_rowKeys:
  assumes "AcceptTransfer d now u tid = Inr d'"
  shows "rowKeys d' = rowKeys d"
proof -
  obtain g where "db_conversations d' = update_where (\<lambda>c. c_ConversationGroupID c = g \<and> c_ArchivedAt c = None)
      (\<lambda>c. c\<lparr>c_OwnerUserID := u, c_UpdatedAt := now\<rparr>) (db_conversations d)"
    using assms that by (elim accept_D) (simp add: deleteTransfer_def setConversationOwner_def upsertOwner_facts setAccess_facts)
  then show ?thesis by (rule rowKeys_update) simp
qed

text \<open>The steps that do not delete a group.\<close>

fun spares :: "uuid \<Rightarrow> action \<Rightarrow> bool" where
  "spares g (Evicts gs) = (g \<notin> set gs)"
| "spares g _ = True"

definition sparing_step :: "uuid \<Rightarrow> enc \<Rightarrow> Codec \<Rightarrow> 'v ContentCodec \<Rightarrow> state \<Rightarrow> action \<Rightarrow> state \<Rightarrow> bool" where
  "sparing_step g s_enc co cc s l s' \<longleftrightarrow> store_step s_enc co cc s l s' \<and> spares g l"

lemma step_rowKeys:
  assumes "store_step s_enc co cc s l s'" and "stateOK s" and "spares g l" and "(i, g) \<in> rowKeys (fst s)"
  shows "(i, g) \<in> rowKeys (fst s')"
proof -
  have inv: "storeOK (fst s)" using assms(2) by (simp add: stateOK_def)
  have "rowKeys (fst s) \<subseteq> rowKeys (fst s')" if "\<nexists>gs. l = Evicts gs"
    using assms(1) that
  proof cases
    case (create d gid now req d' r cache)
    then show ?thesis using create_rowKeys[of d s_enc gid now req] by simp
  next
    case (append d cache atts fr cid r aa d' cache' result)
    then show ?thesis using append_rowKeys[OF _ append(4,5)] inv by simp
  next
    case (sync d cache fr u cid entry cl ag d' cache' sres)
    then show ?thesis using sync_rowKeys[OF _ sync(4,5)] inv by simp
  next
    case (update d now u cid title metadata d' summary cache)
    then show ?thesis using update_rowKeys[OF update(4)] by simp
  next
    case (archive d now u cid d' cache)
    then show ?thesis using archive_shape(1)[OF archive(4)] by (auto simp: archive_rowKeys)
  next
    case (archive_if_needed d now u cid d' ar cache)
    then show ?thesis using archive_shape(2)[OF archive_if_needed(4)] by (auto simp: archive_rowKeys)
  next
    case (unarchive d now u cid d' cache)
    then show ?thesis using archive_shape(3)[OF unarchive(4)] by (auto simp: archive_rowKeys)
  next
    case (unarchive_if_needed d now u cid d' ar cache)
    then show ?thesis using archive_shape(4)[OF unarchive_if_needed(4)] by (auto simp: archive_rowKeys)
  next
    case (share d driverText now u cid target level d' m cache)
    then show ?thesis by (elim share_D) (simp add: rowKeys_def)
  next
    case (update_membership d u cid target level d' m cache)
    then show ?thesis by (elim update_membership_D) (simp add: rowKeys_def setAccess_facts)
  next
    case (delete_membership d u cid target d' cache)
    then show ?thesis by (elim delete_membership_D) (simp add: rowKeys_def)
  next
    case (create_transfer d tid now u cid target d' td cache)
    then show ?thesis by (elim create_transfer_D) (simp add: rowKeys_def)
  next
    case (accept_transfer d now u tid d' cache)
    then show ?thesis using accept_rowKeys[OF accept_transfer(4)] by simp
  next
    case (delete_transfer d u tid d' cache)
    then show ?thesis
      by (auto simp: DeleteTransfer_def andThen_eq_Inr deleteTransfer_def rowKeys_def split: if_splits)
  next
    case (index_entries d reqs d' n cache)
    then show ?thesis using IndexEntries_reindexed[OF index_entries(4)] by (auto simp: reindexed_def rowKeys_def)
  next
    case (set_indexed_at d cache entryID groupID indexedAt)
    then show ?thesis by (simp add: SetIndexedAt_def rowKeys_def)
  next
    case (admin_archive d now cid archived d' cache)
    then show ?thesis using admin_archive_shape[OF admin_archive(4)] by (auto simp: archive_rowKeys)
  qed simp
  moreover have "(i, g) \<in> rowKeys (fst s')" if "l = Evicts gs" for gs
  proof -
    have "fst s' = HardDeleteConversationGroups (fst s) gs" using assms(1) that by cases auto
    then show ?thesis using assms(3,4) that hardDelete_tables(2)[OF storeOK_D(1)[OF inv], of _ gs] by (auto simp: rowKeys_def)
  qed
  ultimately show ?thesis using assms(4) by blast
qed

section \<open>History over a run\<close>

text \<open>
  A later state still has every conversation of the group, and up to the index fields its view begins
  with the earlier view.
\<close>

definition laterState :: "uuid \<Rightarrow> state \<Rightarrow> state \<Rightarrow> bool" where
  "laterState g s s' \<longleftrightarrow>
     (\<forall>conv \<in> set (db_conversations (fst s)). c_ConversationGroupID conv = g \<longrightarrow>
        (\<exists>conv' \<in> set (db_conversations (fst s')). c_ID conv' = c_ID conv \<and> c_ConversationGroupID conv' = g
           \<and> (\<exists>new. map unindexed (listVisibleEntriesForConversation (fst s') conv')
                  = map unindexed (listVisibleEntriesForConversation (fst s) conv) @ new)))"

lemma listVisible_key:
  assumes "c_ID conv' = c_ID conv" and "c_ConversationGroupID conv' = c_ConversationGroupID conv"
  shows "listVisibleEntriesForConversation d conv' = listVisibleEntriesForConversation d conv"
  using assms by (simp add: listVisibleEntriesForConversation_def visibleEntriesQuery_def)

lemma laterState_step:
  assumes "stateOK s" and "sparing_step g s_enc co cc s l s'"
  shows "laterState g s s'"
  unfolding laterState_def
proof (intro ballI impI)
  fix conv assume conv: "conv \<in> set (db_conversations (fst s))" "c_ConversationGroupID conv = g"
  have step: "store_step s_enc co cc s l s'" "spares g l" using assms(2) by (simp_all add: sparing_step_def)
  have "(c_ID conv, g) \<in> rowKeys (fst s')" by (rule step_rowKeys[OF step(1) assms(1) step(2)]) (use conv in \<open>auto simp: rowKeys_def\<close>)
  then obtain conv' where c: "conv' \<in> set (db_conversations (fst s'))" "c_ID conv' = c_ID conv" "c_ConversationGroupID conv' = g"
    by (auto simp: rowKeys_def)
  have "\<exists>new. map unindexed (listVisibleEntriesForConversation (fst s') conv)
      = map unindexed (listVisibleEntriesForConversation (fst s) conv) @ new"
    using step_view[OF step(1) assms(1) conv(1)] step(2) conv(2) by (cases l) (auto simp: viewStep_def grows_def)
  then show "\<exists>conv' \<in> set (db_conversations (fst s')). c_ID conv' = c_ID conv \<and> c_ConversationGroupID conv' = g
       \<and> (\<exists>new. map unindexed (listVisibleEntriesForConversation (fst s') conv')
              = map unindexed (listVisibleEntriesForConversation (fst s) conv) @ new)"
    using c conv(2) listVisible_key[of conv' conv] by (intro bexI[of _ conv']) simp_all
qed

lemma laterState_trans:
  assumes "laterState g s t" and "laterState g t u"
  shows "laterState g s u"
  unfolding laterState_def
proof (intro ballI impI)
  fix conv assume "conv \<in> set (db_conversations (fst s))" "c_ConversationGroupID conv = g"
  with assms(1) obtain x new where x: "x \<in> set (db_conversations (fst t))" "c_ID x = c_ID conv" "c_ConversationGroupID x = g"
      "map unindexed (listVisibleEntriesForConversation (fst t) x) = map unindexed (listVisibleEntriesForConversation (fst s) conv) @ new"
    unfolding laterState_def by metis
  with assms(2) obtain y new' where "y \<in> set (db_conversations (fst u))" "c_ID y = c_ID x" "c_ConversationGroupID y = g"
      "map unindexed (listVisibleEntriesForConversation (fst u) y) = map unindexed (listVisibleEntriesForConversation (fst t) x) @ new'"
    unfolding laterState_def by metis
  with x show "\<exists>conv' \<in> set (db_conversations (fst u)). c_ID conv' = c_ID conv \<and> c_ConversationGroupID conv' = g
       \<and> (\<exists>new. map unindexed (listVisibleEntriesForConversation (fst u) conv')
              = map unindexed (listVisibleEntriesForConversation (fst s) conv) @ new)"
    by (intro bexI[of _ y] conjI exI[of _ "new @ new'"]) simp_all
qed

interpretation run: transition_monotone initial_state "sparing_step g s_enc co cc" stateOK "laterState g" for g s_enc co cc
proof unfold_locales
  show "laterState g s s" for s unfolding laterState_def by fastforce
qed (auto simp: sparing_step_def intro: initial_stateOK step_stateOK laterState_trans laterState_step)

text \<open>
  C2 (history_preserved): along every run of the store that does not hard-delete the group of a
  conversation, whatever users, the indexer and the administrator do and whichever other groups are
  evicted, the conversation stays, and what it showed at any earlier moment is, up to the index fields of
  the entries, the beginning of what it shows later.
\<close>

theorem history_preserved:
  assumes "reachable initial_state (store_step s_enc co cc) s"
    and "conv \<in> set (db_conversations (fst s))"
    and "reachable (\<lambda>x. x = s) (\<lambda>x l y. store_step s_enc co cc x l y \<and> spares (c_ConversationGroupID conv) l) t"
  shows "\<exists>conv' \<in> set (db_conversations (fst t)). c_ID conv' = c_ID conv \<and> c_ConversationGroupID conv' = c_ConversationGroupID conv
       \<and> (\<exists>new. map unindexed (listVisibleEntriesForConversation (fst t) conv')
              = map unindexed (listVisibleEntriesForConversation (fst s) conv) @ map unindexed new)"
proof -
  have "reachable (\<lambda>x. x = s) (sparing_step (c_ConversationGroupID conv) s_enc co cc) t"
    using assms(3) unfolding sparing_step_def .
  from run.le_from[OF this store.inv_reachable[OF assms(1)]] assms(2)
  obtain conv' new where c: "conv' \<in> set (db_conversations (fst t))" "c_ID conv' = c_ID conv"
      "c_ConversationGroupID conv' = c_ConversationGroupID conv"
      "map unindexed (listVisibleEntriesForConversation (fst t) conv') = map unindexed (listVisibleEntriesForConversation (fst s) conv) @ new"
    unfolding laterState_def by blast
  let ?n = "length (listVisibleEntriesForConversation (fst s) conv)"
  have "new = map unindexed (drop ?n (listVisibleEntriesForConversation (fst t) conv'))"
    using arg_cong[OF c(4), of "drop ?n"] by (simp add: drop_map)
  with c show ?thesis by blast
qed

section \<open>Access levels\<close>

definition accessOf :: "db \<Rightarrow> uuid \<Rightarrow> string \<Rightarrow> AccessLevel option" where
  "accessOf d g u = map_option m_AccessLevel (List.find (isMember g u) (db_memberships d))"

lemma accessOf_append:
  "(\<And>m. m \<in> set ms \<Longrightarrow> m_ConversationGroupID m \<noteq> g) \<Longrightarrow> db_memberships d' = db_memberships d @ ms \<Longrightarrow> accessOf d' g v = accessOf d g v"
proof -
  assume g: "\<And>m. m \<in> set ms \<Longrightarrow> m_ConversationGroupID m \<noteq> g" and m: "db_memberships d' = db_memberships d @ ms"
  have "List.find (isMember g v) ms = None" using g by (auto simp: find_None_iff isMember_def)
  then show ?thesis unfolding accessOf_def m
    by (cases "List.find (isMember g v) (db_memberships d)") (simp_all add: find_append_None find_append_Some)
qed

lemma find_update_where:
  "(\<And>x. P x \<Longrightarrow> Q (f x) = Q x) \<Longrightarrow> List.find Q (update_where P f xs) = map_option (\<lambda>x. if P x then f x else x) (List.find Q xs)"
  by (induction xs) (auto simp: update_where_def)

lemma setAccess_accessOf:
  assumes "\<not> (g' = g \<and> v = u)"
  shows "accessOf (setAccess g u l d) g' v = accessOf d g' v"
proof -
  have "List.find (isMember g' v) (db_memberships (setAccess g u l d))
      = map_option (\<lambda>x. if isMember g u x then x\<lparr>m_AccessLevel := l\<rparr> else x) (List.find (isMember g' v) (db_memberships d))"
    by (simp add: setAccess_def find_update_where isMember_def)
  then show ?thesis using assms
    by (cases "List.find (isMember g' v) (db_memberships d)") (auto simp: accessOf_def isMember_def dest!: find_Some_set)
qed

lemma accessOf_other_tables: "db_memberships d' = db_memberships d \<Longrightarrow> accessOf d' g v = accessOf d g v"
  by (simp add: accessOf_def)

lemma create_accessOf:
  assumes inv: "storeOK d" and "isGroup d g"
  shows "accessOf (fst (createConversationWithID d s_enc gid now req)) g v = accessOf d g v"
proof -
  obtain d' r where dr: "createConversationWithID d s_enc gid now req = (d', r)" by fastforce
  show ?thesis
  proof (cases "\<exists>x. r = Inr x \<and> \<not> res_ExactRetry x")
    case False
    then have "d' = d" using create_not_new[OF dr] by blast
    then show ?thesis by (simp add: dr)
  next
    case True
    then obtain x where x: "createConversationWithID d s_enc gid now req = (d', Inr x)" "\<not> res_ExactRetry x" using dr by auto
    obtain li t d3 where c: "cr_ForkedAtConversationID req = None \<longrightarrow> \<not> isGroup d (li_ActualGroupID li)"
      "createConversationAncestry (withConversation d req li t now) (li_ActualGroupID li) (cr_ConvID req)
         (li_SourceConv li) (cr_ForkedAtEntryID req) (li_AnchorOwnerDepth li) = Inr d3"
      "(if cr_ForkedAtConversationID req = None then insertMemberships d3 (initialMemberships li now) else Inr d3) = Inr d'"
      using created_cases[OF x] by metis
    have m: "db_memberships d' = db_memberships d @ (if cr_ForkedAtConversationID req = None then initialMemberships li now else [])"
      using created_tables(6)[OF c(2,3)] by simp
    have "m_ConversationGroupID y \<noteq> g"
      if "y \<in> set (if cr_ForkedAtConversationID req = None then initialMemberships li now else [])" for y
      using that c(1) assms(2) initialMemberships_group[of y li now] by (auto split: if_splits)
    then show ?thesis using accessOf_append[OF _ m] by (simp add: dr)
  qed
qed

lemma autoCreate_accessOf:
  assumes "storeOK d" and "isGroup d g" and "autoCreateConversation d gid now u cl cid ag = Inr (d1, conv)" and "findConversation d cid = None"
  shows "accessOf d1 g v = accessOf d g v"
proof -
  obtain t d2 where cr: "createConversationWithID d None gid now (syncCreateRequest u cl cid ag) = (d2, t)"
    and same: "db_memberships d1 = db_memberships d2"
    using autoCreate_like_create(1)[OF assms(3,4)] by (elim exE conjE) (rule that)
  then show ?thesis
    using create_accessOf[OF assms(1,2), of None gid now "syncCreateRequest u cl cid ag"] by (simp add: accessOf_def)
qed

lemma append_accessOf:
  assumes inv: "storeOK d" and "isGroup d g" and op: "appendEntries d c s_enc co fr cid r aa = Inr (d', c', result)"
    and ids: "freshIDs d (fr_IDs fr) (length (sr_Entries r))"
  shows "accessOf d' g v = accessOf d g v"
proof (cases "sr_Entries r = []")
  case True
  then show ?thesis using op by (simp add: appendEntries_def)
next
  case False
  let ?b = "appendBase d s_enc co fr cid r"
  obtain x cs t u where load: "loadOrCreate d s_enc co fr cid r = Inr (?b, x)" and
    f: "storeOK ?b" "appendsAfter ?b (c_ConversationGroupID x) cid cs"
    "list_all2 (storedAs s_enc) result cs" "d' = touchConversation cid t u (appendEntriesTo ?b cs)"
    by (rule append_facts[OF inv ids False op])
  have "accessOf d' g v = accessOf ?b g v" by (rule accessOf_other_tables) (simp add: f(4))
  then show ?thesis using create_accessOf[OF inv assms(2)] by (simp add: appendBase_def)
qed

lemma sync_accessOf:
  assumes inv: "storeOK d" and g: "isGroup d g" and op: "SyncAgentEntry d c s_enc cc fr u cid req cl ag = Inr (d', c', res)"
    and ids: "freshIDs d (fr_IDs fr) 1"
  shows "accessOf d' g v = accessOf d g v"
proof -
  have loaded: "accessOf d1 g v = accessOf d g v"
    if "syncLoad d (parseContentArray cc (er_Content req)) fr u cl cid ag = Inr (Some (d1, x, auto))" for d1 x auto
    using that autoCreate_accessOf[OF inv g] by (auto simp: syncLoad_def andThen_eq_Inr split: option.splits if_splits)
  from inv ids op show ?thesis
  proof (cases rule: sync_outcome)
    case (3 d1 x auto access e)
    have "accessOf d' g v = accessOf d1 g v" by (rule accessOf_other_tables) (simp add: 3(3))
    then show ?thesis using loaded[OF 3(1)] by simp
  qed (use loaded in auto)
qed

definition mayManage :: "db \<Rightarrow> string \<Rightarrow> uuid \<Rightarrow> bool" where
  "mayManage d u g \<longleftrightarrow> (\<exists>access. requireAccess d u g AccessLevelManager = Inr access)"

lemma getGroupID_mayManage: "getGroupID d u cid AccessLevelManager = Inr g \<Longrightarrow> mayManage d u g"
  by (elim getGroupID_D) (auto simp: mayManage_def)

lemma delete_accessOf:
  assumes "g' \<noteq> g"
  shows "accessOf (d\<lparr>db_transfers := ts, db_memberships := delete_where (isMember g u) (db_memberships d)\<rparr>) g' v = accessOf d g' v"
proof -
  have "List.find (isMember g' v) (delete_where (isMember g u) ms) = List.find (isMember g' v) ms" for ms
    using assms by (induction ms) (auto simp: delete_where_def isMember_def)
  then show ?thesis by (simp add: accessOf_def)
qed

lemma hardDelete_accessOf:
  assumes "storeOK d" and "g \<notin> set gs"
  shows "accessOf (HardDeleteConversationGroups d gs) g v = accessOf d g v"
proof -
  have "List.find (isMember g v) (filter (\<lambda>m. m_ConversationGroupID m \<notin> set gs) ms) = List.find (isMember g v) ms" for ms
    using assms(2) by (induction ms) (auto simp: isMember_def)
  then show ?thesis using hardDelete_tables(4)[OF storeOK_D(1)[OF assms(1)] refl, of gs] by (simp add: accessOf_def)
qed

lemma accept_accessOf:
  assumes op: "AcceptTransfer d now u tid = Inr d'" and "accessOf d' g v \<noteq> accessOf d g v"
  shows "\<exists>t \<in> set (db_transfers d). t_ConversationGroupID t = g \<and> t_ToUserID t = u \<and> (v = t_FromUserID t \<or> v = u)"
proof -
  obtain t where t: "t \<in> set (db_transfers d)" "t_ToUserID t = u" and
    d': "d' = deleteTransfer tid (setConversationOwner (t_ConversationGroupID t) u now
            (upsertOwner (t_ConversationGroupID t) u now (setAccess (t_ConversationGroupID t) (t_FromUserID t) AccessLevelManager d)))"
    using op by (rule accept_D)
  let ?g = "t_ConversationGroupID t"
  have ups: "accessOf (upsertOwner ?g u now x) g v = accessOf x g v" if "\<not> (g = ?g \<and> v = u)" for x
  proof (cases "list_ex (isMember ?g u) (db_memberships x)")
    case True
    then show ?thesis using setAccess_accessOf[OF that] by (simp add: upsertOwner_def)
  next
    case False
    then show ?thesis using that
      by (cases "List.find (isMember g v) (db_memberships x)")
         (auto simp: upsertOwner_def accessOf_def isMember_def find_append_None find_append_Some)
  qed
  have "accessOf d' g v = accessOf d g v" if n: "\<not> (g = ?g \<and> v = u)" "\<not> (g = ?g \<and> v = t_FromUserID t)"
    using ups[OF n(1)] setAccess_accessOf[OF n(2)]
    by (simp add: d' accessOf_other_tables[of "deleteTransfer tid _"] deleteTransfer_def setConversationOwner_def accessOf_def)
  then show ?thesis using assms(2) t by blast
qed

definition accessStep :: "action \<Rightarrow> db \<Rightarrow> uuid \<Rightarrow> string \<Rightarrow> bool" where
  "accessStep l d g v =
     (case l of
        By u \<Rightarrow> mayManage d u g
          \<or> (\<exists>t \<in> set (db_transfers d). t_ConversationGroupID t = g \<and> t_ToUserID t = u \<and> (v = t_FromUserID t \<or> v = u))
      | System \<Rightarrow> False
      | Evicts gs \<Rightarrow> g \<in> set gs)"

text \<open>
  C22 (access_change_authorised): in a reachable state, a step changes a user's access level in an existing
  group only if the acting user manages that group, or accepts a transfer addressed to them, which
  changes the levels of the sender and of the recipient only, or if it is an eviction of the group.
\<close>

theorem access_change_authorised:
  assumes "reachable initial_state (store_step s_enc co cc) s" and "store_step s_enc co cc s l s'"
    and "isGroup (fst s) g" and "accessOf (fst s') g v \<noteq> accessOf (fst s) g v"
  shows "case l of
      By u \<Rightarrow> (\<exists>access. requireAccess (fst s) u g AccessLevelManager = Inr access)
        \<or> (\<exists>t \<in> set (db_transfers (fst s)). t_ConversationGroupID t = g \<and> t_ToUserID t = u \<and> (v = t_FromUserID t \<or> v = u))
    | System \<Rightarrow> False
    | Evicts gs \<Rightarrow> g \<in> set gs"
proof -
  have inv: "storeOK (fst s)" using store.inv_reachable[OF assms(1)] by (simp add: stateOK_def)
  have same: "accessStep l (fst s) g v" if "accessOf (fst s') g v = accessOf (fst s) g v" using that assms(4) by simp
  from assms(2) have "accessStep l (fst s) g v"
  proof cases
    case (create d gid now req d' r cache)
    show ?thesis by (rule same) (use create_accessOf[OF inv assms(3), of s_enc gid now req v] create in simp)
  next
    case (append d cache atts fr cid r aa d' cache' result)
    show ?thesis by (rule same) (use append_accessOf[OF inv assms(3)] append in simp)
  next
    case (sync d cache fr u cid entry cl ag d' cache' sres)
    show ?thesis by (rule same) (use sync_accessOf[OF inv assms(3)] sync in simp)
  next
    case (update d now u cid title metadata d' summary cache)
    have "db_memberships d' = db_memberships d" using update(4) by (rule update_tables) simp_all
    then show ?thesis by (intro same) (use update in \<open>simp add: accessOf_def\<close>)
  next
    case (archive d now u cid d' cache)
    show ?thesis by (rule same) (use archive_shape(1)[OF archive(4)] archive in \<open>auto simp: accessOf_def archiveUpdate_def\<close>)
  next
    case (archive_if_needed d now u cid d' ar cache)
    show ?thesis by (rule same) (use archive_shape(2)[OF archive_if_needed(4)] archive_if_needed in \<open>auto simp: accessOf_def archiveUpdate_def\<close>)
  next
    case (unarchive d now u cid d' cache)
    show ?thesis by (rule same) (use archive_shape(3)[OF unarchive(4)] unarchive in \<open>auto simp: accessOf_def archiveUpdate_def\<close>)
  next
    case (unarchive_if_needed d now u cid d' ar cache)
    show ?thesis by (rule same) (use archive_shape(4)[OF unarchive_if_needed(4)] unarchive_if_needed in \<open>auto simp: accessOf_def archiveUpdate_def\<close>)
  next
    case (share d driverText now u cid target level d' m cache)
    from share(4) obtain g' where g': "getGroupID d u cid AccessLevelManager = Inr g'" "m_ConversationGroupID m = g'"
        "d' = d\<lparr>db_memberships := db_memberships d @ [m]\<rparr>"
      by (rule share_D) auto
    then show ?thesis using getGroupID_mayManage[OF g'(1)] accessOf_append[of "[m]" g d' d v] assms(4) share by (auto simp: accessStep_def)
  next
    case (update_membership d u cid target level d' m cache)
    from update_membership(4) obtain g' where g': "getGroupID d u cid AccessLevelManager = Inr g'" "d' = setAccess g' target level d"
      by (rule update_membership_D)
    then show ?thesis using getGroupID_mayManage[OF g'(1)] setAccess_accessOf[of g g' v target level d] assms(4) update_membership by (auto simp: accessStep_def)
  next
    case (delete_membership d u cid target d' cache)
    from delete_membership(4) obtain g' where g': "getGroupID d u cid AccessLevelManager = Inr g'"
        "d' = d\<lparr>db_transfers := delete_where (\<lambda>t. t_ConversationGroupID t = g' \<and> t_ToUserID t = target) (db_transfers d),
             db_memberships := delete_where (isMember g' target) (db_memberships d)\<rparr>"
      by (rule delete_membership_D)
    then show ?thesis using getGroupID_mayManage[OF g'(1)] delete_accessOf[of g g'] assms(4) delete_membership by (auto simp: accessStep_def)
  next
    case (create_transfer d tid now u cid target d' td cache)
    have "db_memberships d' = db_memberships d" using create_transfer(4) by (rule create_transfer_D) simp
    then show ?thesis by (intro same) (use create_transfer in \<open>simp add: accessOf_def\<close>)
  next
    case (accept_transfer d now u tid d' cache)
    then show ?thesis using accept_accessOf[OF accept_transfer(4)] assms(4) by (auto simp: accessStep_def)
  next
    case (delete_transfer d u tid d' cache)
    then have "db_memberships d' = db_memberships d"
      by (auto simp: DeleteTransfer_def andThen_eq_Inr deleteTransfer_def split: if_splits)
    then show ?thesis by (intro same) (use delete_transfer in \<open>simp add: accessOf_def\<close>)
  next
    case (index_entries d reqs d' n cache)
    show ?thesis by (rule same) (use IndexEntries_reindexed[OF index_entries(4)] index_entries in \<open>auto simp: reindexed_def accessOf_def\<close>)
  next
    case (set_indexed_at d cache entryID groupID indexedAt)
    show ?thesis by (rule same) (simp add: set_indexed_at SetIndexedAt_def accessOf_def)
  next
    case (admin_archive d now cid archived d' cache)
    show ?thesis by (rule same) (use admin_archive_shape[OF admin_archive(4)] admin_archive in \<open>auto simp: accessOf_def archiveUpdate_def\<close>)
  next
    case (hard_delete d cache gs)
    then show ?thesis using hardDelete_accessOf[OF inv, of g gs v] assms(4) by (auto simp: accessStep_def)
  qed
  then show ?thesis by (simp add: accessStep_def mayManage_def split: action.splits)
qed

section \<open>Ownership\<close>

lemma accept_access:
  assumes "ownersOK d" and "AcceptTransfer d now u tid = Inr d'"
  shows "\<exists>t \<in> set (db_transfers d). t_ID t = tid \<and> t_ToUserID t = u
     \<and> db_transfers d' = delete_where (\<lambda>t. t_ID t = tid) (db_transfers d)
     \<and> db_conversations d' = update_where (\<lambda>c. c_ConversationGroupID c = t_ConversationGroupID t \<and> c_ArchivedAt c = None)
         (\<lambda>c. c\<lparr>c_OwnerUserID := u, c_UpdatedAt := now\<rparr>) (db_conversations d)"
  using assms(2)
  by (elim accept_D) (auto simp: deleteTransfer_def setConversationOwner_def upsertOwner_facts setAccess_facts)

text \<open>
  C29 (accept_transfers_ownership): accepting a transfer in a reachable state makes the recipient the only
  owner of the group, changes the owner of no other group, removes the transfer, and puts the recipient
  as owner on every conversation of the group that is not archived.
\<close>

theorem accept_transfers_ownership:
  assumes "reachable initial_state (store_step s_enc co cc) s" and "AcceptTransfer (fst s) now u tid = Inr d'"
    and "t \<in> set (db_transfers (fst s))" and "t_ID t = tid"
  shows "isOwner d' g v = (if g = t_ConversationGroupID t then v = u else isOwner (fst s) g v)
    \<and> t \<notin> set (db_transfers d')
    \<and> (conv \<in> set (db_conversations d') \<and> c_ConversationGroupID conv = t_ConversationGroupID t \<and> c_ArchivedAt conv = None
        \<longrightarrow> c_OwnerUserID conv = u)"
proof (intro conjI impI)
  have inv: "stateOK s" by (rule store.inv_reachable[OF assms(1)])
  then have own: "ownersOK (fst s)" and keys: "distinct (map t_ID (db_transfers (fst s)))"
    using storeOK_rows(2) by (simp_all add: stateOK_def)
  show "isOwner d' g v = (if g = t_ConversationGroupID t then v = u else isOwner (fst s) g v)"
    by (rule accept_owner[OF own assms(2,3,4) keys])
  obtain t' where t': "t' \<in> set (db_transfers (fst s))" "t_ID t' = tid"
    and tr: "db_transfers d' = delete_where (\<lambda>t. t_ID t = tid) (db_transfers (fst s))"
    and cv: "db_conversations d' = update_where (\<lambda>c. c_ConversationGroupID c = t_ConversationGroupID t' \<and> c_ArchivedAt c = None)
         (\<lambda>c. c\<lparr>c_OwnerUserID := u, c_UpdatedAt := now\<rparr>) (db_conversations (fst s))"
    using accept_access[OF own assms(2)] by blast
  show "t \<notin> set (db_transfers d')" using assms(4) by (simp add: tr)
  have "t' = t" using t' assms(3,4) keys by (simp add: distinct_map inj_on_def)
  then show "c_OwnerUserID conv = u"
    if "conv \<in> set (db_conversations d') \<and> c_ConversationGroupID conv = t_ConversationGroupID t \<and> c_ArchivedAt conv = None"
    using that by (auto simp: cv update_where_def split: if_splits)
qed

text \<open>What access checks see of a group.\<close>

lemma requireAccess_accessOf:
  "requireAccess d u g level = (case accessOf d g u of None \<Rightarrow> Inl ForbiddenError
     | Some a \<Rightarrow> if \<not> IsAtLeast a level then Inl ForbiddenError else Inr a)"
  by (simp add: requireAccess_def accessOf_def isMember_def[abs_def] split: option.splits)

lemma owner_accessOf:
  assumes "storeOK d" and "isOwner d g v"
  shows "accessOf d g v = Some AccessLevelOwner"
proof -
  obtain m where m: "m \<in> set (db_memberships d)" "m_ConversationGroupID m = g" "m_UserID m = v" "m_AccessLevel m = AccessLevelOwner"
    using assms(2) by (auto simp: isOwner_def)
  then have "List.find (isMember g v) (db_memberships d) \<noteq> None" by (auto simp: find_None_iff isMember_def)
  then obtain x where x: "List.find (isMember g v) (db_memberships d) = Some x" by blast
  then have "x \<in> set (db_memberships d)" "membershipKey x = membershipKey m"
    using m(2,3) by (auto simp: isMember_def membershipKey_def dest!: find_Some_set)
  then have "x = m" using m(1) storeOK_rows(1)[OF assms(1)] by (auto simp: distinct_map dest: inj_onD)
  then show ?thesis using x m(4) by (simp add: accessOf_def)
qed

text \<open>
  C38 (owner_can_be_removed): the rule that the owner cannot be removed does not hold. In every reachable
  state a manager of a conversation other than the owner is refused the removal of the owner, but may
  first demote the owner with \<open>UpdateMembership\<close>, which only refuses to grant ownership, and then remove
  them. The group is left with no owner, and nobody can offer its ownership to anyone.
\<close>

theorem owner_can_be_removed:
  assumes "reachable initial_state (store_step s_enc co cc) s"
    and "findActiveConversation (fst s) cid = Some conv" and "isOwner (fst s) (c_ConversationGroupID conv) v" and "u \<noteq> v"
    and "requireAccess (fst s) u (c_ConversationGroupID conv) AccessLevelManager = Inr access"
  shows "DeleteMembership (fst s) u cid v = Inl (ValidationError ''userId'' ''cannot remove the owner'')
    \<and> (\<exists>d m d'. UpdateMembership (fst s) u cid v AccessLevelReader = Inr (d, m) \<and> DeleteMembership d u cid v = Inr d'
         \<and> (\<nexists>w. isOwner d' (c_ConversationGroupID conv) w)
         \<and> (\<forall>w x t now. CreateOwnershipTransfer d' t now w cid x = Inl ForbiddenError))"
proof
  let ?g = "c_ConversationGroupID conv"
  let ?d = "setAccess ?g v AccessLevelReader (fst s)"
  have inv: "storeOK (fst s)" and own: "ownersOK (fst s)" using store.inv_reachable[OF assms(1)] by (simp_all add: stateOK_def)
  have "accessOf (fst s) ?g v = Some AccessLevelOwner" by (rule owner_accessOf[OF inv assms(3)])
  then obtain m where m: "List.find (isMember ?g v) (db_memberships (fst s)) = Some m" "m_AccessLevel m = AccessLevelOwner"
    by (auto simp: accessOf_def)
  have gid: "getGroupID (fst s) u cid AccessLevelManager = Inr ?g" using assms(2,5) by (simp add: getGroupID_def)
  show "DeleteMembership (fst s) u cid v = Inl (ValidationError ''userId'' ''cannot remove the owner'')"
    using gid m by (simp add: DeleteMembership_def)
  have mem: "isMember ?g v m" "m \<in> set (db_memberships (fst s))" using find_Some_set[OF m(1)] by simp_all
  have found: "List.find (isMember ?g v) (db_memberships ?d) = Some (m\<lparr>m_AccessLevel := AccessLevelReader\<rparr>)"
    using m(1) mem(1) by (simp add: setAccess_def find_update_where isMember_def)
  have upd: "UpdateMembership (fst s) u cid v AccessLevelReader = Inr (?d, m\<lparr>m_AccessLevel := AccessLevelReader\<rparr>)"
    using gid found mem by (auto simp: UpdateMembership_def Let_def list_ex_iff)
  have act: "findActiveConversation ?d cid = Some conv" using assms(2) by (simp add: findActiveConversation_def setAccess_facts)
  have "requireAccess ?d u ?g AccessLevelManager = Inr access"
    using assms(4,5) setAccess_accessOf[of ?g ?g u v] by (simp add: requireAccess_accessOf)
  then have "getGroupID ?d u cid AccessLevelManager = Inr ?g" using act by (simp add: getGroupID_def)
  then obtain d' where del: "DeleteMembership ?d u cid v = Inr d'"
      "d' = ?d\<lparr>db_transfers := delete_where (\<lambda>t. t_ConversationGroupID t = ?g \<and> t_ToUserID t = v) (db_transfers ?d),
               db_memberships := delete_where (isMember ?g v) (db_memberships ?d)\<rparr>"
    using found by (simp add: DeleteMembership_def)
  have "isOwner (fst s) ?g w \<and> w \<noteq> v" if "isOwner d' ?g w" for w
    using that setAccess_owner[of ?g v AccessLevelReader "fst s" ?g w] by (auto simp: del(2) isOwner_def isMember_def split: if_splits)
  then have none: "\<nexists>w. isOwner d' ?g w" using own assms(3) unfolding ownersOK_def by blast
  have "requireAccess d' w ?g AccessLevelOwner = Inl ForbiddenError" for w
    using none requireAccess_owner[of d' w ?g] by (cases "requireAccess d' w ?g AccessLevelOwner") (auto simp: requireAccess_accessOf split: option.splits if_splits)
  moreover have "findActiveConversation d' cid = Some conv" using act by (simp add: del(2) findActiveConversation_def)
  ultimately have "CreateOwnershipTransfer d' t now w cid x = Inl ForbiddenError" for w x t now
    by (simp add: CreateOwnershipTransfer_def)
  then show "\<exists>d m d'. UpdateMembership (fst s) u cid v AccessLevelReader = Inr (d, m) \<and> DeleteMembership d u cid v = Inr d'
         \<and> (\<nexists>w. isOwner d' ?g w) \<and> (\<forall>w x t now. CreateOwnershipTransfer d' t now w cid x = Inl ForbiddenError)"
    using upd del(1) none by blast
qed

text \<open>
  Accepting a transfer while the group is archived moves the
  ownership but not the owner recorded on its conversations; after unarchiving, the conversation still
  names the previous owner.
\<close>

theorem archived_transfer_keeps_owner_column:
  "\<exists>d1 d2 d3. ArchiveConversation runOffered 3 ''alice'' ''c1'' = Inr d1 \<and> AcceptTransfer d1 4 ''bob'' ''t1'' = Inr d2
     \<and> UnarchiveConversation d2 5 ''bob'' ''c1'' = Inr d3 \<and> isOwner d3 ''g1'' ''bob'' \<and> \<not> isOwner d3 ''g1'' ''alice''
     \<and> map (\<lambda>c. (c_ID c, c_OwnerUserID c, c_ArchivedAt c)) (db_conversations d3) = [(''c1'', ''alice'', None)]"
proof -
  have "case ArchiveConversation runOffered 3 ''alice'' ''c1'' of Inl _ \<Rightarrow> False | Inr d1 \<Rightarrow>
      (case AcceptTransfer d1 4 ''bob'' ''t1'' of Inl _ \<Rightarrow> False | Inr d2 \<Rightarrow>
      (case UnarchiveConversation d2 5 ''bob'' ''c1'' of Inl _ \<Rightarrow> False | Inr d3 \<Rightarrow>
        isOwner d3 ''g1'' ''bob'' \<and> \<not> isOwner d3 ''g1'' ''alice''
        \<and> map (\<lambda>c. (c_ID c, c_OwnerUserID c, c_ArchivedAt c)) (db_conversations d3) = [(''c1'', ''alice'', None)]))"
    by code_simp
  then show ?thesis by (auto split: sum.splits)
qed

text \<open>A conversation that the sample conversation starts.\<close>

definition startRequest :: CreateRequest where
  "startRequest = rootRequest\<lparr>cr_ConvID := ''c2'', cr_Title := ''child'', cr_StartedByConversationID := Some ''c1''\<rparr>"

text \<open>
  The cursor of \<open>ListMemberships\<close> compares creation times only. A
  conversation started by another one copies its members with one creation time, and paging over them
  stops after the first page although a cursor promised more.
\<close>

theorem tied_members_are_skipped:
  "\<exists>d r page u. createConversationWithID runShared None ''g2'' 7 startRequest = (d, Inr r)
     \<and> ListMemberships d ''alice'' ''c2'' None 1 = Inr (page, Some u) \<and> map m_UserID page = [u]
     \<and> ListMemberships d ''alice'' ''c2'' (Some u) 1 = Inr ([], None)
     \<and> length (GetGroupMemberUserIDs d ''g2'') = 2"
proof -
  let ?d = "fst (createConversationWithID runShared None ''g2'' 7 startRequest)"
  have "case snd (createConversationWithID runShared None ''g2'' 7 startRequest) of Inl _ \<Rightarrow> False | Inr _ \<Rightarrow> True" by code_simp
  then obtain r where "createConversationWithID runShared None ''g2'' 7 startRequest = (?d, Inr r)"
    by (auto simp: prod_eq_iff split: sum.splits)
  moreover have "(case ListMemberships ?d ''alice'' ''c2'' None 1 of Inl _ \<Rightarrow> False | Inr (page, next) \<Rightarrow>
      map m_UserID page = [''alice''] \<and> next = Some ''alice'')
      \<and> ListMemberships ?d ''alice'' ''c2'' (Some ''alice'') 1 = Inr ([], None) \<and> length (GetGroupMemberUserIDs ?d ''g2'') = 2"
    by code_simp
  ultimately show ?thesis by (auto split: sum.splits)
qed

text \<open>
  Sharing a conversation again with a member is meant to be a
  conflict; the code looks for the text \<open>duplicate key\<close>, which SQLite's error does not have, and returns
  an internal error.
\<close>

theorem share_duplicate_is_internal_error:
  "ShareConversation runShared
     ''UNIQUE constraint failed: conversation_memberships.conversation_group_id, conversation_memberships.user_id''
     2 ''alice'' ''c1'' ''bob'' AccessLevelReader = Inl (InternalError ''failed to share conversation'')"
  by code_simp

section \<open>The sample run\<close>

lemma runOffered_conv:
  obtains conv where "conv \<in> set (db_conversations runOffered)" "c_ID conv = ''c1''" "c_ConversationGroupID conv = ''g1''"
proof -
  have "list_ex (\<lambda>c. c_ID c = ''c1'' \<and> c_ConversationGroupID c = ''g1'') (db_conversations runOffered)" by code_simp
  then show thesis using that by (auto simp: list_ex_iff)
qed

lemma runAppended_view:
  "listVisibleEntriesForConversation runOffered conv = []"
  "c_ID conv = ''c1'' \<Longrightarrow> c_ConversationGroupID conv = ''g1'' \<Longrightarrow> map e_ID (listVisibleEntriesForConversation runAppended conv) = [''n1'']"
proof -
  have "db_entries runOffered = []" by code_simp
  then show "listVisibleEntriesForConversation runOffered conv = []"
    by (simp add: listVisibleEntriesForConversation_def visibleEntriesQuery_def order_by_def)
  assume "c_ID conv = ''c1''" "c_ConversationGroupID conv = ''g1''"
  moreover have "map e_ID (listVisibleEntriesForConversation runAppended (hd (db_conversations runAppended))) = [''n1'']"
    "c_ID (hd (db_conversations runAppended)) = ''c1''" "c_ConversationGroupID (hd (db_conversations runAppended)) = ''g1''"
    by code_simp+
  ultimately show "map e_ID (listVisibleEntriesForConversation runAppended conv) = [''n1'']"
    using listVisible_key[of conv "hd (db_conversations runAppended)"] by simp
qed

theorem views_append_only_witness:
  "\<exists>conv new access. listVisibleEntriesForConversation runAppended conv = listVisibleEntriesForConversation runOffered conv @ new
     \<and> map e_ID new = [''n1''] \<and> requireAccess runOffered ''bob'' (c_ConversationGroupID conv) AccessLevelWriter = Inr access"
proof -
  obtain cache where step: "store_step None sampleCodec charCodec (runOffered, None) (By ''bob'') (runAppended, cache)"
    using run_steps(4) by blast
  obtain conv where conv: "conv \<in> set (db_conversations runOffered)" "c_ID conv = ''c1''" "c_ConversationGroupID conv = ''g1''"
    by (rule runOffered_conv)
  show ?thesis
    using views_append_only[OF run_reachable(3) step, of conv] conv runAppended_view(2)[OF conv(2,3)]
    unfolding runAppended_view(1) fst_conv by fastforce
qed

text \<open>After the append its entry is indexed, and a group without rows is evicted.\<close>

definition runIndexed :: db where
  "runIndexed = resultDB (IndexEntries runAppended [\<lparr>ix_ConversationID = ''c1'', ix_EntryID = ''n1'', ix_IndexedContent = ''text''\<rparr>])"

theorem history_preserved_witness:
  "\<exists>conv conv' new. conv' \<in> set (db_conversations (HardDeleteConversationGroups runIndexed [''g2''])) \<and> c_ID conv' = ''c1'' \<and> c_ID conv = ''c1''
     \<and> map unindexed (listVisibleEntriesForConversation (HardDeleteConversationGroups runIndexed [''g2'']) conv')
       = map unindexed (listVisibleEntriesForConversation runAppended conv) @ map unindexed new
     \<and> map e_IndexedContent (listVisibleEntriesForConversation runIndexed conv) = [Some ''text'']
     \<and> map e_IndexedContent (listVisibleEntriesForConversation runAppended conv) = [None]"
proof -
  let ?step = "\<lambda>x l y. store_step None sampleCodec charCodec x l y \<and> spares ''g1'' l"
  obtain cache where start: "reachable initial_state (store_step None sampleCodec charCodec) (runAppended, cache)"
    using run_reachable(4) by blast
  let ?reqs = "[\<lparr>ix_ConversationID = ''c1'', ix_EntryID = ''n1'', ix_IndexedContent = ''text''\<rparr>]"
  have "case IndexEntries runAppended ?reqs of Inl _ \<Rightarrow> False | Inr _ \<Rightarrow> True" by code_simp
  from resultDB_ok[OF this] obtain n where "IndexEntries runAppended ?reqs = Inr (runIndexed, n)"
    unfolding runIndexed_def[symmetric] by blast
  then have "store_step None sampleCodec charCodec (runAppended, cache) System (runIndexed, cache)" by (rule store_step.index_entries)
  then have "?step (runAppended, cache) System (runIndexed, cache)" by simp
  moreover have "?step (runIndexed, cache) (Evicts [''g2'']) (HardDeleteConversationGroups runIndexed [''g2''], cache)"
    by (simp add: store_step.hard_delete)
  moreover have "reachable (\<lambda>x. x = (runAppended, cache)) ?step (runAppended, cache)" by (rule reachable.start) (rule refl)
  ultimately have run: "reachable (\<lambda>x. x = (runAppended, cache)) ?step (HardDeleteConversationGroups runIndexed [''g2''], cache)"
    by (blast intro: reachable.next_state)
  let ?c = "hd (db_conversations runAppended)"
  have c: "db_conversations runAppended \<noteq> []" "c_ID ?c = ''c1''" "c_ConversationGroupID ?c = ''g1''"
    "map e_IndexedContent (listVisibleEntriesForConversation runIndexed ?c) = [Some ''text'']"
    "map e_IndexedContent (listVisibleEntriesForConversation runAppended ?c) = [None]" by code_simp+
  have "?c \<in> set (db_conversations runAppended)" using c(1) by simp
  from history_preserved[OF start, unfolded fst_conv, OF this, unfolded c(3), OF run, unfolded fst_conv]
  obtain conv' new where "conv' \<in> set (db_conversations (HardDeleteConversationGroups runIndexed [''g2'']))" "c_ID conv' = c_ID ?c"
    "map unindexed (listVisibleEntriesForConversation (HardDeleteConversationGroups runIndexed [''g2'']) conv')
       = map unindexed (listVisibleEntriesForConversation runAppended ?c) @ map unindexed new" by blast
  then show ?thesis using c(2,4,5) by (intro exI[of _ ?c] exI[of _ conv'] exI[of _ new] conjI) simp_all
qed

theorem owner_can_be_removed_witness:
  "DeleteMembership runShared ''bob'' ''c1'' ''alice'' = Inl (ValidationError ''userId'' ''cannot remove the owner'')
   \<and> (\<exists>d m d'. UpdateMembership runShared ''bob'' ''c1'' ''alice'' AccessLevelReader = Inr (d, m)
        \<and> DeleteMembership d ''bob'' ''c1'' ''alice'' = Inr d' \<and> (\<nexists>w. isOwner d' ''g1'' w))"
proof -
  have c: "case findActiveConversation runShared ''c1'' of None \<Rightarrow> False | Some c \<Rightarrow> c_ConversationGroupID c = ''g1''"
    "isOwner runShared ''g1'' ''alice''" "requireAccess runShared ''bob'' ''g1'' AccessLevelManager = Inr AccessLevelManager" by code_simp+
  then obtain conv where conv: "findActiveConversation runShared ''c1'' = Some conv" "c_ConversationGroupID conv = ''g1''"
    by (auto split: option.splits)
  have "''bob'' \<noteq> ''alice''" by simp
  from owner_can_be_removed[OF run_reachable(2), unfolded fst_conv, OF conv(1), unfolded conv(2), OF c(2) this c(3)] show ?thesis by blast
qed

definition runStarted :: db where
  "runStarted = fst (createConversationWithID runShared None ''g2'' 7 startRequest)"

theorem eviction_deletes_closure_witness:
  "\<exists>groups d'. LoadDeletedConversationGroups runStarted [''g1''] = Some groups
     \<and> d' = HardDeleteConversationGroups runStarted (map dg_ConversationGroupID groups)
     \<and> ''g2'' \<in> dg_ConversationGroupID ` set groups \<and> db_conversations d' = []"
proof -
  have "case snd (createConversationWithID runShared None ''g2'' 7 startRequest) of Inl _ \<Rightarrow> False | Inr _ \<Rightarrow> True" by code_simp
  then obtain r where "createConversationWithID runShared None ''g2'' 7 startRequest = (runStarted, Inr r)"
    by (auto simp: runStarted_def prod_eq_iff split: sum.splits)
  from store_step.create[OF this] have "stateOK (runStarted, None)"
    using step_stateOK store.inv_reachable[OF run_reachable(2)] by blast
  then have inv: "storeOK runStarted" by (simp add: stateOK_def)
  have "startedIn runStarted ''g1'' ''g2''"
    "list_all (\<lambda>c. c_ConversationGroupID c = ''g1'' \<or> c_ConversationGroupID c = ''g2'') (db_conversations runStarted)" by code_simp+
  then have reach: "(startedIn runStarted)\<^sup>*\<^sup>* ''g1'' ''g2''"
    "\<forall>c \<in> set (db_conversations runStarted). c_ConversationGroupID c = ''g1'' \<or> c_ConversationGroupID c = ''g2''"
    by (auto simp: list_all_iff)
  from eviction_deletes_closure[OF inv, of "[''g1'']"] obtain groups d' where g:
      "LoadDeletedConversationGroups runStarted [''g1''] = Some groups"
      "d' = HardDeleteConversationGroups runStarted (map dg_ConversationGroupID groups)"
      "dg_ConversationGroupID ` set groups = {h. (startedIn runStarted)\<^sup>*\<^sup>* ''g1'' h}"
      "db_conversations d' = filter (\<lambda>c. \<not> (startedIn runStarted)\<^sup>*\<^sup>* ''g1'' (c_ConversationGroupID c)) (db_conversations runStarted)"
    by auto
  have "db_conversations d' = []" using reach unfolding g(4) filter_empty_conv by auto
  then show ?thesis using g(1,2,3) reach(1) by blast
qed

theorem access_change_authorised_witness:
  "accessOf runShared ''g1'' ''bob'' \<noteq> accessOf runCreated ''g1'' ''bob''
   \<and> (\<exists>access. requireAccess runCreated ''alice'' ''g1'' AccessLevelManager = Inr access)"
proof -
  have "isGroup runCreated ''g1''" "accessOf runShared ''g1'' ''bob'' \<noteq> accessOf runCreated ''g1'' ''bob''"
    "db_transfers runCreated = []" by code_simp+
  then show ?thesis using access_change_authorised[OF run_reachable(1) run_steps(2), of "''g1''" "''bob''"] by simp
qed

theorem accept_transfers_ownership_witness:
  "\<exists>d' t. AcceptTransfer runOffered 4 ''bob'' ''t1'' = Inr d' \<and> isOwner d' ''g1'' ''bob'' \<and> \<not> isOwner d' ''g1'' ''alice''
     \<and> t \<in> set (db_transfers runOffered) \<and> t \<notin> set (db_transfers d')"
proof -
  have "case AcceptTransfer runOffered 4 ''bob'' ''t1'' of Inl _ \<Rightarrow> False | Inr _ \<Rightarrow> True" by code_simp
  then obtain d' where d': "AcceptTransfer runOffered 4 ''bob'' ''t1'' = Inr d'" by (auto split: sum.splits)
  have "list_ex (\<lambda>t. t_ID t = ''t1'' \<and> t_ConversationGroupID t = ''g1'') (db_transfers runOffered)" by code_simp
  then obtain t where t: "t \<in> set (db_transfers runOffered)" "t_ID t = ''t1''" "t_ConversationGroupID t = ''g1''"
    by (auto simp: list_ex_iff)
  note own = accept_transfers_ownership[OF run_reachable(3), unfolded fst_conv, OF d' t(1,2), of "''g1''"]
  show ?thesis using own[of "''bob''"] own[of "''alice''"] t d' by fastforce
qed

theorem membership_pages_bounded_witness:
  "distinct (map m_CreatedAt (membersOf runShared ''g1''))
   \<and> ListMemberships runShared ''alice'' ''c1'' None 1 = Inr (take 1 (membersOf runShared ''g1''), Some ''alice'')
   \<and> ListMemberships runShared ''alice'' ''c1'' (Some ''alice'') 1 = Inr (take 1 (drop 1 (membersOf runShared ''g1'')), None)
   \<and> length (membersOf runShared ''g1'') = 2"
proof -
  have g: "getGroupID runShared ''alice'' ''c1'' AccessLevelReader = Inr ''g1''"
    "distinct (map membershipKey (db_memberships runShared))"
    and m: "distinct (map m_CreatedAt (membersOf runShared ''g1''))" "length (membersOf runShared ''g1'') = 2"
    "m_UserID (membersOf runShared ''g1'' ! 0) = ''alice''"
    by code_simp+
  show ?thesis using membership_pages_bounded[OF g, of 1 0] m by simp
qed

end
