(* ===== verification/Envelope.thy ===== *)
theory Envelope
  imports Prelude
begin

unbundle bit_operations_syntax

text \<open>
  The MSEH envelope of \<open>internal/dataencryption/mseh.go\<close>: a magic number, a variable-length integer, the
  protobuf header and the ciphertext; and the associated data that binds a field to its domain and id.
  Byte strings are \<open>string\<close>s, one character per byte. A reader is the bytes it has left. The protobuf codec of
  the header is a parameter.

  The lemmas show that reading a written header gives the header and the position after it, that the
  integer needs at most five bytes and fills the buffer it is given, and that the associated data of two
  fields is equal only when the header, the domain and the id are.
\<close>

section \<open>Bytes\<close>

text \<open>Go's conversion \<open>byte(v)\<close> keeps the low eight bits.\<close>

definition toByte :: "'a::len word \<Rightarrow> char" where
  "toByte w = char_of (unat w)"

definition byteVal :: "char \<Rightarrow> 8 word" where
  "byteVal c = word_of_nat (of_char c)"

definition zeroByte :: char where
  "zeroByte = CHR 0x00"

text \<open>\<open>copy(buf[i:], xs)\<close>.\<close>

definition copyAt :: "string \<Rightarrow> nat \<Rightarrow> string \<Rightarrow> string" where
  "copyAt buf i xs = take i buf @ take (length buf - i) xs @ drop (i + length xs) buf"

text \<open>\<open>io.ReadFull\<close> on a reader over bytes.\<close>

definition readFull :: "nat \<Rightarrow> string \<Rightarrow> (string \<times> string) option" where
  "readFull n src = (if length src < n then None else Some (take n src, drop n src))"

text \<open>\<open>binary.BigEndian.PutUint32\<close>, \<open>Uint32\<close> and \<open>PutUint64\<close>.\<close>

definition putUint32 :: "32 word \<Rightarrow> string" where
  "putUint32 v = [toByte (drop_bit 24 v), toByte (drop_bit 16 v), toByte (drop_bit 8 v), toByte v]"

definition putUint64 :: "64 word \<Rightarrow> string" where
  "putUint64 v = [toByte (drop_bit 56 v), toByte (drop_bit 48 v), toByte (drop_bit 40 v), toByte (drop_bit 32 v),
                  toByte (drop_bit 24 v), toByte (drop_bit 16 v), toByte (drop_bit 8 v), toByte v]"

definition getUint32 :: "string \<Rightarrow> 32 word" where
  "getUint32 b = push_bit 24 (ucast (byteVal (b ! 0))) OR push_bit 16 (ucast (byteVal (b ! 1)))
                 OR push_bit 8 (ucast (byteVal (b ! 2))) OR ucast (byteVal (b ! 3))"

section \<open>Variable-length integers\<close>

function putVarint32 :: "32 word \<Rightarrow> string" where
  "putVarint32 v =
     (if 0x80 \<le> v then toByte (ucast v OR 0x80 :: 8 word) # putVarint32 (drop_bit 7 v) else [toByte v])"
  by pat_completeness auto

lemma unat_drop7: "unat (drop_bit 7 v) = unat v div 128" for v :: "32 word"
  using unat_drop_bit_eq[of 7 v] by (simp only: drop_bit_eq_div[where 'a = nat]) simp

lemma drop7_less: "0x80 \<le> v \<Longrightarrow> unat (drop_bit 7 v) < unat v" for v :: "32 word"
proof -
  assume "0x80 \<le> v"
  then have "128 \<le> unat v" by (simp add: word_le_nat_alt)
  then show ?thesis by (simp add: unat_drop7)
qed

termination putVarint32
  by (relation "measure unat") (auto intro: drop7_less)

function varintLen :: "32 word \<Rightarrow> nat" where
  "varintLen v = (if 0x80 \<le> v then varintLen (drop_bit 7 v) + 1 else 1)"
  by pat_completeness auto
termination varintLen
  by (relation "measure unat") (auto intro: drop7_less)

declare putVarint32.simps [simp del] varintLen.simps [simp del]

fun readVarintLoop :: "nat \<Rightarrow> nat \<Rightarrow> 32 word \<Rightarrow> string \<Rightarrow> (32 word \<times> string) result" where
  "readVarintLoop 0 i v src = Inl (InternalError ''mseh: varint32 overflow'')"
| "readVarintLoop (Suc k) i v src =
     (case src of
        [] \<Rightarrow> Inl (InternalError ''EOF'')
      | b # rest \<Rightarrow>
          let v' = v OR push_bit (7 * i) (ucast (byteVal b AND 0x7F)) in
          if byteVal b AND 0x80 = 0 then Inr (v', rest) else readVarintLoop k (i + 1) v' rest)"

definition readVarint32 :: "string \<Rightarrow> (32 word \<times> string) result" where
  "readVarint32 r = readVarintLoop 5 0 0 r"

section \<open>The header\<close>

definition magic :: string where
  "magic = ''MSEH''"

definition VersionAttachmentStreamAESGCM :: "32 word" where
  "VersionAttachmentStreamAESGCM = 3"

definition VersionFieldAESGCM :: "32 word" where
  "VersionFieldAESGCM = 4"

record Header =
  h_Version :: "32 word"
  h_ProviderID :: string
  h_Nonce :: string

record HeaderCodec =
  hc_Marshal :: "Header \<Rightarrow> string option"
  hc_Unmarshal :: "string \<Rightarrow> Header option"

definition HasMagic :: "string \<Rightarrow> bool" where
  "HasMagic b \<longleftrightarrow> 4 \<le> length b \<and> b ! 0 = magic ! 0 \<and> b ! 1 = magic ! 1 \<and> b ! 2 = magic ! 2 \<and> b ! 3 = magic ! 3"

definition EncodeHeader :: "HeaderCodec \<Rightarrow> Header \<Rightarrow> string result" where
  "EncodeHeader hc h =
     (case hc_Marshal hc h of
        None \<Rightarrow> Inl (InternalError ''mseh: encoding header'')
      | Some protoBytes \<Rightarrow>
          let protoLen = word_of_nat (length protoBytes) :: 32 word;
              buf = replicate (4 + varintLen protoLen + length protoBytes) zeroByte;
              buf1 = copyAt buf 0 magic;
              varint = putVarint32 protoLen;
              buf2 = copyAt buf1 4 varint
          in Inr (copyAt buf2 (4 + length varint) protoBytes))"

definition WriteHeader :: "HeaderCodec \<Rightarrow> string \<Rightarrow> Header \<Rightarrow> string result" where
  "WriteHeader hc w h = andThen (EncodeHeader hc h) (\<lambda>buf. Inr (w @ buf))"

definition maxProtoLen :: "32 word" where
  "maxProtoLen = 4096"

text \<open>The three outcomes of \<open>ReadHeader\<close>: no magic, an error after the magic, a header with the bytes left.\<close>

datatype HeaderRead = NoMagic | HeaderError store_error | HeaderOK Header string

definition ReadHeader :: "HeaderCodec \<Rightarrow> string \<Rightarrow> HeaderRead" where
  "ReadHeader hc r =
     (case readFull 4 r of
        None \<Rightarrow> NoMagic
      | Some (mgc, r1) \<Rightarrow>
          if mgc \<noteq> magic then NoMagic
          else case readVarint32 r1 of
            Inl err \<Rightarrow> HeaderError (InternalError ''mseh: reading proto length'')
          | Inr (protoLen, r2) \<Rightarrow>
              if maxProtoLen < protoLen then HeaderError (InternalError ''mseh: proto length exceeds maximum'')
              else case readFull (unat protoLen) r2 of
                None \<Rightarrow> HeaderError (InternalError ''mseh: reading proto bytes'')
              | Some (protoBytes, r3) \<Rightarrow>
                  (case hc_Unmarshal hc protoBytes of
                     None \<Rightarrow> HeaderError (InternalError ''mseh: decoding header'')
                   | Some msg \<Rightarrow> HeaderOK msg r3))"

definition appendFrame :: "string \<Rightarrow> string \<Rightarrow> string" where
  "appendFrame out value = out @ putUint32 (word_of_nat (length value)) @ value"

definition FieldAAD :: "string \<Rightarrow> string \<Rightarrow> string \<Rightarrow> string" where
  "FieldAAD headerPrefix domain identity =
     (let out = appendFrame [] ''memory-service/mseh/v4/field'';
          out = appendFrame out headerPrefix;
          out = appendFrame out domain
      in appendFrame out identity)"

section \<open>Bytes restored\<close>

lemma byteVal_toByte: "byteVal (toByte w) = ucast w"
proof -
  have "(of_char (char_of (unat w)) :: nat) = unat w mod 256" by (simp add: of_char_of)
  then have "unat (byteVal (toByte w)) = unat (ucast w :: 8 word)"
    by (simp add: byteVal_def toByte_def unsigned_ucast_eq take_bit_eq_mod unsigned_of_nat)
  then show ?thesis by (simp only: word_unat_eq_iff)
qed

lemma toByte_ucast: "toByte v = toByte w \<Longrightarrow> (ucast v :: 8 word) = ucast w"
  by (metis byteVal_toByte)

lemma toByte_inj: "toByte (v :: 8 word) = toByte w \<longleftrightarrow> v = w"
  by (metis byteVal_toByte ucast_id)

lemma byte_masks: "bit (0x7F :: 8 word) i \<longleftrightarrow> i < 7" "bit (0x80 :: 8 word) i \<longleftrightarrow> i = 7"
proof -
  have "(0x7F :: 8 word) = mask 7" by (simp add: mask_eq_exp_minus_1)
  then show "bit (0x7F :: 8 word) i \<longleftrightarrow> i < 7" by (simp only: bit_mask_iff possible_bit_word) auto
  have "(0x80 :: 8 word) = 2 ^ 7" by simp
  then show "bit (0x80 :: 8 word) i \<longleftrightarrow> i = 7" by (auto simp only: bit_exp_iff) simp
qed

text \<open>The masks as variables, so that simplification does not evaluate their bits.\<close>

lemma high_bits_aux:
  fixes v :: "32 word" and low high :: "8 word"
  assumes "\<And>i. bit low i \<longleftrightarrow> i < 7" "\<And>i. bit high i \<longleftrightarrow> i = 7"
  shows "push_bit n (ucast ((ucast v OR high) AND low)) OR push_bit (7 + n) (drop_bit 7 v) = push_bit n v"
    and "bit ((ucast v OR high) AND high) 7"
proof -
  have "m - n < 7" if "bit v (m - n)" "\<not> bit v (7 + (m - (7 + n)))" for m
  proof (rule ccontr)
    assume "\<not> m - n < 7"
    then have "7 + (m - (7 + n)) = m - n" by arith
    with that show False by simp
  qed
  then show "push_bit n (ucast ((ucast v OR high) AND low)) OR push_bit (7 + n) (drop_bit 7 v) = push_bit n v"
    by (intro bit_word_eqI) (fastforce simp: bit_simps assms)
  show "bit ((ucast v OR high) AND high) 7" by (simp add: bit_simps assms)
qed

lemma low_bits_aux:
  fixes v :: "32 word" and low high :: "8 word"
  assumes "\<And>i. bit low i \<longleftrightarrow> i < 7" "\<And>i. bit high i \<longleftrightarrow> i = 7" and "\<And>i. bit v i \<Longrightarrow> i < 7"
  shows "ucast (ucast v AND low) = v" "ucast v AND high = 0"
  by (rule bit_word_eqI; use assms(3) in \<open>force simp: bit_simps assms(1,2)\<close>)+

lemma readVarint_bits:
  fixes v :: "32 word"
  shows "push_bit n (ucast ((ucast v OR 0x80 :: 8 word) AND 0x7F)) OR push_bit (7 + n) (drop_bit 7 v) = push_bit n v"
    and "(ucast v OR 0x80 :: 8 word) AND 0x80 \<noteq> 0"
  using high_bits_aux[where v = v, OF byte_masks] by (blast, metis bit_0_eq bot_apply bot_bool_def)

lemma low_bits:
  fixes v :: "32 word"
  assumes "v < 0x80"
  shows "ucast ((ucast v :: 8 word) AND 0x7F) = v" "(ucast v :: 8 word) AND 0x80 = 0"
proof -
  have "take_bit 7 v = v" using assms by (simp add: take_bit_eq_mask less_mask_eq)
  then have "bit v i \<Longrightarrow> i < 7" for i by (metis bit_take_bit_iff)
  then show "ucast ((ucast v :: 8 word) AND 0x7F) = v" "(ucast v :: 8 word) AND 0x80 = 0"
    using low_bits_aux[OF byte_masks, of v] by blast+
qed

lemma readVarintLoop_put:
  "length (putVarint32 v) \<le> k \<Longrightarrow> readVarintLoop k i acc (putVarint32 v @ rest) = Inr (acc OR push_bit (7 * i) v, rest)"
proof (induction v arbitrary: k i acc rule: putVarint32.induct)
  case (1 v)
  then obtain k' where k: "k = Suc k'" by (cases k) (auto simp: putVarint32.simps[of v] split: if_splits)
  show ?case
  proof (cases "0x80 \<le> v")
    case True
    then have "length (putVarint32 (drop_bit 7 v)) \<le> k'" using 1(2) k by (simp add: putVarint32.simps[of v])
    from 1(1)[OF True this] show ?thesis
      using True readVarint_bits(1)[of "7 * i" v] readVarint_bits(2)[of v]
      by (simp add: putVarint32.simps[of v] k byteVal_toByte or.assoc)
  next
    case False
    then show ?thesis using low_bits[of v] by (simp add: putVarint32.simps[of v] k byteVal_toByte)
  qed
qed

lemma length_putVarint32: "length (putVarint32 v) = varintLen v"
  by (induction v rule: putVarint32.induct) (simp add: putVarint32.simps varintLen.simps)

lemma varintLen_le: "unat v < 2 ^ (7 * (k + 1)) \<Longrightarrow> varintLen v \<le> k + 1"
proof (induction k arbitrary: v)
  case 0
  then show ?case by (simp add: varintLen.simps word_le_nat_alt)
next
  case (Suc k)
  have "unat (drop_bit 7 v) < 2 ^ (7 * (k + 1))"
    using Suc.prems by (simp add: unat_drop7 less_mult_imp_div_less power_add mult.commute)
  from Suc.IH[OF this] show ?case by (simp add: varintLen.simps[of v])
qed

lemma varintLen_max: "varintLen v \<le> 5"
proof -
  have "unat v < 2 ^ (7 * (4 + 1))" using unsigned_less[of v, where 'a = nat] by simp
  from varintLen_le[OF this] show ?thesis by simp
qed

text \<open>
  The integer of the envelope takes between one and five bytes, exactly as many as
  were reserved for it, and reading what was written returns the value and the bytes after it.
\<close>

theorem varint_round_trip:
  "length (putVarint32 v) = varintLen v \<and> 1 \<le> varintLen v \<and> varintLen v \<le> 5
   \<and> readVarint32 (putVarint32 v @ rest) = Inr (v, rest)"
  using length_putVarint32[of v] varintLen_max[of v] readVarintLoop_put[of v 5 0 0 rest]
  by (simp add: readVarint32_def varintLen.simps[of v])

section \<open>Fixed-width integers\<close>

lemma length_putUint [simp]: "length (putUint32 v) = 4" "length (putUint64 w) = 8"
  by (simp_all add: putUint32_def putUint64_def)

lemma bytes_join:
  fixes v :: "32 word"
  shows "push_bit 24 (ucast (ucast (drop_bit 24 v) :: 8 word)) OR push_bit 16 (ucast (ucast (drop_bit 16 v) :: 8 word))
     OR push_bit 8 (ucast (ucast (drop_bit 8 v) :: 8 word)) OR ucast (ucast v :: 8 word) = v" (is "?w = v")
proof (rule bit_word_eqI)
  fix n assume "n < LENGTH(32)"
  then consider "n < 8" | "8 \<le> n" "n < 16" | "16 \<le> n" "n < 24" | "24 \<le> n" "n < 32" by fastforce
  then show "bit ?w n = bit v n" by cases (auto simp: bit_simps le_add_diff_inverse)
qed

lemma getUint32_put: "getUint32 (putUint32 v) = v"
  by (simp add: getUint32_def putUint32_def byteVal_toByte bytes_join)

lemma putUint32_inj: "putUint32 v = putUint32 w \<longleftrightarrow> v = w"
  by (metis getUint32_put)

lemma putUint64_inj: "putUint64 v = putUint64 w \<longleftrightarrow> v = w"
proof
  assume eq: "putUint64 v = putUint64 w"
  then have b: "ucast (drop_bit k v) = (ucast (drop_bit k w) :: 8 word)" if "k \<in> {0, 8, 16, 24, 32, 40, 48, 56}" for k
    using that eq by (auto simp: putUint64_def intro: toByte_ucast)
  show "v = w"
  proof (rule bit_word_eqI)
    fix n assume n: "n < LENGTH(64)"
    have "n div 8 * 8 \<in> {0, 8, 16, 24, 32, 40, 48, 56}"
    proof -
      have "n div 8 < 8" using n by simp
      then have "n div 8 \<in> {0, 1, 2, 3, 4, 5, 6, 7}" by auto
      then show ?thesis by auto
    qed
    from b[OF this] have "bit (ucast (drop_bit (n div 8 * 8) v) :: 8 word) (n mod 8) = bit (ucast (drop_bit (n div 8 * 8) w) :: 8 word) (n mod 8)"
      by simp
    then show "bit v n = bit w n" by (simp add: bit_simps)
  qed
qed simp

section \<open>Headers restored\<close>

text \<open>The documented behaviour of the protobuf codec: unmarshalling restores what was marshalled.\<close>

definition headerCodecOK :: "HeaderCodec \<Rightarrow> bool" where
  "headerCodecOK hc \<longleftrightarrow> (\<forall>h b. hc_Marshal hc h = Some b \<longrightarrow> hc_Unmarshal hc b = Some h)"

lemma EncodeHeader_bytes:
  "EncodeHeader hc h =
     (case hc_Marshal hc h of None \<Rightarrow> Inl (InternalError ''mseh: encoding header'')
      | Some b \<Rightarrow> Inr (magic @ putVarint32 (word_of_nat (length b)) @ b))"
proof (cases "hc_Marshal hc h")
  case None
  then show ?thesis by (simp add: EncodeHeader_def)
next
  case (Some b)
  have "length magic = 4" by (simp add: magic_def)
  then show ?thesis by (simp add: EncodeHeader_def Some copyAt_def Let_def flip: length_putVarint32)
qed

lemma HasMagic_magic: "HasMagic (magic @ rest)"
  by (simp add: HasMagic_def magic_def nth_append)

lemma readFull_append: "n = length xs \<Longrightarrow> readFull n (xs @ rest) = Some (xs, rest)"
  by (simp add: readFull_def)

lemma ReadHeader_encoded:
  assumes "length b < 2 ^ 32"
  shows "ReadHeader hc (magic @ putVarint32 (word_of_nat (length b)) @ b @ rest) =
     (if 4096 < length b then HeaderError (InternalError ''mseh: proto length exceeds maximum'')
      else case hc_Unmarshal hc b of None \<Rightarrow> HeaderError (InternalError ''mseh: decoding header'') | Some h \<Rightarrow> HeaderOK h rest)"
proof -
  have len: "unat (word_of_nat (length b) :: 32 word) = length b" using assms by (simp add: unsigned_of_nat take_bit_nat_eq_self)
  have m: "readFull 4 (magic @ xs) = Some (magic, xs)" for xs by (rule readFull_append) (simp add: magic_def)
  have v: "readVarint32 (putVarint32 w @ xs) = Inr (w, xs)" for w xs
    using readVarintLoop_put[of w 5 0 0 xs] varintLen_max[of w] by (simp add: readVarint32_def length_putVarint32)
  have "maxProtoLen < (word_of_nat (length b) :: 32 word) \<longleftrightarrow> 4096 < length b"
    using len by (simp add: word_less_nat_alt maxProtoLen_def)
  then show ?thesis by (simp add: ReadHeader_def m v len readFull_append)
qed

text \<open>
  A written header starts with the magic number, and reading it from a stream
  returns the header and leaves the reader at the first byte after it, as long as its protobuf form is at
  most 4096 bytes; a longer one is refused by the reader.
\<close>

theorem header_round_trip:
  assumes "headerCodecOK hc" and "hc_Marshal hc h = Some b" and "length b < 2 ^ 32"
  shows "\<exists>buf. EncodeHeader hc h = Inr buf \<and> HasMagic (buf @ rest)
     \<and> ReadHeader hc (buf @ rest) =
         (if length b \<le> 4096 then HeaderOK h rest else HeaderError (InternalError ''mseh: proto length exceeds maximum''))"
  using assms ReadHeader_encoded[OF assms(3), of hc rest] HasMagic_magic
  by (auto simp: EncodeHeader_bytes headerCodecOK_def)

section \<open>Associated data\<close>

lemma frame_inj:
  assumes "length a < 2 ^ 32" and "length b < 2 ^ 32"
    and "putUint32 (word_of_nat (length a)) @ a @ r = putUint32 (word_of_nat (length b)) @ b @ s"
  shows "a = b \<and> r = s"
proof -
  have "putUint32 (word_of_nat (length a)) = putUint32 (word_of_nat (length b))" and ar: "a @ r = b @ s"
    using assms(3) by (simp_all add: append_eq_append_conv)
  then have "unat (word_of_nat (length a) :: 32 word) = unat (word_of_nat (length b) :: 32 word)" by (simp add: putUint32_inj)
  then have "length a = length b" using assms(1,2) by (simp add: unsigned_of_nat take_bit_nat_eq_self)
  then show ?thesis using ar by simp
qed

lemma FieldAAD_frames:
  "FieldAAD p d i = putUint32 (word_of_nat (length ''memory-service/mseh/v4/field'')) @ ''memory-service/mseh/v4/field''
     @ putUint32 (word_of_nat (length p)) @ p @ putUint32 (word_of_nat (length d)) @ d @ putUint32 (word_of_nat (length i)) @ i"
  by (simp only: FieldAAD_def appendFrame_def Let_def append_Nil append_assoc)

text \<open>
  Two fields have the same associated data only when their headers, domains and
  ids are the same, so a ciphertext authenticates for no other field.
\<close>

theorem field_aad_injective:
  assumes "length p < 2 ^ 32" "length d < 2 ^ 32" "length i < 2 ^ 32" "length p' < 2 ^ 32" "length d' < 2 ^ 32" "length i' < 2 ^ 32"
  shows "FieldAAD p d i = FieldAAD p' d' i' \<longleftrightarrow> p = p' \<and> d = d' \<and> i = i'"
proof
  assume "FieldAAD p d i = FieldAAD p' d' i'"
  then have "putUint32 (word_of_nat (length p)) @ p @ putUint32 (word_of_nat (length d)) @ d @ putUint32 (word_of_nat (length i)) @ i @ []
    = putUint32 (word_of_nat (length p')) @ p' @ putUint32 (word_of_nat (length d')) @ d' @ putUint32 (word_of_nat (length i')) @ i' @ []"
    unfolding FieldAAD_frames by simp
  with assms show "p = p' \<and> d = d' \<and> i = i'" by (metis frame_inj)
qed simp

section \<open>A sample header\<close>

definition sampleHeaderCodec :: HeaderCodec where
  "sampleHeaderCodec =
     \<lparr>hc_Marshal = (\<lambda>h. if length (h_ProviderID h) < 256
         then Some (putUint32 (h_Version h) @ char_of (length (h_ProviderID h)) # h_ProviderID h @ h_Nonce h) else None),
      hc_Unmarshal = (\<lambda>b. if length b < 5 then None
         else let n = of_char (b ! 4) in
              Some \<lparr>h_Version = getUint32 (take 4 b), h_ProviderID = take n (drop 5 b), h_Nonce = drop n (drop 5 b)\<rparr>)\<rparr>"

lemma sampleHeaderCodec_ok: "headerCodecOK sampleHeaderCodec"
  by (auto simp: headerCodecOK_def sampleHeaderCodec_def getUint32_put nth_append split: if_splits)

definition sampleHeader :: Header where
  "sampleHeader = \<lparr>h_Version = 4, h_ProviderID = ''dek'', h_Nonce = ''123456789012''\<rparr>"

theorem header_round_trip_witness:
  "\<exists>buf. EncodeHeader sampleHeaderCodec sampleHeader = Inr buf \<and> ReadHeader sampleHeaderCodec (buf @ ''rest'') = HeaderOK sampleHeader ''rest''"
proof -
  have "hc_Marshal sampleHeaderCodec sampleHeader = Some (putUint32 4 @ CHR 0x03 # ''dek123456789012'')" by code_simp
  from header_round_trip[OF sampleHeaderCodec_ok this, of "''rest''"] show ?thesis by auto
qed

theorem field_aad_injective_witness:
  "FieldAAD ''MSEH'' ''entry.content'' ''e1'' \<noteq> FieldAAD ''MSEH'' ''entry.content'' ''e2''
   \<and> FieldAAD ''MSEH'' ''entry'' ''.content'' \<noteq> FieldAAD ''MSEH'' ''entry.'' ''content''"
  by (simp add: field_aad_injective)

end
