(* ===== verification/Dek.thy ===== *)
theory Dek
  imports Envelope Database
begin

text \<open>
  The providers \<open>dek\<close> (\<open>internal/plugin/encrypt/dek/dek.go\<close>) and \<open>plain\<close> for persisted fields, and the
  encryption service of \<open>internal/dataencryption/service.go\<close>, which encrypts with its primary provider and
  routes decryption by the provider named in the envelope. AES-GCM is a parameter, random bytes are
  arguments.

  The lemmas show that a field is restored by the service that wrote it and after a key rotation, that the
  service with \<open>dek\<close> as primary is a cipher in the sense the store relies on, and that with \<open>plain\<close> as
  primary a value that begins with the magic number is not restored.
\<close>

section \<open>Authenticated encryption\<close>

record AEAD =
  a_Seal :: "string \<Rightarrow> string \<Rightarrow> string \<Rightarrow> string"
  a_Open :: "string \<Rightarrow> string \<Rightarrow> string \<Rightarrow> string option"
  a_Overhead :: nat

text \<open>The documented behaviour of a GCM instance: what was sealed opens, and is longer by the overhead.\<close>

definition aeadOK :: "AEAD \<Rightarrow> bool" where
  "aeadOK a \<longleftrightarrow> (\<forall>n p d. a_Open a n (a_Seal a n p d) d = Some p \<and> length (a_Seal a n p d) = length p + a_Overhead a)"

section \<open>The dek provider\<close>

definition gcmNonceSize :: nat where
  "gcmNonceSize = 12"

record dekProvider =
  dp_primaryKey :: string
  dp_legacyKeys :: "string list"

definition dekEncryptField ::
  "(string \<Rightarrow> AEAD result) \<Rightarrow> HeaderCodec \<Rightarrow> dekProvider \<Rightarrow> string \<Rightarrow> string \<Rightarrow> string \<Rightarrow> string \<Rightarrow> string result" where
  "dekEncryptField newGCM hc p iv plaintext domain identity =
     andThen (newGCM (dp_primaryKey p)) (\<lambda>gcm.
     andThen (EncodeHeader hc \<lparr>h_Version = VersionFieldAESGCM, h_ProviderID = ''dek'', h_Nonce = iv\<rparr>) (\<lambda>headerPrefix.
       let aad = FieldAAD headerPrefix domain identity;
           ciphertext = a_Seal gcm iv plaintext aad
       in Inr (headerPrefix @ ciphertext)))"

fun openLoop :: "(string \<Rightarrow> AEAD result) \<Rightarrow> string \<Rightarrow> string \<Rightarrow> string \<Rightarrow> string list \<Rightarrow> string result" where
  "openLoop newGCM iv payload aad [] = Inl (InternalError ''dek: decryption failed with all keys'')"
| "openLoop newGCM iv payload aad (key # keys) =
     (case newGCM key of
        Inl err \<Rightarrow> openLoop newGCM iv payload aad keys
      | Inr gcm \<Rightarrow> (case a_Open gcm iv payload aad of
                       Some plain \<Rightarrow> Inr plain
                     | None \<Rightarrow> openLoop newGCM iv payload aad keys))"

definition gcmOpenWithAAD :: "(string \<Rightarrow> AEAD result) \<Rightarrow> dekProvider \<Rightarrow> string \<Rightarrow> string \<Rightarrow> string \<Rightarrow> string result" where
  "gcmOpenWithAAD newGCM p iv payload aad = openLoop newGCM iv payload aad (dp_primaryKey p # dp_legacyKeys p)"

text \<open>After \<open>HasMagic\<close> the header is never absent.\<close>

definition dekDecryptField ::
  "(string \<Rightarrow> AEAD result) \<Rightarrow> HeaderCodec \<Rightarrow> dekProvider \<Rightarrow> string \<Rightarrow> string \<Rightarrow> string \<Rightarrow> string result" where
  "dekDecryptField newGCM hc p ciphertext domain identity =
     (if \<not> HasMagic ciphertext then Inl (InternalError ''dek: expected MSEH envelope'')
      else case ReadHeader hc ciphertext of
        NoMagic \<Rightarrow> Inl (InternalError ''nil header'')
      | HeaderError err \<Rightarrow> Inl err
      | HeaderOK h r \<Rightarrow>
          if h_Version h \<noteq> VersionFieldAESGCM then Inl (InternalError ''dek: unsupported MSEH field version'')
          else
            let headerPrefix = take (length ciphertext - length r) ciphertext
            in gcmOpenWithAAD newGCM p (h_Nonce h) r (FieldAAD headerPrefix domain identity))"

section \<open>The service\<close>

text \<open>
  A provider as the service sees it: its id and its two field operations. \<open>byID\<close> is the map from ids to
  providers, which always holds the primary.
\<close>

record Provider =
  pv_ID :: string
  pv_EncryptField :: "string \<Rightarrow> string \<Rightarrow> string \<Rightarrow> string result"
  pv_DecryptField :: "string \<Rightarrow> string \<Rightarrow> string \<Rightarrow> string result"

record Service =
  sv_primary :: Provider
  sv_byID :: "string \<Rightarrow> Provider option"

definition plainProvider :: Provider where
  "plainProvider = \<lparr>pv_ID = ''plain'', pv_EncryptField = (\<lambda>plaintext _ _. Inr plaintext),
                    pv_DecryptField = (\<lambda>ciphertext _ _. Inr ciphertext)\<rparr>"

definition dekAsProvider ::
  "(string \<Rightarrow> AEAD result) \<Rightarrow> HeaderCodec \<Rightarrow> (string \<Rightarrow> string \<Rightarrow> string \<Rightarrow> string) \<Rightarrow> dekProvider \<Rightarrow> Provider" where
  "dekAsProvider newGCM hc iv p =
     \<lparr>pv_ID = ''dek'',
      pv_EncryptField = (\<lambda>plaintext domain identity. dekEncryptField newGCM hc p (iv plaintext domain identity) plaintext domain identity),
      pv_DecryptField = dekDecryptField newGCM hc p\<rparr>"

fun loadProviders :: "(string \<Rightarrow> Provider result) \<Rightarrow> string list \<Rightarrow> Provider option \<Rightarrow> (string \<Rightarrow> Provider option)
    \<Rightarrow> (Provider option \<times> (string \<Rightarrow> Provider option)) result" where
  "loadProviders load [] primary byID = Inr (primary, byID)"
| "loadProviders load (name # names) primary byID =
     (if name = [] then loadProviders load names primary byID
      else andThen (load name) (\<lambda>provider.
        loadProviders load names (if primary = None then Some provider else primary) (byID(pv_ID provider \<mapsto> provider))))"

text \<open>\<open>strings.Split(s, ",")\<close>.\<close>

fun splitComma :: "string \<Rightarrow> string \<Rightarrow> string list" where
  "splitComma acc [] = [rev acc]"
| "splitComma acc (c # cs) = (if c = CHR '','' then rev acc # splitComma [] cs else splitComma (c # acc) cs)"

text \<open>
  \<open>New\<close>. The first provider that loads is the primary: the loop's test \<open>i == 0 || svc.primary == nil\<close> holds
  for it and for no later one. \<open>load\<close> stands for \<open>encrypt.Select\<close> with the loader of the plugin.
\<close>

definition newService :: "(string \<Rightarrow> Provider result) \<Rightarrow> string \<Rightarrow> Service result" where
  "newService load providers =
     andThen (loadProviders load (map TrimSpace (splitComma [] providers)) None Map.empty) (\<lambda>(primary, byID).
       case primary of
         None \<Rightarrow> Inl (InternalError ''no encryption providers configured in MEMORY_SERVICE_ENCRYPTION_KIND'')
       | Some p \<Rightarrow> Inr \<lparr>sv_primary = p, sv_byID = byID\<rparr>)"

definition IsPrimaryReal :: "Service \<Rightarrow> bool" where
  "IsPrimaryReal s \<longleftrightarrow> pv_ID (sv_primary s) \<noteq> ''plain''"

definition serviceEncryptField :: "Service \<Rightarrow> string \<Rightarrow> string \<Rightarrow> string \<Rightarrow> string result" where
  "serviceEncryptField s plaintext domain identity = pv_EncryptField (sv_primary s) plaintext domain identity"

definition serviceDecryptField :: "HeaderCodec \<Rightarrow> Service \<Rightarrow> string \<Rightarrow> string \<Rightarrow> string \<Rightarrow> string result" where
  "serviceDecryptField hc s ciphertext domain identity =
     (if HasMagic ciphertext then
        (case ReadHeader hc ciphertext of
           NoMagic \<Rightarrow> Inl (InternalError ''nil header'')
         | HeaderError err \<Rightarrow> Inl err
         | HeaderOK h r \<Rightarrow>
             (case sv_byID s (h_ProviderID h) of
                None \<Rightarrow> Inl (InternalError ''dataencryption: unknown provider in MSEH header'')
              | Some provider \<Rightarrow>
                  if h_Version h \<noteq> VersionFieldAESGCM then Inl (InternalError ''dataencryption: unsupported MSEH field envelope'')
                  else pv_DecryptField provider ciphertext domain identity))
      else if pv_ID (sv_primary s) \<noteq> ''plain'' then Inl (InternalError ''dataencryption: expected MSEH field envelope'')
      else pv_DecryptField (sv_primary s) ciphertext domain identity)"

definition serviceCipher :: "HeaderCodec \<Rightarrow> Service \<Rightarrow> FieldCipher" where
  "serviceCipher hc s = \<lparr>EncryptField = serviceEncryptField s, DecryptField = serviceDecryptField hc s\<rparr>"

section \<open>Fields restored\<close>

lemma aeadOK_open: "aeadOK a \<Longrightarrow> a_Open a n (a_Seal a n p d) d = Some p"
  by (simp add: aeadOK_def)

definition keyRejects :: "(string \<Rightarrow> AEAD result) \<Rightarrow> string \<Rightarrow> string \<Rightarrow> string \<Rightarrow> string \<Rightarrow> bool" where
  "keyRejects newGCM iv payload aad key \<longleftrightarrow> (case newGCM key of Inl _ \<Rightarrow> True | Inr gcm \<Rightarrow> a_Open gcm iv payload aad = None)"

lemma openLoop_skip:
  "list_all (keyRejects newGCM iv payload aad) pre \<Longrightarrow>
   openLoop newGCM iv payload aad (pre @ keys) = openLoop newGCM iv payload aad keys"
  by (induction pre) (auto simp: keyRejects_def split: sum.splits)

definition fieldHeader :: "string \<Rightarrow> Header" where
  "fieldHeader iv = \<lparr>h_Version = VersionFieldAESGCM, h_ProviderID = ''dek'', h_Nonce = iv\<rparr>"

text \<open>The protobuf header of a field, whose nonce has \<open>gcmNonceSize\<close> bytes, fits the reader's limit.\<close>

definition smallHeaders :: "HeaderCodec \<Rightarrow> bool" where
  "smallHeaders hc \<longleftrightarrow>
     (\<forall>iv b. length iv = gcmNonceSize \<and> hc_Marshal hc (fieldHeader iv) = Some b \<longrightarrow> length b \<le> 4096)"

lemma dekEncrypt_cases:
  assumes "dekEncryptField newGCM hc p iv plaintext domain identity = Inr c" and "headerCodecOK hc" and "smallHeaders hc" and "length iv = gcmNonceSize"
  obtains a prefix where "newGCM (dp_primaryKey p) = Inr a" "HasMagic c"
    "c = prefix @ a_Seal a iv plaintext (FieldAAD prefix domain identity)"
    "ReadHeader hc c = HeaderOK (fieldHeader iv) (a_Seal a iv plaintext (FieldAAD prefix domain identity))"
proof -
  obtain a prefix where a: "newGCM (dp_primaryKey p) = Inr a" "EncodeHeader hc (fieldHeader iv) = Inr prefix"
    and c: "c = prefix @ a_Seal a iv plaintext (FieldAAD prefix domain identity)"
    using assms(1) by (auto simp: dekEncryptField_def andThen_eq_Inr fieldHeader_def Let_def)
  obtain b where b: "hc_Marshal hc (fieldHeader iv) = Some b" "prefix = magic @ putVarint32 (word_of_nat (length b)) @ b"
    using a(2) by (auto simp: EncodeHeader_bytes split: option.splits)
  have "length b \<le> 4096" "hc_Unmarshal hc b = Some (fieldHeader iv)"
    using b(1) assms(2-4) by (auto simp: smallHeaders_def headerCodecOK_def)
  then have "ReadHeader hc (prefix @ rest) = HeaderOK (fieldHeader iv) rest" for rest
    using ReadHeader_encoded[of b hc rest] by (simp add: b(2))
  then show thesis using that[OF a(1) _ c] HasMagic_magic c b(2) by auto
qed

lemma dekDecrypt_restores:
  assumes "dekEncryptField newGCM hc p iv plaintext domain identity = Inr c" and "headerCodecOK hc" and "smallHeaders hc" and "length iv = gcmNonceSize"
    and "\<And>a. newGCM (dp_primaryKey p) = Inr a \<Longrightarrow> aeadOK a"
    and "dp_primaryKey q # dp_legacyKeys q = pre @ dp_primaryKey p # post"
    and "\<And>h r. ReadHeader hc c = HeaderOK h r \<Longrightarrow>
      list_all (keyRejects newGCM iv r (FieldAAD (take (length c - length r) c) domain identity)) pre"
  shows "dekDecryptField newGCM hc q c domain identity = Inr plaintext"
proof -
  obtain a prefix where a: "newGCM (dp_primaryKey p) = Inr a" "HasMagic c"
    and c: "c = prefix @ a_Seal a iv plaintext (FieldAAD prefix domain identity)"
    and r: "ReadHeader hc c = HeaderOK (fieldHeader iv) (a_Seal a iv plaintext (FieldAAD prefix domain identity))"
    using assms(1-4) by (rule dekEncrypt_cases)
  let ?s = "a_Seal a iv plaintext (FieldAAD prefix domain identity)"
  have pre: "take (length c - length ?s) c = prefix" by (simp add: c)
  have "openLoop newGCM iv ?s (FieldAAD prefix domain identity) (pre @ dp_primaryKey p # post) = Inr plaintext"
    using openLoop_skip[OF assms(7)[OF r, unfolded pre]] aeadOK_open[OF assms(5)[OF a(1)]] by (simp add: a(1))
  then show ?thesis
    using a(2) r pre by (simp add: dekDecryptField_def gcmOpenWithAAD_def fieldHeader_def assms(6))
qed

text \<open>
  A field encrypted by a \<open>dek\<close> provider is restored by every provider that
  has its key, at whatever place among its keys, provided the keys before it reject the ciphertext.
\<close>

theorem field_survives_rotation:
  assumes "dekEncryptField newGCM hc p iv plaintext domain identity = Inr c" and "headerCodecOK hc" and "smallHeaders hc" and "length iv = gcmNonceSize"
    and "newGCM (dp_primaryKey p) = Inr a" and "aeadOK a"
    and "dp_primaryKey q # dp_legacyKeys q = pre @ dp_primaryKey p # post"
    and "ReadHeader hc c = HeaderOK h r"
    and "list_all (keyRejects newGCM iv r (FieldAAD (take (length c - length r) c) domain identity)) pre"
  shows "dekDecryptField newGCM hc q c domain identity = Inr plaintext"
  using assms by (intro dekDecrypt_restores[OF assms(1-4) _ assms(7)]) auto

section \<open>The service as a cipher\<close>

text \<open>
  What the service asks of a provider: its ciphertexts are envelopes that name it, with the field version,
  and it restores them.
\<close>

definition providerOK :: "HeaderCodec \<Rightarrow> Provider \<Rightarrow> bool" where
  "providerOK hc pv \<longleftrightarrow>
     (\<forall>plain domain ident c. pv_EncryptField pv plain domain ident = Inr c \<longrightarrow>
        HasMagic c \<and> pv_DecryptField pv c domain ident = Inr plain
        \<and> (\<exists>h r. ReadHeader hc c = HeaderOK h r \<and> h_ProviderID h = pv_ID pv \<and> h_Version h = VersionFieldAESGCM))"

lemma dek_providerOK:
  assumes "headerCodecOK hc" and "smallHeaders hc" and "\<And>x y z. length (iv x y z) = gcmNonceSize"
    and "\<And>a. newGCM (dp_primaryKey p) = Inr a \<Longrightarrow> aeadOK a"
  shows "providerOK hc (dekAsProvider newGCM hc iv p)"
  unfolding providerOK_def
proof (intro allI impI)
  fix plain domain ident c assume "pv_EncryptField (dekAsProvider newGCM hc iv p) plain domain ident = Inr c"
  then have e: "dekEncryptField newGCM hc p (iv plain domain ident) plain domain ident = Inr c" by (simp add: dekAsProvider_def)
  obtain a prefix where f: "newGCM (dp_primaryKey p) = Inr a" "HasMagic c"
      "c = prefix @ a_Seal a (iv plain domain ident) plain (FieldAAD prefix domain ident)"
      "ReadHeader hc c = HeaderOK (fieldHeader (iv plain domain ident)) (a_Seal a (iv plain domain ident) plain (FieldAAD prefix domain ident))"
    using e assms(1,2,3) by (rule dekEncrypt_cases)
  have "dekDecryptField newGCM hc p c domain ident = Inr plain"
    using dekDecrypt_restores[OF e assms(1,2,3,4), of p "[]"] by simp
  then show "HasMagic c \<and> pv_DecryptField (dekAsProvider newGCM hc iv p) c domain ident = Inr plain
      \<and> (\<exists>h r. ReadHeader hc c = HeaderOK h r \<and> h_ProviderID h = pv_ID (dekAsProvider newGCM hc iv p) \<and> h_Version h = VersionFieldAESGCM)"
    using f(2,4) by (simp add: dekAsProvider_def fieldHeader_def)
qed

definition loadedBy :: "(string \<Rightarrow> Provider result) \<Rightarrow> Provider option \<Rightarrow> (string \<Rightarrow> Provider option) \<Rightarrow> bool" where
  "loadedBy load primary byID \<longleftrightarrow>
     (\<forall>p. primary = Some p \<longrightarrow> byID (pv_ID p) = Some p \<and> (\<exists>n. load n = Inr p))"

text \<open>Two loaders with one provider id give one provider.\<close>

definition uniqueIDs :: "(string \<Rightarrow> Provider result) \<Rightarrow> bool" where
  "uniqueIDs load \<longleftrightarrow> (\<forall>n m p q. load n = Inr p \<and> load m = Inr q \<and> pv_ID p = pv_ID q \<longrightarrow> p = q)"

lemma loadProviders_loadedBy:
  assumes "uniqueIDs load"
  shows "loadProviders load names primary byID = Inr (primary', byID') \<Longrightarrow> loadedBy load primary byID \<Longrightarrow> loadedBy load primary' byID'"
proof (induction names arbitrary: primary byID)
  case Nil
  then show ?case by simp
next
  case (Cons name names)
  show ?case
  proof (cases "name = []")
    case True
    then show ?thesis using Cons by simp
  next
    case False
    then obtain pv where pv: "load name = Inr pv"
      "loadProviders load names (if primary = None then Some pv else primary) (byID(pv_ID pv \<mapsto> pv)) = Inr (primary', byID')"
      using Cons.prems(1) by (auto simp: andThen_eq_Inr)
    have "loadedBy load (if primary = None then Some pv else primary) (byID(pv_ID pv \<mapsto> pv))"
    proof (cases primary)
      case None
      then show ?thesis using pv(1) by (auto simp: loadedBy_def)
    next
      case (Some q)
      then obtain n where "byID (pv_ID q) = Some q" "load n = Inr q" using Cons.prems(2) by (auto simp: loadedBy_def)
      moreover from this have "pv_ID pv = pv_ID q \<Longrightarrow> pv = q" using assms pv(1) unfolding uniqueIDs_def by blast
      ultimately show ?thesis using Some by (auto simp: loadedBy_def)
    qed
    then show ?thesis using Cons.IH[OF pv(2)] by blast
  qed
qed

lemma newService_primary:
  assumes "uniqueIDs load" and "newService load providers = Inr s"
  shows "sv_byID s (pv_ID (sv_primary s)) = Some (sv_primary s)" "\<exists>n. load n = Inr (sv_primary s)"
proof -
  obtain primary byID p where l: "loadProviders load (map TrimSpace (splitComma [] providers)) None Map.empty = Inr (primary, byID)"
    and s: "primary = Some p" "s = \<lparr>sv_primary = p, sv_byID = byID\<rparr>"
    using assms(2) by (auto simp: newService_def andThen_eq_Inr split: option.splits)
  have "loadedBy load primary byID" using loadProviders_loadedBy[OF assms(1) l] by (simp add: loadedBy_def)
  then show "sv_byID s (pv_ID (sv_primary s)) = Some (sv_primary s)" "\<exists>n. load n = Inr (sv_primary s)"
    by (simp_all add: loadedBy_def s)
qed

text \<open>
  C21 (service_is_cipher): a service that \<open>New\<close> builds with a \<open>dek\<close> provider first restores every field it
  encrypted, for every choice of 12-byte nonces and whichever further providers it has; it is a cipher in the
  sense of the store's hypothesis on \<open>s.enc\<close>.
\<close>

theorem service_is_cipher:
  assumes "headerCodecOK hc" and "smallHeaders hc" and "newGCM (dp_primaryKey p) = Inr a" and "aeadOK a"
    and "uniqueIDs load" and "newService load providers = Inr s" and "sv_primary s = dekAsProvider newGCM hc iv p"
    and "\<And>plain domain ident. length (iv plain domain ident) = gcmNonceSize"
  shows "cipherOK (Some (serviceCipher hc s))"
proof -
  have "providerOK hc (sv_primary s)" unfolding assms(7) using assms(1-4,8) by (intro dek_providerOK) simp_all
  moreover note newService_primary(1)[OF assms(5,6)]
  ultimately show ?thesis
    by (fastforce simp: cipherOK_def serviceCipher_def serviceEncryptField_def serviceDecryptField_def providerOK_def)
qed

text \<open>A registry that knows the provider \<open>plain\<close> only.\<close>

definition plainLoader :: "string \<Rightarrow> Provider result" where
  "plainLoader name = (if name = ''plain'' then Inr plainProvider else Inl (InternalError ''unknown encryption provider''))"

lemma loadProviders_plain:
  assumes "\<And>n p. load n = Inr p \<Longrightarrow> p = plainProvider"
  shows "loadProviders load names primary byID = Inr (primary', byID') \<Longrightarrow>
     (\<forall>p. primary = Some p \<longrightarrow> p = plainProvider) \<Longrightarrow> (\<forall>i p. byID i = Some p \<longrightarrow> i = ''plain'' \<and> p = plainProvider) \<Longrightarrow>
     (\<forall>p. primary' = Some p \<longrightarrow> p = plainProvider) \<and> (\<forall>i p. byID' i = Some p \<longrightarrow> i = ''plain'' \<and> p = plainProvider)"
proof (induction names arbitrary: primary byID)
  case (Cons name names)
  show ?case
  proof (cases "name = []")
    case False
    then obtain pv where pv: "load name = Inr pv"
      "loadProviders load names (if primary = None then Some pv else primary) (byID(pv_ID pv \<mapsto> pv)) = Inr (primary', byID')"
      using Cons.prems(1) by (auto simp: andThen_eq_Inr)
    have p: "pv = plainProvider" and i: "pv_ID pv = ''plain''" using assms[OF pv(1)] by (simp_all add: plainProvider_def)
    have "\<forall>q. (if primary = None then Some pv else primary) = Some q \<longrightarrow> q = plainProvider"
      using Cons.prems(2) p by (cases primary) simp_all
    moreover have "\<forall>j q. (byID(pv_ID pv \<mapsto> pv)) j = Some q \<longrightarrow> j = ''plain'' \<and> q = plainProvider"
      unfolding i using Cons.prems(3) p by (simp add: fun_upd_def)
    ultimately show ?thesis by (rule Cons.IH[OF pv(2)])
  next
    case True
    then have "loadProviders load names primary byID = Inr (primary', byID')" using Cons.prems(1) by simp
    then show ?thesis using Cons.prems(2,3) by (rule Cons.IH)
  qed
qed simp

text \<open>
  C40 (plain_restores_iff): with \<open>plain\<close> as the only provider a title is stored as it is, and it is read back
  exactly when it does not begin with the magic number or happens to form an envelope that names \<open>plain\<close>
  and has the field version; every other title that begins with the magic number is stored, and reading
  it fails.
\<close>

theorem plain_restores_iff:
  assumes "\<forall>n p. load n = Inr p \<longrightarrow> p = plainProvider" and "newService load providers = Inr s"
  shows "encryptConversationTitle (Some (serviceCipher hc s)) cid title = Inr title
    \<and> (if HasMagic title \<and> \<not> (\<exists>h r. ReadHeader hc title = HeaderOK h r \<and> h_ProviderID h = ''plain'' \<and> h_Version h = VersionFieldAESGCM)
       then \<exists>err. decryptConversationTitle (Some (serviceCipher hc s)) cid (Some title) = Inl err
       else decryptConversationTitle (Some (serviceCipher hc s)) cid (Some title) = Inr title)"
proof -
  obtain primary byID p where l: "loadProviders load (map TrimSpace (splitComma [] providers)) None Map.empty = Inr (primary, byID)"
    and s: "primary = Some p" "s = \<lparr>sv_primary = p, sv_byID = byID\<rparr>"
    using assms(2) by (auto simp: newService_def andThen_eq_Inr split: option.splits)
  have p: "p = plainProvider" and b: "\<And>i q. byID i = Some q \<Longrightarrow> i = ''plain'' \<and> q = plainProvider"
    using loadProviders_plain[OF _ l] assms(1) s(1) by auto
  have "\<forall>n m p q. load n = Inr p \<and> load m = Inr q \<and> pv_ID p = pv_ID q \<longrightarrow> p = q" using assms(1) by blast
  then have "byID ''plain'' = Some plainProvider"
    using newService_primary(1)[OF _ assms(2)] s p by (simp add: uniqueIDs_def plainProvider_def)
  moreover have "byID i = None" if "i \<noteq> ''plain''" for i using b that by (cases "byID i") auto
  ultimately show ?thesis
    by (auto simp: encryptConversationTitle_def decryptConversationTitle_def serviceCipher_def serviceEncryptField_def
        serviceDecryptField_def s(2) p plainProvider_def split: HeaderRead.splits option.splits)
qed

section \<open>Samples\<close>

text \<open>Ciphers and providers for which the hypotheses hold.\<close>

lemma sampleHeaderCodec_small: "smallHeaders sampleHeaderCodec"
  by (auto simp: smallHeaders_def sampleHeaderCodec_def fieldHeader_def gcmNonceSize_def split: if_splits)

text \<open>A cipher that appends key and associated data in place of a tag.\<close>

definition sampleGCM :: "string \<Rightarrow> AEAD result" where
  "sampleGCM key = Inr \<lparr>a_Seal = (\<lambda>n p d. p @ take 16 (key @ replicate 16 zeroByte)),
     a_Open = (\<lambda>n c d. if 16 \<le> length c \<and> drop (length c - 16) c = take 16 (key @ replicate 16 zeroByte)
                        then Some (take (length c - 16) c) else None),
     a_Overhead = 16\<rparr>"

lemma sampleGCM_ok: "sampleGCM key = Inr a \<Longrightarrow> aeadOK a"
  by (auto simp: sampleGCM_def aeadOK_def)

definition sampleDek :: dekProvider where
  "sampleDek = \<lparr>dp_primaryKey = ''key-one'', dp_legacyKeys = []\<rparr>"

definition rotatedDek :: dekProvider where
  "rotatedDek = \<lparr>dp_primaryKey = ''key-two'', dp_legacyKeys = [''key-one'']\<rparr>"

definition sampleField :: string where
  "sampleField = projr (dekEncryptField sampleGCM sampleHeaderCodec sampleDek ''123456789012'' ''hello'' ''entry.content'' ''e1'')"

theorem plain_restores_iff_witness:
  "\<exists>s err. newService plainLoader ''plain'' = Inr s
     \<and> encryptConversationTitle (Some (serviceCipher sampleHeaderCodec s)) ''c1'' ''MSEH notes'' = Inr ''MSEH notes''
     \<and> decryptConversationTitle (Some (serviceCipher sampleHeaderCodec s)) ''c1'' (Some ''MSEH notes'') = Inl err
     \<and> decryptConversationTitle (Some (serviceCipher sampleHeaderCodec s)) ''c1'' (Some ''notes'') = Inr ''notes''"
proof -
  obtain s where new: "newService plainLoader ''plain'' = Inr s"
    by (simp add: newService_def TrimSpace_def isSpace_def plainLoader_def plainProvider_def)
  have only: "\<forall>n p. plainLoader n = Inr p \<longrightarrow> p = plainProvider" by (simp add: plainLoader_def split: if_splits)
  have m: "HasMagic ''MSEH notes''" "\<not> HasMagic ''notes''"
    "(case ReadHeader sampleHeaderCodec ''MSEH notes'' of HeaderOK h r \<Rightarrow> False | _ \<Rightarrow> True)" by code_simp+
  then have "\<nexists>h r. ReadHeader sampleHeaderCodec ''MSEH notes'' = HeaderOK h r" by (auto split: HeaderRead.splits)
  moreover note p = plain_restores_iff[OF only new, of sampleHeaderCodec "''c1''"]
  ultimately have "\<exists>err. decryptConversationTitle (Some (serviceCipher sampleHeaderCodec s)) ''c1'' (Some ''MSEH notes'') = Inl err"
    using m(1) by presburger
  moreover have "decryptConversationTitle (Some (serviceCipher sampleHeaderCodec s)) ''c1'' (Some ''notes'') = Inr ''notes''"
    using p[of "''notes''"] m(2) by presburger
  ultimately show ?thesis using new p[of "''MSEH notes''"] by blast
qed

theorem field_survives_rotation_witness:
  "dekDecryptField sampleGCM sampleHeaderCodec rotatedDek sampleField ''entry.content'' ''e1'' = Inr ''hello''"
proof -
  let ?enc = "dekEncryptField sampleGCM sampleHeaderCodec sampleDek ''123456789012'' ''hello'' ''entry.content'' ''e1''"
  have "case ?enc of Inl _ \<Rightarrow> False | Inr _ \<Rightarrow> True" by code_simp
  then have e: "?enc = Inr sampleField" by (auto simp: sampleField_def split: sum.splits)
  have "case ReadHeader sampleHeaderCodec sampleField of HeaderOK h r \<Rightarrow>
      list_all (keyRejects sampleGCM ''123456789012'' r (FieldAAD (take (length sampleField - length r) sampleField) ''entry.content'' ''e1'')) [''key-two'']
    | _ \<Rightarrow> False" by code_simp
  then obtain h r where r: "ReadHeader sampleHeaderCodec sampleField = HeaderOK h r"
      "list_all (keyRejects sampleGCM ''123456789012'' r (FieldAAD (take (length sampleField - length r) sampleField) ''entry.content'' ''e1'')) [''key-two'']"
    by (auto split: HeaderRead.splits)
  obtain a where a: "sampleGCM (dp_primaryKey sampleDek) = Inr a" by (simp add: sampleGCM_def)
  have "dp_primaryKey rotatedDek # dp_legacyKeys rotatedDek = [''key-two''] @ dp_primaryKey sampleDek # []"
    by (simp add: rotatedDek_def sampleDek_def)
  from field_survives_rotation[OF e sampleHeaderCodec_ok sampleHeaderCodec_small _ a sampleGCM_ok[OF a] this r] show ?thesis
    by (simp add: gcmNonceSize_def)
qed

definition sampleDekProvider :: Provider where
  "sampleDekProvider = dekAsProvider sampleGCM sampleHeaderCodec (\<lambda>_ _ _. ''123456789012'') sampleDek"

definition sampleLoader :: "string \<Rightarrow> Provider result" where
  "sampleLoader name = (if name = ''dek'' then Inr sampleDekProvider else plainLoader name)"

theorem service_is_cipher_witness:
  "\<exists>s. newService sampleLoader ''dek, plain'' = Inr s \<and> sv_primary s = sampleDekProvider
     \<and> cipherOK (Some (serviceCipher sampleHeaderCodec s))"
proof -
  have "uniqueIDs sampleLoader"
    by (auto simp: uniqueIDs_def sampleLoader_def plainLoader_def plainProvider_def sampleDekProvider_def dekAsProvider_def split: if_splits)
  moreover obtain s where s: "newService sampleLoader ''dek, plain'' = Inr s" "sv_primary s = sampleDekProvider"
    by (simp add: newService_def TrimSpace_def isSpace_def sampleLoader_def plainLoader_def)
  moreover obtain a where a: "sampleGCM (dp_primaryKey sampleDek) = Inr a" by (simp add: sampleGCM_def)
  ultimately have "cipherOK (Some (serviceCipher sampleHeaderCodec s))"
    by (intro service_is_cipher[where newGCM = sampleGCM and p = sampleDek and a = a and load = sampleLoader
          and providers = "''dek, plain''" and iv = "\<lambda>_ _ _. ''123456789012''"])
       (simp_all add: sampleHeaderCodec_ok sampleHeaderCodec_small sampleGCM_ok sampleDekProvider_def gcmNonceSize_def)
  with s show ?thesis by blast
qed

end
