(* ===== verification/Attachment_Stream.thy ===== *)
theory Attachment_Stream
  imports Dek
begin

text \<open>
  The attachment stream of \<open>internal/plugin/encrypt/dek/stream.go\<close>: authenticated records of at most 64 KiB, each
  bound to its position, and a final record bound to the total length. The destination of a writer is
  memory and does not fail; a reader is the bytes it has left. AES-GCM, HKDF and SHA-256 are parameters.

  The loops of writer and reader end: a written piece gets shorter or the full buffer is emptied, and every
  record read takes bytes from the source.
\<close>

section \<open>Constants and associated data\<close>

definition streamKeyIDSize :: nat where
  "streamKeyIDSize = 8"

definition streamV3SaltSize :: nat where
  "streamV3SaltSize = 16"

definition streamV3HeaderNonceSize :: nat where
  "streamV3HeaderNonceSize = streamKeyIDSize + streamV3SaltSize"

definition streamV3RecordPlaintextSize :: nat where
  "streamV3RecordPlaintextSize = 64 * 1024"

definition streamV3RecordHeaderSize :: nat where
  "streamV3RecordHeaderSize = 5"

definition streamV3RecordTypeData :: char where
  "streamV3RecordTypeData = CHR 0x00"

definition streamV3RecordTypeFinal :: char where
  "streamV3RecordTypeFinal = CHR 0x01"

definition streamV3AADDomain :: string where
  "streamV3AADDomain = ''memory-service/mseh/v3/attachment-stream''"

definition streamV3KeyInfo :: string where
  "streamV3KeyInfo = ''memory-service/mseh/v3/attachment-stream-key''"

definition writeLengthPrefixedBytes :: "string \<Rightarrow> string \<Rightarrow> string" where
  "writeLengthPrefixedBytes dst value = dst @ putUint32 (word_of_nat (length value)) @ value"

definition streamV3AAD :: "string \<Rightarrow> string \<Rightarrow> char \<Rightarrow> 64 word \<Rightarrow> 32 word \<Rightarrow> 64 word \<Rightarrow> string" where
  "streamV3AAD providerID headerNonce recordType recordIndex plaintextLength totalPlaintextLength =
     (let b = writeLengthPrefixedBytes [] streamV3AADDomain;
          b = writeLengthPrefixedBytes b providerID;
          b = b @ putUint32 3;
          b = writeLengthPrefixedBytes b headerNonce;
          b = b @ [recordType];
          b = b @ putUint64 recordIndex;
          b = b @ putUint32 plaintextLength
      in b @ putUint64 totalPlaintextLength)"

definition streamV3RecordNonce :: "string \<Rightarrow> 64 word \<Rightarrow> string" where
  "streamV3RecordNonce salt recordIndex =
     (let nonce = replicate gcmNonceSize zeroByte;
          nonce = copyAt nonce 0 (take 8 salt)
      in copyAt nonce 8 (putUint32 (ucast recordIndex)))"

definition checkStreamV3RecordIndex :: "64 word \<Rightarrow> unit result" where
  "checkStreamV3RecordIndex recordIndex =
     (if 0xFFFFFFFF < recordIndex then Inl (InternalError ''dek: MSEH v3 stream record index overflow'') else Inr ())"

section \<open>Keys\<close>

definition streamKeyID :: "(string \<Rightarrow> string) \<Rightarrow> string \<Rightarrow> string" where
  "streamKeyID sum256 key = take streamKeyIDSize (sum256 key)"

text \<open>\<open>rnd\<close> are the random bytes of the salt.\<close>

definition NewGCMStreamNonce :: "(string \<Rightarrow> string) \<Rightarrow> string \<Rightarrow> string \<Rightarrow> string" where
  "NewGCMStreamNonce sum256 key rnd =
     (let nonce = replicate streamV3HeaderNonceSize zeroByte;
          nonce = copyAt nonce 0 (streamKeyID sum256 key)
      in copyAt nonce streamKeyIDSize rnd)"

fun selectKeyLoop :: "(string \<Rightarrow> string) \<Rightarrow> string \<Rightarrow> string list \<Rightarrow> string result" where
  "selectKeyLoop sum256 want [] = Inl (InternalError ''dek: no matching key for MSEH v3 stream nonce'')"
| "selectKeyLoop sum256 want (key # keys) =
     (if key = [] then selectKeyLoop sum256 want keys
      else if streamKeyID sum256 key = want then Inr key
      else selectKeyLoop sum256 want keys)"

definition SelectGCMStreamKey :: "(string \<Rightarrow> string) \<Rightarrow> string list \<Rightarrow> string \<Rightarrow> string result" where
  "SelectGCMStreamKey sum256 keys nonce =
     (if length nonce \<noteq> streamV3HeaderNonceSize then Inl (InternalError ''dek: MSEH v3 stream nonce has the wrong length'')
      else selectKeyLoop sum256 (take streamKeyIDSize nonce) keys)"

definition newStreamV3AEAD ::
  "(string \<Rightarrow> AEAD result) \<Rightarrow> (string \<Rightarrow> string \<Rightarrow> string \<Rightarrow> nat \<Rightarrow> string result) \<Rightarrow> string \<Rightarrow> string \<Rightarrow> AEAD result" where
  "newStreamV3AEAD newGCM hkdf masterKey headerNonce =
     (if length headerNonce \<noteq> streamV3HeaderNonceSize then Inl (InternalError ''dek: MSEH v3 stream nonce has the wrong length'')
      else andThen (hkdf masterKey (drop streamKeyIDSize headerNonce) streamV3KeyInfo 32) newGCM)"

section \<open>Writing\<close>

record gcmStreamWriter =
  w_dst :: string
  w_aead :: AEAD
  w_providerID :: string
  w_headerNonce :: string
  w_salt :: string
  w_buf :: string
  w_recordIndex :: "64 word"
  w_total :: "64 word"
  w_closed :: bool

definition NewGCMStreamEncryptWriter :: "AEAD \<Rightarrow> string \<Rightarrow> string \<Rightarrow> string \<Rightarrow> gcmStreamWriter" where
  "NewGCMStreamEncryptWriter aead dst providerID headerNonce =
     \<lparr>w_dst = dst, w_aead = aead, w_providerID = providerID, w_headerNonce = headerNonce,
      w_salt = drop streamKeyIDSize headerNonce, w_buf = [], w_recordIndex = 0, w_total = 0, w_closed = False\<rparr>"

definition writeStreamV3Record :: "string \<Rightarrow> char \<Rightarrow> 32 word \<Rightarrow> string \<Rightarrow> string" where
  "writeStreamV3Record dst recordType len payload = dst @ (recordType # putUint32 len) @ payload"

definition writeDataRecord :: "gcmStreamWriter \<Rightarrow> string \<Rightarrow> gcmStreamWriter result" where
  "writeDataRecord w plaintext =
     (if plaintext = [] \<or> streamV3RecordPlaintextSize < length plaintext
      then Inl (InternalError ''dek: invalid MSEH v3 DATA plaintext length'')
      else andThen (checkStreamV3RecordIndex (w_recordIndex w)) (\<lambda>_.
        let len = word_of_nat (length plaintext);
            aad = streamV3AAD (w_providerID w) (w_headerNonce w) streamV3RecordTypeData (w_recordIndex w) len 0;
            sealed = a_Seal (w_aead w) (streamV3RecordNonce (w_salt w) (w_recordIndex w)) plaintext aad
        in Inr (w\<lparr>w_dst := writeStreamV3Record (w_dst w) streamV3RecordTypeData len sealed,
                  w_recordIndex := w_recordIndex w + 1, w_total := w_total w + word_of_nat (length plaintext)\<rparr>)))"

definition writeFinalRecord :: "gcmStreamWriter \<Rightarrow> gcmStreamWriter result" where
  "writeFinalRecord w =
     andThen (checkStreamV3RecordIndex (w_recordIndex w)) (\<lambda>_.
       let aad = streamV3AAD (w_providerID w) (w_headerNonce w) streamV3RecordTypeFinal (w_recordIndex w) 0 (w_total w);
           sealed = a_Seal (w_aead w) (streamV3RecordNonce (w_salt w) (w_recordIndex w)) [] aad
       in Inr (w\<lparr>w_dst := writeStreamV3Record (w_dst w) streamV3RecordTypeFinal 0 sealed,
                 w_recordIndex := w_recordIndex w + 1\<rparr>))"

text \<open>
  The loop of \<open>Write\<close> returns the writer, the bytes taken and the error, if any. A buffer beyond the record
  size, for which Go's slice expression panics, never arises.
\<close>

function writeLoop :: "gcmStreamWriter \<Rightarrow> string \<Rightarrow> nat \<Rightarrow> gcmStreamWriter \<times> nat \<times> store_error option" where
  "writeLoop w p written =
     (if p = [] then (w, written, None)
      else if streamV3RecordPlaintextSize < length (w_buf w) then (w, written, Some (InternalError ''slice bounds out of range''))
      else
        let space = min (streamV3RecordPlaintextSize - length (w_buf w)) (length p);
            w1 = w\<lparr>w_buf := w_buf w @ take space p\<rparr>;
            p1 = drop space p;
            written1 = written + space
        in if length (w_buf w1) = streamV3RecordPlaintextSize
           then (case writeDataRecord w1 (w_buf w1) of
                   Inl err \<Rightarrow> (w1, written1, Some err)
                 | Inr w2 \<Rightarrow> writeLoop (w2\<lparr>w_buf := []\<rparr>) p1 written1)
           else writeLoop w1 p1 written1)"
  by pat_completeness auto

lemma recordSize_pos: "0 < streamV3RecordPlaintextSize"
  by (simp add: streamV3RecordPlaintextSize_def)

termination writeLoop
proof (relation "measures [\<lambda>(w, p, _). length p, \<lambda>(w, p, _). length (w_buf w)]")
  fix w :: gcmStreamWriter and p :: string and written space w1 p1 written1 w2
  assume p: "p \<noteq> []" "\<not> streamV3RecordPlaintextSize < length (w_buf w)"
    and defs: "space = min (streamV3RecordPlaintextSize - length (w_buf w)) (length p)"
      "w1 = w\<lparr>w_buf := w_buf w @ take space p\<rparr>" "p1 = drop space p" "written1 = written + space"
  show "((w2\<lparr>w_buf := []\<rparr>, p1, written1), w, p, written) \<in> measures [\<lambda>(w, p, _). length p, \<lambda>(w, p, _). length (w_buf w)]"
    if "length (w_buf w1) = streamV3RecordPlaintextSize"
    using p that recordSize_pos by (cases "w_buf w = []") (auto simp: defs)
  show "((w1, p1, written1), w, p, written) \<in> measures [\<lambda>(w, p, _). length p, \<lambda>(w, p, _). length (w_buf w)]"
    if "length (w_buf w1) \<noteq> streamV3RecordPlaintextSize"
    using p that by (auto simp: defs min_def split: if_splits)
qed simp

declare writeLoop.simps [simp del]

definition Write :: "gcmStreamWriter \<Rightarrow> string \<Rightarrow> gcmStreamWriter \<times> nat \<times> store_error option" where
  "Write w p = (if w_closed w then (w, 0, Some (InternalError ''dek: write after MSEH v3 stream close'')) else writeLoop w p 0)"

definition Close :: "gcmStreamWriter \<Rightarrow> gcmStreamWriter \<times> store_error option" where
  "Close w =
     (if w_closed w then (w, None)
      else
        let w1 = w\<lparr>w_closed := True\<rparr>
        in if w_buf w1 \<noteq> []
           then (case writeDataRecord w1 (w_buf w1) of
                   Inl err \<Rightarrow> (w1, Some err)
                 | Inr w2 \<Rightarrow> (case writeFinalRecord (w2\<lparr>w_buf := []\<rparr>) of
                               Inl err \<Rightarrow> (w2\<lparr>w_buf := []\<rparr>, Some err)
                             | Inr w3 \<Rightarrow> (w3, None)))
           else (case writeFinalRecord w1 of Inl err \<Rightarrow> (w1, Some err) | Inr w3 \<Rightarrow> (w3, None)))"

section \<open>Reading\<close>

record gcmStreamReader =
  r_src :: string
  r_aead :: AEAD
  r_providerID :: string
  r_headerNonce :: string
  r_salt :: string
  r_recordIndex :: "64 word"
  r_total :: "64 word"
  r_buf :: string
  r_final :: bool
  r_shortData :: bool

definition NewGCMStreamDecryptReader :: "AEAD \<Rightarrow> string \<Rightarrow> string \<Rightarrow> string \<Rightarrow> gcmStreamReader" where
  "NewGCMStreamDecryptReader aead src providerID headerNonce =
     \<lparr>r_src = src, r_aead = aead, r_providerID = providerID, r_headerNonce = headerNonce,
      r_salt = drop streamKeyIDSize headerNonce, r_recordIndex = 0, r_total = 0, r_buf = [], r_final = False, r_shortData = False\<rparr>"

definition readDataRecord :: "gcmStreamReader \<Rightarrow> 32 word \<Rightarrow> gcmStreamReader result" where
  "readDataRecord r len =
     (if len = 0 \<or> word_of_nat streamV3RecordPlaintextSize < len then Inl (InternalError ''dek: invalid MSEH v3 DATA plaintext length'')
      else if r_shortData r then Inl (InternalError ''dek: MSEH v3 DATA record found after short DATA record'')
      else case readFull (unat len + a_Overhead (r_aead r)) (r_src r) of
        None \<Rightarrow> Inl (InternalError ''dek: reading MSEH v3 DATA record'')
      | Some (payload, src) \<Rightarrow>
          let aad = streamV3AAD (r_providerID r) (r_headerNonce r) streamV3RecordTypeData (r_recordIndex r) len 0
          in case a_Open (r_aead r) (streamV3RecordNonce (r_salt r) (r_recordIndex r)) payload aad of
               None \<Rightarrow> Inl (InternalError ''dek: authenticating MSEH v3 DATA record'')
             | Some plain \<Rightarrow>
                 Inr (r\<lparr>r_src := src, r_shortData := (len < word_of_nat streamV3RecordPlaintextSize \<or> r_shortData r),
                        r_recordIndex := r_recordIndex r + 1, r_total := r_total r + ucast len, r_buf := plain\<rparr>))"

definition readFinalRecord :: "gcmStreamReader \<Rightarrow> 32 word \<Rightarrow> gcmStreamReader result" where
  "readFinalRecord r len =
     (if len \<noteq> 0 then Inl (InternalError ''dek: invalid MSEH v3 FINAL plaintext length'')
      else case readFull (a_Overhead (r_aead r)) (r_src r) of
        None \<Rightarrow> Inl (InternalError ''dek: reading MSEH v3 FINAL record'')
      | Some (payload, src) \<Rightarrow>
          let aad = streamV3AAD (r_providerID r) (r_headerNonce r) streamV3RecordTypeFinal (r_recordIndex r) 0 (r_total r)
          in case a_Open (r_aead r) (streamV3RecordNonce (r_salt r) (r_recordIndex r)) payload aad of
               None \<Rightarrow> Inl (InternalError ''dek: authenticating MSEH v3 FINAL record'')
             | Some _ \<Rightarrow>
                 if src \<noteq> [] then Inl (InternalError ''dek: trailing bytes after MSEH v3 FINAL record'')
                 else Inr (r\<lparr>r_src := src, r_recordIndex := r_recordIndex r + 1, r_final := True\<rparr>))"

definition readNextRecord :: "gcmStreamReader \<Rightarrow> gcmStreamReader result" where
  "readNextRecord r =
     (case readFull streamV3RecordHeaderSize (r_src r) of
        None \<Rightarrow> Inl (InternalError ''dek: missing MSEH v3 FINAL record'')
      | Some (header, src) \<Rightarrow>
          let recordType = header ! 0;
              len = getUint32 (drop 1 header);
              r1 = r\<lparr>r_src := src\<rparr>
          in andThen (checkStreamV3RecordIndex (r_recordIndex r)) (\<lambda>_.
               if recordType = streamV3RecordTypeData then readDataRecord r1 len
               else if recordType = streamV3RecordTypeFinal then readFinalRecord r1 len
               else Inl (InternalError ''dek: unknown MSEH v3 record type'')))"

datatype ReadOutcome = ReadEOF | ReadError store_error | ReadBytes string gcmStreamReader

text \<open>The loop of \<open>Read\<close> that fills an empty buffer; the outcome carries no bytes yet.\<close>

function fillLoop :: "gcmStreamReader \<Rightarrow> ReadOutcome" where
  "fillLoop r =
     (if r_buf r \<noteq> [] then ReadBytes [] r
      else if r_final r then ReadEOF
      else case readNextRecord r of Inl err \<Rightarrow> ReadError err | Inr r1 \<Rightarrow> fillLoop r1)"
  by pat_completeness auto

lemma readNextRecord_shorter: "readNextRecord r = Inr r1 \<Longrightarrow> length (r_src r1) < length (r_src r)"
  by (auto simp: readNextRecord_def readDataRecord_def readFinalRecord_def readFull_def andThen_eq_Inr Let_def
      streamV3RecordHeaderSize_def split: if_splits option.splits)

termination fillLoop
  by (relation "measure (\<lambda>r. length (r_src r))") (auto intro: readNextRecord_shorter)

declare fillLoop.simps [simp del]

definition Read :: "gcmStreamReader \<Rightarrow> nat \<Rightarrow> ReadOutcome" where
  "Read r n =
     (case fillLoop r of
        ReadEOF \<Rightarrow> ReadEOF
      | ReadError err \<Rightarrow> ReadError err
      | ReadBytes _ r1 \<Rightarrow> ReadBytes (take n (r_buf r1)) (r1\<lparr>r_buf := drop n (r_buf r1)\<rparr>))"

lemma fillLoop_src:
  "fillLoop r = ReadBytes xs r1 \<Longrightarrow> r_buf r1 \<noteq> [] \<and> (r1 = r \<or> length (r_src r1) < length (r_src r))"
proof (induction r rule: fillLoop.induct)
  case (1 r)
  then show ?case
    by (subst (asm) (2) fillLoop.simps) (fastforce dest: readNextRecord_shorter split: if_splits sum.splits)
qed

text \<open>A client that reads with a buffer of \<open>n\<close> bytes until the end of the stream, as \<open>io.ReadAll\<close> does.\<close>

function readAll :: "nat \<Rightarrow> gcmStreamReader \<Rightarrow> string result" where
  "readAll n r =
     (if n = 0 then Inl (InternalError ''empty buffer'')
      else case Read r n of
        ReadEOF \<Rightarrow> Inr []
      | ReadError err \<Rightarrow> Inl err
      | ReadBytes xs r1 \<Rightarrow> andThen (readAll n r1) (\<lambda>ys. Inr (xs @ ys)))"
  by pat_completeness auto
termination readAll
proof (relation "measures [\<lambda>(n, r). length (r_src r), \<lambda>(n, r). length (r_buf r)]")
  fix n r xs r1 assume "n \<noteq> (0 :: nat)" "Read r n = ReadBytes xs r1"
  then show "((n, r1), n, r) \<in> measures [\<lambda>(n, r). length (r_src r), \<lambda>(n, r). length (r_buf r)]"
    by (auto simp: Read_def dest!: fillLoop_src split: ReadOutcome.splits)
qed simp

declare readAll.simps [simp del]

section \<open>Streams of the provider and of the service\<close>

definition dekEncryptStream ::
  "(string \<Rightarrow> AEAD result) \<Rightarrow> (string \<Rightarrow> string \<Rightarrow> string \<Rightarrow> nat \<Rightarrow> string result) \<Rightarrow> (string \<Rightarrow> string) \<Rightarrow> HeaderCodec \<Rightarrow> dekProvider
   \<Rightarrow> string \<Rightarrow> string \<Rightarrow> gcmStreamWriter result" where
  "dekEncryptStream newGCM hkdf sum256 hc p rnd dst =
     (let nonce = NewGCMStreamNonce sum256 (dp_primaryKey p) rnd
      in andThen (WriteHeader hc dst \<lparr>h_Version = VersionAttachmentStreamAESGCM, h_ProviderID = ''dek'', h_Nonce = nonce\<rparr>) (\<lambda>dst.
         andThen (newStreamV3AEAD newGCM hkdf (dp_primaryKey p) nonce) (\<lambda>aead.
         Inr (NewGCMStreamEncryptWriter aead dst ''dek'' nonce))))"

text \<open>The reader of the \<open>plain\<close> provider is its source.\<close>

datatype StreamReader = PlainReader string | RecordReader gcmStreamReader

definition dekDecryptStream ::
  "(string \<Rightarrow> AEAD result) \<Rightarrow> (string \<Rightarrow> string \<Rightarrow> string \<Rightarrow> nat \<Rightarrow> string result) \<Rightarrow> (string \<Rightarrow> string) \<Rightarrow> dekProvider
   \<Rightarrow> string \<Rightarrow> Header option \<Rightarrow> StreamReader result" where
  "dekDecryptStream newGCM hkdf sum256 p src header =
     (case header of
        None \<Rightarrow> Inl (InternalError ''dek: DecryptStream requires a parsed MSEH header'')
      | Some h \<Rightarrow>
          if h_Version h \<noteq> VersionAttachmentStreamAESGCM then Inl (InternalError ''dek: unsupported MSEH stream version'')
          else andThen (SelectGCMStreamKey sum256 (dp_primaryKey p # dp_legacyKeys p) (h_Nonce h)) (\<lambda>key.
               andThen (newStreamV3AEAD newGCM hkdf key (h_Nonce h)) (\<lambda>aead.
               Inr (RecordReader (NewGCMStreamDecryptReader aead src ''dek'' (h_Nonce h))))))"

definition plainDecryptStream :: "string \<Rightarrow> Header option \<Rightarrow> StreamReader result" where
  "plainDecryptStream src header = Inr (PlainReader src)"

text \<open>\<open>dispatch\<close> is the method \<open>DecryptStream\<close> of a provider. The peeked bytes are read again with the rest.\<close>

definition serviceDecryptStream ::
  "HeaderCodec \<Rightarrow> (Provider \<Rightarrow> string \<Rightarrow> Header option \<Rightarrow> StreamReader result) \<Rightarrow> Service \<Rightarrow> string \<Rightarrow> StreamReader result" where
  "serviceDecryptStream hc dispatch s src =
     (let peeked = take 4 src; combined = peeked @ drop 4 src
      in if HasMagic peeked then
           (case ReadHeader hc combined of
              NoMagic \<Rightarrow> Inl (InternalError ''nil header'')
            | HeaderError err \<Rightarrow> Inl err
            | HeaderOK h rest \<Rightarrow>
                (case sv_byID s (h_ProviderID h) of
                   None \<Rightarrow> Inl (InternalError ''dataencryption: unknown provider in MSEH header'')
                 | Some provider \<Rightarrow>
                     if h_Version h \<noteq> VersionAttachmentStreamAESGCM
                     then Inl (InternalError ''dataencryption: unsupported MSEH attachment stream'')
                     else dispatch provider rest (Some h)))
         else if pv_ID (sv_primary s) \<noteq> ''plain'' then Inl (InternalError ''dataencryption: expected MSEH attachment stream'')
         else dispatch (sv_primary s) combined None)"

end
