(* ===== verification/Stream_Facts.thy ===== *)
theory Stream_Facts
  imports Attachment_Stream
begin

text \<open>
  What attachment streams guarantee: reading restores what was written, whatever the sizes of the writes and
  reads and after a key rotation; a stream that was cut, reordered or extended is refused.
\<close>

section \<open>What a writer writes\<close>

abbreviation recSize :: nat where
  "recSize \<equiv> streamV3RecordPlaintextSize"

definition chunk :: "string \<Rightarrow> nat \<Rightarrow> string" where
  "chunk xs i = take recSize (drop (i * recSize) xs)"

definition dataAAD :: "string \<Rightarrow> string \<Rightarrow> nat \<Rightarrow> string \<Rightarrow> string" where
  "dataAAD pid hn i c = streamV3AAD pid hn streamV3RecordTypeData (word_of_nat i) (word_of_nat (length c)) 0"

definition finalAAD :: "string \<Rightarrow> string \<Rightarrow> nat \<Rightarrow> nat \<Rightarrow> string" where
  "finalAAD pid hn i len = streamV3AAD pid hn streamV3RecordTypeFinal (word_of_nat i) 0 (word_of_nat len)"

definition recordNonce :: "string \<Rightarrow> nat \<Rightarrow> string" where
  "recordNonce hn i = streamV3RecordNonce (drop streamKeyIDSize hn) (word_of_nat i)"

definition dataRecord :: "AEAD \<Rightarrow> string \<Rightarrow> string \<Rightarrow> nat \<Rightarrow> string \<Rightarrow> string" where
  "dataRecord a pid hn i c = writeStreamV3Record [] streamV3RecordTypeData (word_of_nat (length c))
     (a_Seal a (recordNonce hn i) c (dataAAD pid hn i c))"

definition finalRecord :: "AEAD \<Rightarrow> string \<Rightarrow> string \<Rightarrow> nat \<Rightarrow> nat \<Rightarrow> string" where
  "finalRecord a pid hn i len = writeStreamV3Record [] streamV3RecordTypeFinal 0 (a_Seal a (recordNonce hn i) [] (finalAAD pid hn i len))"

definition dataRecords :: "AEAD \<Rightarrow> string \<Rightarrow> string \<Rightarrow> string \<Rightarrow> nat \<Rightarrow> string" where
  "dataRecords a pid hn xs n = concat (map (\<lambda>i. dataRecord a pid hn i (chunk xs i)) [0..<n])"

text \<open>The number of data records of a text, and the whole stream.\<close>

definition recordCount :: "string \<Rightarrow> nat" where
  "recordCount xs = (length xs + recSize - 1) div recSize"

definition encodedStream :: "AEAD \<Rightarrow> string \<Rightarrow> string \<Rightarrow> string \<Rightarrow> string" where
  "encodedStream a pid hn xs = dataRecords a pid hn xs (recordCount xs) @ finalRecord a pid hn (recordCount xs) (length xs)"

text \<open>The longest text whose final record still has an index of 32 bits.\<close>

definition maxStream :: nat where
  "maxStream = (2 ^ 32 - 1) * recSize"

lemma chunk_append: "(i + 1) * recSize \<le> length xs \<Longrightarrow> chunk (xs @ ys) i = chunk xs i"
  by (simp add: chunk_def algebra_simps)

lemma dataRecords_append:
  assumes "n * recSize \<le> length xs"
  shows "dataRecords a pid hn (xs @ ys) n = dataRecords a pid hn xs n"
proof -
  have "chunk (xs @ ys) i = chunk xs i" if "i < n" for i
  proof (rule chunk_append)
    have "(i + 1) * recSize \<le> n * recSize" using that by (intro mult_le_mono1) simp
    then show "(i + 1) * recSize \<le> length xs" using assms by simp
  qed
  then show ?thesis by (auto simp: dataRecords_def intro!: arg_cong[where f = concat])
qed

lemma dataRecords_Suc: "dataRecords a pid hn xs (Suc n) = dataRecords a pid hn xs n @ dataRecord a pid hn n (chunk xs n)"
  by (simp add: dataRecords_def)

lemma checkIndex_ok: "i < 2 ^ 32 \<Longrightarrow> checkStreamV3RecordIndex (word_of_nat i) = Inr ()"
  by (simp add: checkStreamV3RecordIndex_def word_less_nat_alt unsigned_of_nat take_bit_nat_eq_self)

record writerConfig =
  wc_aead :: AEAD
  wc_pid :: string
  wc_hn :: string
  wc_dst :: string

text \<open>The writer after the text \<open>xs\<close>: the full records are out, the rest is in the buffer.\<close>

definition writerAt :: "writerConfig \<Rightarrow> string \<Rightarrow> gcmStreamWriter \<Rightarrow> bool" where
  "writerAt cf xs w \<longleftrightarrow>
     w = \<lparr>w_dst = wc_dst cf @ dataRecords (wc_aead cf) (wc_pid cf) (wc_hn cf) xs (length xs div recSize), w_aead = wc_aead cf,
          w_providerID = wc_pid cf, w_headerNonce = wc_hn cf, w_salt = drop streamKeyIDSize (wc_hn cf),
          w_buf = drop (length xs div recSize * recSize) xs, w_recordIndex = word_of_nat (length xs div recSize),
          w_total = word_of_nat (length xs div recSize * recSize), w_closed = False\<rparr>"

lemma length_rest: "length (drop (length xs div recSize * recSize) xs) = length xs mod recSize"
  by (simp add: minus_div_mult_eq_mod)

lemma writeDataRecord_ok:
  assumes "c \<noteq> []" "length c \<le> recSize" "w_recordIndex w = word_of_nat i" "i < 2 ^ 32" "w_salt w = drop streamKeyIDSize (w_headerNonce w)"
  shows "writeDataRecord w c = Inr (w\<lparr>w_dst := w_dst w @ dataRecord (w_aead w) (w_providerID w) (w_headerNonce w) i c,
    w_recordIndex := word_of_nat (Suc i), w_total := w_total w + word_of_nat (length c)\<rparr>)"
  using assms checkIndex_ok[OF assms(4)]
  by (simp add: writeDataRecord_def dataRecord_def writeStreamV3Record_def recordNonce_def dataAAD_def Let_def add.commute)

lemma maxStream_records: "length xs \<le> maxStream \<Longrightarrow> length xs div recSize < 2 ^ 32"
proof -
  assume "length xs \<le> maxStream"
  then have "length xs div recSize \<le> maxStream div recSize" by (rule div_le_mono)
  then show ?thesis using recordSize_pos by (simp add: maxStream_def)
qed

lemma writeLoop_ok:
  "writerAt cf xs w \<Longrightarrow> length xs + length p \<le> maxStream \<Longrightarrow>
   \<exists>w'. writeLoop w p k = (w', k + length p, None) \<and> writerAt cf (xs @ p) w'"
proof (induction w p k arbitrary: xs rule: writeLoop.induct)
  case (1 w p written)
  show ?case
  proof (cases "p = []")
    case True
    then show ?thesis using 1(3) by (simp add: writeLoop.simps)
  next
    case False
    let ?n = "length xs div recSize"
    let ?space = "min (recSize - length (w_buf w)) (length p)"
    let ?w1 = "w\<lparr>w_buf := w_buf w @ take ?space p\<rparr>"
    have buf: "w_buf w = drop (?n * recSize) xs" using 1(3) by (simp add: writerAt_def)
    then have lb: "length (w_buf w) = length xs mod recSize" using length_rest by simp
    then have lt: "length (w_buf w) < recSize" using recordSize_pos by simp
    have xlen: "length xs = ?n * recSize + length (w_buf w)" using lb by simp
    let ?xs = "xs @ take ?space p"
    have b1: "w_buf ?w1 = drop (?n * recSize) ?xs" by (simp add: buf)
    show ?thesis
    proof (cases "length (w_buf ?w1) = recSize")
      case True
      then have len: "length ?xs = (?n + 1) * recSize"
        using xlen by (simp add: algebra_simps)
      have n: "length ?xs div recSize = ?n + 1" using len recordSize_pos by simp
      have "length ?xs \<le> maxStream" using 1(4) by simp
      then have n32: "?n < 2 ^ 32" using maxStream_records[of ?xs] n by simp
      have c: "w_buf ?w1 = chunk ?xs ?n" using len True b1 by (simp add: chunk_def)
      have ne: "w_buf ?w1 \<noteq> []" using True recordSize_pos by (metis less_irrefl list.size(3))
      have fields: "w_aead w = wc_aead cf" "w_providerID w = wc_pid cf" "w_headerNonce w = wc_hn cf"
        "w_salt w = drop streamKeyIDSize (wc_hn cf)" "w_recordIndex w = word_of_nat ?n" using 1(3) by (simp_all add: writerAt_def)
      have step: "writeDataRecord ?w1 (w_buf ?w1) = Inr (?w1\<lparr>w_dst := w_dst w @ dataRecord (wc_aead cf) (wc_pid cf) (wc_hn cf) ?n (w_buf ?w1),
          w_recordIndex := word_of_nat (Suc ?n), w_total := w_total w + word_of_nat recSize\<rparr>)"
        using writeDataRecord_ok[of "w_buf ?w1" ?w1 ?n] ne True n32 fields by simp
      let ?w2 = "?w1\<lparr>w_dst := w_dst w @ dataRecord (wc_aead cf) (wc_pid cf) (wc_hn cf) ?n (w_buf ?w1),
          w_recordIndex := word_of_nat (Suc ?n), w_total := w_total w + word_of_nat recSize\<rparr>"
      have dr: "dataRecords (wc_aead cf) (wc_pid cf) (wc_hn cf) ?xs ?n = dataRecords (wc_aead cf) (wc_pid cf) (wc_hn cf) xs ?n"
        by (rule dataRecords_append) simp
      have inv: "writerAt cf ?xs (?w2\<lparr>w_buf := []\<rparr>)"
        unfolding writerAt_def n c using 1(3) len dr by (simp add: writerAt_def dataRecords_Suc)
      have "length ?xs + length (drop ?space p) \<le> maxStream" using 1(4) by simp
      from 1(1)[OF False _ refl refl refl refl True step inv this] lt
      obtain w' where "writeLoop (?w2\<lparr>w_buf := []\<rparr>) (drop ?space p) (written + ?space) = (w', written + ?space + length (drop ?space p), None)"
        "writerAt cf (?xs @ drop ?space p) w'" by auto
      then show ?thesis using False lt step True by (subst writeLoop.simps) (simp add: Let_def)
    next
      case False
      note part = False
      then have sp: "?space = length p" using lt by (simp add: min_def split: if_splits)
      then have "length (w_buf w) + length p < recSize" using part lt by (simp add: min_def split: if_splits)
      then have n: "length (xs @ p) div recSize = ?n"
        using xlen by (intro div_nat_eqI) (auto simp: algebra_simps)
      have "dataRecords (wc_aead cf) (wc_pid cf) (wc_hn cf) (xs @ p) ?n = dataRecords (wc_aead cf) (wc_pid cf) (wc_hn cf) xs ?n"
        by (rule dataRecords_append) simp
      then have "writerAt cf (xs @ p) (w\<lparr>w_buf := w_buf w @ p\<rparr>)"
        unfolding writerAt_def n using 1(3) by (simp add: writerAt_def)
      then show ?thesis using \<open>p \<noteq> []\<close> lt part sp by (subst writeLoop.simps) (simp add: Let_def writeLoop.simps)
    qed
  qed
qed

lemma recordCount_eq:
  "recordCount xs = (if length xs mod recSize = 0 then length xs div recSize else length xs div recSize + 1)"
proof (cases "length xs mod recSize = 0")
  case True
  then obtain k where k: "length xs = k * recSize" using div_mult_mod_eq[of "length xs" recSize] by (metis add.right_neutral)
  have "(k * recSize + recSize - 1) div recSize = k"
    using recordSize_pos by (intro div_nat_eqI) (auto simp: algebra_simps)
  then show ?thesis using True k recordSize_pos by (simp add: recordCount_def)
next
  case False
  obtain q m where q: "q = length xs div recSize" and x: "length xs = q * recSize + m" and m: "m < recSize" "0 < m"
    using False recordSize_pos div_mult_mod_eq[of "length xs" recSize] by (metis mod_less_divisor gr0I)
  have "(q * recSize + m + recSize - 1) div recSize = q + 1"
    using m by (intro div_nat_eqI) (auto simp: algebra_simps)
  then have "recordCount xs = q + 1" unfolding recordCount_def x .
  then show ?thesis using False unfolding q by simp
qed

lemma recordCount_bound:
  assumes "length xs \<le> maxStream"
  shows "recordCount xs < 2 ^ 32"
proof -
  have "recordCount xs \<le> (maxStream + recSize - 1) div recSize"
    unfolding recordCount_def using assms by (intro div_le_mono) simp
  also have "\<dots> = 2 ^ 32 - 1" by (simp add: maxStream_def streamV3RecordPlaintextSize_def)
  finally show ?thesis by simp
qed

lemma writeFinalRecord_ok:
  assumes "w_recordIndex w = word_of_nat i" "i < 2 ^ 32" "w_salt w = drop streamKeyIDSize (w_headerNonce w)" "w_total w = word_of_nat n"
  shows "writeFinalRecord w = Inr (w\<lparr>w_dst := w_dst w @ finalRecord (w_aead w) (w_providerID w) (w_headerNonce w) i n,
    w_recordIndex := word_of_nat (Suc i)\<rparr>)"
  using assms checkIndex_ok[OF assms(2)]
  by (simp add: writeFinalRecord_def finalRecord_def writeStreamV3Record_def recordNonce_def finalAAD_def Let_def add.commute)

lemma Close_ok:
  assumes "writerAt cf xs w" and "length xs \<le> maxStream"
  shows "\<exists>w'. Close w = (w', None) \<and> w_closed w' \<and> w_dst w' = wc_dst cf @ encodedStream (wc_aead cf) (wc_pid cf) (wc_hn cf) xs"
proof -
  let ?n = "length xs div recSize"
  let ?w1 = "w\<lparr>w_closed := True\<rparr>"
  have f: "w_aead w = wc_aead cf" "w_providerID w = wc_pid cf" "w_headerNonce w = wc_hn cf" "\<not> w_closed w"
      "w_salt w = drop streamKeyIDSize (wc_hn cf)" "w_recordIndex w = word_of_nat ?n" "w_total w = word_of_nat (?n * recSize)"
      "w_dst w = wc_dst cf @ dataRecords (wc_aead cf) (wc_pid cf) (wc_hn cf) xs ?n" and buf: "w_buf w = drop (?n * recSize) xs"
    using assms(1) by (simp_all add: writerAt_def)
  have lb: "length (w_buf w) = length xs mod recSize" using buf length_rest by simp
  have b: "recordCount xs < 2 ^ 32" "?n < 2 ^ 32" using recordCount_bound[OF assms(2)] maxStream_records[OF assms(2)] by simp_all
  show ?thesis
  proof (cases "w_buf w = []")
    case True
    then have z: "length xs mod recSize = 0" using lb by simp
    then have n: "recordCount xs = ?n" "?n * recSize = length xs" using recordCount_eq by auto
    show ?thesis using writeFinalRecord_ok[of ?w1 ?n "length xs"] True f b n by (simp add: Close_def encodedStream_def)
  next
    case False
    then have z: "length xs mod recSize \<noteq> 0" using lb by (metis length_0_conv)
    then have n: "recordCount xs = ?n + 1" using recordCount_eq by auto
    have c: "w_buf w = chunk xs ?n" using lb recordSize_pos by (simp add: chunk_def buf)
    have le: "length (w_buf w) \<le> recSize" using lb recordSize_pos by simp
    let ?w2 = "?w1\<lparr>w_dst := w_dst w @ dataRecord (wc_aead cf) (wc_pid cf) (wc_hn cf) ?n (w_buf w),
      w_recordIndex := word_of_nat (Suc ?n), w_total := w_total w + word_of_nat (length (w_buf w))\<rparr>"
    have s1: "writeDataRecord ?w1 (w_buf w) = Inr ?w2" using writeDataRecord_ok[of "w_buf w" ?w1 ?n] False le b f by simp
    have tot: "w_total ?w2 = word_of_nat (length xs)"
    proof -
      have "w_total ?w2 = word_of_nat (?n * recSize) + word_of_nat (length (w_buf w))" by (simp add: f(7))
      also have "\<dots> = word_of_nat (?n * recSize + length (w_buf w))" by (simp only: of_nat_add)
      also have "?n * recSize + length (w_buf w) = length xs" using lb by simp
      finally show ?thesis .
    qed
    have "writeFinalRecord (?w2\<lparr>w_buf := []\<rparr>) = Inr (?w2\<lparr>w_buf := [], w_dst := w_dst ?w2 @ finalRecord (wc_aead cf) (wc_pid cf) (wc_hn cf) (Suc ?n) (length xs),
        w_recordIndex := word_of_nat (Suc (Suc ?n))\<rparr>)"
      using writeFinalRecord_ok[of "?w2\<lparr>w_buf := []\<rparr>" "Suc ?n" "length xs"] b f n tot by simp
    then show ?thesis using s1 False f(4) n f(8) c by (simp add: Close_def encodedStream_def dataRecords_Suc)
  qed
qed

text \<open>A client that writes pieces one after the other and stops at the first error.\<close>

fun writeAll :: "gcmStreamWriter \<Rightarrow> string list \<Rightarrow> gcmStreamWriter \<times> store_error option" where
  "writeAll w [] = (w, None)"
| "writeAll w (p # ps) = (case Write w p of (w', _, None) \<Rightarrow> writeAll w' ps | (w', _, Some err) \<Rightarrow> (w', Some err))"

lemma writeAll_ok:
  "writerAt cf xs w \<Longrightarrow> length xs + length (concat ps) \<le> maxStream \<Longrightarrow>
   \<exists>w'. writeAll w ps = (w', None) \<and> writerAt cf (xs @ concat ps) w'"
proof (induction ps arbitrary: xs w)
  case Nil
  then show ?case by simp
next
  case (Cons p ps)
  have "length xs + length p \<le> maxStream" using Cons.prems(2) by simp
  from writeLoop_ok[OF Cons.prems(1) this, of 0] obtain w' where w': "Write w p = (w', length p, None)" "writerAt cf (xs @ p) w'"
    using Cons.prems(1) by (auto simp: Write_def writerAt_def)
  from Cons.IH[OF this(2)] Cons.prems(2) w'(1) show ?case by simp
qed

lemma writer_start: "writerAt \<lparr>wc_aead = a, wc_pid = pid, wc_hn = hn, wc_dst = dst\<rparr> [] (NewGCMStreamEncryptWriter a dst pid hn)"
  by (simp add: writerAt_def NewGCMStreamEncryptWriter_def dataRecords_def)

lemma written_stream:
  assumes "length (concat ps) \<le> maxStream"
  obtains w w' where "writeAll (NewGCMStreamEncryptWriter a dst pid hn) ps = (w, None)" "Close w = (w', None)"
    "w_dst w' = dst @ encodedStream a pid hn (concat ps)"
proof -
  obtain w where w: "writeAll (NewGCMStreamEncryptWriter a dst pid hn) ps = (w, None)"
      "writerAt \<lparr>wc_aead = a, wc_pid = pid, wc_hn = hn, wc_dst = dst\<rparr> (concat ps) w"
    using writeAll_ok[OF writer_start[of a pid hn dst], of ps] assms by auto
  from Close_ok[OF w(2) assms] show thesis using that[OF w(1)] by auto
qed

section \<open>What a reader reads\<close>

text \<open>Everything the writer seals for the text \<open>xs\<close>.\<close>

definition sealedBy :: "string \<Rightarrow> string \<Rightarrow> string \<Rightarrow> (string \<times> string \<times> string) list" where
  "sealedBy pid hn xs =
     map (\<lambda>i. (recordNonce hn i, chunk xs i, dataAAD pid hn i (chunk xs i))) [0..<recordCount xs]
     @ [(recordNonce hn (recordCount xs), [], finalAAD pid hn (recordCount xs) (length xs))]"

definition opensOwn :: "AEAD \<Rightarrow> (string \<times> string \<times> string) list \<Rightarrow> bool" where
  "opensOwn a made \<longleftrightarrow> list_all (\<lambda>(nonce, plain, aad). a_Open a nonce (a_Seal a nonce plain aad) aad = Some plain
     \<and> length (a_Seal a nonce plain aad) = length plain + a_Overhead a) made"

lemma aeadOK_opensOwn: "aeadOK a \<Longrightarrow> opensOwn a made"
  by (auto simp: opensOwn_def aeadOK_def list_all_iff)

lemma sealedBy_data: "i < recordCount xs \<Longrightarrow> (recordNonce hn i, chunk xs i, dataAAD pid hn i (chunk xs i)) \<in> set (sealedBy pid hn xs)"
  and sealedBy_final: "(recordNonce hn (recordCount xs), [], finalAAD pid hn (recordCount xs) (length xs)) \<in> set (sealedBy pid hn xs)"
  by (auto simp: sealedBy_def)

lemma opensOwn_elem:
  "opensOwn a made \<Longrightarrow> (nonce, plain, aad) \<in> set made \<Longrightarrow> a_Open a nonce (a_Seal a nonce plain aad) aad = Some plain"
  "opensOwn a made \<Longrightarrow> (nonce, plain, aad) \<in> set made \<Longrightarrow> length (a_Seal a nonce plain aad) = length plain + a_Overhead a"
  by (auto simp: opensOwn_def list_all_iff)

lemma Read_buffered: "r_buf r \<noteq> [] \<Longrightarrow> Read r n = ReadBytes (take n (r_buf r)) (r\<lparr>r_buf := drop n (r_buf r)\<rparr>)"
  by (simp add: Read_def fillLoop.simps)

lemma readAll_buffered: "0 < n \<Longrightarrow> readAll n r = andThen (readAll n (r\<lparr>r_buf := []\<rparr>)) (\<lambda>ys. Inr (r_buf r @ ys))"
proof (induction "length (r_buf r)" arbitrary: r rule: less_induct)
  case less
  show ?case
  proof (cases "r_buf r = []")
    case True
    then have same: "r\<lparr>r_buf := []\<rparr> = r" by simp
    show ?thesis unfolding same True by (cases "readAll n r") simp_all
  next
    case False
    let ?r = "r\<lparr>r_buf := drop n (r_buf r)\<rparr>"
    have "length (r_buf ?r) < length (r_buf r)" using False less(2) by simp
    from less(1)[OF this less(2)]
    have "readAll n ?r = andThen (readAll n (r\<lparr>r_buf := []\<rparr>)) (\<lambda>ys. Inr (drop n (r_buf r) @ ys))" by simp
    then show ?thesis using False less(2) Read_buffered[OF False]
      by (subst readAll.simps) (cases "readAll n (r\<lparr>r_buf := []\<rparr>)"; simp flip: append_assoc)
  qed
qed

lemma readAll_next:
  assumes "0 < n" "r_buf r = []" "\<not> r_final r"
  shows "readAll n r = (case readNextRecord r of Inl err \<Rightarrow> Inl err | Inr r1 \<Rightarrow> readAll n r1)"
proof (cases "readNextRecord r")
  case (Inl err)
  then show ?thesis using assms by (subst readAll.simps) (simp add: Read_def fillLoop.simps[of r])
next
  case (Inr r1)
  then have "Read r n = Read r1 n" using assms by (simp add: Read_def fillLoop.simps[of r])
  then show ?thesis using Inr by (subst (1 2) readAll.simps) simp
qed

lemma readAll_final: "0 < n \<Longrightarrow> r_buf r = [] \<Longrightarrow> r_final r \<Longrightarrow> readAll n r = Inr []"
  by (subst readAll.simps) (simp add: Read_def fillLoop.simps[of r])

lemma recSize_word: "unat (word_of_nat recSize :: 32 word) = recSize"
  by (simp add: streamV3RecordPlaintextSize_def unsigned_of_nat take_bit_nat_eq_self)

lemma recordHeader:
  "readFull streamV3RecordHeaderSize (writeStreamV3Record [] t len payload @ rest) = Some (t # putUint32 len, payload @ rest)"
  by (simp add: readFull_def streamV3RecordHeaderSize_def writeStreamV3Record_def)

lemma readNext_data:
  assumes own: "opensOwn (r_aead r) made" "(recordNonce (r_headerNonce r) i, c, dataAAD (r_providerID r) (r_headerNonce r) i c) \<in> set made"
    and src: "r_src r = dataRecord (r_aead r) (r_providerID r) (r_headerNonce r) i c @ rest"
    and idx: "r_recordIndex r = word_of_nat i" "i < 2 ^ 32" and salt: "r_salt r = drop streamKeyIDSize (r_headerNonce r)"
    and c: "c \<noteq> []" "length c \<le> recSize" and short: "\<not> r_shortData r"
  shows "readNextRecord r = Inr (r\<lparr>r_src := rest, r_shortData := (length c < recSize), r_recordIndex := word_of_nat (Suc i),
    r_total := r_total r + word_of_nat (length c), r_buf := c\<rparr>)"
proof -
  let ?len = "word_of_nat (length c) :: 32 word"
  have len: "unat ?len = length c"
    using c(2) by (simp add: streamV3RecordPlaintextSize_def unsigned_of_nat take_bit_nat_eq_self)
  have l: "?len \<noteq> 0" "\<not> word_of_nat recSize < ?len" "(?len < word_of_nat recSize) = (length c < recSize)"
    using len c recSize_word by (auto simp: word_less_nat_alt simp flip: unat_eq_zero)
  have u: "ucast ?len = (word_of_nat (length c) :: 64 word)"
    using of_nat_unat[of ?len, where 'a = "64 word"] by (simp only: len)
  note sl = opensOwn_elem[OF own]
  show ?thesis
    using idx salt c short checkIndex_ok[OF idx(2)] l u
    by (simp add: readNextRecord_def src dataRecord_def recordHeader getUint32_put readDataRecord_def len sl readFull_append
        sl[unfolded recordNonce_def dataAAD_def] recordNonce_def dataAAD_def Let_def add.commute)
qed

lemma readNext_final:
  assumes own: "opensOwn (r_aead r) made" "(recordNonce (r_headerNonce r) i, [], finalAAD (r_providerID r) (r_headerNonce r) i n) \<in> set made"
    and src: "r_src r = finalRecord (r_aead r) (r_providerID r) (r_headerNonce r) i n"
    and idx: "r_recordIndex r = word_of_nat i" "i < 2 ^ 32" and rest: "r_salt r = drop streamKeyIDSize (r_headerNonce r)" "r_total r = word_of_nat n"
  shows "readNextRecord r = Inr (r\<lparr>r_src := [], r_recordIndex := word_of_nat (Suc i), r_final := True\<rparr>)"
proof -
  note sl = opensOwn_elem[OF own]
  have "streamV3RecordTypeFinal \<noteq> streamV3RecordTypeData" by (simp add: streamV3RecordTypeFinal_def streamV3RecordTypeData_def)
  moreover have "readFull streamV3RecordHeaderSize (r_src r) =
      Some (streamV3RecordTypeFinal # putUint32 0, a_Seal (r_aead r) (recordNonce (r_headerNonce r) i) [] (finalAAD (r_providerID r) (r_headerNonce r) i n))"
    using recordHeader[where rest = "[]"] by (simp add: src finalRecord_def)
  ultimately show ?thesis
    using idx(1) rest checkIndex_ok[OF idx(2)] sl
    by (simp add: readNextRecord_def getUint32_put readFinalRecord_def readFull_def recordNonce_def finalAAD_def Let_def add.commute)
qed

text \<open>The reader before record \<open>i\<close> of the text \<open>xs\<close>.\<close>

definition readerAt :: "AEAD \<Rightarrow> string \<Rightarrow> string \<Rightarrow> string \<Rightarrow> nat \<Rightarrow> gcmStreamReader \<Rightarrow> bool" where
  "readerAt a pid hn xs i r \<longleftrightarrow>
     r_aead r = a \<and> r_providerID r = pid \<and> r_headerNonce r = hn \<and> r_salt r = drop streamKeyIDSize hn
     \<and> r_recordIndex r = word_of_nat i \<and> r_total r = word_of_nat (min (i * recSize) (length xs))
     \<and> r_shortData r = (length xs < i * recSize) \<and> r_buf r = [] \<and> \<not> r_final r"

lemma chunk_facts:
  assumes "i < recordCount xs"
  shows "i * recSize < length xs" "chunk xs i \<noteq> []" "length (chunk xs i) \<le> recSize"
    "length (chunk xs i) < recSize \<longleftrightarrow> length xs < (i + 1) * recSize"
    "min (i * recSize) (length xs) + length (chunk xs i) = min ((i + 1) * recSize) (length xs)"
    "drop (i * recSize) xs = chunk xs i @ drop ((i + 1) * recSize) xs"
proof -
  have "(i + 1) * recSize \<le> (length xs + recSize - 1) div recSize * recSize"
    using assms unfolding recordCount_def by (intro mult_le_mono1) simp
  also have "\<dots> \<le> length xs + recSize - 1" by (rule div_times_less_eq_dividend)
  finally show lt: "i * recSize < length xs" using recordSize_pos by simp
  then show "chunk xs i \<noteq> []" "length (chunk xs i) \<le> recSize"
    "length (chunk xs i) < recSize \<longleftrightarrow> length xs < (i + 1) * recSize"
    "min (i * recSize) (length xs) + length (chunk xs i) = min ((i + 1) * recSize) (length xs)"
    using recordSize_pos by (auto simp: chunk_def min_def)
  show "drop (i * recSize) xs = chunk xs i @ drop ((i + 1) * recSize) xs"
    unfolding chunk_def by (metis add.commute append_take_drop_id drop_drop mult.commute mult_Suc_right Suc_eq_plus1)
qed

lemma recordCount_covers: "length xs \<le> recordCount xs * recSize"
  using dividend_less_div_times[OF recordSize_pos, of "length xs"] div_mult_mod_eq[of "length xs" recSize]
  unfolding recordCount_eq by (auto simp: algebra_simps)

lemma readAll_records:
  assumes "opensOwn a (sealedBy pid hn xs)" "0 < n" "length xs \<le> maxStream"
  shows "i \<le> recordCount xs \<Longrightarrow> readerAt a pid hn xs i r \<Longrightarrow>
    r_src r = concat (map (\<lambda>j. dataRecord a pid hn j (chunk xs j)) [i..<recordCount xs]) @ finalRecord a pid hn (recordCount xs) (length xs) \<Longrightarrow>
    readAll n r = Inr (drop (i * recSize) xs)"
proof (induction "recordCount xs - i" arbitrary: i r)
  case 0
  then have i: "i = recordCount xs" by simp
  then have "r_src r = finalRecord a pid hn i (length xs)" "drop (i * recSize) xs = []"
      "min (i * recSize) (length xs) = length xs" using 0(4) recordCount_covers[of xs] by simp_all
  then have "readNextRecord r = Inr (r\<lparr>r_src := [], r_recordIndex := word_of_nat (Suc i), r_final := True\<rparr>)"
    using readNext_final[of r "sealedBy pid hn xs" i "length xs"] assms(1) sealedBy_final[of hn xs pid] recordCount_bound[OF assms(3)] 0(3) i by (simp add: readerAt_def)
  then show ?case using readAll_next[OF assms(2), of r] readAll_final[OF assms(2)] 0(3) \<open>drop (i * recSize) xs = []\<close>
    by (simp add: readerAt_def)
next
  case (Suc k)
  then have i: "i < recordCount xs" by simp
  note c = chunk_facts[OF i]
  let ?r = "r\<lparr>r_src := concat (map (\<lambda>j. dataRecord a pid hn j (chunk xs j)) [Suc i..<recordCount xs]) @ finalRecord a pid hn (recordCount xs) (length xs),
      r_shortData := (length (chunk xs i) < recSize), r_recordIndex := word_of_nat (Suc i),
      r_total := r_total r + word_of_nat (length (chunk xs i)), r_buf := chunk xs i\<rparr>"
  have step: "readNextRecord r = Inr ?r"
    using readNext_data[of r "sealedBy pid hn xs" i "chunk xs i"] assms(1) sealedBy_data[OF i, of hn pid] recordCount_bound[OF assms(3)] i Suc(4,5) c(1-3)
    by (simp add: readerAt_def upt_conv_Cons)
  have at: "readerAt a pid hn xs (Suc i) (?r\<lparr>r_buf := []\<rparr>)"
    using Suc(4) c(4,5) by (simp add: readerAt_def flip: of_nat_add)
  have "readAll n (?r\<lparr>r_buf := []\<rparr>) = Inr (drop (Suc i * recSize) xs)"
    by (rule Suc(1)[OF _ _ at]) (use Suc(2) i in simp_all)
  moreover have "readAll n ?r = andThen (readAll n (?r\<lparr>r_buf := []\<rparr>)) (\<lambda>ys. Inr (chunk xs i @ ys))"
    using readAll_buffered[OF assms(2), of ?r] by simp
  moreover have "readAll n r = readAll n ?r"
    using readAll_next[OF assms(2), of r] Suc(4) step by (simp add: readerAt_def)
  ultimately show ?case using c(6) by simp
qed

lemma read_encoded:
  assumes "opensOwn a (sealedBy pid hn xs)" and "0 < n" and "length xs \<le> maxStream"
  shows "readAll n (NewGCMStreamDecryptReader a (encodedStream a pid hn xs) pid hn) = Inr xs"
proof -
  let ?r = "NewGCMStreamDecryptReader a (encodedStream a pid hn xs) pid hn"
  have "readerAt a pid hn xs 0 ?r" by (simp add: readerAt_def NewGCMStreamDecryptReader_def)
  then have "readAll n ?r = Inr (drop (0 * recSize) xs)"
    by (rule readAll_records[OF assms, OF le0]) (simp add: NewGCMStreamDecryptReader_def encodedStream_def dataRecords_def)
  then show ?thesis by simp
qed

text \<open>
  C18 (stream_round_trip): whatever pieces a text is written in and whatever buffer it is read with, closing
  the writer gives a stream from which the reader returns exactly the text; the stream does not depend on
  the pieces. The text may have up to \<open>maxStream\<close> bytes, which is 256 TiB less one record.
\<close>

theorem stream_round_trip:
  assumes "aeadOK a" and "0 < n" and "length (concat ps) \<le> maxStream"
  shows "\<exists>w w'. writeAll (NewGCMStreamEncryptWriter a [] pid hn) ps = (w, None) \<and> Close w = (w', None)
     \<and> w_dst w' = encodedStream a pid hn (concat ps)
     \<and> readAll n (NewGCMStreamDecryptReader a (w_dst w') pid hn) = Inr (concat ps)"
proof -
  obtain w w' where w: "writeAll (NewGCMStreamEncryptWriter a [] pid hn) ps = (w, None)" "Close w = (w', None)"
    "w_dst w' = encodedStream a pid hn (concat ps)" using written_stream[OF assms(3), of a "[]" pid hn] by auto
  then show ?thesis using read_encoded[OF aeadOK_opensOwn[OF assms(1)] assms(2,3)] by auto
qed

section \<open>Integrity\<close>

lemma streamV3AAD_inj:
  "streamV3AAD pid hn t i l tot = streamV3AAD pid hn t' i' l' tot' \<longleftrightarrow> t = t' \<and> i = i' \<and> l = l' \<and> tot = tot'"
  by (simp add: streamV3AAD_def writeLengthPrefixedBytes_def Let_def append_eq_append_conv putUint32_inj putUint64_inj)

text \<open>Authenticity of the stream key: only what the writer sealed opens.\<close>

definition authentic :: "AEAD \<Rightarrow> (string \<times> string \<times> string) list \<Rightarrow> bool" where
  "authentic a made \<longleftrightarrow> (\<forall>nonce c aad plain. a_Open a nonce c aad = Some plain \<longrightarrow> (nonce, plain, aad) \<in> set made)"

lemma word64_eq: "i < 2 ^ 32 \<Longrightarrow> j < 2 ^ 32 \<Longrightarrow> (word_of_nat i :: 64 word) = word_of_nat j \<longleftrightarrow> i = j"
  by (simp add: word_unat_eq_iff unsigned_of_nat take_bit_nat_eq_self)

lemma readData_D:
  "readDataRecord r len = Inr r1 \<Longrightarrow> \<not> r_shortData r \<and> (\<exists>payload plain src.
     a_Open (r_aead r) (streamV3RecordNonce (r_salt r) (r_recordIndex r)) payload
       (streamV3AAD (r_providerID r) (r_headerNonce r) streamV3RecordTypeData (r_recordIndex r) len 0) = Some plain
     \<and> r1 = r\<lparr>r_src := src, r_shortData := (len < word_of_nat recSize \<or> r_shortData r), r_recordIndex := r_recordIndex r + 1,
             r_total := r_total r + ucast len, r_buf := plain\<rparr>)"
  unfolding readDataRecord_def Let_def by (fastforce split: option.splits if_splits)

lemma readFinal_D:
  "readFinalRecord r len = Inr r1 \<Longrightarrow> \<exists>payload plain.
     a_Open (r_aead r) (streamV3RecordNonce (r_salt r) (r_recordIndex r)) payload
       (streamV3AAD (r_providerID r) (r_headerNonce r) streamV3RecordTypeFinal (r_recordIndex r) 0 (r_total r)) = Some plain
     \<and> r1 = r\<lparr>r_src := [], r_recordIndex := r_recordIndex r + 1, r_final := True\<rparr>"
  unfolding readFinalRecord_def Let_def by (fastforce split: option.splits if_splits)

lemma readNext_cases:
  assumes "readNextRecord r = Inr r1"
  obtains (data) len payload plain src where
      "a_Open (r_aead r) (streamV3RecordNonce (r_salt r) (r_recordIndex r)) payload
         (streamV3AAD (r_providerID r) (r_headerNonce r) streamV3RecordTypeData (r_recordIndex r) len 0) = Some plain"
      "r1 = r\<lparr>r_src := src, r_shortData := (len < word_of_nat recSize \<or> r_shortData r), r_recordIndex := r_recordIndex r + 1,
             r_total := r_total r + ucast len, r_buf := plain\<rparr>" "\<not> r_shortData r"
  | (final) payload plain where
      "a_Open (r_aead r) (streamV3RecordNonce (r_salt r) (r_recordIndex r)) payload
         (streamV3AAD (r_providerID r) (r_headerNonce r) streamV3RecordTypeFinal (r_recordIndex r) 0 (r_total r)) = Some plain"
      "r1 = r\<lparr>r_src := [], r_recordIndex := r_recordIndex r + 1, r_final := True\<rparr>"
proof -
  have "\<exists>src len. readDataRecord (r\<lparr>r_src := src\<rparr>) len = Inr r1 \<or> readFinalRecord (r\<lparr>r_src := src\<rparr>) len = Inr r1"
  proof (cases "readFull streamV3RecordHeaderSize (r_src r)")
    case None
    then show ?thesis using assms by (simp add: readNextRecord_def)
  next
    case (Some hs)
    obtain header src where hs: "hs = (header, src)" by (cases hs)
    have "readDataRecord (r\<lparr>r_src := src\<rparr>) (getUint32 (drop 1 header)) = Inr r1
        \<or> readFinalRecord (r\<lparr>r_src := src\<rparr>) (getUint32 (drop 1 header)) = Inr r1"
      using assms unfolding readNextRecord_def Let_def Some hs by (auto simp: andThen_eq_Inr split: if_splits)
    then show ?thesis by metis
  qed
  then obtain src len where "readDataRecord (r\<lparr>r_src := src\<rparr>) len = Inr r1 \<or> readFinalRecord (r\<lparr>r_src := src\<rparr>) len = Inr r1"
    by blast
  then show thesis
  proof
    assume "readDataRecord (r\<lparr>r_src := src\<rparr>) len = Inr r1"
    from readData_D[OF this] show thesis by (elim conjE exE) (rule data, simp_all)
  next
    assume "readFinalRecord (r\<lparr>r_src := src\<rparr>) len = Inr r1"
    from readFinal_D[OF this] show thesis by (elim conjE exE) (rule final, simp_all)
  qed
qed

lemma sealed_data:
  assumes "authentic a (sealedBy pid hn xs)" "length xs \<le> maxStream" "i < 2 ^ 32"
    and "a_Open a nonce c (streamV3AAD pid hn streamV3RecordTypeData (word_of_nat i) len 0) = Some plain"
  shows "i < recordCount xs \<and> plain = chunk xs i \<and> len = word_of_nat (length (chunk xs i))"
proof -
  have "(nonce, plain, streamV3AAD pid hn streamV3RecordTypeData (word_of_nat i) len 0) \<in> set (sealedBy pid hn xs)"
    using assms(1,4) unfolding authentic_def by blast
  moreover have "streamV3RecordTypeFinal \<noteq> streamV3RecordTypeData" by (simp add: streamV3RecordTypeFinal_def streamV3RecordTypeData_def)
  ultimately show ?thesis
    using recordCount_bound[OF assms(2)] word64_eq[OF assms(3)]
    by (auto simp: sealedBy_def dataAAD_def finalAAD_def streamV3AAD_inj)
qed

lemma sealed_final:
  assumes "authentic a (sealedBy pid hn xs)" "length xs \<le> maxStream" "i < 2 ^ 32"
    and "a_Open a nonce c (streamV3AAD pid hn streamV3RecordTypeFinal (word_of_nat i) 0 tot) = Some plain"
  shows "i = recordCount xs"
proof -
  have "(nonce, plain, streamV3AAD pid hn streamV3RecordTypeFinal (word_of_nat i) 0 tot) \<in> set (sealedBy pid hn xs)"
    using assms(1,4) unfolding authentic_def by blast
  moreover have "streamV3RecordTypeFinal \<noteq> streamV3RecordTypeData" by (simp add: streamV3RecordTypeFinal_def streamV3RecordTypeData_def)
  ultimately show ?thesis
    using recordCount_bound[OF assms(2)] word64_eq[OF assms(3)]
    by (auto simp: sealedBy_def dataAAD_def finalAAD_def streamV3AAD_inj)
qed

lemma readAll_authentic:
  assumes au: "authentic a (sealedBy pid hn xs)" and "0 < n" and len: "length xs \<le> maxStream"
  shows "i \<le> recordCount xs \<Longrightarrow> readerAt a pid hn xs i r \<Longrightarrow> readAll n r = Inr out \<Longrightarrow> out = drop (i * recSize) xs"
proof (induction "recordCount xs - i" arbitrary: i r out rule: less_induct)
  case less
  have i32: "i < 2 ^ 32" using less(2) recordCount_bound[OF len] by simp
  note at = less(3)[unfolded readerAt_def]
  obtain r1 where r1: "readNextRecord r = Inr r1" "readAll n r1 = Inr out"
    using readAll_next[OF assms(2), of r] at less(4) by (auto split: sum.splits)
  from r1(1) show ?case
  proof (cases rule: readNext_cases)
    case (data l payload plain src)
    then have s: "i < recordCount xs" "plain = chunk xs i" "l = word_of_nat (length (chunk xs i))"
      using sealed_data[OF au len i32] at by auto
    note c = chunk_facts[OF s(1)]
    have ll: "unat l = length (chunk xs i)"
      using c(3) by (simp add: s(3) streamV3RecordPlaintextSize_def unsigned_of_nat take_bit_nat_eq_self)
    then have "ucast l = (word_of_nat (length (chunk xs i)) :: 64 word)" "l < word_of_nat recSize \<longleftrightarrow> length (chunk xs i) < recSize"
      using of_nat_unat[of l, where 'a = "64 word"] recSize_word by (simp_all add: word_less_nat_alt)
    moreover have "r_total r = word_of_nat (min (i * recSize) (length xs))" using at by blast
    then have "r_total r + word_of_nat (length (chunk xs i)) = word_of_nat (min ((i + 1) * recSize) (length xs))"
      by (simp only: of_nat_add[symmetric] c(5))
    ultimately have "readerAt a pid hn xs (Suc i) (r1\<lparr>r_buf := []\<rparr>)"
      using at c(4) data(3) by (simp add: readerAt_def data(2) add.commute)
    moreover have "r_buf r1 = chunk xs i" by (simp add: data(2) s(2))
    then have "andThen (readAll n (r1\<lparr>r_buf := []\<rparr>)) (\<lambda>ys. Inr (chunk xs i @ ys)) = Inr out"
      using r1(2) readAll_buffered[OF assms(2), of r1] by simp
    then obtain ys where "readAll n (r1\<lparr>r_buf := []\<rparr>) = Inr ys" "out = chunk xs i @ ys" by (auto simp: andThen_eq_Inr)
    ultimately show ?thesis using less(1)[of "Suc i" "r1\<lparr>r_buf := []\<rparr>" ys] s(1) c(6) by simp
  next
    case (final payload plain)
    then have "i = recordCount xs" using sealed_final[OF au len i32] at by auto
    then show ?thesis using r1(2) readAll_final[OF assms(2), of r1] final(2) at recordCount_covers[of xs] by simp
  qed
qed

text \<open>
  C17 (stream_integrity): where only what the writer sealed under the stream key opens, a reader that reaches the end
  of any stream returns exactly the text that was written: a stream that was cut at a record, reordered,
  extended or changed in any byte is refused.
\<close>

theorem stream_integrity:
  assumes "authentic a (sealedBy pid hn xs)" and "length xs \<le> maxStream" and "0 < n"
    and "readAll n (NewGCMStreamDecryptReader a src pid hn) = Inr out"
  shows "out = xs"
proof -
  have "readerAt a pid hn xs 0 (NewGCMStreamDecryptReader a src pid hn)" by (simp add: readerAt_def NewGCMStreamDecryptReader_def)
  from readAll_authentic[OF assms(1,3,2) le0 this assms(4)] show ?thesis by simp
qed

section \<open>Streams through the service\<close>

definition keyMatches :: "(string \<Rightarrow> string) \<Rightarrow> string \<Rightarrow> string \<Rightarrow> bool" where
  "keyMatches sum256 want key \<longleftrightarrow> key \<noteq> [] \<and> streamKeyID sum256 key = want"

lemma selectKey_skip:
  "list_all (\<lambda>k. \<not> keyMatches sum256 want k) pre \<Longrightarrow> keyMatches sum256 want key \<Longrightarrow>
   selectKeyLoop sum256 want (pre @ key # post) = Inr key"
  by (induction pre) (auto simp: keyMatches_def)

lemma NewGCMStreamNonce_bytes:
  assumes "length rnd = 16" and "8 \<le> length (sum256 key)"
  shows "NewGCMStreamNonce sum256 key rnd = streamKeyID sum256 key @ rnd" "length (streamKeyID sum256 key) = streamKeyIDSize"
  using assms
  by (simp_all add: NewGCMStreamNonce_def streamKeyID_def copyAt_def streamV3HeaderNonceSize_def streamKeyIDSize_def streamV3SaltSize_def Let_def)

definition streamHeader :: "string \<Rightarrow> Header" where
  "streamHeader nonce = \<lparr>h_Version = VersionAttachmentStreamAESGCM, h_ProviderID = ''dek'', h_Nonce = nonce\<rparr>"

lemma HasMagic_take: "HasMagic (take 4 (magic @ xs))"
  by (simp add: HasMagic_def magic_def)

text \<open>
  An attachment written through a \<open>dek\<close> provider and read through the service
  comes back unchanged, also when the provider's keys were rotated: the reader finds the writer's key by
  the key id in the header, wherever it stands among the keys, when no earlier key has the same id.
\<close>

theorem attachment_round_trip:
  assumes "headerCodecOK hc" and "hc_Marshal hc (streamHeader (streamKeyID sum256 (dp_primaryKey p) @ rnd)) = Some b" and "length b \<le> 4096"
    and "length rnd = 16" and "8 \<le> length (sum256 (dp_primaryKey p))" and "dp_primaryKey p \<noteq> []"
    and "dekEncryptStream newGCM hkdf sum256 hc p rnd [] = Inr w" and "aeadOK (w_aead w)"
    and "dp_primaryKey q # dp_legacyKeys q = pre @ dp_primaryKey p # post"
    and "list_all (\<lambda>k. \<not> keyMatches sum256 (streamKeyID sum256 (dp_primaryKey p)) k) pre"
    and "sv_byID s ''dek'' = Some pv" and "dispatch pv = dekDecryptStream newGCM hkdf sum256 q"
    and "length (concat ps) \<le> maxStream" and "0 < n"
  shows "\<exists>w1 w2 r. writeAll w ps = (w1, None) \<and> Close w1 = (w2, None)
     \<and> serviceDecryptStream hc dispatch s (w_dst w2) = Inr (RecordReader r) \<and> readAll n r = Inr (concat ps)"
proof -
  let ?id = "streamKeyID sum256 (dp_primaryKey p)"
  let ?nonce = "?id @ rnd"
  have nonce: "NewGCMStreamNonce sum256 (dp_primaryKey p) rnd = ?nonce" "length ?id = streamKeyIDSize"
    using NewGCMStreamNonce_bytes[of rnd sum256 "dp_primaryKey p"] assms(4,5) by simp_all
  have nl: "length ?nonce = streamV3HeaderNonceSize"
    using nonce(2) assms(4) by (simp add: streamV3HeaderNonceSize_def streamV3SaltSize_def)
  let ?prefix = "magic @ putVarint32 (word_of_nat (length b)) @ b"
  obtain a where a: "newStreamV3AEAD newGCM hkdf (dp_primaryKey p) ?nonce = Inr a"
    and w: "w = NewGCMStreamEncryptWriter a ?prefix ''dek'' ?nonce"
    using assms(2,7) by (auto simp: dekEncryptStream_def Let_def nonce(1) WriteHeader_def EncodeHeader_bytes streamHeader_def andThen_eq_Inr)
  have ok: "aeadOK a" using assms(8) by (simp add: w NewGCMStreamEncryptWriter_def)
  obtain w1 w2 where w12: "writeAll w ps = (w1, None)" "Close w1 = (w2, None)" "w_dst w2 = ?prefix @ encodedStream a ''dek'' ?nonce (concat ps)"
    unfolding w using written_stream[OF assms(13), of a ?prefix "''dek''" ?nonce] by blast
  have head: "ReadHeader hc (?prefix @ rest) = HeaderOK (streamHeader ?nonce) rest" for rest
    using ReadHeader_encoded[of b hc rest] assms(1-3) by (simp add: headerCodecOK_def)
  have key: "SelectGCMStreamKey sum256 (dp_primaryKey q # dp_legacyKeys q) ?nonce = Inr (dp_primaryKey p)"
    using selectKey_skip[OF assms(10), of "dp_primaryKey p" post] assms(6) nl nonce(2)
    by (simp add: SelectGCMStreamKey_def assms(9) keyMatches_def)
  let ?r = "NewGCMStreamDecryptReader a (encodedStream a ''dek'' ?nonce (concat ps)) ''dek'' ?nonce"
  have "serviceDecryptStream hc dispatch s (w_dst w2) = Inr (RecordReader ?r)"
    unfolding serviceDecryptStream_def Let_def append_take_drop_id w12(3)
    by (simp only: HasMagic_take append_assoc if_True head[unfolded append_assoc] HeaderRead.case)
       (simp add: streamHeader_def assms(11,12) key a dekDecryptStream_def)
  then show ?thesis using w12(1,2) read_encoded[OF aeadOK_opensOwn[OF ok] assms(14,13)] by auto
qed

section \<open>Sample streams\<close>

lemma small_stream: "length xs \<le> 1000 \<Longrightarrow> length xs \<le> maxStream"
  by (simp add: maxStream_def streamV3RecordPlaintextSize_def)

definition sampleAEAD :: AEAD where
  "sampleAEAD = projr (sampleGCM ''key-one'')"

lemma sampleAEAD_ok: "aeadOK sampleAEAD" "sampleGCM ''key-one'' = Inr sampleAEAD"
  using sampleGCM_ok[of "''key-one''"] by (simp_all add: sampleAEAD_def sampleGCM_def)

theorem stream_round_trip_witness:
  "\<exists>w w'. writeAll (NewGCMStreamEncryptWriter sampleAEAD [] ''dek'' ''nonce'') [''hel'', [], ''lo''] = (w, None) \<and> Close w = (w', None)
     \<and> readAll 3 (NewGCMStreamDecryptReader sampleAEAD (w_dst w') ''dek'' ''nonce'') = Inr ''hello''"
proof -
  have "length (concat [''hel'', [], ''lo'']) \<le> maxStream" by (rule small_stream) simp
  from stream_round_trip[OF sampleAEAD_ok(1) _ this, of 3 "''dek''" "''nonce''"] show ?thesis by auto
qed

text \<open>A cipher that opens the entries of a ledger only.\<close>

definition ledgerAEAD :: "(string \<times> string \<times> string) list \<Rightarrow> AEAD" where
  "ledgerAEAD made =
     \<lparr>a_Seal = (\<lambda>nonce plain aad. plain), a_Open = (\<lambda>nonce c aad. if (nonce, c, aad) \<in> set made then Some c else None), a_Overhead = 0\<rparr>"

lemma ledgerAEAD_ok: "authentic (ledgerAEAD made) made" "opensOwn (ledgerAEAD made) made"
  by (auto simp: authentic_def opensOwn_def ledgerAEAD_def list_all_iff split: if_splits)

definition sampleLedger :: AEAD where
  "sampleLedger = ledgerAEAD (sealedBy ''dek'' ''nonce'' ''hello'')"

theorem stream_integrity_witness:
  "\<exists>out. readAll 3 (NewGCMStreamDecryptReader sampleLedger (encodedStream sampleLedger ''dek'' ''nonce'' ''hello'') ''dek'' ''nonce'') = Inr out
     \<and> out = ''hello''"
proof -
  have len: "length ''hello'' \<le> maxStream" by (rule small_stream) simp
  have "readAll 3 (NewGCMStreamDecryptReader sampleLedger (encodedStream sampleLedger ''dek'' ''nonce'' ''hello'') ''dek'' ''nonce'') = Inr ''hello''"
    using read_encoded[OF ledgerAEAD_ok(2) _ len, of 3] by (simp add: sampleLedger_def)
  moreover note stream_integrity[OF ledgerAEAD_ok(1) len _ this[unfolded sampleLedger_def]]
  ultimately show ?thesis by auto
qed

definition sampleHash :: "string \<Rightarrow> string" where
  "sampleHash key = take 32 (key @ replicate 32 zeroByte)"

definition sampleHkdf :: "string \<Rightarrow> string \<Rightarrow> string \<Rightarrow> nat \<Rightarrow> string result" where
  "sampleHkdf key salt info n = Inr (take n (key @ salt @ info))"

definition sampleDispatch :: "Provider \<Rightarrow> string \<Rightarrow> Header option \<Rightarrow> StreamReader result" where
  "sampleDispatch pv = (if pv_ID pv = ''dek'' then dekDecryptStream sampleGCM sampleHkdf sampleHash rotatedDek else plainDecryptStream)"

theorem attachment_round_trip_witness:
  "\<exists>w w1 w2 r. dekEncryptStream sampleGCM sampleHkdf sampleHash sampleHeaderCodec sampleDek ''0123456789abcdef'' [] = Inr w
     \<and> writeAll w [''hel'', ''lo''] = (w1, None) \<and> Close w1 = (w2, None)
     \<and> serviceDecryptStream sampleHeaderCodec sampleDispatch \<lparr>sv_primary = sampleDekProvider, sv_byID = [''dek'' \<mapsto> sampleDekProvider]\<rparr> (w_dst w2)
         = Inr (RecordReader r)
     \<and> readAll 4 r = Inr ''hello''"
proof -
  let ?id = "streamKeyID sampleHash (dp_primaryKey sampleDek)"
  let ?enc = "dekEncryptStream sampleGCM sampleHkdf sampleHash sampleHeaderCodec sampleDek ''0123456789abcdef'' []"
  have "case ?enc of Inl _ \<Rightarrow> False | Inr _ \<Rightarrow> True" by code_simp
  then obtain w where w: "?enc = Inr w" by (auto split: sum.splits)
  then obtain key where "sampleGCM key = Inr (w_aead w)"
    by (auto simp: dekEncryptStream_def Let_def andThen_eq_Inr newStreamV3AEAD_def NewGCMStreamEncryptWriter_def split: if_splits)
  then have aead: "aeadOK (w_aead w)" by (rule sampleGCM_ok)
  have "case hc_Marshal sampleHeaderCodec (streamHeader (?id @ ''0123456789abcdef'')) of None \<Rightarrow> False | Some b \<Rightarrow> length b \<le> 4096"
    by code_simp
  then obtain b where b: "hc_Marshal sampleHeaderCodec (streamHeader (?id @ ''0123456789abcdef'')) = Some b" "length b \<le> 4096"
    by (auto split: option.splits)
  have len: "length (concat [''hel'', ''lo'']) \<le> maxStream" by (rule small_stream) simp
  have "dp_primaryKey sampleDek \<noteq> []" "8 \<le> length (sampleHash (dp_primaryKey sampleDek))" "length ''0123456789abcdef'' = 16"
    "list_all (\<lambda>k. \<not> keyMatches sampleHash ?id k) [''key-two'']"
    "dp_primaryKey rotatedDek # dp_legacyKeys rotatedDek = [''key-two''] @ dp_primaryKey sampleDek # []" by code_simp+
  moreover have "sampleDispatch sampleDekProvider = dekDecryptStream sampleGCM sampleHkdf sampleHash rotatedDek"
    by (simp add: sampleDispatch_def sampleDekProvider_def dekAsProvider_def)
  ultimately show ?thesis
    using attachment_round_trip[OF sampleHeaderCodec_ok b _ _ _ w aead, of rotatedDek "[''key-two'']" "[]"
        "\<lparr>sv_primary = sampleDekProvider, sv_byID = [''dek'' \<mapsto> sampleDekProvider]\<rparr>" sampleDekProvider sampleDispatch, OF _ _ _ _ _ _ _ len]
      w by simp
qed

end
