(* ===== verification/Attachment_Facts.thy ===== *)
theory Attachment_Facts
  imports Attachments
begin

text \<open>
  The content of attachments is kept as long as an attachment refers to it. The invariant of the state
  machine relates the task of a storage key to the references to the key and to the deletions under way.
\<close>

section \<open>The task of a storage key\<close>

definition blobKey :: "Task \<Rightarrow> string option" where
  "blobKey t =
     (if tk_TaskType t \<noteq> AttachmentBlobDeleteTaskType then None
      else case map_of (tk_TaskBody t) AttachmentBlobDeleteStorageKeyField of Some (JString k) \<Rightarrow> Some k | _ \<Rightarrow> None)"

definition taskState :: "Task \<Rightarrow> string" where
  "taskState t = AttachmentBlobDeleteTaskState (tk_TaskBody t)"

definition wfTask :: "(string \<Rightarrow> string) \<Rightarrow> string set \<Rightarrow> Task \<Rightarrow> bool" where
  "wfTask digest keys t \<longleftrightarrow>
     (tk_TaskType t = AttachmentBlobDeleteTaskType \<longrightarrow> blobKey t \<noteq> None)
     \<and> (\<forall>k. blobKey t = Some k \<longrightarrow> k \<in> keys \<and> tk_TaskName t = Some (AttachmentBlobDeleteTaskName digest k))
     \<and> (\<forall>k \<in> keys. tk_TaskName t = Some (AttachmentBlobDeleteTaskName digest k) \<longrightarrow> blobKey t = Some k)"

definition uniqueRows :: "Task list \<Rightarrow> bool" where
  "uniqueRows ts \<longleftrightarrow> (\<forall>t \<in> set ts. \<forall>u \<in> set ts. tk_ID t = tk_ID u \<or> (tk_TaskName t \<noteq> None \<and> tk_TaskName t = tk_TaskName u) \<longrightarrow> t = u)"

definition wfTasks :: "(string \<Rightarrow> string) \<Rightarrow> string set \<Rightarrow> Task list \<Rightarrow> bool" where
  "wfTasks digest keys ts \<longleftrightarrow>
     uniqueRows ts \<and> (\<forall>t \<in> set ts. wfTask digest keys t)"

lemma wf_name:
  "wfTasks digest keys ts \<Longrightarrow> t \<in> set ts \<Longrightarrow> blobKey t = Some k \<Longrightarrow> tk_TaskName t = Some (AttachmentBlobDeleteTaskName digest k)"
  unfolding wfTasks_def wfTask_def by blast

lemma wf_key:
  "wfTasks digest keys ts \<Longrightarrow> t \<in> set ts \<Longrightarrow> tk_TaskName t = Some (AttachmentBlobDeleteTaskName digest k) \<Longrightarrow> k \<in> keys
   \<Longrightarrow> blobKey t = Some k"
  unfolding wfTasks_def wfTask_def by blast

lemma uniqueRows_id: "uniqueRows ts \<Longrightarrow> t \<in> set ts \<Longrightarrow> u \<in> set ts \<Longrightarrow> tk_ID t = tk_ID u \<Longrightarrow> t = u"
  unfolding uniqueRows_def by blast

lemma uniqueRows_name:
  "uniqueRows ts \<Longrightarrow> t \<in> set ts \<Longrightarrow> u \<in> set ts \<Longrightarrow> tk_TaskName t = Some n \<Longrightarrow> tk_TaskName u = Some n \<Longrightarrow> t = u"
  unfolding uniqueRows_def by (drule bspec, assumption, drule bspec, assumption) simp

definition keyClaimed :: "Task list \<Rightarrow> string \<Rightarrow> bool" where
  "keyClaimed ts k \<longleftrightarrow> (\<exists>t \<in> set ts. blobKey t = Some k \<and> taskState t = AttachmentBlobDeleteStateClaimed)"

text \<open>What an operation on the queue keeps: well-formed tasks, claims, and the key of each task but new ones.\<close>

definition queue_kept :: "(string \<Rightarrow> string) \<Rightarrow> string set \<Rightarrow> uuid set \<Rightarrow> Task list \<Rightarrow> Task list \<Rightarrow> bool" where
  "queue_kept digest keys I ts ts' \<longleftrightarrow>
     wfTasks digest keys ts'
     \<and> (\<forall>k. keyClaimed ts k \<longrightarrow> keyClaimed ts' k)
     \<and> (\<forall>t' \<in> set ts'. tk_ID t' \<notin> I \<longrightarrow> (\<exists>t \<in> set ts. tk_ID t = tk_ID t' \<and> blobKey t = blobKey t'))"

lemma queue_kept_refl: "wfTasks digest keys ts \<Longrightarrow> queue_kept digest keys I ts ts"
  by (auto simp: queue_kept_def)

lemma queue_kept_mono: "queue_kept digest keys I ts ts' \<Longrightarrow> I \<subseteq> J \<Longrightarrow> queue_kept digest keys J ts ts'"
  by (auto simp: queue_kept_def)

lemma queue_kept_trans:
  assumes "queue_kept digest keys I a b" and "queue_kept digest keys I b c"
  shows "queue_kept digest keys I a c"
  using assms unfolding queue_kept_def by metis

text \<open>Changes of rows that leave id, name and key.\<close>

definition sameTask :: "Task \<Rightarrow> Task \<Rightarrow> bool" where
  "sameTask t t' \<longleftrightarrow> tk_ID t' = tk_ID t \<and> tk_TaskName t' = tk_TaskName t \<and> tk_TaskType t' = tk_TaskType t \<and> blobKey t' = blobKey t"

lemma sameTask_refl [simp]: "sameTask t t"
  by (simp add: sameTask_def)

lemma map_of_setKey_other: "k' \<noteq> k \<Longrightarrow> map_of (setKey k v m) k' = map_of m k'"
  by (induction m) auto

lemma setState_same [simp]: "sameTask t (setState state t)"
  by (auto simp: sameTask_def setState_def blobKey_def map_of_setKey_other AttachmentBlobDeleteStateField_def
      AttachmentBlobDeleteStorageKeyField_def)

lemma sameTask_times [simp]:
  "sameTask t (t'\<lparr>tk_RetryAt := r\<rparr>) = sameTask t t'" "sameTask t (t'\<lparr>tk_LastError := e\<rparr>) = sameTask t t'"
  "sameTask t (t'\<lparr>tk_RetryCount := n\<rparr>) = sameTask t t'"
  by (simp_all add: sameTask_def blobKey_def)

lemma taskState_times [simp]:
  "taskState (t\<lparr>tk_RetryAt := r\<rparr>) = taskState t" "taskState (t\<lparr>tk_LastError := e\<rparr>) = taskState t"
  "taskState (t\<lparr>tk_RetryCount := n\<rparr>) = taskState t"
  by (simp_all add: taskState_def)

lemma wfTasks_map:
  assumes "wfTasks digest keys ts" and "\<And>t. t \<in> set ts \<Longrightarrow> sameTask t (f t)"
  shows "wfTasks digest keys (map f ts)"
proof -
  have same: "tk_ID (f t) = tk_ID t" "tk_TaskName (f t) = tk_TaskName t" "wfTask digest keys (f t) = wfTask digest keys t"
    if "t \<in> set ts" for t
    using assms(2)[OF that] by (simp_all add: sameTask_def wfTask_def)
  have "uniqueRows (map f ts)"
    unfolding uniqueRows_def
  proof (intro ballI impI)
    fix x y assume xy: "x \<in> set (map f ts)" "y \<in> set (map f ts)"
      and eq: "tk_ID x = tk_ID y \<or> (tk_TaskName x \<noteq> None \<and> tk_TaskName x = tk_TaskName y)"
    from xy obtain t u where tu: "t \<in> set ts" "u \<in> set ts" "x = f t" "y = f u" unfolding set_map by (elim imageE)
    have "uniqueRows ts" using assms(1) by (simp add: wfTasks_def)
    moreover have "tk_ID t = tk_ID u \<or> (tk_TaskName t \<noteq> None \<and> tk_TaskName t = tk_TaskName u)"
      using eq same[OF tu(1)] same[OF tu(2)] tu(3,4) by simp
    ultimately have "t = u" using tu(1,2) unfolding uniqueRows_def by blast
    then show "x = y" using tu by simp
  qed
  then show ?thesis using assms(1) same(3) by (simp add: wfTasks_def)
qed

lemma queue_kept_map:
  assumes "wfTasks digest keys ts" and "\<And>t. t \<in> set ts \<Longrightarrow> sameTask t (f t)"
    and "\<And>t. t \<in> set ts \<Longrightarrow> blobKey t \<noteq> None \<Longrightarrow> taskState t = AttachmentBlobDeleteStateClaimed \<Longrightarrow> taskState (f t) = AttachmentBlobDeleteStateClaimed"
  shows "queue_kept digest keys I ts (map f ts)"
  unfolding queue_kept_def
proof (intro conjI allI impI ballI)
  show "wfTasks digest keys (map f ts)" by (rule wfTasks_map[OF assms(1,2)])
  show "keyClaimed (map f ts) k" if "keyClaimed ts k" for k
    using that assms(2,3) by (fastforce simp: keyClaimed_def sameTask_def)
  show "\<exists>t \<in> set ts. tk_ID t = tk_ID t' \<and> blobKey t = blobKey t'" if "t' \<in> set (map f ts)" for t'
    using that assms(2) by (fastforce simp: sameTask_def)
qed

lemma queue_kept_insert:
  assumes wf: "wfTasks digest keys ts" and ok: "insertTask ts t = Inr ts'" and t: "wfTask digest keys t"
  shows "queue_kept digest keys {tk_ID t} ts ts'"
proof -
  have free: "\<not> taskKeyTaken ts t" and ts': "ts' = ts @ [t]"
    using ok by (auto simp: insertTask_def split: if_splits)
  then have "\<forall>x \<in> set ts. tk_ID x \<noteq> tk_ID t \<and> (tk_TaskName t \<noteq> None \<longrightarrow> tk_TaskName x \<noteq> tk_TaskName t)"
    by (auto simp: taskKeyTaken_def list_ex_iff)
  then have "uniqueRows ts'"
    using wf unfolding ts' wfTasks_def uniqueRows_def set_append by (metis Un_iff empty_set empty_iff insert_iff list.simps(15))
  then have "wfTasks digest keys ts'" using wf t by (simp add: wfTasks_def ts')
  then show ?thesis by (auto simp: queue_kept_def keyClaimed_def ts')
qed

lemma wfTasks_filter: "wfTasks digest keys ts \<Longrightarrow> wfTasks digest keys (filter P ts)"
  unfolding wfTasks_def uniqueRows_def set_filter by blast

lemma wf_sameKey:
  assumes "wfTasks digest keys ts" "t \<in> set ts" "u \<in> set ts" "blobKey t = Some k" "blobKey u = Some k"
  shows "t = u"
proof -
  have "tk_TaskName t = Some (AttachmentBlobDeleteTaskName digest k)" "tk_TaskName u = Some (AttachmentBlobDeleteTaskName digest k)"
    using assms by (blast intro: wf_name)+
  moreover have "uniqueRows ts" using assms(1) by (simp add: wfTasks_def)
  ultimately show ?thesis using assms(2,3) by (blast intro: uniqueRows_name)
qed

lemma keyClaimed_iff:
  assumes "wfTasks digest keys ts" "t \<in> set ts" "blobKey t = Some k"
  shows "keyClaimed ts k \<longleftrightarrow> taskState t = AttachmentBlobDeleteStateClaimed"
  unfolding keyClaimed_def using assms wf_sameKey[OF assms(1) _ assms(2) _ assms(3)] by metis

lemma findTaskByName_None:
  assumes "wfTasks digest keys ts" "findTaskByName ts (AttachmentBlobDeleteTaskName digest k) = None"
  shows "\<not> keyClaimed ts k"
proof
  assume "keyClaimed ts k"
  then obtain t where "t \<in> set ts" "blobKey t = Some k" by (auto simp: keyClaimed_def)
  then have "t \<in> set ts" "tk_TaskName t = Some (AttachmentBlobDeleteTaskName digest k)"
    using assms(1) by (blast intro: wf_name)+
  then show False using assms(2) by (simp add: findTaskByName_def find_None_iff)
qed

lemma findTaskByName_Some:
  assumes "wfTasks digest keys ts" "k \<in> keys" "findTaskByName ts (AttachmentBlobDeleteTaskName digest k) = Some t"
  shows "t \<in> set ts" "blobKey t = Some k"
proof -
  show "t \<in> set ts" using assms(3) unfolding findTaskByName_def by (metis find_Some_iff nth_mem)
  moreover have "tk_TaskName t = Some (AttachmentBlobDeleteTaskName digest k)"
    using assms(3) unfolding findTaskByName_def by (metis (mono_tags, lifting) find_Some_iff)
  ultimately show "blobKey t = Some k" using assms(1,2) by (blast intro: wf_key)
qed

lemma wfTask_attachmentBlobTask:
  assumes "inj_on digest keys" "k \<in> keys"
  shows "wfTask digest keys ((attachmentBlobTask digest i rt k state)\<lparr>tk_RetryAt := r\<rparr>)" "wfTask digest keys (attachmentBlobTask digest i rt k state)"
  using assms
  by (auto simp: wfTask_def attachmentBlobTask_def Let_def newTask_def blobKey_def AttachmentBlobDeleteTaskName_def
      AttachmentBlobDeleteStorageKeyField_def dest: inj_onD)

lemma queue_kept_reschedule:
  assumes wf: "wfTasks digest keys ts" and t: "t \<in> set ts" "taskState t \<noteq> AttachmentBlobDeleteStateClaimed"
  shows "queue_kept digest keys I ts (rescheduleTask (tk_ID t) state retryAt ts)"
  unfolding rescheduleTask_def update_where_def
proof (rule queue_kept_map[OF wf])
  fix u assume u: "u \<in> set ts" "taskState u = AttachmentBlobDeleteStateClaimed"
  then have "tk_ID u \<noteq> tk_ID t" using wf t uniqueRows_id by (metis wfTasks_def)
  then show "taskState (if tk_ID u = tk_ID t then (setState state u)\<lparr>tk_RetryAt := retryAt, tk_LastError := None\<rparr> else u) = AttachmentBlobDeleteStateClaimed"
    using u by simp
qed simp

lemmas task_states = AttachmentBlobDeleteStateReferenced_def AttachmentBlobDeleteStateQueued_def AttachmentBlobDeleteStateClaimed_def

text \<open>A reference is only registered while the content is not being deleted.\<close>

lemma register_kept:
  assumes wf: "wfTasks digest keys ts" and inj: "inj_on digest keys" and k: "k \<in> keys"
    and ok: "RegisterAttachmentBlobReference digest ts i rt k = Inr ts'"
  shows "queue_kept digest keys {i} ts ts' \<and> \<not> keyClaimed ts k"
proof (cases "findTaskByName ts (AttachmentBlobDeleteTaskName digest k)")
  case None
  then have "insertTask ts ((attachmentBlobTask digest i rt k AttachmentBlobDeleteStateReferenced)\<lparr>tk_RetryAt := farFuture\<rparr>) = Inr ts'"
    using ok by (simp add: RegisterAttachmentBlobReference_def)
  from queue_kept_insert[OF wf this wfTask_attachmentBlobTask(1)[OF inj k]] show ?thesis
    using findTaskByName_None[OF wf None] by (simp add: attachmentBlobTask_def newTask_def Let_def)
next
  case (Some t)
  note t = findTaskByName_Some[OF wf k Some]
  have st: "taskState t \<noteq> AttachmentBlobDeleteStateClaimed"
    and ts': "ts' = ts \<or> ts' = rescheduleTask (tk_ID t) AttachmentBlobDeleteStateReferenced farFuture ts"
    using ok Some by (auto simp: RegisterAttachmentBlobReference_def taskState_def Let_def task_states split: if_splits)
  then show ?thesis
    using queue_kept_refl[OF wf] queue_kept_reschedule[OF wf t(1) st] keyClaimed_iff[OF wf t] by auto
qed

lemma queue_delete_kept:
  assumes wf: "wfTasks digest keys ts" and inj: "inj_on digest keys" and k: "k \<in> keys"
    and ok: "QueueAttachmentBlobDelete digest ts i rt now k = Inr ts'"
  shows "queue_kept digest keys {i} ts ts'"
proof (cases "findTaskByName ts (AttachmentBlobDeleteTaskName digest k)")
  case None
  then have "insertTask ts (attachmentBlobTask digest i rt k AttachmentBlobDeleteStateQueued) = Inr ts'"
    using ok by (simp add: QueueAttachmentBlobDelete_def)
  from queue_kept_insert[OF wf this wfTask_attachmentBlobTask(2)[OF inj k]] show ?thesis
    by (simp add: attachmentBlobTask_def newTask_def Let_def)
next
  case (Some t)
  note t = findTaskByName_Some[OF wf k Some]
  have "ts' = ts \<or> (taskState t \<noteq> AttachmentBlobDeleteStateClaimed \<and> ts' = rescheduleTask (tk_ID t) AttachmentBlobDeleteStateQueued now ts)"
    using ok Some by (auto simp: QueueAttachmentBlobDelete_def taskState_def task_states split: if_splits)
  then show ?thesis using queue_kept_refl[OF wf] queue_kept_reschedule[OF wf t(1)] by auto
qed

lemma map_of_setKey_same: "map_of (setKey k v m) k = Some v"
  by (induction m) auto

lemma taskState_setState: "state \<noteq> [] \<Longrightarrow> taskState (setState state t) = state"
  by (simp add: taskState_def setState_def AttachmentBlobDeleteTaskState_def map_of_setKey_same)

lemma claim_kept:
  assumes "wfTasks digest keys ts"
  shows "queue_kept digest keys I ts (fst (ClaimReadyTasks ts now limit))"
  unfolding ClaimReadyTasks_def Let_def fst_conv update_where_def
  by (rule queue_kept_map[OF assms]) (auto simp: markClaimed_def taskState_setState task_states)

lemma fail_kept:
  assumes "wfTasks digest keys ts"
  shows "queue_kept digest keys I ts (FailTask ts now taskID msg delay)"
  unfolding FailTask_def update_where_def
  by (rule queue_kept_map[OF assms]) simp_all

lemma create_task_kept:
  assumes wf: "wfTasks digest keys ts" and ok: "CreateTask ts i rt taskType body = Inr ts'"
    and "taskType \<noteq> AttachmentBlobDeleteTaskType" "\<And>k. k \<in> keys \<Longrightarrow> bodyTaskName body \<noteq> Some (AttachmentBlobDeleteTaskName digest k)"
  shows "queue_kept digest keys {i} ts ts'"
proof -
  let ?t = "newTask i rt (bodyTaskName body) taskType body"
  have "wfTask digest keys ?t" using assms(3,4) by (auto simp: wfTask_def newTask_def blobKey_def)
  moreover have "ts' = ts \<or> insertTask ts ?t = Inr ts'"
    using ok by (auto simp: CreateTask_def Let_def split: sum.splits if_splits)
  moreover have "tk_ID ?t = i" by (simp add: newTask_def)
  ultimately show ?thesis using queue_kept_refl[OF wf] queue_kept_insert[OF wf] by metis
qed

lemma delete_task_kept:
  assumes wf: "wfTasks digest keys ts" and "findBlobTask ts taskID = None"
  shows "queue_kept digest keys I ts (DeleteTask ts taskID)"
proof -
  have "\<forall>t \<in> set ts. tk_ID t = taskID \<longrightarrow> blobKey t = None"
    using assms(2) by (auto simp: findBlobTask_def find_None_iff blobKey_def)
  then show ?thesis using wfTasks_filter[OF wf] by (auto simp: queue_kept_def DeleteTask_def delete_where_def keyClaimed_def)
qed

section \<open>The tables\<close>

definition activeKeys :: "AttachmentTables \<Rightarrow> string set" where
  "activeKeys t = {k. \<exists>a \<in> set (as_attachments t). at_StorageKey a = Some k \<and> at_ArchivedAt a = None}"

definition allKeys :: "AttachmentTables \<Rightarrow> string set" where
  "allKeys t = {k. \<exists>a \<in> set (as_attachments t). at_StorageKey a = Some k}"

lemma activeReferences_zero: "activeReferences t k = 0 \<longleftrightarrow> k \<notin> activeKeys t"
  by (auto simp: activeReferences_def activeKeys_def filter_empty_conv)

lemma activeKeys_tasks [simp]: "activeKeys (t\<lparr>as_tasks := ts\<rparr>) = activeKeys t" "allKeys (t\<lparr>as_tasks := ts\<rparr>) = allKeys t"
  by (simp_all add: activeKeys_def allKeys_def)

text \<open>New references are only to content that is there and is not being deleted.\<close>

definition tables_kept :: "(string \<Rightarrow> string) \<Rightarrow> string set \<Rightarrow> uuid set \<Rightarrow> string set \<Rightarrow> AttachmentTables \<Rightarrow> AttachmentTables \<Rightarrow> bool" where
  "tables_kept digest keys I blobs t t' \<longleftrightarrow>
     queue_kept digest keys I (as_tasks t) (as_tasks t')
     \<and> (\<forall>k \<in> activeKeys t'. k \<in> activeKeys t \<or> (k \<in> blobs \<and> \<not> keyClaimed (as_tasks t) k))
     \<and> allKeys t' \<subseteq> allKeys t \<union> blobs"

lemma tables_kept_tasks: "queue_kept digest keys I (as_tasks t) ts \<Longrightarrow> tables_kept digest keys I blobs t (t\<lparr>as_tasks := ts\<rparr>)"
  by (simp add: tables_kept_def)

lemma tables_kept_trans:
  assumes "tables_kept digest keys I blobs a b" and "tables_kept digest keys I blobs b c"
  shows "tables_kept digest keys I blobs a c"
proof -
  have "\<And>k. keyClaimed (as_tasks a) k \<Longrightarrow> keyClaimed (as_tasks b) k" using assms(1) by (simp add: tables_kept_def queue_kept_def)
  then show ?thesis using assms queue_kept_trans unfolding tables_kept_def by blast
qed

lemma tables_kept_mono: "tables_kept digest keys I blobs t t' \<Longrightarrow> I \<subseteq> J \<Longrightarrow> tables_kept digest keys J blobs t t'"
  by (auto simp: tables_kept_def intro: queue_kept_mono)

lemma tables_kept_wf: "tables_kept digest keys I blobs t t' \<Longrightarrow> wfTasks digest keys (as_tasks t')"
  by (simp add: tables_kept_def queue_kept_def)

lemma activeAttachment_Some: "activeAttachment t i = Some a \<Longrightarrow> a \<in> set (as_attachments t) \<and> at_ArchivedAt a = None \<and> at_ID a = i"
  unfolding activeAttachment_def by (metis (mono_tags, lifting) find_Some_iff nth_mem)

lemma activeAttachment_key: "activeAttachment t i = Some a \<Longrightarrow> at_StorageKey a = Some k \<Longrightarrow> k \<in> activeKeys t"
  using activeAttachment_Some[of t i a] by (auto simp: activeKeys_def)

lemma entryAccessLoop_result: "entryAccessLoop d u i a saw es = Inr b \<Longrightarrow> b = a"
  by (induction d u i a saw es rule: entryAccessLoop.induct) (auto split: sum.splits store_error.splits if_splits)

lemma GetAttachment_active: "GetAttachment d t u c i = Inr a \<Longrightarrow> activeAttachment t i = Some a"
  by (auto simp: GetAttachment_def Let_def dest: entryAccessLoop_result split: option.splits if_splits)

lemma registerKey_kept:
  assumes "inj_on digest keys" "wfTasks digest keys (as_tasks t)" "\<And>k. key = Some k \<Longrightarrow> k \<in> keys" "registerKey digest t i rt key = Inr t'"
  shows "as_attachments t' = as_attachments t" "queue_kept digest keys {i} (as_tasks t) (as_tasks t')"
    "key = Some k \<Longrightarrow> \<not> keyClaimed (as_tasks t) k"
proof -
  have "as_attachments t' = as_attachments t \<and> queue_kept digest keys {i} (as_tasks t) (as_tasks t')
    \<and> (\<forall>k. key = Some k \<longrightarrow> \<not> keyClaimed (as_tasks t) k)"
  proof (cases key)
    case None
    then show ?thesis using assms by (simp add: registerKey_def queue_kept_refl)
  next
    case (Some k)
    then obtain ts where "RegisterAttachmentBlobReference digest (as_tasks t) i rt k = Inr ts" "t' = t\<lparr>as_tasks := ts\<rparr>"
      using assms(4) by (auto simp: registerKey_def andThen_eq_Inr)
    then show ?thesis using register_kept[OF assms(2,1) assms(3)[OF Some]] Some by simp
  qed
  then show "as_attachments t' = as_attachments t" "queue_kept digest keys {i} (as_tasks t) (as_tasks t')"
    "key = Some k \<Longrightarrow> \<not> keyClaimed (as_tasks t) k" by simp_all
qed

lemma registerKey_tables:
  assumes "inj_on digest keys" "wfTasks digest keys (as_tasks t)" "\<And>k. key = Some k \<Longrightarrow> k \<in> blobs" "blobs \<subseteq> keys"
    "registerKey digest t i rt key = Inr t1" "as_tasks t2 = as_tasks t1"
    "\<And>k. k \<in> activeKeys t2 \<Longrightarrow> k \<in> activeKeys t1 \<or> key = Some k"
    "\<And>k. k \<in> allKeys t2 \<Longrightarrow> k \<in> allKeys t1 \<or> key = Some k"
  shows "tables_kept digest keys {i} blobs t t2"
proof -
  have "\<And>k. key = Some k \<Longrightarrow> k \<in> keys" using assms(3,4) by blast
  note r = registerKey_kept[OF assms(1,2) this assms(5)]
  have "activeKeys t1 = activeKeys t" "allKeys t1 = allKeys t" using r(1) by (simp_all add: activeKeys_def allKeys_def)
  then show ?thesis using r(2,3) assms(3,6,7,8) unfolding tables_kept_def subset_iff Un_iff by metis
qed

lemma create_kept:
  assumes "inj_on digest keys" "wfTasks digest keys (as_tasks t)" "\<And>k. at_StorageKey a = Some k \<Longrightarrow> k \<in> blobs" "blobs \<subseteq> keys"
    and ok: "CreateAttachment digest d t attID taskID rt userID cid a = Inr (t', r)"
  shows "tables_kept digest keys {taskID} blobs t t'"
proof -
  obtain t1 x where "registerKey digest t taskID rt (at_StorageKey a) = Inr t1" "insertAttachment t1 x = Inr t'" "at_StorageKey x = at_StorageKey a"
    using ok by (auto simp: CreateAttachment_def andThen_eq_Inr Let_def split: if_splits)
  moreover from this have "t' = t1\<lparr>as_attachments := as_attachments t1 @ [x]\<rparr>" by (auto simp: insertAttachment_def split: if_splits)
  ultimately show ?thesis using assms(1-4) by (intro registerKey_tables[where key = "at_StorageKey a"]) (auto simp: activeKeys_def allKeys_def)
qed

lemma clone_kept:
  assumes inj: "inj_on digest keys" and wf: "wfTasks digest keys (as_tasks t)" and act: "activeKeys t \<subseteq> blobs" and sub: "blobs \<subseteq> keys"
    and ok: "CloneAttachment digest d t attID i j rt userID source = Inr (t', r)"
  shows "tables_kept digest keys {i, j} blobs t t'"
proof -
  obtain a k t1 b where a: "GetAttachment d t userID [] source = Inr a" "at_StorageKey a = Some k"
    and t1: "registerKey digest t i rt (Some k) = Inr t1" and b: "GetAttachment d t1 userID [] source = Inr b"
    and cr: "CreateAttachment digest d t1 attID j rt userID []
       \<lparr>at_ID = [], at_StorageKey = at_StorageKey b, at_Filename = at_Filename b, at_ContentType = at_ContentType b,
        at_Size = at_Size b, at_SHA256 = at_SHA256 b, at_UserID = [], at_EntryID = None, at_Status = ''ready'',
        at_SourceURL = None, at_ExpiresAt = at_ExpiresAt b, at_CreatedAt = 0, at_ArchivedAt = None\<rparr> = Inr (t', r)"
    using ok by (auto simp: CloneAttachment_def andThen_eq_Inr split: option.splits)
  have k: "k \<in> blobs" using activeAttachment_key[OF GetAttachment_active[OF a(1)] a(2)] act by blast
  have first: "tables_kept digest keys {i} blobs t t1"
    by (rule registerKey_tables[OF inj wf _ sub t1]) (use k in auto)
  have "activeKeys t1 \<subseteq> blobs" using first act by (auto simp: tables_kept_def)
  then have "\<And>k. at_StorageKey b = Some k \<Longrightarrow> k \<in> blobs" using activeAttachment_key[OF GetAttachment_active[OF b]] by blast
  then have "tables_kept digest keys {j} blobs t1 t'" by (intro create_kept[OF inj tables_kept_wf[OF first] _ sub cr]) simp
  then show ?thesis using first by (blast intro: tables_kept_trans tables_kept_mono)
qed

lemma applyUpdate_active:
  "at_ArchivedAt (applyUpdate u a) = at_ArchivedAt a"
  "at_StorageKey (applyUpdate u a) = Some k \<Longrightarrow> at_StorageKey a = Some k \<or> au_StorageKey u = Some k"
  by (auto simp: applyUpdate_def orElse_def split: option.splits)

lemma update_kept:
  assumes "inj_on digest keys" "wfTasks digest keys (as_tasks t)" "\<And>k. au_StorageKey u = Some k \<Longrightarrow> k \<in> blobs" "blobs \<subseteq> keys"
    and ok: "UpdateAttachment digest t taskID rt userID attID u = Inr (t', r)"
  shows "tables_kept digest keys {taskID} blobs t t'"
proof -
  obtain t1 where t1: "registerKey digest t taskID rt (au_StorageKey u) = Inr t1"
    and t': "t' = t1\<lparr>as_attachments := update_where (\<lambda>a. at_ID a = attID) (applyUpdate u) (as_attachments t1)\<rparr>"
    using ok by (auto simp: UpdateAttachment_def andThen_eq_Inr Let_def split: option.splits if_splits)
  have "k \<in> activeKeys t1 \<or> au_StorageKey u = Some k" if "k \<in> activeKeys t'" for k
  proof -
    from that obtain a where "a \<in> set (as_attachments t1)" "at_ArchivedAt a = None" "at_StorageKey a = Some k \<or> au_StorageKey u = Some k"
      by (auto simp: activeKeys_def t' update_where_def applyUpdate_active(1) dest!: applyUpdate_active(2) split: if_splits)
    then show ?thesis by (auto simp: activeKeys_def)
  qed
  moreover have "k \<in> allKeys t1 \<or> au_StorageKey u = Some k" if "k \<in> allKeys t'" for k
    using that by (auto simp: allKeys_def t' update_where_def dest!: applyUpdate_active(2) split: if_splits)
  moreover have "as_tasks t' = as_tasks t1" by (simp add: t')
  ultimately show ?thesis using assms(1-4) t1 by (intro registerKey_tables[where key = "au_StorageKey u"])
qed

lemma link_kept:
  assumes "wfTasks digest keys (as_tasks t)" and ok: "LinkAttachmentToEntry t userID attID entryID = Inr (t', r)"
  shows "tables_kept digest keys I blobs t t'"
proof -
  have t': "as_tasks t' = as_tasks t" "as_attachments t' = update_where
      (\<lambda>a. at_ID a = attID \<and> at_UserID a = userID \<and> at_ArchivedAt a = None \<and> at_EntryID a = None) (\<lambda>a. a\<lparr>at_EntryID := Some entryID\<rparr>) (as_attachments t)"
    using ok by (auto simp: LinkAttachmentToEntry_def Let_def split: option.splits if_splits)
  then have "activeKeys t' \<subseteq> activeKeys t" "allKeys t' \<subseteq> allKeys t"
    by (auto simp: activeKeys_def allKeys_def update_where_def split: if_splits)
  then show ?thesis using queue_kept_refl[OF assms(1)] by (auto simp: tables_kept_def t'(1))
qed

lemma remove_kept:
  assumes inj: "inj_on digest keys" and wf: "wfTasks digest keys (as_tasks t)" and key: "\<And>k. at_StorageKey a = Some k \<Longrightarrow> k \<in> keys"
    and ok: "removeAttachment digest t taskID rt now a = Inr t'"
  shows "tables_kept digest keys {taskID} blobs t t'"
proof -
  have "as_attachments t' = delete_where (\<lambda>x. at_ID x = at_ID a) (as_attachments t)"
    using ok by (auto simp: removeAttachment_def Let_def andThen_eq_Inr split: option.splits)
  then have "activeKeys t' \<subseteq> activeKeys t" "allKeys t' \<subseteq> allKeys t" by (auto simp: activeKeys_def allKeys_def delete_where_def)
  moreover have "queue_kept digest keys {taskID} (as_tasks t) (as_tasks t')"
    using ok queue_kept_refl[OF wf] queue_delete_kept[OF wf inj key]
    by (auto simp: removeAttachment_def Let_def andThen_eq_Inr split: option.splits)
  ultimately show ?thesis by (auto simp: tables_kept_def)
qed

section \<open>The invariant\<close>

definition pendingOk :: "BlobState \<Rightarrow> uuid \<Rightarrow> string \<Rightarrow> bool" where
  "pendingOk s i k \<longleftrightarrow>
     k \<notin> activeKeys (bs_tables s)
     \<and> (k \<in> set (bs_blobs s) \<longrightarrow> keyClaimed (as_tasks (bs_tables s)) k)
     \<and> (\<forall>t \<in> set (as_tasks (bs_tables s)). tk_ID t = i \<longrightarrow> blobKey t = None \<or> blobKey t = Some k)"

definition blobInv :: "(string \<Rightarrow> string) \<Rightarrow> string set \<Rightarrow> BlobState \<Rightarrow> bool" where
  "blobInv digest keys s \<longleftrightarrow>
     wfTasks digest keys (as_tasks (bs_tables s)) \<and> activeKeys (bs_tables s) \<subseteq> set (bs_blobs s)
     \<and> allKeys (bs_tables s) \<subseteq> keys \<and> set (bs_blobs s) \<subseteq> keys
     \<and> (\<forall>(i, k) \<in> set (bs_pending s). pendingOk s i k)"

lemma blobInv_tables:
  assumes inv: "blobInv digest keys s" and kept: "tables_kept digest keys I (set (bs_blobs s)) (bs_tables s) t"
    and fresh: "\<And>i. i \<in> I \<Longrightarrow> freshTaskID s i"
  shows "blobInv digest keys (withTables s t)"
proof -
  have "pendingOk (withTables s t) i k" if p: "(i, k) \<in> set (bs_pending s)" for i k
  proof -
    have ok: "pendingOk s i k" using inv p by (auto simp: blobInv_def)
    have "i \<notin> I" using fresh p by (force simp: freshTaskID_def)
    moreover have "k \<notin> activeKeys t" using ok kept by (auto simp: pendingOk_def tables_kept_def)
    moreover have "keyClaimed (as_tasks (bs_tables s)) k \<Longrightarrow> keyClaimed (as_tasks t) k"
      using kept by (simp add: tables_kept_def queue_kept_def)
    moreover have "blobKey u = None \<or> blobKey u = Some k" if "u \<in> set (as_tasks t)" "tk_ID u = i" for u
      using kept ok that \<open>i \<notin> I\<close> unfolding tables_kept_def queue_kept_def pendingOk_def by metis
    ultimately show ?thesis using ok by (simp add: pendingOk_def withTables_def)
  qed
  moreover have "wfTasks digest keys (as_tasks t)" by (rule tables_kept_wf[OF kept])
  moreover have "activeKeys t \<subseteq> set (bs_blobs s)" "allKeys t \<subseteq> keys"
    using inv kept unfolding blobInv_def tables_kept_def by blast+
  ultimately show ?thesis using inv by (auto simp: blobInv_def withTables_def)
qed

lemma blobInv_tasks:
  assumes "blobInv digest keys s" and "queue_kept digest keys I (as_tasks (bs_tables s)) ts" and "\<And>i. i \<in> I \<Longrightarrow> freshTaskID s i"
  shows "blobInv digest keys (withTasks s ts)"
proof -
  have "withTasks s ts = withTables s ((bs_tables s)\<lparr>as_tasks := ts\<rparr>)" by (simp add: withTasks_def withTables_def)
  then show ?thesis using blobInv_tables[OF assms(1) tables_kept_tasks[OF assms(2)] assms(3)] by simp
qed

lemma prepare_result:
  assumes "PrepareAttachmentBlobDelete ts references i k = Inr (ts', b)"
  shows "\<exists>t \<in> set ts. tk_ID t = i \<and> blobKey t = Some k \<and> taskState t = AttachmentBlobDeleteStateClaimed
    \<and> (b \<longleftrightarrow> references k \<noteq> 0) \<and> ts' = (if b then rescheduleTask i AttachmentBlobDeleteStateReferenced farFuture ts else ts)"
proof -
  obtain t where t: "findBlobTask ts i = Some t" using assms by (auto simp: PrepareAttachmentBlobDelete_def split: option.splits)
  then have "t \<in> set ts" "tk_ID t = i" "tk_TaskType t = AttachmentBlobDeleteTaskType"
    unfolding findBlobTask_def by (metis (mono_tags, lifting) find_Some_iff nth_mem)+
  then show ?thesis using assms t by (intro bexI[of _ t]) (auto simp: PrepareAttachmentBlobDelete_def blobKey_def taskState_def split: if_splits)
qed

lemma reschedule_rows:
  assumes "wfTasks digest keys ts"
  shows "wfTasks digest keys (rescheduleTask i state r ts)"
    "u \<in> set (rescheduleTask i state r ts) \<Longrightarrow> \<exists>t \<in> set ts. sameTask t u"
    "t \<in> set ts \<Longrightarrow> tk_ID t \<noteq> i \<Longrightarrow> t \<in> set (rescheduleTask i state r ts)"
proof -
  show "wfTasks digest keys (rescheduleTask i state r ts)"
    unfolding rescheduleTask_def update_where_def by (rule wfTasks_map[OF assms]) simp
  show "\<exists>t \<in> set ts. sameTask t u" if "u \<in> set (rescheduleTask i state r ts)"
    using that by (auto simp: rescheduleTask_def update_where_def intro: rev_bexI)
  show "t \<in> set (rescheduleTask i state r ts)" if "t \<in> set ts" "tk_ID t \<noteq> i"
    using that by (force simp: rescheduleTask_def update_where_def)
qed

lemma withTasks_simps [simp]:
  "bs_tables (withTasks s ts) = (bs_tables s)\<lparr>as_tasks := ts\<rparr>" "bs_blobs (withTasks s ts) = bs_blobs s"
  "bs_pending (withTasks s ts) = bs_pending s"
  by (simp_all add: withTasks_def)

lemma blobInv_prepare_referenced:
  assumes inv: "blobInv digest keys s" and ok: "PrepareAttachmentBlobDelete (as_tasks (bs_tables s)) (activeReferences (bs_tables s)) i k = Inr (ts, True)"
  shows "blobInv digest keys (withTasks s ts)"
proof -
  let ?ts = "as_tasks (bs_tables s)"
  have wf: "wfTasks digest keys ?ts" using inv by (simp add: blobInv_def)
  obtain t where t: "t \<in> set ?ts" "tk_ID t = i" "blobKey t = Some k" and act: "k \<in> activeKeys (bs_tables s)"
    and ts: "ts = rescheduleTask i AttachmentBlobDeleteStateReferenced farFuture ?ts"
    using prepare_result[OF ok] activeReferences_zero by auto
  note rows = reschedule_rows[OF wf, where i = i and state = AttachmentBlobDeleteStateReferenced and r = farFuture, folded ts]
  have "pendingOk (withTasks s ts) j k'" if "(j, k') \<in> set (bs_pending s)" for j k'
  proof -
    have p: "pendingOk s j k'" using inv that by (auto simp: blobInv_def)
    then have ne: "k' \<noteq> k" using act by (auto simp: pendingOk_def)
    have "keyClaimed ts k'" if "keyClaimed ?ts k'"
    proof -
      from that obtain u where u: "u \<in> set ?ts" "blobKey u = Some k'" "taskState u = AttachmentBlobDeleteStateClaimed" by (auto simp: keyClaimed_def)
      have "tk_ID u \<noteq> i" using uniqueRows_id[of ?ts u t] wf u t ne by (auto simp: wfTasks_def)
      then show ?thesis using rows(3)[OF u(1)] u by (auto simp: keyClaimed_def)
    qed
    moreover have "blobKey u = None \<or> blobKey u = Some k'" if "u \<in> set ts" "tk_ID u = j" for u
      using rows(2)[OF that(1)] that(2) p by (auto simp: sameTask_def pendingOk_def)
    ultimately show ?thesis using p by (simp add: pendingOk_def)
  qed
  then show ?thesis using inv rows(1) by (auto simp: blobInv_def)
qed

lemma blobInv_prepare_free:
  assumes inv: "blobInv digest keys s" and ok: "PrepareAttachmentBlobDelete (as_tasks (bs_tables s)) (activeReferences (bs_tables s)) i k = Inr (ts, False)"
  shows "blobInv digest keys ((withTasks s ts)\<lparr>bs_pending := (i, k) # bs_pending s\<rparr>)"
proof -
  let ?ts = "as_tasks (bs_tables s)"
  have wf: "wfTasks digest keys ?ts" using inv by (simp add: blobInv_def)
  obtain t where t: "t \<in> set ?ts" "tk_ID t = i" "blobKey t = Some k" "taskState t = AttachmentBlobDeleteStateClaimed"
    and act: "k \<notin> activeKeys (bs_tables s)" and ts: "ts = ?ts"
    using prepare_result[OF ok] activeReferences_zero by auto
  have "keyClaimed ?ts k" using t by (auto simp: keyClaimed_def)
  moreover have "blobKey u = Some k" if "u \<in> set ?ts" "tk_ID u = i" for u
    using uniqueRows_id[of ?ts u t] wf that t by (auto simp: wfTasks_def)
  ultimately have "pendingOk s i k" using act by (auto simp: pendingOk_def)
  then show ?thesis using inv by (simp add: blobInv_def pendingOk_def ts)
qed

lemma blobInv_complete:
  assumes inv: "blobInv digest keys s" and p: "(i, k) \<in> set (bs_pending s)" and gone: "k \<notin> set (bs_blobs s)"
    and ok: "CompleteAttachmentBlobDelete (as_tasks (bs_tables s)) i = Inr ts"
  shows "blobInv digest keys ((withTasks s ts)\<lparr>bs_pending := remove1 (i, k) (bs_pending s)\<rparr>)"
proof -
  let ?ts = "as_tasks (bs_tables s)"
  have ts: "ts = filter (\<lambda>t. \<not> (tk_ID t = i \<and> tk_TaskType t = AttachmentBlobDeleteTaskType)) ?ts"
    using ok by (auto simp: CompleteAttachmentBlobDelete_def Let_def delete_where_def split: if_splits)
  have wf: "wfTasks digest keys ts" using inv wfTasks_filter by (simp add: ts blobInv_def)
  have pk: "pendingOk s i k" using inv p by (auto simp: blobInv_def)
  have "pendingOk (withTasks s ts) j k'" if "(j, k') \<in> set (bs_pending s)" for j k'
  proof -
    have q: "pendingOk s j k'" using inv that by (auto simp: blobInv_def)
    have "keyClaimed ts k'" if "k' \<in> set (bs_blobs s)" "keyClaimed ?ts k'"
    proof -
      from that(2) obtain u where u: "u \<in> set ?ts" "blobKey u = Some k'" "taskState u = AttachmentBlobDeleteStateClaimed" by (auto simp: keyClaimed_def)
      have "tk_ID u \<noteq> i" using pk u that(1) gone by (auto simp: pendingOk_def)
      then show ?thesis using u by (auto simp: keyClaimed_def ts)
    qed
    then show ?thesis using q by (auto simp: pendingOk_def ts)
  qed
  moreover have "set (remove1 (i, k) (bs_pending s)) \<subseteq> set (bs_pending s)" by (rule set_remove1_subset)
  ultimately show ?thesis using inv wf by (auto simp: blobInv_def pendingOk_def)
qed

lemma blobInv_step:
  assumes inj: "inj_on digest keys" and inv: "blobInv digest keys s" and step: "blob_step digest keys s l s'"
  shows "blobInv digest keys s'"
proof -
  have wf: "wfTasks digest keys (as_tasks (bs_tables s))" and act: "activeKeys (bs_tables s) \<subseteq> set (bs_blobs s)"
    and blobs: "set (bs_blobs s) \<subseteq> keys" and all: "allKeys (bs_tables s) \<subseteq> keys"
    using inv by (auto simp: blobInv_def)
  from step show ?thesis
  proof cases
    case (upload k)
    have "k' \<noteq> k" if "(i, k') \<in> set (bs_pending s)" for i k' using upload that by (force simp: freshKey_def)
    then show ?thesis using upload inv by (auto simp: blobInv_def pendingOk_def)
  next
    case (create d attID taskID rt userID cid a t r)
    have "\<And>k. at_StorageKey a = Some k \<Longrightarrow> k \<in> set (bs_blobs s)" using create by (simp add: uploaded_def)
    from create_kept[OF inj wf this blobs create(3)] show ?thesis using create blobInv_tables[OF inv] by auto
  next
    case (clone d attID i j rt userID source t r)
    from clone_kept[OF inj wf act blobs clone(3)] show ?thesis using clone blobInv_tables[OF inv] by auto
  next
    case (update taskID rt userID attID u t r)
    have "\<And>k. au_StorageKey u = Some k \<Longrightarrow> k \<in> set (bs_blobs s)" using update by (simp add: uploaded_def)
    from update_kept[OF inj wf this blobs update(3)] show ?thesis using update blobInv_tables[OF inv] by auto
  next
    case (link userID attID entryID t r)
    from link_kept[OF wf link(3), of "{}"] show ?thesis using link blobInv_tables[OF inv] by auto
  next
    case (delete d taskID rt now userID cid attID t)
    then obtain a where a: "activeAttachment (bs_tables s) attID = Some a" "removeAttachment digest (bs_tables s) taskID rt now a = Inr t"
      by (auto simp: DeleteAttachment_def andThen_eq_Inr split: if_splits option.splits)
    have "\<And>k. at_StorageKey a = Some k \<Longrightarrow> k \<in> keys" using activeAttachment_key[OF a(1)] act blobs by blast
    from remove_kept[OF inj wf this a(2)] show ?thesis using delete blobInv_tables[OF inv] by auto
  next
    case (admin_delete taskID rt now attID t)
    then obtain a where a: "List.find (\<lambda>a. at_ID a = attID) (as_attachments (bs_tables s)) = Some a" "removeAttachment digest (bs_tables s) taskID rt now a = Inr t"
      by (auto simp: AdminDeleteAttachment_def split: option.splits)
    have "a \<in> set (as_attachments (bs_tables s))" using a(1) by (metis find_Some_iff nth_mem)
    then have "\<And>k. at_StorageKey a = Some k \<Longrightarrow> k \<in> keys" using all by (auto simp: allKeys_def)
    from remove_kept[OF inj wf this a(2)] show ?thesis using admin_delete blobInv_tables[OF inv] by auto
  next
    case (enqueue taskID rt now k ts)
    then have "QueueAttachmentBlobDelete digest (as_tasks (bs_tables s)) taskID rt now k = Inr ts"
      by (auto simp: CreateAttachmentBlobDeleteTask_def split: if_splits)
    from queue_delete_kept[OF wf inj enqueue(4) this] show ?thesis using enqueue blobInv_tasks[OF inv] by auto
  next
    case (create_task taskID rt taskType body ts)
    from create_task_kept[OF wf create_task(3,4,5)] show ?thesis using create_task blobInv_tasks[OF inv] by auto
  next
    case (claim now limit ts tasks)
    then show ?thesis using blobInv_tasks[OF inv claim_kept[OF wf, of "{}" now limit]] by simp
  next
    case (fail now taskID msg delay)
    then show ?thesis using blobInv_tasks[OF inv fail_kept[OF wf, of "{}"]] by simp
  next
    case (delete_task taskID)
    then show ?thesis using blobInv_tasks[OF inv delete_task_kept[OF wf delete_task(3), of "{}"]] by simp
  next
    case (prepare_referenced taskID k ts)
    then show ?thesis using blobInv_prepare_referenced[OF inv] by simp
  next
    case (prepare_free taskID k ts)
    then show ?thesis using blobInv_prepare_free[OF inv] by simp
  next
    case (provider_delete taskID k)
    then have "pendingOk s taskID k" using inv by (auto simp: blobInv_def)
    then show ?thesis using inv provider_delete by (auto simp: blobInv_def pendingOk_def)
  next
    case (complete taskID k ts)
    then show ?thesis using blobInv_complete[OF inv] by simp
  next
    case (abandon p)
    have "pendingOk s' i k" if "(i, k) \<in> set (remove1 p (bs_pending s))" for i k
      using inv set_mp[OF set_remove1_subset that] abandon by (auto simp: blobInv_def pendingOk_def)
    then show ?thesis using inv abandon by (auto simp: blobInv_def)
  qed
qed

interpretation blobs: transition_invariant initial_blobs "blob_step digest keys" "\<lambda>s. inj_on digest keys \<longrightarrow> blobInv digest keys s"
  for digest keys
proof unfold_locales
  show "inj_on digest keys \<longrightarrow> blobInv digest keys s" if "initial_blobs s" for s
    using that by (simp add: initial_blobs_def blobInv_def wfTasks_def uniqueRows_def activeKeys_def allKeys_def)
qed (use blobInv_step in blast)

text \<open>
  C4 (content_kept_while_referenced): whatever uploads, attachments that are created, cloned, updated, linked and
  deleted, claims, failures, late workers and provider deletions come together, an attachment that is not
  archived has its content in the blob provider. The task names of the provider's keys are assumed to differ.
\<close>

theorem content_kept_while_referenced:
  assumes "inj_on digest keys" and "reachable initial_blobs (blob_step digest keys) s"
    and "a \<in> set (as_attachments (bs_tables s))" and "at_ArchivedAt a = None" and "at_StorageKey a = Some k"
  shows "k \<in> set (bs_blobs s)"
  using blobs.inv_reachable[OF assms(2)] assms(1,3-5) by (auto simp: blobInv_def activeKeys_def)

text \<open>A run: content is uploaded and attached, the attachment is cloned and deleted, and a worker takes the queued task.\<close>

definition blobStart :: BlobState where
  "blobStart = \<lparr>bs_tables = \<lparr>as_attachments = [], as_tasks = []\<rparr>, bs_blobs = [], bs_pending = []\<rparr>"

definition sampleAttachment :: Attachment where
  "sampleAttachment = \<lparr>at_ID = [], at_StorageKey = Some ''k1'', at_Filename = None, at_ContentType = ''text/plain'', at_Size = Some 3,
     at_SHA256 = None, at_UserID = [], at_EntryID = None, at_Status = [], at_SourceURL = None, at_ExpiresAt = None, at_CreatedAt = 0, at_ArchivedAt = None\<rparr>"

definition sampleTimes :: RowTimes where
  "sampleTimes = \<lparr>rt_CreatedAt = 1, rt_RetryAt = 1\<rparr>"

definition blobUploaded :: BlobState where
  "blobUploaded = blobStart\<lparr>bs_blobs := [''k1'']\<rparr>"

definition blobCreated :: BlobState where
  "blobCreated = withTables blobUploaded
     (fst (projr (CreateAttachment id emptyDB (bs_tables blobUploaded) ''a1'' ''t1'' sampleTimes ''u'' [] sampleAttachment)))"

definition blobCloned :: BlobState where
  "blobCloned = withTables blobCreated
     (fst (projr (CloneAttachment id emptyDB (bs_tables blobCreated) ''a2'' ''t2'' ''t3'' sampleTimes ''u'' ''a1'')))"

definition blobDeleted :: BlobState where
  "blobDeleted = withTables blobCloned (projr (DeleteAttachment id emptyDB (bs_tables blobCloned) ''t4'' sampleTimes 7 ''u'' [] ''a1''))"

definition blobClaimed :: BlobState where
  "blobClaimed = withTasks blobDeleted (fst (ClaimReadyTasks (as_tasks (bs_tables blobDeleted)) 8 5))"

definition blobKept :: BlobState where
  "blobKept = withTasks blobClaimed
     (fst (projr (PrepareAttachmentBlobDelete (as_tasks (bs_tables blobClaimed)) (activeReferences (bs_tables blobClaimed)) ''t1'' ''k1'')))"

lemma projr_pair: "\<not> isl r \<Longrightarrow> r = Inr (fst (projr r), snd (projr r))"
  by (cases r) simp_all

lemma projr_True: "\<not> isl r \<Longrightarrow> snd (projr r) \<Longrightarrow> r = Inr (fst (projr r), True)"
  by (cases r) auto

lemma blobKept_reachable: "reachable initial_blobs (blob_step id {''k1''}) blobKept"
proof -
  let ?R = "reachable initial_blobs (blob_step id {''k1''})"
  have up: "?R blobUploaded"
    unfolding blobUploaded_def
  proof (rule next_state[where l = "()"])
    show "?R blobStart" by (rule start) (simp add: initial_blobs_def blobStart_def)
    show "blob_step id {''k1''} blobStart () (blobStart\<lparr>bs_blobs := [''k1'']\<rparr>)"
      using upload[of "''k1''" "{''k1''}" blobStart id] by (simp add: freshKey_def blobStart_def)
  qed
  have cr: "?R blobCreated" unfolding blobCreated_def
    by (rule next_state[OF up], rule create, rule projr_pair; code_simp)
  have cl: "?R blobCloned" unfolding blobCloned_def
    by (rule next_state[OF cr], rule clone, rule projr_pair; code_simp)
  have de: "?R blobDeleted" unfolding blobDeleted_def
    by (rule next_state[OF cl], rule delete, rule sum.collapse(2)[symmetric]; code_simp)
  have ca: "?R blobClaimed" unfolding blobClaimed_def
    by (rule next_state[OF de], rule claim, rule prod.collapse[symmetric])
  show ?thesis unfolding blobKept_def
    by (rule next_state[OF ca], rule prepare_referenced, rule projr_True; code_simp)
qed

theorem content_kept_while_referenced_witness:
  "map at_ID (as_attachments (bs_tables blobKept)) = [''a2''] \<and> ''k1'' \<in> set (bs_blobs blobKept)"
proof -
  have "map at_ID (as_attachments (bs_tables blobKept)) = [''a2'']" "hd (as_attachments (bs_tables blobKept)) \<in> set (as_attachments (bs_tables blobKept))"
    "at_ArchivedAt (hd (as_attachments (bs_tables blobKept))) = None"
    "at_StorageKey (hd (as_attachments (bs_tables blobKept))) = Some ''k1''" by code_simp+
  then show ?thesis using content_kept_while_referenced[OF _ blobKept_reachable] by simp
qed

text \<open>
  The cleanup job decides on the list it has read: an attachment that is linked to an entry in between is
  deleted all the same.
\<close>

lemma cleanup_deletes_linked:
  "\<exists>t r. LinkAttachmentToEntry (bs_tables blobCreated) ''u'' ''a1'' ''e1'' = Inr (t, r) \<and> at_EntryID r = Some ''e1''
     \<and> map_sum (\<lambda>_. ()) as_attachments (cleanupAttachment id t ''t5'' sampleTimes 9 (hd (as_attachments (bs_tables blobCreated)))) = Inr []"
proof -
  let ?l = "LinkAttachmentToEntry (bs_tables blobCreated) ''u'' ''a1'' ''e1''"
  have "?l = Inr (fst (projr ?l), snd (projr ?l))" by (rule projr_pair) code_simp
  moreover have "at_EntryID (snd (projr ?l)) = Some ''e1''" by code_simp
  moreover have "map_sum (\<lambda>_. ()) as_attachments
      (cleanupAttachment id (fst (projr ?l)) ''t5'' sampleTimes 9 (hd (as_attachments (bs_tables blobCreated)))) = Inr []"
    by code_simp
  ultimately show ?thesis by blast
qed

end
