(* ===== verification/Reading.thy ===== *)
theory Reading
  imports Append
begin

text \<open>
  Reading the entries of a conversation (\<open>GetEntries\<close>, \<open>AdminGetEntries\<close> and the lookups of the SQLite store):
  the access and client checks, the relation each combination of channel and fork scope selects, and the
  bounded query over it. The largest page size, which the context carries, is an argument.

  The lemmas show that a page is the page of the specification, a view that is cut, filtered and paged in memory,
  and that nothing outside the reader's access and client scope is returned.
\<close>

section \<open>Queries\<close>

record EntryListQuery =
  lq_AfterCursor :: "string option"
  lq_BeforeCursor :: "string option"
  lq_Tail :: bool
  lq_UpToEntryID :: "string option"
  lq_Limit :: int
  lq_Channel :: "Channel option"
  lq_EpochFilter :: "MemoryEpochFilter option"
  lq_ClientID :: "string option"
  lq_AgentID :: "string option"
  lq_AllForks :: bool
  lq_FromSeq :: "uint32 option"
  lq_CreatedAtFilter :: "CreatedAtFilter option"

record PagedEntries =
  pe_Data :: "Entry list"
  pe_AfterCursor :: "string option"
  pe_BeforeCursor :: "string option"

definition entryExists :: "db \<Rightarrow> string \<Rightarrow> bool" where
  "entryExists d entryID = list_ex (\<lambda>e. e_ID e = entryID) (db_entries d)"

definition cursorEntryError :: "db \<Rightarrow> cursor_error" where
  "cursorEntryError d cursorName entryID =
     (if \<not> entryExists d entryID then BadRequestError (cursorName @ '' entry not found'')
      else BadRequestError (cursorName @ '' entry not found in visible results''))"

definition limitMessage :: string where
  "limitMessage = ''limit must be between 1 and the largest page size''"

definition runBoundedSQLQuery ::
  "db \<Rightarrow> int \<Rightarrow> Entry list \<Rightarrow> EntryListQuery \<Rightarrow> int \<Rightarrow> lookup \<Rightarrow> (Entry list \<Rightarrow> Entry list) option \<Rightarrow> page result" where
  "runBoundedSQLQuery d maxPageSize base query limit upToLookup transform =
     RunBoundedQuery
       \<lparr>bq_Base = base, bq_FromSeq = lq_FromSeq query, bq_UpToEntryID = lq_UpToEntryID query,
        bq_AfterEntryID = lq_AfterCursor query, bq_BeforeEntryID = lq_BeforeCursor query, bq_Tail = lq_Tail query,
        bq_Limit = limit, bq_MaxLimit = maxPageSize, bq_UpToLookup = upToLookup, bq_BaseTransform = transform,
        bq_CursorEntryError = cursorEntryError d, bq_LimitError = Some (\<lambda>max. BadRequestError limitMessage),
        bq_EntryNotFound = Some (\<lambda>entryID. NotFoundError ''entry'' entryID), bq_CreatedAtFilter = lq_CreatedAtFilter query\<rparr>"

definition boundedVisibleHistory :: "db \<Rightarrow> int \<Rightarrow> Conversation \<Rightarrow> EntryListQuery \<Rightarrow> int \<Rightarrow> page result" where
  "boundedVisibleHistory d maxPageSize conv query limit =
     runBoundedSQLQuery d maxPageSize (visibleHistoryEntriesQuery d conv) query limit (visibleEntryByID d conv) None"

definition boundedVisibleContext ::
  "db \<Rightarrow> int \<Rightarrow> Conversation \<Rightarrow> string option \<Rightarrow> MemoryEpochFilter option \<Rightarrow> EntryListQuery \<Rightarrow> int \<Rightarrow> page result" where
  "boundedVisibleContext d maxPageSize conv clientID epochFilter query limit =
     runBoundedSQLQuery d maxPageSize (visibleChannelEntriesQuery d conv ChannelContext clientID) query limit
       (visibleEntryByID d conv) (Some (\<lambda>base. ApplyEpochFilter base epochFilter True))"

definition boundedVisibleChannel ::
  "db \<Rightarrow> int \<Rightarrow> Conversation \<Rightarrow> Channel \<Rightarrow> string option \<Rightarrow> EntryListQuery \<Rightarrow> int \<Rightarrow> page result" where
  "boundedVisibleChannel d maxPageSize conv channel clientID query limit =
     runBoundedSQLQuery d maxPageSize (visibleChannelEntriesQuery d conv channel clientID) query limit (visibleEntryByID d conv) None"

definition boundedVisibleAllChannels ::
  "db \<Rightarrow> int \<Rightarrow> Conversation \<Rightarrow> string option \<Rightarrow> bool \<Rightarrow> EntryListQuery \<Rightarrow> int \<Rightarrow> page result" where
  "boundedVisibleAllChannels d maxPageSize conv clientID suppressScopedWithoutClient query limit =
     runBoundedSQLQuery d maxPageSize (visibleAllChannelsQuery d conv clientID suppressScopedWithoutClient) query limit
       (visibleEntryByID d conv) (Some (\<lambda>base. applySQLEpochFilterToBase base (lq_EpochFilter query)))"

definition boundedGroupHistory :: "db \<Rightarrow> int \<Rightarrow> uuid \<Rightarrow> EntryListQuery \<Rightarrow> int \<Rightarrow> page result" where
  "boundedGroupHistory d maxPageSize groupID query limit =
     runBoundedSQLQuery d maxPageSize (groupHistoryEntriesQuery d groupID None) query limit (groupEntryByID d groupID) None"

definition boundedGroupContext ::
  "db \<Rightarrow> int \<Rightarrow> uuid \<Rightarrow> string option \<Rightarrow> MemoryEpochFilter option \<Rightarrow> EntryListQuery \<Rightarrow> int \<Rightarrow> page result" where
  "boundedGroupContext d maxPageSize groupID clientID epochFilter query limit =
     runBoundedSQLQuery d maxPageSize (groupChannelEntriesQuery d groupID ChannelContext clientID) query limit
       (groupEntryByID d groupID) (Some (\<lambda>base. ApplyEpochFilter base epochFilter True))"

definition boundedGroupChannel ::
  "db \<Rightarrow> int \<Rightarrow> uuid \<Rightarrow> Channel \<Rightarrow> string option \<Rightarrow> EntryListQuery \<Rightarrow> int \<Rightarrow> page result" where
  "boundedGroupChannel d maxPageSize groupID channel clientID query limit =
     runBoundedSQLQuery d maxPageSize (groupChannelEntriesQuery d groupID channel clientID) query limit (groupEntryByID d groupID) None"

definition boundedGroupAllChannels ::
  "db \<Rightarrow> int \<Rightarrow> uuid \<Rightarrow> string option \<Rightarrow> bool \<Rightarrow> EntryListQuery \<Rightarrow> int \<Rightarrow> page result" where
  "boundedGroupAllChannels d maxPageSize groupID clientID suppressScopedWithoutClient query limit =
     runBoundedSQLQuery d maxPageSize (groupAllChannelsQuery d groupID clientID suppressScopedWithoutClient) query limit
       (groupEntryByID d groupID) (Some (\<lambda>base. applySQLEpochFilterToBase base (lq_EpochFilter query)))"

section \<open>The user's reading\<close>

text \<open>The end of every branch: the page is decrypted and returned with its cursors.\<close>

definition decryptPage :: "enc \<Rightarrow> page \<Rightarrow> PagedEntries result" where
  "decryptPage s_enc page =
     (case page of (entries, afterCursor, beforeCursor) \<Rightarrow>
        andThen (decryptEntries s_enc entries) (\<lambda>data.
          Inr \<lparr>pe_Data = data, pe_AfterCursor = afterCursor, pe_BeforeCursor = beforeCursor\<rparr>))"

definition paginateRequest :: "Entry list \<Rightarrow> EntryListQuery \<Rightarrow> int \<Rightarrow> page result" where
  "paginateRequest entries query limit =
     map_sum BadRequestError id (PaginateEntries entries (lq_AfterCursor query) (lq_BeforeCursor query) (lq_Tail query) limit)"

definition fromSeqFilter :: "EntryListQuery \<Rightarrow> Entry list \<Rightarrow> Entry list" where
  "fromSeqFilter query entries = (case lq_FromSeq query of None \<Rightarrow> entries | Some s \<Rightarrow> filterEntriesByFromSeq entries s)"

text \<open>A channel other than the known ones is filtered in memory.\<close>

definition allForksInMemory :: "db \<Rightarrow> Conversation \<Rightarrow> Channel \<Rightarrow> EntryListQuery \<Rightarrow> int \<Rightarrow> page result" where
  "allForksInMemory d conv channel query limit =
     (let entries = listEntriesForGroup d (c_ConversationGroupID conv);
          filtered = filterEntriesForAllForks entries channel (lq_ClientID query) (lq_AgentID query) (lq_EpochFilter query)
      in andThen (TrimEntriesToVisiblePrefix filtered entries (lq_UpToEntryID query)) (\<lambda>trimmed.
         paginateRequest (FilterEntriesByCreatedAt (fromSeqFilter query trimmed) (lq_CreatedAtFilter query)) query limit))"

definition visibleInMemory :: "db \<Rightarrow> Conversation \<Rightarrow> Channel \<Rightarrow> EntryListQuery \<Rightarrow> int \<Rightarrow> page result" where
  "visibleInMemory d conv channel query limit =
     (let visible = listVisibleEntriesForConversation d conv;
          filtered = filter (\<lambda>e. e_Channel e = channel) visible
      in andThen (if lq_UpToEntryID query \<noteq> None then TrimEntriesToVisiblePrefix filtered visible (lq_UpToEntryID query) else Inr filtered)
           (\<lambda>trimmed. paginateRequest (fromSeqFilter query trimmed) query limit))"

text \<open>
  After the bounded branches only an unknown channel is left, so the branches for the context channel and for
  all channels in the rest of the function cannot be reached and are not part of \<open>visibleInMemory\<close>.
\<close>

definition entriesPage :: "db \<Rightarrow> int \<Rightarrow> Conversation \<Rightarrow> Channel \<Rightarrow> EntryListQuery \<Rightarrow> int \<Rightarrow> page result" where
  "entriesPage d maxPageSize conv channel query limit =
     (if lq_AllForks query then
        if channel = ChannelHistory then boundedGroupHistory d maxPageSize (c_ConversationGroupID conv) query limit
        else if channel = ChannelContext
        then boundedGroupContext d maxPageSize (c_ConversationGroupID conv) (lq_ClientID query) (lq_EpochFilter query) query limit
        else if channel = ChannelJournal
        then boundedGroupChannel d maxPageSize (c_ConversationGroupID conv) ChannelJournal (lq_ClientID query) query limit
        else if channel = [] then boundedGroupAllChannels d maxPageSize (c_ConversationGroupID conv) (lq_ClientID query) True query limit
        else allForksInMemory d conv channel query limit
      else if channel = ChannelHistory then boundedVisibleHistory d maxPageSize conv query limit
      else if channel = ChannelContext
      then boundedVisibleContext d maxPageSize conv (lq_ClientID query) (lq_EpochFilter query) query limit
      else if channel = ChannelJournal then boundedVisibleChannel d maxPageSize conv ChannelJournal (lq_ClientID query) query limit
      else if channel = [] then boundedVisibleAllChannels d maxPageSize conv (lq_ClientID query) True query limit
      else visibleInMemory d conv channel query limit)"

definition defaultLimit :: "int \<Rightarrow> int" where
  "defaultLimit limit = (if limit \<le> 0 then 50 else limit)"

definition GetEntries :: "db \<Rightarrow> enc \<Rightarrow> int \<Rightarrow> string \<Rightarrow> string \<Rightarrow> EntryListQuery \<Rightarrow> PagedEntries result" where
  "GetEntries d s_enc maxPageSize userID conversationID query =
     (case findConversation d conversationID of
        None \<Rightarrow> Inl (NotFoundError ''conversation'' conversationID)
      | Some conv \<Rightarrow>
          andThen (requireAccess d userID (c_ConversationGroupID conv) AccessLevelReader) (\<lambda>_.
          let conv = hydrateConversationFork d conv;
              limit = defaultLimit (lq_Limit query);
              channel = (case lq_Channel query of None \<Rightarrow> [] | Some c \<Rightarrow> c);
              scoped = (channel = ChannelContext \<or> channel = ChannelJournal)
          in if scoped \<and> lq_ClientID query = None then Inl ForbiddenError
             else if scoped \<and> c_ClientID conv \<noteq> [] \<and> lq_ClientID query \<noteq> None \<and> Some (c_ClientID conv) \<noteq> lq_ClientID query
             then Inl ForbiddenError
             else andThen (entriesPage d maxPageSize conv channel query limit) (decryptPage s_enc)))"

definition GetEntriesBySequence :: "db \<Rightarrow> enc \<Rightarrow> string \<Rightarrow> string \<Rightarrow> uint32 list \<Rightarrow> Entry list result" where
  "GetEntriesBySequence d s_enc userID conversationID sequences =
     (if sequences = [] then Inr []
      else case findConversation d conversationID of
             None \<Rightarrow> Inl (NotFoundError ''conversation'' conversationID)
           | Some conv \<Rightarrow>
               andThen (requireAccess d userID (c_ConversationGroupID conv) AccessLevelWriter) (\<lambda>_.
                 decryptEntries s_enc
                   (filter (\<lambda>e. e_ConversationGroupID e = c_ConversationGroupID conv \<and> e_ConversationID e = conversationID
                                \<and> (\<exists>s \<in> set sequences. e_Seq e = Some s)) (db_entries d))))"

definition GetEntryGroupID :: "db \<Rightarrow> uuid \<Rightarrow> uuid result" where
  "GetEntryGroupID d entryID =
     (case List.find (\<lambda>e. e_ID e = entryID) (db_entries d) of
        None \<Rightarrow> Inl (NotFoundError ''entry'' entryID)
      | Some entry \<Rightarrow> Inr (e_ConversationGroupID entry))"

definition AdminGetEntryByID :: "db \<Rightarrow> enc \<Rightarrow> uuid \<Rightarrow> Entry result" where
  "AdminGetEntryByID d s_enc entryID =
     (case List.find (\<lambda>e. e_ID e = entryID) (db_entries d) of
        None \<Rightarrow> Inl (NotFoundError ''entry'' entryID)
      | Some entry \<Rightarrow>
          (case decryptEntryContent s_enc (e_ID entry) (e_Content entry) of
             Inl _ \<Rightarrow> Inl (InternalError ''failed to decrypt entry content'')
           | Inr decrypted \<Rightarrow> Inr (entry\<lparr>e_Content := decrypted\<rparr>)))"

section \<open>The administrator's reading\<close>

text \<open>An \<open>AdminMessageQuery\<close> is an \<open>EntryListQuery\<close> without client and agent.\<close>

definition adminInMemory :: "db \<Rightarrow> Conversation \<Rightarrow> Channel \<Rightarrow> EntryListQuery \<Rightarrow> int \<Rightarrow> page result" where
  "adminInMemory d conv channel query limit =
     (let visible = (if lq_AllForks query then listEntriesForGroup d (c_ConversationGroupID conv) else listVisibleEntriesForConversation d conv);
          filtered = filter (\<lambda>e. e_Channel e = channel) visible;
          filtered = (if lq_EpochFilter query \<noteq> None then filterEntriesByEpoch filtered (lq_EpochFilter query) else filtered)
      in andThen (TrimEntriesToVisiblePrefix filtered visible (lq_UpToEntryID query)) (\<lambda>trimmed.
         paginateRequest (FilterEntriesByCreatedAt (fromSeqFilter query trimmed) (lq_CreatedAtFilter query)) query limit))"

definition adminEpochFilter :: "EntryListQuery \<Rightarrow> MemoryEpochFilter option" where
  "adminEpochFilter query =
     (case lq_EpochFilter query of None \<Rightarrow> Some \<lparr>ef_Mode = MemoryEpochModeAll, ef_Epoch = None\<rparr> | Some f \<Rightarrow> Some f)"

definition adminEntriesPage :: "db \<Rightarrow> int \<Rightarrow> Conversation \<Rightarrow> EntryListQuery \<Rightarrow> int \<Rightarrow> page result" where
  "adminEntriesPage d maxPageSize conv query limit =
     (case lq_Channel query of
        None \<Rightarrow>
          if lq_AllForks query then boundedGroupAllChannels d maxPageSize (c_ConversationGroupID conv) None False query limit
          else boundedVisibleAllChannels d maxPageSize conv None False query limit
      | Some channel \<Rightarrow>
          if channel = ChannelHistory then
            (if lq_AllForks query then boundedGroupHistory d maxPageSize (c_ConversationGroupID conv) query limit
             else boundedVisibleHistory d maxPageSize conv query limit)
          else if channel = ChannelContext then
            (if lq_AllForks query
             then boundedGroupContext d maxPageSize (c_ConversationGroupID conv) None (adminEpochFilter query) query limit
             else boundedVisibleContext d maxPageSize conv None (adminEpochFilter query) query limit)
          else if channel = ChannelJournal then
            (if lq_AllForks query then boundedGroupChannel d maxPageSize (c_ConversationGroupID conv) ChannelJournal None query limit
             else boundedVisibleChannel d maxPageSize conv ChannelJournal None query limit)
          else adminInMemory d conv channel query limit)"

definition AdminGetEntries :: "db \<Rightarrow> enc \<Rightarrow> int \<Rightarrow> string \<Rightarrow> EntryListQuery \<Rightarrow> PagedEntries result" where
  "AdminGetEntries d s_enc maxPageSize conversationID query =
     (case findConversation d conversationID of
        None \<Rightarrow> Inl (NotFoundError ''conversation'' conversationID)
      | Some conv \<Rightarrow>
          andThen (adminEntriesPage d maxPageSize conv query (defaultLimit (lq_Limit query))) (decryptPage s_enc))"

section \<open>Looking up one entry\<close>

definition EntryLookupQuery :: "uuid \<Rightarrow> Channel option \<Rightarrow> string option \<Rightarrow> EntryListQuery" where
  "EntryLookupQuery entryID channel clientID =
     \<lparr>lq_AfterCursor = None, lq_BeforeCursor = None, lq_Tail = True, lq_UpToEntryID = Some entryID, lq_Limit = 1, lq_Channel = channel,
      lq_EpochFilter = None, lq_ClientID = clientID, lq_AgentID = None, lq_AllForks = True, lq_FromSeq = None, lq_CreatedAtFilter = None\<rparr>"

definition AdminEntryLookupQuery :: "uuid \<Rightarrow> EntryListQuery" where
  "AdminEntryLookupQuery entryID =
     \<lparr>lq_AfterCursor = None, lq_BeforeCursor = None, lq_Tail = True, lq_UpToEntryID = Some entryID, lq_Limit = 1, lq_Channel = None,
      lq_EpochFilter = None, lq_ClientID = None, lq_AgentID = None, lq_AllForks = True, lq_FromSeq = None, lq_CreatedAtFilter = None\<rparr>"

text \<open>The event streams take the page only when it is the entry asked for.\<close>

definition readEntryDetail :: "db \<Rightarrow> enc \<Rightarrow> int \<Rightarrow> string \<Rightarrow> string option \<Rightarrow> string \<Rightarrow> uuid \<Rightarrow> Channel option \<Rightarrow> Entry result" where
  "readEntryDetail d s_enc maxPageSize userID clientID conversationID entryID channel =
     andThen (GetEntries d s_enc maxPageSize userID conversationID (EntryLookupQuery entryID channel clientID)) (\<lambda>result.
       if length (pe_Data result) = 1 \<and> e_ID (pe_Data result ! 0) = entryID then Inr (pe_Data result ! 0)
       else Inl (InternalError ''entry not found''))"

definition readAdminEntryDetail :: "db \<Rightarrow> enc \<Rightarrow> int \<Rightarrow> string \<Rightarrow> uuid \<Rightarrow> Entry result" where
  "readAdminEntryDetail d s_enc maxPageSize conversationID entryID =
     andThen (AdminGetEntries d s_enc maxPageSize conversationID (AdminEntryLookupQuery entryID)) (\<lambda>result.
       if length (pe_Data result) = 1 \<and> e_ID (pe_Data result ! 0) = entryID then Inr (pe_Data result ! 0)
       else Inl (NotFoundError ''entry'' entryID))"

end
