(* ===== verification/Reading_Facts.thy ===== *)
theory Reading_Facts
  imports Reading
begin

text \<open>
  What reading returns: nothing outside the reader's access, view and client scope, at most a page of it, and,
  for the known channels, exactly the page of the specification. An administrator's lookup finds every entry.
\<close>

section \<open>Rows of a page\<close>

lemma cursorRows_subset: "cursorRows base s after name cursor lookup err = Inr tx \<Longrightarrow> set tx \<subseteq> set base"
  by (auto simp: cursorRows_def split: option.splits)

lemma scan_rows:
  assumes "length fetched \<le> limit + 1"
  shows "set (fst (scanBackward fetched c limit)) \<subseteq> set fetched" "length (fst (scanBackward fetched c limit)) \<le> limit"
    "set (fst (scanForward fetched c limit)) \<subseteq> set fetched" "length (fst (scanForward fetched c limit)) \<le> limit"
  using assms by (auto simp: scanBackward_def scanForward_def Let_def dest: in_set_takeD list.set_sel(2)[rotated])

lemma bounded_rows:
  assumes "BoundedEntriesFromBase base s after before tail limit lookup err = Inr p"
  shows "set (fst p) \<subseteq> set base" "int (length (fst p)) \<le> limit"
proof -
  have lim: "0 < limit" using assms by (auto simp: BoundedEntriesFromBase_def split: if_splits)
  obtain tx lt c where tx: "set tx \<subseteq> set base" and p: "p = scanBackward (take (nat limit + 1) (order_by lt tx)) c (nat limit)
      \<or> p = scanForward (take (nat limit + 1) (order_by lt tx)) c (nat limit)"
    using assms lim
    by (auto simp: BoundedEntriesFromBase_def boundedBackward_def boundedForward_def andThen_eq_Inr dest!: cursorRows_subset split: if_splits)
  have len: "length (take (nat limit + 1) (order_by lt tx)) \<le> nat limit + 1" by simp
  have sub: "set (take (nat limit + 1) (order_by lt tx)) \<subseteq> set base" using tx set_take_subset[of _ "order_by lt tx"] by fastforce
  show "set (fst p) \<subseteq> set base" using p scan_rows(1,3)[OF len] sub by blast
  have "length (fst p) \<le> nat limit" using p scan_rows(2,4)[OF len] by blast
  then show "int (length (fst p)) \<le> limit" using lim by linarith
qed

lemma ApplyCreatedAtFilter_subset: "set (ApplyCreatedAtFilter base f) \<subseteq> set base"
  by (auto simp: ApplyCreatedAtFilter_def Let_def split: option.splits)

lemma ApplyEpochFilter_subset: "set (ApplyEpochFilter base f b) \<subseteq> set base"
  by (auto simp: ApplyEpochFilter_def Let_def split: option.splits)

lemma applySQLEpochFilterToBase_subset: "set (applySQLEpochFilterToBase base f) \<subseteq> set base"
  by (auto simp: applySQLEpochFilterToBase_def Let_def split: option.splits)

definition shrinks :: "(Entry list \<Rightarrow> Entry list) option \<Rightarrow> bool" where
  "shrinks f \<longleftrightarrow> (\<forall>g base. f = Some g \<longrightarrow> set (g base) \<subseteq> set base)"

lemma shrinks_simps [simp]:
  "shrinks None" "shrinks (Some (\<lambda>base. ApplyEpochFilter base f b))" "shrinks (Some (\<lambda>base. applySQLEpochFilterToBase base f))"
  by (simp_all add: shrinks_def ApplyEpochFilter_subset applySQLEpochFilterToBase_subset)

lemma boundedBase_subset:
  assumes "shrinks (bq_BaseTransform q)"
  shows "set (boundedBase q upTo) \<subseteq> set (bq_Base q)"
proof -
  let ?b0 = "case upTo of None \<Rightarrow> bq_Base q | Some u \<Rightarrow> filter (\<lambda>r. sql_holds (whereEntryOrder u False True r)) (bq_Base q)"
  let ?b1 = "case bq_BaseTransform q of None \<Rightarrow> ?b0 | Some f \<Rightarrow> f ?b0"
  have "set ?b0 \<subseteq> set (bq_Base q)" by (auto split: option.splits)
  moreover have "set ?b1 \<subseteq> set ?b0" using assms by (cases "bq_BaseTransform q") (auto simp: shrinks_def)
  moreover have "set (boundedBase q upTo) \<subseteq> set ?b1"
    using ApplyCreatedAtFilter_subset by (fastforce simp: boundedBase_def Let_def split: option.splits)
  ultimately show ?thesis by blast
qed

lemma runBounded_rows:
  assumes "runBoundedSQLQuery d m base query limit lk f = Inr p" and "shrinks f"
  shows "set (fst p) \<subseteq> set base" "int (length (fst p)) \<le> limit"
proof -
  let ?q = "\<lparr>bq_Base = base, bq_FromSeq = lq_FromSeq query, bq_UpToEntryID = lq_UpToEntryID query,
        bq_AfterEntryID = lq_AfterCursor query, bq_BeforeEntryID = lq_BeforeCursor query, bq_Tail = lq_Tail query,
        bq_Limit = limit, bq_MaxLimit = m, bq_UpToLookup = lk, bq_BaseTransform = f,
        bq_CursorEntryError = cursorEntryError d, bq_LimitError = Some (\<lambda>max. BadRequestError limitMessage),
        bq_EntryNotFound = Some (\<lambda>entryID. NotFoundError ''entry'' entryID), bq_CreatedAtFilter = lq_CreatedAtFilter query\<rparr>"
  from assms(1) obtain u where "BoundedEntriesFromBase (boundedBase ?q u) (lq_FromSeq query) (lq_AfterCursor query) (lq_BeforeCursor query)
      (lq_Tail query) limit (\<lambda>i. List.find (\<lambda>e. e_ID e = i) (boundedBase ?q u)) (cursorEntryError d) = Inr p"
    by (auto simp: runBoundedSQLQuery_def RunBoundedQuery_def Let_def andThen_eq_Inr split: if_splits)
  note b = bounded_rows[OF this]
  show "int (length (fst p)) \<le> limit" by (rule b(2))
  have "set (boundedBase ?q u) \<subseteq> set base" using boundedBase_subset[of ?q u] assms(2) by simp
  then show "set (fst p) \<subseteq> set base" using b(1) by blast
qed

lemma in_segment: "x \<in> set (drop m (take n xs)) \<Longrightarrow> x \<in> set xs"
  by (meson in_set_dropD in_set_takeD)

lemma paginate_rows:
  assumes "PaginateEntries xs after before tail limit = Inr p"
  shows "set (fst p) \<subseteq> set xs" "int (length (fst p)) \<le> defaultLimit limit"
  using assms
  by (auto simp: PaginateEntries_def paginateTail_def paginateBefore_def paginateForward_def defaultLimit_def Let_def
      dest: in_segment in_set_dropD in_set_takeD split: if_splits option.splits)

lemma paginateRequest_rows:
  assumes "paginateRequest xs query limit = Inr p"
  shows "set (fst p) \<subseteq> set xs" "int (length (fst p)) \<le> defaultLimit limit"
  using assms paginate_rows by (auto simp: paginateRequest_def map_sum_def split: sum.splits)

lemma trim_subset: "TrimEntriesToVisiblePrefix xs visible upTo = Inr ys \<Longrightarrow> set ys \<subseteq> set xs"
  by (auto simp: TrimEntriesToVisiblePrefix_def split: option.splits if_splits prod.splits)

lemma fromSeqFilter_subset: "set (fromSeqFilter query xs) \<subseteq> set xs"
  by (auto simp: fromSeqFilter_def filterEntriesByFromSeq_def split: option.splits)

lemma FilterEntriesByCreatedAt_subset: "set (FilterEntriesByCreatedAt xs f) \<subseteq> set xs"
  by (auto simp: FilterEntriesByCreatedAt_def split: option.splits)

section \<open>What a reader sees\<close>

text \<open>The channel of a request, empty for all channels.\<close>

definition queryChannel :: "EntryListQuery \<Rightarrow> Channel" where
  "queryChannel query = (case lq_Channel query of None \<Rightarrow> [] | Some c \<Rightarrow> c)"

definition inScope :: "EntryListQuery \<Rightarrow> Entry \<Rightarrow> bool" where
  "inScope query e \<longleftrightarrow>
     (queryChannel query = [] \<or> e_Channel e = queryChannel query)
     \<and> (e_Channel e \<in> set scopedChannels \<longrightarrow> lq_ClientID query \<noteq> None \<and> e_ClientID e = lq_ClientID query)"

text \<open>The relation of a request before any filter: the view of the conversation, or the entries of its group.\<close>

definition relation :: "db \<Rightarrow> Conversation \<Rightarrow> EntryListQuery \<Rightarrow> Entry list" where
  "relation d conv query = (if lq_AllForks query then groupEntriesQuery d (c_ConversationGroupID conv) else visibleEntriesQuery d conv)"

lemma channel_simps [simp]:
  "ChannelHistory \<noteq> []" "ChannelContext \<noteq> []" "ChannelJournal \<noteq> []" "ChannelHistory \<notin> set scopedChannels" "[] \<notin> set scopedChannels"
  "ChannelContext \<in> set scopedChannels" "ChannelJournal \<in> set scopedChannels"
  by (simp_all add: scopedChannels_def ChannelHistory_def ChannelContext_def ChannelJournal_def)

text \<open>The SQL relation of each bounded branch is the relation of the request, restricted to its scope.\<close>

definition baseQuery :: "db \<Rightarrow> Conversation \<Rightarrow> EntryListQuery \<Rightarrow> Entry list" where
  "baseQuery d conv query = filter (inScope query) (relation d conv query)"

lemma base_queries:
  assumes "queryChannel query \<in> set scopedChannels \<Longrightarrow> lq_ClientID query \<noteq> None"
  shows "lq_AllForks query \<Longrightarrow> queryChannel query = ChannelHistory \<Longrightarrow>
      groupHistoryEntriesQuery d (c_ConversationGroupID conv) None = baseQuery d conv query"
    "lq_AllForks query \<Longrightarrow> queryChannel query = c \<Longrightarrow> c \<in> set scopedChannels \<Longrightarrow>
      groupChannelEntriesQuery d (c_ConversationGroupID conv) c (lq_ClientID query) = baseQuery d conv query"
    "lq_AllForks query \<Longrightarrow> queryChannel query = [] \<Longrightarrow>
      groupAllChannelsQuery d (c_ConversationGroupID conv) (lq_ClientID query) True = baseQuery d conv query"
    "\<not> lq_AllForks query \<Longrightarrow> queryChannel query = ChannelHistory \<Longrightarrow> visibleHistoryEntriesQuery d conv = baseQuery d conv query"
    "\<not> lq_AllForks query \<Longrightarrow> queryChannel query = c \<Longrightarrow> c \<in> set scopedChannels \<Longrightarrow>
      visibleChannelEntriesQuery d conv c (lq_ClientID query) = baseQuery d conv query"
    "\<not> lq_AllForks query \<Longrightarrow> queryChannel query = [] \<Longrightarrow> visibleAllChannelsQuery d conv (lq_ClientID query) True = baseQuery d conv query"
  using assms
  by (auto simp: baseQuery_def relation_def inScope_def groupHistoryEntriesQuery_def groupEntriesQuery_def groupChannelEntriesQuery_def
      groupAllChannelsQuery_def visibleHistoryEntriesQuery_def visibleChannelEntriesQuery_def visibleAllChannelsQuery_def Let_def
      intro!: filter_cong split: option.splits)

definition epochTransform :: "EntryListQuery \<Rightarrow> (Entry list \<Rightarrow> Entry list) option" where
  "epochTransform query =
     (if queryChannel query = ChannelContext then Some (\<lambda>base. ApplyEpochFilter base (lq_EpochFilter query) True)
      else if queryChannel query = [] then Some (\<lambda>base. applySQLEpochFilterToBase base (lq_EpochFilter query))
      else None)"

lemma shrinks_epochTransform [simp]: "shrinks (epochTransform query)"
  by (simp add: epochTransform_def)

definition knownChannels :: "Channel list" where
  "knownChannels = [[], ChannelHistory, ChannelContext, ChannelJournal]"

lemma entriesPage_bounded:
  assumes "queryChannel query \<in> set knownChannels" "queryChannel query \<in> set scopedChannels \<Longrightarrow> lq_ClientID query \<noteq> None"
  shows "entriesPage d m conv (queryChannel query) query limit =
    runBoundedSQLQuery d m (baseQuery d conv query) query limit (\<lambda>i. List.find (\<lambda>e. e_ID e = i) (relation d conv query)) (epochTransform query)"
proof -
  have lk: "lq_AllForks query \<Longrightarrow> groupEntryByID d (c_ConversationGroupID conv) = (\<lambda>i. List.find (\<lambda>e. e_ID e = i) (relation d conv query))"
    "\<not> lq_AllForks query \<Longrightarrow> visibleEntryByID d conv = (\<lambda>i. List.find (\<lambda>e. e_ID e = i) (relation d conv query))"
    by (simp_all add: fun_eq_iff groupEntryByID_def visibleEntryByID_def relation_def)
  have ne: "ChannelContext \<noteq> ChannelHistory" "ChannelJournal \<noteq> ChannelHistory" "ChannelJournal \<noteq> ChannelContext" "ChannelHistory \<noteq> ChannelContext"
    by (simp_all add: ChannelHistory_def ChannelContext_def ChannelJournal_def)
  consider "queryChannel query = []" | "queryChannel query = ChannelHistory" | "queryChannel query = ChannelContext" | "queryChannel query = ChannelJournal"
    using assms(1) by (auto simp: knownChannels_def)
  then show ?thesis
    using base_queries[OF assms(2), where d = d and conv = conv] lk ne ne[symmetric] channel_simps(1-3)[symmetric]
    by cases (simp_all add: entriesPage_def epochTransform_def boundedGroupHistory_def boundedGroupContext_def boundedGroupChannel_def
        boundedGroupAllChannels_def boundedVisibleHistory_def boundedVisibleContext_def boundedVisibleChannel_def boundedVisibleAllChannels_def)
qed

lemma entriesPage_rows:
  assumes ok: "entriesPage d m conv (queryChannel query) query limit = Inr p" and pos: "0 < limit"
    and client: "queryChannel query \<in> set scopedChannels \<Longrightarrow> lq_ClientID query \<noteq> None"
  shows "set (fst p) \<subseteq> set (baseQuery d conv query)" "int (length (fst p)) \<le> limit"
proof -
  have "set (fst p) \<subseteq> set (baseQuery d conv query) \<and> int (length (fst p)) \<le> limit"
  proof (cases "queryChannel query \<in> set knownChannels")
    case True
    then show ?thesis using ok runBounded_rows by (simp add: entriesPage_bounded[OF True client])
  next
    case False
    then have unk: "queryChannel query \<noteq> []" "queryChannel query \<noteq> ChannelHistory" "queryChannel query \<noteq> ChannelContext"
      "queryChannel query \<noteq> ChannelJournal" by (auto simp: knownChannels_def)
    let ?F = "filter (\<lambda>e. e_Channel e = queryChannel query) (relation d conv query)"
    have "\<exists>xs. paginateRequest xs query limit = Inr p \<and> set xs \<subseteq> set ?F"
    proof (cases "lq_AllForks query")
      case True
      with ok unk obtain tr where tr: "TrimEntriesToVisiblePrefix (filterEntriesForAllForks (listEntriesForGroup d (c_ConversationGroupID conv))
            (queryChannel query) (lq_ClientID query) (lq_AgentID query) (lq_EpochFilter query))
            (listEntriesForGroup d (c_ConversationGroupID conv)) (lq_UpToEntryID query) = Inr tr"
        and p: "paginateRequest (FilterEntriesByCreatedAt (fromSeqFilter query tr) (lq_CreatedAtFilter query)) query limit = Inr p"
        by (auto simp: entriesPage_def allForksInMemory_def Let_def andThen_eq_Inr)
      have "set (filterEntriesForAllForks (listEntriesForGroup d (c_ConversationGroupID conv)) (queryChannel query) (lq_ClientID query) (lq_AgentID query) (lq_EpochFilter query))
          \<subseteq> set ?F" using True unk by (auto simp: filterEntriesForAllForks_def Let_def listEntriesForGroup_def relation_def)
      then show ?thesis
        using p FilterEntriesByCreatedAt_subset[of "fromSeqFilter query tr"] fromSeqFilter_subset[of query tr] trim_subset[OF tr] by blast
    next
      case False
      with ok unk obtain tr where tr: "(if lq_UpToEntryID query \<noteq> None
            then TrimEntriesToVisiblePrefix (filter (\<lambda>e. e_Channel e = queryChannel query) (listVisibleEntriesForConversation d conv))
                   (listVisibleEntriesForConversation d conv) (lq_UpToEntryID query)
            else Inr (filter (\<lambda>e. e_Channel e = queryChannel query) (listVisibleEntriesForConversation d conv))) = Inr tr"
        and p: "paginateRequest (fromSeqFilter query tr) query limit = Inr p"
        by (auto simp: entriesPage_def visibleInMemory_def Let_def andThen_eq_Inr)
      have "set tr \<subseteq> set (filter (\<lambda>e. e_Channel e = queryChannel query) (listVisibleEntriesForConversation d conv))"
        using tr by (cases "lq_UpToEntryID query = None") (auto dest!: trim_subset)
      also have "\<dots> = set ?F" using False by (simp add: listVisibleEntriesForConversation_def relation_def)
      finally show ?thesis using p fromSeqFilter_subset[of query tr] by blast
    qed
    then obtain xs where p: "paginateRequest xs query limit = Inr p" and xs: "set xs \<subseteq> set ?F" by blast
    have "filter (\<lambda>e. e_Channel e = queryChannel query) (relation d conv query) = baseQuery d conv query"
      using unk by (auto simp: baseQuery_def inScope_def scopedChannels_def intro!: filter_cong)
    then show ?thesis using paginateRequest_rows[OF p] xs pos by (auto simp: defaultLimit_def)
  qed
  then show "set (fst p) \<subseteq> set (baseQuery d conv query)" "int (length (fst p)) \<le> limit" by auto
qed

lemma hydrate_same:
  "c_ID (hydrateConversationFork d conv) = c_ID conv" "c_ConversationGroupID (hydrateConversationFork d conv) = c_ConversationGroupID conv"
  "c_ClientID (hydrateConversationFork d conv) = c_ClientID conv"
  by (auto simp: hydrateConversationFork_def hydrateConversationLineage_def split: option.splits)

lemma baseQuery_hydrate: "baseQuery d (hydrateConversationFork d conv) query = baseQuery d conv query"
  "relation d (hydrateConversationFork d conv) query = relation d conv query"
  by (simp_all add: baseQuery_def relation_def visibleEntriesQuery_def hydrate_same)

lemma GetEntries_page:
  assumes "findConversation d cid = Some conv" "requireAccess d userID (c_ConversationGroupID conv) AccessLevelReader = Inr level"
  shows "GetEntries d s_enc m userID cid query =
    (if queryChannel query \<in> set scopedChannels \<and> \<not> (lq_ClientID query \<noteq> None \<and> (c_ClientID conv = [] \<or> lq_ClientID query = Some (c_ClientID conv)))
     then Inl ForbiddenError
     else andThen (entriesPage d m (hydrateConversationFork d conv) (queryChannel query) query (defaultLimit (lq_Limit query))) (decryptPage s_enc))"
proof -
  have sc: "(queryChannel query = ChannelContext \<or> queryChannel query = ChannelJournal) = (queryChannel query \<in> set scopedChannels)"
    by (simp add: scopedChannels_def)
  show ?thesis unfolding GetEntries_def assms Let_def andThen_simps option.case hydrate_same queryChannel_def[symmetric] sc
    by (cases "queryChannel query \<in> set scopedChannels"; cases "lq_ClientID query"; cases "c_ClientID conv = []") auto
qed

text \<open>A successful reading, taken apart.\<close>

lemma GetEntries_Inr:
  assumes "GetEntries d s_enc m userID cid query = Inr r"
  obtains conv level p where "findConversation d cid = Some conv" "requireAccess d userID (c_ConversationGroupID conv) AccessLevelReader = Inr level"
    "queryChannel query \<in> set scopedChannels \<longrightarrow> lq_ClientID query \<noteq> None"
    "entriesPage d m (hydrateConversationFork d conv) (queryChannel query) query (defaultLimit (lq_Limit query)) = Inr p" "decryptPage s_enc p = Inr r"
  using assms
  by (auto simp: GetEntries_def andThen_eq_Inr Let_def scopedChannels_def simp flip: queryChannel_def split: option.splits if_splits)

text \<open>
  C5 (get_entries_confined): a reader gets at most a page of entries, all of them stored entries of the
  conversation's group, to which the reader has access; without all forks, they are in the conversation's view; they
  are of the channel asked for, and context and journal entries are the calling client's own.
\<close>

theorem get_entries_confined:
  assumes "GetEntries d s_enc maxPageSize userID conversationID query = Inr r"
  shows "\<exists>conv level rows. findConversation d conversationID = Some conv
     \<and> requireAccess d userID (c_ConversationGroupID conv) AccessLevelReader = Inr level
     \<and> decryptEntries s_enc rows = Inr (pe_Data r) \<and> int (length rows) \<le> defaultLimit (lq_Limit query)
     \<and> set rows \<subseteq> set (groupEntriesQuery d (c_ConversationGroupID conv))
     \<and> (\<not> lq_AllForks query \<longrightarrow> set rows \<subseteq> set (listVisibleEntriesForConversation d conv))
     \<and> list_all (inScope query) rows"
proof -
  obtain conv level p where c: "findConversation d conversationID = Some conv"
      "requireAccess d userID (c_ConversationGroupID conv) AccessLevelReader = Inr level"
      "queryChannel query \<in> set scopedChannels \<longrightarrow> lq_ClientID query \<noteq> None" "decryptPage s_enc p = Inr r"
    and p: "entriesPage d maxPageSize (hydrateConversationFork d conv) (queryChannel query) query (defaultLimit (lq_Limit query)) = Inr p"
    using GetEntries_Inr[OF assms] by metis
  have "0 < defaultLimit (lq_Limit query)" by (simp add: defaultLimit_def)
  note rows = entriesPage_rows[OF p this, unfolded baseQuery_hydrate]
  have "decryptEntries s_enc (fst p) = Inr (pe_Data r)" using c(4) by (auto simp: decryptPage_def andThen_eq_Inr split: prod.splits)
  moreover have "set (fst p) \<subseteq> set (relation d conv query)" "list_all (inScope query) (fst p)"
    using rows(1) c(3) by (auto simp: baseQuery_def list_all_iff)
  moreover have "set (visibleEntriesQuery d conv) \<subseteq> set (groupEntriesQuery d (c_ConversationGroupID conv))"
    by (auto simp: visibleEntriesQuery_def groupEntriesQuery_def split: if_splits)
  ultimately show ?thesis
    using rows(2) c by (intro exI[of _ conv] exI[of _ level] exI[of _ "fst p"]) (auto simp: relation_def listVisibleEntriesForConversation_def split: if_splits)
qed

section \<open>The page of the specification\<close>

text \<open>The view up to and including an entry.\<close>

definition cutAt :: "string option \<Rightarrow> Entry list \<Rightarrow> Entry list" where
  "cutAt upTo xs =
     (case upTo of
        None \<Rightarrow> xs
      | Some u \<Rightarrow> if u = [] then xs else takeWhile (\<lambda>e. e_ID e \<noteq> u) xs @ filter (\<lambda>e. e_ID e = u) xs)"

definition viewRows :: "db \<Rightarrow> Conversation \<Rightarrow> EntryListQuery \<Rightarrow> Entry list" where
  "viewRows d conv query =
     (if lq_AllForks query then listEntriesForGroup d (c_ConversationGroupID conv) else listVisibleEntriesForConversation d conv)"

text \<open>
  The whole list a request pages over: the view, cut at the last entry asked for, restricted to the scope of the
  request and to its epoch, in sequence order when it starts at a sequence number, and within its time bounds.
\<close>

definition epochRows :: "EntryListQuery \<Rightarrow> Entry list \<Rightarrow> Entry list" where
  "epochRows query xs = (case epochTransform query of None \<Rightarrow> xs | Some f \<Rightarrow> f xs)"

definition sequenceRows :: "EntryListQuery \<Rightarrow> Entry list \<Rightarrow> Entry list" where
  "sequenceRows query xs =
     (case lq_FromSeq query of
        None \<Rightarrow> xs
      | Some s \<Rightarrow> order_by (seqOrderSQL False) (filter (\<lambda>e. case e_Seq e of None \<Rightarrow> False | Some n \<Rightarrow> s \<le> n) xs))"

definition specRows :: "db \<Rightarrow> Conversation \<Rightarrow> EntryListQuery \<Rightarrow> Entry list" where
  "specRows d conv query =
     FilterEntriesByCreatedAt
       (sequenceRows query (epochRows query (filter (inScope query) (cutAt (lq_UpToEntryID query) (viewRows d conv query)))))
       (lq_CreatedAtFilter query)"

lemma maxEpoch_set: "set xs = set ys \<Longrightarrow> maxEpoch xs = maxEpoch ys"
proof -
  have "maxEpoch xs = (if xs = [] then None else Some (Max (entryEpoch ` set xs)))" for xs
  proof (induction xs)
    case (Cons x xs)
    then show ?case by (cases "xs = []") (simp_all add: Max_insert max.commute)
  qed simp
  then show "set xs = set ys \<Longrightarrow> maxEpoch xs = maxEpoch ys" by (metis set_empty)
qed

lemma maxEpoch_order_by [simp]: "maxEpoch (order_by lt xs) = maxEpoch xs"
  "maxEpoch (filter P (order_by lt xs)) = maxEpoch (filter P xs)"
  by (rule maxEpoch_set; simp)+

lemma order_by_Nil [simp]: "order_by lt xs = [] \<longleftrightarrow> xs = []"
  by (metis length_0_conv length_order_by)

lemma epochRows_order_by:
  assumes "distinct (map e_ID xs)"
  shows "order_by entryOrderLess (epochRows query xs) = epochRows query (order_by entryOrderLess xs)"
  by (auto simp: epochRows_def epochTransform_def ApplyEpochFilter_def applySQLEpochFilterToBase_def Let_def
      entry_ord.order_by_filter[OF assms] split: option.splits)

lemma distinct_epochRows: "distinct (map e_ID xs) \<Longrightarrow> distinct (map e_ID (epochRows query xs))"
  by (auto simp: epochRows_def epochTransform_def ApplyEpochFilter_def applySQLEpochFilterToBase_def Let_def distinct_map_filter
      split: option.splits)

lemma createdAt_is_filter: "\<exists>P. \<forall>xs. ApplyCreatedAtFilter xs f = filter P xs"
proof -
  have "ApplyCreatedAtFilter xs f = filter (\<lambda>e. case f of None \<Rightarrow> True | Some f \<Rightarrow> (case cf_Eq f of
        Some t \<Rightarrow> e_CreatedAt e = t
      | None \<Rightarrow> (\<forall>t \<in> set_option (cf_After f). e_CreatedAt e \<ge> t) \<and> (\<forall>t \<in> set_option (cf_Before f). e_CreatedAt e \<le> t))) xs" for xs
    by (auto simp: ApplyCreatedAtFilter_def Let_def intro: filter_cong split: option.splits)
  then show ?thesis by blast
qed

lemma filter_own_id:
  assumes "distinct (map e_ID xs)" "u \<in> set xs"
  shows "filter (\<lambda>e. e_ID e = e_ID u) xs = [u]"
proof -
  obtain pre post where xs: "xs = pre @ u # post" using split_list[OF assms(2)] by blast
  have "e_ID u \<notin> e_ID ` (set pre \<union> set post)" using assms(1) by (simp add: xs image_Un)
  then have "\<forall>e \<in> set pre \<union> set post. e_ID e \<noteq> e_ID u" by (metis imageI)
  then show ?thesis by (simp add: xs)
qed

lemma cut_sorted:
  assumes srt: "sorted_wrt entryOrderLess xs" and d: "distinct (map e_ID xs)" and u: "u \<in> set xs"
  shows "filter (\<lambda>r. sql_holds (whereEntryOrder u False True r)) xs = takeWhile (\<lambda>e. e_ID e \<noteq> e_ID u) xs @ filter (\<lambda>e. e_ID e = e_ID u) xs"
proof -
  obtain pre post where xs: "xs = pre @ u # post" using split_list[OF u] by blast
  have "e_ID u \<notin> e_ID ` (set pre \<union> set post)" using d by (simp add: xs image_Un)
  then have ids: "\<forall>e \<in> set pre \<union> set post. e_ID e \<noteq> e_ID u" by (metis imageI)
  then have "takeWhile (\<lambda>e. e_ID e \<noteq> e_ID u) xs = pre" by (simp add: xs)
  moreover have "filter (\<lambda>e. e_ID e = e_ID u) xs = [u]" by (rule filter_own_id[OF d u])
  moreover have less: "\<forall>e \<in> set pre. entryOrderLess e u" "\<forall>e \<in> set post. entryOrderLess u e"
    using srt by (auto simp: xs sorted_wrt_append)
  have at: "sql_holds (whereEntryOrder u False True u)" "\<And>e. entryOrderLess e u \<Longrightarrow> sql_holds (whereEntryOrder u False True e)"
    "\<And>e. entryOrderLess u e \<Longrightarrow> e_ID e \<noteq> e_ID u \<Longrightarrow> \<not> sql_holds (whereEntryOrder u False True e)"
    using entry_ord.lt_asym by (auto simp: whereEntryOrder_atOrBefore compareForkEntries_eq)
  have "filter (\<lambda>r. sql_holds (whereEntryOrder u False True r)) xs = pre @ [u]"
    using less ids at by (auto simp: xs filter_empty_conv filter_id_conv)
  ultimately show ?thesis by simp
qed

lemma relation_distinct:
  assumes "keysOK d"
  shows "distinct (map e_ID (relation d conv query))"
  using assms by (simp add: relation_def groupEntriesQuery_def visibleEntriesQuery_filter[OF assms] keysOK_def distinct_map_filter)

lemma viewRows_order: "viewRows d conv query = order_by entryOrderLess (relation d conv query)"
  by (simp add: viewRows_def relation_def listEntriesForGroup_def listVisibleEntriesForConversation_def EntryOrderSQL_asc)

lemma find_by_id:
  assumes "distinct (map e_ID xs)" "u \<in> e_ID ` set xs"
  obtains e where "List.find (\<lambda>e. e_ID e = u) xs = Some e" "e \<in> set xs" "e_ID e = u"
proof -
  obtain e where "List.find (\<lambda>e. e_ID e = u) xs = Some e" using assms(2) by (cases "List.find (\<lambda>e. e_ID e = u) xs") (auto simp: find_None_iff)
  moreover from this have "e \<in> set xs \<and> e_ID e = u" by (metis (mono_tags, lifting) find_Some_iff nth_mem)
  ultimately show thesis using that by blast
qed

definition upToRow :: "db \<Rightarrow> Conversation \<Rightarrow> EntryListQuery \<Rightarrow> Entry option" where
  "upToRow d conv query =
     (case lq_UpToEntryID query of
        None \<Rightarrow> None
      | Some u \<Rightarrow> if u = [] then None else List.find (\<lambda>e. e_ID e = u) (relation d conv query))"

lemma cut_order:
  assumes k: "keysOK d" and u: "\<forall>u. lq_UpToEntryID query = Some u \<and> u \<noteq> [] \<longrightarrow> u \<in> e_ID ` set (relation d conv query)"
  shows "order_by entryOrderLess (case upToRow d conv query of None \<Rightarrow> baseQuery d conv query
           | Some u \<Rightarrow> filter (\<lambda>r. sql_holds (whereEntryOrder u False True r)) (baseQuery d conv query))
       = filter (inScope query) (cutAt (lq_UpToEntryID query) (viewRows d conv query))"
proof (cases "upToRow d conv query")
  note dist = relation_distinct[OF k, of conv query]
  note comm = entry_ord.order_by_filter[OF dist]
  case None
  then have "cutAt (lq_UpToEntryID query) (viewRows d conv query) = viewRows d conv query"
    using u by (auto simp: upToRow_def cutAt_def find_None_iff image_iff split: option.splits if_splits)
  then show ?thesis using None by (simp add: baseQuery_def comm viewRows_order)
next
  note dist = relation_distinct[OF k, of conv query]
  note comm = entry_ord.order_by_filter[OF dist]
  case (Some e)
  then obtain i where i: "lq_UpToEntryID query = Some i" "i \<noteq> []" "List.find (\<lambda>e. e_ID e = i) (relation d conv query) = Some e"
    by (auto simp: upToRow_def split: option.splits if_splits)
  then have e: "e \<in> set (relation d conv query)" "e_ID e = i" by (metis (mono_tags, lifting) find_Some_iff nth_mem)+
  have "filter (\<lambda>r. sql_holds (whereEntryOrder e False True r)) (viewRows d conv query)
      = takeWhile (\<lambda>x. e_ID x \<noteq> e_ID e) (viewRows d conv query) @ filter (\<lambda>x. e_ID x = e_ID e) (viewRows d conv query)"
    using dist e(1) entry_ord.sorted_order_by[OF dist] by (intro cut_sorted) (simp_all add: viewRows_order)
  then have "cutAt (lq_UpToEntryID query) (viewRows d conv query) = filter (\<lambda>r. sql_holds (whereEntryOrder e False True r)) (viewRows d conv query)"
    using i(1,2) e(2) by (simp add: cutAt_def)
  then show ?thesis using Some by (simp add: baseQuery_def comm viewRows_order filter_filter conj_commute)
qed

lemma seq_filter: "sql_holds (sql_and (Some (e_Seq r \<noteq> None)) (sql_cmp (\<ge>) (e_Seq r) (Some s))) \<longleftrightarrow> (case e_Seq r of None \<Rightarrow> False | Some n \<Rightarrow> s \<le> n)"
  by (cases "e_Seq r"; cases "s \<le> the (e_Seq r)") (simp_all add: sql_holds_def)

lemma sequence_order:
  assumes d: "distinct (map e_ID xs)"
  shows "order_by (pagerOrder (lq_FromSeq query) False)
      (ApplyCreatedAtFilter (case lq_FromSeq query of None \<Rightarrow> xs
          | Some s \<Rightarrow> filter (\<lambda>r. sql_holds (sql_and (Some (e_Seq r \<noteq> None)) (sql_cmp (\<ge>) (e_Seq r) (Some s)))) xs) f)
    = FilterEntriesByCreatedAt (sequenceRows query (order_by entryOrderLess xs)) f"
proof -
  obtain P where P: "\<And>xs. ApplyCreatedAtFilter xs f = filter P xs" using createdAt_is_filter by blast
  show ?thesis
  proof (cases "lq_FromSeq query")
    case None
    then show ?thesis by (simp add: createdAt_filters_agree P pagerOrder_def EntryOrderSQL_asc sequenceRows_def entry_ord.order_by_filter[OF d])
  next
    case (Some s)
    let ?Q = "\<lambda>e. case e_Seq e of None \<Rightarrow> False | Some n \<Rightarrow> s \<le> n"
    have dq: "distinct (map e_ID (filter ?Q xs))" "distinct (map e_ID (filter ?Q (order_by entryOrderLess xs)))"
      using d by (simp_all add: distinct_map_filter)
    have "order_by (seqOrderSQL False) (filter ?Q (order_by entryOrderLess xs)) = order_by (seqOrderSQL False) (filter ?Q xs)"
      by (rule seq_ord.order_by_unique[OF dq(2) seq_ord.sorted_order_by[OF dq(1)]]) simp
    then show ?thesis
      using Some by (simp only: createdAt_filters_agree P pagerOrder_def sequenceRows_def seq_filter option.case option.distinct if_True not_False_eq_True
          seq_ord.order_by_filter[OF dq(1)] simp_thms)
  qed
qed

lemma specRows_base:
  assumes k: "keysOK d" and u: "\<forall>u. lq_UpToEntryID query = Some u \<and> u \<noteq> [] \<longrightarrow> u \<in> e_ID ` set (relation d conv query)"
    and q: "bq_Base q = baseQuery d conv query" "bq_BaseTransform q = epochTransform query" "bq_FromSeq q = lq_FromSeq query"
      "bq_CreatedAtFilter q = lq_CreatedAtFilter query"
  shows "order_by (pagerOrder (lq_FromSeq query) False) (boundedBase q (upToRow d conv query)) = specRows d conv query"
    "distinct (map e_ID (boundedBase q (upToRow d conv query)))"
    "lq_FromSeq query \<noteq> None \<longrightarrow> (\<forall>e \<in> set (boundedBase q (upToRow d conv query)). e_Seq e \<noteq> None)"
proof -
  let ?b = "case upToRow d conv query of None \<Rightarrow> baseQuery d conv query
           | Some u \<Rightarrow> filter (\<lambda>r. sql_holds (whereEntryOrder u False True r)) (baseQuery d conv query)"
  have db: "distinct (map e_ID ?b)"
    using relation_distinct[OF k, of conv query] by (auto simp: baseQuery_def distinct_map_filter split: option.splits)
  have dt: "distinct (map e_ID (epochRows query ?b))" by (rule distinct_epochRows[OF db])
  have base: "boundedBase q (upToRow d conv query) = ApplyCreatedAtFilter (case lq_FromSeq query of None \<Rightarrow> epochRows query ?b
          | Some s \<Rightarrow> filter (\<lambda>r. sql_holds (sql_and (Some (e_Seq r \<noteq> None)) (sql_cmp (\<ge>) (e_Seq r) (Some s)))) (epochRows query ?b)) (lq_CreatedAtFilter query)"
    unfolding boundedBase_def q epochRows_def Let_def ..
  show "order_by (pagerOrder (lq_FromSeq query) False) (boundedBase q (upToRow d conv query)) = specRows d conv query"
    unfolding base sequence_order[OF dt] specRows_def epochRows_order_by[OF db] cut_order[OF k u] ..
  obtain P where P: "\<And>xs. ApplyCreatedAtFilter xs (lq_CreatedAtFilter query) = filter P xs" using createdAt_is_filter by blast
  show "distinct (map e_ID (boundedBase q (upToRow d conv query)))"
    unfolding base P using dt by (cases "lq_FromSeq query") (simp_all add: distinct_map_filter)
  show "lq_FromSeq query \<noteq> None \<longrightarrow> (\<forall>e \<in> set (boundedBase q (upToRow d conv query)). e_Seq e \<noteq> None)"
    unfolding base P seq_filter by (auto split: option.splits)
qed

lemma runBounded_spec:
  assumes k: "keysOK d" and u: "\<forall>u. lq_UpToEntryID query = Some u \<and> u \<noteq> [] \<longrightarrow> u \<in> e_ID ` set (relation d conv query)"
    and lim: "0 < limit" "0 < m \<longrightarrow> limit \<le> m"
    and cur: "set_option (lq_AfterCursor query) \<union> set_option (lq_BeforeCursor query) \<subseteq> e_ID ` set (specRows d conv query)"
      "lq_Tail query \<Longrightarrow> lq_BeforeCursor query = None"
  shows "runBoundedSQLQuery d m (baseQuery d conv query) query limit (\<lambda>i. List.find (\<lambda>e. e_ID e = i) (relation d conv query)) (epochTransform query)
    = paginateRequest (specRows d conv query) query limit"
proof -
  let ?lk = "\<lambda>i. List.find (\<lambda>e. e_ID e = i) (relation d conv query)"
  let ?q = "\<lparr>bq_Base = baseQuery d conv query, bq_FromSeq = lq_FromSeq query, bq_UpToEntryID = lq_UpToEntryID query,
        bq_AfterEntryID = lq_AfterCursor query, bq_BeforeEntryID = lq_BeforeCursor query, bq_Tail = lq_Tail query,
        bq_Limit = limit, bq_MaxLimit = m, bq_UpToLookup = ?lk, bq_BaseTransform = epochTransform query,
        bq_CursorEntryError = cursorEntryError d, bq_LimitError = Some (\<lambda>max. BadRequestError limitMessage),
        bq_EntryNotFound = Some (\<lambda>entryID. NotFoundError ''entry'' entryID), bq_CreatedAtFilter = lq_CreatedAtFilter query\<rparr>"
  note s = specRows_base[OF k u, of ?q, simplified]
  let ?base = "boundedBase ?q (upToRow d conv query)"
  have up: "(case lq_UpToEntryID query of None \<Rightarrow> Inr None | Some u \<Rightarrow> if u = [] then Inr None
        else (case ?lk u of None \<Rightarrow> Inl (NotFoundError ''entry'' u) | Some e \<Rightarrow> Inr (Some e))) = Inr (upToRow d conv query)"
  proof (cases "lq_UpToEntryID query")
    case (Some i)
    then show ?thesis
    proof (cases "i = []")
      case False
      then have "i \<in> e_ID ` set (relation d conv query)" using u Some by simp
      then obtain e where "?lk i = Some e" using find_by_id[OF relation_distinct[OF k]] by metis
      then show ?thesis using Some False by (simp add: upToRow_def)
    qed (simp add: Some upToRow_def)
  qed (simp add: upToRow_def)
  have "runBoundedSQLQuery d m (baseQuery d conv query) query limit ?lk (epochTransform query)
      = BoundedEntriesFromBase ?base (lq_FromSeq query) (lq_AfterCursor query) (lq_BeforeCursor query) (lq_Tail query) limit
          (\<lambda>i. List.find (\<lambda>e. e_ID e = i) ?base) (cursorEntryError d)"
    using lim up by (cases "0 < m") (simp_all add: runBoundedSQLQuery_def RunBoundedQuery_def Let_def cong: option.case_cong if_cong)
  also have "\<dots> = paginateRequest (specRows d conv query) query limit"
  proof -
    have "e_ID ` set (specRows d conv query) = e_ID ` set ?base" by (simp flip: s(1))
    then show ?thesis
      unfolding paginateRequest_def using bounded_paginate[OF s(2) lim(1) _ _ cur(2)] s(1,3) cur(1) by simp
  qed
  finally show ?thesis .
qed

text \<open>
  C3 (get_entries_refines): for each of the known channels, with and without all forks, reading returns exactly the
  page of the specification: the conversation's view (or its group's entries) cut at the last entry asked for,
  restricted to channel, client and epoch, then to sequence numbers and times, and paged in memory. The request is one the
  access and limit checks let pass, and its cursors are rows of the list.
\<close>

theorem get_entries_refines:
  assumes "keysOK d" and "findConversation d conversationID = Some conv"
    and "requireAccess d userID (c_ConversationGroupID conv) AccessLevelReader = Inr level"
    and "queryChannel query \<in> set knownChannels"
    and "queryChannel query \<in> set scopedChannels \<longrightarrow> lq_ClientID query \<noteq> None \<and> (c_ClientID conv = [] \<or> lq_ClientID query = Some (c_ClientID conv))"
    and "0 < maxPageSize" and "defaultLimit (lq_Limit query) \<le> maxPageSize"
    and "set_option (lq_UpToEntryID query) \<subseteq> e_ID ` set (viewRows d conv query) \<union> {[]}"
    and "set_option (lq_AfterCursor query) \<union> set_option (lq_BeforeCursor query) \<subseteq> e_ID ` set (specRows d conv query)"
    and "lq_Tail query \<longrightarrow> lq_BeforeCursor query = None"
  shows "GetEntries d s_enc maxPageSize userID conversationID query
       = andThen (paginateRequest (specRows d conv query) query (lq_Limit query)) (decryptPage s_enc)"
proof -
  let ?conv = "hydrateConversationFork d conv"
  have "set (viewRows d conv query) = set (relation d conv query)" by (simp add: viewRows_order)
  then have up: "\<forall>u. lq_UpToEntryID query = Some u \<and> u \<noteq> [] \<longrightarrow> u \<in> e_ID ` set (relation d conv query)" using assms(8) by auto
  have lim: "0 < defaultLimit (lq_Limit query)" "0 < maxPageSize \<longrightarrow> defaultLimit (lq_Limit query) \<le> maxPageSize"
    using assms(7) by (simp_all add: defaultLimit_def)
  have client: "queryChannel query \<in> set scopedChannels \<Longrightarrow> lq_ClientID query \<noteq> None" using assms(5) by blast
  have "entriesPage d maxPageSize ?conv (queryChannel query) query (defaultLimit (lq_Limit query))
      = paginateRequest (specRows d conv query) query (defaultLimit (lq_Limit query))"
    using runBounded_spec[OF assms(1) up lim assms(9)] assms(10) by (simp add: entriesPage_bounded[OF assms(4) client] baseQuery_hydrate)
  moreover have "paginateRequest xs query (defaultLimit (lq_Limit query)) = paginateRequest xs query (lq_Limit query)" for xs
    by (simp add: paginateRequest_def PaginateEntries_def defaultLimit_def Let_def)
  moreover have "GetEntries d s_enc maxPageSize userID conversationID query
      = andThen (entriesPage d maxPageSize ?conv (queryChannel query) query (defaultLimit (lq_Limit query))) (decryptPage s_enc)"
    unfolding GetEntries_page[OF assms(2,3)] by (rule if_not_P) (use assms(5) in blast)
  ultimately show ?thesis by simp
qed

section \<open>Looking up an entry\<close>

lemma paginate_last:
  assumes "xs = ys @ [u]"
  shows "\<exists>c. PaginateEntries xs None None True 1 = Inr ([u], None, c)"
  using assms by (simp add: PaginateEntries_def paginateTail_def Let_def)

lemma admin_lookup_page:
  assumes d: "distinct (map e_ID base)" and u: "u \<in> set base" "e_ID u \<noteq> []" and lk: "lk (e_ID u) = Some u" and m: "0 < m"
  shows "\<exists>c. runBoundedSQLQuery db m base (AdminEntryLookupQuery (e_ID u)) 1 lk (Some (\<lambda>xs. applySQLEpochFilterToBase xs None)) = Inr ([u], None, c)"
proof -
  let ?b = "filter (\<lambda>r. sql_holds (whereEntryOrder u False True r)) base"
  have "runBoundedSQLQuery db m base (AdminEntryLookupQuery (e_ID u)) 1 lk (Some (\<lambda>xs. applySQLEpochFilterToBase xs None))
      = BoundedEntriesFromBase ?b None None None True 1 (\<lambda>i. List.find (\<lambda>e. e_ID e = i) ?b) (cursorEntryError db)"
    using u(2) lk m by (simp add: runBoundedSQLQuery_def RunBoundedQuery_def AdminEntryLookupQuery_def boundedBase_def Let_def
        applySQLEpochFilterToBase_def ApplyCreatedAtFilter_def)
  also have "\<dots> = map_sum BadRequestError id (PaginateEntries (order_by entryOrderLess ?b) None None True 1)"
    using bounded_paginate[of ?b 1 None None None True] d by (simp add: distinct_map_filter pagerOrder_def EntryOrderSQL_asc)
  also have "order_by entryOrderLess ?b = filter (\<lambda>r. sql_holds (whereEntryOrder u False True r)) (order_by entryOrderLess base)"
    by (rule entry_ord.order_by_filter[OF d])
  also have "\<dots> = takeWhile (\<lambda>e. e_ID e \<noteq> e_ID u) (order_by entryOrderLess base) @ filter (\<lambda>e. e_ID e = e_ID u) (order_by entryOrderLess base)"
    using d u(1) entry_ord.sorted_order_by[OF d] by (intro cut_sorted) simp_all
  also have "filter (\<lambda>e. e_ID e = e_ID u) (order_by entryOrderLess base) = [u]"
    using d u(1) by (intro filter_own_id) simp_all
  finally show ?thesis using paginate_last by (metis id_apply map_sum.simps(2))
qed

text \<open>
  The administrator's lookup of an entry through the bounded listing, the last entry of all
  channels and forks up to it, returns this very entry, decrypted, whatever channel, client and epoch it has.
\<close>

theorem admin_lookup_finds_entry:
  assumes "keysOK d" and "findConversation d conversationID = Some conv" and "0 < maxPageSize"
    and "e \<in> set (db_entries d)" and "e_ConversationGroupID e = c_ConversationGroupID conv" and "e_ID e \<noteq> []"
    and "decryptEntryContent s_enc (e_ID e) (e_Content e) = Inr content"
  shows "readAdminEntryDetail d s_enc maxPageSize conversationID (e_ID e) = Inr (e\<lparr>e_Content := content\<rparr>)"
proof -
  let ?g = "groupEntriesQuery d (c_ConversationGroupID conv)"
  have dist: "distinct (map e_ID ?g)" using assms(1) by (simp add: groupEntriesQuery_def keysOK_def distinct_map_filter)
  have e: "e \<in> set ?g" using assms(4,5) by (simp add: groupEntriesQuery_def)
  have "groupEntryByID d (c_ConversationGroupID conv) (e_ID e) = Some e"
  proof -
    obtain x where "List.find (\<lambda>x. e_ID x = e_ID e) ?g = Some x" "x \<in> set ?g" "e_ID x = e_ID e"
      using find_by_id[OF dist, of "e_ID e"] e by (metis imageI)
    moreover from this have "x = e" using dist e by (auto simp: distinct_map inj_on_def)
    ultimately show ?thesis by (simp add: groupEntryByID_def)
  qed
  from admin_lookup_page[OF dist e assms(6), of "groupEntryByID d (c_ConversationGroupID conv)", OF this assms(3), of d] obtain c where
    "runBoundedSQLQuery d maxPageSize ?g (AdminEntryLookupQuery (e_ID e)) 1 (groupEntryByID d (c_ConversationGroupID conv))
       (Some (\<lambda>xs. applySQLEpochFilterToBase xs None)) = Inr ([e], None, c)" by blast
  then have "adminEntriesPage d maxPageSize conv (AdminEntryLookupQuery (e_ID e)) 1 = Inr ([e], None, c)"
    by (simp add: adminEntriesPage_def AdminEntryLookupQuery_def boundedGroupAllChannels_def groupAllChannelsQuery_def)
  then show ?thesis
    using assms(2,7) by (simp add: readAdminEntryDetail_def AdminGetEntries_def decryptPage_def defaultLimit_def AdminEntryLookupQuery_def)
qed

section \<open>Concrete readings\<close>

text \<open>The sample conversation and its fork: a page of history, of a fork's history, and the lookup of an entry.\<close>

definition readStore :: db where
  "readStore = fst sampleFork"

definition sampleQuery :: EntryListQuery where
  "sampleQuery = \<lparr>lq_AfterCursor = Some ''e1'', lq_BeforeCursor = None, lq_Tail = False, lq_UpToEntryID = Some ''e3'', lq_Limit = 1,
     lq_Channel = Some ChannelHistory, lq_EpochFilter = None, lq_ClientID = None, lq_AgentID = None, lq_AllForks = False,
     lq_FromSeq = None, lq_CreatedAtFilter = None\<rparr>"

definition readConv :: Conversation where
  "readConv = the (findConversation readStore ''c1'')"

lemma readStore_facts:
  "keysOK readStore" "findConversation readStore ''c1'' = Some readConv"
  "requireAccess readStore ''alice'' (c_ConversationGroupID readConv) AccessLevelReader = Inr AccessLevelOwner"
  by code_simp+

theorem get_entries_confined_witness:
  "\<exists>rows r. GetEntries readStore None 100 ''alice'' ''c1'' sampleQuery = Inr r \<and> decryptEntries None rows = Inr (pe_Data r)
     \<and> int (length rows) \<le> 1 \<and> set rows \<subseteq> set (listVisibleEntriesForConversation readStore readConv) \<and> pe_Data r \<noteq> []"
proof -
  let ?r = "GetEntries readStore None 100 ''alice'' ''c1'' sampleQuery"
  have "\<not> isl ?r" "pe_Data (projr ?r) \<noteq> []" by code_simp+
  then obtain r where r: "?r = Inr r" "pe_Data r \<noteq> []" by (cases ?r) simp_all
  have "defaultLimit (lq_Limit sampleQuery) = 1" "\<not> lq_AllForks sampleQuery" by (simp_all add: sampleQuery_def defaultLimit_def)
  then show ?thesis using get_entries_confined[OF r(1)] readStore_facts(2) r by auto
qed

theorem get_entries_refines_witness:
  "GetEntries readStore None 100 ''alice'' ''c1'' sampleQuery
     = andThen (paginateRequest (specRows readStore readConv sampleQuery) sampleQuery 1) (decryptPage None)
   \<and> map e_ID (specRows readStore readConv sampleQuery) = [''e1'', ''e2'', ''e3'']"
proof -
  have "queryChannel sampleQuery \<in> set knownChannels" "queryChannel sampleQuery \<notin> set scopedChannels"
    "set_option (lq_UpToEntryID sampleQuery) \<subseteq> e_ID ` set (viewRows readStore readConv sampleQuery) \<union> {[]}"
    "set_option (lq_AfterCursor sampleQuery) \<union> set_option (lq_BeforeCursor sampleQuery) \<subseteq> e_ID ` set (specRows readStore readConv sampleQuery)"
    "map e_ID (specRows readStore readConv sampleQuery) = [''e1'', ''e2'', ''e3'']" by code_simp+
  moreover have "lq_Limit sampleQuery = 1" "lq_Tail sampleQuery = False" by (simp_all add: sampleQuery_def)
  ultimately show ?thesis
    using get_entries_refines[OF readStore_facts, of sampleQuery 100 None] by (simp add: defaultLimit_def)
qed

theorem admin_lookup_finds_entry_witness:
  "readAdminEntryDetail readStore None 100 ''c2'' ''e3'' = Inr (historyEntry ''e3'' 3)"
proof -
  let ?c = "the (findConversation readStore ''c2'')"
  have "findConversation readStore ''c2'' = Some ?c" "historyEntry ''e3'' 3 \<in> set (db_entries readStore)"
    "e_ConversationGroupID (historyEntry ''e3'' 3) = c_ConversationGroupID ?c" "e_ID (historyEntry ''e3'' 3) = ''e3''"
    "decryptEntryContent None ''e3'' (e_Content (historyEntry ''e3'' 3)) = Inr ''[]''" "(historyEntry ''e3'' 3)\<lparr>e_Content := ''[]''\<rparr> = historyEntry ''e3'' 3"
    by code_simp+
  then show ?thesis using admin_lookup_finds_entry[OF readStore_facts(1), of "''c2''" ?c 100 "historyEntry ''e3'' 3" None "''[]''"] by simp
qed

end
