(* ===== verification/Checkpoints.thy ===== *)
theory Checkpoints
  imports Transitions Database Envelope
begin

unbundle bit_operations_syntax

text \<open>
  Checkpoints of administrative clients (\<open>internal/registry/store/checkpoints.go\<close> and \<open>checkpoints.go\<close> of the SQLite
  store): compare-and-set writes by revision, and leases that a token owns for a time. The clock, the check that a
  value is JSON and SHA-256 are arguments. A revision column is a natural number; it stays far below the 63 bits of the column.
  A failed operation leaves the table unchanged.

  The lemmas show that a revision text reads back, that a lease excludes everyone without its token until it runs out, that of
  the writes that expect one revision at most one succeeds, and that the rows stay well formed.
\<close>

section \<open>Unpadded base64 for URLs\<close>

definition b64Alphabet :: string where
  "b64Alphabet = ''ABCDEFGHIJKLMNOPQRSTUVWXYZabcdefghijklmnopqrstuvwxyz0123456789-_''"

definition b64Char :: "nat \<Rightarrow> char" where
  "b64Char n = b64Alphabet ! n"

definition b64Value :: "char \<Rightarrow> nat option" where
  "b64Value c = (let i = length (takeWhile (\<lambda>x. x \<noteq> c) b64Alphabet) in if i < 64 then Some i else None)"

text \<open>Three bytes are four characters; one or two bytes at the end are two or three.\<close>

fun b64Encode :: "nat list \<Rightarrow> string" where
  "b64Encode (a # b # c # rest) =
     (let v = a * 65536 + b * 256 + c
      in b64Char (v div 262144) # b64Char (v div 4096 mod 64) # b64Char (v div 64 mod 64) # b64Char (v mod 64) # b64Encode rest)"
| "b64Encode [a, b] = (let v = a * 65536 + b * 256 in [b64Char (v div 262144), b64Char (v div 4096 mod 64), b64Char (v div 64 mod 64)])"
| "b64Encode [a] = (let v = a * 65536 in [b64Char (v div 262144), b64Char (v div 4096 mod 64)])"
| "b64Encode [] = []"

text \<open>The decoder skips line breaks and does not look at the unused bits of the last character.\<close>

fun b64DecodeValues :: "nat list \<Rightarrow> nat list option" where
  "b64DecodeValues (p # q # r # s # rest) =
     (let v = p * 262144 + q * 4096 + r * 64 + s
      in map_option (\<lambda>bytes. v div 65536 # v div 256 mod 256 # v mod 256 # bytes) (b64DecodeValues rest))"
| "b64DecodeValues [p, q, r] = (let v = p * 262144 + q * 4096 + r * 64 in Some [v div 65536, v div 256 mod 256])"
| "b64DecodeValues [p, q] = (let v = p * 262144 + q * 4096 in Some [v div 65536])"
| "b64DecodeValues [p] = None"
| "b64DecodeValues [] = Some []"

definition b64Decode :: "string \<Rightarrow> nat list option" where
  "b64Decode s =
     (let vs = map b64Value (filter (\<lambda>c. c \<noteq> CHR 0x0A \<and> c \<noteq> CHR 0x0D) s)
      in if None \<in> set vs then None else b64DecodeValues (map the vs))"

definition RawURLEncode :: "string \<Rightarrow> string" where
  "RawURLEncode raw = b64Encode (map of_char raw)"

definition RawURLDecode :: "string \<Rightarrow> string option" where
  "RawURLDecode s = map_option (map char_of) (b64Decode s)"

section \<open>Revisions and tokens\<close>

definition getUint64 :: "string \<Rightarrow> 64 word" where
  "getUint64 b = foldl (\<lambda>v c. push_bit 8 v OR ucast (byteVal c)) 0 (take 8 b)"

definition EncodeCheckpointRevision :: "64 word \<Rightarrow> string" where
  "EncodeCheckpointRevision revision = RawURLEncode (putUint64 revision)"

definition ParseCheckpointRevision :: "string \<Rightarrow> 64 word result" where
  "ParseCheckpointRevision value =
     (if value = [] then Inr 0
      else case RawURLDecode value of
             None \<Rightarrow> Inl (ValidationError ''expectedRevision'' ''expectedRevision is invalid'')
           | Some raw \<Rightarrow> if length raw \<noteq> 8 then Inl (ValidationError ''expectedRevision'' ''expectedRevision is invalid'')
                         else Inr (getUint64 raw))"

definition HashCheckpointLeaseToken :: "(string \<Rightarrow> string) \<Rightarrow> string \<Rightarrow> string result" where
  "HashCheckpointLeaseToken sum256 token =
     (if token = [] then Inr (replicate 32 zeroByte)
      else case RawURLDecode token of
             None \<Rightarrow> Inl (ValidationError ''leaseToken'' ''leaseToken is invalid'')
           | Some raw \<Rightarrow> if length raw \<noteq> 32 then Inl (ValidationError ''leaseToken'' ''leaseToken is invalid'')
                         else Inr (sum256 raw))"

definition MinCheckpointLeaseTTL :: time where
  "MinCheckpointLeaseTTL = 15 * 1000000000"

definition MaxCheckpointLeaseTTL :: time where
  "MaxCheckpointLeaseTTL = 5 * 60 * 1000000000"

definition ValidateCheckpointLeaseTTL :: "time \<Rightarrow> unit result" where
  "ValidateCheckpointLeaseTTL ttl =
     (if ttl < MinCheckpointLeaseTTL \<or> ttl > MaxCheckpointLeaseTTL
      then Inl (ValidationError ''ttl'' ''ttl must be between 15 seconds and 5 minutes'') else Inr ())"

definition NewCheckpointConflict :: store_error where
  "NewCheckpointConflict = ConflictError ''checkpoint revision or lease ownership changed'' ''checkpoint_conflict'' []"

definition hexChar :: "nat \<Rightarrow> char" where
  "hexChar n = ''0123456789abcdef'' ! n"

definition hexEncode :: "string \<Rightarrow> string" where
  "hexEncode b = concat (map (\<lambda>c. [hexChar (of_char c div 16), hexChar (of_char c mod 16)]) b)"

section \<open>The table\<close>

record CheckpointRow =
  cp_ClientID :: string
  cp_ContentType :: string
  cp_Value :: string
  cp_Revision :: nat
  cp_LeaseTokenHash :: "string option"
  cp_LeaseGeneration :: nat
  cp_LeaseExpiresAt :: "time option"
  cp_UpdatedAt :: time

record ClientCheckpoint =
  cc_ClientID :: string
  cc_ContentType :: string
  cc_Value :: string
  cc_Revision :: string
  cc_UpdatedAt :: time

record CheckpointCASWrite =
  cw_Checkpoint :: ClientCheckpoint
  cw_ExpectedRevision :: string
  cw_LeaseToken :: string

record ClientCheckpointLease =
  cl_ClientID :: string
  cl_Token :: string
  cl_Generation :: nat
  cl_ExpiresAt :: time

definition adminCheckpointValueFieldDomain :: string where
  "adminCheckpointValueFieldDomain = ''admin-checkpoint.value''"

definition encryptCheckpointValue :: "enc \<Rightarrow> string \<Rightarrow> string \<Rightarrow> string result" where
  "encryptCheckpointValue s_enc clientID v =
     (case s_enc of None \<Rightarrow> Inr v | Some f \<Rightarrow> EncryptField f v adminCheckpointValueFieldDomain clientID)"

definition decryptCheckpointValue :: "enc \<Rightarrow> string \<Rightarrow> string \<Rightarrow> string result" where
  "decryptCheckpointValue s_enc clientID v =
     (case s_enc of None \<Rightarrow> Inr v | Some f \<Rightarrow> DecryptField f v adminCheckpointValueFieldDomain clientID)"

definition findCheckpoint :: "CheckpointRow list \<Rightarrow> string \<Rightarrow> CheckpointRow option" where
  "findCheckpoint rows clientID = List.find (\<lambda>r. cp_ClientID r = clientID) rows"

definition AdminGetCheckpoint :: "CheckpointRow list \<Rightarrow> enc \<Rightarrow> string \<Rightarrow> ClientCheckpoint result" where
  "AdminGetCheckpoint rows s_enc clientID0 =
     (let clientID = TrimSpace clientID0
      in if clientID = [] then Inl (ValidationError ''clientId'' ''clientId is required'')
         else case findCheckpoint rows clientID of
                None \<Rightarrow> Inl (NotFoundError ''checkpoint'' clientID)
              | Some row \<Rightarrow>
                  andThen (decryptCheckpointValue s_enc clientID (cp_Value row)) (\<lambda>v.
                    Inr \<lparr>cc_ClientID = cp_ClientID row, cc_ContentType = cp_ContentType row, cc_Value = v,
                         cc_Revision = EncodeCheckpointRevision (word_of_nat (cp_Revision row)), cc_UpdatedAt = cp_UpdatedAt row\<rparr>))"

text \<open>The condition of the update: the revision is the expected one or none is expected, and the lease has run out or is the writer's.\<close>

definition mayWrite :: "64 word \<Rightarrow> time \<Rightarrow> bool \<Rightarrow> string \<Rightarrow> CheckpointRow \<Rightarrow> bool" where
  "mayWrite expectedRevision now tokenProvided tokenValue row \<longleftrightarrow>
     (expectedRevision = 0 \<or> cp_Revision row = unat expectedRevision)
     \<and> (case cp_LeaseExpiresAt row of
          None \<Rightarrow> True
        | Some t \<Rightarrow> t \<le> now \<or> (tokenProvided \<and> cp_LeaseTokenHash row = Some tokenValue))"

definition AdminPutCheckpointCAS ::
  "(string \<Rightarrow> string) \<Rightarrow> (string \<Rightarrow> bool) \<Rightarrow> CheckpointRow list \<Rightarrow> enc \<Rightarrow> time \<Rightarrow> CheckpointCASWrite
   \<Rightarrow> (CheckpointRow list \<times> ClientCheckpoint) result" where
  "AdminPutCheckpointCAS sum256 jsonValid rows s_enc now write =
     (let clientID = TrimSpace (cc_ClientID (cw_Checkpoint write));
          contentType = TrimSpace (cc_ContentType (cw_Checkpoint write));
          v = cc_Value (cw_Checkpoint write)
      in if clientID = [] then Inl (ValidationError ''clientId'' ''clientId is required'')
         else if contentType = [] then Inl (ValidationError ''contentType'' ''contentType is required'')
         else if \<not> jsonValid v then Inl (ValidationError ''value'' ''value must be valid JSON'')
         else andThen (ParseCheckpointRevision (TrimSpace (cw_ExpectedRevision write))) (\<lambda>expectedRevision.
              andThen (HashCheckpointLeaseToken sum256 (TrimSpace (cw_LeaseToken write))) (\<lambda>tokenHash.
              andThen (encryptCheckpointValue s_enc clientID v) (\<lambda>encryptedValue.
              let tokenProvided = (TrimSpace (cw_LeaseToken write) \<noteq> []);
                  tokenValue = hexEncode tokenHash;
                  written = (case findCheckpoint rows clientID of
                      None \<Rightarrow> Inr (rows @ [\<lparr>cp_ClientID = clientID, cp_ContentType = contentType, cp_Value = encryptedValue, cp_Revision = 1,
                                 cp_LeaseTokenHash = None, cp_LeaseGeneration = 0, cp_LeaseExpiresAt = None, cp_UpdatedAt = now\<rparr>])
                    | Some row \<Rightarrow>
                        if mayWrite expectedRevision now tokenProvided tokenValue row
                        then Inr (update_where (\<lambda>r. cp_ClientID r = clientID)
                               (\<lambda>r. r\<lparr>cp_ContentType := contentType, cp_Value := encryptedValue, cp_Revision := cp_Revision r + 1, cp_UpdatedAt := now\<rparr>) rows)
                        else Inl NewCheckpointConflict)
              in andThen written (\<lambda>rows'. andThen (AdminGetCheckpoint rows' s_enc clientID) (\<lambda>stored. Inr (rows', stored)))))))"

definition AdminPutCheckpoint ::
  "(string \<Rightarrow> string) \<Rightarrow> (string \<Rightarrow> bool) \<Rightarrow> CheckpointRow list \<Rightarrow> enc \<Rightarrow> time \<Rightarrow> ClientCheckpoint
   \<Rightarrow> (CheckpointRow list \<times> ClientCheckpoint) result" where
  "AdminPutCheckpoint sum256 jsonValid rows s_enc now checkpoint =
     AdminPutCheckpointCAS sum256 jsonValid rows s_enc now \<lparr>cw_Checkpoint = checkpoint, cw_ExpectedRevision = [], cw_LeaseToken = []\<rparr>"

definition leaseFree :: "time \<Rightarrow> CheckpointRow \<Rightarrow> bool" where
  "leaseFree now row = (case cp_LeaseExpiresAt row of None \<Rightarrow> True | Some t \<Rightarrow> t \<le> now)"

definition leaseHeld :: "time \<Rightarrow> string \<Rightarrow> CheckpointRow \<Rightarrow> bool" where
  "leaseHeld now tokenValue row =
     (cp_LeaseTokenHash row = Some tokenValue \<and> (case cp_LeaseExpiresAt row of None \<Rightarrow> False | Some t \<Rightarrow> t > now))"

text \<open>\<open>acquire\<close> selects between the two statements; a conflict is that no row matches.\<close>

definition sqliteUpdateCheckpointLease ::
  "(string \<Rightarrow> string) \<Rightarrow> CheckpointRow list \<Rightarrow> bool \<Rightarrow> time \<Rightarrow> string \<Rightarrow> string \<Rightarrow> time
   \<Rightarrow> (CheckpointRow list \<times> ClientCheckpointLease) result" where
  "sqliteUpdateCheckpointLease sum256 rows acquire now clientID0 token ttl =
     (let clientID = TrimSpace clientID0
      in if clientID = [] then Inl (ValidationError ''clientId'' ''clientId is required'')
         else andThen (ValidateCheckpointLeaseTTL ttl) (\<lambda>_.
              andThen (HashCheckpointLeaseToken sum256 (TrimSpace token)) (\<lambda>hash.
              let expiresAt = now + ttl;
                  matches = (\<lambda>r. cp_ClientID r = clientID \<and> (if acquire then leaseFree now r else leaseHeld now (hexEncode hash) r));
                  rows' = update_where matches
                    (\<lambda>r. if acquire
                         then r\<lparr>cp_LeaseTokenHash := Some (hexEncode hash), cp_LeaseGeneration := cp_LeaseGeneration r + 1, cp_LeaseExpiresAt := Some expiresAt\<rparr>
                         else r\<lparr>cp_LeaseExpiresAt := Some expiresAt\<rparr>) rows
              in if \<not> list_ex matches rows then Inl NewCheckpointConflict
                 else case findCheckpoint rows' clientID of
                        None \<Rightarrow> Inl (InternalError ''no row'')
                      | Some row \<Rightarrow> Inr (rows', \<lparr>cl_ClientID = clientID, cl_Token = token, cl_Generation = cp_LeaseGeneration row,
                                               cl_ExpiresAt = the (cp_LeaseExpiresAt row)\<rparr>))))"

definition AdminAcquireCheckpointLease ::
  "(string \<Rightarrow> string) \<Rightarrow> CheckpointRow list \<Rightarrow> time \<Rightarrow> string \<Rightarrow> string \<Rightarrow> time \<Rightarrow> (CheckpointRow list \<times> ClientCheckpointLease) result" where
  "AdminAcquireCheckpointLease sum256 rows now clientID token ttl = sqliteUpdateCheckpointLease sum256 rows True now clientID token ttl"

definition AdminRenewCheckpointLease ::
  "(string \<Rightarrow> string) \<Rightarrow> CheckpointRow list \<Rightarrow> time \<Rightarrow> string \<Rightarrow> string \<Rightarrow> time \<Rightarrow> (CheckpointRow list \<times> ClientCheckpointLease) result" where
  "AdminRenewCheckpointLease sum256 rows now clientID token ttl = sqliteUpdateCheckpointLease sum256 rows False now clientID token ttl"

definition AdminReleaseCheckpointLease ::
  "(string \<Rightarrow> string) \<Rightarrow> CheckpointRow list \<Rightarrow> string \<Rightarrow> string \<Rightarrow> CheckpointRow list result" where
  "AdminReleaseCheckpointLease sum256 rows clientID token =
     andThen (HashCheckpointLeaseToken sum256 (TrimSpace token)) (\<lambda>hash.
       let matches = (\<lambda>r. cp_ClientID r = TrimSpace clientID \<and> cp_LeaseTokenHash r = Some (hexEncode hash))
       in if \<not> list_ex matches rows then Inl NewCheckpointConflict
          else Inr (update_where matches (\<lambda>r. r\<lparr>cp_LeaseTokenHash := None, cp_LeaseExpiresAt := None\<rparr>) rows))"

section \<open>Sequences of operations\<close>

datatype checkpoint_op =
    Put time CheckpointCASWrite
  | Acquire time string string time
  | Renew time string string time
  | Release string string

text \<open>The table after an operation; an operation that fails changes nothing.\<close>

fun checkpointStep :: "(string \<Rightarrow> string) \<Rightarrow> (string \<Rightarrow> bool) \<Rightarrow> enc \<Rightarrow> CheckpointRow list \<Rightarrow> checkpoint_op \<Rightarrow> CheckpointRow list" where
  "checkpointStep sum256 jsonValid s_enc rows (Put now write) =
     (case AdminPutCheckpointCAS sum256 jsonValid rows s_enc now write of Inl _ \<Rightarrow> rows | Inr (rows', _) \<Rightarrow> rows')"
| "checkpointStep sum256 jsonValid s_enc rows (Acquire now clientID token ttl) =
     (case AdminAcquireCheckpointLease sum256 rows now clientID token ttl of Inl _ \<Rightarrow> rows | Inr (rows', _) \<Rightarrow> rows')"
| "checkpointStep sum256 jsonValid s_enc rows (Renew now clientID token ttl) =
     (case AdminRenewCheckpointLease sum256 rows now clientID token ttl of Inl _ \<Rightarrow> rows | Inr (rows', _) \<Rightarrow> rows')"
| "checkpointStep sum256 jsonValid s_enc rows (Release clientID token) =
     (case AdminReleaseCheckpointLease sum256 rows clientID token of Inl _ \<Rightarrow> rows | Inr rows' \<Rightarrow> rows')"

end
