(* ===== verification/Checkpoint_Facts.thy ===== *)
theory Checkpoint_Facts
  imports Checkpoints
begin

unbundle bit_operations_syntax

text \<open>Revision texts read back; leases exclude, compare-and-set writes succeed once, rows stay well formed.\<close>

section \<open>Base64\<close>

lemma b64Value_Char: "n < 64 \<Longrightarrow> b64Value (b64Char n) = Some n"
proof -
  have "list_all (\<lambda>n. b64Value (b64Char n) = Some n) [0..<64]" by code_simp
  then show "n < 64 \<Longrightarrow> b64Value (b64Char n) = Some n" by (simp add: list_all_iff)
qed

lemma b64Char_no_break: "n < 64 \<Longrightarrow> b64Char n \<noteq> CHR 0x0A \<and> b64Char n \<noteq> CHR 0x0D"
proof -
  have "list_all (\<lambda>n. b64Char n \<noteq> CHR 0x0A \<and> b64Char n \<noteq> CHR 0x0D) [0..<64]" by code_simp
  then show "n < 64 \<Longrightarrow> b64Char n \<noteq> CHR 0x0A \<and> b64Char n \<noteq> CHR 0x0D" by (simp add: list_all_iff)
qed

text \<open>The six-bit digits of the encoding, before they become characters.\<close>

fun b64Digits :: "nat list \<Rightarrow> nat list" where
  "b64Digits (a # b # c # rest) =
     (let v = a * 65536 + b * 256 + c in v div 262144 # v div 4096 mod 64 # v div 64 mod 64 # v mod 64 # b64Digits rest)"
| "b64Digits [a, b] = (let v = a * 65536 + b * 256 in [v div 262144, v div 4096 mod 64, v div 64 mod 64])"
| "b64Digits [a] = (let v = a * 65536 in [v div 262144, v div 4096 mod 64])"
| "b64Digits [] = []"

lemma b64Encode_digits: "b64Encode bs = map b64Char (b64Digits bs)"
  by (induction bs rule: b64Encode.induct) (simp_all add: Let_def)

lemma b64Digits_bound: "\<forall>b \<in> set bs. b < 256 \<Longrightarrow> \<forall>d \<in> set (b64Digits bs). d < 64"
  by (induction bs rule: b64Digits.induct) (auto simp: Let_def)

lemma digit_sum: "v div 262144 * 262144 + v div 4096 mod 64 * 4096 + v div 64 mod 64 * 64 + v mod 64 = (v :: nat)"
proof -
  have "v div 64 div 64 = v div 4096" "v div 4096 div 64 = v div 262144" by (simp_all add: div_mult2_eq[symmetric])
  then show ?thesis using div_mult_mod_eq[of v 64] div_mult_mod_eq[of "v div 64" 64] div_mult_mod_eq[of "v div 4096" 64] by linarith
qed

lemma byte_parts:
  assumes "b < 256" "c < (256 :: nat)"
  shows "(a * 65536 + b * 256 + c) mod 256 = c" "(a * 65536 + b * 256 + c) div 256 mod 256 = b" "(a * 65536 + b * 256 + c) div 65536 = a"
proof -
  have v: "a * 65536 + b * 256 + c = c + (a * 256 + b) * 256" by simp
  show "(a * 65536 + b * 256 + c) mod 256 = c" using assms(2) unfolding v by (simp only: mod_mult_self1 mod_less)
  have d: "(a * 65536 + b * 256 + c) div 256 = b + a * 256" using assms(2) unfolding v by (subst div_mult_self1) simp_all
  show "(a * 65536 + b * 256 + c) div 256 mod 256 = b" using assms(1) unfolding d by simp
  have "(a * 65536 + b * 256 + c) div 65536 = (a * 65536 + b * 256 + c) div 256 div 256" by (simp add: div_mult2_eq[symmetric])
  then show "(a * 65536 + b * 256 + c) div 65536 = a" using assms(1) unfolding d by simp
qed

lemma b64Decode_digits: "\<forall>b \<in> set bs. b < 256 \<Longrightarrow> b64DecodeValues (b64Digits bs) = Some bs"
proof (induction bs rule: b64Digits.induct)
  case (1 a b c rest)
  then have small: "b < 256" "c < 256" and ih: "b64DecodeValues (b64Digits rest) = Some rest" by simp_all
  show ?case unfolding b64Digits.simps(1) Let_def b64DecodeValues.simps(1) ih digit_sum byte_parts[OF small] option.map ..
next
  case (2 a b)
  have "(a * 1024 + b * 4) * 64 mod 64 = 0" by (rule mod_mult_self2_is_0)
  then have "(a * 65536 + b * 256) mod 64 = 0" by (simp add: algebra_simps)
  then show ?case using 2 digit_sum[of "a * 65536 + b * 256"] byte_parts[of b 0 a] by (simp add: Let_def)
next
  case (3 a)
  have "a * 1024 * 64 mod 64 = 0" "a * 16 * 64 mod 64 = 0" by (rule mod_mult_self2_is_0)+
  then have "a * 65536 mod 64 = 0" "a * 65536 div 64 mod 64 = 0" by simp_all
  then show ?case using 3 digit_sum[of "a * 65536"] by (simp add: Let_def)
qed simp

lemma of_char_small: "of_char c < (256 :: nat)"
  by (metis mod_less_divisor of_char_mod_256 zero_less_numeral)

lemma RawURL_round_trip: "RawURLDecode (RawURLEncode raw) = Some raw"
proof -
  let ?ds = "b64Digits (map of_char raw)"
  have small: "\<forall>b \<in> set (map of_char raw). b < (256 :: nat)" by (auto simp del: of_char_mod_256 intro: of_char_small)
  note bound = b64Digits_bound[OF small]
  have "filter (\<lambda>c. c \<noteq> CHR 0x0A \<and> c \<noteq> CHR 0x0D) (map b64Char ?ds) = map b64Char ?ds"
    using bound b64Char_no_break by (auto simp: filter_id_conv)
  moreover have "map b64Value (map b64Char ?ds) = map Some ?ds" using bound b64Value_Char by simp
  ultimately have "b64Decode (b64Encode (map of_char raw)) = Some (map of_char raw)"
    using b64Decode_digits[OF small] by (simp add: b64Decode_def Let_def b64Encode_digits map_idI image_iff comp_def)
  then show ?thesis by (simp add: RawURLDecode_def RawURLEncode_def comp_def)
qed

lemma byte_join: "push_bit 8 (drop_bit 8 w) OR ucast (ucast w :: 8 word) = (w :: 64 word)"
proof (rule bit_word_eqI)
  fix n assume "n < LENGTH(64)"
  then show "bit (push_bit 8 (drop_bit 8 w) OR ucast (ucast w :: 8 word)) n = bit w n" by (cases "n < 8") (auto simp: bit_simps)
qed

lemma byte_top: "ucast (ucast (drop_bit 56 v) :: 8 word) = drop_bit 56 (v :: 64 word)"
proof (rule bit_word_eqI)
  fix n assume n: "n < LENGTH(64)"
  have "bit v (56 + n) \<Longrightarrow> 56 + n < 64" using bit_imp_le_length[of v "56 + n"] by simp
  then show "bit (ucast (ucast (drop_bit 56 v) :: 8 word) :: 64 word) n = bit (drop_bit 56 v) n" using n by (auto simp: bit_simps)
qed

lemma getUint64_put: "getUint64 (putUint64 v) = v"
proof -
  have "push_bit 8 (drop_bit (8 + k) v) OR ucast (ucast (drop_bit k v) :: 8 word) = drop_bit k v" for k
    using byte_join[of "drop_bit k v"] by simp
  note join = this[of 48] this[of 40] this[of 32] this[of 24] this[of 16] this[of 8] this[of 0]
  have "getUint64 (putUint64 v) =
     push_bit 8 (push_bit 8 (push_bit 8 (push_bit 8 (push_bit 8 (push_bit 8 (push_bit 8 (ucast (ucast (drop_bit 56 v) :: 8 word))
       OR ucast (ucast (drop_bit 48 v) :: 8 word)) OR ucast (ucast (drop_bit 40 v) :: 8 word)) OR ucast (ucast (drop_bit 32 v) :: 8 word))
       OR ucast (ucast (drop_bit 24 v) :: 8 word)) OR ucast (ucast (drop_bit 16 v) :: 8 word)) OR ucast (ucast (drop_bit 8 v) :: 8 word))
       OR ucast (ucast v :: 8 word)"
    by (simp add: getUint64_def putUint64_def byteVal_toByte)
  also have "\<dots> = v" unfolding byte_top using join by simp
  finally show ?thesis .
qed

lemma revision_reads_back:
  "EncodeCheckpointRevision v \<noteq> [] \<and> ParseCheckpointRevision (EncodeCheckpointRevision v) = Inr v"
proof -
  have "EncodeCheckpointRevision v \<noteq> []" by (simp add: EncodeCheckpointRevision_def RawURLEncode_def putUint64_def Let_def)
  then show ?thesis
    by (simp add: ParseCheckpointRevision_def RawURL_round_trip[of "putUint64 v", folded EncodeCheckpointRevision_def] getUint64_put)
qed

text \<open>
  The text of a revision, as clients send it back with a compare-and-set write, is never empty and
  is parsed to that very revision.
\<close>

theorem revision_round_trip:
  "EncodeCheckpointRevision v \<noteq> [] \<and> ParseCheckpointRevision (EncodeCheckpointRevision v) = Inr v"
  by (rule revision_reads_back)

section \<open>What an operation does to a row\<close>

lemma find_update:
  assumes "\<And>r. cp_ClientID (f r) = cp_ClientID r"
  shows "findCheckpoint (update_where P f rows) c = map_option (\<lambda>r. if P r then f r else r) (findCheckpoint rows c)"
  using assms by (induction rows) (auto simp: findCheckpoint_def update_where_def)

lemma find_client: "findCheckpoint rows c = Some row \<Longrightarrow> cp_ClientID row = c"
  unfolding findCheckpoint_def by (metis (mono_tags, lifting) find_Some_iff)

lemma find_append: "findCheckpoint rows c = Some row \<Longrightarrow> findCheckpoint (rows @ xs) c = Some row"
  by (induction rows) (auto simp: findCheckpoint_def split: if_splits)

text \<open>A successful write inserts the client's row or updates the row it may write.\<close>

lemma put_cases:
  assumes "AdminPutCheckpointCAS sum256 jsonValid rows s_enc now w = Inr (rows', stored)"
  defines "c \<equiv> TrimSpace (cc_ClientID (cw_Checkpoint w))"
  obtains (inserted) r where "findCheckpoint rows c = None" "rows' = rows @ [r]" "cp_ClientID r = c" "c \<noteq> []" "cp_Revision r = 1"
      "cp_LeaseTokenHash r = None" "cp_LeaseExpiresAt r = None" "cp_ContentType r \<noteq> []"
  | (updated) row e h ct v where "findCheckpoint rows c = Some row" "ct \<noteq> []"
      "ParseCheckpointRevision (TrimSpace (cw_ExpectedRevision w)) = Inr e" "HashCheckpointLeaseToken sum256 (TrimSpace (cw_LeaseToken w)) = Inr h"
      "mayWrite e now (TrimSpace (cw_LeaseToken w) \<noteq> []) (hexEncode h) row"
      "rows' = update_where (\<lambda>r. cp_ClientID r = c)
         (\<lambda>r. r\<lparr>cp_ContentType := ct, cp_Value := v, cp_Revision := cp_Revision r + 1, cp_UpdatedAt := now\<rparr>) rows"
proof (cases "findCheckpoint rows c")
  case None
  with assms(1) obtain v where new: "rows' = rows @ [\<lparr>cp_ClientID = c, cp_ContentType = TrimSpace (cc_ContentType (cw_Checkpoint w)), cp_Value = v,
      cp_Revision = 1, cp_LeaseTokenHash = None, cp_LeaseGeneration = 0, cp_LeaseExpiresAt = None, cp_UpdatedAt = now\<rparr>]"
      "c \<noteq> []" "TrimSpace (cc_ContentType (cw_Checkpoint w)) \<noteq> []"
    by (auto simp: AdminPutCheckpointCAS_def Let_def andThen_eq_Inr simp flip: c_def split: if_splits)
  show thesis by (rule that(1)[OF None new(1)]) (simp_all add: new)
next
  case (Some row)
  with assms(1) obtain e h v where "TrimSpace (cc_ContentType (cw_Checkpoint w)) \<noteq> []"
      "ParseCheckpointRevision (TrimSpace (cw_ExpectedRevision w)) = Inr e" "HashCheckpointLeaseToken sum256 (TrimSpace (cw_LeaseToken w)) = Inr h"
      "mayWrite e now (TrimSpace (cw_LeaseToken w) \<noteq> []) (hexEncode h) row"
      "rows' = update_where (\<lambda>r. cp_ClientID r = c) (\<lambda>r. r\<lparr>cp_ContentType := TrimSpace (cc_ContentType (cw_Checkpoint w)), cp_Value := v,
         cp_Revision := cp_Revision r + 1, cp_UpdatedAt := now\<rparr>) rows"
    by (auto simp: AdminPutCheckpointCAS_def Let_def andThen_eq_Inr simp flip: c_def split: if_splits)
  with Some show thesis by (intro that(2))
qed

lemma lease_cases:
  assumes "sqliteUpdateCheckpointLease sum256 rows acquire now c token ttl = Inr (rows', l)"
  obtains h where "HashCheckpointLeaseToken sum256 (TrimSpace token) = Inr h"
    "rows' = update_where (\<lambda>r. cp_ClientID r = TrimSpace c \<and> (if acquire then leaseFree now r else leaseHeld now (hexEncode h) r))
       (\<lambda>r. if acquire
            then r\<lparr>cp_LeaseTokenHash := Some (hexEncode h), cp_LeaseGeneration := cp_LeaseGeneration r + 1, cp_LeaseExpiresAt := Some (now + ttl)\<rparr>
            else r\<lparr>cp_LeaseExpiresAt := Some (now + ttl)\<rparr>) rows"
  using assms that
  by (cases acquire) (auto simp: sqliteUpdateCheckpointLease_def Let_def andThen_eq_Inr split: if_splits option.splits)

lemma release_cases:
  assumes "AdminReleaseCheckpointLease sum256 rows c token = Inr rows'"
  obtains h where "HashCheckpointLeaseToken sum256 (TrimSpace token) = Inr h"
    "rows' = update_where (\<lambda>r. cp_ClientID r = TrimSpace c \<and> cp_LeaseTokenHash r = Some (hexEncode h))
       (\<lambda>r. r\<lparr>cp_LeaseTokenHash := None, cp_LeaseExpiresAt := None\<rparr>) rows"
  using assms that by (auto simp: AdminReleaseCheckpointLease_def Let_def andThen_eq_Inr split: if_splits)

text \<open>The token an operation shows, as the table stores it, and the time it runs at.\<close>

fun opToken :: "checkpoint_op \<Rightarrow> string" where
  "opToken (Put now w) = cw_LeaseToken w"
| "opToken (Acquire now c token ttl) = token"
| "opToken (Renew now c token ttl) = token"
| "opToken (Release c token) = token"

fun opBefore :: "time \<Rightarrow> checkpoint_op \<Rightarrow> bool" where
  "opBefore t (Put now w) = (now < t)"
| "opBefore t (Acquire now c token ttl) = (now < t)"
| "opBefore t (Renew now c token ttl) = (now < t)"
| "opBefore t (Release c token) = True"

definition outsider :: "(string \<Rightarrow> string) \<Rightarrow> CheckpointRow \<Rightarrow> checkpoint_op \<Rightarrow> bool" where
  "outsider sum256 row op \<longleftrightarrow>
     map_sum id hexEncode (HashCheckpointLeaseToken sum256 (TrimSpace (opToken op))) \<noteq> Inr (the (cp_LeaseTokenHash row))
     \<and> opBefore (the (cp_LeaseExpiresAt row)) op"

lemma step_row:
  assumes "findCheckpoint rows c = Some row"
  shows "\<exists>row'. findCheckpoint (checkpointStep sum256 jsonValid s_enc rows op) c = Some row' \<and> cp_Revision row \<le> cp_Revision row'
     \<and> (cp_LeaseTokenHash row \<noteq> None \<and> cp_LeaseExpiresAt row \<noteq> None \<and> outsider sum256 row op \<longrightarrow> row' = row)"
proof (cases op)
  case (Put now w)
  show ?thesis
  proof (cases "AdminPutCheckpointCAS sum256 jsonValid rows s_enc now w")
    case (Inl e)
    then show ?thesis using assms Put by simp
  next
    case (Inr p)
    then obtain rows' stored where ok: "AdminPutCheckpointCAS sum256 jsonValid rows s_enc now w = Inr (rows', stored)" by (cases p) auto
    then have step: "checkpointStep sum256 jsonValid s_enc rows op = rows'" using Put by simp
    from ok show ?thesis
    proof (cases rule: put_cases)
      case (inserted r)
      then show ?thesis using find_append[OF assms] step by simp
    next
      case (updated x e h ct v)
      then show ?thesis
        using assms find_client[OF assms] step Put
        by (auto simp: find_update outsider_def mayWrite_def split: option.splits)
    qed
  qed
next
  case (Acquire now c' token ttl)
  show ?thesis
  proof (cases "AdminAcquireCheckpointLease sum256 rows now c' token ttl")
    case (Inr p)
    then obtain rows' l where ok: "sqliteUpdateCheckpointLease sum256 rows True now c' token ttl = Inr (rows', l)"
      by (cases p) (auto simp: AdminAcquireCheckpointLease_def)
    then have "checkpointStep sum256 jsonValid s_enc rows op = rows'" using Acquire by (simp add: AdminAcquireCheckpointLease_def)
    with ok assms Acquire show ?thesis
      by (cases rule: lease_cases) (auto simp: find_update outsider_def leaseFree_def split: option.splits)
  qed (use assms Acquire in simp)
next
  case (Renew now c' token ttl)
  show ?thesis
  proof (cases "AdminRenewCheckpointLease sum256 rows now c' token ttl")
    case (Inr p)
    then obtain rows' l where ok: "sqliteUpdateCheckpointLease sum256 rows False now c' token ttl = Inr (rows', l)"
      by (cases p) (auto simp: AdminRenewCheckpointLease_def)
    then have "checkpointStep sum256 jsonValid s_enc rows op = rows'" using Renew by (simp add: AdminRenewCheckpointLease_def)
    with ok assms Renew show ?thesis
      by (cases rule: lease_cases) (auto simp: find_update outsider_def leaseHeld_def split: option.splits)
  qed (use assms Renew in simp)
next
  case (Release c' token)
  show ?thesis
  proof (cases "AdminReleaseCheckpointLease sum256 rows c' token")
    case (Inr rows')
    then have "checkpointStep sum256 jsonValid s_enc rows op = rows'" using Release by simp
    with Inr assms Release show ?thesis by (cases rule: release_cases) (auto simp: find_update outsider_def)
  qed (use assms Release in simp)
qed

section \<open>Leases and compare-and-set\<close>

text \<open>
  C23 (lease_excludes_others): as long as a lease has not run out, no sequence of writes, acquisitions, renewals and
  releases by parties without its token changes the checkpoint, its revision or its lease.
\<close>

theorem lease_excludes_others:
  assumes "findCheckpoint rows clientID = Some row" and "cp_LeaseTokenHash row = Some h" and "cp_LeaseExpiresAt row = Some t"
    and "list_all (outsider sum256 row) ops"
  shows "findCheckpoint (foldl (checkpointStep sum256 jsonValid s_enc) rows ops) clientID = Some row"
  using assms
proof (induction ops arbitrary: rows)
  case (Cons op ops)
  then have "findCheckpoint (checkpointStep sum256 jsonValid s_enc rows op) clientID = Some row"
    using step_row[OF Cons.prems(1), of sum256 jsonValid s_enc op] by auto
  then show ?case using Cons by simp
qed simp

lemma steps_revision:
  assumes "findCheckpoint rows c = Some row"
  shows "\<exists>row'. findCheckpoint (foldl (checkpointStep sum256 jsonValid s_enc) rows ops) c = Some row' \<and> cp_Revision row \<le> cp_Revision row'"
  using assms
proof (induction ops arbitrary: rows row)
  case (Cons op ops)
  obtain row1 where "findCheckpoint (checkpointStep sum256 jsonValid s_enc rows op) c = Some row1" "cp_Revision row \<le> cp_Revision row1"
    using step_row[OF Cons.prems] by blast
  moreover from this Cons.IH[OF this(1)] show ?case by fastforce
qed simp

text \<open>
  C25 (checkpoint_cas_once): of the writes that expect the same revision of an existing checkpoint at most one succeeds,
  whatever operations come in between: after a write that found the checkpoint and expected a revision other than 0,
  every later write that expects it fails. A first write, which finds no checkpoint, does not compare its revision.
\<close>

theorem checkpoint_cas_once:
  assumes "findCheckpoint rows (TrimSpace (cc_ClientID (cw_Checkpoint w))) = Some row"
    and "AdminPutCheckpointCAS sum256 jsonValid rows s_enc now w = Inr (rows', stored)"
    and "ParseCheckpointRevision (TrimSpace (cw_ExpectedRevision w)) = Inr e" and "e \<noteq> 0"
    and "TrimSpace (cc_ClientID (cw_Checkpoint w')) = TrimSpace (cc_ClientID (cw_Checkpoint w))"
    and "TrimSpace (cw_ExpectedRevision w') = TrimSpace (cw_ExpectedRevision w)"
  shows "isl (AdminPutCheckpointCAS sum256 jsonValid (foldl (checkpointStep sum256 jsonValid s_enc) rows' ops) s_enc now' w')"
proof -
  let ?c = "TrimSpace (cc_ClientID (cw_Checkpoint w))" and ?rows = "foldl (checkpointStep sum256 jsonValid s_enc) rows' ops"
  obtain row1 where row1: "findCheckpoint rows' ?c = Some row1" "cp_Revision row1 = unat e + 1"
    using assms(2)
  proof (cases rule: put_cases)
    case (updated x e' h ct v)
    then have "x = row" "e' = e" "cp_Revision row = unat e" using assms(1,3,4) by (auto simp: mayWrite_def)
    then show ?thesis using that updated find_client[OF assms(1)] assms(1) by (simp add: find_update)
  qed (use assms(1) in simp)
  obtain row2 where row2: "findCheckpoint ?rows ?c = Some row2" "unat e + 1 \<le> cp_Revision row2"
    using steps_revision[OF row1(1)] row1(2) by metis
  show ?thesis
  proof (rule ccontr)
    assume "\<not> ?thesis"
    then obtain rows'' st where "AdminPutCheckpointCAS sum256 jsonValid ?rows s_enc now' w' = Inr (rows'', st)"
      by (cases "AdminPutCheckpointCAS sum256 jsonValid ?rows s_enc now' w'") auto
    then show False
    proof (cases rule: put_cases)
      case (updated x e' h ct v)
      then have "x = row2" "e' = e" using row2(1) assms(3,5,6) by simp_all
      then show False using updated(5) row2(2) assms(4) by (simp add: mayWrite_def)
    qed (use row2(1) assms(5) in simp)
  qed
qed

section \<open>Well-formed rows\<close>

definition checkpointRowOK :: "CheckpointRow \<Rightarrow> bool" where
  "checkpointRowOK r \<longleftrightarrow> cp_ClientID r \<noteq> [] \<and> cp_ContentType r \<noteq> [] \<and> 0 < cp_Revision r
     \<and> (cp_LeaseTokenHash r = None \<longleftrightarrow> cp_LeaseExpiresAt r = None)"

definition checkpointsOK :: "CheckpointRow list \<Rightarrow> bool" where
  "checkpointsOK rows \<longleftrightarrow> distinct (map cp_ClientID rows) \<and> list_all checkpointRowOK rows"

lemma checkpointsOK_update:
  assumes "checkpointsOK rows" and "\<And>r. cp_ClientID (f r) = cp_ClientID r" and "\<And>r. P r \<Longrightarrow> checkpointRowOK r \<Longrightarrow> checkpointRowOK (f r)"
  shows "checkpointsOK (update_where P f rows)"
proof -
  have "map cp_ClientID (update_where P f rows) = map cp_ClientID rows" using assms(2) by (auto simp: update_where_def)
  moreover have "list_all checkpointRowOK (update_where P f rows)"
    using assms(1,3) by (auto simp: checkpointsOK_def list_all_iff update_where_def)
  ultimately show ?thesis using assms(1) by (simp only: checkpointsOK_def)
qed

lemma checkpointStep_OK:
  assumes "checkpointsOK rows"
  shows "checkpointsOK (checkpointStep sum256 jsonValid s_enc rows op)"
proof (cases op)
  case (Put now w)
  show ?thesis
  proof (cases "AdminPutCheckpointCAS sum256 jsonValid rows s_enc now w")
    case (Inr p)
    then obtain rows' stored where ok: "AdminPutCheckpointCAS sum256 jsonValid rows s_enc now w = Inr (rows', stored)" by (cases p) auto
    then have "checkpointsOK rows'"
    proof (cases rule: put_cases)
      case (inserted r)
      then show ?thesis using assms by (auto simp: checkpointsOK_def checkpointRowOK_def findCheckpoint_def find_None_iff)
    next
      case (updated x e h ct v)
      then show ?thesis using assms by (auto simp: checkpointRowOK_def intro!: checkpointsOK_update)
    qed
    then show ?thesis using ok Put by simp
  qed (use assms Put in simp)
next
  case (Acquire now c token ttl)
  then show ?thesis using assms
    by (auto simp: AdminAcquireCheckpointLease_def checkpointRowOK_def elim!: lease_cases intro!: checkpointsOK_update split: sum.splits)
next
  case (Renew now c token ttl)
  then show ?thesis using assms
    by (auto simp: AdminRenewCheckpointLease_def checkpointRowOK_def leaseHeld_def elim!: lease_cases intro!: checkpointsOK_update split: sum.splits)
next
  case (Release c token)
  then show ?thesis using assms
    by (auto simp: checkpointRowOK_def elim!: release_cases intro!: checkpointsOK_update split: sum.splits)
qed

definition checkpoint_transition :: "(string \<Rightarrow> string) \<Rightarrow> (string \<Rightarrow> bool) \<Rightarrow> enc \<Rightarrow> CheckpointRow list \<Rightarrow> checkpoint_op \<Rightarrow> CheckpointRow list \<Rightarrow> bool" where
  "checkpoint_transition sum256 jsonValid s_enc rows op rows' \<longleftrightarrow> rows' = checkpointStep sum256 jsonValid s_enc rows op"

interpretation checkpoints: transition_invariant "\<lambda>rows. rows = []" "checkpoint_transition sum256 jsonValid s_enc" checkpointsOK
  for sum256 jsonValid s_enc
  by unfold_locales (simp_all add: checkpointsOK_def[of "[]"] checkpoint_transition_def checkpointStep_OK)

text \<open>
  C31 (checkpoint_rows_typed): every table the operations build from an empty one has one row per client, with a client, a
  content type, a positive revision, and a token exactly when it has a time at which the lease ends.
\<close>

theorem checkpoint_rows_typed:
  assumes "reachable (\<lambda>rows. rows = []) (checkpoint_transition sum256 jsonValid s_enc) rows"
  shows "distinct (map cp_ClientID rows) \<and> list_all checkpointRowOK rows"
  using checkpoints.inv_reachable[OF assms] by (simp add: checkpointsOK_def)

section \<open>Concrete operations\<close>

definition sampleWrite :: "string \<Rightarrow> CheckpointCASWrite" where
  "sampleWrite revision =
     \<lparr>cw_Checkpoint = \<lparr>cc_ClientID = ''indexer'', cc_ContentType = ''application/json'', cc_Value = ''{}'', cc_Revision = [], cc_UpdatedAt = 0\<rparr>,
      cw_ExpectedRevision = revision, cw_LeaseToken = []\<rparr>"

definition freeRow :: CheckpointRow where
  "freeRow = \<lparr>cp_ClientID = ''indexer'', cp_ContentType = ''application/json'', cp_Value = ''{}'', cp_Revision = 1, cp_LeaseTokenHash = None,
     cp_LeaseGeneration = 0, cp_LeaseExpiresAt = None, cp_UpdatedAt = 1\<rparr>"

definition leasedRow :: CheckpointRow where
  "leasedRow = freeRow\<lparr>cp_LeaseTokenHash := Some (hexEncode (replicate 32 CHR ''a'')), cp_LeaseGeneration := 1, cp_LeaseExpiresAt := Some 9\<rparr>"

text \<open>Parties that show no token.\<close>

definition strangerOps :: "checkpoint_op list" where
  "strangerOps = [Put 3 (sampleWrite []), Acquire 4 ''indexer'' [] MinCheckpointLeaseTTL, Renew 5 ''indexer'' [] MinCheckpointLeaseTTL, Release ''indexer'' []]"

theorem lease_excludes_others_witness:
  "findCheckpoint (foldl (checkpointStep id (\<lambda>_. True) None) [leasedRow] strangerOps) ''indexer'' = Some leasedRow"
proof -
  have "findCheckpoint [leasedRow] ''indexer'' = Some leasedRow" "cp_LeaseTokenHash leasedRow = Some (hexEncode (replicate 32 CHR ''a''))"
    "cp_LeaseExpiresAt leasedRow = Some 9" "list_all (outsider id leasedRow) strangerOps" by code_simp+
  then show ?thesis by (rule lease_excludes_others)
qed

lemma sampleRevision: "EncodeCheckpointRevision 1 = ''AAAAAAAAAAE''"
  by (simp add: EncodeCheckpointRevision_def RawURLEncode_def putUint64_def toByte_def b64Char_def b64Alphabet_def)

theorem checkpoint_cas_once_witness:
  "isl (AdminPutCheckpointCAS id (\<lambda>_. True)
     (foldl (checkpointStep id (\<lambda>_. True) None) [freeRow\<lparr>cp_Revision := 2, cp_UpdatedAt := 6\<rparr>] strangerOps) None 7 (sampleWrite ''AAAAAAAAAAE''))"
proof -
  have rev: "ParseCheckpointRevision ''AAAAAAAAAAE'' = Inr 1" using revision_reads_back[of 1] by (simp add: sampleRevision)
  have trim: "TrimSpace ''AAAAAAAAAAE'' = ''AAAAAAAAAAE''" "TrimSpace ''indexer'' = ''indexer''" "TrimSpace ''application/json'' = ''application/json''"
    by code_simp+
  have "findCheckpoint [freeRow] ''indexer'' = Some freeRow" by code_simp
  moreover have "\<exists>stored. AdminPutCheckpointCAS id (\<lambda>_. True) [freeRow] None 6 (sampleWrite ''AAAAAAAAAAE'')
      = Inr ([freeRow\<lparr>cp_Revision := 2, cp_UpdatedAt := 6\<rparr>], stored)"
    by (simp add: AdminPutCheckpointCAS_def sampleWrite_def trim rev HashCheckpointLeaseToken_def TrimSpace_def[of "[]"] encryptCheckpointValue_def
        findCheckpoint_def freeRow_def mayWrite_def update_where_def AdminGetCheckpoint_def decryptCheckpointValue_def
        Let_def)
  ultimately show ?thesis
    using checkpoint_cas_once[of "[freeRow]" "sampleWrite ''AAAAAAAAAAE''" freeRow id "\<lambda>_. True" None 6 _ _ 1] rev trim by (force simp: sampleWrite_def)
qed

theorem checkpoint_rows_typed_witness:
  "distinct (map cp_ClientID (checkpointStep id (\<lambda>_. True) None [] (Put 1 (sampleWrite []))))
   \<and> list_all checkpointRowOK (checkpointStep id (\<lambda>_. True) None [] (Put 1 (sampleWrite [])))"
proof (rule checkpoint_rows_typed)
  show "reachable (\<lambda>rows. rows = []) (checkpoint_transition id (\<lambda>_. True) None) (checkpointStep id (\<lambda>_. True) None [] (Put 1 (sampleWrite [])))"
    by (rule next_state[where s = "[]" and l = "Put 1 (sampleWrite [])"]) (simp_all add: checkpoint_transition_def start)
qed

end
