(* ===== verification/Retry.thy ===== *)
theory Retry
  imports Reading History
begin

text \<open>
  Recovering a sequenced append that is sent again (\<open>FindSequencedAppendMatch\<close> in
  \<open>internal/registry/store/entries.go\<close> and \<open>RecoverAppendBatch\<close> of the SQLite store). The stored entry with the sequence
  number of the first sequenced entry decides: a batch is compared by the definition stored on it, a single
  entry field by field, its content up to the spelling of JSON and up to clones of its attachments.

  The theorem: repeating a successful append finds its entries, whatever operations came in between, as long
  as the conversation's group was not evicted and the attachments the request names are found as before. A
  single entry whose indexed content was changed in between is not recognised.
\<close>

section \<open>Single entries\<close>

record SequencedAppendMatch =
  sm_Created :: "Entry list"
  sm_Entries :: "Entry list"
  sm_Exact :: bool
  sm_AnyExisting :: bool

definition noMatch :: SequencedAppendMatch where
  "noMatch = \<lparr>sm_Created = [], sm_Entries = [], sm_Exact = False, sm_AnyExisting = False\<rparr>"

fun sequencesLoop :: "uint32 set \<Rightarrow> CreateEntryRequest list \<Rightarrow> uint32 list option" where
  "sequencesLoop seen [] = Some []"
| "sequencesLoop seen (entry # entries) =
     (case er_Seq entry of
        None \<Rightarrow> None
      | Some s \<Rightarrow> if s \<in> seen then None else map_option ((#) s) (sequencesLoop (insert s seen) entries))"

definition Sequences :: "SequencedAppendRequest \<Rightarrow> uint32 list option" where
  "Sequences r = (case sequencesLoop {} (sr_Entries r) of None \<Rightarrow> None | Some sequences \<Rightarrow> if sequences = [] then None else Some sequences)"

definition jsonValuesEqual :: "Codec \<Rightarrow> string \<Rightarrow> string \<Rightarrow> bool" where
  "jsonValuesEqual co left right \<longleftrightarrow>
     TrimSpace left = TrimSpace right
     \<or> (case (jc_decode co left, jc_decode co right) of
          (Some leftValue, Some rightValue) \<Rightarrow> jsonSemanticEqual leftValue rightValue
        | _ \<Rightarrow> False)"

definition entryMatches :: "Codec \<Rightarrow> SequencedAppendRequest \<Rightarrow> CreateEntryRequest \<Rightarrow> Entry \<Rightarrow> bool" where
  "entryMatches co r requested existing \<longleftrightarrow>
     (let channel = requestChannel requested
      in e_Seq existing = er_Seq requested
         \<and> e_Channel existing = channel \<and> e_ContentType existing = er_ContentType requested
         \<and> e_UserID existing = Some (sr_UserID r)
         \<and> e_ClientID existing = sr_ClientID r
         \<and> e_AgentID existing = sr_AgentID r
         \<and> e_Epoch existing = EpochForChannel channel (sr_Epoch r)
         \<and> e_IndexedContent existing = er_IndexedContent requested
         \<and> jsonValuesEqual co (e_Content existing) (er_Content requested))"

text \<open>The map from sequence numbers to entries; a later entry replaces an earlier one.\<close>

fun bySequence :: "Entry list \<Rightarrow> (uint32 \<rightharpoonup> Entry) \<Rightarrow> uint32 \<rightharpoonup> Entry" where
  "bySequence [] m = m"
| "bySequence (entry # entries) m =
     bySequence entries (case e_Seq entry of None \<Rightarrow> m | Some s \<Rightarrow> m(s \<mapsto> entry))"

fun matchRequested ::
  "Codec \<Rightarrow> SequencedAppendRequest \<Rightarrow> (uint32 \<rightharpoonup> Entry) \<Rightarrow> CreateEntryRequest list \<Rightarrow> Entry list option" where
  "matchRequested co r m [] = Some []"
| "matchRequested co r m (requested # entries) =
     (case Option.bind (er_Seq requested) m of
        None \<Rightarrow> None
      | Some existing \<Rightarrow>
          if entryMatches co r requested existing then map_option ((#) existing) (matchRequested co r m entries) else None)"

definition MatchExistingEntries :: "Codec \<Rightarrow> SequencedAppendRequest \<Rightarrow> Entry list \<Rightarrow> Entry list option" where
  "MatchExistingEntries co r stored =
     (case Sequences r of
        None \<Rightarrow> None
      | Some sequences \<Rightarrow>
          if length stored \<noteq> length sequences then None
          else if list_ex (\<lambda>entry. e_Seq entry = None) stored then None
          else matchRequested co r (bySequence stored Map.empty) (sr_Entries r))"

definition storedContentPlaceholder :: string where
  "storedContentPlaceholder = ''null''"

text \<open>After the match every sequence number of the request has an entry.\<close>

definition MatchExistingEntriesIgnoringContent :: "Codec \<Rightarrow> SequencedAppendRequest \<Rightarrow> Entry list \<Rightarrow> Entry list option" where
  "MatchExistingEntriesIgnoringContent co r stored =
     (let r' = r\<lparr>sr_Entries := map (\<lambda>q. q\<lparr>er_Content := storedContentPlaceholder\<rparr>) (sr_Entries r)\<rparr>;
          clonedStored = map (\<lambda>e. e\<lparr>e_Content := storedContentPlaceholder\<rparr>) stored
      in case MatchExistingEntries co r' clonedStored of
           None \<Rightarrow> None
         | Some _ \<Rightarrow> those (map (\<lambda>q. Option.bind (er_Seq q) (bySequence stored Map.empty)) (sr_Entries r)))"

section \<open>Content up to clones of attachments\<close>

text \<open>
  The loops compare two lists position by position and rewrite the left one; \<open>Inr None\<close> is the early return of
  \<open>false\<close>.
\<close>

fun equalizeList :: "('a \<Rightarrow> 'a \<Rightarrow> 'a option result) \<Rightarrow> 'a list \<Rightarrow> 'a list \<Rightarrow> 'a list option result" where
  "equalizeList f (l # ls) (r # rs) =
     andThen (f l r) (\<lambda>m.
       case m of
         None \<Rightarrow> Inr None
       | Some l' \<Rightarrow> andThen (equalizeList f ls rs) (\<lambda>rest. Inr (map_option ((#) l') rest)))"
| "equalizeList f ls _ = Inr (Some ls)"

definition equalizeAttachment :: "Codec \<Rightarrow> string \<Rightarrow> json \<Rightarrow> json \<Rightarrow> json option result" where
  "equalizeAttachment co userID left right =
     (case (left, right) of
        (JObject l, JObject r) \<Rightarrow>
          (case (map_of l ''attachmentId'', map_of r ''attachmentId'') of
             (Some (JString leftID), Some (JString rightID)) \<Rightarrow>
               if leftID = rightID then Inr (Some left)
               else (case (jc_parseUUID co leftID, jc_parseUUID co rightID) of
                       (Some leftUUID, Some rightUUID) \<Rightarrow>
                         andThen (jc_getAttachment co userID leftUUID) (\<lambda>leftKey.
                         andThen (jc_getAttachment co userID rightUUID) (\<lambda>rightKey.
                           if leftKey = None \<or> rightKey = None \<or> leftKey \<noteq> rightKey then Inr None
                           else Inr (Some (JObject (setKey ''attachmentId'' (JString rightID) l)))))
                     | _ \<Rightarrow> Inr None)
           | _ \<Rightarrow> Inr (Some left))
      | _ \<Rightarrow> Inr (Some left))"

definition equalizeBlock :: "Codec \<Rightarrow> string \<Rightarrow> json \<Rightarrow> json \<Rightarrow> json option result" where
  "equalizeBlock co userID left right =
     (case (left, right) of
        (JObject l, JObject r) \<Rightarrow>
          (case (map_of l ''attachments'', map_of r ''attachments'') of
             (Some (JArray leftAttachments), Some (JArray rightAttachments)) \<Rightarrow>
               if length leftAttachments \<noteq> length rightAttachments then Inr (Some left)
               else andThen (equalizeList (equalizeAttachment co userID) leftAttachments rightAttachments) (\<lambda>m.
                      Inr (map_option (\<lambda>refs. JObject (setKey ''attachments'' (JArray refs) l)) m))
           | _ \<Rightarrow> Inr (Some left))
      | _ \<Rightarrow> Inr (Some left))"

definition jsonValuesEqualByAttachmentIdentity :: "Codec \<Rightarrow> string \<Rightarrow> string \<Rightarrow> string \<Rightarrow> bool result" where
  "jsonValuesEqualByAttachmentIdentity co userID left right =
     (case (jc_decode co left, jc_decode co right) of
        (Some (JArray leftContent), Some (JArray rightContent)) \<Rightarrow>
          if length leftContent \<noteq> length rightContent then Inr False
          else andThen (equalizeList (equalizeBlock co userID) leftContent rightContent) (\<lambda>m.
                 Inr (case m of None \<Rightarrow> False | Some blocks \<Rightarrow> jsonSemanticEqual (JArray blocks) (JArray rightContent)))
      | _ \<Rightarrow> Inr False)"

fun identityLoop :: "Codec \<Rightarrow> string \<Rightarrow> CreateEntryRequest list \<Rightarrow> Entry list \<Rightarrow> bool result" where
  "identityLoop co userID (requested # entries) (existing # matched) =
     (if requestChannel requested \<noteq> ChannelHistory then Inr False
      else andThen (jsonValuesEqualByAttachmentIdentity co userID (er_Content requested) (e_Content existing)) (\<lambda>equal.
             if equal then identityLoop co userID entries matched else Inr False))"
| "identityLoop co userID _ _ = Inr True"

definition matchExistingEntriesWithAttachmentIdentity ::
  "Codec \<Rightarrow> SequencedAppendRequest \<Rightarrow> Entry list \<Rightarrow> Entry list option result" where
  "matchExistingEntriesWithAttachmentIdentity co r stored =
     (case MatchExistingEntriesIgnoringContent co r stored of
        None \<Rightarrow> Inr None
      | Some matched \<Rightarrow>
          andThen (identityLoop co (sr_UserID r) (sr_Entries r) matched) (\<lambda>equal. Inr (if equal then Some matched else None)))"

section \<open>Batches\<close>

text \<open>The map from ids to entries.\<close>

definition byID :: "Entry list \<Rightarrow> uuid \<rightharpoonup> Entry" where
  "byID entries = map_of (rev (map (\<lambda>e. (e_ID e, e)) entries))"

definition RecoverAppendBatch :: "db \<Rightarrow> enc \<Rightarrow> Codec \<Rightarrow> Entry \<Rightarrow> SequencedAppendRequest \<Rightarrow> SequencedAppendMatch result" where
  "RecoverAppendBatch d s_enc co anchor request =
     (let mismatch = noMatch\<lparr>sm_AnyExisting := True\<rparr>
      in andThen (decryptEntryContent s_enc (e_ID anchor) (valueOrEmpty (e_AppendBatch anchor))) (\<lambda>bytes.
         andThen (DecodeAppendBatch co bytes) (\<lambda>batch.
         andThen (Matches co batch request) (\<lambda>matches.
           if \<not> matches then Inr mismatch
           else
             let entries = filter (\<lambda>e. e_ConversationID e = e_ConversationID anchor
                                      \<and> e_ConversationGroupID e = e_ConversationGroupID anchor
                                      \<and> e_ID e \<in> set (ab_IDs batch)) (db_entries d)
             in if length entries \<noteq> length (ab_IDs batch) then Inr mismatch
                else andThen (decryptEntries s_enc entries) (\<lambda>entries.
                       case those (map (byID entries) (ab_IDs batch)) of
                         None \<Rightarrow> Inr mismatch
                       | Some ordered \<Rightarrow>
                           Inr \<lparr>sm_Created = [], sm_Entries = ordered, sm_Exact = True, sm_AnyExisting = True\<rparr>)))))"

definition FindSequencedAppendMatch ::
  "db \<Rightarrow> enc \<Rightarrow> Codec \<Rightarrow> string \<Rightarrow> SequencedAppendRequest \<Rightarrow> SequencedAppendMatch result" where
  "FindSequencedAppendMatch d s_enc co conversationID request =
     (case Anchor request of
        None \<Rightarrow> Inr noMatch
      | Some anchor \<Rightarrow>
          andThen (GetEntriesBySequence d s_enc (sr_UserID request) conversationID [the (er_Seq (sr_Entries request ! anchor))]) (\<lambda>stored.
            case stored of
              [] \<Rightarrow> Inr noMatch
            | first # _ \<Rightarrow>
                if valueOrEmpty (e_AppendBatch first) \<noteq> [] then RecoverAppendBatch d s_enc co first request
                else if length (sr_Entries request) \<noteq> 1 then Inr (noMatch\<lparr>sm_AnyExisting := True\<rparr>)
                else
                  andThen (case MatchExistingEntries co request stored of
                             Some matched \<Rightarrow> Inr (Some matched)
                           | None \<Rightarrow>
                               if length stored = length (sr_Entries request)
                               then matchExistingEntriesWithAttachmentIdentity co request stored
                               else Inr None) (\<lambda>m.
                    Inr \<lparr>sm_Created = [], sm_Entries = (case m of None \<Rightarrow> [] | Some matched \<Rightarrow> matched),
                         sm_Exact = (m \<noteq> None), sm_AnyExisting = True\<rparr>)))"

section \<open>Finishing a batch\<close>

text \<open>
  What the MongoDB store, whose appends are not atomic, uses to finish an interrupted batch: the row of a position, and
  the request with the attachment ids of the first attempt. \<open>None\<close> is a failed type assertion or an index out of range,
  which panics.
\<close>

definition batchEntry :: "AppendBatch \<Rightarrow> string \<Rightarrow> uuid \<Rightarrow> nat \<Rightarrow> Entry" where
  "batchEntry b conversationID groupID i =
     (let req = sr_Entries (ab_Request b) ! i; ch = requestChannel req
      in \<lparr>e_AppendBatch = None,
          e_ID = ab_IDs b ! i, e_ConversationID = conversationID, e_ConversationGroupID = groupID,
          e_UserID = Some (sr_UserID (ab_Request b)), e_ClientID = sr_ClientID (ab_Request b), e_AgentID = sr_AgentID (ab_Request b),
          e_Channel = ch, e_Epoch = EpochForChannel ch (sr_Epoch (ab_Request b)), e_Seq = er_Seq req,
          e_ContentType = er_ContentType req, e_Content = er_Content req, e_IndexedContent = er_IndexedContent req,
          e_IndexedAt = None, e_CreatedAt = ab_Start b + int i * millisecond\<rparr>)"

definition restoreRef :: "json \<Rightarrow> batchAttachment \<Rightarrow> json option" where
  "restoreRef value ref =
     (case value of
        JArray blocks \<Rightarrow>
          if length blocks \<le> ba_Block ref then None
          else (case blocks ! ba_Block ref of
                  JObject block \<Rightarrow>
                    (case map_of block ''attachments'' of
                       Some (JArray refs) \<Rightarrow>
                         if length refs \<le> ba_Index ref then None
                         else (case refs ! ba_Index ref of
                                 JObject attachment \<Rightarrow>
                                   let refs' = refs[ba_Index ref := JObject (setKey ''attachmentId'' (JString (ba_ID ref)) attachment)]
                                   in Some (JArray (blocks[ba_Block ref := JObject (setKey ''attachments'' (JArray refs') block)]))
                               | _ \<Rightarrow> None)
                     | _ \<Rightarrow> None)
                | _ \<Rightarrow> None)
      | _ \<Rightarrow> None)"

fun restoreRefs :: "json \<Rightarrow> batchAttachment list \<Rightarrow> json option" where
  "restoreRefs value [] = Some value"
| "restoreRefs value (ref # refs) = Option.bind (restoreRef value ref) (\<lambda>value'. restoreRefs value' refs)"

definition restoreEntry ::
  "Codec \<Rightarrow> (json \<Rightarrow> string result) \<Rightarrow> batchAttachment list \<Rightarrow> CreateEntryRequest \<Rightarrow> CreateEntryRequest result option" where
  "restoreEntry co marshal attachments req =
     (if attachments = [] then Some (Inr req)
      else case jc_decode co (er_Content req) of
             None \<Rightarrow> Some (Inl (InternalError ''decode''))
           | Some value \<Rightarrow>
               Option.bind (restoreRefs value attachments) (\<lambda>value'.
                 Some (andThen (marshal value') (\<lambda>content. Inr (req\<lparr>er_Content := content\<rparr>)))))"

fun restoreEntries ::
  "Codec \<Rightarrow> (json \<Rightarrow> string result) \<Rightarrow> batchAttachment list list \<Rightarrow> CreateEntryRequest list \<Rightarrow> CreateEntryRequest list result option" where
  "restoreEntries co marshal [] reqs = Some (Inr reqs)"
| "restoreEntries co marshal (attachments # rest) [] =
     (if attachments = [] then restoreEntries co marshal rest [] else None)"
| "restoreEntries co marshal (attachments # rest) (req # reqs) =
     (case restoreEntry co marshal attachments req of
        None \<Rightarrow> None
      | Some (Inl err) \<Rightarrow> Some (Inl err)
      | Some (Inr req') \<Rightarrow> map_option (\<lambda>r. andThen r (\<lambda>reqs'. Inr (req' # reqs'))) (restoreEntries co marshal rest reqs))"

definition RestoreRequest ::
  "Codec \<Rightarrow> (json \<Rightarrow> string result) \<Rightarrow> AppendBatch \<Rightarrow> SequencedAppendRequest \<Rightarrow> SequencedAppendRequest result option" where
  "RestoreRequest co marshal b r =
     map_option (\<lambda>es. andThen es (\<lambda>entries. Inr (r\<lparr>sr_Entries := entries\<rparr>))) (restoreEntries co marshal (ab_Attachments b) (sr_Entries r))"

text \<open>The row of a position is the one an append stores, without the batch definition.\<close>

lemma batchEntry_appended: "batchEntry b cid g i = (appendedRow b bd cid g i)\<lparr>e_AppendBatch := None\<rparr>"
  by (simp add: batchEntry_def appendedRow_def Let_def)

lemma setKey_same: "map_of kvs k = Some v \<Longrightarrow> setKey k v kvs = kvs"
  by (induction kvs) (auto split: if_splits)

definition refersTo :: "json list \<Rightarrow> batchAttachment \<Rightarrow> bool" where
  "refersTo refs a \<longleftrightarrow> ba_Index a < length refs
     \<and> (\<exists>ref. refs ! ba_Index a = JObject ref \<and> map_of ref ''attachmentId'' = Some (JString (ba_ID a)))"

lemma identifyRef_found:
  "identifyRef co u item = Inr (item', Some i) \<Longrightarrow> \<exists>ref. item = JObject ref \<and> map_of ref ''attachmentId'' = Some (JString i)"
  by (auto simp: identifyRef_def andThen_eq_Inr split: json.splits option.splits)

lemma identifyRefs_found:
  "identifyRefs co u b n items = Inr (items', found) \<Longrightarrow> a \<in> set found \<Longrightarrow>
     ba_Block a = b \<and> n \<le> ba_Index a \<and> refersTo items (a\<lparr>ba_Index := ba_Index a - n\<rparr>)"
proof (induction items arbitrary: n items' found)
  case (Cons item items)
  then obtain x f ys rest where step: "identifyRef co u item = Inr (x, f)" "identifyRefs co u b (Suc n) items = Inr (ys, rest)"
      "found = (case f of None \<Rightarrow> [] | Some i \<Rightarrow> [\<lparr>ba_Block = b, ba_Index = n, ba_ID = i\<rparr>]) @ rest"
    by (auto simp: andThen_eq_Inr)
  show ?case
  proof (cases "a \<in> set rest")
    case True
    with Cons.IH[OF step(2)] have "ba_Block a = b" "Suc n \<le> ba_Index a" "refersTo items (a\<lparr>ba_Index := ba_Index a - Suc n\<rparr>)" by simp_all
    moreover from this have "ba_Index a - n = Suc (ba_Index a - Suc n)" by linarith
    ultimately show ?thesis by (simp add: refersTo_def)
  next
    case False
    with step(3) Cons.prems(2) obtain i where "f = Some i" "a = \<lparr>ba_Block = b, ba_Index = n, ba_ID = i\<rparr>" by (auto split: option.splits)
    then show ?thesis using identifyRef_found[of co u item x i] step(1) by (auto simp: refersTo_def)
  qed
qed simp

lemma identifyBlocks_found:
  "identifyBlocks co u b items = Inr (items', found) \<Longrightarrow> a \<in> set found \<Longrightarrow>
     b \<le> ba_Block a \<and> ba_Block a - b < length items
     \<and> (\<exists>kvs refs. items ! (ba_Block a - b) = JObject kvs \<and> map_of kvs ''attachments'' = Some (JArray refs) \<and> refersTo refs a)"
proof (induction items arbitrary: b items' found)
  case (Cons item items)
  let ?block = "case item of JObject kvs \<Rightarrow>
      (case map_of kvs ''attachments'' of
         Some (JArray refs) \<Rightarrow> andThen (identifyRefs co u b 0 refs) (\<lambda>(refs', found). Inr (JObject (setKey ''attachments'' (JArray refs') kvs), found))
       | _ \<Rightarrow> Inr (item, [])) | _ \<Rightarrow> Inr (item, [])"
  from Cons.prems obtain x f ys rest where step: "?block = Inr (x, f)" "identifyBlocks co u (Suc b) items = Inr (ys, rest)" "found = f @ rest"
    by (auto simp: andThen_eq_Inr)
  show ?case
  proof (cases "a \<in> set rest")
    case True
    note ih = Cons.IH[OF step(2) True]
    then have "ba_Block a - b = Suc (ba_Block a - Suc b)" by linarith
    with ih show ?thesis by simp
  next
    case False
    then have "a \<in> set f" using step(3) Cons.prems(2) by simp
    with step(1) obtain kvs refs refs' where "item = JObject kvs" "map_of kvs ''attachments'' = Some (JArray refs)"
        "identifyRefs co u b 0 refs = Inr (refs', f)"
      by (auto simp: andThen_eq_Inr split: json.splits option.splits)
    then show ?thesis using identifyRefs_found[of co u b 0 refs refs' f a] \<open>a \<in> set f\<close> by auto
  qed
qed simp

text \<open>Restoring the ids a fingerprint recorded gives back the content it was taken of.\<close>

lemma restore_recorded:
  assumes "identifyContent co u ch value = Inr (value', attachments)"
  shows "restoreRefs value attachments = Some value"
proof -
  have "restoreRef value a = Some value" if a: "a \<in> set attachments" for a
  proof -
    obtain blocks where b: "value = JArray blocks" "\<exists>blocks'. identifyBlocks co u 0 blocks = Inr (blocks', attachments)"
      using assms a by (auto simp: identifyContent_def andThen_eq_Inr split: json.splits bool.splits)
    then obtain kvs refs where block: "ba_Block a < length blocks" "blocks ! ba_Block a = JObject kvs"
        "map_of kvs ''attachments'' = Some (JArray refs)" "refersTo refs a"
      using identifyBlocks_found[of co u 0 blocks _ attachments a] a by auto
    then obtain ref where ref: "ba_Index a < length refs" "refs ! ba_Index a = JObject ref"
        "setKey ''attachmentId'' (JString (ba_ID a)) ref = ref"
      by (auto simp: refersTo_def setKey_same)
    have "refs[ba_Index a := JObject ref] = refs" "blocks[ba_Block a := JObject kvs] = blocks"
      using list_update_id[of refs "ba_Index a"] list_update_id[of blocks "ba_Block a"] ref(2) block(2) by simp_all
    then show ?thesis using block ref by (simp add: b(1) restoreRef_def setKey_same Let_def)
  qed
  then have "set as \<subseteq> set attachments \<Longrightarrow> restoreRefs value as = Some value" for as by (induction as) auto
  then show ?thesis by blast
qed

section \<open>Attachments of a request\<close>

text \<open>The attachments whose stored content the fingerprints of a request depend on.\<close>

definition refIDs :: "Codec \<Rightarrow> json \<Rightarrow> uuid list" where
  "refIDs co item =
     (case item of
        JObject ref \<Rightarrow>
          (case map_of ref ''attachmentId'' of
             Some (JString i) \<Rightarrow> (case jc_parseUUID co i of None \<Rightarrow> [] | Some parsed \<Rightarrow> [parsed])
           | _ \<Rightarrow> [])
      | _ \<Rightarrow> [])"

definition blockIDs :: "Codec \<Rightarrow> json \<Rightarrow> uuid list" where
  "blockIDs co item =
     (case item of
        JObject kvs \<Rightarrow> (case map_of kvs ''attachments'' of Some (JArray refs) \<Rightarrow> concat (map (refIDs co) refs) | _ \<Rightarrow> [])
      | _ \<Rightarrow> [])"

definition entryAttachments :: "Codec \<Rightarrow> CreateEntryRequest \<Rightarrow> uuid list" where
  "entryAttachments co req =
     (case (requestChannel req = ChannelHistory, jc_decode co (er_Content req)) of
        (True, Some (JArray blocks)) \<Rightarrow> concat (map (blockIDs co) blocks)
      | _ \<Rightarrow> [])"

definition requestAttachments :: "Codec \<Rightarrow> SequencedAppendRequest \<Rightarrow> uuid list" where
  "requestAttachments co r = concat (map (entryAttachments co) (sr_Entries r))"

lemma identifyRef_lookup:
  assumes "\<forall>i \<in> set (refIDs co item). get u i = get' u i"
  shows "identifyRef (co\<lparr>jc_getAttachment := get\<rparr>) u item = identifyRef (co\<lparr>jc_getAttachment := get'\<rparr>) u item"
  using assms by (auto simp: identifyRef_def refIDs_def split: json.splits option.splits)

lemma identifyRefs_lookup:
  assumes "\<forall>i \<in> set (concat (map (refIDs co) items)). get u i = get' u i"
  shows "identifyRefs (co\<lparr>jc_getAttachment := get\<rparr>) u b n items = identifyRefs (co\<lparr>jc_getAttachment := get'\<rparr>) u b n items"
  using assms identifyRef_lookup[of co _ get u get'] by (induction items arbitrary: n) auto

lemma identifyBlocks_lookup:
  assumes "\<forall>i \<in> set (concat (map (blockIDs co) items)). get u i = get' u i"
  shows "identifyBlocks (co\<lparr>jc_getAttachment := get\<rparr>) u b items = identifyBlocks (co\<lparr>jc_getAttachment := get'\<rparr>) u b items"
  using assms
proof (induction items arbitrary: b)
  case (Cons item items)
  have "identifyRefs (co\<lparr>jc_getAttachment := get\<rparr>) u b 0 refs = identifyRefs (co\<lparr>jc_getAttachment := get'\<rparr>) u b 0 refs"
    if "item = JObject kvs" "map_of kvs ''attachments'' = Some (JArray refs)" for kvs refs
    using Cons.prems that by (intro identifyRefs_lookup) (simp add: blockIDs_def)
  then show ?case using Cons by (auto split: json.splits option.splits)
qed simp

lemma fingerprint_lookup:
  assumes "\<forall>i \<in> set (entryAttachments co req). get (sr_UserID r) i = get' (sr_UserID r) i"
  shows "appendFingerprint (co\<lparr>jc_getAttachment := get\<rparr>) r req = appendFingerprint (co\<lparr>jc_getAttachment := get'\<rparr>) r req"
proof (cases "\<exists>blocks. requestChannel req = ChannelHistory \<and> jc_decode co (er_Content req) = Some (JArray blocks)")
  case True
  then obtain blocks where b: "requestChannel req = ChannelHistory" "jc_decode co (er_Content req) = Some (JArray blocks)" by blast
  then show ?thesis using identifyBlocks_lookup[of co blocks get "sr_UserID r" get' 0] assms
    by (simp add: appendFingerprint_def identifyContent_def entryAttachments_def)
next
  case False
  then show ?thesis
    by (cases "requestChannel req = ChannelHistory") (auto simp: appendFingerprint_def identifyContent_def split: option.splits json.splits)
qed

lemma matchLoop_lookup:
  assumes "\<forall>req \<in> set qs. \<forall>i \<in> set (entryAttachments co req). get (sr_UserID r) i = get' (sr_UserID r) i"
  shows "matchLoop (co\<lparr>jc_getAttachment := get\<rparr>) r qs fps = matchLoop (co\<lparr>jc_getAttachment := get'\<rparr>) r qs fps"
  using assms
proof (induction qs arbitrary: fps)
  case (Cons q qs)
  then have ih: "matchLoop (co\<lparr>jc_getAttachment := get\<rparr>) r qs = matchLoop (co\<lparr>jc_getAttachment := get'\<rparr>) r qs"
    by (intro ext) simp
  have fp: "appendFingerprint (co\<lparr>jc_getAttachment := get\<rparr>) r q = appendFingerprint (co\<lparr>jc_getAttachment := get'\<rparr>) r q"
    using Cons.prems by (simp add: fingerprint_lookup[of co q get r get'])
  show ?case unfolding matchLoop.simps ih fp by (rule refl)
qed simp

lemma Matches_lookup:
  assumes "\<forall>i \<in> set (requestAttachments co r). attachmentKey d' atts' (sr_UserID r) i = attachmentKey d atts (sr_UserID r) i"
  shows "Matches (withAttachments d' atts' co) b r = Matches (withAttachments d atts co) b r"
  using assms matchLoop_lookup[of "sr_Entries r" co "attachmentKey d' atts'" r "attachmentKey d atts"]
  by (simp add: Matches_def withAttachments_def requestAttachments_def)

section \<open>Rows of an append\<close>

text \<open>
  The documented behaviour of the parameters: JSON marshalling restores the batch definition.
\<close>

definition batchRestored :: "Codec \<Rightarrow> uuid list \<Rightarrow> SequencedAppendRequest \<Rightarrow> bool" where
  "batchRestored co ids r \<longleftrightarrow>
     (\<forall>start fps. fingerprints co r (sr_Entries r) = Inr fps \<longrightarrow>
        (let b = savedBatch (NewAppendBatch ids r start) fps
         in jc_marshalBatch co b \<noteq> [] \<and> jc_unmarshalBatch co (jc_marshalBatch co b) = Some b))"

lemma encrypted_nonempty: "cipherNonEmpty s_enc \<Longrightarrow> encryptEntryContent s_enc i t = Inr c \<Longrightarrow> t \<noteq> [] \<Longrightarrow> c \<noteq> []"
  by (auto simp: cipherNonEmpty_def encryptEntryContent_def split: option.splits)

lemma distinct_mapD: "distinct (map f xs) \<Longrightarrow> distinct xs"
  by (simp add: distinct_map)

lemma filter_only: "distinct xs \<Longrightarrow> x \<in> set xs \<Longrightarrow> (\<And>y. y \<in> set xs \<Longrightarrow> P y \<longleftrightarrow> y = x) \<Longrightarrow> filter P xs = [x]"
  by (induction xs) (auto simp: filter_empty_conv)

lemma those_map_Some: "(\<And>x. x \<in> set xs \<Longrightarrow> f x = Some (g x)) \<Longrightarrow> those (map f xs) = Some (map g xs)"
  by (induction xs) auto

lemma anchorFrom_Some: "anchorFrom i qs = Some a \<Longrightarrow> i \<le> a \<and> a < i + length qs \<and> er_Seq (qs ! (a - i)) \<noteq> None"
proof (induction i qs rule: anchorFrom.induct)
  case (2 i e es)
  show ?case
  proof (cases "er_Seq e = None")
    case True
    then have "Suc i \<le> a \<and> a < Suc i + length es \<and> er_Seq (es ! (a - Suc i)) \<noteq> None" using 2 by simp
    moreover from this have "a - i = Suc (a - Suc i)" by linarith
    ultimately show ?thesis by simp
  qed (use 2(2) in auto)
qed simp

lemma Anchor_Some: "Anchor r = Some a \<Longrightarrow> a < length (sr_Entries r) \<and> er_Seq (sr_Entries r ! a) \<noteq> None"
  using anchorFrom_Some[of 0] by (force simp: Anchor_def)

lemma matchLoop_same: "fingerprints co r qs = Inr fps \<Longrightarrow> matchLoop co r qs (map fst fps) = Inr True"
  by (induction qs arbitrary: fps) (auto simp: andThen_eq_Inr)

lemma fingerprints_length: "fingerprints co r qs = Inr fps \<Longrightarrow> length fps = length qs"
  by (induction qs arbitrary: fps) (auto simp: andThen_eq_Inr)

lemma saved_batch_recovered:
  assumes "fingerprints co r (sr_Entries r) = Inr fps" and "batchRestored co ids r" and "length ids = length (sr_Entries r)"
    and "length (sr_Entries r) > 1" and "Anchor r = Some a"
    and b_def: "b = savedBatch (NewAppendBatch ids r start) fps"
  shows "DecodeAppendBatch co (jc_marshalBatch co b) = Inr b" and "Matches co b r = Inr True" and "ab_IDs b = ids"
proof -
  have len: "length fps = length (sr_Entries r)" by (rule fingerprints_length[OF assms(1)])
  have anchor: "Anchor (ab_Request b) = Some a"
    using assms(5) by (simp add: b_def savedBatch_def NewAppendBatch_def Anchor_def anchorFrom_saved)
  have "jc_unmarshalBatch co (jc_marshalBatch co b) = Some b" using assms(1,2) unfolding batchRestored_def b_def Let_def by blast
  then show "DecodeAppendBatch co (jc_marshalBatch co b) = Inr b"
    using assms(3,4) anchor len by (simp add: DecodeAppendBatch_def) (simp add: b_def savedBatch_def NewAppendBatch_def)
  show "Matches co b r = Inr True"
    using matchLoop_same[OF assms(1)] assms(3,5) anchor by (simp add: Matches_def) (simp add: b_def savedBatch_def NewAppendBatch_def)
  show "ab_IDs b = ids" by (simp add: b_def savedBatch_def NewAppendBatch_def)
qed

section \<open>Finding the rows of an append\<close>

text \<open>A row and what it decrypts to.\<close>

definition decrypted :: "enc \<Rightarrow> Entry \<Rightarrow> Entry" where
  "decrypted s_enc c = (case decryptEntryContent s_enc (e_ID c) (e_Content c) of Inl _ \<Rightarrow> c | Inr x \<Rightarrow> c\<lparr>e_Content := x\<rparr>)"

lemma decrypted_ID [simp]: "e_ID (decrypted s_enc c) = e_ID c"
  by (simp add: decrypted_def split: sum.splits)

lemma decryptEntries_map:
  "(\<And>c. c \<in> set cs \<Longrightarrow> \<exists>x. decryptEntryContent s_enc (e_ID c) (e_Content c) = Inr x) \<Longrightarrow>
   decryptEntries s_enc cs = Inr (map (decrypted s_enc) cs)"
proof (induction cs)
  case (Cons c cs)
  then obtain x where "decryptEntryContent s_enc (e_ID c) (e_Content c) = Inr x" by auto
  with Cons show ?case by (simp add: decrypted_def)
qed simp

lemma decryptEntries_rows:
  assumes "decryptEntries s_enc cs = Inr es" and "set rows \<subseteq> set cs"
  shows "decryptEntries s_enc rows = Inr (map (decrypted s_enc) rows)" and "map (decrypted s_enc) cs = es"
proof -
  have ok: "\<exists>x. decryptEntryContent s_enc (e_ID c) (e_Content c) = Inr x" if "c \<in> set cs" for c
    using that assms(1) by (induction cs arbitrary: es) (auto simp: andThen_eq_Inr)
  then show "decryptEntries s_enc rows = Inr (map (decrypted s_enc) rows)" using assms(2) by (intro decryptEntries_map) blast
  show "map (decrypted s_enc) cs = es" using decryptEntries_map[OF ok, of cs] assms(1) by simp
qed

lemma byID_lookup: "distinct (map e_ID xs) \<Longrightarrow> x \<in> set xs \<Longrightarrow> byID xs (e_ID x) = Some x"
proof -
  assume d: "distinct (map e_ID xs)" and x: "x \<in> set xs"
  have "distinct (map fst (rev (map (\<lambda>e. (e_ID e, e)) xs)))" using d by (simp add: rev_map[symmetric] comp_def)
  moreover have "(e_ID x, x) \<in> set (rev (map (\<lambda>e. (e_ID e, e)) xs))" using x by auto
  ultimately show ?thesis unfolding byID_def by (rule map_of_is_SomeI)
qed

lemma entries_by_sequence:
  assumes inv: "storeOK d" "sequencesOK d" and conv: "findConversation d cid = Some conv" and acc: "requireAccess d u g AccessLevelWriter = Inr l"
    and group: "c_ConversationGroupID conv = g" and c: "c \<in> set (db_entries d)" "e_ConversationID c = cid" "e_ConversationGroupID c = g"
      "e_Seq c = Some s" and dec: "decryptEntries s_enc [c] = Inr [e]"
  shows "GetEntriesBySequence d s_enc u cid [s] = Inr [e]"
proof -
  have "distinct (db_entries d)" using storeOK_D(4)[OF inv(1)] by (auto simp: keysOK_def distinct_map)
  then have "filter (\<lambda>e. e_ConversationGroupID e = g \<and> e_ConversationID e = cid \<and> (\<exists>x \<in> set [s]. e_Seq e = Some x)) (db_entries d) = [c]"
    using c inv(2) by (intro filter_only) (auto simp: sequencesOK_def)
  then show ?thesis using conv acc group dec by (simp add: GetEntriesBySequence_def)
qed

lemma recover_batch:
  assumes inv: "storeOK d" and rows: "set cs \<subseteq> set (db_entries d)" "\<And>c. c \<in> set cs \<Longrightarrow> e_ConversationID c = cid \<and> e_ConversationGroupID c = g"
    and dec: "decryptEntries s_enc cs = Inr es" and ids: "map e_ID cs = ids" "distinct ids"
    and anchor: "e_ConversationID first = cid" "e_ConversationGroupID first = g"
    and batch: "decryptEntryContent s_enc (e_ID first) (valueOrEmpty (e_AppendBatch first)) = Inr bytes"
      "DecodeAppendBatch co bytes = Inr b" "Matches co b r = Inr True" "ab_IDs b = ids"
  shows "RecoverAppendBatch d s_enc co first r = Inr \<lparr>sm_Created = [], sm_Entries = es, sm_Exact = True, sm_AnyExisting = True\<rparr>"
proof -
  let ?rows = "filter (\<lambda>e. e_ConversationID e = cid \<and> e_ConversationGroupID e = g \<and> e_ID e \<in> set ids) (db_entries d)"
  have keys: "distinct (map e_ID (db_entries d))" using storeOK_D(4)[OF inv] by (simp add: keysOK_def)
  have "c \<in> set cs" if c: "c \<in> set (db_entries d)" "e_ID c \<in> set ids" for c
  proof -
    obtain c' where "c' \<in> set cs" "e_ID c' = e_ID c" using c(2) ids(1) by auto
    then show ?thesis using keys c(1) rows(1) by (metis distinct_map inj_onD subsetD)
  qed
  moreover have "e_ID c \<in> set ids" if "c \<in> set cs" for c using that ids(1) by auto
  ultimately have same: "set ?rows = set cs" using rows unfolding set_filter by blast
  have d: "distinct (map e_ID ?rows)" "distinct (map e_ID cs)" using distinct_map_filter[OF keys] ids by simp_all
  have "length ?rows = card (set ?rows)" by (rule distinct_card[symmetric], rule distinct_mapD) (rule d(1))
  also have "\<dots> = card (set cs)" by (simp only: same)
  also have "\<dots> = length cs" by (rule distinct_card, rule distinct_mapD) (rule d(2))
  also have "\<dots> = length ids" using ids(1) by auto
  finally have len: "length ?rows = length ids" .
  note D = decryptEntries_rows[OF dec, of ?rows, unfolded same, OF subset_refl]
  have keys': "distinct (map e_ID (map (decrypted s_enc) ?rows))" using d(1) by (simp add: comp_def)
  have "byID (map (decrypted s_enc) ?rows) (e_ID c) = Some (decrypted s_enc c)" if "c \<in> set cs" for c
    using byID_lookup[OF keys', of "decrypted s_enc c"] that same by auto
  then have "map (byID (map (decrypted s_enc) ?rows)) ids = map (\<lambda>c. Some (decrypted s_enc c)) cs"
    unfolding ids(1)[symmetric] by simp
  then have "those (map (byID (map (decrypted s_enc) ?rows)) ids) = Some es"
    using those_map_Some[of cs "\<lambda>c. Some (decrypted s_enc c)" "decrypted s_enc"] D(2) by (simp add: comp_def)
  then show ?thesis using batch anchor len D(1) by (simp add: RecoverAppendBatch_def Let_def)
qed

lemma match_single:
  assumes "sr_Entries r = [q]" and "er_Seq q = Some s" and "entryMatches co r q e"
  shows "MatchExistingEntries co r [e] = Some [e]"
  using assms by (auto simp: MatchExistingEntries_def Sequences_def entryMatches_def Let_def)

lemma appended_matches:
  assumes "i < length (sr_Entries r)"
  shows "entryMatches co r (sr_Entries r ! i) (appendedRow (NewAppendBatch ids r now) bd cid g i)"
  by (simp add: entryMatches_def appendedRow_def NewAppendBatch_def jsonValuesEqual_def Let_def)

text \<open>The row of an entry with other index fields is stored as the entry with these index fields.\<close>

definition indexedAs :: "Entry \<Rightarrow> Entry \<Rightarrow> Entry" where
  "indexedAs row e = e\<lparr>e_IndexedContent := e_IndexedContent row, e_IndexedAt := e_IndexedAt row\<rparr>"

lemma unindexed_indexedAs [simp]: "unindexed (indexedAs row e) = unindexed e"
  by (simp add: unindexed_def indexedAs_def)

lemma unindexed_eq: "unindexed x = unindexed y \<Longrightarrow> x = indexedAs x y"
  by (cases x; cases y) (simp add: unindexed_def indexedAs_def)

lemma appended_indexed_matches:
  assumes "i < length (sr_Entries r)"
  shows "entryMatches co r (sr_Entries r ! i) (indexedAs row (appendedRow (NewAppendBatch ids r now) bd cid g i))
     \<longleftrightarrow> e_IndexedContent row = er_IndexedContent (sr_Entries r ! i)"
  by (simp add: entryMatches_def indexedAs_def appendedRow_def NewAppendBatch_def jsonValuesEqual_def Let_def)

lemma findConversation_the:
  assumes "keysOK d" and "conv \<in> set (db_conversations d)" and "c_ID conv = cid"
  shows "findConversation d cid = Some conv"
proof (cases "findConversation d cid")
  case None
  then show ?thesis using assms(2,3) by (auto simp: findConversation_None)
next
  case (Some x)
  then show ?thesis using findConversation_Some[OF Some] assms by (auto simp: keysOK_def distinct_map dest: inj_onD)
qed

lemma map_unindexed_IDs:
  assumes "map unindexed xs = map unindexed ys"
  shows "map e_ID xs = map e_ID ys"
proof -
  have "map e_ID (map unindexed zs) = map e_ID zs" for zs by (simp add: unindexed_def)
  then show ?thesis by (metis assms)
qed

lemma storedAs_indexed:
  assumes "storedAs s_enc e c" and "unindexed row = unindexed c"
  shows "storedAs s_enc (indexedAs row e) row"
proof -
  have e: "encryptEntryContent s_enc (e_ID e) (e_Content e) = Inr (e_Content c)" "c = e\<lparr>e_Content := e_Content c\<rparr>"
    using assms(1) by (simp_all add: storedAs_def)
  have "row = indexedAs row c" by (rule unindexed_eq[OF assms(2)])
  also have "\<dots> = (indexedAs row e)\<lparr>e_Content := e_Content c\<rparr>" by (subst e(2)) (simp add: indexedAs_def)
  finally show ?thesis using e(1) unindexed_fields(8)[OF assms(2)] by (simp add: storedAs_def indexedAs_def)
qed

lemma stored_indexed:
  assumes "list_all2 (storedAs s_enc) es cs" and "map unindexed rows = map unindexed cs"
  shows "\<exists>es'. list_all2 (storedAs s_enc) es' rows \<and> map unindexed es' = map unindexed es"
  using assms
proof (induction arbitrary: rows rule: list_all2_induct)
  case (Cons e es c cs)
  then obtain row rest where row: "rows = row # rest" "unindexed row = unindexed c" "map unindexed rest = map unindexed cs" by auto
  with Cons.IH obtain es' where "list_all2 (storedAs s_enc) es' rest" "map unindexed es' = map unindexed es" by blast
  then show ?case using storedAs_indexed[OF Cons.hyps(1) row(2)] row(1) by (intro exI[of _ "indexedAs row e # es'"]) simp
qed simp

text \<open>The rows of a successful append stay in the tables, up to their index, over every run that spares the group.\<close>

lemma append_rows_kept:
  assumes inv: "stateOK (d, cache)" and ids: "freshIDs d (fr_IDs fr) (length (sr_Entries r))" and ne: "sr_Entries r \<noteq> []"
    and op: "appendEntries d cache s_enc (withAttachments d atts co) fr cid r aa = Inr (d', cache', result)"
    and run: "reachable (\<lambda>x. x = (d', cache')) (sparing_step (e_ConversationGroupID (hd result)) s_enc co cc) t"
  obtains conv conv' rows result' where "stateOK t"
    "loadOrCreate d s_enc (withAttachments d atts co) fr cid r = Inr (appendBase d s_enc (withAttachments d atts co) fr cid r, conv)"
    "conv' \<in> set (db_conversations (fst t))" "c_ID conv' = cid" "c_ConversationGroupID conv' = c_ConversationGroupID conv"
    "set rows \<subseteq> set (db_entries (fst t))" "list_all2 (storedAs s_enc) result' rows"
    "\<And>c. c \<in> set rows \<Longrightarrow> e_ConversationID c = cid \<and> e_ConversationGroupID c = c_ConversationGroupID conv"
    "map unindexed result' = map unindexed result"
proof -
  let ?co = "withAttachments d atts co" and ?b = "appendBase d s_enc (withAttachments d atts co) fr cid r"
  have "storeOK d" using inv by (simp add: stateOK_def)
  then obtain conv cs x u where f: "loadOrCreate d s_enc ?co fr cid r = Inr (?b, conv)" "storeOK ?b"
      "appendsAfter ?b (c_ConversationGroupID conv) cid cs" "list_all2 (storedAs s_enc) result cs"
      "d' = touchConversation cid x u (appendEntriesTo ?b cs)"
    by (rule append_facts[OF _ ids ne op])
  have step: "store_step s_enc co cc (d, cache) (By (sr_UserID r)) (d', cache')" by (rule store_step.append[OF op ids])
  then have inv': "stateOK (d', cache')" using inv by (rule step_stateOK)
  note later = run.le_from[OF run inv']
  have member: "e_ConversationID c = cid \<and> e_ConversationGroupID c = c_ConversationGroupID conv" if "c \<in> set cs" for c
    using f(3) that by (simp add: appendsAfter_def)
  have "length result = length (sr_Entries r)" by (rule append_cases[OF op ne]) (simp add: appendedRows_def NewAppendBatch_def)
  then have "result \<noteq> []" "cs \<noteq> []" using ne list_all2_lengthD[OF f(4)] by auto
  then have g: "e_ConversationGroupID (hd result) = c_ConversationGroupID conv"
    using stored_maps(7)[OF f(4)] member[of "hd cs"] by (cases result; cases cs) simp_all
  obtain y where y: "y \<in> set (db_conversations d')" "c_ID y = cid" "c_ConversationGroupID y = c_ConversationGroupID conv"
  proof -
    have "isConversation ?b (c_ConversationGroupID conv) cid" using f(3) by (simp add: appendsAfter_def)
    then have "(cid, c_ConversationGroupID conv) \<in> rowKeys d'"
      unfolding f(5) touch_rowKeys by (auto simp: rowKeys_def isConversation_def appendEntriesTo_def)
    then show thesis using that by (auto simp: rowKeys_def)
  qed
  let ?old = "listVisibleEntriesForConversation ?b y"
  have view: "listVisibleEntriesForConversation d' y = ?old @ cs"
    using touchConversation_view[OF append_storeOK[OF f(2,3)]] append_view[OF storeOK_D(1)[OF f(2)] f(3)] y(2,3) by (simp add: f(5))
  obtain y' new where y': "y' \<in> set (db_conversations (fst t))" "c_ID y' = cid" "c_ConversationGroupID y' = c_ConversationGroupID conv"
      "map unindexed (listVisibleEntriesForConversation (fst t) y') = map unindexed (listVisibleEntriesForConversation d' y) @ new"
    using later y unfolding laterState_def g by force
  let ?rows = "take (length cs) (drop (length ?old) (listVisibleEntriesForConversation (fst t) y'))"
  have rows: "map unindexed ?rows = map unindexed cs"
    using arg_cong[OF y'(4)[unfolded view], of "\<lambda>es. take (length cs) (drop (length ?old) es)"] by (simp add: drop_map take_map)
  have "set ?rows \<subseteq> set (listVisibleEntriesForConversation (fst t) y')" by (meson set_drop_subset set_take_subset subset_trans)
  moreover have "set (listVisibleEntriesForConversation (fst t) y') \<subseteq> set (db_entries (fst t))"
    using later listVisible_set[of "fst t" y'] by (auto simp: stateOK_def dest: storeOK_D)
  ultimately have sub: "set ?rows \<subseteq> set (db_entries (fst t))" by blast
  have mem: "e_ConversationID c = cid \<and> e_ConversationGroupID c = c_ConversationGroupID conv" if "c \<in> set ?rows" for c
  proof -
    have "unindexed c \<in> unindexed ` set cs" using that arg_cong[OF rows, of set] by (metis imageI list.set_map)
    then obtain c' where "c' \<in> set cs" "unindexed c = unindexed c'" by blast
    then show ?thesis using member[of c'] unindexed_fields(2,3)[of c c'] by simp
  qed
  obtain result' where r': "list_all2 (storedAs s_enc) result' ?rows" "map unindexed result' = map unindexed result"
    using stored_indexed[OF f(4) rows] by blast
  show thesis by (rule that[OF _ f(1) y'(1,2,3) sub r'(1) mem r'(2)]) (use later in simp)
qed

section \<open>A repeated append\<close>

lemma anchor_entry_found:
  assumes inv: "storeOK d" "sequencesOK d" and enc: "cipherOK s_enc"
    and conv: "y \<in> set (db_conversations d)" "c_ID y = cid" "c_ConversationGroupID y = g"
    and rows: "set cs \<subseteq> set (db_entries d)" "list_all2 (storedAs s_enc) result cs"
      "\<And>c. c \<in> set cs \<Longrightarrow> e_ConversationID c = cid \<and> e_ConversationGroupID c = g"
    and a: "a < length cs" "e_Seq (result ! a) = Some s" and acc: "requireAccess d u g AccessLevelWriter = Inr l"
  shows "GetEntriesBySequence d s_enc u cid [s] = Inr [result ! a]"
proof -
  have st: "storedAs s_enc (result ! a) (cs ! a)" by (rule list_all2_nthD2[OF rows(2) a(1)])
  have mem: "cs ! a \<in> set cs" using a(1) by simp
  have "findConversation d cid = Some y" by (rule findConversation_the[OF storeOK_D(4)[OF inv(1)] conv(1,2)])
  moreover have "e_Seq (cs ! a) = Some s" using storedAs_fields(4)[OF st] a(2) by simp
  ultimately show ?thesis
    using acc conv(3) rows(1) rows(3)[OF mem] mem stored_decrypt[OF enc, of "[result ! a]" "[cs ! a]"] st
    by (intro entries_by_sequence[OF inv, where conv = y]) (auto simp: subset_iff)
qed

lemma find_batch:
  assumes "Anchor r = Some a" and "er_Seq (sr_Entries r ! a) = Some s" and "GetEntriesBySequence d s_enc (sr_UserID r) cid [s] = Inr [e]"
    and "valueOrEmpty (e_AppendBatch e) \<noteq> []"
  shows "FindSequencedAppendMatch d s_enc co cid r = RecoverAppendBatch d s_enc co e r"
  using assms by (simp add: FindSequencedAppendMatch_def)

lemma find_single:
  assumes "sr_Entries r = [q]" and "er_Seq q = Some s" and "GetEntriesBySequence d s_enc (sr_UserID r) cid [s] = Inr [e]"
    and "e_AppendBatch e = None" and "entryMatches co r q e"
  shows "FindSequencedAppendMatch d s_enc co cid r = Inr \<lparr>sm_Created = [], sm_Entries = [e], sm_Exact = True, sm_AnyExisting = True\<rparr>"
  using assms match_single[OF assms(1,2,5)] by (simp add: FindSequencedAppendMatch_def valueOrEmpty_def Anchor_def)

lemma encodedBatch_restored:
  assumes ok: "encodedBatch s_enc co (NewAppendBatch ids r now) = Inr bd" and anchor: "Anchor r = Some a" and n: "length (sr_Entries r) > 1"
    and enc: "cipherOK s_enc" "cipherNonEmpty s_enc" and co: "batchRestored co ids r" and len: "length ids = length (sr_Entries r)"
  obtains bytes b where "decryptEntryContent s_enc (ids ! a) (valueOrEmpty bd) = Inr bytes" "valueOrEmpty bd \<noteq> []"
    "DecodeAppendBatch co bytes = Inr b" "Matches co b r = Inr True" "ab_IDs b = ids"
proof -
  obtain fps c where f: "fingerprints co r (sr_Entries r) = Inr fps" "bd = Some c"
      "encryptEntryContent s_enc (ids ! a) (jc_marshalBatch co (savedBatch (NewAppendBatch ids r now) fps)) = Inr c"
    using ok anchor n by (auto simp: encodedBatch_def EncodeAppendBatch_def andThen_eq_Inr)
  have "jc_marshalBatch co (savedBatch (NewAppendBatch ids r now) fps) \<noteq> []" using co f(1) unfolding batchRestored_def Let_def by blast
  then show thesis
    using that content_roundtrip[OF enc(1) f(3)] encrypted_nonempty[OF enc(2) f(3)]
      saved_batch_recovered[OF f(1) co len n anchor refl, of now] f(2) by (simp add: valueOrEmpty_def)
qed

text \<open>A stored entry that differs from the request in a compared field does not match, with or without its content.\<close>

lemma find_single_other:
  assumes "sr_Entries r = [q]" and "er_Seq q = Some s" and "GetEntriesBySequence d s_enc (sr_UserID r) cid [s] = Inr [e]"
    and "e_AppendBatch e = None" and "e_Seq e = Some s" and "e_IndexedContent e \<noteq> er_IndexedContent q"
  shows "FindSequencedAppendMatch d s_enc co cid r = Inr \<lparr>sm_Created = [], sm_Entries = [], sm_Exact = False, sm_AnyExisting = True\<rparr>"
proof -
  have "MatchExistingEntries co r [e] = None"
    using assms by (auto simp: MatchExistingEntries_def entryMatches_def Let_def Sequences_def)
  moreover have "matchExistingEntriesWithAttachmentIdentity co r [e] = Inr None"
    using assms by (simp add: matchExistingEntriesWithAttachmentIdentity_def MatchExistingEntriesIgnoringContent_def
        MatchExistingEntries_def entryMatches_def Let_def Sequences_def)
  ultimately show ?thesis using assms by (simp add: FindSequencedAppendMatch_def valueOrEmpty_def Anchor_def)
qed


section \<open>A sample retry\<close>

text \<open>A codec for the batches of one request, which writes the start time only.\<close>

definition encodeStart :: "time \<Rightarrow> string" where
  "encodeStart t = (if t < 0 then CHR ''-'' else CHR ''+'') # replicate (nat \<bar>t\<bar>) CHR ''x''"

definition decodeStart :: "string \<Rightarrow> time" where
  "decodeStart s = (let t = int (length s - 1) in if s \<noteq> [] \<and> hd s = CHR ''-'' then - t else t)"

lemma decodeStart_encodeStart: "decodeStart (encodeStart t) = t"
  by (simp add: decodeStart_def encodeStart_def Let_def)

definition batchCodec :: "uuid list \<Rightarrow> SequencedAppendRequest \<Rightarrow> Codec" where
  "batchCodec ids r =
     sampleCodec\<lparr>jc_marshalBatch := (\<lambda>b. encodeStart (ab_Start b)),
       jc_unmarshalBatch := (\<lambda>s. case fingerprints sampleCodec r (sr_Entries r) of
                                   Inl _ \<Rightarrow> None
                                 | Inr fps \<Rightarrow> Some (savedBatch (NewAppendBatch ids r (decodeStart s)) fps))\<rparr>"

lemma fingerprints_codec: "fingerprints (withAttachments d atts (batchCodec ids r)) q qs = fingerprints sampleCodec q qs"
proof -
  let ?co = "withAttachments d atts (batchCodec ids r)"
  have ref: "identifyRef ?co u item = identifyRef sampleCodec u item" for u item
    by (simp add: identifyRef_def batchCodec_def sampleCodec_def withAttachments_def cong: option.case_cong json.case_cong)
  have refs: "identifyRefs ?co u b i items = identifyRefs sampleCodec u b i items" for u b i items
    by (induction items arbitrary: i) (simp_all add: ref)
  have blocks: "identifyBlocks ?co u b items = identifyBlocks sampleCodec u b items" for u b items
    by (induction items arbitrary: b) (simp_all add: refs cong: option.case_cong json.case_cong)
  have content: "identifyContent ?co u ch v = identifyContent sampleCodec u ch v" for u ch v
    by (simp add: identifyContent_def blocks cong: json.case_cong bool.case_cong)
  have "appendFingerprint ?co q x = appendFingerprint sampleCodec q x" for x
    unfolding appendFingerprint_def content by (simp add: batchCodec_def withAttachments_def cong: option.case_cong)
  then show ?thesis by (induction qs) simp_all
qed

lemma batchCodec_restored: "batchRestored (withAttachments d atts (batchCodec ids r)) ids r"
proof -
  have "encodeStart t \<noteq> []" for t by (simp add: encodeStart_def)
  then show ?thesis unfolding batchRestored_def fingerprints_codec Let_def
    by (simp add: batchCodec_def withAttachments_def decodeStart_encodeStart savedBatch_def NewAppendBatch_def)
qed

definition retryCodec :: Codec where
  "retryCodec = batchCodec (fr_IDs sampleFresh) appendRequest"

definition retryAppended :: "(db \<times> entries_cache \<times> Entry list) result" where
  "retryAppended = appendEntries runCreated None None (withAttachments runCreated noAttachments retryCodec) sampleFresh ''c1'' appendRequest False"


end
