(* ===== verification/Clustering.thy ===== *)
theory Clustering
  imports Prelude "HOL-Library.Multiset"
begin

text \<open>
  Knowledge clusters (\<open>internal/knowledge\<close>): the density-based clustering of a user's embeddings, the comparison of its
  result with the stored clusters, and the run that stores the difference. \<open>float64\<close> arithmetic is the record
  \<open>Floats\<close>; the only law used of it is that multiplication commutes. Go iterates over a map in any order: where the
  code does so, the order is an argument. An index out of range, which makes Go panic, is \<open>None\<close>.
\<close>

section \<open>Distances\<close>

record 'f Floats =
  fl_add :: "'f \<Rightarrow> 'f \<Rightarrow> 'f"
  fl_sub :: "'f \<Rightarrow> 'f \<Rightarrow> 'f"
  fl_mul :: "'f \<Rightarrow> 'f \<Rightarrow> 'f"
  fl_div :: "'f \<Rightarrow> 'f \<Rightarrow> 'f"
  fl_sqrt :: "'f \<Rightarrow> 'f"
  fl_eq :: "'f \<Rightarrow> 'f \<Rightarrow> bool"
  fl_less :: "'f \<Rightarrow> 'f \<Rightarrow> bool"
  fl_le :: "'f \<Rightarrow> 'f \<Rightarrow> bool"
  fl_int :: "int \<Rightarrow> 'f"
  fl_half :: 'f
  fl_float32 :: "'f \<Rightarrow> 'f"

fun dotNorms :: "'f Floats \<Rightarrow> 'f list \<Rightarrow> 'f list \<Rightarrow> 'f \<times> 'f \<times> 'f \<Rightarrow> 'f \<times> 'f \<times> 'f" where
  "dotNorms fl (x # xs) (y # ys) (dot, normA, normB) =
     dotNorms fl xs ys (fl_add fl dot (fl_mul fl x y), fl_add fl normA (fl_mul fl x x), fl_add fl normB (fl_mul fl y y))"
| "dotNorms fl _ _ acc = acc"

definition CosineDistance :: "'f Floats \<Rightarrow> 'f list \<Rightarrow> 'f list \<Rightarrow> 'f" where
  "CosineDistance fl a b =
     (if length a \<noteq> length b \<or> length a = 0 then fl_int fl 2
      else case dotNorms fl a b (fl_int fl 0, fl_int fl 0, fl_int fl 0) of (dot, normA, normB) \<Rightarrow>
             if fl_eq fl normA (fl_int fl 0) \<or> fl_eq fl normB (fl_int fl 0) then fl_int fl 2
             else
               let sim = fl_div fl dot (fl_mul fl (fl_sqrt fl normA) (fl_sqrt fl normB));
                   sim = (if fl_less fl (fl_int fl 1) sim then fl_int fl 1
                          else if fl_less fl sim (fl_int fl (- 1)) then fl_int fl (- 1) else sim)
               in fl_sub fl (fl_int fl 1) sim)"

definition rangeQuery :: "'f Floats \<Rightarrow> 'f list list \<Rightarrow> 'f \<Rightarrow> nat \<Rightarrow> nat list" where
  "rangeQuery fl embeddings epsilon p =
     filter (\<lambda>i. fl_le fl (CosineDistance fl (embeddings ! p) (embeddings ! i)) epsilon) [0..<length embeddings]"

fun addVectors :: "'f Floats \<Rightarrow> 'f list \<Rightarrow> 'f list \<Rightarrow> 'f list option" where
  "addVectors fl [] v = Some []"
| "addVectors fl (c # cs) [] = None"
| "addVectors fl (c # cs) (x # xs) = map_option ((#) (fl_add fl c x)) (addVectors fl cs xs)"

fun sumVectors :: "'f Floats \<Rightarrow> 'f list list \<Rightarrow> nat list \<Rightarrow> 'f list \<Rightarrow> 'f list option" where
  "sumVectors fl embeddings [] centroid = Some centroid"
| "sumVectors fl embeddings (idx # indices) centroid =
     (if length embeddings \<le> idx then None
      else Option.bind (addVectors fl centroid (embeddings ! idx)) (sumVectors fl embeddings indices))"

definition ComputeCentroid :: "'f Floats \<Rightarrow> 'f list list \<Rightarrow> nat list \<Rightarrow> 'f list option" where
  "ComputeCentroid fl embeddings indices =
     (if indices = [] \<or> embeddings = [] then Some []
      else if length embeddings \<le> hd indices then None
      else map_option (map (\<lambda>c. fl_div fl c (fl_int fl (int (length indices)))))
             (sumVectors fl embeddings indices (replicate (length (embeddings ! hd indices)) (fl_int fl 0))))"

section \<open>Clustering\<close>

record 'f DBSCANConfig =
  db_Epsilon :: 'f
  db_MinPoints :: int

record ClusterResult =
  cl_Clusters :: "(int \<times> nat list) list"
  cl_Noise :: "nat list"

definition undefinedLabel :: int where "undefinedLabel = - 2"

definition noiseLabel :: int where "noiseLabel = - 1"

text \<open>The loop over the seed set, which grows while it runs.\<close>

function (sequential) seedLoop :: "(nat \<Rightarrow> nat list) \<Rightarrow> int \<Rightarrow> nat \<Rightarrow> int list \<Rightarrow> nat list \<Rightarrow> int list option" where
  "seedLoop nbrs minPoints clusterID labels [] = Some labels"
| "seedLoop nbrs minPoints clusterID labels (q # seed) =
     (if length labels \<le> q then None
      else
        let labels = (if labels ! q = noiseLabel then labels[q := int clusterID] else labels)
        in if labels ! q \<noteq> undefinedLabel then seedLoop nbrs minPoints clusterID labels seed
           else
             let labels = labels[q := int clusterID]; qNeighbors = nbrs q
             in seedLoop nbrs minPoints clusterID labels (if minPoints \<le> int (length qNeighbors) then seed @ qNeighbors else seed))"
  by pat_completeness auto

lemma count_update_less:
  "i < length xs \<Longrightarrow> P (xs ! i) \<Longrightarrow> \<not> P v \<Longrightarrow> length (filter P (xs[i := v])) < length (filter P xs)"
proof (induction xs arbitrary: i)
  case (Cons x xs)
  then show ?case by (cases i) auto
qed simp

lemma count_update_same:
  "\<not> P (xs ! i) \<Longrightarrow> \<not> P v \<Longrightarrow> length (filter P (xs[i := v])) = length (filter P xs)"
  by (induction xs arbitrary: i) (auto simp: nth_Cons split: nat.splits)

termination seedLoop
proof (relation "measures [\<lambda>(nbrs, mp, c, labels, seed). length (filter ((=) undefinedLabel) labels),
    \<lambda>(nbrs, mp, c, labels, seed). length seed]", goal_cases)
  case (2 nbrs mp c labels q seed x)
  then show ?case by (auto simp: count_update_same undefinedLabel_def noiseLabel_def)
next
  case (3 nbrs mp c labels q seed x xa xb)
  then show ?case by (auto simp: undefinedLabel_def noiseLabel_def intro!: count_update_less split: if_splits)
qed simp

fun pointLoop :: "(nat \<Rightarrow> nat list) \<Rightarrow> int \<Rightarrow> nat list \<Rightarrow> nat \<Rightarrow> int list \<Rightarrow> int list option" where
  "pointLoop nbrs minPoints [] clusterID labels = Some labels"
| "pointLoop nbrs minPoints (i # points) clusterID labels =
     (if labels ! i \<noteq> undefinedLabel then pointLoop nbrs minPoints points clusterID labels
      else
        let neighbors = nbrs i
        in if int (length neighbors) < minPoints then pointLoop nbrs minPoints points clusterID (labels[i := noiseLabel])
           else Option.bind (seedLoop nbrs minPoints clusterID (labels[i := int clusterID]) (filter (\<lambda>nb. nb \<noteq> i) neighbors))
                  (pointLoop nbrs minPoints points (Suc clusterID)))"

fun addMember :: "int \<Rightarrow> nat \<Rightarrow> (int \<times> nat list) list \<Rightarrow> (int \<times> nat list) list" where
  "addMember label i [] = [(label, [i])]"
| "addMember label i ((k, members) # clusters) =
     (if k = label then (k, members @ [i]) # clusters else (k, members) # addMember label i clusters)"

fun collectLabels :: "nat \<Rightarrow> int list \<Rightarrow> ClusterResult \<Rightarrow> ClusterResult" where
  "collectLabels i [] result = result"
| "collectLabels i (label # labels) result =
     collectLabels (Suc i) labels
       (if label = noiseLabel then result\<lparr>cl_Noise := cl_Noise result @ [i]\<rparr>
        else result\<lparr>cl_Clusters := addMember label i (cl_Clusters result)\<rparr>)"

definition RunDBSCAN :: "'f Floats \<Rightarrow> 'f list list \<Rightarrow> 'f DBSCANConfig \<Rightarrow> ClusterResult option" where
  "RunDBSCAN fl embeddings cfg =
     (let n = length embeddings; empty = \<lparr>cl_Clusters = [], cl_Noise = []\<rparr>
      in if n = 0 then Some empty
         else map_option (\<lambda>labels. collectLabels 0 labels empty)
                (pointLoop (rangeQuery fl embeddings (db_Epsilon cfg)) (db_MinPoints cfg) [0..<n] 0 (replicate n undefinedLabel)))"

section \<open>Comparing with the stored clusters\<close>

record clusterOverlap =
  ov_newLabel :: int
  ov_existingID :: uuid
  ov_overlapCount :: nat
  ov_newSize :: nat

record ClusterMember =
  cm_SourceID :: uuid
  cm_SourceType :: int

text \<open>The fields of \<open>Cluster\<close> the comparison reads.\<close>

record Cluster =
  kc_ID :: uuid
  kc_Members :: "ClusterMember list"

record 'f ClusterUpdate =
  cu_ClusterID :: uuid
  cu_NewMembers :: "nat list"
  cu_NewCentroid :: "'f list"
  cu_OverlapRatio :: 'f

record 'f ClusterBirth =
  cb_Members :: "nat list"
  cb_Centroid :: "'f list"

record 'f DiffResult =
  di_Updated :: "'f ClusterUpdate list"
  di_Born :: "'f ClusterBirth list"
  di_Died :: "uuid list"

definition sourceToCluster :: "Cluster list \<Rightarrow> uuid \<rightharpoonup> uuid" where
  "sourceToCluster existing = map_of (rev (concat (map (\<lambda>ec. map (\<lambda>m. (cm_SourceID m, kc_ID ec)) (kc_Members ec)) existing)))"

fun countUp :: "uuid \<Rightarrow> (uuid \<times> nat) list \<Rightarrow> (uuid \<times> nat) list" where
  "countUp k [] = [(k, 1)]"
| "countUp k ((x, c) # counts) = (if x = k then (x, Suc c) # counts else (x, c) # countUp k counts)"

fun memberCounts :: "uuid list \<Rightarrow> (uuid \<rightharpoonup> uuid) \<Rightarrow> nat list \<Rightarrow> (uuid \<times> nat) list \<Rightarrow> (uuid \<times> nat) list" where
  "memberCounts sourceIDs clusterOf [] counts = counts"
| "memberCounts sourceIDs clusterOf (idx # indices) counts =
     memberCounts sourceIDs clusterOf indices
       (if idx < length sourceIDs
        then (case clusterOf (sourceIDs ! idx) of None \<Rightarrow> counts | Some ecID \<Rightarrow> countUp ecID counts)
        else counts)"

text \<open>\<open>shuffle\<close> is the order in which Go iterates over the counts of a new cluster.\<close>

definition clusterOverlaps ::
  "((uuid \<times> nat) list \<Rightarrow> (uuid \<times> nat) list) \<Rightarrow> uuid list \<Rightarrow> (uuid \<rightharpoonup> uuid) \<Rightarrow> (int \<times> nat list) list \<Rightarrow> clusterOverlap list" where
  "clusterOverlaps shuffle sourceIDs clusterOf clusters =
     concat (map (\<lambda>(label, indices).
       map (\<lambda>(ecID, count). \<lparr>ov_newLabel = label, ov_existingID = ecID, ov_overlapCount = count, ov_newSize = length indices\<rparr>)
         (shuffle (memberCounts sourceIDs clusterOf indices []))) clusters)"

definition overlapRatio :: "'f Floats \<Rightarrow> clusterOverlap \<Rightarrow> 'f" where
  "overlapRatio fl ov = fl_div fl (fl_int fl (int (ov_overlapCount ov))) (fl_int fl (int (ov_newSize ov)))"

definition betterOverlap :: "'f Floats \<Rightarrow> clusterOverlap \<Rightarrow> clusterOverlap \<Rightarrow> bool" where
  "betterOverlap fl a b \<longleftrightarrow>
     (let ri = overlapRatio fl a; rj = overlapRatio fl b
      in fl_less fl rj ri \<or> (fl_eq fl ri rj \<and> ov_overlapCount b < ov_overlapCount a))"

text \<open>An element moves to the left past worse ones; the part already sorted is held reversed.\<close>

fun moveLeft :: "'f Floats \<Rightarrow> clusterOverlap \<Rightarrow> clusterOverlap list \<Rightarrow> clusterOverlap list" where
  "moveLeft fl x [] = [x]"
| "moveLeft fl x (y # ys) = (if betterOverlap fl x y then y # moveLeft fl x ys else x # y # ys)"

definition sortOverlaps :: "'f Floats \<Rightarrow> clusterOverlap list \<Rightarrow> clusterOverlap list" where
  "sortOverlaps fl overlaps = rev (foldl (\<lambda>sorted x. moveLeft fl x sorted) [] overlaps)"

text \<open>The greedy matching: the matched overlaps, in order.\<close>

fun matchOverlaps :: "'f Floats \<Rightarrow> uuid set \<Rightarrow> int set \<Rightarrow> clusterOverlap list \<Rightarrow> clusterOverlap list" where
  "matchOverlaps fl matchedExisting matchedNew [] = []"
| "matchOverlaps fl matchedExisting matchedNew (ov # overlaps) =
     (if ov_existingID ov \<in> matchedExisting \<or> ov_newLabel ov \<in> matchedNew then matchOverlaps fl matchedExisting matchedNew overlaps
      else if fl_less fl (overlapRatio fl ov) (fl_half fl) then matchOverlaps fl matchedExisting matchedNew overlaps
      else ov # matchOverlaps fl (insert (ov_existingID ov) matchedExisting) (insert (ov_newLabel ov) matchedNew) overlaps)"

definition clusterMembers :: "(int \<times> nat list) list \<Rightarrow> int \<Rightarrow> nat list" where
  "clusterMembers clusters label = (case map_of clusters label of None \<Rightarrow> [] | Some indices \<Rightarrow> indices)"

fun updatesOf :: "'f Floats \<Rightarrow> 'f list list \<Rightarrow> (int \<times> nat list) list \<Rightarrow> clusterOverlap list \<Rightarrow> 'f ClusterUpdate list option" where
  "updatesOf fl embeddings clusters [] = Some []"
| "updatesOf fl embeddings clusters (ov # matched) =
     Option.bind (ComputeCentroid fl embeddings (clusterMembers clusters (ov_newLabel ov))) (\<lambda>centroid.
     Option.bind (updatesOf fl embeddings clusters matched) (\<lambda>rest.
       Some (\<lparr>cu_ClusterID = ov_existingID ov, cu_NewMembers = clusterMembers clusters (ov_newLabel ov),
              cu_NewCentroid = centroid, cu_OverlapRatio = overlapRatio fl ov\<rparr> # rest)))"

fun birthsOf :: "'f Floats \<Rightarrow> 'f list list \<Rightarrow> int set \<Rightarrow> (int \<times> nat list) list \<Rightarrow> 'f ClusterBirth list option" where
  "birthsOf fl embeddings matchedNew [] = Some []"
| "birthsOf fl embeddings matchedNew ((label, indices) # clusters) =
     (if label \<in> matchedNew then birthsOf fl embeddings matchedNew clusters
      else Option.bind (ComputeCentroid fl embeddings indices) (\<lambda>centroid.
           Option.bind (birthsOf fl embeddings matchedNew clusters) (\<lambda>rest.
             Some (\<lparr>cb_Members = indices, cb_Centroid = centroid\<rparr> # rest))))"

text \<open>The two orders in which the clusters of the result are iterated over are \<open>order1\<close> and \<open>order2\<close>.\<close>

definition DiffClusters ::
  "'f Floats \<Rightarrow> ((uuid \<times> nat) list \<Rightarrow> (uuid \<times> nat) list) \<Rightarrow> (int \<times> nat list) list \<Rightarrow> (int \<times> nat list) list \<Rightarrow>
   'f list list \<Rightarrow> uuid list \<Rightarrow> Cluster list \<Rightarrow> 'f DiffResult option" where
  "DiffClusters fl shuffle order1 order2 embeddings sourceIDs existing =
     (let overlaps = sortOverlaps fl (clusterOverlaps shuffle sourceIDs (sourceToCluster existing) order1);
          matched = matchOverlaps fl {} {} overlaps
      in Option.bind (updatesOf fl embeddings order1 matched) (\<lambda>updated.
         Option.bind (birthsOf fl embeddings (set (map ov_newLabel matched)) order2) (\<lambda>born.
           Some \<lparr>di_Updated = updated, di_Born = born,
                 di_Died = filter (\<lambda>i. i \<notin> set (map ov_existingID matched)) (map kc_ID existing)\<rparr>)))"

end
