(* ===== verification/Clustering_Facts.thy ===== *)
theory Clustering_Facts
  imports Clustering
begin

text \<open>
  What clustering computes. The labels are shown to be those of the specification of density-based clustering: core
  points share a cluster exactly when a chain of core points connects them, every other point is in the cluster
  of a core point near it, or noise when there is none.
\<close>

section \<open>The neighbourhood relation\<close>

text \<open>What the clustering loops rely on: neighbours are points, and being one is symmetric.\<close>

definition symmetricNeighbours :: "nat \<Rightarrow> (nat \<Rightarrow> nat list) \<Rightarrow> bool" where
  "symmetricNeighbours n nbrs \<longleftrightarrow> (\<forall>p < n. \<forall>q \<in> set (nbrs p). q < n \<and> p \<in> set (nbrs q))"

lemma dotNorms_swap:
  assumes "\<And>x y. fl_mul fl x y = fl_mul fl y x"
  shows "dotNorms fl a b (d, m, n) = (d', m', n') \<Longrightarrow> dotNorms fl b a (d, n, m) = (d', n', m')"
proof (induction a b arbitrary: d m n rule: list_induct2')
  case (4 x xs y ys)
  then show ?case by (simp add: assms[of y x])
qed simp_all

lemma CosineDistance_commute:
  assumes "\<And>x y. fl_mul fl x y = fl_mul fl y x"
  shows "CosineDistance fl a b = CosineDistance fl b a"
proof -
  obtain d m n where abn: "dotNorms fl a b (fl_int fl 0, fl_int fl 0, fl_int fl 0) = (d, m, n)" using prod_cases3 by blast
  then have "dotNorms fl b a (fl_int fl 0, fl_int fl 0, fl_int fl 0) = (d, n, m)" by (rule dotNorms_swap[OF assms])
  with abn show ?thesis by (auto simp: CosineDistance_def Let_def assms[of "fl_sqrt fl m"])
qed

lemma rangeQuery_symmetric:
  assumes "\<And>x y. fl_mul fl x y = fl_mul fl y x"
  shows "symmetricNeighbours (length embeddings) (rangeQuery fl embeddings epsilon)"
  using CosineDistance_commute[OF assms] by (auto simp: symmetricNeighbours_def rangeQuery_def)

section \<open>The invariant of the loops\<close>

definition core :: "(nat \<Rightarrow> nat list) \<Rightarrow> int \<Rightarrow> nat \<Rightarrow> bool" where
  "core nbrs minPoints p \<longleftrightarrow> minPoints \<le> int (length (nbrs p))"

definition coreStep :: "(nat \<Rightarrow> nat list) \<Rightarrow> int \<Rightarrow> nat \<Rightarrow> nat rel" where
  "coreStep nbrs minPoints n = {(p, q). p < n \<and> q \<in> set (nbrs p) \<and> core nbrs minPoints p \<and> core nbrs minPoints q}"

text \<open>
  The invariant is about the labels as a function of the point. Labels are noise, undefined or a cluster below \<open>k\<close>;
  noise is not core; clusters are connected through core points; every other member is near a core point of its
  cluster, as every seed is.
\<close>

definition labelRange :: "nat \<Rightarrow> nat \<Rightarrow> (nat \<Rightarrow> int) \<Rightarrow> bool" where
  "labelRange n k F \<longleftrightarrow> (\<forall>p < n. F p = undefinedLabel \<or> F p = noiseLabel \<or> (0 \<le> F p \<and> F p < int k))"

definition noiseOK :: "(nat \<Rightarrow> bool) \<Rightarrow> nat \<Rightarrow> (nat \<Rightarrow> int) \<Rightarrow> bool" where
  "noiseOK C n F \<longleftrightarrow> (\<forall>p < n. F p = noiseLabel \<longrightarrow> \<not> C p)"

text \<open>An unlabelled neighbour of a labelled core point is in the seed of the newest cluster; labelled core neighbours share a label.\<close>

definition closedOK :: "(nat \<Rightarrow> nat list) \<Rightarrow> (nat \<Rightarrow> bool) \<Rightarrow> nat \<Rightarrow> nat \<Rightarrow> (nat \<Rightarrow> int) \<Rightarrow> nat list \<Rightarrow> bool" where
  "closedOK nbrs C n k F seed \<longleftrightarrow>
     (\<forall>p < n. C p \<and> 0 \<le> F p \<longrightarrow>
        (\<forall>q \<in> set (nbrs p). (F q < 0 \<longrightarrow> q \<in> set seed \<and> F p = int k - 1) \<and> (0 \<le> F q \<and> C q \<longrightarrow> F q = F p)))"

definition connectedOK :: "nat rel \<Rightarrow> (nat \<Rightarrow> bool) \<Rightarrow> nat \<Rightarrow> (nat \<Rightarrow> int) \<Rightarrow> bool" where
  "connectedOK R C n F \<longleftrightarrow> (\<forall>p < n. \<forall>q < n. C p \<and> C q \<and> 0 \<le> F p \<and> F p = F q \<longrightarrow> (p, q) \<in> R\<^sup>*)"

definition borderOK :: "(nat \<Rightarrow> nat list) \<Rightarrow> (nat \<Rightarrow> bool) \<Rightarrow> nat \<Rightarrow> (nat \<Rightarrow> int) \<Rightarrow> bool" where
  "borderOK nbrs C n F \<longleftrightarrow> (\<forall>p < n. 0 \<le> F p \<and> \<not> C p \<longrightarrow> (\<exists>q < n. C q \<and> F q = F p \<and> p \<in> set (nbrs q)))"

definition seedOK :: "(nat \<Rightarrow> nat list) \<Rightarrow> (nat \<Rightarrow> bool) \<Rightarrow> nat \<Rightarrow> nat \<Rightarrow> (nat \<Rightarrow> int) \<Rightarrow> nat list \<Rightarrow> bool" where
  "seedOK nbrs C n k F seed \<longleftrightarrow> (\<forall>p \<in> set seed. p < n \<and> (\<exists>q < n. C q \<and> F q = int k - 1 \<and> p \<in> set (nbrs q)))"

definition labelsOK :: "(nat \<Rightarrow> nat list) \<Rightarrow> int \<Rightarrow> nat \<Rightarrow> nat \<Rightarrow> (nat \<Rightarrow> int) \<Rightarrow> nat list \<Rightarrow> bool" where
  "labelsOK nbrs mp n k F seed \<longleftrightarrow>
     labelRange n k F \<and> noiseOK (core nbrs mp) n F \<and> closedOK nbrs (core nbrs mp) n k F seed
     \<and> connectedOK (coreStep nbrs mp n) (core nbrs mp) n F \<and> borderOK nbrs (core nbrs mp) n F
     \<and> seedOK nbrs (core nbrs mp) n k F seed"

lemmas labelsOK_parts = labelRange_def noiseOK_def closedOK_def connectedOK_def borderOK_def seedOK_def

lemma label_signs [simp]: "\<not> 0 \<le> undefinedLabel" "\<not> 0 \<le> noiseLabel" "undefinedLabel < 0" "noiseLabel < 0"
    "undefinedLabel \<noteq> noiseLabel" "noiseLabel \<noteq> undefinedLabel" "int c \<noteq> undefinedLabel" "int c \<noteq> noiseLabel"
  by (simp_all add: undefinedLabel_def noiseLabel_def)

lemma coreStep_sym:
  assumes "symmetricNeighbours n nbrs" and "(p, q) \<in> (coreStep nbrs mp n)\<^sup>*"
  shows "(q, p) \<in> (coreStep nbrs mp n)\<^sup>*"
proof -
  have "sym (coreStep nbrs mp n)" using assms(1) by (auto simp: sym_def coreStep_def symmetricNeighbours_def)
  then show ?thesis using assms(2) by (metis sym_rtrancl symD)
qed

lemma nth_update_fun: "q < length L \<Longrightarrow> (!) (L[q := v]) = ((!) L)(q := v)"
  by (auto simp: fun_eq_iff nth_list_update_neq)

text \<open>A labelled seed is dropped, a noise seed is labelled and dropped.\<close>

lemma labelsOK_skip: "labelsOK nbrs mp n k F (q # seed) \<Longrightarrow> 0 \<le> F q \<Longrightarrow> labelsOK nbrs mp n k F seed"
  unfolding labelsOK_def closedOK_def seedOK_def by (metis linorder_not_le list.set_intros(2) set_ConsD)

lemma labelsOK_noise:
  assumes ok: "labelsOK nbrs mp n (Suc c) F (q # seed)" and noise: "F q = noiseLabel"
  shows "labelsOK nbrs mp n (Suc c) (F(q := int c)) seed"
proof -
  have q: "q < n" "\<not> core nbrs mp q" using ok noise by (auto simp: labelsOK_def seedOK_def noiseOK_def)
  obtain r where r: "r < n" "core nbrs mp r" "F r = int c" "q \<in> set (nbrs r)" using ok by (auto simp: labelsOK_def seedOK_def)
  with q have "r \<noteq> q" by blast
  have parts: "labelRange n (Suc c) F" "noiseOK (core nbrs mp) n F" "closedOK nbrs (core nbrs mp) n (Suc c) F (q # seed)"
    "connectedOK (coreStep nbrs mp n) (core nbrs mp) n F" "borderOK nbrs (core nbrs mp) n F"
    "seedOK nbrs (core nbrs mp) n (Suc c) F (q # seed)" using ok by (simp_all add: labelsOK_def)
  have "labelRange n (Suc c) (F(q := int c))" using parts(1) by (simp add: labelRange_def)
  moreover have "noiseOK (core nbrs mp) n (F(q := int c))" using parts(2) q by (simp add: noiseOK_def)
  moreover have "closedOK nbrs (core nbrs mp) n (Suc c) (F(q := int c)) seed" using parts(3) q by (auto simp: closedOK_def)
  moreover have "connectedOK (coreStep nbrs mp n) (core nbrs mp) n (F(q := int c))" using parts(4) q by (auto simp: connectedOK_def)
  moreover have "borderOK nbrs (core nbrs mp) n (F(q := int c))" unfolding borderOK_def
  proof (intro allI impI)
    fix p assume p: "p < n" "0 \<le> (F(q := int c)) p \<and> \<not> core nbrs mp p"
    show "\<exists>x < n. core nbrs mp x \<and> (F(q := int c)) x = (F(q := int c)) p \<and> p \<in> set (nbrs x)"
    proof (cases "p = q")
      case True
      then show ?thesis using r \<open>r \<noteq> q\<close> by auto
    next
      case False
      then show ?thesis using parts(5) p q(2) unfolding borderOK_def by (metis fun_upd_other)
    qed
  qed
  moreover have "seedOK nbrs (core nbrs mp) n (Suc c) (F(q := int c)) seed" using parts(6) by (auto simp: seedOK_def)
  ultimately show ?thesis by (simp add: labelsOK_def)
qed

text \<open>An undefined seed joins the cluster; a core one brings its neighbours.\<close>

lemma labelsOK_join:
  assumes sym: "symmetricNeighbours n nbrs" and ok: "labelsOK nbrs mp n (Suc c) F (q # seed)" and undef: "F q = undefinedLabel"
  shows "labelsOK nbrs mp n (Suc c) (F(q := int c)) (if core nbrs mp q then seed @ nbrs q else seed)"
    (is "labelsOK _ _ _ _ ?F ?seed")
proof -
  let ?C = "core nbrs mp"
  have parts: "labelRange n (Suc c) F" "noiseOK ?C n F" "closedOK nbrs ?C n (Suc c) F (q # seed)"
    "connectedOK (coreStep nbrs mp n) ?C n F" "borderOK nbrs ?C n F" "seedOK nbrs ?C n (Suc c) F (q # seed)"
    using ok by (simp_all add: labelsOK_def)
  obtain r where r: "q < n" "r < n" "?C r" "F r = int c" "q \<in> set (nbrs r)" using parts(6) by (auto simp: seedOK_def)
  then have rq: "r \<noteq> q" using undef label_signs(7)[of c] by metis
  have near: "F p = int c" if "p < n" "?C p" "0 \<le> F p" "q \<in> set (nbrs p)" for p
    using parts(3) that undef unfolding closedOK_def by force
  have mirror: "p < n \<and> q \<in> set (nbrs p)" if "p \<in> set (nbrs q)" for p using sym r(1) that unfolding symmetricNeighbours_def by blast
  have "labelRange n (Suc c) ?F" using parts(1) by (simp add: labelRange_def)
  moreover have "noiseOK ?C n ?F" using parts(2) by (simp add: noiseOK_def)
  moreover have "closedOK nbrs ?C n (Suc c) ?F ?seed" unfolding closedOK_def
  proof (intro allI impI ballI conjI)
    fix p x assume p: "p < n" "?C p \<and> 0 \<le> ?F p" "x \<in> set (nbrs p)"
    show "x \<in> set ?seed" if "?F x < 0"
      using that p parts(3) unfolding closedOK_def by (cases "p = q") (auto split: if_splits)
    show "?F p = int (Suc c) - 1" if "?F x < 0"
      using that p parts(3) unfolding closedOK_def by (cases "p = q") (auto split: if_splits)
    show "?F x = ?F p" if "0 \<le> ?F x \<and> ?C x"
    proof (cases "p = q")
      case True
      then show ?thesis using near[of x] mirror[of x] that p by auto
    next
      case False
      then show ?thesis using near[of p] that p parts(3) unfolding closedOK_def by (auto split: if_splits)
    qed
  qed
  moreover have "connectedOK (coreStep nbrs mp n) ?C n ?F" unfolding connectedOK_def
  proof (intro allI impI)
    have to_q: "(p, q) \<in> (coreStep nbrs mp n)\<^sup>*" if "p < n" "?C p" "?C q" "F p = int c" for p
    proof -
      have "(p, r) \<in> (coreStep nbrs mp n)\<^sup>*" using parts(4) that r unfolding connectedOK_def by force
      moreover have "(r, q) \<in> coreStep nbrs mp n" using r that by (simp add: coreStep_def)
      ultimately show ?thesis by simp
    qed
    fix p x assume "p < n" "x < n" "?C p \<and> ?C x \<and> 0 \<le> ?F p \<and> ?F p = ?F x"
    then show "(p, x) \<in> (coreStep nbrs mp n)\<^sup>*"
      using to_q[of p] coreStep_sym[OF sym to_q[of x]] parts(4) unfolding connectedOK_def by (auto split: if_splits)
  qed
  moreover have "borderOK nbrs ?C n ?F" unfolding borderOK_def
  proof (intro allI impI)
    fix p assume p: "p < n" "0 \<le> ?F p \<and> \<not> ?C p"
    show "\<exists>x < n. ?C x \<and> ?F x = ?F p \<and> p \<in> set (nbrs x)"
    proof (cases "p = q")
      case True
      then show ?thesis using r rq by auto
    next
      case False
      then obtain x where x: "x < n" "?C x" "F x = F p" "p \<in> set (nbrs x)" using parts(5) p unfolding borderOK_def by auto
      then have "x \<noteq> q" using p False undef by auto
      with x False show ?thesis by auto
    qed
  qed
  moreover have "seedOK nbrs ?C n (Suc c) ?F ?seed" unfolding seedOK_def
  proof
    fix p assume p: "p \<in> set ?seed"
    show "p < n \<and> (\<exists>x < n. ?C x \<and> ?F x = int (Suc c) - 1 \<and> p \<in> set (nbrs x))"
    proof (cases "p \<in> set seed")
      case True
      then obtain x where "p < n" "x < n" "?C x" "F x = int c" "p \<in> set (nbrs x)" using parts(6) by (auto simp: seedOK_def)
      then show ?thesis by (intro conjI exI[of _ x]) auto
    next
      case False
      then show ?thesis using p r(1) mirror[of p] by (intro conjI exI[of _ q]) (auto split: if_splits)
    qed
  qed
  ultimately show ?thesis by (simp add: labelsOK_def)
qed

section \<open>The loops\<close>

lemma seedLoop_OK:
  "symmetricNeighbours n nbrs \<Longrightarrow> length L = n \<Longrightarrow> labelsOK nbrs mp n (Suc c) ((!) L) seed \<Longrightarrow>
    \<exists>L'. seedLoop nbrs mp c L seed = Some L' \<and> length L' = n \<and> labelsOK nbrs mp n (Suc c) ((!) L') []
       \<and> (\<forall>p < n. L ! p \<noteq> undefinedLabel \<longrightarrow> L' ! p \<noteq> undefinedLabel)"
proof (induction nbrs mp c L seed rule: seedLoop.induct)
  case (1 nbrs mp c L)
  then show ?case by auto
next
  case (2 nbrs mp c L q seed)
  note ok = 2(5)
  have q: "q < n" "q < length L" using ok 2(4) by (auto simp: labelsOK_def seedOK_def)
  consider "L ! q = noiseLabel" | "0 \<le> L ! q" | "L ! q = undefinedLabel"
    using ok q by (auto simp: labelsOK_def labelRange_def)
  then show ?case
  proof cases
    case 1
    have next_ok: "labelsOK nbrs mp n (Suc c) ((!) (L[q := int c])) seed"
      using labelsOK_noise[OF ok 1] q by (simp add: nth_update_fun)
    then obtain L' where "seedLoop nbrs mp c (L[q := int c]) seed = Some L'" "length L' = n" "labelsOK nbrs mp n (Suc c) ((!) L') []"
        "\<forall>p < n. L[q := int c] ! p \<noteq> undefinedLabel \<longrightarrow> L' ! p \<noteq> undefinedLabel"
      using 2(1)[OF _ refl _ 2(3)] 1 q 2(4) by auto
    then show ?thesis using 1 q by (auto simp: nth_list_update Let_def)
  next
    case 2
    then have d: "L ! q \<noteq> noiseLabel" "L ! q \<noteq> undefinedLabel" by auto
    have "labelsOK nbrs mp n (Suc c) ((!) L) seed" by (rule labelsOK_skip[OF ok 2])
    then show ?thesis using "2.IH"(1)[OF _ refl _ "2.prems"(1)] d q "2.prems"(2) by (auto simp: Let_def)
  next
    case 3
    then have d: "L ! q \<noteq> noiseLabel" by simp
    have "labelsOK nbrs mp n (Suc c) ((!) (L[q := int c])) (if mp \<le> int (length (nbrs q)) then seed @ nbrs q else seed)"
      using labelsOK_join[OF 2(3) ok 3] q by (simp add: nth_update_fun core_def)
    then obtain L' where "seedLoop nbrs mp c (L[q := int c]) (if mp \<le> int (length (nbrs q)) then seed @ nbrs q else seed) = Some L'"
        "length L' = n" "labelsOK nbrs mp n (Suc c) ((!) L') []"
        "\<forall>p < n. L[q := int c] ! p \<noteq> undefinedLabel \<longrightarrow> L' ! p \<noteq> undefinedLabel"
      using 2(2)[OF _ refl _ refl refl 2(3)] d 3 q 2(4) by auto
    then show ?thesis using d 3 q by (auto simp: nth_list_update Let_def)
  qed
qed

lemma labelsOK_start:
  assumes sym: "symmetricNeighbours n nbrs" and ok: "labelsOK nbrs mp n c F []" and i: "i < n" "F i = undefinedLabel"
  shows "core nbrs mp i \<Longrightarrow> labelsOK nbrs mp n (Suc c) (F(i := int c)) (filter (\<lambda>nb. nb \<noteq> i) (nbrs i))"
    and "\<not> core nbrs mp i \<Longrightarrow> labelsOK nbrs mp n c (F(i := noiseLabel)) []"
proof -
  let ?C = "core nbrs mp"
  have parts: "labelRange n c F" "noiseOK ?C n F" "closedOK nbrs ?C n c F []"
    "connectedOK (coreStep nbrs mp n) ?C n F" "borderOK nbrs ?C n F" using ok by (simp_all add: labelsOK_def)
  have far: "i \<notin> set (nbrs p)" if "p < n" "?C p" "0 \<le> F p" for p
    using parts(3) that i unfolding closedOK_def by fastforce
  have mirror: "p < n \<and> i \<in> set (nbrs p)" if "p \<in> set (nbrs i)" for p using sym i(1) that unfolding symmetricNeighbours_def by blast
  have below: "F p \<noteq> int c" if "p < n" for p
    using parts(1) that label_signs(7,8)[of c] unfolding labelRange_def by (metis less_irrefl)
  have closed: "F x \<ge> 0 \<and> (?C x \<longrightarrow> F x = F p)" if "p < n" "?C p" "0 \<le> F p" "x \<in> set (nbrs p)" for p x
    using parts(3) that unfolding closedOK_def by fastforce
  have border: "\<exists>x < n. ?C x \<and> (F(i := v)) x = (F(i := v)) p \<and> p \<in> set (nbrs x)"
    if p: "p < n" "p \<noteq> i" "0 \<le> (F(i := v)) p \<and> \<not> ?C p" for p v
  proof -
    obtain x where x: "x < n" "?C x" "F x = F p" "p \<in> set (nbrs x)" using parts(5) p unfolding borderOK_def by auto
    then have "x \<noteq> i" using p i(2) by auto
    with x p(2) show ?thesis by auto
  qed
  show "labelsOK nbrs mp n c (F(i := noiseLabel)) []" if "\<not> ?C i"
    unfolding labelsOK_def
  proof (intro conjI)
    show "closedOK nbrs ?C n c (F(i := noiseLabel)) []" unfolding closedOK_def
    proof (intro allI impI ballI)
      fix p x assume p: "p < n" "?C p \<and> 0 \<le> (F(i := noiseLabel)) p" and x: "x \<in> set (nbrs p)"
      then have "p \<noteq> i" "x \<noteq> i" using far[of p] by (auto split: if_splits)
      then show "((F(i := noiseLabel)) x < 0 \<longrightarrow> x \<in> set [] \<and> (F(i := noiseLabel)) p = int c - 1)
          \<and> (0 \<le> (F(i := noiseLabel)) x \<and> ?C x \<longrightarrow> (F(i := noiseLabel)) x = (F(i := noiseLabel)) p)"
        using p x closed[of p x] by auto
    qed
    show "borderOK nbrs ?C n (F(i := noiseLabel))" unfolding borderOK_def using border by (metis fun_upd_same label_signs(2))
  qed (use parts that in \<open>auto simp: labelRange_def noiseOK_def connectedOK_def seedOK_def\<close>)
  show "labelsOK nbrs mp n (Suc c) (F(i := int c)) (filter (\<lambda>nb. nb \<noteq> i) (nbrs i))" if "?C i"
    unfolding labelsOK_def
  proof (intro conjI)
    show "labelRange n (Suc c) (F(i := int c))" using parts(1) by (fastforce simp: labelRange_def)
    show "closedOK nbrs ?C n (Suc c) (F(i := int c)) (filter (\<lambda>nb. nb \<noteq> i) (nbrs i))" unfolding closedOK_def
    proof (intro allI impI ballI)
      fix p x assume p: "p < n" "?C p \<and> 0 \<le> (F(i := int c)) p" and x: "x \<in> set (nbrs p)"
      show "((F(i := int c)) x < 0 \<longrightarrow> x \<in> set (filter (\<lambda>nb. nb \<noteq> i) (nbrs i)) \<and> (F(i := int c)) p = int (Suc c) - 1)
          \<and> (0 \<le> (F(i := int c)) x \<and> ?C x \<longrightarrow> (F(i := int c)) x = (F(i := int c)) p)"
      proof (cases "p = i")
        case True
        then show ?thesis using x mirror[of x] far[of x] by auto
      next
        case False
        then show ?thesis using p x closed[of p x] far[of p] by auto
      qed
    qed
    show "connectedOK (coreStep nbrs mp n) ?C n (F(i := int c))" unfolding connectedOK_def
      using parts(4) below unfolding connectedOK_def by (metis fun_upd_apply rtrancl.rtrancl_refl)
    show "borderOK nbrs ?C n (F(i := int c))" unfolding borderOK_def using border that by metis
    show "seedOK nbrs ?C n (Suc c) (F(i := int c)) (filter (\<lambda>nb. nb \<noteq> i) (nbrs i))"
      using mirror i(1) that by (auto simp: seedOK_def)
  qed (use parts that in \<open>auto simp: noiseOK_def\<close>)
qed

lemma pointLoop_OK:
  assumes sym: "symmetricNeighbours n nbrs"
  shows "length L = n \<Longrightarrow> labelsOK nbrs mp n c ((!) L) [] \<Longrightarrow> set points \<subseteq> {0..<n} \<Longrightarrow>
    (\<forall>p < n. p \<in> set points \<or> L ! p \<noteq> undefinedLabel) \<Longrightarrow>
    \<exists>L' k. pointLoop nbrs mp points c L = Some L' \<and> length L' = n \<and> labelsOK nbrs mp n k ((!) L') []
      \<and> (\<forall>p < n. L' ! p \<noteq> undefinedLabel)"
proof (induction points arbitrary: c L)
  case (Cons i points)
  have i: "i < n" "i < length L" using Cons.prems by auto
  show ?case
  proof (cases "L ! i = undefinedLabel")
    case False
    then show ?thesis using Cons by auto
  next
    case u: True
    note start = labelsOK_start[OF sym Cons.prems(2) i(1) u]
    show ?thesis
    proof (cases "core nbrs mp i")
      case False
      then have "labelsOK nbrs mp n c ((!) (L[i := noiseLabel])) []" unfolding nth_update_fun[OF i(2)] by (rule start(2))
      moreover have "\<forall>p < n. p \<in> set points \<or> L[i := noiseLabel] ! p \<noteq> undefinedLabel"
        using Cons.prems(4) i by (auto simp: nth_list_update)
      ultimately have "\<exists>L' k. pointLoop nbrs mp points c (L[i := noiseLabel]) = Some L' \<and> length L' = n
          \<and> labelsOK nbrs mp n k ((!) L') [] \<and> (\<forall>p < n. L' ! p \<noteq> undefinedLabel)"
        using Cons.IH[of "L[i := noiseLabel]" c] Cons.prems(1,3) by simp
      then show ?thesis using False u by (simp add: core_def)
    next
      case True
      then obtain L1 where L1: "seedLoop nbrs mp c (L[i := int c]) (filter (\<lambda>nb. nb \<noteq> i) (nbrs i)) = Some L1" "length L1 = n"
          "labelsOK nbrs mp n (Suc c) ((!) L1) []" "\<forall>p < n. L[i := int c] ! p \<noteq> undefinedLabel \<longrightarrow> L1 ! p \<noteq> undefinedLabel"
        using seedLoop_OK[OF sym, of "L[i := int c]" mp c "filter (\<lambda>nb. nb \<noteq> i) (nbrs i)"] start(1) Cons.prems(1) i
        by (auto simp: nth_update_fun)
      have "\<forall>p < n. p \<in> set points \<or> L1 ! p \<noteq> undefinedLabel"
        using Cons.prems(4) L1(4) i by (metis label_signs(7) nth_list_update_eq nth_list_update_neq set_ConsD)
      then show ?thesis using Cons.IH[OF L1(2,3)] Cons.prems(3) L1(1) u True by (auto simp: core_def)
    qed
  qed
qed auto

section \<open>Grouping by label\<close>

definition labelled :: "int list \<Rightarrow> nat \<Rightarrow> int \<Rightarrow> nat list" where
  "labelled L i c = filter (\<lambda>p. L ! p = c) [0..<i]"

lemma labelled_Suc: "labelled L (Suc i) c = labelled L i c @ (if L ! i = c then [i] else [])"
  by (simp add: labelled_def)

lemma addMember_keys: "set (map fst (addMember l i m)) = insert l (set (map fst m))"
  by (induction l i m rule: addMember.induct) auto

lemma addMember_distinct: "distinct (map fst m) \<Longrightarrow> distinct (map fst (addMember l i m))"
proof (induction l i m rule: addMember.induct)
  case (2 l i k ms m)
  then show ?case using addMember_keys[of l i m] by auto
qed simp

lemma addMember_map_of:
  "distinct (map fst m) \<Longrightarrow> map_of (addMember l i m) = (map_of m)(l \<mapsto> (case map_of m l of None \<Rightarrow> [i] | Some ms \<Rightarrow> ms @ [i]))"
  by (induction l i m rule: addMember.induct) (auto simp: fun_eq_iff)

definition groupedTo :: "int list \<Rightarrow> nat \<Rightarrow> ClusterResult \<Rightarrow> bool" where
  "groupedTo L i result \<longleftrightarrow>
     cl_Noise result = labelled L i noiseLabel \<and> distinct (map fst (cl_Clusters result))
     \<and> (\<forall>c. map_of (cl_Clusters result) c = (if c = noiseLabel \<or> labelled L i c = [] then None else Some (labelled L i c)))"

lemma groupedTo_step:
  assumes "groupedTo L i result"
  shows "groupedTo L (Suc i) (if L ! i = noiseLabel then result\<lparr>cl_Noise := cl_Noise result @ [i]\<rparr>
     else result\<lparr>cl_Clusters := addMember (L ! i) i (cl_Clusters result)\<rparr>)"
  using assms by (auto simp: groupedTo_def labelled_Suc addMember_distinct addMember_map_of)

lemma collectLabels_grouped:
  "groupedTo L i result \<Longrightarrow> i \<le> length L \<Longrightarrow> groupedTo L (length L) (collectLabels i (drop i L) result)"
proof (induction "length L - i" arbitrary: i result)
  case 0
  then show ?case by simp
next
  case (Suc k)
  then have d: "drop i L = L ! i # drop (Suc i) L" by (simp add: Cons_nth_drop_Suc)
  show ?case using Suc(1)[OF _ groupedTo_step[OF Suc(3)]] Suc(2) unfolding d by simp
qed

section \<open>The specification of density-based clustering\<close>

definition inCluster :: "ClusterResult \<Rightarrow> int \<Rightarrow> nat \<Rightarrow> bool" where
  "inCluster result c p \<longleftrightarrow> (\<exists>members. (c, members) \<in> set (cl_Clusters result) \<and> p \<in> set members)"

text \<open>
  Every point is noise or in exactly one cluster; noise is what is neither core nor near a core point; two core points
  share a cluster exactly when core points connect them; every other member is near a core point of its cluster.
\<close>

definition densityClustering :: "nat \<Rightarrow> (nat \<Rightarrow> nat list) \<Rightarrow> int \<Rightarrow> ClusterResult \<Rightarrow> bool" where
  "densityClustering n nbrs mp result \<longleftrightarrow>
     distinct (map fst (cl_Clusters result))
     \<and> (\<forall>p. p \<in> set (cl_Noise result) \<longleftrightarrow> p < n \<and> \<not> core nbrs mp p \<and> (\<forall>q < n. core nbrs mp q \<longrightarrow> p \<notin> set (nbrs q)))
     \<and> (\<forall>p c. inCluster result c p \<longrightarrow> p < n \<and> p \<notin> set (cl_Noise result))
     \<and> (\<forall>p < n. p \<notin> set (cl_Noise result) \<longrightarrow> (\<exists>!c. inCluster result c p))
     \<and> (\<forall>p < n. \<forall>q < n. core nbrs mp p \<and> core nbrs mp q \<longrightarrow>
          ((\<exists>c. inCluster result c p \<and> inCluster result c q) \<longleftrightarrow> (p, q) \<in> (coreStep nbrs mp n)\<^sup>*))
     \<and> (\<forall>p c. inCluster result c p \<and> \<not> core nbrs mp p \<longrightarrow> (\<exists>q. inCluster result c q \<and> core nbrs mp q \<and> p \<in> set (nbrs q)))"

lemma grouped_inCluster:
  assumes "groupedTo L (length L) result"
  shows "inCluster result c p \<longleftrightarrow> p < length L \<and> L ! p = c \<and> c \<noteq> noiseLabel"
    and "p \<in> set (cl_Noise result) \<longleftrightarrow> p < length L \<and> L ! p = noiseLabel"
proof -
  have "(c, ms) \<in> set (cl_Clusters result) \<longleftrightarrow> c \<noteq> noiseLabel \<and> labelled L (length L) c \<noteq> [] \<and> ms = labelled L (length L) c" for ms
    using assms map_of_eq_Some_iff[of "cl_Clusters result" c ms] by (auto simp: groupedTo_def split: if_splits)
  then show "inCluster result c p \<longleftrightarrow> p < length L \<and> L ! p = c \<and> c \<noteq> noiseLabel"
    by (auto simp: inCluster_def labelled_def filter_empty_conv)
  show "p \<in> set (cl_Noise result) \<longleftrightarrow> p < length L \<and> L ! p = noiseLabel"
    using assms by (auto simp: groupedTo_def labelled_def)
qed

lemma core_labels_closed:
  assumes "labelsOK nbrs mp n k F []" and "(p, q) \<in> (coreStep nbrs mp n)\<^sup>*" and "0 \<le> F p" and "core nbrs mp p" and "p < n"
    and "symmetricNeighbours n nbrs"
  shows "F q = F p \<and> core nbrs mp q \<and> q < n"
  using assms(2)
proof (induction rule: rtrancl_induct)
  case (step y z)
  then have "z \<in> set (nbrs y)" "core nbrs mp z" by (auto simp: coreStep_def)
  then show ?case using step.IH assms(1,3,6) unfolding labelsOK_def closedOK_def symmetricNeighbours_def
    by (metis empty_iff empty_set linorder_not_le)
qed (use assms in simp)

lemma labels_density:
  assumes sym: "symmetricNeighbours n nbrs" and len: "length L = n" and ok: "labelsOK nbrs mp n k ((!) L) []"
    and all: "\<forall>p < n. L ! p \<noteq> undefinedLabel" and res: "groupedTo L (length L) result"
  shows "densityClustering n nbrs mp result"
proof -
  let ?C = "core nbrs mp"
  note G = grouped_inCluster[OF res, unfolded len]
  have pos: "0 \<le> L ! p \<longleftrightarrow> L ! p \<noteq> noiseLabel" if "p < n" for p
    using ok all that by (auto simp: labelsOK_def labelRange_def)
  have core_pos: "0 \<le> L ! p" if "p < n" "?C p" for p using ok that pos by (auto simp: labelsOK_def noiseOK_def)
  have noise: "L ! p = noiseLabel \<longleftrightarrow> \<not> ?C p \<and> (\<forall>q < n. ?C q \<longrightarrow> p \<notin> set (nbrs q))" if p: "p < n" for p
  proof
    assume l: "L ! p = noiseLabel"
    have "L ! p \<ge> 0" if "q < n" "?C q" "p \<in> set (nbrs q)" for q
      using ok core_pos[OF that(1,2)] that unfolding labelsOK_def closedOK_def by (metis empty_iff empty_set linorder_not_le)
    then show "\<not> ?C p \<and> (\<forall>q < n. ?C q \<longrightarrow> p \<notin> set (nbrs q))" using l core_pos[OF p] by auto
  next
    assume "\<not> ?C p \<and> (\<forall>q < n. ?C q \<longrightarrow> p \<notin> set (nbrs q))"
    then show "L ! p = noiseLabel" using ok pos[OF p] p unfolding labelsOK_def borderOK_def by blast
  qed
  have same: "L ! p = L ! q \<longleftrightarrow> (p, q) \<in> (coreStep nbrs mp n)\<^sup>*" if "p < n" "q < n" "?C p" "?C q" for p q
    using ok core_pos[OF that(1,3)] core_labels_closed[OF ok _ _ that(3,1) sym] that unfolding labelsOK_def connectedOK_def by metis
  have border: "\<exists>q < n. L ! q = L ! p \<and> ?C q \<and> p \<in> set (nbrs q)" if "p < n" "L ! p \<noteq> noiseLabel" "\<not> ?C p" for p
    using ok pos[OF that(1)] that unfolding labelsOK_def borderOK_def by blast
  show ?thesis unfolding densityClustering_def G
  proof (intro conjI)
    show "distinct (map fst (cl_Clusters result))" using res by (simp add: groupedTo_def)
    show "\<forall>p. (p < n \<and> L ! p = noiseLabel) = (p < n \<and> \<not> ?C p \<and> (\<forall>q < n. ?C q \<longrightarrow> p \<notin> set (nbrs q)))" using noise by blast
    show "\<forall>p < n. \<forall>q < n. ?C p \<and> ?C q \<longrightarrow> ((\<exists>c. (p < n \<and> L ! p = c \<and> c \<noteq> noiseLabel) \<and> q < n \<and> L ! q = c \<and> c \<noteq> noiseLabel)
        = ((p, q) \<in> (coreStep nbrs mp n)\<^sup>*))" using same core_pos pos by metis
    show "\<forall>p c. (p < n \<and> L ! p = c \<and> c \<noteq> noiseLabel) \<and> \<not> ?C p \<longrightarrow>
        (\<exists>q. (q < n \<and> L ! q = c \<and> c \<noteq> noiseLabel) \<and> ?C q \<and> p \<in> set (nbrs q))" using border by blast
  qed auto
qed

lemma RunDBSCAN_labels:
  assumes "\<And>x y. fl_mul fl x y = fl_mul fl y x"
  obtains L k result where "RunDBSCAN fl embeddings cfg = Some result" "length L = length embeddings" "groupedTo L (length L) result"
    "labelsOK (rangeQuery fl embeddings (db_Epsilon cfg)) (db_MinPoints cfg) (length embeddings) k ((!) L) []"
    "\<forall>p < length embeddings. L ! p \<noteq> undefinedLabel"
proof -
  let ?n = "length embeddings" and ?N = "rangeQuery fl embeddings (db_Epsilon cfg)" and ?mp = "db_MinPoints cfg"
  let ?L = "replicate ?n undefinedLabel"
  have start: "labelsOK ?N ?mp ?n 0 ((!) ?L) []" by (simp add: labelsOK_def labelsOK_parts)
  obtain L k where L: "pointLoop ?N ?mp [0..<?n] 0 ?L = Some L" "length L = ?n" "labelsOK ?N ?mp ?n k ((!) L) []"
      "\<forall>p < ?n. L ! p \<noteq> undefinedLabel"
    using pointLoop_OK[OF rangeQuery_symmetric[OF assms] _ start, of "[0..<?n]"] by auto
  have "groupedTo L 0 \<lparr>cl_Clusters = [], cl_Noise = []\<rparr>" by (simp add: groupedTo_def labelled_def)
  then have res: "groupedTo L (length L) (collectLabels 0 L \<lparr>cl_Clusters = [], cl_Noise = []\<rparr>)"
    using collectLabels_grouped[of L 0] by simp
  have "RunDBSCAN fl embeddings cfg = Some (collectLabels 0 L \<lparr>cl_Clusters = [], cl_Noise = []\<rparr>)"
    using L(1,2) by (auto simp: RunDBSCAN_def Let_def)
  then show thesis using that L(2-4) res by blast
qed

lemma grouped_members:
  assumes "groupedTo L n result" and "(c, members) \<in> set (cl_Clusters result)"
  shows "members = labelled L n c"
  using assms map_of_eq_Some_iff[of "cl_Clusters result" c members] by (auto simp: groupedTo_def split: if_splits)

text \<open>
  C19 (dbscan_correct): clustering never fails and its result is the density-based clustering of the embeddings: every
  point is noise or in exactly one cluster, core points share a cluster exactly when a chain of near core points connects
  them, the other members are near a core point of their cluster, and noise is near no core point.
\<close>

theorem dbscan_correct:
  assumes "\<And>x y. fl_mul fl x y = fl_mul fl y x"
  shows "\<exists>result. RunDBSCAN fl embeddings cfg = Some result
     \<and> densityClustering (length embeddings) (rangeQuery fl embeddings (db_Epsilon cfg)) (db_MinPoints cfg) result"
proof (rule RunDBSCAN_labels[OF assms])
  fix L k result
  assume "RunDBSCAN fl embeddings cfg = Some result" "length L = length embeddings" "groupedTo L (length L) result"
    "labelsOK (rangeQuery fl embeddings (db_Epsilon cfg)) (db_MinPoints cfg) (length embeddings) k ((!) L) []"
    "\<forall>p < length embeddings. L ! p \<noteq> undefinedLabel"
  then show ?thesis using labels_density[OF rangeQuery_symmetric[OF assms]] by blast
qed

text \<open>Arithmetic on the integers, enough for unit vectors along the axes.\<close>

definition intFloats :: "int Floats" where
  "intFloats = \<lparr>fl_add = (+), fl_sub = (-), fl_mul = (*), fl_div = (div), fl_sqrt = id, fl_eq = (=), fl_less = (<), fl_le = (\<le>),
     fl_int = id, fl_half = 1, fl_float32 = id\<rparr>"

theorem dbscan_correct_witness:
  "\<exists>result. RunDBSCAN intFloats [[1, 0], [1, 0], [0, 1], [1, 0]] \<lparr>db_Epsilon = 0, db_MinPoints = 3\<rparr> = Some result
     \<and> densityClustering 4 (rangeQuery intFloats [[1, 0], [1, 0], [0, 1], [1, 0]] 0) 3 result
     \<and> result = \<lparr>cl_Clusters = [(0, [0, 1, 3])], cl_Noise = [2]\<rparr>"
proof -
  have "RunDBSCAN intFloats [[1, 0], [1, 0], [0, 1], [1, 0]] \<lparr>db_Epsilon = 0, db_MinPoints = 3\<rparr>
      = Some \<lparr>cl_Clusters = [(0, [0, 1, 3])], cl_Noise = [2]\<rparr>" by code_simp
  then show ?thesis
    using dbscan_correct[of intFloats "[[1, 0], [1, 0], [0, 1], [1, 0]]" "\<lparr>db_Epsilon = 0, db_MinPoints = 3\<rparr>"]
    by (simp add: intFloats_def mult.commute numeral_eq_Suc)
qed

end
