(* ===== verification/Cluster_Runs.thy ===== *)
theory Cluster_Runs
  imports Clustering_Facts
begin

text \<open>
  The clustering run of a user (\<open>clusterUser\<close> in \<open>internal/knowledge/clusterer.go\<close>) over the tables of
  \<open>internal/knowledge/postgres_store.go\<close>. The run is not one transaction: an error leaves what was written before it. The
  time at which a cluster is written, the new ids, the texts of the sources and the keyword extraction are arguments.
\<close>

section \<open>The tables\<close>

record 'f StoredCluster =
  sc_ID :: uuid
  sc_UserID :: string
  sc_Label :: string
  sc_Keywords :: "string list"
  sc_Centroid :: "'f list"
  sc_MemberCount :: nat
  sc_Trend :: int
  sc_SourceType :: int
  sc_CreatedAt :: time
  sc_UpdatedAt :: time

record 'f StoredClusterMember =
  ms_ClusterID :: uuid
  ms_SourceID :: uuid
  ms_SourceType :: int
  ms_Distance :: 'f

record 'f knowledge =
  kn_clusters :: "'f StoredCluster list"
  kn_members :: "'f StoredClusterMember list"

definition insertMembers :: "'f knowledge \<Rightarrow> uuid \<Rightarrow> 'f StoredClusterMember list \<Rightarrow> 'f knowledge \<times> unit result" where
  "insertMembers kn clusterID members =
     (let rows = map (\<lambda>m. m\<lparr>ms_ClusterID := clusterID\<rparr>) members;
          keys = map (\<lambda>m. (ms_ClusterID m, ms_SourceID m)) (kn_members kn @ rows)
      in if members = [] then (kn, Inr ())
         else if \<not> distinct keys then (kn, Inl (InternalError ''duplicate key value''))
         else (kn\<lparr>kn_members := kn_members kn @ rows\<rparr>, Inr ()))"

definition SaveCluster :: "'f knowledge \<Rightarrow> time \<Rightarrow> 'f StoredCluster \<Rightarrow> 'f StoredClusterMember list \<Rightarrow> 'f knowledge \<times> unit result" where
  "SaveCluster kn now cluster members =
     (let row = cluster\<lparr>sc_CreatedAt := now, sc_UpdatedAt := now\<rparr>
      in if sc_ID cluster \<in> sc_ID ` set (kn_clusters kn) then (kn, Inl (InternalError ''duplicate key value''))
         else insertMembers (kn\<lparr>kn_clusters := kn_clusters kn @ [row]\<rparr>) (sc_ID cluster) members)"

definition updateColumns :: "time \<Rightarrow> 'f StoredCluster \<Rightarrow> 'f StoredCluster \<Rightarrow> 'f StoredCluster" where
  "updateColumns now cluster row =
     row\<lparr>sc_Label := sc_Label cluster, sc_Keywords := sc_Keywords cluster, sc_Centroid := sc_Centroid cluster,
         sc_MemberCount := sc_MemberCount cluster, sc_Trend := sc_Trend cluster, sc_SourceType := sc_SourceType cluster,
         sc_UpdatedAt := now\<rparr>"

text \<open>\<open>members = nil\<close>, here \<open>None\<close>, keeps the members.\<close>

definition UpdateCluster ::
  "'f knowledge \<Rightarrow> time \<Rightarrow> 'f StoredCluster \<Rightarrow> 'f StoredClusterMember list option \<Rightarrow> 'f knowledge \<times> unit result" where
  "UpdateCluster kn now cluster members =
     (let kn1 = kn\<lparr>kn_clusters := map (\<lambda>r. if sc_ID r = sc_ID cluster then updateColumns now cluster r else r) (kn_clusters kn)\<rparr>
      in case members of
           None \<Rightarrow> (kn1, Inr ())
         | Some ms \<Rightarrow>
             insertMembers (kn1\<lparr>kn_members := filter (\<lambda>m. ms_ClusterID m \<noteq> sc_ID cluster) (kn_members kn1)\<rparr>) (sc_ID cluster) ms)"

definition DeleteCluster :: "'f knowledge \<Rightarrow> uuid \<Rightarrow> 'f knowledge \<times> unit result" where
  "DeleteCluster kn clusterID =
     (kn\<lparr>kn_clusters := filter (\<lambda>r. sc_ID r \<noteq> clusterID) (kn_clusters kn),
         kn_members := filter (\<lambda>m. ms_ClusterID m \<noteq> clusterID) (kn_members kn)\<rparr>, Inr ())"

text \<open>The query has no \<open>ORDER BY\<close>; the model reads the rows in table order, one of the orders a database may choose.\<close>

definition LoadClustersForUser :: "'f knowledge \<Rightarrow> string \<Rightarrow> ('f StoredCluster \<times> 'f StoredClusterMember list) list" where
  "LoadClustersForUser kn userID =
     map (\<lambda>row. (row, filter (\<lambda>m. ms_ClusterID m = sc_ID row) (kn_members kn)))
       (if userID \<noteq> [] then filter (\<lambda>row. sc_UserID row = userID) (kn_clusters kn) else kn_clusters kn)"

section \<open>The run\<close>

record 'f EmbeddingRecord =
  em_SourceID :: uuid
  em_SourceType :: int
  em_UserID :: string
  em_Embedding :: "'f list"

definition buildMembers ::
  "'f Floats \<Rightarrow> uuid \<Rightarrow> nat list \<Rightarrow> 'f list list \<Rightarrow> uuid list \<Rightarrow> 'f EmbeddingRecord list \<Rightarrow> 'f list \<Rightarrow> 'f StoredClusterMember list" where
  "buildMembers fl clusterID indices embeddings sourceIDs records centroid =
     map (\<lambda>idx. \<lparr>ms_ClusterID = clusterID, ms_SourceID = sourceIDs ! idx, ms_SourceType = em_SourceType (records ! idx),
                 ms_Distance = fl_float32 fl (CosineDistance fl (embeddings ! idx) centroid)\<rparr>)
       (filter (\<lambda>idx. idx < length records) indices)"

definition inferSourceType :: "nat list \<Rightarrow> 'f EmbeddingRecord list \<Rightarrow> int" where
  "inferSourceType indices records =
     (let types = map (\<lambda>idx. em_SourceType (records ! idx)) (filter (\<lambda>idx. idx < length records) indices);
          hasEntry = list_ex (\<lambda>t. t = 0) types; hasMemory = list_ex (\<lambda>t. t \<noteq> 0) types
      in if hasEntry \<and> hasMemory then 2 else if hasMemory then 1 else 0)"

definition computeTrend :: "('f StoredCluster \<times> 'm) list \<Rightarrow> uuid \<Rightarrow> time \<Rightarrow> time \<Rightarrow> int" where
  "computeTrend existing clusterID now decay =
     (case List.find (\<lambda>(sc, _). sc_ID sc = clusterID) existing of
        None \<Rightarrow> 0
      | Some (sc, _) \<Rightarrow> if now - sc_UpdatedAt sc > decay then 2 else 0)"

text \<open>A loop of writes: it stops at the first error and counts the ones that succeeded.\<close>

fun applyWrites :: "('s \<Rightarrow> 'a \<Rightarrow> 's \<times> unit result) \<Rightarrow> 'a list \<Rightarrow> 's \<Rightarrow> 's \<times> nat \<times> unit result" where
  "applyWrites f [] s = (s, 0, Inr ())"
| "applyWrites f (x # xs) s =
     (case f s x of
        (s', Inl err) \<Rightarrow> (s', 0, Inl err)
      | (s', Inr _) \<Rightarrow> (case applyWrites f xs s' of (s'', n, r) \<Rightarrow> (s'', Suc n, r)))"

record 'f Run =
  run_fl :: "'f Floats"
  run_records :: "'f EmbeddingRecord list"
  run_userID :: string
  run_clock :: "uuid \<Rightarrow> time"
  run_now :: time
  run_decay :: time

definition runEmbeddings :: "'f Run \<Rightarrow> 'f list list" where
  "runEmbeddings run = map em_Embedding (run_records run)"

definition runSourceIDs :: "'f Run \<Rightarrow> uuid list" where
  "runSourceIDs run = map em_SourceID (run_records run)"

definition bornCluster :: "'f Run \<Rightarrow> 'f knowledge \<Rightarrow> uuid \<times> 'f ClusterBirth \<Rightarrow> 'f knowledge \<times> unit result" where
  "bornCluster run kn birth =
     (case birth of (clusterID, b) \<Rightarrow>
        SaveCluster kn (run_clock run clusterID)
          \<lparr>sc_ID = clusterID, sc_UserID = run_userID run, sc_Label = [], sc_Keywords = [], sc_Centroid = cb_Centroid b,
           sc_MemberCount = length (cb_Members b), sc_Trend = 0, sc_SourceType = inferSourceType (cb_Members b) (run_records run),
           sc_CreatedAt = 0, sc_UpdatedAt = 0\<rparr>
          (buildMembers (run_fl run) clusterID (cb_Members b) (runEmbeddings run) (runSourceIDs run) (run_records run) (cb_Centroid b)))"

definition updatedCluster ::
  "'f Run \<Rightarrow> ('f StoredCluster \<times> 'm) list \<Rightarrow> 'f knowledge \<Rightarrow> 'f ClusterUpdate \<Rightarrow> 'f knowledge \<times> unit result" where
  "updatedCluster run existing kn u =
     UpdateCluster kn (run_clock run (cu_ClusterID u))
       \<lparr>sc_ID = cu_ClusterID u, sc_UserID = run_userID run, sc_Label = [], sc_Keywords = [], sc_Centroid = cu_NewCentroid u,
        sc_MemberCount = length (cu_NewMembers u), sc_Trend = computeTrend existing (cu_ClusterID u) (run_now run) (run_decay run),
        sc_SourceType = inferSourceType (cu_NewMembers u) (run_records run), sc_CreatedAt = 0, sc_UpdatedAt = 0\<rparr>
       (Some (buildMembers (run_fl run) (cu_ClusterID u) (cu_NewMembers u) (runEmbeddings run) (runSourceIDs run)
                (run_records run) (cu_NewCentroid u)))"

text \<open>
  \<open>extract\<close> gives, for the texts of the clusters, the positions of clusters with their keywords and label. An error of the
  refresh is logged and does not fail the run.
\<close>

fun joinTexts :: "string list \<Rightarrow> string" where
  "joinTexts [] = []"
| "joinTexts [t] = t"
| "joinTexts (t # ts) = t @ '' '' @ joinTexts ts"

definition clusterText :: "(uuid \<Rightarrow> string option) \<Rightarrow> 'f StoredClusterMember list \<Rightarrow> string" where
  "clusterText texts members =
     (let combined = List.map_filter (\<lambda>m. texts (ms_SourceID m)) members
      in joinTexts combined)"

definition keywordUpdate ::
  "'f Run \<Rightarrow> ('f StoredCluster \<times> 'm) list \<Rightarrow> 'f knowledge \<Rightarrow> nat \<times> string list \<times> string \<Rightarrow> 'f knowledge \<times> unit result" where
  "keywordUpdate run clusters kn kr =
     (case kr of (i, keywords, label) \<Rightarrow>
        if length clusters \<le> i then (kn, Inr ())
        else let cl = fst (clusters ! i)
             in UpdateCluster kn (run_clock run (sc_ID cl)) (cl\<lparr>sc_Keywords := keywords, sc_Label := label\<rparr>) None)"

definition refreshKeywords ::
  "'f Run \<Rightarrow> (uuid \<Rightarrow> string option) \<Rightarrow> (string list \<Rightarrow> (nat \<times> string list \<times> string) list) \<Rightarrow> 'f knowledge \<Rightarrow> 'f knowledge" where
  "refreshKeywords run texts extract kn =
     (let clusters = LoadClustersForUser kn (run_userID run)
      in if clusters = [] then kn
         else fst (applyWrites (keywordUpdate run clusters)
                (extract (map (\<lambda>(_, members). clusterText texts members) clusters)) kn))"

definition toCluster :: "'f StoredCluster \<times> 'f StoredClusterMember list \<Rightarrow> Cluster" where
  "toCluster sc = \<lparr>kc_ID = sc_ID (fst sc), kc_Members = map (\<lambda>m. \<lparr>cm_SourceID = ms_SourceID m, cm_SourceType = ms_SourceType m\<rparr>) (snd sc)\<rparr>"

text \<open>
  The whole run; \<open>None\<close> is a panic. \<open>order1\<close>, \<open>order2\<close> and \<open>shuffle\<close> are the iteration orders of the maps. The result
  has the counts of clusters born, updated and died.
\<close>

definition clusterUser ::
  "'f Run \<Rightarrow> 'f DBSCANConfig \<Rightarrow> ((uuid \<times> nat) list \<Rightarrow> (uuid \<times> nat) list) \<Rightarrow>
   ((int \<times> nat list) list \<Rightarrow> (int \<times> nat list) list) \<Rightarrow> ((int \<times> nat list) list \<Rightarrow> (int \<times> nat list) list) \<Rightarrow> uuid list \<Rightarrow>
   (uuid \<Rightarrow> string option) \<Rightarrow> (string list \<Rightarrow> (nat \<times> string list \<times> string) list) \<Rightarrow> 'f knowledge \<Rightarrow>
   ('f knowledge \<times> (nat \<times> nat \<times> nat) \<times> unit result) option" where
  "clusterUser run cfg shuffle order1 order2 ids texts extract kn =
     (if run_records run = [] then Some (kn, (0, 0, 0), Inr ())
      else
        Option.bind (RunDBSCAN (run_fl run) (runEmbeddings run) cfg) (\<lambda>result.
        let existing = LoadClustersForUser kn (run_userID run) in
        Option.bind (DiffClusters (run_fl run) shuffle (order1 (cl_Clusters result)) (order2 (cl_Clusters result))
            (runEmbeddings run) (runSourceIDs run) (map toCluster existing)) (\<lambda>diff.
        Some (case applyWrites (bornCluster run) (zip ids (di_Born diff)) kn of
                (kn1, born, Inl err) \<Rightarrow> (kn1, (born, 0, 0), Inl err)
              | (kn1, born, Inr _) \<Rightarrow>
                  (case applyWrites (updatedCluster run existing) (di_Updated diff) kn1 of
                     (kn2, updated, Inl err) \<Rightarrow> (kn2, (born, updated, 0), Inl err)
                   | (kn2, updated, Inr _) \<Rightarrow>
                       (case applyWrites DeleteCluster (di_Died diff) kn2 of
                          (kn3, died, Inl err) \<Rightarrow> (kn3, (born, updated, died), Inl err)
                        | (kn3, died, Inr _) \<Rightarrow>
                            (if born > 0 \<or> updated > 0 then refreshKeywords run texts extract kn3 else kn3,
                             (born, updated, died), Inr ())))))))"

section \<open>What the comparison does\<close>

lemma moveLeft_set: "set (moveLeft fl x ys) = insert x (set ys)"
  by (induction ys) auto

lemma sortOverlaps_set: "set (sortOverlaps fl xs) = set xs"
proof -
  have "set (foldl (\<lambda>sorted x. moveLeft fl x sorted) ys xs) = set ys \<union> set xs" for ys
    by (induction xs arbitrary: ys) (auto simp: moveLeft_set)
  then show ?thesis by (simp add: sortOverlaps_def)
qed

lemma matchOverlaps_matching:
  "set (matchOverlaps fl E N ovs) \<subseteq> set ovs"
  "distinct (map ov_existingID (matchOverlaps fl E N ovs))" "ov_existingID ` set (matchOverlaps fl E N ovs) \<inter> E = {}"
  "distinct (map ov_newLabel (matchOverlaps fl E N ovs))" "ov_newLabel ` set (matchOverlaps fl E N ovs) \<inter> N = {}"
  by (induction fl E N ovs rule: matchOverlaps.induct) auto

lemma countUp_keys: "fst ` set (countUp k counts) = insert k (fst ` set counts)"
  by (induction k counts rule: countUp.induct) auto

lemma memberCounts_keys:
  "fst ` set (memberCounts sourceIDs clusterOf indices counts) \<subseteq> fst ` set counts \<union> {k. \<exists>x. clusterOf x = Some k}"
proof (induction sourceIDs clusterOf indices counts rule: memberCounts.induct)
  case (2 sourceIDs clusterOf idx indices counts)
  let ?counts = "if idx < length sourceIDs
    then (case clusterOf (sourceIDs ! idx) of None \<Rightarrow> counts | Some ecID \<Rightarrow> countUp ecID counts) else counts"
  have "fst ` set ?counts \<subseteq> fst ` set counts \<union> {k. \<exists>x. clusterOf x = Some k}"
    by (auto simp: countUp_keys split: option.splits)
  then show ?case using 2 unfolding memberCounts.simps by blast
qed simp

lemma sourceToCluster_existing: "sourceToCluster existing x = Some k \<Longrightarrow> k \<in> kc_ID ` set existing"
  unfolding sourceToCluster_def by (drule map_of_SomeD) auto

lemma clusterOverlaps_keys:
  assumes "\<And>xs. mset (shuffle xs) = mset xs" and "ov \<in> set (clusterOverlaps shuffle sourceIDs (sourceToCluster existing) clusters)"
  shows "ov_newLabel ov \<in> fst ` set clusters" and "ov_existingID ov \<in> kc_ID ` set existing"
proof -
  obtain label indices k c where "(label, indices) \<in> set clusters" "ov_newLabel ov = label" "ov_existingID ov = k"
      "(k, c) \<in> set (shuffle (memberCounts sourceIDs (sourceToCluster existing) indices []))"
    using assms(2) by (auto simp: clusterOverlaps_def)
  moreover from this have "(k, c) \<in> set (memberCounts sourceIDs (sourceToCluster existing) indices [])"
    using mset_eq_setD[OF assms(1)] by metis
  ultimately show "ov_newLabel ov \<in> fst ` set clusters" "ov_existingID ov \<in> kc_ID ` set existing"
    using memberCounts_keys[of sourceIDs "sourceToCluster existing" indices "[]"] by (force dest: sourceToCluster_existing)+
qed

lemma addVectors_ok: "length c \<le> length v \<Longrightarrow> \<exists>c'. addVectors fl c v = Some c' \<and> length c' = length c"
proof (induction fl c v rule: addVectors.induct)
  case (3 fl c cs x xs)
  then show ?case by auto
qed auto

lemma ComputeCentroid_ok:
  assumes "\<And>e. e \<in> set embeddings \<Longrightarrow> length e = dim" and "\<And>i. i \<in> set indices \<Longrightarrow> i < length embeddings"
  shows "\<exists>c. ComputeCentroid fl embeddings indices = Some c"
proof -
  have "\<exists>c'. sumVectors fl embeddings is c = Some c'" if "length c = dim" "\<And>i. i \<in> set is \<Longrightarrow> i < length embeddings" for "is" c
    using that
  proof (induction "is" arbitrary: c)
    case (Cons i "is")
    then obtain c' where "addVectors fl c (embeddings ! i) = Some c'" "length c' = dim"
      using addVectors_ok[of c "embeddings ! i" fl] assms(1)[of "embeddings ! i"] by auto
    moreover have "i < length embeddings" and "\<And>j. j \<in> set is \<Longrightarrow> j < length embeddings" using Cons.prems(2) by simp_all
    ultimately show ?case using Cons.IH[of c'] by (simp add: not_le)
  qed simp
  note sum = this
  show ?thesis
  proof (cases "indices = []")
    case False
    then have "hd indices < length embeddings" using assms(2) by simp
    moreover from this obtain c where "sumVectors fl embeddings indices (replicate (length (embeddings ! hd indices)) (fl_int fl 0)) = Some c"
      using sum[of "replicate (length (embeddings ! hd indices)) (fl_int fl 0)" indices] assms by auto
    ultimately show ?thesis by (auto simp: ComputeCentroid_def)
  qed (simp add: ComputeCentroid_def)
qed

lemma updatesOf_ok:
  assumes "\<And>l. \<exists>c. ComputeCentroid fl embeddings (clusterMembers clusters l) = Some c"
  shows "\<exists>us. updatesOf fl embeddings clusters matched = Some us \<and> map cu_ClusterID us = map ov_existingID matched
     \<and> map cu_NewMembers us = map (\<lambda>ov. clusterMembers clusters (ov_newLabel ov)) matched"
proof (induction matched)
  case (Cons ov matched)
  then show ?case using assms[of "ov_newLabel ov"] by auto
qed simp

lemma birthsOf_ok:
  "(\<And>l is. (l, is) \<in> set clusters \<Longrightarrow> \<exists>c. ComputeCentroid fl embeddings is = Some c) \<Longrightarrow>
   \<exists>bs. birthsOf fl embeddings N clusters = Some bs \<and> map cb_Members bs = map snd (filter (\<lambda>c. fst c \<notin> N) clusters)"
proof (induction fl embeddings N clusters rule: birthsOf.induct)
  case (2 fl embeddings N label indices clusters)
  then obtain bs c where "birthsOf fl embeddings N clusters = Some bs" "map cb_Members bs = map snd (filter (\<lambda>c. fst c \<notin> N) clusters)"
      "ComputeCentroid fl embeddings indices = Some c" by (metis list.set_intros)
  then show ?case by auto
qed simp

lemma filter_split_mset: "mset (filter P xs) + mset (filter (\<lambda>x. \<not> P x) xs) = mset xs"
  by (simp add: multiset_partition[symmetric])

lemma matched_members:
  assumes "distinct (map fst clusters)" and "distinct labels" and "set labels \<subseteq> fst ` set clusters"
  shows "mset (map (clusterMembers clusters) labels) = mset (map snd (filter (\<lambda>c. fst c \<in> set labels) clusters))"
proof -
  let ?f = "filter (\<lambda>c. fst c \<in> set labels) clusters"
  have "set labels = set (map fst ?f)" using assms(3) by force
  then have "mset labels = mset (map fst ?f)" using assms(1,2) by (simp only: set_eq_iff_mset_eq_distinct distinct_map_filter)
  moreover have "map (clusterMembers clusters) (map fst ?f) = map snd ?f"
    using assms(1) by (auto simp: clusterMembers_def)
  ultimately show ?thesis by (metis mset_map)
qed

text \<open>
  Every new cluster is an update or a birth, every stored cluster is updated once or dies, in whatever order Go iterates.
\<close>

lemma DiffClusters_partition:
  assumes shuffle: "\<And>xs. mset (shuffle xs) = mset xs"
    and orders: "mset order1 = mset clusters" "mset order2 = mset clusters" and keys: "distinct (map fst clusters)"
    and dims: "\<And>e. e \<in> set embeddings \<Longrightarrow> length e = dim" and range: "\<And>l is i. (l, is) \<in> set clusters \<Longrightarrow> i \<in> set is \<Longrightarrow> i < length embeddings"
    and ids: "distinct (map kc_ID existing)"
  obtains diff where "DiffClusters fl shuffle order1 order2 embeddings sourceIDs existing = Some diff"
    "distinct (map cu_ClusterID (di_Updated diff))" "set (map cu_ClusterID (di_Updated diff)) \<subseteq> set (map kc_ID existing)"
    "di_Died diff = filter (\<lambda>i. i \<notin> set (map cu_ClusterID (di_Updated diff))) (map kc_ID existing)"
    "mset (map cu_NewMembers (di_Updated diff)) + mset (map cb_Members (di_Born diff)) = mset (map snd clusters)"
proof -
  let ?ovs = "sortOverlaps fl (clusterOverlaps shuffle sourceIDs (sourceToCluster existing) order1)"
  let ?m = "matchOverlaps fl {} {} ?ovs"
  note M = matchOverlaps_matching[of fl "{}" "{}" ?ovs]
  have sets: "set order1 = set clusters" "set order2 = set clusters" using orders by (auto dest: mset_eq_setD)
  have k1: "distinct (map fst order1)" using keys mset_eq_imp_distinct_iff[of "map fst order1" "map fst clusters"] orders(1) by simp
  have in_keys: "ov_newLabel ov \<in> fst ` set order1" "ov_existingID ov \<in> kc_ID ` set existing" if "ov \<in> set ?m" for ov
    using clusterOverlaps_keys[OF shuffle] that M(1) by (auto simp: sortOverlaps_set)
  have centroid: "\<exists>c. ComputeCentroid fl embeddings is = Some c" if "(l, is) \<in> set clusters" for l "is"
    using ComputeCentroid_ok[OF dims range[OF that]] by blast
  have "\<exists>c. ComputeCentroid fl embeddings (clusterMembers order1 l) = Some c" for l
  proof (cases "map_of order1 l")
    case None
    then show ?thesis by (simp add: clusterMembers_def ComputeCentroid_def)
  next
    case (Some "is")
    then show ?thesis using centroid[of l "is"] map_of_SomeD[OF Some] sets(1) by (simp add: clusterMembers_def)
  qed
  then obtain us where us: "updatesOf fl embeddings order1 ?m = Some us" "map cu_ClusterID us = map ov_existingID ?m"
      "map cu_NewMembers us = map (\<lambda>ov. clusterMembers order1 (ov_newLabel ov)) ?m" using updatesOf_ok by metis
  obtain bs where bs: "birthsOf fl embeddings (set (map ov_newLabel ?m)) order2 = Some bs"
      "map cb_Members bs = map snd (filter (\<lambda>c. fst c \<notin> set (map ov_newLabel ?m)) order2)"
    using birthsOf_ok[of order2 fl embeddings "set (map ov_newLabel ?m)"] centroid sets by metis
  have "mset (map cu_NewMembers us) = mset (map snd (filter (\<lambda>c. fst c \<in> set (map ov_newLabel ?m)) order1))"
    using matched_members[OF k1 M(4)] in_keys(1) us(3) by (simp add: image_subset_iff comp_def)
  also have "\<dots> = mset (map snd (filter (\<lambda>c. fst c \<in> set (map ov_newLabel ?m)) order2))"
    by (simp only: mset_map mset_filter orders)
  finally have "mset (map cu_NewMembers us) + mset (map cb_Members bs)
      = image_mset snd (mset (filter (\<lambda>c. fst c \<in> set (map ov_newLabel ?m)) order2) + mset (filter (\<lambda>c. fst c \<notin> set (map ov_newLabel ?m)) order2))"
    by (simp only: bs(2) mset_map image_mset_union)
  also have "\<dots> = mset (map snd clusters)" by (simp only: filter_split_mset orders(2) mset_map)
  finally have "mset (map cu_NewMembers us) + mset (map cb_Members bs) = mset (map snd clusters)" .
  moreover let ?diff = "\<lparr>di_Updated = us, di_Born = bs, di_Died = filter (\<lambda>i. i \<notin> set (map ov_existingID ?m)) (map kc_ID existing)\<rparr>"
  have "DiffClusters fl shuffle order1 order2 embeddings sourceIDs existing = Some ?diff"
    using us(1) bs(1) by (simp add: DiffClusters_def Let_def)
  moreover have "distinct (map cu_ClusterID us)" unfolding us(2) by (rule M(2))
  moreover have "set (map cu_ClusterID us) \<subseteq> set (map kc_ID existing)" unfolding us(2) using in_keys(2) by auto
  ultimately show thesis using that[of ?diff] by (simp only: us(2) DiffResult.select_convs)
qed

section \<open>What the writes do\<close>

text \<open>The tables up to what the writes are about: the keys of the clusters, and the sources of each.\<close>

definition clusterKeys :: "'f knowledge \<Rightarrow> (uuid \<times> string) list" where
  "clusterKeys kn = map (\<lambda>r. (sc_ID r, sc_UserID r)) (kn_clusters kn)"

definition sourcesOf :: "'f knowledge \<Rightarrow> uuid \<Rightarrow> uuid list" where
  "sourcesOf kn i = map ms_SourceID (filter (\<lambda>m. ms_ClusterID m = i) (kn_members kn))"

definition hasCluster :: "'f knowledge \<Rightarrow> uuid \<Rightarrow> bool" where
  "hasCluster kn i \<longleftrightarrow> i \<in> set (map fst (clusterKeys kn))"

lemma hasCluster_cong: "clusterKeys kn' = clusterKeys kn \<Longrightarrow> hasCluster kn' = hasCluster kn"
  by (simp add: hasCluster_def fun_eq_iff)

lemma hasCluster_row: "hasCluster kn i \<longleftrightarrow> i \<in> sc_ID ` set (kn_clusters kn)"
  by (auto simp: hasCluster_def clusterKeys_def)

text \<open>The primary keys of the two tables and the foreign key of the members.\<close>

definition knowledgeOK :: "'f knowledge \<Rightarrow> bool" where
  "knowledgeOK kn \<longleftrightarrow>
     distinct (map fst (clusterKeys kn)) \<and> distinct (map (\<lambda>m. (ms_ClusterID m, ms_SourceID m)) (kn_members kn))
     \<and> (\<forall>m \<in> set (kn_members kn). hasCluster kn (ms_ClusterID m))"

lemma insertMembers_facts:
  assumes "knowledgeOK kn" and "hasCluster kn i" and "sourcesOf kn i = []" and "distinct (map ms_SourceID ms)"
  shows "\<exists>kn'. insertMembers kn i ms = (kn', Inr ()) \<and> knowledgeOK kn' \<and> clusterKeys kn' = clusterKeys kn
     \<and> sourcesOf kn' = (sourcesOf kn)(i := map ms_SourceID ms)"
proof -
  let ?rows = "map (\<lambda>m. m\<lparr>ms_ClusterID := i\<rparr>) ms"
  have none: "ms_ClusterID m \<noteq> i" if "m \<in> set (kn_members kn)" for m using assms(3) that by (auto simp: sourcesOf_def filter_empty_conv)
  have "distinct (map (\<lambda>m. (i, ms_SourceID m)) ms)" using assms(4) by (auto simp: distinct_map inj_on_def)
  then have keys: "distinct (map (\<lambda>m. (ms_ClusterID m, ms_SourceID m)) (kn_members kn @ ?rows))"
    using assms(1) none by (auto simp: knowledgeOK_def comp_def)
  have "filter (\<lambda>m. ms_ClusterID m = j) ?rows = (if j = i then ?rows else [])" for j by (induction ms) auto
  then have src: "sourcesOf (kn\<lparr>kn_members := kn_members kn @ ?rows\<rparr>) = (sourcesOf kn)(i := map ms_SourceID ms)"
    using assms(3) by (auto simp: sourcesOf_def fun_eq_iff comp_def)
  show ?thesis
  proof (cases "ms = []")
    case True
    then show ?thesis using assms(1,3) by (auto simp: insertMembers_def fun_eq_iff)
  next
    case False
    let ?kn = "kn\<lparr>kn_members := kn_members kn @ ?rows\<rparr>"
    have ck: "clusterKeys ?kn = clusterKeys kn" by (simp add: clusterKeys_def)
    have "knowledgeOK ?kn" using keys assms(1,2) unfolding knowledgeOK_def ck hasCluster_cong[OF ck] by auto
    moreover have "insertMembers kn i ms = (?kn, Inr ())" using False keys by (simp only: insertMembers_def Let_def if_False not_True_eq_False if_True)
    ultimately show ?thesis using src ck by blast
  qed
qed

lemma SaveCluster_facts:
  assumes ok: "knowledgeOK kn" and new: "\<not> hasCluster kn (sc_ID cl)" and ms: "distinct (map ms_SourceID ms)"
  shows "\<exists>kn'. SaveCluster kn now cl ms = (kn', Inr ()) \<and> knowledgeOK kn' \<and> clusterKeys kn' = clusterKeys kn @ [(sc_ID cl, sc_UserID cl)]
     \<and> sourcesOf kn' = (sourcesOf kn)(sc_ID cl := map ms_SourceID ms)"
proof -
  let ?kn = "kn\<lparr>kn_clusters := kn_clusters kn @ [cl\<lparr>sc_CreatedAt := now, sc_UpdatedAt := now\<rparr>]\<rparr>"
  have keys: "clusterKeys ?kn = clusterKeys kn @ [(sc_ID cl, sc_UserID cl)]" by (simp add: clusterKeys_def)
  have src: "sourcesOf ?kn = sourcesOf kn" by (simp add: sourcesOf_def fun_eq_iff)
  have "sourcesOf kn (sc_ID cl) = []" using ok new by (auto simp: sourcesOf_def knowledgeOK_def filter_empty_conv)
  moreover have has: "hasCluster ?kn i \<longleftrightarrow> hasCluster kn i \<or> i = sc_ID cl" for i by (auto simp: hasCluster_def keys)
  moreover have "knowledgeOK ?kn" using ok new unfolding knowledgeOK_def keys has by (auto simp: hasCluster_def)
  moreover have "sc_ID cl \<notin> sc_ID ` set (kn_clusters kn)" using new by (simp add: hasCluster_row)
  ultimately show ?thesis
    using insertMembers_facts[of ?kn "sc_ID cl" ms] ms unfolding keys src by (simp add: SaveCluster_def Let_def)
qed

lemma updateColumns_key [simp]: "sc_ID (updateColumns now cl r) = sc_ID r" "sc_UserID (updateColumns now cl r) = sc_UserID r"
  by (simp_all add: updateColumns_def)

lemma UpdateCluster_facts:
  assumes ok: "knowledgeOK kn"
  shows "hasCluster kn (sc_ID cl) \<Longrightarrow> distinct (map ms_SourceID ms) \<Longrightarrow>
      \<exists>kn'. UpdateCluster kn now cl (Some ms) = (kn', Inr ()) \<and> knowledgeOK kn' \<and> clusterKeys kn' = clusterKeys kn
        \<and> sourcesOf kn' = (sourcesOf kn)(sc_ID cl := map ms_SourceID ms)"
    and "\<exists>kn'. UpdateCluster kn now cl None = (kn', Inr ()) \<and> knowledgeOK kn' \<and> clusterKeys kn' = clusterKeys kn \<and> sourcesOf kn' = sourcesOf kn"
proof -
  let ?kn = "kn\<lparr>kn_clusters := map (\<lambda>r. if sc_ID r = sc_ID cl then updateColumns now cl r else r) (kn_clusters kn)\<rparr>"
  have keys: "clusterKeys ?kn = clusterKeys kn" by (simp add: clusterKeys_def)
  have src: "sourcesOf ?kn = sourcesOf kn" by (simp add: sourcesOf_def fun_eq_iff)
  have okn: "knowledgeOK ?kn" using ok unfolding knowledgeOK_def keys hasCluster_cong[OF keys] by simp
  then show "\<exists>kn'. UpdateCluster kn now cl None = (kn', Inr ()) \<and> knowledgeOK kn' \<and> clusterKeys kn' = clusterKeys kn \<and> sourcesOf kn' = sourcesOf kn"
    using keys src by (simp add: UpdateCluster_def)
  let ?del = "?kn\<lparr>kn_members := filter (\<lambda>m. ms_ClusterID m \<noteq> sc_ID cl) (kn_members ?kn)\<rparr>"
  have kd: "clusterKeys ?del = clusterKeys kn" using keys by (simp add: clusterKeys_def)
  have sd: "sourcesOf ?del = (sourcesOf kn)(sc_ID cl := [])" by (auto simp: sourcesOf_def fun_eq_iff intro: arg_cong[where f = "map ms_SourceID"] filter_cong)
  have "knowledgeOK ?del" using okn unfolding knowledgeOK_def kd keys hasCluster_cong[OF kd] hasCluster_cong[OF keys]
    by (auto intro: distinct_map_filter)
  then show "\<exists>kn'. UpdateCluster kn now cl (Some ms) = (kn', Inr ()) \<and> knowledgeOK kn' \<and> clusterKeys kn' = clusterKeys kn
        \<and> sourcesOf kn' = (sourcesOf kn)(sc_ID cl := map ms_SourceID ms)"
    if "hasCluster kn (sc_ID cl)" "distinct (map ms_SourceID ms)"
    using insertMembers_facts[of ?del "sc_ID cl" ms] that unfolding kd sd hasCluster_cong[OF kd] by (simp add: UpdateCluster_def Let_def)
qed

lemma DeleteCluster_facts:
  assumes "knowledgeOK kn"
  shows "\<exists>kn'. DeleteCluster kn i = (kn', Inr ()) \<and> knowledgeOK kn' \<and> clusterKeys kn' = filter (\<lambda>k. fst k \<noteq> i) (clusterKeys kn)
     \<and> (\<forall>j. j \<noteq> i \<longrightarrow> sourcesOf kn' j = sourcesOf kn j)"
proof -
  let ?kn = "fst (DeleteCluster kn i)"
  have keys: "clusterKeys ?kn = filter (\<lambda>k. fst k \<noteq> i) (clusterKeys kn)" by (simp add: DeleteCluster_def clusterKeys_def filter_map comp_def)
  have has: "hasCluster ?kn j \<longleftrightarrow> hasCluster kn j \<and> j \<noteq> i" for j by (auto simp: hasCluster_def keys)
  have "knowledgeOK ?kn" using assms unfolding knowledgeOK_def keys has
    by (auto simp: DeleteCluster_def intro: distinct_map_filter)
  moreover have "sourcesOf ?kn j = sourcesOf kn j" if "j \<noteq> i" for j
    using that by (auto simp: DeleteCluster_def sourcesOf_def intro: arg_cong[where f = "map ms_SourceID"] filter_cong)
  ultimately show ?thesis using keys by (auto simp: DeleteCluster_def)
qed

section \<open>The loops of writes\<close>

definition memberSources :: "'f Run \<Rightarrow> nat list \<Rightarrow> uuid list" where
  "memberSources run indices = map (\<lambda>idx. runSourceIDs run ! idx) indices"

definition indicesOK :: "'f Run \<Rightarrow> nat list \<Rightarrow> bool" where
  "indicesOK run indices \<longleftrightarrow> distinct indices \<and> (\<forall>idx \<in> set indices. idx < length (run_records run))"

lemma buildMembers_sources:
  assumes "indicesOK run indices"
  shows "map ms_SourceID (buildMembers fl i indices (runEmbeddings run) (runSourceIDs run) (run_records run) centroid) = memberSources run indices"
proof -
  have "filter (\<lambda>idx. idx < length (run_records run)) indices = indices" using assms by (simp add: indicesOK_def)
  then show ?thesis by (simp add: buildMembers_def memberSources_def)
qed

lemma memberSources_distinct:
  assumes "distinct (runSourceIDs run)" and "indicesOK run indices"
  shows "distinct (memberSources run indices)"
proof -
  have "\<forall>idx \<in> set indices. idx < length (runSourceIDs run)" using assms(2) by (simp add: indicesOK_def runSourceIDs_def)
  then have "inj_on (\<lambda>idx. runSourceIDs run ! idx) (set indices)" using assms(1) by (auto simp: inj_on_def nth_eq_iff_index_eq)
  then show ?thesis using assms(2) by (simp add: memberSources_def distinct_map indicesOK_def)
qed

lemma births_written:
  assumes src: "distinct (runSourceIDs run)" and len: "length ids = length bs"
  shows "knowledgeOK kn \<Longrightarrow> distinct ids \<Longrightarrow> (\<forall>i \<in> set ids. \<not> hasCluster kn i) \<Longrightarrow> (\<forall>b \<in> set bs. indicesOK run (cb_Members b)) \<Longrightarrow>
    \<exists>kn'. applyWrites (bornCluster run) (zip ids bs) kn = (kn', length bs, Inr ()) \<and> knowledgeOK kn'
      \<and> clusterKeys kn' = clusterKeys kn @ map (\<lambda>i. (i, run_userID run)) ids
      \<and> (\<forall>i. i \<notin> set ids \<longrightarrow> sourcesOf kn' i = sourcesOf kn i)
      \<and> map (sourcesOf kn') ids = map (\<lambda>b. memberSources run (cb_Members b)) bs"
  using len
proof (induction ids bs arbitrary: kn rule: list_induct2)
  case (Cons i ids b bs)
  have b: "indicesOK run (cb_Members b)" using Cons.prems by simp
  obtain kn1 where k1: "bornCluster run kn (i, b) = (kn1, Inr ())" "knowledgeOK kn1"
      "clusterKeys kn1 = clusterKeys kn @ [(i, run_userID run)]" "sourcesOf kn1 = (sourcesOf kn)(i := memberSources run (cb_Members b))"
    unfolding bornCluster_def prod.case
    using SaveCluster_facts[OF Cons.prems(1),
        where cl = "\<lparr>sc_ID = i, sc_UserID = run_userID run, sc_Label = [], sc_Keywords = [], sc_Centroid = cb_Centroid b,
           sc_MemberCount = length (cb_Members b), sc_Trend = 0, sc_SourceType = inferSourceType (cb_Members b) (run_records run),
           sc_CreatedAt = 0, sc_UpdatedAt = 0\<rparr>"
        and ms = "buildMembers (run_fl run) i (cb_Members b) (runEmbeddings run) (runSourceIDs run) (run_records run) (cb_Centroid b)"
        and now = "run_clock run i"] Cons.prems(3) memberSources_distinct[OF src b] by (auto simp: buildMembers_sources[OF b])
  have "\<forall>j \<in> set ids. \<not> hasCluster kn1 j" using Cons.prems(2,3) by (auto simp: hasCluster_def k1(3))
  then obtain kn2 where k2: "applyWrites (bornCluster run) (zip ids bs) kn1 = (kn2, length bs, Inr ())" "knowledgeOK kn2"
      "clusterKeys kn2 = clusterKeys kn1 @ map (\<lambda>i. (i, run_userID run)) ids" "\<forall>i. i \<notin> set ids \<longrightarrow> sourcesOf kn2 i = sourcesOf kn1 i"
      "map (sourcesOf kn2) ids = map (\<lambda>b. memberSources run (cb_Members b)) bs"
    using Cons.IH[OF k1(2)] Cons.prems by auto
  then show ?case using k1 Cons.prems(2) by auto
qed auto

lemma updates_written:
  assumes src: "distinct (runSourceIDs run)"
  shows "knowledgeOK kn \<Longrightarrow> distinct (map cu_ClusterID us) \<Longrightarrow> (\<forall>u \<in> set us. hasCluster kn (cu_ClusterID u) \<and> indicesOK run (cu_NewMembers u)) \<Longrightarrow>
    \<exists>kn'. applyWrites (updatedCluster run existing) us kn = (kn', length us, Inr ()) \<and> knowledgeOK kn' \<and> clusterKeys kn' = clusterKeys kn
      \<and> (\<forall>i. i \<notin> set (map cu_ClusterID us) \<longrightarrow> sourcesOf kn' i = sourcesOf kn i)
      \<and> map (\<lambda>u. sourcesOf kn' (cu_ClusterID u)) us = map (\<lambda>u. memberSources run (cu_NewMembers u)) us"
proof (induction us arbitrary: kn)
  case (Cons u us)
  have u: "indicesOK run (cu_NewMembers u)" "hasCluster kn (cu_ClusterID u)" using Cons.prems by simp_all
  obtain kn1 where k1: "updatedCluster run existing kn u = (kn1, Inr ())" "knowledgeOK kn1" "clusterKeys kn1 = clusterKeys kn"
      "sourcesOf kn1 = (sourcesOf kn)(cu_ClusterID u := memberSources run (cu_NewMembers u))"
    unfolding updatedCluster_def
    using UpdateCluster_facts(1)[OF Cons.prems(1),
        where cl = "\<lparr>sc_ID = cu_ClusterID u, sc_UserID = run_userID run, sc_Label = [], sc_Keywords = [], sc_Centroid = cu_NewCentroid u,
           sc_MemberCount = length (cu_NewMembers u), sc_Trend = computeTrend existing (cu_ClusterID u) (run_now run) (run_decay run),
           sc_SourceType = inferSourceType (cu_NewMembers u) (run_records run), sc_CreatedAt = 0, sc_UpdatedAt = 0\<rparr>"
        and ms = "buildMembers (run_fl run) (cu_ClusterID u) (cu_NewMembers u) (runEmbeddings run) (runSourceIDs run) (run_records run) (cu_NewCentroid u)"
        and now = "run_clock run (cu_ClusterID u)"] u(2) memberSources_distinct[OF src u(1)]
    by (auto simp: buildMembers_sources[OF u(1)])
  obtain kn2 where k2: "applyWrites (updatedCluster run existing) us kn1 = (kn2, length us, Inr ())" "knowledgeOK kn2" "clusterKeys kn2 = clusterKeys kn1"
      "\<forall>i. i \<notin> set (map cu_ClusterID us) \<longrightarrow> sourcesOf kn2 i = sourcesOf kn1 i"
      "map (\<lambda>u. sourcesOf kn2 (cu_ClusterID u)) us = map (\<lambda>u. memberSources run (cu_NewMembers u)) us"
    using Cons.IH[OF k1(2)] Cons.prems hasCluster_cong[OF k1(3)] by auto
  then show ?case using k1 Cons.prems(2) by auto
qed auto

lemma deaths_written:
  "knowledgeOK kn \<Longrightarrow> \<exists>kn'. applyWrites DeleteCluster dead kn = (kn', length dead, Inr ()) \<and> knowledgeOK kn'
     \<and> clusterKeys kn' = filter (\<lambda>k. fst k \<notin> set dead) (clusterKeys kn) \<and> (\<forall>i. i \<notin> set dead \<longrightarrow> sourcesOf kn' i = sourcesOf kn i)"
proof (induction dead arbitrary: kn)
  case (Cons i dead)
  obtain kn1 where k1: "DeleteCluster kn i = (kn1, Inr ())" "knowledgeOK kn1" "clusterKeys kn1 = filter (\<lambda>k. fst k \<noteq> i) (clusterKeys kn)"
      "\<forall>j. j \<noteq> i \<longrightarrow> sourcesOf kn1 j = sourcesOf kn j" using DeleteCluster_facts[OF Cons.prems] by blast
  then show ?case using Cons.IH[OF k1(2)] by (auto intro: filter_cong)
qed auto

lemma keywordUpdate_facts:
  "knowledgeOK kn \<Longrightarrow> \<exists>kn'. keywordUpdate run clusters kn kr = (kn', Inr ()) \<and> knowledgeOK kn' \<and> clusterKeys kn' = clusterKeys kn
     \<and> sourcesOf kn' = sourcesOf kn"
  using UpdateCluster_facts(2)[of kn] by (cases kr) (simp add: keywordUpdate_def Let_def)

lemma keyword_loop:
  "knowledgeOK kn \<Longrightarrow> knowledgeOK (fst (applyWrites (keywordUpdate run clusters) xs kn))
     \<and> clusterKeys (fst (applyWrites (keywordUpdate run clusters) xs kn)) = clusterKeys kn
     \<and> sourcesOf (fst (applyWrites (keywordUpdate run clusters) xs kn)) = sourcesOf kn"
proof (induction xs arbitrary: kn)
  case (Cons x xs)
  obtain kn1 where "keywordUpdate run clusters kn x = (kn1, Inr ())" "knowledgeOK kn1" "clusterKeys kn1 = clusterKeys kn" "sourcesOf kn1 = sourcesOf kn"
    using keywordUpdate_facts[OF Cons.prems] by blast
  then show ?case using Cons.IH[of kn1] by (auto split: prod.splits)
qed simp

lemma keywords_refreshed:
  "knowledgeOK kn \<Longrightarrow> knowledgeOK (refreshKeywords run texts extract kn)
     \<and> clusterKeys (refreshKeywords run texts extract kn) = clusterKeys kn \<and> sourcesOf (refreshKeywords run texts extract kn) = sourcesOf kn"
  using keyword_loop by (auto simp: refreshKeywords_def Let_def)

section \<open>The run stores the clusters\<close>

definition clusterView :: "'f knowledge \<Rightarrow> string \<Rightarrow> (uuid \<times> uuid list) list" where
  "clusterView kn userID = map (\<lambda>(row, members). (sc_ID row, map ms_SourceID members)) (LoadClustersForUser kn userID)"

definition userClusters :: "'f knowledge \<Rightarrow> string \<Rightarrow> uuid list" where
  "userClusters kn userID = map fst (filter (\<lambda>k. snd k = userID) (clusterKeys kn))"

lemma clusterView_eq: "userID \<noteq> [] \<Longrightarrow> clusterView kn userID = map (\<lambda>i. (i, sourcesOf kn i)) (userClusters kn userID)"
  by (simp add: clusterView_def userClusters_def LoadClustersForUser_def clusterKeys_def sourcesOf_def filter_map comp_def)

lemma existing_ids: "userID \<noteq> [] \<Longrightarrow> map kc_ID (map toCluster (LoadClustersForUser kn userID)) = userClusters kn userID"
  by (simp add: toCluster_def userClusters_def LoadClustersForUser_def clusterKeys_def filter_map comp_def)

text \<open>The tables after the three loops, whatever the differences.\<close>

lemma diff_applied:
  assumes src: "distinct (runSourceIDs run)" and ok: "knowledgeOK kn" and u: "run_userID run \<noteq> []"
    and ids: "distinct ids" "\<forall>i \<in> set ids. \<not> hasCluster kn i" "length ids = length (di_Born diff)"
    and upd: "distinct (map cu_ClusterID (di_Updated diff))" "set (map cu_ClusterID (di_Updated diff)) \<subseteq> set (userClusters kn (run_userID run))"
    and died: "di_Died diff = filter (\<lambda>i. i \<notin> set (map cu_ClusterID (di_Updated diff))) (userClusters kn (run_userID run))"
    and idx: "\<forall>b \<in> set (di_Born diff). indicesOK run (cb_Members b)" "\<forall>x \<in> set (di_Updated diff). indicesOK run (cu_NewMembers x)"
  obtains kn1 kn2 kn3 where "applyWrites (bornCluster run) (zip ids (di_Born diff)) kn = (kn1, length (di_Born diff), Inr ())"
    "applyWrites (updatedCluster run existing) (di_Updated diff) kn1 = (kn2, length (di_Updated diff), Inr ())"
    "applyWrites DeleteCluster (di_Died diff) kn2 = (kn3, length (di_Died diff), Inr ())" "knowledgeOK kn3"
    "clusterKeys kn3 = filter (\<lambda>k. fst k \<notin> set (di_Died diff)) (clusterKeys kn) @ map (\<lambda>i. (i, run_userID run)) ids"
    "map (sourcesOf kn3) ids = map (\<lambda>b. memberSources run (cb_Members b)) (di_Born diff)"
    "map (\<lambda>x. sourcesOf kn3 (cu_ClusterID x)) (di_Updated diff) = map (\<lambda>x. memberSources run (cu_NewMembers x)) (di_Updated diff)"
    "\<And>i. i \<notin> set ids \<Longrightarrow> i \<notin> set (userClusters kn (run_userID run)) \<Longrightarrow> sourcesOf kn3 i = sourcesOf kn i"
proof -
  let ?E = "userClusters kn (run_userID run)" and ?U = "map cu_ClusterID (di_Updated diff)"
  have E: "hasCluster kn i" if "i \<in> set ?E" for i using that by (auto simp: userClusters_def hasCluster_def)
  obtain kn1 where k1: "applyWrites (bornCluster run) (zip ids (di_Born diff)) kn = (kn1, length (di_Born diff), Inr ())" "knowledgeOK kn1"
      "clusterKeys kn1 = clusterKeys kn @ map (\<lambda>i. (i, run_userID run)) ids" "\<forall>i. i \<notin> set ids \<longrightarrow> sourcesOf kn1 i = sourcesOf kn i"
      "map (sourcesOf kn1) ids = map (\<lambda>b. memberSources run (cb_Members b)) (di_Born diff)"
    using births_written[OF src ids(3) ok ids(1,2) idx(1)] by blast
  have "hasCluster kn1 i" if "i \<in> set ?E" for i using E[OF that] by (auto simp: hasCluster_def k1(3))
  then have "\<forall>x \<in> set (di_Updated diff). hasCluster kn1 (cu_ClusterID x) \<and> indicesOK run (cu_NewMembers x)" using upd(2) idx(2) by auto
  then obtain kn2 where k2: "applyWrites (updatedCluster run existing) (di_Updated diff) kn1 = (kn2, length (di_Updated diff), Inr ())"
      "knowledgeOK kn2" "clusterKeys kn2 = clusterKeys kn1" "\<forall>i. i \<notin> set ?U \<longrightarrow> sourcesOf kn2 i = sourcesOf kn1 i"
      "map (\<lambda>u. sourcesOf kn2 (cu_ClusterID u)) (di_Updated diff) = map (\<lambda>u. memberSources run (cu_NewMembers u)) (di_Updated diff)"
    using updates_written[OF src k1(2) upd(1)] by blast
  obtain kn3 where k3: "applyWrites DeleteCluster (di_Died diff) kn2 = (kn3, length (di_Died diff), Inr ())" "knowledgeOK kn3"
      "clusterKeys kn3 = filter (\<lambda>k. fst k \<notin> set (di_Died diff)) (clusterKeys kn2)" "\<forall>i. i \<notin> set (di_Died diff) \<longrightarrow> sourcesOf kn3 i = sourcesOf kn2 i"
    using deaths_written[OF k2(2)] by blast
  have new: "i \<notin> set ?E" "i \<notin> set ?U" "i \<notin> set (di_Died diff)" if "i \<in> set ids" for i
    using that ids(2) E upd(2) by (auto simp: died)
  have keys: "clusterKeys kn3 = filter (\<lambda>k. fst k \<notin> set (di_Died diff)) (clusterKeys kn) @ map (\<lambda>i. (i, run_userID run)) ids"
    using new(3) by (simp add: k3(3) k2(3) k1(3) filter_id_conv)
  have "map (sourcesOf kn3) ids = map (sourcesOf kn1) ids" using new k2(4) k3(4) by simp
  moreover have "cu_ClusterID x \<notin> set (di_Died diff)" if "x \<in> set (di_Updated diff)" for x using that by (simp add: died)
  then have "map (\<lambda>x. sourcesOf kn3 (cu_ClusterID x)) (di_Updated diff) = map (\<lambda>x. sourcesOf kn2 (cu_ClusterID x)) (di_Updated diff)"
    using k3(4) by simp
  moreover have "sourcesOf kn3 i = sourcesOf kn i" if i: "i \<notin> set ids" "i \<notin> set ?E" for i
  proof -
    have "i \<notin> set ?U" "i \<notin> set (di_Died diff)" using i upd(2) by (auto simp: died)
    then show ?thesis using k1(4) k2(4) k3(4) i by simp
  qed
  ultimately show thesis using that k1(1,5) k2(1,5) k3(1,2) keys by simp
qed

lemma userClusters_after:
  assumes "clusterKeys kn' = filter (\<lambda>k. fst k \<notin> set dead) (clusterKeys kn) @ map (\<lambda>i. (i, u)) ids"
  shows "userClusters kn' v = filter (\<lambda>i. i \<notin> set dead) (userClusters kn v) @ (if v = u then ids else [])"
  by (simp add: userClusters_def assms filter_map comp_def conj_commute)

lemma view_after:
  assumes ok: "knowledgeOK kn" and U: "distinct U" "set U \<subseteq> set (userClusters kn u)" and u: "u \<noteq> []" and v: "v \<noteq> []" "v \<noteq> u"
    and keys: "clusterKeys kn' = filter (\<lambda>k. fst k \<notin> set (filter (\<lambda>i. i \<notin> set U) (userClusters kn u))) (clusterKeys kn) @ map (\<lambda>i. (i, u)) ids"
    and new: "\<forall>i \<in> set ids. \<not> hasCluster kn i"
    and src: "\<forall>i. i \<notin> set ids \<and> i \<notin> set (userClusters kn u) \<longrightarrow> sourcesOf kn' i = sourcesOf kn i"
  shows "mset (map snd (clusterView kn' u)) = mset (map (sourcesOf kn') U) + mset (map (sourcesOf kn') ids)"
    and "clusterView kn' v = clusterView kn v"
proof -
  let ?E = "userClusters kn u"
  have keysOK: "distinct (map fst (clusterKeys kn))" using ok by (simp add: knowledgeOK_def)
  then have dE: "distinct ?E" by (simp add: userClusters_def distinct_map_filter)
  note after = userClusters_after[OF keys]
  have "set (filter (\<lambda>i. i \<in> set U) ?E) = set U" using U(2) by auto
  then have "mset (filter (\<lambda>i. i \<in> set U) ?E) = mset U" using dE U(1) by (simp only: set_eq_iff_mset_eq_distinct distinct_filter)
  moreover have "filter (\<lambda>i. i \<notin> set (filter (\<lambda>i. i \<notin> set U) ?E)) ?E = filter (\<lambda>i. i \<in> set U) ?E" by (auto intro: filter_cong)
  ultimately have "mset (userClusters kn' u) = mset U + mset ids" by (simp only: after[of u] mset_append refl if_True)
  then show "mset (map snd (clusterView kn' u)) = mset (map (sourcesOf kn') U) + mset (map (sourcesOf kn') ids)"
    unfolding clusterView_eq[OF u] by (simp add: multiset.map_comp comp_def)
  have other: "i \<notin> set ?E" "hasCluster kn i" if "i \<in> set (userClusters kn v)" for i
    using that keysOK v(2) by (auto simp: userClusters_def hasCluster_def distinct_map inj_on_def)
  then have "filter (\<lambda>i. i \<notin> set (filter (\<lambda>i. i \<notin> set U) ?E)) (userClusters kn v) = userClusters kn v" by (auto simp: filter_id_conv)
  then have "userClusters kn' v = userClusters kn v" using v(2) by (simp add: after[of v])
  moreover have "sourcesOf kn' i = sourcesOf kn i" if i: "i \<in> set (userClusters kn v)" for i
    using src other[OF i] new by blast
  ultimately show "clusterView kn' v = clusterView kn v" unfolding clusterView_eq[OF v(1)] by simp
qed

lemma zip_prefix: "zip xs ys = zip (take (length ys) xs) ys"
  by (induction xs arbitrary: ys) (simp, case_tac ys, auto)

lemma grouped_clusters_length: "groupedTo L n result \<Longrightarrow> n \<le> length L \<Longrightarrow> length (cl_Clusters result) \<le> length L"
proof -
  assume g: "groupedTo L n result" and n: "n \<le> length L"
  have "c \<in> set L" if "(c, members) \<in> set (cl_Clusters result)" for c members
  proof -
    have "map_of (cl_Clusters result) c = Some members"
      by (rule map_of_is_SomeI[OF _ that]) (use g in \<open>simp add: groupedTo_def\<close>)
    then have "labelled L n c \<noteq> []" using g by (auto simp: groupedTo_def split: if_splits)
    then show ?thesis using n by (auto simp: labelled_def filter_empty_conv intro!: nth_mem)
  qed
  then have "set (map fst (cl_Clusters result)) \<subseteq> set L" by auto
  then have "card (set (map fst (cl_Clusters result))) \<le> card (set L)" by (rule card_mono[OF finite_set])
  moreover have "card (set (map fst (cl_Clusters result))) = length (map fst (cl_Clusters result))"
    by (rule distinct_card) (use g in \<open>simp add: groupedTo_def\<close>)
  ultimately show ?thesis using card_length[of L] by simp
qed

text \<open>The clustering of a run and its difference to what is stored.\<close>

lemma run_diff:
  assumes mul: "\<And>x y. fl_mul (run_fl run) x y = fl_mul (run_fl run) y x" and dims: "\<And>e. e \<in> set (runEmbeddings run) \<Longrightarrow> length e = dim"
    and user: "run_userID run \<noteq> []" and ok: "knowledgeOK kn"
    and orders: "\<And>xs. mset (shuffle xs) = mset xs" "\<And>xs. mset (order1 xs) = mset xs" "\<And>xs. mset (order2 xs) = mset xs"
  obtains result diff where "RunDBSCAN (run_fl run) (runEmbeddings run) cfg = Some result"
    "DiffClusters (run_fl run) shuffle (order1 (cl_Clusters result)) (order2 (cl_Clusters result)) (runEmbeddings run) (runSourceIDs run)
        (map toCluster (LoadClustersForUser kn (run_userID run))) = Some diff"
    "distinct (map cu_ClusterID (di_Updated diff))" "set (map cu_ClusterID (di_Updated diff)) \<subseteq> set (userClusters kn (run_userID run))"
    "di_Died diff = filter (\<lambda>i. i \<notin> set (map cu_ClusterID (di_Updated diff))) (userClusters kn (run_userID run))"
    "mset (map cu_NewMembers (di_Updated diff)) + mset (map cb_Members (di_Born diff)) = mset (map snd (cl_Clusters result))"
    "\<forall>b \<in> set (di_Born diff). indicesOK run (cb_Members b)" "\<forall>x \<in> set (di_Updated diff). indicesOK run (cu_NewMembers x)"
    "length (di_Born diff) \<le> length (run_records run)"
proof -
  let ?u = "run_userID run" and ?emb = "runEmbeddings run" and ?fl = "run_fl run" and ?ex = "LoadClustersForUser kn (run_userID run)"
  obtain L result where res: "RunDBSCAN ?fl ?emb cfg = Some result" "length L = length ?emb" "groupedTo L (length L) result"
    by (rule RunDBSCAN_labels[OF mul])
  have keys: "distinct (map fst (cl_Clusters result))" using res(3) by (simp add: groupedTo_def)
  have members: "indicesOK run is" "i \<in> set is \<Longrightarrow> i < length ?emb" if "(c, is) \<in> set (cl_Clusters result)" for c "is" i
    using grouped_members[OF res(3) that] res(2) by (auto simp: labelled_def indicesOK_def runEmbeddings_def)
  note E = existing_ids[OF user, of kn]
  have dE: "distinct (map kc_ID (map toCluster ?ex))" using ok unfolding E by (simp add: userClusters_def knowledgeOK_def distinct_map_filter)
  obtain diff where diff: "DiffClusters ?fl shuffle (order1 (cl_Clusters result)) (order2 (cl_Clusters result)) ?emb (runSourceIDs run)
        (map toCluster ?ex) = Some diff"
      "distinct (map cu_ClusterID (di_Updated diff))" "set (map cu_ClusterID (di_Updated diff)) \<subseteq> set (userClusters kn ?u)"
      "di_Died diff = filter (\<lambda>i. i \<notin> set (map cu_ClusterID (di_Updated diff))) (userClusters kn ?u)"
      "mset (map cu_NewMembers (di_Updated diff)) + mset (map cb_Members (di_Born diff)) = mset (map snd (cl_Clusters result))"
    by (rule DiffClusters_partition[OF orders(1) orders(2,3) keys dims members(2) dE, unfolded E])
  have "set (map cu_NewMembers (di_Updated diff)) \<union> set (map cb_Members (di_Born diff)) = set (map snd (cl_Clusters result))"
    using diff(5) by (metis mset_append mset_eq_setD set_append)
  then have idx: "\<forall>b \<in> set (di_Born diff). indicesOK run (cb_Members b)" "\<forall>x \<in> set (di_Updated diff). indicesOK run (cu_NewMembers x)"
    using members(1) by fastforce+
  have "length (di_Born diff) \<le> length (cl_Clusters result)" using arg_cong[OF diff(5), of size] by simp
  also have "\<dots> \<le> length (run_records run)" using grouped_clusters_length[OF res(3)] res(2) by (simp add: runEmbeddings_def)
  finally show thesis using that res(1) diff idx by blast
qed

text \<open>
  C20 (cluster_run_stores_clusters): a clustering run of a user with embeddings succeeds and leaves exactly the clusters of
  the density-based clustering stored for the user, each with its sources in order, whatever was stored before and in
  whatever order maps are iterated over; the clusters of other users are untouched.
\<close>

theorem cluster_run_stores_clusters:
  assumes mul: "\<And>x y. fl_mul (run_fl run) x y = fl_mul (run_fl run) y x"
    and records: "run_records run \<noteq> []" "distinct (runSourceIDs run)" "\<And>e. e \<in> set (runEmbeddings run) \<Longrightarrow> length e = dim"
    and user: "run_userID run \<noteq> []" "v \<noteq> []" "v \<noteq> run_userID run" and ok: "knowledgeOK kn"
    and ids: "distinct ids" "\<forall>i \<in> set ids. \<not> hasCluster kn i" "length (run_records run) \<le> length ids"
    and orders: "\<And>xs. mset (shuffle xs) = mset xs" "\<And>xs. mset (order1 xs) = mset xs" "\<And>xs. mset (order2 xs) = mset xs"
  shows "\<exists>result kn' counts. RunDBSCAN (run_fl run) (runEmbeddings run) cfg = Some result
     \<and> clusterUser run cfg shuffle order1 order2 ids texts extract kn = Some (kn', counts, Inr ()) \<and> knowledgeOK kn'
     \<and> mset (map snd (clusterView kn' (run_userID run))) = mset (map (\<lambda>c. memberSources run (snd c)) (cl_Clusters result))
     \<and> clusterView kn' v = clusterView kn v"
proof (rule run_diff[OF mul records(3) user(1) ok orders])
  let ?u = "run_userID run" and ?ex = "LoadClustersForUser kn (run_userID run)"
  fix result diff
  assume res: "RunDBSCAN (run_fl run) (runEmbeddings run) cfg = Some result"
    and diff: "DiffClusters (run_fl run) shuffle (order1 (cl_Clusters result)) (order2 (cl_Clusters result)) (runEmbeddings run) (runSourceIDs run)
        (map toCluster ?ex) = Some diff"
      "distinct (map cu_ClusterID (di_Updated diff))" "set (map cu_ClusterID (di_Updated diff)) \<subseteq> set (userClusters kn ?u)"
      "di_Died diff = filter (\<lambda>i. i \<notin> set (map cu_ClusterID (di_Updated diff))) (userClusters kn ?u)"
      "mset (map cu_NewMembers (di_Updated diff)) + mset (map cb_Members (di_Born diff)) = mset (map snd (cl_Clusters result))"
    and idx: "\<forall>b \<in> set (di_Born diff). indicesOK run (cb_Members b)" "\<forall>x \<in> set (di_Updated diff). indicesOK run (cu_NewMembers x)"
    and len: "length (di_Born diff) \<le> length (run_records run)"
  let ?ids = "take (length (di_Born diff)) ids"
  have bl: "length ?ids = length (di_Born diff)" using len ids(3) by simp
  have new: "\<forall>i \<in> set ?ids. \<not> hasCluster kn i" using ids(2) in_set_takeD by fast
  obtain kn1 kn2 kn3 where w: "applyWrites (bornCluster run) (zip ?ids (di_Born diff)) kn = (kn1, length (di_Born diff), Inr ())"
    "applyWrites (updatedCluster run ?ex) (di_Updated diff) kn1 = (kn2, length (di_Updated diff), Inr ())"
    "applyWrites DeleteCluster (di_Died diff) kn2 = (kn3, length (di_Died diff), Inr ())" "knowledgeOK kn3"
    and keys: "clusterKeys kn3 = filter (\<lambda>k. fst k \<notin> set (di_Died diff)) (clusterKeys kn) @ map (\<lambda>i. (i, ?u)) ?ids"
    and src: "map (sourcesOf kn3) ?ids = map (\<lambda>b. memberSources run (cb_Members b)) (di_Born diff)"
    "map (\<lambda>x. sourcesOf kn3 (cu_ClusterID x)) (di_Updated diff) = map (\<lambda>x. memberSources run (cu_NewMembers x)) (di_Updated diff)"
    and same: "\<And>i. i \<notin> set ?ids \<Longrightarrow> i \<notin> set (userClusters kn ?u) \<Longrightarrow> sourcesOf kn3 i = sourcesOf kn i"
    by (rule diff_applied[OF records(2) ok user(1) distinct_take[OF ids(1)] new bl diff(2,3,4) idx, of ?ex]) blast
  define kn' where "kn' = (if length (di_Born diff) > 0 \<or> length (di_Updated diff) > 0 then refreshKeywords run texts extract kn3 else kn3)"
  have k': "knowledgeOK kn'" "clusterKeys kn' = clusterKeys kn3" "sourcesOf kn' = sourcesOf kn3"
    using keywords_refreshed[OF w(4)] w(4) by (simp_all add: kn'_def)
  have "zip ids (di_Born diff) = zip ?ids (di_Born diff)" by (rule zip_prefix)
  then have "clusterUser run cfg shuffle order1 order2 ids texts extract kn
      = Some (kn', (length (di_Born diff), length (di_Updated diff), length (di_Died diff)), Inr ())"
    using records(1) res diff(1) w(1-3) by (simp add: clusterUser_def Let_def kn'_def)
  moreover have "\<forall>i. i \<notin> set ?ids \<and> i \<notin> set (userClusters kn ?u) \<longrightarrow> sourcesOf kn' i = sourcesOf kn i" using same k'(3) by simp
  note after = view_after[OF ok diff(2,3) user keys[folded k'(2), unfolded diff(4)] new this]
  have "map (sourcesOf kn') (map cu_ClusterID (di_Updated diff)) = map (memberSources run) (map cu_NewMembers (di_Updated diff))"
    "map (sourcesOf kn') ?ids = map (memberSources run) (map cb_Members (di_Born diff))"
    using src by (simp_all only: k'(3) map_map comp_def)
  then have "mset (map (sourcesOf kn') (map cu_ClusterID (di_Updated diff))) + mset (map (sourcesOf kn') ?ids)
      = image_mset (memberSources run) (mset (map cu_NewMembers (di_Updated diff)) + mset (map cb_Members (di_Born diff)))"
    by (simp only: mset_map[of "memberSources run"] image_mset_union)
  then have "mset (map snd (clusterView kn' ?u)) = image_mset (memberSources run) (mset (map snd (cl_Clusters result)))"
    using after(1) by (simp only: diff(5))
  then have "mset (map snd (clusterView kn' ?u)) = mset (map (\<lambda>c. memberSources run (snd c)) (cl_Clusters result))"
    by (simp add: multiset.map_comp comp_def)
  ultimately show ?thesis using res k'(1) after(2) by blast
qed

text \<open>A user with a stored cluster, one new source in it and one elsewhere; another user has a cluster, too.\<close>

definition sampleRecord :: "uuid \<Rightarrow> int list \<Rightarrow> int EmbeddingRecord" where
  "sampleRecord i v = \<lparr>em_SourceID = i, em_SourceType = 0, em_UserID = ''ann'', em_Embedding = v\<rparr>"

definition sampleRun :: "int Run" where
  "sampleRun = \<lparr>run_fl = intFloats,
     run_records = [sampleRecord ''s1'' [1, 0], sampleRecord ''s2'' [1, 0], sampleRecord ''s3'' [0, 1], sampleRecord ''s4'' [1, 0]],
     run_userID = ''ann'', run_clock = (\<lambda>_. 9), run_now = 8, run_decay = 5\<rparr>"

definition sampleCluster :: "uuid \<Rightarrow> string \<Rightarrow> int StoredCluster" where
  "sampleCluster i u = \<lparr>sc_ID = i, sc_UserID = u, sc_Label = [], sc_Keywords = [], sc_Centroid = [1, 0], sc_MemberCount = 2,
     sc_Trend = 0, sc_SourceType = 0, sc_CreatedAt = 0, sc_UpdatedAt = 0\<rparr>"

definition sampleMember :: "uuid \<Rightarrow> uuid \<Rightarrow> int StoredClusterMember" where
  "sampleMember i s = \<lparr>ms_ClusterID = i, ms_SourceID = s, ms_SourceType = 0, ms_Distance = 0\<rparr>"

definition sampleKnowledge :: "int knowledge" where
  "sampleKnowledge = \<lparr>kn_clusters = [sampleCluster ''k1'' ''ann'', sampleCluster ''k2'' ''bob''],
     kn_members = [sampleMember ''k1'' ''s1'', sampleMember ''k2'' ''s9'', sampleMember ''k1'' ''s2'']\<rparr>"

theorem cluster_run_stores_clusters_witness:
  "\<exists>kn' counts. clusterUser sampleRun \<lparr>db_Epsilon = 0, db_MinPoints = 3\<rparr> rev rev rev [''n1'', ''n2'', ''n3'', ''n4'']
      (\<lambda>_. None) (\<lambda>_. []) sampleKnowledge = Some (kn', counts, Inr ())
    \<and> knowledgeOK kn' \<and> map snd (clusterView kn' ''ann'') = [[''s1'', ''s2'', ''s4'']] \<and> clusterView kn' ''bob'' = [(''k2'', [''s9''])]"
proof -
  have "clusterView sampleKnowledge ''bob'' = [(''k2'', [''s9''])]" "knowledgeOK sampleKnowledge" "distinct (runSourceIDs sampleRun)"
      "\<forall>i \<in> set [''n1'', ''n2'', ''n3'', ''n4'']. \<not> hasCluster sampleKnowledge i" "list_all (\<lambda>e. length e = 2) (runEmbeddings sampleRun)"
      "length (run_records sampleRun) = 4"
      "run_records sampleRun \<noteq> []"
    by code_simp+
  moreover have "map_option (\<lambda>r. map (\<lambda>c. memberSources sampleRun (snd c)) (cl_Clusters r))
      (RunDBSCAN (run_fl sampleRun) (runEmbeddings sampleRun) \<lparr>db_Epsilon = 0, db_MinPoints = 3\<rparr>) = Some [[''s1'', ''s2'', ''s4'']]" by code_simp
  moreover have "fl_mul (run_fl sampleRun) x y = fl_mul (run_fl sampleRun) y x" for x y by (simp add: sampleRun_def intFloats_def)
  moreover have u: "run_userID sampleRun = ''ann''" by (simp add: sampleRun_def)
  ultimately show ?thesis
    using cluster_run_stores_clusters[of sampleRun 2 "''bob''" sampleKnowledge "[''n1'', ''n2'', ''n3'', ''n4'']" rev rev rev
        "\<lparr>db_Epsilon = 0, db_MinPoints = 3\<rparr>" "\<lambda>_. None" "\<lambda>_. []"]
    by (auto simp: list_all_iff simp del: mset_map)
qed

end
