(* ===== verification/Namespaces.thy ===== *)
theory Namespaces
  imports Prelude "HOL-Library.Sublist"
begin

text \<open>
  Namespaces of episodic memories (\<open>internal/episodic/namespace.go\<close>): a list of segments is stored as one string, each
  segment percent-encoded and the segments joined by the record separator. A prefix of segments is looked up with a
  \<open>LIKE\<close> pattern.

  The lemmas show that decoding restores the segments, and what the pattern matches: with the escape character and the
  case-sensitive comparison of PostgreSQL exactly the namespaces below the prefix; as SQLite evaluates the very same
  condition, namespaces that differ in case too, and none at all when the prefix has a character the pattern escapes.
\<close>

datatype memory_error = ErrMemoryRevisionConflict | ErrMemoryKindVersionConflict | MemoryFailure string

type_synonym namespace = "string list"

section \<open>Percent encoding\<close>

text \<open>\<open>url.PathEscape\<close> and \<open>url.PathUnescape\<close>.\<close>

definition byteOf :: "char \<Rightarrow> nat" where
  "byteOf c = of_char c"

definition isAlnum :: "char \<Rightarrow> bool" where
  "isAlnum c \<longleftrightarrow> (48 \<le> byteOf c \<and> byteOf c \<le> 57) \<or> (65 \<le> byteOf c \<and> byteOf c \<le> 90) \<or> (97 \<le> byteOf c \<and> byteOf c \<le> 122)"

definition shouldEscape :: "char \<Rightarrow> bool" where
  "shouldEscape c \<longleftrightarrow> \<not> (isAlnum c \<or> c \<in> set ''-_.~$&+=:@'')"

definition upperHex :: "nat \<Rightarrow> char" where
  "upperHex n = char_of (if n < 10 then 48 + n else 55 + n)"

definition escapeByte :: "char \<Rightarrow> string" where
  "escapeByte c = (if shouldEscape c then [CHR ''%'', upperHex (byteOf c div 16), upperHex (byteOf c mod 16)] else [c])"

definition PathEscape :: "string \<Rightarrow> string" where
  "PathEscape s = concat (map escapeByte s)"

definition unhex :: "char \<Rightarrow> nat option" where
  "unhex c = (let n = byteOf c
     in if 48 \<le> n \<and> n \<le> 57 then Some (n - 48) else if 97 \<le> n \<and> n \<le> 102 then Some (n - 87)
        else if 65 \<le> n \<and> n \<le> 70 then Some (n - 55) else None)"

fun PathUnescape :: "string \<Rightarrow> string option" where
  "PathUnescape [] = Some []"
| "PathUnescape (c # cs) =
     (if c = CHR ''%''
      then (case cs of
              h # l # rest \<Rightarrow>
                (case (unhex h, unhex l) of
                   (Some a, Some b) \<Rightarrow> map_option ((#) (char_of (16 * a + b))) (PathUnescape rest)
                 | _ \<Rightarrow> None)
            | _ \<Rightarrow> None)
      else map_option ((#) c) (PathUnescape cs))"

section \<open>Encoding a namespace\<close>

definition namespaceSep :: char where
  "namespaceSep = CHR 0x1E"

text \<open>\<open>strings.Join\<close>, \<open>strings.Split\<close> and \<open>strings.SplitN\<close> with a separator of one byte.\<close>

fun joinBy :: "char \<Rightarrow> string list \<Rightarrow> string" where
  "joinBy sep [] = []"
| "joinBy sep [s] = s"
| "joinBy sep (s # ss) = s @ sep # joinBy sep ss"

fun splitBy :: "char \<Rightarrow> string \<Rightarrow> string list" where
  "splitBy sep [] = [[]]"
| "splitBy sep (c # cs) =
     (if c = sep then [] # splitBy sep cs
      else case splitBy sep cs of p # ps \<Rightarrow> (c # p) # ps | [] \<Rightarrow> [[c]])"

definition splitN :: "char \<Rightarrow> string \<Rightarrow> nat \<Rightarrow> string list" where
  "splitN sep s n =
     (let parts = splitBy sep s
      in if n = 0 then [] else if length parts \<le> n then parts else take (n - 1) parts @ [joinBy sep (drop (n - 1) parts)])"

fun encodeSegments :: "nat \<Rightarrow> namespace \<Rightarrow> memory_error + string list" where
  "encodeSegments i [] = Inr []"
| "encodeSegments i (seg # segs) =
     (if seg = [] then Inl (MemoryFailure ''namespace segment is empty'')
      else andThen (encodeSegments (Suc i) segs) (\<lambda>encoded. Inr (PathEscape seg # encoded)))"

definition EncodeNamespace :: "namespace \<Rightarrow> int \<Rightarrow> memory_error + string" where
  "EncodeNamespace segments maxDepth =
     (if segments = [] then Inl (MemoryFailure ''namespace must have at least one segment'')
      else if maxDepth > 0 \<and> int (length segments) > maxDepth then Inl (MemoryFailure ''namespace depth exceeds configured limit'')
      else andThen (encodeSegments 0 segments) (\<lambda>encoded. Inr (joinBy namespaceSep encoded)))"

definition DecodeNamespace :: "string \<Rightarrow> memory_error + namespace" where
  "DecodeNamespace encoded =
     (if encoded = [] then Inl (MemoryFailure ''encoded namespace is empty'')
      else case those (map PathUnescape (splitBy namespaceSep encoded)) of
             None \<Rightarrow> Inl (MemoryFailure ''failed to decode namespace segment'')
           | Some segments \<Rightarrow> Inr segments)"

definition escapeLikeChar :: "char \<Rightarrow> string" where
  "escapeLikeChar c = (if c = CHR 0x5C \<or> c = CHR ''%'' \<or> c = CHR ''_'' then [CHR 0x5C, c] else [c])"

definition NamespacePrefixPattern :: "string \<Rightarrow> string" where
  "NamespacePrefixPattern prefixEncoded =
     (let escaped = concat (map escapeLikeChar prefixEncoded) in escaped @ [namespaceSep] @ ''%'')"

definition NamespaceTruncate :: "string \<Rightarrow> nat \<Rightarrow> string" where
  "NamespaceTruncate encoded depth =
     (let parts = splitN namespaceSep encoded (depth + 1)
      in if length parts \<le> depth then encoded else joinBy namespaceSep (take depth parts))"

definition MatchesSuffix :: "string \<Rightarrow> namespace \<Rightarrow> bool" where
  "MatchesSuffix encoded sfx =
     (if sfx = [] then True
      else case DecodeNamespace encoded of
             Inl _ \<Rightarrow> False
           | Inr segments \<Rightarrow>
               if length segments < length sfx then False
               else drop (length segments - length sfx) segments = sfx)"

section \<open>The condition of a query\<close>

text \<open>
  SQL's \<open>LIKE\<close>: \<open>%\<close> matches any text and \<open>_\<close> any character; the character after the escape character stands for itself.
  In PostgreSQL the escape character is the backslash and case matters; in SQLite there is no escape character unless the
  query names one, and the case of ASCII letters is ignored.
\<close>

function sqlLike :: "(char \<Rightarrow> char) \<Rightarrow> char option \<Rightarrow> string \<Rightarrow> string \<Rightarrow> bool" where
  "sqlLike cf esc [] s = (s = [])"
| "sqlLike cf esc (p # ps) s =
     (if Some p = esc
      then (case (ps, s) of (q # qs, c # cs) \<Rightarrow> cf c = cf q \<and> sqlLike cf esc qs cs | _ \<Rightarrow> False)
      else if p = CHR ''%'' then sqlLike cf esc ps s \<or> (case s of [] \<Rightarrow> False | _ # cs \<Rightarrow> sqlLike cf esc (p # ps) cs)
      else if p = CHR ''_'' then (case s of [] \<Rightarrow> False | _ # cs \<Rightarrow> sqlLike cf esc ps cs)
      else (case s of [] \<Rightarrow> False | c # cs \<Rightarrow> cf c = cf p \<and> sqlLike cf esc ps cs))"
  by pat_completeness auto
termination by (relation "measure (\<lambda>(_, _, ps, s). length ps + length s)") auto

definition asciiLower :: "char \<Rightarrow> char" where
  "asciiLower c = (if 65 \<le> byteOf c \<and> byteOf c \<le> 90 then char_of (byteOf c + 32) else c)"

abbreviation sqliteLike :: "string \<Rightarrow> string \<Rightarrow> bool" where
  "sqliteLike pattern s \<equiv> sqlLike asciiLower None pattern s"

abbreviation sqliteLikeEscape :: "string \<Rightarrow> string \<Rightarrow> bool" where
  "sqliteLikeEscape pattern s \<equiv> sqlLike asciiLower (Some (CHR 0x5C)) pattern s"

abbreviation postgresLike :: "string \<Rightarrow> string \<Rightarrow> bool" where
  "postgresLike pattern s \<equiv> sqlLike id (Some (CHR 0x5C)) pattern s"

text \<open>\<open>namespace = ? OR namespace LIKE ?\<close> with the encoded prefix and its pattern.\<close>

definition namespaceUnder :: "(string \<Rightarrow> string \<Rightarrow> bool) \<Rightarrow> string \<Rightarrow> string \<Rightarrow> bool" where
  "namespaceUnder like nsEncoded ns \<longleftrightarrow> ns = nsEncoded \<or> like (NamespacePrefixPattern nsEncoded) ns"

section \<open>Round trip\<close>

lemma byteOf_less [simp]: "byteOf c < 256"
  by (simp add: byteOf_def)

lemma char_of_byteOf [simp]: "char_of (byteOf c) = c"
  by (simp add: byteOf_def)

lemma unhex_upperHex: "n < 16 \<Longrightarrow> unhex (upperHex n) = Some n"
  by (auto simp: unhex_def upperHex_def byteOf_def Let_def)

lemma PathUnescape_escapeByte: "PathUnescape (escapeByte c @ s) = map_option ((#) c) (PathUnescape s)"
proof (cases "shouldEscape c")
  case True
  have "byteOf c div 16 < 16" "byteOf c mod 16 < 16" using byteOf_less[of c] by (simp_all add: less_mult_imp_div_less)
  then show ?thesis using True by (simp add: escapeByte_def unhex_upperHex mult.commute)
next
  case False
  then have "c \<noteq> CHR ''%''" by (auto simp: shouldEscape_def isAlnum_def byteOf_def)
  with False show ?thesis by (simp add: escapeByte_def)
qed

lemma PathUnescape_PathEscape: "PathUnescape (PathEscape s) = Some s"
  by (induction s) (simp_all add: PathEscape_def PathUnescape_escapeByte)

text \<open>The bytes of an escaped segment: neither the separator nor a backslash.\<close>

definition plainByte :: "char \<Rightarrow> bool" where
  "plainByte c \<longleftrightarrow> \<not> shouldEscape c \<or> c = CHR ''%''"

lemma upperHex_plain: "n < 16 \<Longrightarrow> plainByte (upperHex n)"
  by (auto simp: plainByte_def shouldEscape_def isAlnum_def upperHex_def byteOf_def)

lemma PathEscape_plain: "c \<in> set (PathEscape s) \<Longrightarrow> plainByte c"
proof (induction s)
  case (Cons x s)
  have "byteOf x div 16 < 16" "byteOf x mod 16 < 16" using byteOf_less[of x] by (simp_all add: less_mult_imp_div_less)
  then show ?case
    using Cons upperHex_plain[of "byteOf x div 16"] upperHex_plain[of "byteOf x mod 16"]
    by (auto simp: PathEscape_def escapeByte_def plainByte_def split: if_splits)
qed (simp add: PathEscape_def)

lemma plainByte_not: "\<not> plainByte namespaceSep" "\<not> plainByte (CHR 0x5C)"
  by (auto simp: plainByte_def shouldEscape_def isAlnum_def byteOf_def namespaceSep_def)

lemma PathEscape_eq_Nil [simp]: "PathEscape s = [] \<longleftrightarrow> s = []"
  by (cases s) (auto simp: PathEscape_def escapeByte_def)

lemma splitBy_nonempty [simp]: "splitBy sep s \<noteq> []"
  by (induction s) (auto split: list.splits)

lemma splitBy_single: "sep \<notin> set s \<Longrightarrow> splitBy sep s = [s]"
  by (induction s) auto

lemma splitBy_append: "sep \<notin> set s \<Longrightarrow> splitBy sep (s @ sep # t) = s # splitBy sep t"
  by (induction s) auto

lemma splitBy_joinBy: "ss \<noteq> [] \<Longrightarrow> \<forall>s \<in> set ss. sep \<notin> set s \<Longrightarrow> splitBy sep (joinBy sep ss) = ss"
  by (induction sep ss rule: joinBy.induct) (auto simp: splitBy_single splitBy_append)

lemma joinBy_splitBy: "joinBy sep (splitBy sep s) = s"
proof (induction s)
  case (Cons c s)
  obtain p ps where "splitBy sep s = p # ps" using splitBy_nonempty[of sep s] by (cases "splitBy sep s") auto
  with Cons show ?case by (cases ps) auto
qed simp

lemma joinBy_set: "c \<in> set (joinBy sep ss) \<Longrightarrow> c = sep \<or> (\<exists>s \<in> set ss. c \<in> set s)"
  by (induction sep ss rule: joinBy.induct) auto

lemma joinBy_eq_Nil: "joinBy sep ss = [] \<longleftrightarrow> ss = [] \<or> ss = [[]]"
  by (induction sep ss rule: joinBy.induct) auto

lemma encodeSegments_eq: "encodeSegments i segs = (if [] \<in> set segs then Inl (MemoryFailure ''namespace segment is empty'') else Inr (map PathEscape segs))"
  by (induction segs arbitrary: i) auto

definition encodedNS :: "namespace \<Rightarrow> string" where
  "encodedNS segs = joinBy namespaceSep (map PathEscape segs)"

lemma EncodeNamespace_Inr:
  "EncodeNamespace segs d = Inr s \<longleftrightarrow> segs \<noteq> [] \<and> [] \<notin> set segs \<and> \<not> (d > 0 \<and> int (length segs) > d) \<and> s = encodedNS segs"
  by (auto simp: EncodeNamespace_def encodeSegments_eq encodedNS_def)

lemma PathEscape_no_sep: "namespaceSep \<notin> set (PathEscape s)"
  using PathEscape_plain plainByte_not by blast

lemma splitBy_encodedNS: "segs \<noteq> [] \<Longrightarrow> splitBy namespaceSep (encodedNS segs) = map PathEscape segs"
  unfolding encodedNS_def by (rule splitBy_joinBy) (auto simp: PathEscape_no_sep)

lemma those_map_unescape: "those (map PathUnescape (map PathEscape segs)) = Some segs"
  by (induction segs) (simp_all add: PathUnescape_PathEscape)

lemma DecodeNamespace_encodedNS:
  assumes "segs \<noteq> []" and "[] \<notin> set segs"
  shows "DecodeNamespace (encodedNS segs) = Inr segs"
proof -
  have "encodedNS segs \<noteq> []" using assms by (cases segs) (auto simp: encodedNS_def joinBy_eq_Nil)
  then show ?thesis using assms(1) by (simp add: DecodeNamespace_def splitBy_encodedNS those_map_unescape del: map_map)
qed

lemma encodedNS_inj: "xs \<noteq> [] \<Longrightarrow> ys \<noteq> [] \<Longrightarrow> encodedNS xs = encodedNS ys \<longleftrightarrow> xs = ys"
  by (metis splitBy_encodedNS those_map_unescape option.inject)


lemma NamespaceTruncate_encodedNS:
  assumes "segs \<noteq> []" and "0 < depth"
  shows "NamespaceTruncate (encodedNS segs) depth = encodedNS (take depth segs)"
proof (cases "length segs \<le> depth")
  case True
  then show ?thesis using assms by (simp add: NamespaceTruncate_def splitN_def splitBy_encodedNS)
next
  case False
  then have "take depth (splitN namespaceSep (encodedNS segs) (depth + 1)) = map PathEscape (take depth segs)"
    "length (splitN namespaceSep (encodedNS segs) (depth + 1)) = Suc depth"
    using assms by (auto simp: splitN_def splitBy_encodedNS Let_def take_map)
  then show ?thesis by (simp add: NamespaceTruncate_def Let_def encodedNS_def)
qed

lemma MatchesSuffix_encodedNS:
  assumes "segs \<noteq> []" and "[] \<notin> set segs"
  shows "MatchesSuffix (encodedNS segs) sfx \<longleftrightarrow> suffix sfx segs"
proof -
  have "drop (length segs - length sfx) segs = sfx \<longleftrightarrow> suffix sfx segs" if "length sfx \<le> length segs"
    using that by (metis append_eq_conv_conj append_take_drop_id length_append suffix_def suffix_drop add_diff_cancel_right')
  moreover have "length sfx \<le> length segs" if "suffix sfx segs" using that suffix_length_le by blast
  ultimately show ?thesis by (auto simp: MatchesSuffix_def DecodeNamespace_encodedNS[OF assms])
qed

section \<open>What the condition selects\<close>

lemma sqlLike_any [simp]: "esc \<noteq> Some (CHR ''%'') \<Longrightarrow> sqlLike cf esc ''%'' s"
  by (induction s) auto

text \<open>A literal text followed by \<open>%\<close>.\<close>

lemma sqlLike_literal:
  assumes "\<forall>c \<in> set p. c \<noteq> CHR ''%'' \<and> c \<noteq> CHR ''_'' \<and> Some c \<noteq> esc" and "esc \<noteq> Some (CHR ''%'')"
  shows "sqlLike cf esc (p @ ''%'') s \<longleftrightarrow> prefix (map cf p) (map cf s)"
  using assms
proof (induction p arbitrary: s)
  case Nil
  then show ?case using sqlLike_any[of esc cf s] by simp
next
  case (Cons a p)
  then show ?case by (cases s) (auto simp: eq_commute)
qed

lemma sqlLike_escaped:
  "sqlLike cf (Some (CHR 0x5C)) (concat (map escapeLikeChar p) @ [namespaceSep] @ ''%'') s
     \<longleftrightarrow> prefix (map cf (p @ [namespaceSep])) (map cf s)"
proof (induction p arbitrary: s)
  case Nil
  show ?case using sqlLike_any[of "Some (CHR 0x5C)" cf "tl s"] by (cases s) (auto simp: namespaceSep_def eq_commute)
next
  case (Cons a p)
  then show ?case by (cases s) (auto simp: escapeLikeChar_def eq_commute)
qed

lemma prefix_separated:
  "sep \<notin> set xs \<Longrightarrow> sep \<notin> set ys \<Longrightarrow> prefix (xs @ sep # t) (ys @ sep # u) \<longleftrightarrow> xs = ys \<and> prefix t u"
proof (induction xs arbitrary: ys)
  case Nil
  then show ?case by (cases ys) auto
next
  case (Cons a xs)
  then show ?case by (cases ys) auto
qed

lemma not_prefix_separated: "sep \<notin> set ys \<Longrightarrow> \<not> prefix (xs @ sep # t) ys"
  by (auto simp: prefix_def)

lemma joinBy_Cons: "ss \<noteq> [] \<Longrightarrow> joinBy sep (s # ss) = s @ sep # joinBy sep ss"
  by (cases ss) auto

text \<open>Prefixes of joined texts are prefixes of the lists of texts.\<close>

lemma prefix_joinBy:
  assumes "\<forall>s \<in> set xs \<union> set ys. sep \<notin> set s" and "xs \<noteq> []" and "ys \<noteq> []"
  shows "prefix (joinBy sep xs @ [sep]) (joinBy sep ys) \<longleftrightarrow> strict_prefix xs ys"
  using assms
proof (induction xs arbitrary: ys)
  case (Cons x xs)
  then obtain y ys' where ys: "ys = y # ys'" by (cases ys) auto
  have free: "sep \<notin> set x" "sep \<notin> set y" using Cons.prems(1) ys by auto
  show ?case
  proof (cases "ys' = []")
    case True
    have "joinBy sep (x # xs) @ [sep] = x @ sep # (if xs = [] then [] else joinBy sep xs @ [sep])" by (simp add: joinBy_Cons)
    then show ?thesis using True not_prefix_separated[OF free(2), of x] by (simp add: ys)
  next
    case more: False
    show ?thesis
    proof (cases "xs = []")
      case True
      then show ?thesis using prefix_separated[OF free, of "[]"] more by (auto simp: ys joinBy_Cons strict_prefix_simps strict_prefix_def)
    next
      case False
      then show ?thesis using prefix_separated[OF free, of "joinBy sep xs @ [sep]"] Cons.IH[of ys'] Cons.prems(1) more
        by (auto simp: ys joinBy_Cons strict_prefix_simps)
    qed
  qed
qed simp

lemma PathEscape_inj: "PathEscape a = PathEscape b \<longleftrightarrow> a = b"
  by (metis PathUnescape_PathEscape option.inject)

lemma prefix_encodedNS:
  assumes "ps \<noteq> []" and "ns \<noteq> []"
  shows "prefix (encodedNS ps @ [namespaceSep]) (encodedNS ns) \<longleftrightarrow> strict_prefix ps ns"
proof -
  have "inj PathEscape" by (simp add: inj_def PathEscape_inj)
  then have "strict_prefix (map PathEscape ps) (map PathEscape ns) \<longleftrightarrow> strict_prefix ps ns"
    by (metis inj_map_eq_map map_mono_prefix prefix_def append_eq_map_conv strict_prefix_def)
  then show ?thesis using prefix_joinBy[of "map PathEscape ps" "map PathEscape ns" namespaceSep] assms PathEscape_no_sep
    by (auto simp: encodedNS_def)
qed

text \<open>Ignoring case commutes with escaping: a letter is never escaped, and hexadecimal digits are read in either case.\<close>

definition lowerAll :: "string \<Rightarrow> string" where
  "lowerAll s = map asciiLower s"

lemma asciiLower_id: "\<not> (65 \<le> byteOf c \<and> byteOf c \<le> 90) \<Longrightarrow> asciiLower c = c"
  by (auto simp: asciiLower_def)

lemma byteOf_asciiLower: "byteOf (asciiLower c) = (if 65 \<le> byteOf c \<and> byteOf c \<le> 90 then byteOf c + 32 else byteOf c)"
  by (simp add: asciiLower_def byteOf_def)

lemma shouldEscape_lower: "shouldEscape (asciiLower c) \<longleftrightarrow> shouldEscape c"
proof (cases "65 \<le> byteOf c \<and> byteOf c \<le> 90")
  case True
  then show ?thesis by (simp add: shouldEscape_def isAlnum_def byteOf_asciiLower)
qed (simp add: asciiLower_id)

lemma byteOf_upperHex: "n < 16 \<Longrightarrow> byteOf (upperHex n) = (if n < 10 then 48 + n else 55 + n)"
  by (auto simp: upperHex_def byteOf_def)

lemma unhex_lower_upperHex: "n < 16 \<Longrightarrow> unhex (asciiLower (upperHex n)) = Some n"
  by (auto simp: unhex_def byteOf_asciiLower Let_def byteOf_upperHex)

lemma PathUnescape_lower_escapeByte:
  "PathUnescape (lowerAll (escapeByte c) @ s) = map_option ((#) (asciiLower c)) (PathUnescape s)"
proof (cases "shouldEscape c")
  case True
  then have "asciiLower c = c" by (intro asciiLower_id) (auto simp: shouldEscape_def isAlnum_def)
  moreover have "byteOf c div 16 < 16" "byteOf c mod 16 < 16" using byteOf_less[of c] by (simp_all add: less_mult_imp_div_less)
  moreover have "asciiLower (CHR ''%'') = CHR ''%''" by (simp add: asciiLower_def byteOf_def)
  ultimately show ?thesis using True by (simp add: lowerAll_def escapeByte_def unhex_lower_upperHex mult.commute)
next
  case False
  then have "asciiLower c \<noteq> CHR ''%''" using shouldEscape_lower[of c] by (auto simp: shouldEscape_def isAlnum_def byteOf_def)
  with False show ?thesis by (simp add: lowerAll_def escapeByte_def)
qed

lemma PathUnescape_lower: "PathUnescape (lowerAll (PathEscape s)) = Some (lowerAll s)"
proof (induction s)
  case (Cons c s)
  have "lowerAll (PathEscape (c # s)) = lowerAll (escapeByte c) @ lowerAll (PathEscape s)" by (simp add: lowerAll_def PathEscape_def)
  with Cons show ?case by (simp add: PathUnescape_lower_escapeByte) (simp add: lowerAll_def)
qed (simp add: lowerAll_def PathEscape_def)

lemma lowerAll_PathEscape: "lowerAll (PathEscape (lowerAll s)) = lowerAll (PathEscape s)"
proof -
  have idem: "asciiLower (asciiLower c) = asciiLower c" for c by (rule asciiLower_id) (simp add: byteOf_asciiLower)
  have "lowerAll (escapeByte (asciiLower c)) = lowerAll (escapeByte c)" for c
  proof (cases "shouldEscape c")
    case True
    then have "asciiLower c = c" by (intro asciiLower_id) (auto simp: shouldEscape_def isAlnum_def)
    then show ?thesis by simp
  qed (simp add: lowerAll_def escapeByte_def shouldEscape_lower idem)
  then show ?thesis unfolding lowerAll_def PathEscape_def by (induction s) simp_all
qed

lemma lowerAll_PathEscape_eq: "lowerAll (PathEscape a) = lowerAll (PathEscape b) \<longleftrightarrow> lowerAll a = lowerAll b"
  by (metis PathUnescape_lower lowerAll_PathEscape option.inject)

lemma lowerAll_joinBy: "lowerAll (joinBy namespaceSep ss) = joinBy namespaceSep (map lowerAll ss)"
  by (induction namespaceSep ss rule: joinBy.induct) (simp_all add: lowerAll_def, simp add: asciiLower_def byteOf_def namespaceSep_def)

lemma postgresLike_namespace:
  assumes "EncodeNamespace ps d = Inr p" and "EncodeNamespace ns d' = Inr n"
  shows "namespaceUnder postgresLike p n \<longleftrightarrow> prefix ps ns"
  using assms prefix_encodedNS[of ps ns] encodedNS_inj[of ns ps]
  by (auto simp: namespaceUnder_def EncodeNamespace_Inr NamespacePrefixPattern_def sqlLike_escaped strict_prefix_def simp del: append_Cons)

text \<open>
  In SQLite the backslash of the pattern is an ordinary character, which no encoded namespace has: a prefix with a
  character that the pattern escapes matches nothing below it. Any other prefix matches up to the case of letters.
\<close>

lemma sqlLike_backslash:
  assumes "\<forall>c \<in> set s. cf c \<noteq> cf (CHR 0x5C)" and "CHR 0x5C \<in> set pat" and "\<forall>c \<in> set (takeWhile (\<lambda>c. c \<noteq> CHR 0x5C) pat). c \<noteq> CHR ''%'' \<and> c \<noteq> CHR ''_''"
  shows "\<not> sqlLike cf None pat s"
  using assms
proof (induction pat arbitrary: s)
  case (Cons a pat)
  then show ?case by (cases s) (auto split: if_splits)
qed simp

lemma escaped_takeWhile:
  "c \<in> set (takeWhile (\<lambda>c. c \<noteq> CHR 0x5C) (concat (map escapeLikeChar p) @ t)) \<Longrightarrow> (\<exists>x \<in> set p. x = CHR 0x5C \<or> x = CHR ''%'' \<or> x = CHR ''_'') \<Longrightarrow> c \<noteq> CHR ''%'' \<and> c \<noteq> CHR ''_''"
  by (induction p) (auto simp: escapeLikeChar_def split: if_splits)

definition likeSafe :: "string \<Rightarrow> bool" where
  "likeSafe p \<longleftrightarrow> CHR ''%'' \<notin> set p \<and> CHR ''_'' \<notin> set p"

lemma encodedNS_bytes: "c \<in> set (encodedNS segs) \<Longrightarrow> plainByte c \<or> c = namespaceSep"
  unfolding encodedNS_def by (auto dest!: joinBy_set PathEscape_plain)

lemma asciiLower_backslash: "asciiLower c = asciiLower (CHR 0x5C) \<longleftrightarrow> c = CHR 0x5C"
proof
  assume a: "asciiLower c = asciiLower (CHR 0x5C)"
  show "c = CHR 0x5C"
  proof (cases "65 \<le> byteOf c \<and> byteOf c \<le> 90")
    case True
    then have "(of_char (char_of (byteOf c + 32)) :: nat) = 92" using a by (simp add: asciiLower_def byteOf_def)
    then show ?thesis using True by simp
  next
    case False
    moreover have "asciiLower (CHR 0x5C) = CHR 0x5C" by (simp add: asciiLower_def byteOf_def)
    ultimately show ?thesis using a by (auto simp: asciiLower_def)
  qed
qed simp

lemma sqliteLike_namespace:
  assumes "EncodeNamespace ps d = Inr p" and "EncodeNamespace ns d' = Inr n"
  shows "namespaceUnder sqliteLike p n
     \<longleftrightarrow> ns = ps \<or> (likeSafe p \<and> prefix (map asciiLower (p @ [namespaceSep])) (map asciiLower n))"
proof -
  have p: "p = encodedNS ps" "n = encodedNS ns" "ns = ps \<longleftrightarrow> n = p" using assms encodedNS_inj[of ns ps] by (auto simp: EncodeNamespace_Inr)
  have bs: "CHR 0x5C \<notin> set n" "CHR 0x5C \<notin> set p"
    using encodedNS_bytes plainByte_not unfolding p(1,2) by (force simp: namespaceSep_def)+
  have "sqliteLike (NamespacePrefixPattern p) n \<longleftrightarrow> likeSafe p \<and> prefix (map asciiLower (p @ [namespaceSep])) (map asciiLower n)"
  proof (cases "likeSafe p")
    case True
    then have "\<forall>c \<in> set p. escapeLikeChar c = [c]" using bs(2) by (auto simp: likeSafe_def escapeLikeChar_def)
    then have "concat (map escapeLikeChar p) = p" by (induction p) auto
    then have "NamespacePrefixPattern p = (p @ [namespaceSep]) @ ''%''" by (simp add: NamespacePrefixPattern_def)
    then show ?thesis using True sqlLike_literal[of "p @ [namespaceSep]" None asciiLower n] by (auto simp: likeSafe_def namespaceSep_def)
  next
    case False
    then have ex: "\<exists>x \<in> set p. x = CHR 0x5C \<or> x = CHR ''%'' \<or> x = CHR ''_''" by (auto simp: likeSafe_def)
    then obtain x where "x \<in> set p" "CHR 0x5C \<in> set (escapeLikeChar x)" by (auto simp: escapeLikeChar_def)
    then have "CHR 0x5C \<in> set (NamespacePrefixPattern p)" unfolding NamespacePrefixPattern_def Let_def set_append set_concat set_map by blast
    moreover have "\<forall>c \<in> set (takeWhile (\<lambda>c. c \<noteq> CHR 0x5C) (NamespacePrefixPattern p)). c \<noteq> CHR ''%'' \<and> c \<noteq> CHR ''_''"
      unfolding NamespacePrefixPattern_def Let_def using escaped_takeWhile[OF _ ex] by blast
    moreover have "\<forall>c \<in> set n. asciiLower c \<noteq> asciiLower (CHR 0x5C)" using bs(1) asciiLower_backslash by metis
    ultimately have "\<not> sqliteLike (NamespacePrefixPattern p) n" by (intro sqlLike_backslash)
    then show ?thesis using False by simp
  qed
  then show ?thesis by (simp add: namespaceUnder_def p(3))
qed


text \<open>The characters a segment may have for its prefix pattern to work in SQLite.\<close>

definition plainSegments :: "namespace \<Rightarrow> bool" where
  "plainSegments ps \<longleftrightarrow> (\<forall>seg \<in> set ps. \<forall>c \<in> set seg. \<not> shouldEscape c \<and> c \<noteq> CHR ''_'')"

lemma likeSafe_PathEscape: "likeSafe (PathEscape seg) \<longleftrightarrow> (\<forall>c \<in> set seg. \<not> shouldEscape c \<and> c \<noteq> CHR ''_'')"
proof (induction seg)
  case (Cons c seg)
  have "likeSafe (escapeByte c) \<longleftrightarrow> \<not> shouldEscape c \<and> c \<noteq> CHR ''_''"
    by (auto simp: likeSafe_def escapeByte_def shouldEscape_def isAlnum_def byteOf_def)
  moreover have "likeSafe (PathEscape (c # seg)) \<longleftrightarrow> likeSafe (escapeByte c) \<and> likeSafe (PathEscape seg)"
    by (auto simp: likeSafe_def PathEscape_def)
  ultimately show ?case using Cons by simp
qed (simp add: likeSafe_def PathEscape_def)

lemma likeSafe_encodedNS: "ps \<noteq> [] \<Longrightarrow> likeSafe (encodedNS ps) \<longleftrightarrow> plainSegments ps"
proof (induction ps)
  case (Cons p ps)
  have "likeSafe (encodedNS (p # ps)) \<longleftrightarrow> likeSafe (PathEscape p) \<and> (ps = [] \<or> likeSafe (encodedNS ps))"
    by (cases "ps = []") (auto simp: encodedNS_def joinBy_Cons likeSafe_def namespaceSep_def)
  with Cons show ?case by (cases "ps = []") (auto simp: plainSegments_def likeSafe_PathEscape)
qed simp

lemma strict_prefix_map_cong:
  assumes "\<And>a b. f a = f b \<longleftrightarrow> g a = g b"
  shows "strict_prefix (map f xs) (map f ys) \<longleftrightarrow> strict_prefix (map g xs) (map g ys)"
proof (induction xs arbitrary: ys)
  case Nil
  then show ?case by (cases ys) simp_all
next
  case (Cons x xs)
  then show ?case by (cases ys) (simp_all add: assms)
qed

lemma asciiLower_sep: "asciiLower c = namespaceSep \<longleftrightarrow> c = namespaceSep"
proof
  assume "asciiLower c = namespaceSep"
  then have "byteOf (asciiLower c) = 30" by (simp add: namespaceSep_def byteOf_def)
  then have "asciiLower c = c" by (intro asciiLower_id) (auto simp: byteOf_asciiLower)
  with \<open>asciiLower c = namespaceSep\<close> show "c = namespaceSep" by simp
qed (simp add: asciiLower_def byteOf_def namespaceSep_def)

lemma prefix_lower_encodedNS:
  assumes "ps \<noteq> []" and "ns \<noteq> []"
  shows "prefix (lowerAll (encodedNS ps @ [namespaceSep])) (lowerAll (encodedNS ns)) \<longleftrightarrow> strict_prefix (map lowerAll ps) (map lowerAll ns)"
proof -
  let ?e = "\<lambda>s. lowerAll (PathEscape s)"
  have free: "namespaceSep \<notin> set (?e s)" for s
  proof
    assume "namespaceSep \<in> set (?e s)"
    then obtain c where "c \<in> set (PathEscape s)" "asciiLower c = namespaceSep" by (auto simp: lowerAll_def)
    then show False using asciiLower_sep PathEscape_no_sep by metis
  qed
  have eq: "lowerAll (encodedNS xs) = joinBy namespaceSep (map ?e xs)" for xs
    by (simp add: encodedNS_def lowerAll_joinBy comp_def)
  have "lowerAll (encodedNS ps @ [namespaceSep]) = joinBy namespaceSep (map ?e ps) @ [namespaceSep]"
    using eq[of ps] asciiLower_sep[of namespaceSep] by (simp add: lowerAll_def)
  moreover have "strict_prefix (map ?e ps) (map ?e ns) \<longleftrightarrow> strict_prefix (map lowerAll ps) (map lowerAll ns)"
    by (rule strict_prefix_map_cong) (rule lowerAll_PathEscape_eq)
  ultimately show ?thesis using prefix_joinBy[of "map ?e ps" "map ?e ns" namespaceSep] assms free eq[of ns] by auto
qed

text \<open>
  C36 (namespace_round_trip): a namespace is restored from its encoding, truncating an encoding keeps the first segments, and
  the suffix test on an encoding is the one on segments.
\<close>

theorem namespace_round_trip:
  assumes "EncodeNamespace segs maxDepth = Inr encoded" and "0 < depth"
  shows "DecodeNamespace encoded = Inr segs \<and> (MatchesSuffix encoded sfx \<longleftrightarrow> suffix sfx segs)
    \<and> DecodeNamespace (NamespaceTruncate encoded depth) = Inr (take depth segs)"
proof -
  have e: "segs \<noteq> []" "[] \<notin> set segs" "encoded = encodedNS segs" using assms(1) by (auto simp: EncodeNamespace_Inr)
  have "take depth segs \<noteq> []" using e(1) assms(2) by simp
  moreover have "[] \<notin> set (take depth segs)" using e(2) set_take_subset by fast
  ultimately show ?thesis
    using NamespaceTruncate_encodedNS[OF e(1) assms(2)] DecodeNamespace_encodedNS MatchesSuffix_encodedNS e by simp
qed

theorem namespace_round_trip_witness:
  "\<exists>encoded. EncodeNamespace [''user'', ''a/b'', ''x''] 0 = Inr encoded \<and> DecodeNamespace encoded = Inr [''user'', ''a/b'', ''x'']
     \<and> MatchesSuffix encoded [''a/b'', ''x''] \<and> DecodeNamespace (NamespaceTruncate encoded 2) = Inr [''user'', ''a/b'']"
proof -
  obtain encoded where e: "EncodeNamespace [''user'', ''a/b'', ''x''] 0 = Inr encoded"
    using EncodeNamespace_Inr[of "[''user'', ''a/b'', ''x'']" 0] by auto
  show ?thesis using namespace_round_trip[OF e, of 2 "[''a/b'', ''x'']"] e by (auto simp: suffix_def)
qed

lemma sqlite_condition:
  assumes "EncodeNamespace ps d = Inr p" and "EncodeNamespace ns d' = Inr n"
  shows "namespaceUnder sqliteLike p n \<longleftrightarrow> ns = ps \<or> (plainSegments ps \<and> strict_prefix (map lowerAll ps) (map lowerAll ns))"
proof -
  have e: "ps \<noteq> []" "ns \<noteq> []" "p = encodedNS ps" "n = encodedNS ns" using assms by (auto simp: EncodeNamespace_Inr)
  show ?thesis
    using sqliteLike_namespace[OF assms] prefix_lower_encodedNS[OF e(1,2)] likeSafe_encodedNS[OF e(1)] e(3,4)
    by (simp add: lowerAll_def)
qed

text \<open>
  C35 (namespace_condition): the condition that selects the namespaces below a prefix. As PostgreSQL evaluates it, it selects
  exactly those. As SQLite evaluates it, it compares without regard to case and selects nothing strictly below a prefix
  with an underscore or a character that is percent-encoded.
\<close>

theorem namespace_condition:
  assumes "EncodeNamespace ps d = Inr p" and "EncodeNamespace ns d' = Inr n"
  shows "(namespaceUnder postgresLike p n \<longleftrightarrow> prefix ps ns)
    \<and> (namespaceUnder sqliteLike p n \<longleftrightarrow> ns = ps \<or> (plainSegments ps \<and> strict_prefix (map lowerAll ps) (map lowerAll ns)))"
  using postgresLike_namespace[OF assms] sqlite_condition[OF assms] by blast

theorem namespace_condition_witness:
  "\<exists>p n q m. EncodeNamespace [''user'', ''alice''] 0 = Inr p \<and> EncodeNamespace [''user'', ''ALICE'', ''notes''] 0 = Inr n
     \<and> \<not> namespaceUnder postgresLike p n \<and> namespaceUnder sqliteLike p n
     \<and> EncodeNamespace [''user'', ''a_b''] 0 = Inr q \<and> EncodeNamespace [''user'', ''a_b'', ''notes''] 0 = Inr m
     \<and> namespaceUnder postgresLike q m \<and> \<not> namespaceUnder sqliteLike q m"
proof -
  obtain p n q m where e: "EncodeNamespace [''user'', ''alice''] 0 = Inr p" "EncodeNamespace [''user'', ''ALICE'', ''notes''] 0 = Inr n"
      "EncodeNamespace [''user'', ''a_b''] 0 = Inr q" "EncodeNamespace [''user'', ''a_b'', ''notes''] 0 = Inr m"
    by (simp add: EncodeNamespace_Inr)
  have "plainSegments [''user'', ''alice'']" "\<not> plainSegments [''user'', ''a_b'']"
      "strict_prefix (map lowerAll [''user'', ''alice'']) (map lowerAll [''user'', ''ALICE'', ''notes''])" by code_simp+
  then show ?thesis using namespace_condition[OF e(1,2)] namespace_condition[OF e(3,4)] e by auto
qed

end
