(* ===== verification/Memories.thy ===== *)
theory Memories
  imports Namespaces Database Json Transitions
begin

text \<open>
  Episodic memories of the SQLite store (\<open>plugin/store/sqlite/episodic_store.go\<close>): values under a namespace and a key,
  with revisions. A write archives the active row of the key and inserts a new one; archived and expired rows are kept
  until the index no longer needs them, then cleared and deleted. An operation takes the tables and returns an error or the
  new tables; \<open>uuid.New\<close>, the clock and the JSON encoding of a value are arguments. A revision is an \<open>int64\<close> that starts at 1 and
  grows by 1, so its overflow is not modelled. A query without \<open>ORDER BY\<close> returns rows in table order.

  What SQLite computes from the attributes of a row (a filter clause, a sort expression) is an argument of a search.
\<close>

section \<open>Rows and tables\<close>

record memoryRow =
  mr_ID :: uuid
  mr_Namespace :: string
  mr_Key :: string
  mr_ValueEncrypted :: "string option"
  mr_PolicyAttributes :: json_object
  mr_IndexedContent :: "(string \<times> string) list"
  mr_Kind :: int
  mr_Revision :: int
  mr_DeletedReason :: "int option"
  mr_CreatedAt :: time
  mr_ExpiresAt :: "time option"
  mr_ArchivedAt :: "time option"
  mr_IndexedAt :: "time option"
  mr_MemoryKind :: string

record memoryUsageRow =
  mu_Namespace :: string
  mu_Key :: string
  mu_FetchCount :: int
  mu_LastFetchedAt :: time

record memoryVectorRow =
  mv_MemoryID :: uuid
  mv_FieldName :: string
  mv_Namespace :: string
  mv_PolicyAttributes :: json_object
  mv_Embedding :: string
  mv_MemoryKind :: string
  mv_MemoryRevision :: int

record MemoryKindVersion =
  kv_Name :: string
  kv_AttributeTypes :: "(string \<times> string) list"
  kv_AttributesRego :: "string option"
  kv_Writable :: bool
  kv_CreatedAt :: time

record memoryDB =
  md_memories :: "memoryRow list"
  md_usage :: "memoryUsageRow list"
  md_vectors :: "memoryVectorRow list"
  md_kinds :: "MemoryKindVersion list"

datatype ArchiveFilter = ArchiveFilterExclude | ArchiveFilterInclude | ArchiveFilterOnly

record MemoryPredecessorExpectation =
  px_Exists :: bool
  px_ID :: uuid
  px_Revision :: int

record MemoryPredecessor =
  pr_ID :: uuid
  pr_Revision :: int
  pr_MemoryKind :: string

record PutMemoryRequest =
  pm_Namespace :: namespace
  pm_Key :: string
  pm_Value :: json_object
  pm_TTLSeconds :: int
  pm_Index :: "(string \<times> string) list option"
  pm_PolicyAttributes :: json_object
  pm_ExpectedRevision :: "int option"
  pm_AuthorizedPredecessor :: "MemoryPredecessorExpectation option"
  pm_MemoryKind :: string

record MemoryWriteResult =
  mw_ID :: uuid
  mw_Namespace :: namespace
  mw_Key :: string
  mw_Attributes :: json_object
  mw_MemoryKind :: string
  mw_CreatedAt :: time
  mw_ExpiresAt :: "time option"
  mw_Revision :: int

record MemoryItem =
  mi_ID :: uuid
  mi_Namespace :: namespace
  mi_Key :: string
  mi_Value :: "json_object option"
  mi_Attributes :: json_object
  mi_MemoryKind :: string
  mi_CreatedAt :: time
  mi_ExpiresAt :: "time option"
  mi_ArchivedAt :: "time option"
  mi_Revision :: int

type_synonym 'a memory_result = "memory_error + 'a"

text \<open>\<open>json.Marshal\<close> and \<open>json.Unmarshal\<close> of a value.\<close>

record MemoryCodec =
  mc_marshal :: "json_object \<Rightarrow> string memory_result"
  mc_unmarshal :: "string \<Rightarrow> json_object option"

section \<open>Values and filters\<close>

definition encodeNS :: "namespace \<Rightarrow> string memory_result" where
  "encodeNS ns = EncodeNamespace ns 0"

definition decodeNS :: "string \<Rightarrow> namespace memory_result" where
  "decodeNS encoded = DecodeNamespace encoded"

text \<open>\<open>ns, _ := e.decodeNS(...)\<close>: an error leaves a nil slice.\<close>

definition decodedNS :: "string \<Rightarrow> namespace" where
  "decodedNS encoded = (case decodeNS encoded of Inl _ \<Rightarrow> [] | Inr ns \<Rightarrow> ns)"

definition memoryValueFieldDomain :: string where
  "memoryValueFieldDomain = ''memory.value''"

definition encryptMemoryValue :: "enc \<Rightarrow> uuid \<Rightarrow> string \<Rightarrow> string memory_result" where
  "encryptMemoryValue s_enc i plaintext =
     (case s_enc of None \<Rightarrow> Inr plaintext
      | Some f \<Rightarrow> map_sum (\<lambda>_. MemoryFailure ''encrypt value'') id (EncryptField f plaintext memoryValueFieldDomain (map asciiLower i)))"

definition decryptMemoryValue :: "enc \<Rightarrow> uuid \<Rightarrow> string \<Rightarrow> string memory_result" where
  "decryptMemoryValue s_enc i ciphertext =
     (case s_enc of None \<Rightarrow> Inr ciphertext
      | Some f \<Rightarrow> map_sum (\<lambda>_. MemoryFailure ''decrypt value'') id (DecryptField f ciphertext memoryValueFieldDomain (map asciiLower i)))"

definition rowToItem :: "enc \<Rightarrow> MemoryCodec \<Rightarrow> memoryRow \<Rightarrow> namespace \<Rightarrow> MemoryItem memory_result" where
  "rowToItem s_enc mc row ns =
     andThen
       (case mr_ValueEncrypted row of
          None \<Rightarrow> Inr None
        | Some c \<Rightarrow>
            if c = [] then Inr None
            else andThen (decryptMemoryValue s_enc (mr_ID row) c) (\<lambda>plain.
                   case mc_unmarshal mc plain of
                     None \<Rightarrow> Inl (MemoryFailure ''unmarshal value'')
                   | Some value \<Rightarrow> Inr (Some value)))
       (\<lambda>value. Inr
          \<lparr>mi_ID = mr_ID row, mi_Namespace = ns, mi_Key = mr_Key row, mi_Value = value, mi_Attributes = mr_PolicyAttributes row,
           mi_MemoryKind = mr_MemoryKind row, mi_CreatedAt = mr_CreatedAt row, mi_ExpiresAt = mr_ExpiresAt row,
           mi_ArchivedAt = mr_ArchivedAt row, mi_Revision = mr_Revision row\<rparr>)"

definition matchesMemoryArchiveFilter :: "time option \<Rightarrow> int option \<Rightarrow> ArchiveFilter \<Rightarrow> bool" where
  "matchesMemoryArchiveFilter archivedAt deletedReason archived =
     (if archivedAt = None then archived \<noteq> ArchiveFilterOnly
      else case deletedReason of
             None \<Rightarrow> False
           | Some reason \<Rightarrow> if reason = 1 then archived \<noteq> ArchiveFilterExclude else False)"

definition sqliteMemoryArchiveWhere :: "ArchiveFilter \<Rightarrow> memoryRow \<Rightarrow> bool" where
  "sqliteMemoryArchiveWhere archived m =
     (case archived of
        ArchiveFilterInclude \<Rightarrow> mr_ArchivedAt m = None \<or> mr_DeletedReason m = Some 1
      | ArchiveFilterOnly \<Rightarrow> mr_DeletedReason m = Some 1
      | ArchiveFilterExclude \<Rightarrow> mr_ArchivedAt m = None)"

definition newestFirst :: "memoryRow \<Rightarrow> memoryRow \<Rightarrow> bool" where
  "newestFirst a b \<longleftrightarrow> mr_CreatedAt a > mr_CreatedAt b \<or> (mr_CreatedAt a = mr_CreatedAt b \<and> mr_ID a > mr_ID b)"

text \<open>\<open>WHERE namespace = ? AND key = ? AND ... ORDER BY created_at DESC, id DESC LIMIT 1\<close>.\<close>

definition newestRow :: "memoryDB \<Rightarrow> string \<Rightarrow> string \<Rightarrow> ArchiveFilter \<Rightarrow> memoryRow option" where
  "newestRow d ns key archived =
     (case order_by newestFirst
             (filter (\<lambda>m. mr_Namespace m = ns \<and> mr_Key m = key \<and> sqliteMemoryArchiveWhere archived m) (md_memories d)) of
        [] \<Rightarrow> None | m # _ \<Rightarrow> Some m)"

section \<open>Writing\<close>

definition wrap64 :: "int \<Rightarrow> int" where
  "wrap64 x = (x + 2 ^ 63) mod 2 ^ 64 - 2 ^ 63"

definition expiryOf :: "time \<Rightarrow> int \<Rightarrow> time option" where
  "expiryOf clock ttlSeconds = (if ttlSeconds > 0 then Some (clock + wrap64 (ttlSeconds * 1000000000)) else None)"

text \<open>\<open>UPDATE memories SET archived_at = ?, indexed_at = NULL, deleted_reason = ?, revision = revision + 1 WHERE ...\<close>\<close>

definition archivedRow :: "time \<Rightarrow> int \<Rightarrow> memoryRow \<Rightarrow> memoryRow" where
  "archivedRow now reason m =
     m\<lparr>mr_ArchivedAt := Some now, mr_IndexedAt := None, mr_DeletedReason := Some reason, mr_Revision := mr_Revision m + 1\<rparr>"

definition updateMemories :: "(memoryRow \<Rightarrow> bool) \<Rightarrow> (memoryRow \<Rightarrow> memoryRow) \<Rightarrow> memoryDB \<Rightarrow> memoryDB \<times> nat" where
  "updateMemories P f d =
     (d\<lparr>md_memories := map (\<lambda>m. if P m then f m else m) (md_memories d)\<rparr>, length (filter P (md_memories d)))"

text \<open>The registered kind of a name, which \<open>memory_kind\<close> refers to.\<close>

definition GetMemoryKindVersion :: "memoryDB \<Rightarrow> string \<Rightarrow> MemoryKindVersion option" where
  "GetMemoryKindVersion d name = List.find (\<lambda>v. kv_Name v = name) (md_kinds d)"

text \<open>The constraints of the table: the primary key, one active row per key, and the reference to the kind.\<close>

definition insertMemory :: "memoryRow \<Rightarrow> memoryDB \<Rightarrow> memoryDB memory_result" where
  "insertMemory row d =
     (if list_ex (\<lambda>m. mr_ID m = mr_ID row
                      \<or> (mr_Namespace m = mr_Namespace row \<and> mr_Key m = mr_Key row \<and> mr_ArchivedAt m = None \<and> mr_ArchivedAt row = None))
           (md_memories d)
      then Inl ErrMemoryRevisionConflict
      else if GetMemoryKindVersion d (mr_MemoryKind row) = None then Inl (MemoryFailure ''FOREIGN KEY constraint failed'')
      else Inr (d\<lparr>md_memories := md_memories d @ [row]\<rparr>))"

definition expectationFails :: "PutMemoryRequest \<Rightarrow> memoryRow option \<Rightarrow> bool" where
  "expectationFails req active \<longleftrightarrow>
     (case pm_ExpectedRevision req of
        None \<Rightarrow> False
      | Some r \<Rightarrow> (case active of None \<Rightarrow> True | Some m \<Rightarrow> mr_Revision m \<noteq> r))
     \<or> (case pm_AuthorizedPredecessor req of
          None \<Rightarrow> False
        | Some expected \<Rightarrow>
            if \<not> px_Exists expected then active \<noteq> None
            else (case active of None \<Rightarrow> True | Some m \<Rightarrow> mr_ID m \<noteq> px_ID expected \<or> mr_Revision m \<noteq> px_Revision expected))"

definition writePredecessor :: "PutMemoryRequest \<Rightarrow> memoryRow option \<Rightarrow> MemoryPredecessorExpectation option" where
  "writePredecessor req active =
     (case pm_AuthorizedPredecessor req of
        Some expected \<Rightarrow> Some expected
      | None \<Rightarrow>
          (case (pm_ExpectedRevision req, active) of
             (Some _, Some m) \<Rightarrow> Some \<lparr>px_Exists = True, px_ID = mr_ID m, px_Revision = mr_Revision m\<rparr>
           | _ \<Rightarrow> None))"

definition supersede :: "MemoryPredecessorExpectation option \<Rightarrow> string \<Rightarrow> string \<Rightarrow> time \<Rightarrow> memoryDB \<Rightarrow> memoryDB \<times> nat" where
  "supersede predecessor ns key now d =
     (case predecessor of
        Some expected \<Rightarrow>
          if \<not> px_Exists expected then (d, 0)
          else updateMemories (\<lambda>m. mr_ID m = px_ID expected \<and> mr_Revision m = px_Revision expected \<and> mr_ArchivedAt m = None)
                 (archivedRow now 0) d
      | None \<Rightarrow> updateMemories (\<lambda>m. mr_Namespace m = ns \<and> mr_Key m = key \<and> mr_ArchivedAt m = None) (archivedRow now 0) d)"

definition putRow :: "PutMemoryRequest \<Rightarrow> string \<Rightarrow> uuid \<Rightarrow> string \<Rightarrow> time option \<Rightarrow> time \<Rightarrow> memoryDB \<Rightarrow> (memoryDB \<times> int) memory_result" where
  "putRow req ns newID valueEnc expiresAt now d =
     (let active = newestRow d ns (pm_Key req) ArchiveFilterExclude
      in if expectationFails req active then Inl ErrMemoryRevisionConflict
         else
           let predecessor = writePredecessor req active;
               revision = (case active of None \<Rightarrow> 1 | Some m \<Rightarrow> mr_Revision m + 1)
           in case supersede predecessor ns (pm_Key req) now d of (d1, affected) \<Rightarrow>
                if (case predecessor of None \<Rightarrow> False | Some p \<Rightarrow> px_Exists p \<and> affected \<noteq> 1) then Inl ErrMemoryRevisionConflict
                else if pm_MemoryKind req = [] then Inl (MemoryFailure ''internal error: MemoryKind must be resolved before PutMemory'')
                else andThen
                       (insertMemory
                          \<lparr>mr_ID = newID, mr_Namespace = ns, mr_Key = pm_Key req, mr_ValueEncrypted = Some valueEnc,
                           mr_PolicyAttributes = pm_PolicyAttributes req,
                           mr_IndexedContent = (case pm_Index req of None \<Rightarrow> [] | Some index \<Rightarrow> index),
                           mr_Kind = (if affected > 0 then 1 else 0), mr_Revision = revision, mr_DeletedReason = None,
                           mr_CreatedAt = now, mr_ExpiresAt = expiresAt, mr_ArchivedAt = None, mr_IndexedAt = None,
                           mr_MemoryKind = pm_MemoryKind req\<rparr> d1)
                       (\<lambda>d2. Inr (d2, revision)))"

definition PutMemory ::
  "memoryDB \<Rightarrow> enc \<Rightarrow> MemoryCodec \<Rightarrow> uuid \<Rightarrow> time \<Rightarrow> time \<Rightarrow> PutMemoryRequest \<Rightarrow> (memoryDB \<times> MemoryWriteResult) memory_result" where
  "PutMemory d s_enc mc newID clock now req =
     andThen (encodeNS (pm_Namespace req)) (\<lambda>nsEncoded.
     andThen (mc_marshal mc (pm_Value req)) (\<lambda>valueJSON.
     andThen (encryptMemoryValue s_enc newID valueJSON) (\<lambda>valueEnc.
       let expiresAt = expiryOf clock (pm_TTLSeconds req)
       in andThen (putRow req nsEncoded newID valueEnc expiresAt now d) (\<lambda>(d', revision).
            Inr (d', \<lparr>mw_ID = newID, mw_Namespace = pm_Namespace req, mw_Key = pm_Key req, mw_Attributes = pm_PolicyAttributes req,
                      mw_MemoryKind = pm_MemoryKind req, mw_CreatedAt = now, mw_ExpiresAt = expiresAt, mw_Revision = revision\<rparr>)))))"

definition ArchiveMemory :: "memoryDB \<Rightarrow> time \<Rightarrow> namespace \<Rightarrow> string \<Rightarrow> int option \<Rightarrow> memoryDB memory_result" where
  "ArchiveMemory d now ns key expectedRevision =
     andThen (encodeNS ns) (\<lambda>nsEncoded.
       case updateMemories
              (\<lambda>m. mr_Namespace m = nsEncoded \<and> mr_Key m = key \<and> mr_ArchivedAt m = None
                   \<and> (case expectedRevision of None \<Rightarrow> True | Some r \<Rightarrow> mr_Revision m = r))
              (archivedRow now 1) d of
         (d', affected) \<Rightarrow>
           if expectedRevision \<noteq> None \<and> affected = 0 then Inl ErrMemoryRevisionConflict else Inr d')"

section \<open>Reading\<close>

definition GetMemory ::
  "memoryDB \<Rightarrow> enc \<Rightarrow> MemoryCodec \<Rightarrow> namespace \<Rightarrow> string \<Rightarrow> ArchiveFilter \<Rightarrow> MemoryItem option memory_result" where
  "GetMemory d s_enc mc ns key archived =
     andThen (encodeNS ns) (\<lambda>nsEncoded.
       case newestRow d nsEncoded key archived of
         None \<Rightarrow> Inr None
       | Some row \<Rightarrow> andThen (rowToItem s_enc mc row ns) (\<lambda>item. Inr (Some item)))"

definition GetMemoryRowKind :: "memoryDB \<Rightarrow> namespace \<Rightarrow> string \<Rightarrow> ArchiveFilter \<Rightarrow> string option memory_result" where
  "GetMemoryRowKind d ns key archived =
     andThen (encodeNS ns) (\<lambda>nsEncoded. Inr (map_option mr_MemoryKind (newestRow d nsEncoded key archived)))"

definition GetMemoryPredecessor :: "memoryDB \<Rightarrow> namespace \<Rightarrow> string \<Rightarrow> MemoryPredecessor option memory_result" where
  "GetMemoryPredecessor d ns key =
     andThen (encodeNS ns) (\<lambda>nsEncoded.
       Inr (map_option (\<lambda>m. \<lparr>pr_ID = mr_ID m, pr_Revision = mr_Revision m, pr_MemoryKind = mr_MemoryKind m\<rparr>)
              (newestRow d nsEncoded key ArchiveFilterExclude)))"

text \<open>The loop of the searches: a row that cannot be decrypted is logged and skipped.\<close>

definition readableItems :: "enc \<Rightarrow> MemoryCodec \<Rightarrow> memoryRow list \<Rightarrow> MemoryItem list" where
  "readableItems s_enc mc rows =
     List.map_filter (\<lambda>row. case rowToItem s_enc mc row (decodedNS (mr_Namespace row)) of Inl _ \<Rightarrow> None | Inr item \<Rightarrow> Some item) rows"

definition replaceAll :: "char \<Rightarrow> string \<Rightarrow> string \<Rightarrow> string" where
  "replaceAll c new s = concat (map (\<lambda>x. if x = c then new else [x]) s)"

definition escapeSQLLike :: "string \<Rightarrow> string" where
  "escapeSQLLike s =
     (let s = replaceAll (CHR 0x5C) [CHR 0x5C, CHR 0x5C] s;
          s = replaceAll (CHR ''%'') [CHR 0x5C, CHR ''%''] s
      in replaceAll (CHR ''_'') [CHR 0x5C, CHR ''_''] s)"

definition kindSelected :: "string \<Rightarrow> memoryRow \<Rightarrow> bool" where
  "kindSelected kind m =
     (if kind = [] then True
      else if CHR ''/'' \<in> set kind then mr_MemoryKind m = kind
      else sqliteLikeEscape (escapeSQLLike kind @ ''/%'') (mr_MemoryKind m))"

text \<open>
  The join with the latest candidates: \<open>DENSE_RANK\<close> gives rank 1 to the newest candidates of each namespace and key, and
  a row is joined when it has the namespace, key and creation time of one of them.
\<close>

definition latestRank :: "memoryRow list \<Rightarrow> memoryRow \<Rightarrow> bool" where
  "latestRank candidates c \<longleftrightarrow>
     list_all (\<lambda>x. mr_Namespace x = mr_Namespace c \<and> mr_Key x = mr_Key c \<longrightarrow> mr_CreatedAt x \<le> mr_CreatedAt c) candidates"

definition latestJoin :: "(memoryRow \<Rightarrow> bool) \<Rightarrow> memoryRow list \<Rightarrow> memoryRow list" where
  "latestJoin candidate rows =
     (let candidates = filter candidate rows
      in filter (\<lambda>m. list_ex (\<lambda>c. latestRank candidates c \<and> mr_Namespace m = mr_Namespace c \<and> mr_Key m = mr_Key c
                                   \<and> mr_CreatedAt m = mr_CreatedAt c) candidates) rows)"

record MemorySearchQuery =
  sq_NamespacePrefix :: namespace
  sq_Filter :: "json_object \<Rightarrow> bool"
  sq_Limit :: nat
  sq_Archived :: ArchiveFilter
  sq_MemoryKind :: string
  sq_Sort :: "(memoryRow \<Rightarrow> memoryRow \<Rightarrow> bool) option"

definition SearchMemories :: "memoryDB \<Rightarrow> enc \<Rightarrow> MemoryCodec \<Rightarrow> MemorySearchQuery \<Rightarrow> MemoryItem list memory_result" where
  "SearchMemories d s_enc mc sq =
     andThen (encodeNS (sq_NamespacePrefix sq)) (\<lambda>nsEncoded.
       let joined = latestJoin (\<lambda>m. namespaceUnder sqliteLike nsEncoded (mr_Namespace m) \<and> sqliteMemoryArchiveWhere (sq_Archived sq) m)
                      (md_memories d);
           q = filter (\<lambda>m. sqliteMemoryArchiveWhere (sq_Archived sq) m \<and> sq_Filter sq (mr_PolicyAttributes m)
                           \<and> kindSelected (sq_MemoryKind sq) m) joined;
           ordered = order_by (case sq_Sort sq of None \<Rightarrow> newestFirst | Some lt \<Rightarrow> lt) q
       in Inr (readableItems s_enc mc (take (sq_Limit sq) ordered)))"

record ListNamespacesRequest =
  ln_Prefix :: namespace
  ln_Suffix :: namespace
  ln_MaxDepth :: nat
  ln_Archived :: ArchiveFilter
  ln_MemoryKind :: string
  ln_Filter :: "json_object \<Rightarrow> bool"

fun namespacesLoop :: "ListNamespacesRequest \<Rightarrow> string list \<Rightarrow> string list \<Rightarrow> namespace list" where
  "namespacesLoop req seen [] = []"
| "namespacesLoop req seen (encoded # rawNS) =
     (if ln_Suffix req \<noteq> [] \<and> \<not> MatchesSuffix encoded (ln_Suffix req) then namespacesLoop req seen rawNS
      else
        let truncated = (if ln_MaxDepth req > 0 then NamespaceTruncate encoded (ln_MaxDepth req) else encoded)
        in if truncated \<in> set seen then namespacesLoop req seen rawNS
           else case decodeNS truncated of
                  Inl _ \<Rightarrow> namespacesLoop req (truncated # seen) rawNS
                | Inr decoded \<Rightarrow> decoded # namespacesLoop req (truncated # seen) rawNS)"

definition ListNamespaces :: "memoryDB \<Rightarrow> ListNamespacesRequest \<Rightarrow> namespace list memory_result" where
  "ListNamespaces d req =
     andThen
       (if ln_Prefix req = [] then Inr (\<lambda>m. sqliteMemoryArchiveWhere (ln_Archived req) m)
        else andThen (encodeNS (ln_Prefix req)) (\<lambda>nsEncoded.
               Inr (\<lambda>m. namespaceUnder sqliteLike nsEncoded (mr_Namespace m) \<and> sqliteMemoryArchiveWhere (ln_Archived req) m)))
       (\<lambda>candidate.
          let rows = filter (\<lambda>m. sqliteMemoryArchiveWhere (ln_Archived req) m \<and> kindSelected (ln_MemoryKind req) m
                                 \<and> ln_Filter req (mr_PolicyAttributes m)) (latestJoin candidate (md_memories d))
          in Inr (namespacesLoop req [] (remdups (map mr_Namespace rows))))"

definition GetMemoriesByIDs :: "memoryDB \<Rightarrow> enc \<Rightarrow> MemoryCodec \<Rightarrow> uuid list \<Rightarrow> ArchiveFilter \<Rightarrow> MemoryItem list" where
  "GetMemoriesByIDs d s_enc mc ids archived =
     readableItems s_enc mc
       (filter (\<lambda>m. matchesMemoryArchiveFilter (mr_ArchivedAt m) (mr_DeletedReason m) archived)
          (filter (\<lambda>m. mr_ID m \<in> set ids) (md_memories d)))"

definition AdminGetMemoryByID :: "memoryDB \<Rightarrow> enc \<Rightarrow> MemoryCodec \<Rightarrow> uuid \<Rightarrow> MemoryItem option memory_result" where
  "AdminGetMemoryByID d s_enc mc memoryID =
     (case List.find (\<lambda>m. mr_ID m = memoryID) (md_memories d) of
        None \<Rightarrow> Inr None
      | Some row \<Rightarrow> andThen (rowToItem s_enc mc row (decodedNS (mr_Namespace row))) (\<lambda>item. Inr (Some item)))"

section \<open>Usage\<close>

record MemoryKey =
  mk_Namespace :: namespace
  mk_Key :: string

fun uniqueKeys :: "MemoryKey list \<Rightarrow> string list \<Rightarrow> (string \<times> string) list memory_result" where
  "uniqueKeys [] seen = Inr []"
| "uniqueKeys (item # items) seen =
     (if mk_Key item = [] then uniqueKeys items seen
      else andThen (encodeNS (mk_Namespace item)) (\<lambda>nsEncoded.
             let k = nsEncoded @ CHR 0x00 # mk_Key item
             in if k \<in> set seen then uniqueKeys items seen
                else andThen (uniqueKeys items (k # seen)) (\<lambda>rest. Inr ((nsEncoded, mk_Key item) # rest))))"

text \<open>\<open>INSERT ... ON CONFLICT (namespace, key) DO UPDATE\<close>.\<close>

definition countLoad :: "time \<Rightarrow> (string \<times> string) \<Rightarrow> memoryUsageRow list \<Rightarrow> memoryUsageRow list" where
  "countLoad fetchedAt k rows =
     (if list_ex (\<lambda>u. (mu_Namespace u, mu_Key u) = k) rows
      then map (\<lambda>u. if (mu_Namespace u, mu_Key u) = k
                    then u\<lparr>mu_FetchCount := mu_FetchCount u + 1,
                           mu_LastFetchedAt := (if mu_LastFetchedAt u \<ge> fetchedAt then mu_LastFetchedAt u else fetchedAt)\<rparr>
                    else u) rows
      else rows @ [\<lparr>mu_Namespace = fst k, mu_Key = snd k, mu_FetchCount = 1, mu_LastFetchedAt = fetchedAt\<rparr>])"

definition IncrementMemoryLoads :: "memoryDB \<Rightarrow> MemoryKey list \<Rightarrow> time \<Rightarrow> memoryDB memory_result" where
  "IncrementMemoryLoads d keys fetchedAt =
     andThen (uniqueKeys keys []) (\<lambda>unique. Inr (d\<lparr>md_usage := fold (countLoad fetchedAt) unique (md_usage d)\<rparr>))"

definition GetMemoryUsage :: "memoryDB \<Rightarrow> namespace \<Rightarrow> string \<Rightarrow> (int \<times> time) option memory_result" where
  "GetMemoryUsage d ns key =
     andThen (encodeNS ns) (\<lambda>nsEncoded.
       Inr (map_option (\<lambda>u. (mu_FetchCount u, mu_LastFetchedAt u))
              (List.find (\<lambda>u. mu_Namespace u = nsEncoded \<and> mu_Key u = key) (md_usage d))))"

section \<open>Life cycle\<close>

definition SetMemoryIndexedAt :: "memoryDB \<Rightarrow> uuid \<Rightarrow> time \<Rightarrow> memoryDB" where
  "SetMemoryIndexedAt d memoryID indexedAt =
     fst (updateMemories (\<lambda>m. mr_ID m = memoryID) (\<lambda>m. m\<lparr>mr_IndexedAt := Some indexedAt\<rparr>) d)"

definition SetMemoryKindIndexedAtCAS :: "memoryDB \<Rightarrow> uuid \<Rightarrow> string \<Rightarrow> int \<Rightarrow> time \<Rightarrow> memoryDB memory_result" where
  "SetMemoryKindIndexedAtCAS d memoryID expectedKind expectedRevision indexedAt =
     (case updateMemories (\<lambda>m. mr_ID m = memoryID \<and> mr_Revision m = expectedRevision \<and> mr_MemoryKind m = expectedKind)
             (\<lambda>m. m\<lparr>mr_IndexedAt := Some indexedAt\<rparr>) d of
        (d', affected) \<Rightarrow> if affected = 0 then Inl ErrMemoryRevisionConflict else Inr d')"

definition MigrateOneMemoryKindCAS :: "memoryDB \<Rightarrow> uuid \<Rightarrow> string \<Rightarrow> int \<Rightarrow> json_object \<Rightarrow> string \<Rightarrow> memoryDB memory_result" where
  "MigrateOneMemoryKindCAS d memoryID expectedKind expectedRevision newAttributes newSchema =
     (case updateMemories (\<lambda>m. mr_ID m = memoryID \<and> mr_Revision m = expectedRevision \<and> mr_MemoryKind m = expectedKind)
             (\<lambda>m. m\<lparr>mr_PolicyAttributes := newAttributes, mr_MemoryKind := newSchema, mr_IndexedAt := None,
                    mr_Revision := mr_Revision m + 1\<rparr>) d of
        (d', affected) \<Rightarrow>
          if affected = 0 then Inl ErrMemoryRevisionConflict
          else if GetMemoryKindVersion d newSchema = None then Inl (MemoryFailure ''FOREIGN KEY constraint failed'')
          else Inr d')"

definition ExpireMemoriesWithChanges :: "memoryDB \<Rightarrow> time \<Rightarrow> memoryDB" where
  "ExpireMemoriesWithChanges d now =
     fst (updateMemories (\<lambda>m. (case mr_ExpiresAt m of None \<Rightarrow> False | Some t \<Rightarrow> t \<le> now) \<and> mr_ArchivedAt m = None) (archivedRow now 2) d)"

text \<open>\<open>WHERE id IN (SELECT id FROM memories WHERE ... ORDER BY archived_at ASC LIMIT ?)\<close>; NULL sorts first.\<close>

definition archivedFirst :: "memoryRow \<Rightarrow> memoryRow \<Rightarrow> bool" where
  "archivedFirst a b =
     (case (mr_ArchivedAt a, mr_ArchivedAt b) of (Some x, Some y) \<Rightarrow> x < y | (None, Some _) \<Rightarrow> True | _ \<Rightarrow> False)"

definition oldestIDs :: "(memoryRow \<Rightarrow> bool) \<Rightarrow> nat \<Rightarrow> memoryDB \<Rightarrow> uuid list" where
  "oldestIDs P limit d = map mr_ID (take limit (order_by archivedFirst (filter P (md_memories d))))"

definition HardDeleteEvictableUpdates :: "memoryDB \<Rightarrow> nat \<Rightarrow> memoryDB" where
  "HardDeleteEvictableUpdates d limit =
     (let ids = oldestIDs (\<lambda>m. mr_DeletedReason m = Some 0 \<and> mr_IndexedAt m \<noteq> None) limit d
      in d\<lparr>md_memories := filter (\<lambda>m. mr_ID m \<notin> set ids) (md_memories d)\<rparr>)"

definition TombstoneDeletedMemoriesWithChanges :: "memoryDB \<Rightarrow> nat \<Rightarrow> memoryDB" where
  "TombstoneDeletedMemoriesWithChanges d limit =
     (let ids = oldestIDs (\<lambda>m. mr_DeletedReason m \<in> {Some 1, Some 2} \<and> mr_IndexedAt m \<noteq> None \<and> mr_ValueEncrypted m \<noteq> None) limit d
      in fst (updateMemories (\<lambda>m. mr_ID m \<in> set ids)
                (\<lambda>m. m\<lparr>mr_ValueEncrypted := None, mr_PolicyAttributes := [], mr_Revision := mr_Revision m + 1, mr_IndexedAt := None\<rparr>) d))"

definition HardDeleteExpiredTombstonesWithChanges :: "memoryDB \<Rightarrow> time \<Rightarrow> nat \<Rightarrow> memoryDB" where
  "HardDeleteExpiredTombstonesWithChanges d olderThan limit =
     (let ids = oldestIDs (\<lambda>m. mr_DeletedReason m \<in> {Some 1, Some 2} \<and> mr_ValueEncrypted m = None
                               \<and> (case mr_ArchivedAt m of None \<Rightarrow> False | Some t \<Rightarrow> t \<le> olderThan)) limit d
      in d\<lparr>md_memories := filter (\<lambda>m. mr_ID m \<notin> set ids) (md_memories d)\<rparr>)"

definition AdminForceDeleteMemory :: "memoryDB \<Rightarrow> uuid \<Rightarrow> memoryDB" where
  "AdminForceDeleteMemory d memoryID = d\<lparr>md_memories := filter (\<lambda>m. mr_ID m \<noteq> memoryID) (md_memories d)\<rparr>"

section \<open>Kinds\<close>

definition valueOf :: "(string \<times> string) list \<Rightarrow> string \<Rightarrow> string" where
  "valueOf m k = (case map_of m k of None \<Rightarrow> [] | Some v \<Rightarrow> v)"

definition schemaVersionsEqual :: "MemoryKindVersion \<Rightarrow> MemoryKindVersion \<Rightarrow> bool" where
  "schemaVersionsEqual a b =
     (if kv_Writable a \<noteq> kv_Writable b then False
      else if length (kv_AttributeTypes a) \<noteq> length (kv_AttributeTypes b) then False
      else if list_ex (\<lambda>(k, v). valueOf (kv_AttributeTypes b) k \<noteq> v) (kv_AttributeTypes a) then False
      else (case kv_AttributesRego a of None \<Rightarrow> [] | Some r \<Rightarrow> r) = (case kv_AttributesRego b of None \<Rightarrow> [] | Some r \<Rightarrow> r))"

definition CreateMemoryKindVersion :: "memoryDB \<Rightarrow> MemoryKindVersion \<Rightarrow> (memoryDB \<times> MemoryKindVersion) memory_result" where
  "CreateMemoryKindVersion d version =
     (case GetMemoryKindVersion d (kv_Name version) of
        None \<Rightarrow> Inr (d\<lparr>md_kinds := md_kinds d @ [version]\<rparr>, version)
      | Some existing \<Rightarrow>
          if \<not> schemaVersionsEqual existing version then Inl ErrMemoryKindVersionConflict else Inr (d, existing))"

section \<open>Vectors and the indexer\<close>

text \<open>
  The local vector table. The table of a running indexer cycle is read and written one memory at a time, each in a
  transaction of its own (\<open>service/episodic_indexer.go\<close>). The embedding service and the encoding of a vector are arguments.
\<close>

record PendingMemory =
  pg_ID :: uuid
  pg_Namespace :: string
  pg_PolicyAttributes :: json_object
  pg_IndexedContent :: "(string \<times> string) list"
  pg_ArchivedAt :: "time option"
  pg_DeletedReason :: "int option"
  pg_MemoryKind :: string
  pg_Revision :: int

definition FindMemoriesPendingIndexing :: "memoryDB \<Rightarrow> nat \<Rightarrow> PendingMemory list" where
  "FindMemoriesPendingIndexing d limit =
     map (\<lambda>m. \<lparr>pg_ID = mr_ID m, pg_Namespace = mr_Namespace m, pg_PolicyAttributes = mr_PolicyAttributes m,
               pg_IndexedContent = mr_IndexedContent m, pg_ArchivedAt = mr_ArchivedAt m, pg_DeletedReason = mr_DeletedReason m,
               pg_MemoryKind = mr_MemoryKind m, pg_Revision = mr_Revision m\<rparr>)
       (take limit (filter (\<lambda>m. mr_IndexedAt m = None) (md_memories d)))"

definition DeleteMemoryVectors :: "bool \<Rightarrow> memoryDB \<Rightarrow> uuid \<Rightarrow> memoryDB" where
  "DeleteMemoryVectors vecEnabled d memoryID =
     (if \<not> vecEnabled then d else d\<lparr>md_vectors := filter (\<lambda>v. mv_MemoryID v \<noteq> memoryID) (md_vectors d)\<rparr>)"

definition upsertVector :: "memoryVectorRow \<Rightarrow> memoryVectorRow list \<Rightarrow> memoryVectorRow list" where
  "upsertVector v vs =
     (if list_ex (\<lambda>x. mv_MemoryID x = mv_MemoryID v \<and> mv_FieldName x = mv_FieldName v) vs
      then map (\<lambda>x. if mv_MemoryID x = mv_MemoryID v \<and> mv_FieldName x = mv_FieldName v then v else x) vs
      else vs @ [v])"

record 'e MemoryVectorUpsert =
  vu_MemoryID :: uuid
  vu_FieldName :: string
  vu_Namespace :: string
  vu_PolicyAttributes :: json_object
  vu_Embedding :: 'e
  vu_MemoryKind :: string
  vu_MemoryRevision :: int

text \<open>\<open>serialize\<close> is \<open>serializeSQLiteVector\<close>; \<open>memory_revision > 0\<close> is a \<open>CHECK\<close> of the table.\<close>

fun UpsertMemoryVectors :: "bool \<Rightarrow> ('e \<Rightarrow> string memory_result) \<Rightarrow> memoryDB \<Rightarrow> 'e MemoryVectorUpsert list \<Rightarrow> memoryDB memory_result" where
  "UpsertMemoryVectors vecEnabled serialize d [] = Inr d"
| "UpsertMemoryVectors vecEnabled serialize d (item # items) =
     (if \<not> vecEnabled then Inr d
      else andThen (serialize (vu_Embedding item)) (\<lambda>vectorBlob.
        if vu_MemoryKind item = [] then Inl (MemoryFailure ''internal error: MemoryKind must be non-empty'')
        else if \<not> vu_MemoryRevision item > 0 then Inl (MemoryFailure ''CHECK constraint failed'')
        else UpsertMemoryVectors vecEnabled serialize
               (d\<lparr>md_vectors := upsertVector
                     \<lparr>mv_MemoryID = vu_MemoryID item, mv_FieldName = vu_FieldName item, mv_Namespace = vu_Namespace item,
                      mv_PolicyAttributes = vu_PolicyAttributes item, mv_Embedding = vectorBlob,
                      mv_MemoryKind = vu_MemoryKind item, mv_MemoryRevision = vu_MemoryRevision item\<rparr> (md_vectors d)\<rparr>) items))"

text \<open>The fields to embed: in the order of their names, the empty ones left out.\<close>

definition fieldEntries :: "(string \<times> string) list \<Rightarrow> (string \<times> string) list" where
  "fieldEntries content =
     filter (\<lambda>(name, text). text \<noteq> [])
       (map (\<lambda>name. (name, the (map_of content name))) (sorted_list_of_set (fst ` set content)))"

text \<open>A write transaction: the vectors replaced and the row marked, where a lost race with a writer is no error.\<close>

definition replaceVectors ::
  "bool \<Rightarrow> ('e \<Rightarrow> string memory_result) \<Rightarrow> PendingMemory \<Rightarrow> 'e MemoryVectorUpsert list \<Rightarrow> time \<Rightarrow> memoryDB \<Rightarrow> memoryDB memory_result" where
  "replaceVectors vecEnabled serialize m upserts now d =
     andThen (UpsertMemoryVectors vecEnabled serialize (DeleteMemoryVectors vecEnabled d (pg_ID m)) upserts) (\<lambda>d1.
       case SetMemoryKindIndexedAtCAS d1 (pg_ID m) (pg_MemoryKind m) (pg_Revision m) now of
         Inr d2 \<Rightarrow> Inr d2
       | Inl err \<Rightarrow> if err = ErrMemoryRevisionConflict then Inr d1 else Inl err)"

definition vectorUpserts :: "PendingMemory \<Rightarrow> (string \<times> string) list \<Rightarrow> 'e list \<Rightarrow> 'e MemoryVectorUpsert list" where
  "vectorUpserts m entries embeddings =
     map (\<lambda>(fe, embedding).
            \<lparr>vu_MemoryID = pg_ID m, vu_FieldName = fst fe, vu_Namespace = pg_Namespace m, vu_PolicyAttributes = pg_PolicyAttributes m,
             vu_Embedding = embedding, vu_MemoryKind = pg_MemoryKind m, vu_MemoryRevision = pg_Revision m\<rparr>)
       (zip entries embeddings)"

text \<open>
  One memory of a cycle: \<open>None\<close> where the cycle goes on with the next memory after a failure, which leaves the tables as they
  were. Without an embedder (\<open>None\<close>) or content the set of vectors is empty.
\<close>

definition indexMemory ::
  "bool \<Rightarrow> ('e \<Rightarrow> string memory_result) \<Rightarrow> (string list \<Rightarrow> 'e list option) option \<Rightarrow> time \<Rightarrow> PendingMemory \<Rightarrow> memoryDB \<Rightarrow> memoryDB option" where
  "indexMemory vecEnabled serialize embedder now m d =
     (let commit = (\<lambda>upserts. case replaceVectors vecEnabled serialize m upserts now d of Inl _ \<Rightarrow> None | Inr d' \<Rightarrow> Some d')
      in if pg_ArchivedAt m \<noteq> None \<and> pg_DeletedReason m \<noteq> Some 1 then commit []
         else case embedder of
                None \<Rightarrow> commit []
              | Some embedTexts \<Rightarrow>
                  if pg_IndexedContent m = [] then commit []
                  else
                    let entries = fieldEntries (pg_IndexedContent m)
                    in if entries = [] then commit []
                       else case embedTexts (map snd entries) of
                              None \<Rightarrow> None
                            | Some embeddings \<Rightarrow>
                                if length embeddings \<noteq> length entries then None else commit (vectorUpserts m entries embeddings))"

end
