(* ===== verification/Memory_Facts.thy ===== *)
theory Memory_Facts
  imports Memories
begin

text \<open>
  What the memory store guarantees. The store is a state machine whose steps are its writing operations, the maintenance
  passes and the transactions of the indexer. A memory that was written stays readable until it is replaced, archived,
  expired or deleted by an administrator; a writer who was authorised against a row replaces that very row or nothing.
  Searches are confined to a namespace prefix only up to the case of letters.
\<close>

section \<open>The store as a state machine\<close>

datatype memory_op =
    OpPut uuid namespace string
  | OpArchive namespace string
  | OpExpire time
  | OpForceDelete uuid
  | OpMaintenance

inductive memory_step :: "enc \<Rightarrow> MemoryCodec \<Rightarrow> ('e \<Rightarrow> string memory_result) \<Rightarrow> memoryDB \<Rightarrow> memory_op \<Rightarrow> memoryDB \<Rightarrow> bool"
  for s_enc mc serialize where
  put: "PutMemory d s_enc mc i clock now req = Inr (d', w) \<Longrightarrow>
     memory_step s_enc mc serialize d (OpPut i (pm_Namespace req) (pm_Key req)) d'"
| archive: "ArchiveMemory d now ns key r = Inr d' \<Longrightarrow> memory_step s_enc mc serialize d (OpArchive ns key) d'"
| expire: "memory_step s_enc mc serialize d (OpExpire now) (ExpireMemoriesWithChanges d now)"
| force_delete: "memory_step s_enc mc serialize d (OpForceDelete i) (AdminForceDeleteMemory d i)"
| delete_updates: "memory_step s_enc mc serialize d OpMaintenance (HardDeleteEvictableUpdates d limit)"
| tombstone: "memory_step s_enc mc serialize d OpMaintenance (TombstoneDeletedMemoriesWithChanges d limit)"
| delete_tombstones: "memory_step s_enc mc serialize d OpMaintenance (HardDeleteExpiredTombstonesWithChanges d olderThan limit)"
| indexed: "memory_step s_enc mc serialize d OpMaintenance (SetMemoryIndexedAt d i t)"
| index: "indexMemory vecEnabled serialize embedder now m d = Some d' \<Longrightarrow> memory_step s_enc mc serialize d OpMaintenance d'"
| migrate: "MigrateOneMemoryKindCAS d i kind revision attributes target = Inr d' \<Longrightarrow> memory_step s_enc mc serialize d OpMaintenance d'"
| kind: "CreateMemoryKindVersion d version = Inr (d', v) \<Longrightarrow> memory_step s_enc mc serialize d OpMaintenance d'"
| loads: "IncrementMemoryLoads d keys t = Inr d' \<Longrightarrow> memory_step s_enc mc serialize d OpMaintenance d'"

definition emptyMemory :: "memoryDB \<Rightarrow> bool" where
  "emptyMemory d \<longleftrightarrow> md_memories d = [] \<and> md_usage d = [] \<and> md_vectors d = []"

section \<open>The invariant\<close>

definition isActive :: "memoryRow \<Rightarrow> bool" where
  "isActive m \<longleftrightarrow> mr_ArchivedAt m = None"

definition validNS :: "namespace \<Rightarrow> bool" where
  "validNS segs \<longleftrightarrow> segs \<noteq> [] \<and> [] \<notin> set segs"

definition rowOK :: "MemoryKindVersion list \<Rightarrow> memoryRow \<Rightarrow> bool" where
  "rowOK kinds m \<longleftrightarrow>
     (mr_DeletedReason m = None \<longleftrightarrow> isActive m) \<and> mr_DeletedReason m \<in> {None, Some 0, Some 1, Some 2}
     \<and> mr_Revision m > 0 \<and> (\<exists>segs. validNS segs \<and> mr_Namespace m = encodedNS segs)
     \<and> (isActive m \<longrightarrow> mr_ValueEncrypted m \<noteq> None) \<and> mr_MemoryKind m \<in> kv_Name ` set kinds"

definition rowKey :: "memoryRow \<Rightarrow> string \<times> string" where
  "rowKey m = (mr_Namespace m, mr_Key m)"

definition rowsOK :: "MemoryKindVersion list \<Rightarrow> memoryRow list \<Rightarrow> bool" where
  "rowsOK kinds ms \<longleftrightarrow>
     distinct (map mr_ID ms) \<and> distinct (map rowKey (filter isActive ms)) \<and> (\<forall>m \<in> set ms. rowOK kinds m)"

definition vectorsOK :: "memoryVectorRow list \<Rightarrow> bool" where
  "vectorsOK vs \<longleftrightarrow> distinct (map (\<lambda>v. (mv_MemoryID v, mv_FieldName v)) vs) \<and> (\<forall>v \<in> set vs. mv_MemoryRevision v > 0)"

definition usageOK :: "memoryUsageRow list \<Rightarrow> bool" where
  "usageOK us \<longleftrightarrow> distinct (map (\<lambda>u. (mu_Namespace u, mu_Key u)) us) \<and> (\<forall>u \<in> set us. mu_FetchCount u > 0)"

definition memoryOK :: "memoryDB \<Rightarrow> bool" where
  "memoryOK d \<longleftrightarrow> rowsOK (md_kinds d) (md_memories d) \<and> vectorsOK (md_vectors d) \<and> usageOK (md_usage d)"

text \<open>An update that keeps identity and key and does not revive a row.\<close>

definition rowUpdate :: "(memoryRow \<Rightarrow> memoryRow) \<Rightarrow> bool" where
  "rowUpdate f \<longleftrightarrow> (\<forall>m. mr_ID (f m) = mr_ID m \<and> rowKey (f m) = rowKey m \<and> (isActive (f m) \<longrightarrow> isActive m))"

lemma rowsOK_update:
  assumes ok: "rowsOK kinds ms" and f: "rowUpdate f" and row: "\<And>m. m \<in> set ms \<Longrightarrow> rowOK kinds m \<Longrightarrow> P m \<Longrightarrow> rowOK kinds (f m)"
  shows "rowsOK kinds (map (\<lambda>m. if P m then f m else m) ms)"
proof -
  let ?g = "\<lambda>m. if P m then f m else m"
  have g: "mr_ID \<circ> ?g = mr_ID" "rowKey \<circ> ?g = rowKey" "isActive (?g m) \<Longrightarrow> isActive m" for m
    using f by (auto simp: rowUpdate_def fun_eq_iff split: if_splits)
  have "filter (\<lambda>m. isActive (?g m)) (filter isActive ms) = filter (\<lambda>m. isActive (?g m)) ms"
    unfolding filter_filter by (rule filter_cong[OF refl]) (use g(3) in blast)
  moreover have "map rowKey (filter isActive (map ?g ms)) = map rowKey (filter (\<lambda>m. isActive (?g m)) ms)"
    using g(2) by (simp add: filter_map comp_def fun_eq_iff)
  moreover have "distinct (map rowKey (filter (\<lambda>m. isActive (?g m)) (filter isActive ms)))"
    by (rule distinct_map_filter) (use ok in \<open>simp add: rowsOK_def\<close>)
  ultimately have "distinct (map rowKey (filter isActive (map ?g ms)))" by metis
  then show ?thesis using ok g(1) row by (auto simp: rowsOK_def)
qed


lemma rowsOK_filter:
  assumes "rowsOK kinds ms"
  shows "rowsOK kinds (filter Q ms)"
proof -
  have "filter isActive (filter Q ms) = filter Q (filter isActive ms)" unfolding filter_filter by (rule filter_cong[OF refl]) blast
  then show ?thesis using assms distinct_map_filter[of rowKey "filter isActive ms" Q] by (auto simp: rowsOK_def distinct_map_filter)
qed

lemma rowOK_mono: "rowOK kinds m \<Longrightarrow> set kinds \<subseteq> set kinds' \<Longrightarrow> rowOK kinds' m"
  by (auto simp: rowOK_def)

lemma fst_updateMemories:
  "updateMemories P f d = (d', n) \<Longrightarrow> d' = d\<lparr>md_memories := map (\<lambda>m. if P m then f m else m) (md_memories d)\<rparr>"
  by (auto simp: updateMemories_def)

lemma memoryOK_update:
  assumes "memoryOK d" "rowUpdate f" "\<And>m. m \<in> set (md_memories d) \<Longrightarrow> rowOK (md_kinds d) m \<Longrightarrow> P m \<Longrightarrow> rowOK (md_kinds d) (f m)"
  shows "memoryOK (fst (updateMemories P f d))"
  using assms rowsOK_update[of "md_kinds d" "md_memories d" f P] by (simp add: memoryOK_def updateMemories_def)

lemma rowUpdate_fields [simp]:
  "rowUpdate (archivedRow now reason)" "rowUpdate (\<lambda>m. m\<lparr>mr_IndexedAt := t\<rparr>)"
  "rowUpdate (\<lambda>m. m\<lparr>mr_PolicyAttributes := a, mr_MemoryKind := k, mr_IndexedAt := None, mr_Revision := mr_Revision m + 1\<rparr>)"
  "rowUpdate (\<lambda>m. m\<lparr>mr_ValueEncrypted := None, mr_PolicyAttributes := a, mr_Revision := mr_Revision m + 1, mr_IndexedAt := None\<rparr>)"
  by (auto simp: rowUpdate_def archivedRow_def rowKey_def isActive_def)

lemma archivedRow_OK: "rowOK kinds m \<Longrightarrow> reason \<in> {0, 1, 2} \<Longrightarrow> rowOK kinds (archivedRow now reason m)"
  by (auto simp: rowOK_def archivedRow_def isActive_def)

lemma indexedRow_OK: "rowOK kinds m \<Longrightarrow> rowOK kinds (m\<lparr>mr_IndexedAt := t\<rparr>)"
  by (auto simp: rowOK_def isActive_def)

lemma GetMemoryKindVersion_None: "GetMemoryKindVersion d k = None \<longleftrightarrow> k \<notin> kv_Name ` set (md_kinds d)"
  by (auto simp: GetMemoryKindVersion_def find_None_iff)

text \<open>Each operation keeps the invariant.\<close>

lemma insertMemory_OK:
  assumes "insertMemory row d = Inr d'" and "memoryOK d" and "rowOK (md_kinds d) (row\<lparr>mr_MemoryKind := k\<rparr>)"
  shows "memoryOK d'"
proof -
  have d': "d' = d\<lparr>md_memories := md_memories d @ [row]\<rparr>" and kind: "mr_MemoryKind row \<in> kv_Name ` set (md_kinds d)"
    and new: "\<forall>m \<in> set (md_memories d). mr_ID m \<noteq> mr_ID row \<and> (isActive m \<and> isActive row \<longrightarrow> rowKey m \<noteq> rowKey row)"
    using assms(1) by (auto simp: insertMemory_def GetMemoryKindVersion_None list_ex_iff isActive_def rowKey_def split: if_splits)
  have "rowOK (md_kinds d) row" using assms(3) kind by (auto simp: rowOK_def isActive_def)
  then show ?thesis using assms(2) new unfolding d' by (auto simp: memoryOK_def rowsOK_def)
qed

lemma supersede_shape:
  "\<exists>P. supersede p ns key now d = (d, 0)
     \<or> supersede p ns key now d = updateMemories (\<lambda>m. P m \<and> mr_ArchivedAt m = None) (archivedRow now 0) d"
proof (cases p)
  case None
  then show ?thesis by (intro exI[of _ "\<lambda>m. mr_Namespace m = ns \<and> mr_Key m = key"]) (simp add: supersede_def conj_assoc)
next
  case (Some x)
  then show ?thesis
    by (intro exI[of _ "\<lambda>m. mr_ID m = px_ID x \<and> mr_Revision m = px_Revision x"]) (simp add: supersede_def conj_assoc)
qed

lemma supersede_OK: "memoryOK d \<Longrightarrow> memoryOK (fst (supersede p ns key now d)) \<and> md_kinds (fst (supersede p ns key now d)) = md_kinds d"
proof -
  assume ok: "memoryOK d"
  then have "memoryOK (fst (updateMemories P (archivedRow now 0) d))" for P by (rule memoryOK_update) (simp_all add: archivedRow_OK)
  then show ?thesis using supersede_shape[of p ns key now d] ok by (auto simp: updateMemories_def)
qed

definition newRow :: "PutMemoryRequest \<Rightarrow> string \<Rightarrow> uuid \<Rightarrow> string \<Rightarrow> time option \<Rightarrow> time \<Rightarrow> int \<Rightarrow> int \<Rightarrow> memoryRow" where
  "newRow req ns i c expiresAt now k revision =
     \<lparr>mr_ID = i, mr_Namespace = ns, mr_Key = pm_Key req, mr_ValueEncrypted = Some c, mr_PolicyAttributes = pm_PolicyAttributes req,
      mr_IndexedContent = (case pm_Index req of None \<Rightarrow> [] | Some index \<Rightarrow> index), mr_Kind = k, mr_Revision = revision,
      mr_DeletedReason = None, mr_CreatedAt = now, mr_ExpiresAt = expiresAt, mr_ArchivedAt = None, mr_IndexedAt = None,
      mr_MemoryKind = pm_MemoryKind req\<rparr>"

definition nextRevision :: "memoryRow option \<Rightarrow> int" where
  "nextRevision active = (case active of None \<Rightarrow> 1 | Some m \<Rightarrow> mr_Revision m + 1)"

lemma PutMemory_cases:
  assumes "PutMemory d s_enc mc i clock now req = Inr (d', w)"
  obtains ns json c k where "encodeNS (pm_Namespace req) = Inr ns" "mc_marshal mc (pm_Value req) = Inr json"
    "encryptMemoryValue s_enc i json = Inr c" "\<not> expectationFails req (newestRow d ns (pm_Key req) ArchiveFilterExclude)"
    "insertMemory (newRow req ns i c (expiryOf clock (pm_TTLSeconds req)) now k (nextRevision (newestRow d ns (pm_Key req) ArchiveFilterExclude)))
       (fst (supersede (writePredecessor req (newestRow d ns (pm_Key req) ArchiveFilterExclude)) ns (pm_Key req) now d)) = Inr d'"
    "mw_ID w = i" "mw_CreatedAt w = now" "mw_ExpiresAt w = expiryOf clock (pm_TTLSeconds req)"
    "mw_Revision w = nextRevision (newestRow d ns (pm_Key req) ArchiveFilterExclude)"
proof -
  obtain ns json c where e: "encodeNS (pm_Namespace req) = Inr ns" "mc_marshal mc (pm_Value req) = Inr json"
    "encryptMemoryValue s_enc i json = Inr c"
    using assms by (auto simp: PutMemory_def andThen_eq_Inr)
  let ?active = "newestRow d ns (pm_Key req) ArchiveFilterExclude"
  obtain d1 n where su: "supersede (writePredecessor req ?active) ns (pm_Key req) now d = (d1, n)" by fastforce
  have "\<not> expectationFails req ?active"
    "insertMemory (newRow req ns i c (expiryOf clock (pm_TTLSeconds req)) now (if n > 0 then 1 else 0) (nextRevision ?active)) d1 = Inr d'"
    "w = \<lparr>mw_ID = i, mw_Namespace = pm_Namespace req, mw_Key = pm_Key req, mw_Attributes = pm_PolicyAttributes req,
          mw_MemoryKind = pm_MemoryKind req, mw_CreatedAt = now, mw_ExpiresAt = expiryOf clock (pm_TTLSeconds req), mw_Revision = nextRevision ?active\<rparr>"
    using assms e su
    by (auto simp: PutMemory_def putRow_def Let_def andThen_eq_Inr newRow_def nextRevision_def split: if_splits)
  with e su show thesis using that by simp
qed

lemma newestRow_Some: "newestRow d ns key archived = Some m \<Longrightarrow>
   m \<in> set (md_memories d) \<and> rowKey m = (ns, key) \<and> sqliteMemoryArchiveWhere archived m"
proof -
  let ?q = "filter (\<lambda>m. mr_Namespace m = ns \<and> mr_Key m = key \<and> sqliteMemoryArchiveWhere archived m) (md_memories d)"
  assume "newestRow d ns key archived = Some m"
  then obtain rest where "order_by newestFirst ?q = m # rest" by (auto simp: newestRow_def split: list.splits)
  then have "m \<in> set ?q" by (metis list.set_intros(1) set_order_by)
  then show ?thesis by (simp add: rowKey_def)
qed

lemma order_by_empty: "order_by lt xs = [] \<longleftrightarrow> xs = []"
  by (metis length_0_conv length_order_by)

lemma newestRow_None: "newestRow d ns key archived = None \<longleftrightarrow>
   (\<forall>m \<in> set (md_memories d). rowKey m = (ns, key) \<longrightarrow> \<not> sqliteMemoryArchiveWhere archived m)"
proof -
  let ?q = "filter (\<lambda>m. mr_Namespace m = ns \<and> mr_Key m = key \<and> sqliteMemoryArchiveWhere archived m) (md_memories d)"
  have "newestRow d ns key archived = None \<longleftrightarrow> order_by newestFirst ?q = []"
    by (cases "order_by newestFirst ?q") (simp_all add: newestRow_def)
  also have "\<dots> \<longleftrightarrow> ?q = []" by (rule order_by_empty)
  finally have "newestRow d ns key archived = None \<longleftrightarrow> ?q = []" .
  then show ?thesis by (auto simp: filter_empty_conv rowKey_def)
qed

lemma archiveWhere_exclude [simp]: "sqliteMemoryArchiveWhere ArchiveFilterExclude m \<longleftrightarrow> isActive m"
  by (simp add: sqliteMemoryArchiveWhere_def isActive_def)

lemma active_unique:
  assumes "rowsOK kinds ms" "m \<in> set ms" "m' \<in> set ms" "isActive m" "isActive m'" "rowKey m = rowKey m'"
  shows "m = m'"
  using assms inj_on_of_distinct_map[of rowKey "filter isActive ms"] by (auto simp: rowsOK_def inj_on_def)

lemma newestRow_active:
  assumes "memoryOK d" "m \<in> set (md_memories d)" "isActive m"
  shows "newestRow d (mr_Namespace m) (mr_Key m) ArchiveFilterExclude = Some m"
proof -
  obtain x where x: "newestRow d (mr_Namespace m) (mr_Key m) ArchiveFilterExclude = Some x"
    using newestRow_None[of d "mr_Namespace m" "mr_Key m" ArchiveFilterExclude] assms(2,3) by (auto simp: rowKey_def)
  with newestRow_Some[OF x] active_unique[of "md_kinds d" "md_memories d" x m] assms show ?thesis by (auto simp: memoryOK_def rowKey_def)
qed

lemma nextRevision_pos:
  assumes "memoryOK d"
  shows "0 < nextRevision (newestRow d ns key a)"
proof (cases "newestRow d ns key a")
  case (Some m)
  then have "m \<in> set (md_memories d)" using newestRow_Some by blast
  with assms have "rowOK (md_kinds d) m" by (simp add: memoryOK_def rowsOK_def)
  with Some show ?thesis by (simp add: nextRevision_def rowOK_def)
qed (simp add: nextRevision_def)

lemma encodeNS_valid: "encodeNS ns = Inr e \<longleftrightarrow> validNS ns \<and> e = encodedNS ns"
  by (auto simp: encodeNS_def EncodeNamespace_Inr validNS_def)

lemma PutMemory_OK:
  assumes "PutMemory d s_enc mc i clock now req = Inr (d', w)" and ok: "memoryOK d"
  shows "memoryOK d'"
proof (rule PutMemory_cases[OF assms(1)])
  fix ns json c k
  let ?active = "newestRow d ns (pm_Key req) ArchiveFilterExclude"
  let ?d1 = "fst (supersede (writePredecessor req ?active) ns (pm_Key req) now d)"
  let ?row = "newRow req ns i c (expiryOf clock (pm_TTLSeconds req)) now k (nextRevision ?active)"
  assume ns: "encodeNS (pm_Namespace req) = Inr ns" and ins: "insertMemory ?row ?d1 = Inr d'"
  have d1: "memoryOK ?d1" "md_kinds ?d1 = md_kinds d" using supersede_OK[OF ok] by blast+
  have "mr_MemoryKind ?row \<in> kv_Name ` set (md_kinds d)"
    using ins d1(2) by (auto simp: insertMemory_def GetMemoryKindVersion_None split: if_splits)
  then have "rowOK (md_kinds d) ?row"
    using nextRevision_pos[OF ok] ns by (auto simp: rowOK_def newRow_def isActive_def encodeNS_valid)
  then show ?thesis using insertMemory_OK[OF ins d1(1), of "mr_MemoryKind ?row"] d1(2) by simp
qed

lemma usageOK_countLoad:
  assumes "usageOK us"
  shows "usageOK (countLoad t k us)"
proof (cases "k \<in> (\<lambda>u. (mu_Namespace u, mu_Key u)) ` set us")
  case True
  let ?g = "\<lambda>u. if (mu_Namespace u, mu_Key u) = k
      then u\<lparr>mu_FetchCount := mu_FetchCount u + 1, mu_LastFetchedAt := (if mu_LastFetchedAt u \<ge> t then mu_LastFetchedAt u else t)\<rparr> else u"
  have "map (\<lambda>u. (mu_Namespace u, mu_Key u)) (map ?g us) = map (\<lambda>u. (mu_Namespace u, mu_Key u)) us" by simp
  moreover have "countLoad t k us = map ?g us" using True by (auto simp: countLoad_def list_ex_iff)
  ultimately show ?thesis using assms by (auto simp: usageOK_def simp del: map_map)
next
  case False
  then have "countLoad t k us = us @ [\<lparr>mu_Namespace = fst k, mu_Key = snd k, mu_FetchCount = 1, mu_LastFetchedAt = t\<rparr>]"
    by (auto simp: countLoad_def list_ex_iff)
  then show ?thesis using assms False by (auto simp: usageOK_def)
qed

lemma usageOK_loads: "usageOK us \<Longrightarrow> usageOK (fold (countLoad t) ks us)"
  by (induction ks arbitrary: us) (simp_all add: usageOK_countLoad)

lemma vectorsOK_upsert: "vectorsOK vs \<Longrightarrow> mv_MemoryRevision v > 0 \<Longrightarrow> vectorsOK (upsertVector v vs)"
proof -
  let ?k = "\<lambda>v. (mv_MemoryID v, mv_FieldName v)"
  assume ok: "vectorsOK vs" "mv_MemoryRevision v > 0"
  have "map ?k (map (\<lambda>x. if mv_MemoryID x = mv_MemoryID v \<and> mv_FieldName x = mv_FieldName v then v else x) vs) = map ?k vs" by simp
  then show ?thesis using ok by (auto simp: vectorsOK_def upsertVector_def list_ex_iff simp del: map_map)
qed

lemma UpsertMemoryVectors_OK:
  "UpsertMemoryVectors vecEnabled serialize d items = Inr d' \<Longrightarrow> memoryOK d \<Longrightarrow>
     memoryOK d' \<and> md_memories d' = md_memories d \<and> md_kinds d' = md_kinds d \<and> md_usage d' = md_usage d"
proof (induction items arbitrary: d)
  case (Cons item items)
  show ?case
  proof (cases vecEnabled)
    case True
    with Cons.prems(1) obtain blob where pos: "vu_MemoryRevision item > 0"
      and rest: "UpsertMemoryVectors vecEnabled serialize
          (d\<lparr>md_vectors := upsertVector
              \<lparr>mv_MemoryID = vu_MemoryID item, mv_FieldName = vu_FieldName item, mv_Namespace = vu_Namespace item,
               mv_PolicyAttributes = vu_PolicyAttributes item, mv_Embedding = blob, mv_MemoryKind = vu_MemoryKind item,
               mv_MemoryRevision = vu_MemoryRevision item\<rparr> (md_vectors d)\<rparr>) items = Inr d'"
      by (auto simp: andThen_eq_Inr split: if_splits)
    show ?thesis using Cons.IH[OF rest] Cons.prems(2) pos vectorsOK_upsert by (simp add: memoryOK_def)
  qed (use Cons.prems in auto)
qed simp

lemma DeleteMemoryVectors_OK: "memoryOK d \<Longrightarrow> memoryOK (DeleteMemoryVectors v d i)"
  by (auto simp: DeleteMemoryVectors_def memoryOK_def vectorsOK_def distinct_map_filter)

lemma DeleteMemoryVectors_memories [simp]: "md_memories (DeleteMemoryVectors v d i) = md_memories d"
  by (simp add: DeleteMemoryVectors_def)

text \<open>A transaction of the indexer changes nothing of the memories but the mark of one row.\<close>

lemma replaceVectors_rows:
  assumes "replaceVectors vecEnabled serialize m upserts now d = Inr d'" and "memoryOK d"
  shows "memoryOK d' \<and> (\<exists>P. md_memories d' = map (\<lambda>m. if P m then m\<lparr>mr_IndexedAt := Some now\<rparr> else m) (md_memories d))"
proof -
  obtain d1 where d1: "UpsertMemoryVectors vecEnabled serialize (DeleteMemoryVectors vecEnabled d (pg_ID m)) upserts = Inr d1"
    and step: "(case SetMemoryKindIndexedAtCAS d1 (pg_ID m) (pg_MemoryKind m) (pg_Revision m) now of
         Inr d2 \<Rightarrow> Inr d2 | Inl err \<Rightarrow> if err = ErrMemoryRevisionConflict then Inr d1 else Inl err) = Inr d'"
    using assms(1) unfolding replaceVectors_def andThen_eq_Inr by blast
  have cas: "SetMemoryKindIndexedAtCAS d1 (pg_ID m) (pg_MemoryKind m) (pg_Revision m) now = Inr d' \<or> d' = d1"
    using step by (cases "SetMemoryKindIndexedAtCAS d1 (pg_ID m) (pg_MemoryKind m) (pg_Revision m) now") (auto split: if_splits)
  have ok: "memoryOK d1" "md_memories d1 = md_memories d"
    using UpsertMemoryVectors_OK[OF d1 DeleteMemoryVectors_OK[OF assms(2)]] by simp_all
  let ?P = "\<lambda>r. mr_ID r = pg_ID m \<and> mr_Revision r = pg_Revision m \<and> mr_MemoryKind r = pg_MemoryKind m"
  from cas show ?thesis
  proof
    assume "SetMemoryKindIndexedAtCAS d1 (pg_ID m) (pg_MemoryKind m) (pg_Revision m) now = Inr d'"
    then have "d' = fst (updateMemories ?P (\<lambda>r. r\<lparr>mr_IndexedAt := Some now\<rparr>) d1)"
      by (auto simp: SetMemoryKindIndexedAtCAS_def updateMemories_def split: if_splits)
    moreover have "memoryOK (fst (updateMemories ?P (\<lambda>r. r\<lparr>mr_IndexedAt := Some now\<rparr>) d1))"
      by (rule memoryOK_update[OF ok(1)]) (simp_all add: indexedRow_OK)
    ultimately show ?thesis by (intro conjI exI[of _ ?P]) (simp_all add: updateMemories_def ok(2))
  next
    assume "d' = d1"
    then show ?thesis using ok by (auto intro!: exI[of _ "\<lambda>_. False"])
  qed
qed

lemma indexMemory_rows:
  assumes "indexMemory vecEnabled serialize embedder now m d = Some d'" and "memoryOK d"
  shows "memoryOK d' \<and> (\<exists>P. md_memories d' = map (\<lambda>m. if P m then m\<lparr>mr_IndexedAt := Some now\<rparr> else m) (md_memories d))"
proof -
  obtain upserts where "replaceVectors vecEnabled serialize m upserts now d = Inr d'"
    using assms(1) by (auto simp: indexMemory_def Let_def split: if_splits option.splits sum.splits)
  then show ?thesis using replaceVectors_rows assms(2) by blast
qed

lemma MigrateOneMemoryKindCAS_update:
  assumes "MigrateOneMemoryKindCAS d i kind revision attributes target = Inr d'"
  shows "target \<in> kv_Name ` set (md_kinds d) \<and> (\<exists>P. d' = fst (updateMemories P
     (\<lambda>m. m\<lparr>mr_PolicyAttributes := attributes, mr_MemoryKind := target, mr_IndexedAt := None, mr_Revision := mr_Revision m + 1\<rparr>) d))"
  using assms by (auto simp: MigrateOneMemoryKindCAS_def GetMemoryKindVersion_None updateMemories_def split: if_splits)

lemma ArchiveMemory_update:
  assumes "ArchiveMemory d now ns key r = Inr d'"
  shows "validNS ns \<and> (\<exists>P. d' = fst (updateMemories P (archivedRow now 1) d) \<and> (\<forall>m. P m \<longrightarrow> rowKey m = (encodedNS ns, key)))"
proof -
  obtain e where e: "encodeNS ns = Inr e" using assms by (auto simp: ArchiveMemory_def andThen_eq_Inr)
  let ?P = "\<lambda>m. mr_Namespace m = e \<and> mr_Key m = key \<and> mr_ArchivedAt m = None \<and> (case r of None \<Rightarrow> True | Some x \<Rightarrow> mr_Revision m = x)"
  have "d' = fst (updateMemories ?P (archivedRow now 1) d)"
    using assms e by (cases "updateMemories ?P (archivedRow now 1) d") (auto simp: ArchiveMemory_def split: if_splits)
  moreover have "\<forall>m. ?P m \<longrightarrow> rowKey m = (encodedNS ns, key)" "validNS ns" using e by (auto simp: encodeNS_valid rowKey_def)
  ultimately show ?thesis by blast
qed

lemma memoryOK_delete: "memoryOK d \<Longrightarrow> memoryOK (d\<lparr>md_memories := filter Q (md_memories d)\<rparr>)"
  by (simp add: memoryOK_def rowsOK_filter)

lemma oldestIDs_row: "i \<in> set (oldestIDs P limit d) \<Longrightarrow> \<exists>m \<in> set (md_memories d). mr_ID m = i \<and> P m"
  by (auto simp: oldestIDs_def dest!: in_set_takeD)

lemma id_unique: "memoryOK d \<Longrightarrow> m \<in> set (md_memories d) \<Longrightarrow> m' \<in> set (md_memories d) \<Longrightarrow> mr_ID m = mr_ID m' \<Longrightarrow> m = m'"
  using inj_on_of_distinct_map[of mr_ID "md_memories d"] by (auto simp: memoryOK_def rowsOK_def inj_on_def)

lemma clearedRow_OK: "rowOK kinds m \<Longrightarrow> \<not> isActive m \<Longrightarrow>
   rowOK kinds (m\<lparr>mr_ValueEncrypted := None, mr_PolicyAttributes := a, mr_Revision := mr_Revision m + 1, mr_IndexedAt := None\<rparr>)"
  by (auto simp: rowOK_def isActive_def)

lemma tombstone_OK:
  assumes "memoryOK d"
  shows "memoryOK (TombstoneDeletedMemoriesWithChanges d limit)"
proof -
  let ?f = "\<lambda>m. m\<lparr>mr_ValueEncrypted := None, mr_PolicyAttributes := [], mr_Revision := mr_Revision m + 1, mr_IndexedAt := None\<rparr>"
  let ?ids = "oldestIDs (\<lambda>m. mr_DeletedReason m \<in> {Some 1, Some 2} \<and> mr_IndexedAt m \<noteq> None \<and> mr_ValueEncrypted m \<noteq> None) limit d"
  have archived: "\<not> isActive m" if here: "m \<in> set (md_memories d)" and listed: "mr_ID m \<in> set ?ids" for m
  proof -
    obtain m' where "m' \<in> set (md_memories d)" "mr_ID m' = mr_ID m" "mr_DeletedReason m' \<in> {Some 1, Some 2}"
      using oldestIDs_row[OF listed] by blast
    moreover from this have "m = m'" using id_unique[OF assms here] by metis
    ultimately have "mr_DeletedReason m \<noteq> None" by auto
    moreover have "rowOK (md_kinds d) m" using assms here by (simp add: memoryOK_def rowsOK_def)
    ultimately show ?thesis by (auto simp: rowOK_def)
  qed
  show ?thesis unfolding TombstoneDeletedMemoriesWithChanges_def Let_def
    by (rule memoryOK_update[OF assms]) (use archived in \<open>simp_all add: clearedRow_OK\<close>)
qed

lemma memory_step_OK: "memory_step s_enc mc serialize d op d' \<Longrightarrow> memoryOK d \<Longrightarrow> memoryOK d'"
proof (induction rule: memory_step.induct)
  case (put d i clock now req d' w)
  then show ?case using PutMemory_OK by blast
next
  case (archive d now ns key r d')
  then obtain P where "d' = fst (updateMemories P (archivedRow now 1) d)" using ArchiveMemory_update by blast
  then show ?case using memoryOK_update[OF archive.prems, of "archivedRow now 1" P] by (simp add: archivedRow_OK)
next
  case (expire d now)
  then show ?case unfolding ExpireMemoriesWithChanges_def by (rule memoryOK_update) (simp_all add: archivedRow_OK)
next
  case (force_delete d i)
  then show ?case unfolding AdminForceDeleteMemory_def by (rule memoryOK_delete)
next
  case (delete_updates d limit)
  then show ?case unfolding HardDeleteEvictableUpdates_def Let_def by (rule memoryOK_delete)
next
  case (tombstone d limit)
  then show ?case by (rule tombstone_OK)
next
  case (delete_tombstones d olderThan limit)
  then show ?case unfolding HardDeleteExpiredTombstonesWithChanges_def Let_def by (rule memoryOK_delete)
next
  case (indexed d i t)
  then show ?case unfolding SetMemoryIndexedAt_def by (rule memoryOK_update) (simp_all add: indexedRow_OK)
next
  case (index vecEnabled embedder now m d d')
  then show ?case using indexMemory_rows by blast
next
  case (migrate d i kind revision attributes target d')
  then show ?case using MigrateOneMemoryKindCAS_update[of d i kind revision attributes target d']
    by (auto simp: rowOK_def isActive_def intro!: memoryOK_update)
next
  case (kind d version d' v)
  then have "md_memories d' = md_memories d" "set (md_kinds d) \<subseteq> set (md_kinds d')" "md_vectors d' = md_vectors d" "md_usage d' = md_usage d"
    by (auto simp: CreateMemoryKindVersion_def split: option.splits if_splits)
  then show ?case using kind.prems rowOK_mono by (auto simp: memoryOK_def rowsOK_def)
next
  case (loads d keys t d')
  then show ?case by (auto simp: IncrementMemoryLoads_def andThen_eq_Inr memoryOK_def usageOK_loads)
qed

lemma emptyMemory_OK: "emptyMemory d \<Longrightarrow> memoryOK d"
  by (simp add: emptyMemory_def memoryOK_def rowsOK_def vectorsOK_def usageOK_def)

interpretation memories: transition_invariant emptyMemory "memory_step s_enc mc serialize" memoryOK
  by unfold_locales (simp_all add: emptyMemory_OK memory_step_OK)


section \<open>Written memories stay\<close>

text \<open>The row of a write: its identity, key, value and times, and at least its revision.\<close>

definition holdsWrite :: "uuid \<Rightarrow> string \<times> string \<Rightarrow> string \<Rightarrow> time \<Rightarrow> time option \<Rightarrow> int \<Rightarrow> memoryRow \<Rightarrow> bool" where
  "holdsWrite i k c created expires revision m \<longleftrightarrow>
     mr_ID m = i \<and> isActive m \<and> rowKey m = k \<and> mr_ValueEncrypted m = Some c \<and> mr_CreatedAt m = created
     \<and> mr_ExpiresAt m = expires \<and> revision \<le> mr_Revision m"

text \<open>Operations that leave a write alone: others' keys, expiry before its time, deletion of other rows, maintenance.\<close>

fun leaves :: "uuid \<Rightarrow> namespace \<Rightarrow> string \<Rightarrow> time option \<Rightarrow> memory_op \<Rightarrow> bool" where
  "leaves i ns key expires (OpPut j ns' key') \<longleftrightarrow> (ns', key') \<noteq> (ns, key)"
| "leaves i ns key expires (OpArchive ns' key') \<longleftrightarrow> (ns', key') \<noteq> (ns, key)"
| "leaves i ns key expires (OpExpire t) \<longleftrightarrow> (case expires of None \<Rightarrow> True | Some e \<Rightarrow> t < e)"
| "leaves i ns key expires (OpForceDelete j) \<longleftrightarrow> j \<noteq> i"
| "leaves i ns key expires OpMaintenance \<longleftrightarrow> True"

lemma write_kept_update:
  assumes "m \<in> set (md_memories d)" "holdsWrite i k c t e r m" "P m \<Longrightarrow> holdsWrite i k c t e r (f m)"
  shows "\<exists>m \<in> set (md_memories (fst (updateMemories P f d))). holdsWrite i k c t e r m"
  using assms by (intro bexI[of _ "if P m then f m else m"]) (auto simp: updateMemories_def)

lemma write_kept_delete:
  assumes "memoryOK d" "m \<in> set (md_memories d)" "holdsWrite i k c t e r m" "\<And>m'. P m' \<Longrightarrow> mr_DeletedReason m' \<noteq> None"
  shows "mr_ID m \<notin> set (oldestIDs P limit d)"
proof
  assume "mr_ID m \<in> set (oldestIDs P limit d)"
  then obtain m' where "m' \<in> set (md_memories d)" "mr_ID m' = mr_ID m" "P m'" using oldestIDs_row by blast
  then have "mr_DeletedReason m \<noteq> None" using id_unique[OF assms(1,2)] assms(4) by metis
  moreover have "rowOK (md_kinds d) m" using assms(1,2) by (simp add: memoryOK_def rowsOK_def)
  ultimately show False using assms(3) by (simp add: rowOK_def holdsWrite_def)
qed

text \<open>What a write supersedes is the active row of its own key.\<close>

lemma supersede_own_key:
  assumes ok: "memoryOK d" and exp: "\<not> expectationFails req (newestRow d ns key ArchiveFilterExclude)"
    and m: "m \<in> set (md_memories d)" "isActive m" "rowKey m \<noteq> (ns, key)"
  shows "m \<in> set (md_memories (fst (supersede (writePredecessor req (newestRow d ns key ArchiveFilterExclude)) ns key now d)))"
proof (cases "writePredecessor req (newestRow d ns key ArchiveFilterExclude)")
  case None
  then show ?thesis using m by (auto simp: supersede_def updateMemories_def rowKey_def image_iff intro!: bexI[of _ m])
next
  case (Some p)
  show ?thesis
  proof (cases "px_Exists p")
    case True
    then obtain a where a: "newestRow d ns key ArchiveFilterExclude = Some a" "mr_ID a = px_ID p"
      using Some exp by (auto simp: writePredecessor_def expectationFails_def split: option.splits if_splits)
    then have "m \<noteq> a" using newestRow_Some m(3) by blast
    then have "mr_ID m \<noteq> px_ID p" using id_unique[OF ok m(1)] newestRow_Some[OF a(1)] a(2) by metis
    then show ?thesis using Some True m(1) by (auto simp: supersede_def updateMemories_def image_iff intro!: bexI[of _ m])
  qed (use Some m in \<open>simp add: supersede_def\<close>)
qed

lemma insertMemory_rows: "insertMemory row d = Inr d' \<Longrightarrow> md_memories d' = md_memories d @ [row]"
  by (auto simp: insertMemory_def split: if_splits)

lemma write_kept_put:
  assumes put: "PutMemory d s_enc mc j clock now req = Inr (d', w)" and ok: "memoryOK d" and ns: "validNS ns"
    and m: "m \<in> set (md_memories d)" "isActive m" "rowKey m = (encodedNS ns, key)" and other: "(pm_Namespace req, pm_Key req) \<noteq> (ns, key)"
  shows "m \<in> set (md_memories d')"
proof (rule PutMemory_cases[OF put])
  fix n json c k
  let ?active = "newestRow d n (pm_Key req) ArchiveFilterExclude"
  assume n: "encodeNS (pm_Namespace req) = Inr n" and exp: "\<not> expectationFails req ?active"
    and ins: "insertMemory (newRow req n j c (expiryOf clock (pm_TTLSeconds req)) now k (nextRevision ?active))
       (fst (supersede (writePredecessor req ?active) n (pm_Key req) now d)) = Inr d'"
  have "rowKey m \<noteq> (n, pm_Key req)"
    using m(3) other n ns encodedNS_inj[of ns "pm_Namespace req"] by (auto simp: encodeNS_valid validNS_def)
  then show ?thesis using supersede_own_key[OF ok exp m(1,2)] insertMemory_rows[OF ins] by simp
qed

lemma holdsWrite_fields:
  "holdsWrite i k c t e r m \<Longrightarrow> holdsWrite i k c t e r (m\<lparr>mr_IndexedAt := x\<rparr>)"
  "holdsWrite i k c t e r m \<Longrightarrow>
     holdsWrite i k c t e r (m\<lparr>mr_PolicyAttributes := a, mr_MemoryKind := kd, mr_IndexedAt := None, mr_Revision := mr_Revision m + 1\<rparr>)"
  by (auto simp: holdsWrite_def isActive_def rowKey_def)

lemma write_kept:
  assumes "memory_step s_enc mc serialize d op d'" "leaves i ns key e op" "memoryOK d" "validNS ns"
    and "m \<in> set (md_memories d)" "holdsWrite i (encodedNS ns, key) c t e r m"
  shows "\<exists>m \<in> set (md_memories d'). holdsWrite i (encodedNS ns, key) c t e r m"
  using assms
proof (induction rule: memory_step.induct)
  case (put d j clock now req d' w)
  then have "m \<in> set (md_memories d')" using write_kept_put[of d s_enc mc j clock now req d' w ns m key] by (auto simp: holdsWrite_def)
  with put show ?case by blast
next
  case (archive d now ns' key' r' d')
  then obtain P where P: "d' = fst (updateMemories P (archivedRow now 1) d)" "\<forall>m. P m \<longrightarrow> rowKey m = (encodedNS ns', key')" "validNS ns'"
    using ArchiveMemory_update by blast
  have "\<not> P m" using P(2,3) archive.prems encodedNS_inj[of ns' ns] by (auto simp: holdsWrite_def validNS_def)
  then show ?case unfolding P(1) using write_kept_update archive.prems by metis
next
  case (expire d now)
  then show ?case unfolding ExpireMemoriesWithChanges_def
    by (intro write_kept_update) (auto simp: holdsWrite_def split: option.splits)
next
  case (force_delete d j)
  then show ?case by (auto simp: AdminForceDeleteMemory_def holdsWrite_def)
next
  case (delete_updates d limit)
  then have "mr_ID m \<notin> set (oldestIDs (\<lambda>m. mr_DeletedReason m = Some 0 \<and> mr_IndexedAt m \<noteq> None) limit d)"
    by (intro write_kept_delete) auto
  with delete_updates show ?case by (auto simp: HardDeleteEvictableUpdates_def Let_def)
next
  case (tombstone d limit)
  let ?P = "\<lambda>m. mr_DeletedReason m \<in> {Some 1, Some 2} \<and> mr_IndexedAt m \<noteq> None \<and> mr_ValueEncrypted m \<noteq> None"
  have "mr_ID m \<notin> set (oldestIDs ?P limit d)" using tombstone.prems by (intro write_kept_delete) auto
  then show ?case unfolding TombstoneDeletedMemoriesWithChanges_def Let_def
    by (intro write_kept_update[OF tombstone.prems(4,5)]) blast
next
  case (delete_tombstones d olderThan limit)
  let ?P = "\<lambda>m. mr_DeletedReason m \<in> {Some 1, Some 2} \<and> mr_ValueEncrypted m = None
     \<and> (case mr_ArchivedAt m of None \<Rightarrow> False | Some t \<Rightarrow> t \<le> olderThan)"
  have "mr_ID m \<notin> set (oldestIDs ?P limit d)" using delete_tombstones.prems by (intro write_kept_delete) auto
  with delete_tombstones show ?case by (auto simp: HardDeleteExpiredTombstonesWithChanges_def Let_def)
next
  case (indexed d j x)
  then show ?case unfolding SetMemoryIndexedAt_def
    by (intro write_kept_update[OF indexed.prems(4,5)] holdsWrite_fields(1)[OF indexed.prems(5)])
next
  case (index vecEnabled embedder now p d d')
  then obtain P where "md_memories d' = map (\<lambda>m. if P m then m\<lparr>mr_IndexedAt := Some now\<rparr> else m) (md_memories d)"
    using indexMemory_rows by blast
  then have "md_memories d' = md_memories (fst (updateMemories P (\<lambda>m. m\<lparr>mr_IndexedAt := Some now\<rparr>) d))" by (simp add: updateMemories_def)
  moreover have "\<exists>m \<in> set (md_memories (fst (updateMemories P (\<lambda>m. m\<lparr>mr_IndexedAt := Some now\<rparr>) d))). holdsWrite i (encodedNS ns, key) c t e r m"
    by (rule write_kept_update[OF index.prems(4,5)]) (rule holdsWrite_fields(1)[OF index.prems(5)])
  ultimately show ?case by simp
next
  case (migrate d j kind revision attributes target d')
  then obtain P where "d' = fst (updateMemories P (\<lambda>m. m\<lparr>mr_PolicyAttributes := attributes, mr_MemoryKind := target, mr_IndexedAt := None,
     mr_Revision := mr_Revision m + 1\<rparr>) d)" using MigrateOneMemoryKindCAS_update by blast
  then show ?case using migrate.prems by (auto intro!: write_kept_update holdsWrite_fields(2))
next
  case (kind d version d' v)
  then show ?case by (auto simp: CreateMemoryKindVersion_def split: option.splits if_splits)
next
  case (loads d keys x d')
  then show ?case by (auto simp: IncrementMemoryLoads_def andThen_eq_Inr)
qed

lemma write_kept_run:
  assumes "reachable (\<lambda>x. x = d) (\<lambda>s op s'. memory_step s_enc mc serialize s op s' \<and> leaves i ns key e op) d'"
    and "memoryOK d" "validNS ns" "\<exists>m \<in> set (md_memories d). holdsWrite i (encodedNS ns, key) c t e r m"
  shows "memoryOK d' \<and> (\<exists>m \<in> set (md_memories d'). holdsWrite i (encodedNS ns, key) c t e r m)"
  using assms
proof (induction rule: reachable.induct)
  case (next_state s op s')
  then show ?case using write_kept[of s_enc mc serialize s op s' i ns key e] memory_step_OK by blast
qed simp

text \<open>What is written is read back.\<close>

definition codecOK :: "MemoryCodec \<Rightarrow> bool" where
  "codecOK mc \<longleftrightarrow> (\<forall>v t. mc_marshal mc v = Inr t \<longrightarrow> t \<noteq> [] \<and> mc_unmarshal mc t = Some v)"

lemma written_value:
  assumes "codecOK mc" "cipherOK s_enc" "cipherNonEmpty s_enc"
    and "mc_marshal mc v = Inr json" "encryptMemoryValue s_enc i json = Inr c" "mr_ID m = i" "mr_ValueEncrypted m = Some c"
  shows "rowToItem s_enc mc m ns = Inr
     \<lparr>mi_ID = i, mi_Namespace = ns, mi_Key = mr_Key m, mi_Value = Some v, mi_Attributes = mr_PolicyAttributes m,
      mi_MemoryKind = mr_MemoryKind m, mi_CreatedAt = mr_CreatedAt m, mi_ExpiresAt = mr_ExpiresAt m,
      mi_ArchivedAt = mr_ArchivedAt m, mi_Revision = mr_Revision m\<rparr>"
proof -
  have json: "json \<noteq> []" "mc_unmarshal mc json = Some v" using assms(1,4) by (auto simp: codecOK_def)
  have "c \<noteq> [] \<and> decryptMemoryValue s_enc i c = Inr json"
  proof (cases s_enc)
    case None
    then show ?thesis using assms(5) json by (simp add: encryptMemoryValue_def decryptMemoryValue_def)
  next
    case (Some f)
    then have "EncryptField f json memoryValueFieldDomain (map asciiLower i) = Inr c"
      using assms(5) by (cases "EncryptField f json memoryValueFieldDomain (map asciiLower i)") (auto simp: encryptMemoryValue_def)
    then show ?thesis using Some assms(2,3) json(1) by (auto simp: cipherOK_def cipherNonEmpty_def decryptMemoryValue_def)
  qed
  then show ?thesis using assms(6,7) json(2) by (simp add: rowToItem_def)
qed

lemma put_row:
  assumes "PutMemory d s_enc mc i clock now req = Inr (d', w)"
  obtains json c where "mc_marshal mc (pm_Value req) = Inr json" "encryptMemoryValue s_enc i json = Inr c" "validNS (pm_Namespace req)"
    "\<exists>m \<in> set (md_memories d'). holdsWrite i (encodedNS (pm_Namespace req), pm_Key req) c (mw_CreatedAt w) (mw_ExpiresAt w) (mw_Revision w) m"
proof (rule PutMemory_cases[OF assms])
  fix ns json c k
  let ?active = "newestRow d ns (pm_Key req) ArchiveFilterExclude"
  let ?row = "newRow req ns i c (expiryOf clock (pm_TTLSeconds req)) now k (nextRevision ?active)"
  assume a: "encodeNS (pm_Namespace req) = Inr ns" "mc_marshal mc (pm_Value req) = Inr json" "encryptMemoryValue s_enc i json = Inr c"
    "insertMemory ?row (fst (supersede (writePredecessor req ?active) ns (pm_Key req) now d)) = Inr d'"
    "mw_CreatedAt w = now" "mw_ExpiresAt w = expiryOf clock (pm_TTLSeconds req)" "mw_Revision w = nextRevision ?active"
  then have "?row \<in> set (md_memories d')" using insertMemory_rows by simp
  moreover have "holdsWrite i (encodedNS (pm_Namespace req), pm_Key req) c (mw_CreatedAt w) (mw_ExpiresAt w) (mw_Revision w) ?row"
    using a by (simp add: holdsWrite_def newRow_def isActive_def rowKey_def encodeNS_valid)
  ultimately show thesis using that a by (auto simp: encodeNS_valid)
qed


text \<open>
  C13 (memory_stays_readable): a memory that was written can be read back, with its value, and stays readable with the same
  identity and times, whatever writes to other keys, expiry before its time, indexing, migrations between kinds, evictions
  and deletions of other rows follow.
\<close>

theorem memory_stays_readable:
  assumes reach: "reachable emptyMemory (memory_step s_enc mc serialize) d"
    and enc: "cipherOK s_enc" "cipherNonEmpty s_enc" and codec: "codecOK mc"
    and put: "PutMemory d s_enc mc i clock now req = Inr (d', w)"
    and run: "reachable (\<lambda>x. x = d')
       (\<lambda>s op s'. memory_step s_enc mc serialize s op s' \<and> leaves i (pm_Namespace req) (pm_Key req) (mw_ExpiresAt w) op) t"
  shows "\<exists>item. GetMemory t s_enc mc (pm_Namespace req) (pm_Key req) ArchiveFilterExclude = Inr (Some item)
     \<and> mi_ID item = i \<and> mi_Namespace item = pm_Namespace req \<and> mi_Key item = pm_Key req \<and> mi_Value item = Some (pm_Value req)
     \<and> mi_CreatedAt item = now \<and> mi_ExpiresAt item = mw_ExpiresAt w \<and> mw_Revision w \<le> mi_Revision item"
proof (rule put_row[OF put])
  fix json c
  let ?ns = "pm_Namespace req" and ?key = "pm_Key req"
  assume w: "mc_marshal mc (pm_Value req) = Inr json" "encryptMemoryValue s_enc i json = Inr c" "validNS ?ns"
    "\<exists>m \<in> set (md_memories d'). holdsWrite i (encodedNS ?ns, ?key) c (mw_CreatedAt w) (mw_ExpiresAt w) (mw_Revision w) m"
  have now: "mw_CreatedAt w = now" using PutMemory_cases[OF put] by metis
  obtain m where m: "memoryOK t" "m \<in> set (md_memories t)"
      "holdsWrite i (encodedNS ?ns, ?key) c now (mw_ExpiresAt w) (mw_Revision w) m"
    using write_kept_run[OF run PutMemory_OK[OF put memories.inv_reachable[OF reach]] w(3,4)] now by auto
  then have row: "mr_Namespace m = encodedNS ?ns" "mr_Key m = ?key" "isActive m" by (simp_all add: holdsWrite_def rowKey_def)
  have "newestRow t (encodedNS ?ns) ?key ArchiveFilterExclude = Some m" using newestRow_active[OF m(1,2) row(3)] row(1,2) by simp
  moreover have "encodeNS ?ns = Inr (encodedNS ?ns)" using w(3) by (simp add: encodeNS_valid)
  ultimately show ?thesis using written_value[OF codec enc w(1,2), of m ?ns] m(3) row by (simp add: GetMemory_def holdsWrite_def)
qed

section \<open>Authorised writes\<close>

text \<open>A step adds only the row of a write and revives none.\<close>

definition rowsFrom :: "memoryRow list \<Rightarrow> memoryRow list \<Rightarrow> uuid set \<Rightarrow> bool" where
  "rowsFrom ms ms' J \<longleftrightarrow>
     (\<forall>m' \<in> set ms'. mr_ID m' \<in> J \<or> (\<exists>m \<in> set ms. mr_ID m = mr_ID m' \<and> (isActive m' \<longrightarrow> isActive m)))"

fun writtenID :: "memory_op \<Rightarrow> uuid set" where
  "writtenID (OpPut j ns key) = {j}"
| "writtenID _ = {}"

lemma rowsFrom_refl [simp]: "rowsFrom ms ms J"
  by (auto simp: rowsFrom_def)

lemma rowsFrom_filter [simp]: "rowsFrom ms (filter Q ms) J"
  by (auto simp: rowsFrom_def)

lemma rowsFrom_update: "rowUpdate f \<Longrightarrow> rowsFrom (md_memories d) (md_memories (fst (updateMemories P f d))) J"
  by (fastforce simp: rowsFrom_def updateMemories_def rowUpdate_def)

lemma rowsFrom_supersede: "rowsFrom (md_memories d) (md_memories (fst (supersede p ns key now d))) J"
  using supersede_shape[of p ns key now d] rowsFrom_update by auto

lemma rowsFrom_put:
  assumes "PutMemory d s_enc mc i clock now req = Inr (d', w)"
  shows "rowsFrom (md_memories d) (md_memories d') {i}"
proof (rule PutMemory_cases[OF assms])
  fix ns json c k
  let ?active = "newestRow d ns (pm_Key req) ArchiveFilterExclude"
  let ?d1 = "fst (supersede (writePredecessor req ?active) ns (pm_Key req) now d)"
  let ?row = "newRow req ns i c (expiryOf clock (pm_TTLSeconds req)) now k (nextRevision ?active)"
  assume "insertMemory ?row ?d1 = Inr d'"
  then have "md_memories d' = md_memories ?d1 @ [?row]" by (rule insertMemory_rows)
  moreover have "mr_ID ?row = i" by (simp add: newRow_def)
  ultimately show ?thesis using rowsFrom_supersede[of d "writePredecessor req ?active" ns "pm_Key req" now "{i}"]
    by (auto simp: rowsFrom_def)
qed

lemma memory_step_from:
  assumes "memory_step s_enc mc serialize d op d'" "memoryOK d"
  shows "rowsFrom (md_memories d) (md_memories d') (writtenID op)"
  using assms
proof (induction rule: memory_step.induct)
  case (put d i clock now req d' w)
  then show ?case using rowsFrom_put by simp
next
  case (archive d now ns key r d')
  then obtain P where "d' = fst (updateMemories P (archivedRow now 1) d)" using ArchiveMemory_update by blast
  then show ?case by (simp add: rowsFrom_update)
next
  case (index vecEnabled embedder now m d d')
  then obtain P where "md_memories d' = map (\<lambda>m. if P m then m\<lparr>mr_IndexedAt := Some now\<rparr> else m) (md_memories d)"
    using indexMemory_rows by blast
  then show ?case using rowsFrom_update[of "\<lambda>m. m\<lparr>mr_IndexedAt := Some now\<rparr>" d P] by (simp add: updateMemories_def)
next
  case (migrate d i kind revision attributes target d')
  then obtain P where "d' = fst (updateMemories P (\<lambda>m. m\<lparr>mr_PolicyAttributes := attributes, mr_MemoryKind := target,
     mr_IndexedAt := None, mr_Revision := mr_Revision m + 1\<rparr>) d)" using MigrateOneMemoryKindCAS_update by blast
  then show ?case by (simp add: rowsFrom_update)
next
  case (kind d version d' v)
  then show ?case by (auto simp: CreateMemoryKindVersion_def split: option.splits if_splits)
next
  case (loads d keys t d')
  then show ?case by (auto simp: IncrementMemoryLoads_def andThen_eq_Inr)
qed (simp_all add: ExpireMemoriesWithChanges_def AdminForceDeleteMemory_def HardDeleteEvictableUpdates_def Let_def rowsFrom_update
     TombstoneDeletedMemoriesWithChanges_def HardDeleteExpiredTombstonesWithChanges_def SetMemoryIndexedAt_def)

definition noActive :: "uuid \<Rightarrow> memoryDB \<Rightarrow> bool" where
  "noActive j d \<longleftrightarrow> (\<forall>m \<in> set (md_memories d). mr_ID m = j \<longrightarrow> \<not> isActive m)"

lemma noActive_from: "rowsFrom (md_memories d) (md_memories d') J \<Longrightarrow> j \<notin> J \<Longrightarrow> noActive j d \<Longrightarrow> noActive j d'"
  by (fastforce simp: rowsFrom_def noActive_def)

lemma noActive_run:
  assumes "reachable (\<lambda>x. x = d) (\<lambda>s op s'. memory_step s_enc mc serialize s op s' \<and> j \<notin> writtenID op) t" "memoryOK d" "noActive j d"
  shows "memoryOK t \<and> noActive j t"
  using assms
proof (induction rule: reachable.induct)
  case (next_state s op s')
  then show ?case using memory_step_from[of s_enc mc serialize s op s'] noActive_from memory_step_OK by blast
qed simp

text \<open>A write against a predecessor archives that row.\<close>

lemma put_archives_predecessor:
  assumes put: "PutMemory d s_enc mc i clock now req = Inr (d', w)" and ok: "memoryOK d"
    and p: "pm_AuthorizedPredecessor req = Some p" "px_Exists p"
  shows "mw_Revision w = px_Revision p + 1 \<and> noActive (px_ID p) d'"
proof (rule PutMemory_cases[OF put])
  fix ns json c k
  let ?active = "newestRow d ns (pm_Key req) ArchiveFilterExclude"
  let ?d1 = "fst (supersede (writePredecessor req ?active) ns (pm_Key req) now d)"
  let ?row = "newRow req ns i c (expiryOf clock (pm_TTLSeconds req)) now k (nextRevision ?active)"
  assume exp: "\<not> expectationFails req ?active" and ins: "insertMemory ?row ?d1 = Inr d'" and rev: "mw_Revision w = nextRevision ?active"
  obtain a where a: "?active = Some a" "mr_ID a = px_ID p" "mr_Revision a = px_Revision p"
    using exp p by (auto simp: expectationFails_def split: option.splits)
  have here: "a \<in> set (md_memories d)" "isActive a" using newestRow_Some[OF a(1)] by simp_all
  let ?P = "\<lambda>m. mr_ID m = px_ID p \<and> mr_Revision m = px_Revision p \<and> mr_ArchivedAt m = None"
  have d1: "md_memories ?d1 = map (\<lambda>m. if ?P m then archivedRow now 0 m else m) (md_memories d)"
    using p by (simp add: supersede_def writePredecessor_def updateMemories_def)
  have "m = a" if "m \<in> set (md_memories d)" "mr_ID m = px_ID p" for m using id_unique[OF ok that(1) here(1)] that(2) a(2) by simp
  then have "noActive (px_ID p) ?d1" using a(3) unfolding noActive_def d1 by (auto simp: archivedRow_def isActive_def)
  moreover have "archivedRow now 0 a \<in> set (md_memories ?d1)" using here a(2,3) unfolding d1 by (auto simp: isActive_def intro!: image_eqI[of _ _ a])
  then have "i \<noteq> px_ID p" using ins a(2) by (auto simp: insertMemory_def list_ex_iff newRow_def archivedRow_def split: if_splits)
  ultimately have "noActive (px_ID p) d'" using insertMemory_rows[OF ins] by (auto simp: noActive_def newRow_def)
  with rev a show ?thesis by (simp add: nextRevision_def)
qed

text \<open>
  C15 (predecessor_write_once): of the writes that were authorised against one row at most one succeeds, whatever operations
  come in between, and it continues the revision of that row.
\<close>

theorem predecessor_write_once:
  assumes reach: "reachable emptyMemory (memory_step s_enc mc serialize) d"
    and first: "PutMemory d s_enc mc i clock now req = Inr (d', w)" "pm_AuthorizedPredecessor req = Some p" "px_Exists p"
    and run: "reachable (\<lambda>x. x = d') (\<lambda>s op s'. memory_step s_enc mc serialize s op s' \<and> px_ID p \<notin> writtenID op) t"
    and later: "pm_AuthorizedPredecessor req' = Some p"
  shows "mw_Revision w = px_Revision p + 1 \<and> PutMemory t s_enc mc j clock' now' req' \<noteq> Inr result"
proof -
  have ok: "memoryOK d" by (rule memories.inv_reachable[OF reach])
  note archived = put_archives_predecessor[OF first(1) ok first(2,3)]
  have t: "memoryOK t" "noActive (px_ID p) t" using noActive_run[OF run PutMemory_OK[OF first(1) ok]] archived by blast+
  have "expectationFails req' (newestRow t ns (pm_Key req') ArchiveFilterExclude)" for ns
  proof (cases "newestRow t ns (pm_Key req') ArchiveFilterExclude")
    case (Some m)
    then have "mr_ID m \<noteq> px_ID p" using newestRow_Some[OF Some] t(2) by (auto simp: noActive_def)
    then show ?thesis using Some later first(3) by (simp add: expectationFails_def)
  qed (use later first(3) in \<open>simp add: expectationFails_def\<close>)
  then have "PutMemory t s_enc mc j clock' now' req' \<noteq> Inr result"
    using PutMemory_cases[of t s_enc mc j clock' now' req' "fst result" "snd result"] by auto
  with archived show ?thesis by simp
qed

section \<open>Searches\<close>

text \<open>The two spellings of the archive filter agree on well-formed rows.\<close>

lemma archive_filters_agree:
  "rowOK kinds m \<Longrightarrow> matchesMemoryArchiveFilter (mr_ArchivedAt m) (mr_DeletedReason m) archived = sqliteMemoryArchiveWhere archived m"
  by (cases archived) (auto simp: rowOK_def isActive_def matchesMemoryArchiveFilter_def sqliteMemoryArchiveWhere_def)

lemma latestJoin_candidate:
  assumes "m \<in> set (latestJoin (\<lambda>m. below (mr_Namespace m) \<and> archive m) rows)"
  shows "m \<in> set rows \<and> below (mr_Namespace m)"
  using assms by (auto simp: latestJoin_def Let_def list_ex_iff)

lemma readableItems_row:
  assumes "item \<in> set (readableItems s_enc mc rows)"
  shows "\<exists>m \<in> set rows. rowToItem s_enc mc m (decodedNS (mr_Namespace m)) = Inr item"
  using assms by (auto simp: readableItems_def map_filter_def split: sum.splits option.splits if_splits)

lemma rowToItem_fields:
  "rowToItem s_enc mc m ns = Inr item \<Longrightarrow> mi_ID item = mr_ID m \<and> mi_Namespace item = ns \<and> mi_Key item = mr_Key m \<and> mi_Revision item = mr_Revision m"
  by (auto simp: rowToItem_def andThen_eq_Inr)

text \<open>
  C16 (search_scope): everything a search returns is a stored memory of the archive state asked for, and its namespace is the
  prefix of the search or, for a prefix of unreserved characters without underscores, extends it up to the case of letters.
\<close>

theorem search_scope:
  assumes reach: "reachable emptyMemory (memory_step s_enc mc serialize) d"
    and search: "SearchMemories d s_enc mc sq = Inr items" and item: "item \<in> set items"
  shows "(\<exists>m \<in> set (md_memories d). mr_ID m = mi_ID item \<and> mr_Revision m = mi_Revision item
       \<and> mr_Namespace m = encodedNS (mi_Namespace item) \<and> sqliteMemoryArchiveWhere (sq_Archived sq) m)
     \<and> (mi_Namespace item = sq_NamespacePrefix sq
        \<or> (plainSegments (sq_NamespacePrefix sq)
           \<and> strict_prefix (map lowerAll (sq_NamespacePrefix sq)) (map lowerAll (mi_Namespace item))))"
proof -
  let ?p = "encodedNS (sq_NamespacePrefix sq)"
  let ?candidate = "\<lambda>m. namespaceUnder sqliteLike ?p (mr_Namespace m) \<and> sqliteMemoryArchiveWhere (sq_Archived sq) m"
  have p: "validNS (sq_NamespacePrefix sq)" using search by (auto simp: SearchMemories_def andThen_eq_Inr encodeNS_valid)
  let ?rows = "take (sq_Limit sq) (order_by (case sq_Sort sq of None \<Rightarrow> newestFirst | Some lt \<Rightarrow> lt)
      (filter (\<lambda>m. sqliteMemoryArchiveWhere (sq_Archived sq) m \<and> sq_Filter sq (mr_PolicyAttributes m) \<and> kindSelected (sq_MemoryKind sq) m)
         (latestJoin ?candidate (md_memories d))))"
  have rows: "items = readableItems s_enc mc ?rows"
    using search by (auto simp: SearchMemories_def andThen_eq_Inr encodeNS_valid Let_def)
  have joined: "m \<in> set (latestJoin ?candidate (md_memories d)) \<and> sqliteMemoryArchiveWhere (sq_Archived sq) m" if "m \<in> set ?rows" for m
    using in_set_takeD[OF that] by simp
  obtain m where m: "m \<in> set ?rows" "rowToItem s_enc mc m (decodedNS (mr_Namespace m)) = Inr item"
    using readableItems_row item rows by blast
  have here: "m \<in> set (md_memories d)" "namespaceUnder sqliteLike ?p (mr_Namespace m)"
    using joined[OF m(1)] latestJoin_candidate[of m "namespaceUnder sqliteLike ?p"] by blast+
  have "rowOK (md_kinds d) m" using here(1) memories.inv_reachable[OF reach] by (simp add: memoryOK_def rowsOK_def)
  then obtain segs where segs: "validNS segs" "mr_Namespace m = encodedNS segs" by (auto simp: rowOK_def)
  then have ns: "mi_Namespace item = segs" using rowToItem_fields[OF m(2)] DecodeNamespace_encodedNS
    by (simp add: decodedNS_def decodeNS_def validNS_def)
  have "EncodeNamespace (sq_NamespacePrefix sq) 0 = Inr ?p" "EncodeNamespace segs 0 = Inr (mr_Namespace m)"
    using p segs by (simp_all add: EncodeNamespace_Inr validNS_def)
  then show ?thesis using sqlite_condition here segs(2) ns rowToItem_fields[OF m(2)] joined[OF m(1)] by metis
qed

text \<open>The join with the latest candidates keeps every active row, since a key has at most one.\<close>

lemma latestJoin_active:
  assumes "distinct (map rowKey (filter isActive rows))"
  shows "filter (\<lambda>m. isActive m \<and> Q m) (latestJoin (\<lambda>m. below (mr_Namespace m) \<and> isActive m) rows)
    = filter (\<lambda>m. isActive m \<and> below (mr_Namespace m) \<and> Q m) rows"
proof -
  let ?cs = "filter (\<lambda>m. below (mr_Namespace m) \<and> isActive m) rows"
  have "x = m" if "m \<in> set ?cs" "x \<in> set ?cs" "rowKey x = rowKey m" for m x
    using assms that by (auto simp: distinct_map dest: inj_onD)
  then have rank: "latestRank ?cs m" if "m \<in> set ?cs" for m
    using that by (fastforce simp: latestRank_def list_all_iff rowKey_def)
  have "list_ex (\<lambda>c. latestRank ?cs c \<and> mr_Namespace m = mr_Namespace c \<and> mr_Key m = mr_Key c \<and> mr_CreatedAt m = mr_CreatedAt c) ?cs
      \<longleftrightarrow> below (mr_Namespace m)" if "m \<in> set rows" "isActive m" for m
  proof
    assume "below (mr_Namespace m)"
    then have "m \<in> set ?cs" using that by simp
    then show "list_ex (\<lambda>c. latestRank ?cs c \<and> mr_Namespace m = mr_Namespace c \<and> mr_Key m = mr_Key c \<and> mr_CreatedAt m = mr_CreatedAt c) ?cs"
      using rank[of m] unfolding list_ex_iff by (intro bexI[of _ m]) simp_all
  qed (auto simp: list_ex_iff)
  then show ?thesis unfolding latestJoin_def Let_def filter_filter by (intro filter_cong) auto
qed

text \<open>What a search of the active memories asks of a row.\<close>

definition searchMatches :: "MemorySearchQuery \<Rightarrow> memoryRow \<Rightarrow> bool" where
  "searchMatches sq m \<longleftrightarrow>
     mr_ArchivedAt m = None
     \<and> (decodedNS (mr_Namespace m) = sq_NamespacePrefix sq
        \<or> plainSegments (sq_NamespacePrefix sq)
           \<and> strict_prefix (map lowerAll (sq_NamespacePrefix sq)) (map lowerAll (decodedNS (mr_Namespace m))))
     \<and> sq_Filter sq (mr_PolicyAttributes m) \<and> kindSelected (sq_MemoryKind sq) m"

text \<open>
  C37 (search_returns_matching): a search of the active memories returns exactly the readable ones among the first
  \<open>sq_Limit\<close> matching memories in its order: the join with the latest candidates loses none and adds none. A memory
  matches when its namespace is the prefix of the search or, for a prefix of unreserved characters without
  underscores, extends it up to the case of letters, so the namespaces of two users whose names differ only in
  case are searched together.
\<close>

theorem search_returns_matching:
  assumes reach: "reachable emptyMemory (memory_step s_enc mc serialize) d"
    and p: "validNS (sq_NamespacePrefix sq)" and active: "sq_Archived sq = ArchiveFilterExclude"
  shows "SearchMemories d s_enc mc sq
    = Inr (readableItems s_enc mc (take (sq_Limit sq)
        (order_by (case sq_Sort sq of None \<Rightarrow> newestFirst | Some lt \<Rightarrow> lt) (filter (searchMatches sq) (md_memories d)))))"
proof -
  let ?p = "encodedNS (sq_NamespacePrefix sq)"
  let ?Q = "\<lambda>m. sq_Filter sq (mr_PolicyAttributes m) \<and> kindSelected (sq_MemoryKind sq) m"
  have ok: "rowsOK (md_kinds d) (md_memories d)" using memories.inv_reachable[OF reach] by (simp add: memoryOK_def)
  have where_active: "sqliteMemoryArchiveWhere (sq_Archived sq) m \<longleftrightarrow> isActive m" for m
    by (simp add: active sqliteMemoryArchiveWhere_def isActive_def)
  have "namespaceUnder sqliteLike ?p (mr_Namespace m) \<longleftrightarrow> decodedNS (mr_Namespace m) = sq_NamespacePrefix sq
      \<or> plainSegments (sq_NamespacePrefix sq)
         \<and> strict_prefix (map lowerAll (sq_NamespacePrefix sq)) (map lowerAll (decodedNS (mr_Namespace m)))"
    if "m \<in> set (md_memories d)" for m
  proof -
    have "rowOK (md_kinds d) m" using ok that by (simp add: rowsOK_def)
    then obtain segs where segs: "validNS segs" "mr_Namespace m = encodedNS segs" by (auto simp: rowOK_def)
    then have "decodedNS (mr_Namespace m) = segs" using DecodeNamespace_encodedNS by (simp add: decodedNS_def decodeNS_def validNS_def)
    moreover have "EncodeNamespace (sq_NamespacePrefix sq) 0 = Inr ?p" "EncodeNamespace segs 0 = Inr (mr_Namespace m)"
      using p segs by (simp_all add: EncodeNamespace_Inr validNS_def)
    ultimately show ?thesis using sqlite_condition by metis
  qed
  then have "filter (\<lambda>m. isActive m \<and> namespaceUnder sqliteLike ?p (mr_Namespace m) \<and> ?Q m) (md_memories d)
      = filter (searchMatches sq) (md_memories d)"
    by (intro filter_cong) (auto simp: searchMatches_def isActive_def)
  moreover have "distinct (map rowKey (filter isActive (md_memories d)))" using ok by (simp add: rowsOK_def)
  moreover have "encodeNS (sq_NamespacePrefix sq) = Inr ?p" using p by (simp add: encodeNS_valid)
  ultimately show ?thesis
    using latestJoin_active[of "md_memories d" ?Q "namespaceUnder sqliteLike ?p"]
    by (simp add: SearchMemories_def where_active Let_def)
qed

section \<open>Examples\<close>

text \<open>A codec for values with one text field.\<close>

definition textCodec :: MemoryCodec where
  "textCodec =
     \<lparr>mc_marshal = (\<lambda>v. case v of [(k, JString t)] \<Rightarrow> if k = ''text'' then Inr (CHR ''t'' # t) else Inl (MemoryFailure ''marshal'')
                        | _ \<Rightarrow> Inl (MemoryFailure ''marshal'')),
      mc_unmarshal = (\<lambda>s. case s of [] \<Rightarrow> None | _ # t \<Rightarrow> Some [(''text'', JString t)])\<rparr>"

lemma textCodec_OK: "codecOK textCodec"
  by (auto simp: codecOK_def textCodec_def split: list.splits prod.splits json.splits if_splits)

definition noEmbedding :: "string \<Rightarrow> string memory_result" where
  "noEmbedding s = Inr s"

definition sampleKind :: MemoryKindVersion where
  "sampleKind = \<lparr>kv_Name = ''default/v1'', kv_AttributeTypes = [], kv_AttributesRego = None, kv_Writable = True, kv_CreatedAt = 0\<rparr>"

definition sampleMemoryDB :: memoryDB where
  "sampleMemoryDB = \<lparr>md_memories = [], md_usage = [], md_vectors = [], md_kinds = [sampleKind]\<rparr>"

definition samplePut :: "namespace \<Rightarrow> string \<Rightarrow> MemoryPredecessorExpectation option \<Rightarrow> PutMemoryRequest" where
  "samplePut ns v p =
     \<lparr>pm_Namespace = ns, pm_Key = ''k'', pm_Value = [(''text'', JString v)], pm_TTLSeconds = 60, pm_Index = None,
      pm_PolicyAttributes = [], pm_ExpectedRevision = None, pm_AuthorizedPredecessor = p, pm_MemoryKind = ''default/v1''\<rparr>"

lemma sample_reachable: "reachable emptyMemory (memory_step s_enc mc serialize) sampleMemoryDB"
  by (rule reachable.start) (simp add: emptyMemory_def sampleMemoryDB_def)

text \<open>
  C14 (memory_invariant): in every reachable state each id has one row and each namespace and key at most one active row; a
  row is archived exactly when it has a reason, an active one has its value, namespaces are encoded ones, revisions are
  positive, kinds are registered; vectors are unique per memory and field, usage counters per key and positive.
\<close>

theorem memory_invariant:
  assumes "reachable emptyMemory (memory_step s_enc mc serialize) d"
  shows "memoryOK d"
  by (rule memories.inv_reachable[OF assms])

definition sampleWritten :: "(memoryDB \<times> MemoryWriteResult) memory_result" where
  "sampleWritten = PutMemory sampleMemoryDB None textCodec ''m1'' 0 0 (samplePut [''user'', ''ALICE'', ''notes''] ''secret'' None)"

lemma sample_written:
  obtains d w where "sampleWritten = Inr (d, w)" "mw_ID w = ''m1''" "mw_Revision w = 1" "mw_ExpiresAt w = Some 60000000000"
    "reachable emptyMemory (memory_step None textCodec noEmbedding) d"
proof -
  have "case sampleWritten of Inl _ \<Rightarrow> False | Inr (d, w) \<Rightarrow> mw_ID w = ''m1'' \<and> mw_Revision w = 1 \<and> mw_ExpiresAt w = Some 60000000000"
    by code_simp
  then obtain d w where w: "sampleWritten = Inr (d, w)" "mw_ID w = ''m1''" "mw_Revision w = 1" "mw_ExpiresAt w = Some 60000000000"
    by (auto split: sum.splits)
  have "memory_step None textCodec noEmbedding sampleMemoryDB
      (OpPut ''m1'' (pm_Namespace (samplePut [''user'', ''ALICE'', ''notes''] ''secret'' None)) (pm_Key (samplePut [''user'', ''ALICE'', ''notes''] ''secret'' None))) d"
    using w(1) unfolding sampleWritten_def by (rule memory_step.put)
  then show thesis using that w reachable.next_state[OF sample_reachable] by blast
qed

theorem memory_invariant_witness:
  "\<exists>d w. sampleWritten = Inr (d, w) \<and> map mr_Revision (md_memories d) = [1] \<and> memoryOK d"
proof (rule sample_written)
  fix d w
  assume w: "sampleWritten = Inr (d, w)" "reachable emptyMemory (memory_step None textCodec noEmbedding) d"
  have "case sampleWritten of Inl _ \<Rightarrow> False | Inr (d, w) \<Rightarrow> map mr_Revision (md_memories d) = [1]" by code_simp
  then have "map mr_Revision (md_memories d) = [1]" unfolding w(1) by simp
  then show ?thesis using w(1) memory_invariant[OF w(2)] by (intro exI[of _ d] exI[of _ w]) simp
qed

theorem memory_stays_readable_witness:
  "\<exists>d w item. sampleWritten = Inr (d, w)
     \<and> GetMemory (ExpireMemoriesWithChanges d 59999999999) None textCodec [''user'', ''ALICE'', ''notes''] ''k'' ArchiveFilterExclude = Inr (Some item)
     \<and> mi_Value item = Some [(''text'', JString ''secret'')]"
proof (rule sample_written)
  let ?req = "samplePut [''user'', ''ALICE'', ''notes''] ''secret'' None"
  fix d w
  assume w: "sampleWritten = Inr (d, w)" "mw_ExpiresAt w = Some 60000000000"
  let ?step = "\<lambda>s op s'. memory_step None textCodec noEmbedding s op s' \<and> leaves ''m1'' (pm_Namespace ?req) (pm_Key ?req) (mw_ExpiresAt w) op"
  have expire: "?step d (OpExpire 59999999999) (ExpireMemoriesWithChanges d 59999999999)" using w(2) by (simp add: memory_step.expire)
  have "reachable (\<lambda>x. x = d) ?step d" by (rule reachable.start) (rule refl)
  then have run: "reachable (\<lambda>x. x = d) ?step (ExpireMemoriesWithChanges d 59999999999)"
    using reachable.next_state[of "\<lambda>x. x = d" ?step d "OpExpire 59999999999"] expire by blast
  have "cipherOK None" "cipherNonEmpty None" by (simp_all add: cipherOK_def cipherNonEmpty_def)
  from memory_stays_readable[OF sample_reachable this textCodec_OK w(1)[unfolded sampleWritten_def] run]
  obtain item where "GetMemory (ExpireMemoriesWithChanges d 59999999999) None textCodec (pm_Namespace ?req) (pm_Key ?req) ArchiveFilterExclude
      = Inr (Some item)" "mi_Value item = Some (pm_Value ?req)" by (elim exE conjE)
  moreover have "pm_Namespace ?req = [''user'', ''ALICE'', ''notes'']" "pm_Key ?req = ''k''" "pm_Value ?req = [(''text'', JString ''secret'')]"
    by (simp_all add: samplePut_def)
  ultimately show ?thesis using w(1) by (intro exI[of _ d] exI[of _ w] exI[of _ item]) simp
qed

theorem predecessor_write_once_witness:
  "\<exists>d w d' w'. sampleWritten = Inr (d, w)
     \<and> PutMemory d None textCodec ''m2'' 1 1 (samplePut [''user'', ''ALICE'', ''notes''] ''new'' (Some \<lparr>px_Exists = True, px_ID = ''m1'', px_Revision = 1\<rparr>)) = Inr (d', w')
     \<and> mw_Revision w' = 2
     \<and> PutMemory d' None textCodec ''m3'' 2 2 (samplePut [''user'', ''ALICE'', ''notes''] ''lost'' (Some \<lparr>px_Exists = True, px_ID = ''m1'', px_Revision = 1\<rparr>)) \<noteq> Inr (d', w')"
proof (rule sample_written)
  let ?p = "\<lparr>px_Exists = True, px_ID = ''m1'', px_Revision = 1\<rparr> :: MemoryPredecessorExpectation"
  let ?req = "\<lambda>v. samplePut [''user'', ''ALICE'', ''notes''] v (Some ?p)"
  fix d w
  assume w: "sampleWritten = Inr (d, w)" "reachable emptyMemory (memory_step None textCodec noEmbedding) d"
  have "case sampleWritten of Inl _ \<Rightarrow> False
      | Inr (d, w) \<Rightarrow> (case PutMemory d None textCodec ''m2'' 1 1 (?req ''new'') of Inl _ \<Rightarrow> False | Inr _ \<Rightarrow> True)" by code_simp
  then have "\<not> isl (PutMemory d None textCodec ''m2'' 1 1 (?req ''new''))" unfolding w(1) by (auto split: sum.splits)
  then obtain d' w' where p: "PutMemory d None textCodec ''m2'' 1 1 (?req ''new'') = Inr (d', w')" by (metis old.sum.exhaust sum.disc(1) surj_pair)
  have run: "reachable (\<lambda>x. x = d') (\<lambda>s op s'. memory_step None textCodec noEmbedding s op s' \<and> px_ID ?p \<notin> writtenID op) d'"
    by (rule reachable.start) simp
  have "pm_AuthorizedPredecessor (?req v) = Some ?p" for v by (simp add: samplePut_def)
  then have "mw_Revision w' = px_Revision ?p + 1 \<and> PutMemory d' None textCodec ''m3'' 2 2 (?req ''lost'') \<noteq> Inr (d', w')"
    using predecessor_write_once[OF w(2) p _ _ run, of "?req ''lost''" "''m3''" 2 2 "(d', w')"] by simp
  then show ?thesis using w(1) p by (intro exI[of _ d] exI[of _ w] exI[of _ d'] exI[of _ w']) simp
qed

definition prefixQuery :: "namespace \<Rightarrow> MemorySearchQuery" where
  "prefixQuery ns = \<lparr>sq_NamespacePrefix = ns, sq_Filter = (\<lambda>_. True), sq_Limit = 10, sq_Archived = ArchiveFilterExclude,
     sq_MemoryKind = [], sq_Sort = None\<rparr>"

text \<open>A search below the namespace of the user alice returns the memory, with its value, that the user ALICE wrote.\<close>

theorem search_returns_matching_witness:
  "\<exists>d w items. sampleWritten = Inr (d, w) \<and> validNS [''user'', ''alice'']
     \<and> SearchMemories d None textCodec (prefixQuery [''user'', ''alice'']) = Inr items
     \<and> map mi_Namespace items = [[''user'', ''ALICE'', ''notes'']] \<and> map mi_Value items = [Some [(''text'', JString ''secret'')]]"
proof (rule sample_written)
  fix d w
  assume w: "sampleWritten = Inr (d, w)" "reachable emptyMemory (memory_step None textCodec noEmbedding) d"
  let ?sq = "prefixQuery [''user'', ''alice'']"
  let ?found = "\<lambda>d. readableItems None textCodec (take 10 (order_by newestFirst (filter (searchMatches ?sq) (md_memories d))))"
  have v: "validNS [''user'', ''alice'']" by code_simp
  then have result: "SearchMemories d None textCodec ?sq = Inr (?found d)"
    using search_returns_matching[OF w(2), of ?sq] by (simp add: prefixQuery_def)
  have run: "case sampleWritten of Inl _ \<Rightarrow> False
      | Inr (d, w) \<Rightarrow> map mi_Namespace (?found d) = [[''user'', ''ALICE'', ''notes'']]
          \<and> map mi_Value (?found d) = [Some [(''text'', JString ''secret'')]]"
    by code_simp
  have "map mi_Namespace (?found d) = [[''user'', ''ALICE'', ''notes'']] \<and> map mi_Value (?found d) = [Some [(''text'', JString ''secret'')]]"
    using run by (simp add: w(1))
  then show ?thesis using result w(1) v by (intro exI[of _ d] exI[of _ w] exI[of _ "?found d"] conjI) simp_all
qed

theorem search_scope_witness:
  "\<exists>d w items item. sampleWritten = Inr (d, w) \<and> SearchMemories d None textCodec (prefixQuery [''user'', ''ALICE'']) = Inr items
     \<and> item \<in> set items \<and> strict_prefix (map lowerAll [''user'', ''ALICE'']) (map lowerAll (mi_Namespace item))"
proof (rule sample_written)
  fix d w
  assume w: "sampleWritten = Inr (d, w)" "reachable emptyMemory (memory_step None textCodec noEmbedding) d"
  have "case sampleWritten of Inl _ \<Rightarrow> False
      | Inr (d, w) \<Rightarrow> (case SearchMemories d None textCodec (prefixQuery [''user'', ''ALICE'']) of Inl _ \<Rightarrow> False
          | Inr items \<Rightarrow> map mi_Namespace items = [[''user'', ''ALICE'', ''notes'']])" by code_simp
  then obtain items where i: "SearchMemories d None textCodec (prefixQuery [''user'', ''ALICE'']) = Inr items"
      "map mi_Namespace items = [[''user'', ''ALICE'', ''notes'']]"
    unfolding w(1) by (cases "SearchMemories d None textCodec (prefixQuery [''user'', ''ALICE''])") auto
  then obtain item where item: "item \<in> set items" "mi_Namespace item = [''user'', ''ALICE'', ''notes'']" by (cases items) auto
  have "sq_NamespacePrefix (prefixQuery [''user'', ''ALICE'']) = [''user'', ''ALICE'']" by (simp add: prefixQuery_def)
  then have "strict_prefix (map lowerAll [''user'', ''ALICE'']) (map lowerAll (mi_Namespace item))"
    using search_scope[OF w(2) i(1) item(1)] item(2) by auto
  then show ?thesis using w(1) i(1) item(1) by (intro exI[of _ d] exI[of _ w] exI[of _ items] exI[of _ item]) simp
qed

end
