(* ===== verification/Spec2Isabelle.thy ===== *)
theory Spec2Isabelle
  imports History Stream_Facts Attachment_Facts Reading_Facts Checkpoint_Facts Retry Cluster_Runs Memory_Facts
begin

text \<open>
  A verification library for the memory service (the Go code under \<open>src/internal/\<close>): a service that keeps the
  conversations of users with AI agents, lets them fork, share and synchronise them, stores attachments, keeps
  memories of agents under namespaces, encrypts what it stores, and clusters what a user has stored.
  This is the root theory; it holds no definitions of its own.

  \<^bold>\<open>The program and its parts.\<close> The interface \<open>MemoryStore\<close> (\<open>registry/store/plugin.go\<close>) is implemented three times; the
  SQLite store (\<open>plugin/store/sqlite/sqlite.go\<close>) is the one modelled, with the helpers all stores share
  (\<open>registry/store/*.go\<close>, \<open>plugin/store/sqlentry\<close>, \<open>model\<close>). A \<^emph>\<open>conversation\<close> belongs to a \<^emph>\<open>group\<close>; the conversations of a
  group are forks of one root, and members have access to the whole group. An \<^emph>\<open>entry\<close> belongs to one conversation and one
  channel (history, context, journal). A fork sees a prefix of its parent's entries, recorded by one ancestry row per
  ancestor, followed by its own. The store calls the encryption service (\<open>dataencryption\<close>), which calls providers
  (\<open>plugin/encrypt\<close>); attachments keep their content in a blob provider, and a task queue with workers deletes it
  (\<open>service/taskprocessor.go\<close>, \<open>service/attachment_cleanup.go\<close>). The clusterer (\<open>knowledge\<close>) reads embeddings and keeps
  clusters of its own.

  \<^bold>\<open>Theories, and the code they model.\<close>
  \<^item> \<open>Prelude\<close>: results, SQL truth values, ordering of rows, identifiers and times; \<open>Transitions\<close>: reachability and the
    locales for invariants and monotone quantities of transition systems.
  \<^item> \<open>Entries\<close>: rows of \<open>model/model.go\<close> and the entry order in its five spellings, which are shown to be one order.
    \<open>Pagination\<close>: \<open>PaginateEntries\<close>, the keyset pager \<open>sqlentry/pager.go\<close>, the epoch and time filters; the pager refines
    in-memory pagination, and following cursors visits every row once.
  \<^item> \<open>Json\<close>: number normalisation and semantic equality (\<open>entries.go\<close>, \<open>metadata.go\<close>); \<open>Fingerprint\<close>: the byte encoding
    \<open>writeBatchValue\<close>, injective up to semantic equality.
  \<^item> \<open>Database\<close>: the tables as lists of rows, access levels, \<open>requireAccess\<close>, the field cipher. \<open>Ancestry\<close>: \<open>ancestry.go\<close>
    and the join all visible-entry queries share. \<open>Conversations\<close> and \<open>Creation\<close>: creating, forking, reading, updating,
    archiving conversations; a fork sees exactly the prefix before its fork point; a repeated creation is recognised.
  \<^item> \<open>Append_Batch\<close>, \<open>Append\<close>, \<open>Append_Facts\<close>: append requests, batch definitions with fingerprints, \<open>appendEntries\<close>; an
    append extends its own view only. \<open>Retry\<close>: \<open>FindSequencedAppendMatch\<close> and \<open>RecoverAppendBatch\<close>; an append sent again
    is recovered whatever happened since.
  \<^item> \<open>Sync\<close>, \<open>Sync_Facts\<close>: \<open>SyncAgentEntry\<close> with the entries cache. \<open>Memberships\<close>: sharing, access changes, ownership
    transfers.
  \<^item> \<open>Machine\<close>, \<open>History\<close>: the store as a state machine whose steps are the successful operations above. \<open>Machine\<close> proves the
    store invariant of all reachable states; \<open>History\<close> that views only grow at their end, by writers, and that access
    changes only by managers or by accepting a transfer.
  \<^item> \<open>Reading\<close>, \<open>Reading_Facts\<close>: \<open>GetEntries\<close>, \<open>AdminGetEntries\<close> and the lookups, which choose among eight SQL queries;
    what they return is the page of one specification, and never outside the reader's scope.
  \<^item> \<open>Envelope\<close>, \<open>Dek\<close>: the MSEH envelope and the encryption service with the plain and dek providers, an implementation
    of the cipher the store assumes. \<open>Attachment_Stream\<close>, \<open>Stream_Facts\<close>: the record format of encrypted attachments;
    round trip for every chunking, and integrity against a cut, reordered or extended stream.
  \<^item> \<open>Tasks\<close>, \<open>Attachments\<close>, \<open>Attachment_Facts\<close>: the task queue, the attachment table, and the state machine of store, blob
    provider and workers, in which content that an attachment refers to is never deleted.
  \<^item> \<open>Checkpoints\<close>, \<open>Checkpoint_Facts\<close>: compare-and-set checkpoints with leases; leases exclude, revisions are used once.
  \<^item> \<open>Clustering\<close>, \<open>Clustering_Facts\<close>, \<open>Cluster_Runs\<close>: DBSCAN (\<open>knowledge/dbscan.go\<close>), proved to compute the density-based
    clustering, the diff with stored clusters (\<open>diff.go\<close>), and a run that stores it (\<open>clusterer.go\<close>, \<open>postgres_store.go\<close>).
  \<^item> \<open>Namespaces\<close>: the encoding of memory namespaces (\<open>episodic/namespace.go\<close>) and what its prefix pattern matches.
    \<open>Memories\<close>, \<open>Memory_Facts\<close>: the episodic memory store (\<open>sqlite/episodic_store.go\<close>, \<open>episodic_kind.go\<close>) and the indexer
    (\<open>service/episodic_indexer.go\<close>) as a state machine; written memories stay readable, authorised writes succeed once, and
    searches stay below their namespace prefix up to the case of letters.

  \<^bold>\<open>How the model relates to the code.\<close> A store operation is a function from the database to an error or a new database and
  a result; an operation runs in one transaction, so an error changes nothing. Where the code ignores an error or writes
  outside the transaction, the definition does too. A gorm query is written as the list function it denotes, in the order it asks for. Go's \<open>time.Now\<close>,
  \<open>uuid.New\<close> and random bytes are arguments; hypotheses say that new ids are unused. Machine integers are words or carry
  their wrap-around (\<open>Envelope\<close>, \<open>Attachment_Stream\<close>, \<open>nextEpoch\<close>). An index out of range or a failed type assertion is
  \<open>None\<close>, and the theorems show that it does not occur.

  \<^bold>\<open>Parameters.\<close> Code outside the repository is an argument with its documented laws as hypotheses: JSON text decoding and
  SHA-256 (records of codecs), AES-GCM and HKDF (\<open>AEAD\<close>, locales in \<open>Dek\<close> and \<open>Stream_Facts\<close>), the blob provider, the filter and
  sort expressions SQLite evaluates on attributes, the float arithmetic of \<open>Clustering\<close> (only that
  multiplication commutes is used), the iteration order of Go maps (any permutation), and keyword extraction. Every hypothesis is met by a concrete instance in the witness of the theorem that has it.

  \<^bold>\<open>Bounds and termination.\<close> No definition uses fuel: loops are structural recursions or functions with a measure (the
  seed queue of DBSCAN decreases in the number of points that are not labelled). Page limits, header limits, record sizes
  and the 32-bit record index are those of the code.

  \<^bold>\<open>Behaviours found.\<close> \<open>Sync_Facts\<close> exhibits a stale cache between two agents of a client, \<open>History\<close> a group left without an
  owner, \<open>Dek\<close> a title that cannot be read back when plain is the primary provider, and \<open>Memory_Facts\<close> a search that returns
  the memory of a user whose name differs in case.

  \<^bold>\<open>Not modelled.\<close> The PostgreSQL and MongoDB stores repeat the interface in other query languages; the gRPC and REST layers
  and the generated code convert messages; event publication, caches, blob stores, key services, embedders and vector
  stores are clients of external systems; the policies of episodic memories are run by a Rego engine; the listings of
  conversations and the administrative listings of memories build SQL text from dynamic filters. Of the modelled files, \<open>RepairStoredEntryAttachmentLinks\<close>, the search
  and eviction operations of the SQLite store, and the scheduling loop of the clusterer are left out.
\<close>

end
